(* ===== verification/C_Prelude.thy ===== *)
theory C_Prelude
  imports Main "HOL-Library.Word"
begin

text \<open>
  Shared vocabulary of the development.

  A C string is modelled as the list of its bytes before the terminating NUL, so
  \<open>*p == '\0'\<close> is "the rest of the list is empty", a pointer into a string is the
  suffix it points at, and a NULL pointer is \<open>None\<close> of an option. The gateway never
  calls \<^verbatim>\<open>setlocale\<close>, so the \<^verbatim>\<open><ctype.h>\<close> predicates are those of the "C" locale:
  bytes of 128 and above are in no class.
\<close>

named_theorems cctype \<open>facts about the character classes\<close>
named_theorems cstr \<open>facts about the string routines\<close>

type_synonym cstring = string
type_synonym int_rc = int

subsection \<open>Character classes of the "C" locale\<close>

definition byte :: "char \<Rightarrow> nat" where
  "byte c = of_char c"

definition c_isspace :: "char \<Rightarrow> bool" where
  "c_isspace c \<longleftrightarrow> byte c = 32 \<or> (9 \<le> byte c \<and> byte c \<le> 13)"

definition c_isdigit :: "char \<Rightarrow> bool" where
  "c_isdigit c \<longleftrightarrow> 48 \<le> byte c \<and> byte c \<le> 57"

definition c_isupper :: "char \<Rightarrow> bool" where
  "c_isupper c \<longleftrightarrow> 65 \<le> byte c \<and> byte c \<le> 90"

definition c_islower :: "char \<Rightarrow> bool" where
  "c_islower c \<longleftrightarrow> 97 \<le> byte c \<and> byte c \<le> 122"

definition c_isalpha :: "char \<Rightarrow> bool" where
  "c_isalpha c \<longleftrightarrow> c_isupper c \<or> c_islower c"

definition c_isalnum :: "char \<Rightarrow> bool" where
  "c_isalnum c \<longleftrightarrow> c_isalpha c \<or> c_isdigit c"

definition c_toupper :: "char \<Rightarrow> char" where
  "c_toupper c = (if c_islower c then char_of (byte c - 32) else c)"

definition c_tolower :: "char \<Rightarrow> char" where
  "c_tolower c = (if c_isupper c then char_of (byte c + 32) else c)"

lemma byte_char_of [simp]: "byte (char_of n) = n mod 256"
  by (simp add: byte_def)

lemma byte_lt [simp]: "byte c < 256"
  by (metis byte_def char_of_char byte_char_of mod_less_divisor zero_less_numeral)

lemma byte_inject: "byte a = byte b \<longleftrightarrow> a = b"
  by (simp add: byte_def)

lemmas ctype_defs [cctype] =
  c_isspace_def c_isdigit_def c_isupper_def c_islower_def c_isalpha_def c_isalnum_def

lemma c_isspace_toupper [simp]: "c_isspace (c_toupper c) = c_isspace c"
  by (auto simp: c_toupper_def c_islower_def c_isspace_def)

lemma c_toupper_idem [simp]: "c_toupper (c_toupper c) = c_toupper c"
  by (auto simp: c_toupper_def c_islower_def)

lemma not_space_alnum [simp]: "c_isalnum c \<Longrightarrow> \<not> c_isspace c"
  by (auto simp: ctype_defs)

lemma digit_alnum [simp]: "c_isdigit c \<Longrightarrow> c_isalnum c"
  by (simp add: c_isalnum_def)

lemma digit_not_space [simp]: "c_isdigit c \<Longrightarrow> \<not> c_isspace c"
  by simp

lemma digit_not_alpha [simp]: "c_isdigit c \<Longrightarrow> \<not> c_isalpha c"
  by (auto simp: ctype_defs)

lemma tolower_upper [simp]:
  "c_tolower (CHR ''A'') = CHR ''a''"
  "c_tolower (CHR ''B'') = CHR ''b''"
  "c_tolower (CHR ''C'') = CHR ''c''"
  "c_tolower (CHR ''D'') = CHR ''d''"
  "c_tolower (CHR ''E'') = CHR ''e''"
  "c_tolower (CHR ''F'') = CHR ''f''"
  "c_tolower (CHR ''G'') = CHR ''g''"
  "c_tolower (CHR ''H'') = CHR ''h''"
  "c_tolower (CHR ''I'') = CHR ''i''"
  "c_tolower (CHR ''J'') = CHR ''j''"
  "c_tolower (CHR ''K'') = CHR ''k''"
  "c_tolower (CHR ''L'') = CHR ''l''"
  "c_tolower (CHR ''M'') = CHR ''m''"
  "c_tolower (CHR ''N'') = CHR ''n''"
  "c_tolower (CHR ''O'') = CHR ''o''"
  "c_tolower (CHR ''P'') = CHR ''p''"
  "c_tolower (CHR ''Q'') = CHR ''q''"
  "c_tolower (CHR ''R'') = CHR ''r''"
  "c_tolower (CHR ''S'') = CHR ''s''"
  "c_tolower (CHR ''T'') = CHR ''t''"
  "c_tolower (CHR ''U'') = CHR ''u''"
  "c_tolower (CHR ''V'') = CHR ''v''"
  "c_tolower (CHR ''W'') = CHR ''w''"
  "c_tolower (CHR ''X'') = CHR ''x''"
  "c_tolower (CHR ''Y'') = CHR ''y''"
  "c_tolower (CHR ''Z'') = CHR ''z''"
  by (simp_all add: c_tolower_def c_isupper_def byte_inject [symmetric]) (simp_all add: byte_def)

lemma tolower_other [simp]:
  "c_tolower (CHR ''0'') = CHR ''0''"
  "c_tolower (CHR ''1'') = CHR ''1''"
  "c_tolower (CHR ''2'') = CHR ''2''"
  "c_tolower (CHR ''3'') = CHR ''3''"
  "c_tolower (CHR ''4'') = CHR ''4''"
  "c_tolower (CHR ''5'') = CHR ''5''"
  "c_tolower (CHR ''6'') = CHR ''6''"
  "c_tolower (CHR ''7'') = CHR ''7''"
  "c_tolower (CHR ''8'') = CHR ''8''"
  "c_tolower (CHR ''9'') = CHR ''9''"
  "c_tolower (CHR ''-'') = CHR ''-''"
  "c_tolower (CHR '':'') = CHR '':''"
  "c_tolower (CHR ''.'') = CHR ''.''"
  "c_tolower (CHR '' '') = CHR '' ''"
  by (simp_all add: c_tolower_def c_isupper_def byte_def)

lemma sep_chars [simp]:
  "\<not> c_isalnum (CHR ''-'')" "\<not> c_isspace (CHR ''-'')" "\<not> c_isalnum (CHR '':'')"
  "\<not> c_isspace (CHR '':'')" "\<not> c_isalnum (CHR '' '')" "c_isspace (CHR '' '')"
  "\<not> c_isalnum (CHR ''.'')" "\<not> c_isspace (CHR ''.'')"
  by (simp_all add: ctype_defs byte_def)

subsection \<open>String routines\<close>

text \<open>\<^verbatim>\<open>strncasecmp(p, w, strlen(w)) == 0\<close>: \<open>p\<close> starts with \<open>w\<close>, ignoring case.\<close>

definition ci_prefix :: "cstring \<Rightarrow> cstring \<Rightarrow> bool" where
  "ci_prefix w p \<longleftrightarrow>
     length w \<le> length p \<and> map c_tolower (take (length w) p) = map c_tolower w"

text \<open>\<^verbatim>\<open>strcasecmp(a, b) == 0\<close>.\<close>

definition ci_eq :: "cstring \<Rightarrow> cstring \<Rightarrow> bool" where
  "ci_eq a b \<longleftrightarrow> map c_tolower a = map c_tolower b"

text \<open>\<^verbatim>\<open>strncmp(p, w, strlen(w)) == 0\<close>.\<close>

definition cs_prefix :: "cstring \<Rightarrow> cstring \<Rightarrow> bool" where
  "cs_prefix w p \<longleftrightarrow> take (length w) p = w"

text \<open>\<^verbatim>\<open>strchr\<close> and \<^verbatim>\<open>strstr\<close>: the offset of the first occurrence.\<close>

fun c_strchr :: "cstring \<Rightarrow> char \<Rightarrow> nat option" where
  "c_strchr [] c = None"
| "c_strchr (x # xs) c = (if x = c then Some 0 else map_option Suc (c_strchr xs c))"

fun c_strstr :: "cstring \<Rightarrow> cstring \<Rightarrow> nat option" where
  "c_strstr [] w = (if w = [] then Some 0 else None)"
| "c_strstr (x # xs) w =
     (if cs_prefix w (x # xs) then Some 0 else map_option Suc (c_strstr xs w))"

text \<open>
  \<^verbatim>\<open>strncpy(dst, src, sizeof(dst) - 1)\<close> into a zeroed buffer of \<open>n\<close> bytes leaves the
  first \<open>n - 1\<close> bytes of the source.
\<close>

definition c_strncpy :: "nat \<Rightarrow> cstring \<Rightarrow> cstring" where
  "c_strncpy n s = take (n - 1) s"

text \<open>\<^verbatim>\<open>snprintf\<close> into a buffer of \<open>n > 0\<close> bytes keeps at most \<open>n - 1\<close> of them.\<close>

definition c_snprintf :: "nat \<Rightarrow> cstring \<Rightarrow> cstring" where
  "c_snprintf n s = take (n - 1) s"

lemma length_c_strncpy [simp, cstr]: "length (c_strncpy n s) = min (length s) (n - 1)"
  by (simp add: c_strncpy_def min.commute)

lemma c_strncpy_id [simp, cstr]: "length s < n \<Longrightarrow> c_strncpy n s = s"
  by (simp add: c_strncpy_def)

lemma c_snprintf_id [simp, cstr]: "length s < n \<Longrightarrow> c_snprintf n s = s"
  by (simp add: c_snprintf_def)

lemma c_strchr_Some [cstr]:
  "c_strchr s c = Some i \<Longrightarrow> i < length s \<and> s ! i = c \<and> c \<notin> set (take i s)"
  by (induction s arbitrary: i) (auto split: if_splits simp: nth_Cons take_Cons)

lemma c_strchr_None [cstr]: "c_strchr s c = None \<longleftrightarrow> c \<notin> set s"
  by (induction s) auto

lemma c_strchr_append [cstr]:
  "c \<notin> set a \<Longrightarrow> c_strchr (a @ c # b) c = Some (length a)"
  by (induction a) auto

lemma c_strstr_Some [cstr]:
  "c_strstr s w = Some i \<Longrightarrow> i \<le> length s \<and> cs_prefix w (drop i s)"
  by (induction s w arbitrary: i rule: c_strstr.induct)
     (auto split: if_splits simp: cs_prefix_def)

lemma cs_prefix_append [simp, cstr]: "cs_prefix w (w @ s)"
  by (simp add: cs_prefix_def)

lemma c_strstr_infix [cstr]: "\<exists>i. c_strstr (a @ w @ b) w = Some i"
proof (induction a)
  case Nil
  have "cs_prefix w (w @ b)" by simp
  then show ?case by (cases "w @ b") (auto simp del: cs_prefix_append)
next
  case (Cons x a)
  then show ?case by auto
qed

subsection \<open>Decimal output\<close>

definition digit :: "nat \<Rightarrow> char" where
  "digit d = char_of (48 + d)"

fun dec :: "nat \<Rightarrow> cstring" where
  "dec n = (if n < 10 then [digit n] else dec (n div 10) @ [digit (n mod 10)])"

declare dec.simps [simp del]

text \<open>\<^verbatim>\<open>%d\<close> of a signed value and \<^verbatim>\<open>%0<w>d\<close> of a non-negative one.\<close>

definition dec_int :: "int \<Rightarrow> cstring" where
  "dec_int i = (if i < 0 then CHR ''-'' # dec (nat (- i)) else dec (nat i))"

definition dec_pad :: "nat \<Rightarrow> nat \<Rightarrow> cstring" where
  "dec_pad w n = replicate (w - length (dec n)) (CHR ''0'') @ dec n"

lemma byte_digit [simp]: "d < 10 \<Longrightarrow> byte (digit d) = 48 + d"
  by (simp add: digit_def)

lemma c_isdigit_digit [simp]: "d < 10 \<Longrightarrow> c_isdigit (digit d)"
  by (simp add: c_isdigit_def)

lemma digit_0 [simp]: "digit 0 = CHR ''0''"
  by (simp add: byte_inject [symmetric]) (simp add: byte_def)

lemma dec_nonempty [simp]: "dec n \<noteq> []"
  by (subst dec.simps) simp

lemma dec_all_digits: "c \<in> set (dec n) \<Longrightarrow> c_isdigit c"
proof (induction n rule: dec.induct)
  case (1 n)
  then show ?case by (cases "n < 10") (auto simp: dec.simps [of n])
qed

lemma dec_less_10: "n < 10 \<Longrightarrow> dec n = [digit n]"
  by (simp add: dec.simps)

lemma dec_less_100: "10 \<le> n \<Longrightarrow> n < 100 \<Longrightarrow> dec n = [digit (n div 10), digit (n mod 10)]"
  by (simp add: dec.simps [of n] dec_less_10)

lemma dec_pad_2: "n < 100 \<Longrightarrow> dec_pad 2 n = [digit (n div 10), digit (n mod 10)]"
  by (cases "n < 10") (auto simp: dec_pad_def dec_less_10 dec_less_100 numeral_2_eq_2)

lemma length_dec_le: "n < 10 ^ k \<Longrightarrow> 0 < k \<Longrightarrow> length (dec n) \<le> k"
proof (induction n arbitrary: k rule: dec.induct)
  case (1 n)
  show ?case
  proof (cases "n < 10")
    case True
    with "1.prems" show ?thesis by (simp add: dec.simps [of n])
  next
    case False
    with "1.prems" have "1 < k"
      by (metis One_nat_def Suc_lessI linorder_not_less power_one_right)
    moreover from "1.prems" calculation have "n div 10 < 10 ^ (k - 1)"
      by (simp add: less_mult_imp_div_less power_Suc2 [symmetric] del: power_Suc)
    ultimately have "length (dec (n div 10)) \<le> k - 1"
      using "1.IH" False by simp
    with False \<open>1 < k\<close> show ?thesis by (simp add: dec.simps [of n])
  qed
qed

lemma length_dec_pad [simp]: "n < 10 ^ w \<Longrightarrow> 0 < w \<Longrightarrow> length (dec_pad w n) = w"
  by (simp add: dec_pad_def length_dec_le)

end
