(* ===== verification/Ring_Buffer.thy ===== *)
theory Ring_Buffer
  imports C_Prelude
begin

text \<open>
  The library behind the three queues of the gateway (\<^verbatim>\<open>generic_queue.c\<close>,
  \<^verbatim>\<open>session_touch_queue.c\<close>, \<^verbatim>\<open>queue_manager.c\<close>). Each keeps a circular array with
  \<open>head\<close>, \<open>tail\<close> and \<open>count\<close>; \<open>ring_list\<close> reads the array as the list it stands for.
  The locale \<open>bounded_fifo\<close> is the contract all three promise to their callers, and its
  lemmas are proved once, for any interleaving of the (mutex-protected) operations.
\<close>

subsection \<open>Reading a circular array\<close>

definition ring_list :: "'a list \<Rightarrow> nat \<Rightarrow> nat \<Rightarrow> 'a list" where
  "ring_list xs h n = map (\<lambda>i. xs ! ((h + i) mod length xs)) [0..<n]"

definition ring_wf :: "'a list \<Rightarrow> nat \<Rightarrow> nat \<Rightarrow> nat \<Rightarrow> nat \<Rightarrow> bool" where
  "ring_wf xs cap h t n \<longleftrightarrow>
     length xs = cap \<and> 0 < cap \<and> h < cap \<and> n \<le> cap \<and> t = (h + n) mod cap"

named_theorems ring \<open>facts about circular arrays\<close>

lemma length_ring_list [simp]: "length (ring_list xs h n) = n"
  by (simp add: ring_list_def)

lemma ring_list_0 [simp]: "ring_list xs h 0 = []"
  by (simp add: ring_list_def)

lemma ring_index_le:
  assumes "i \<le> j" "j < cap" "(h + j) mod cap = (h + i) mod (cap::nat)"
  shows "i = j"
proof -
  from assms(1) have le: "h + i \<le> h + j" by simp
  from mod_eq_dvd_iff_nat [OF le] assms(3) have "cap dvd j - i" by simp
  with assms(2) have "j - i = 0" by (metis dvd_imp_le le_less_trans diff_le_self not_le not_gr_zero)
  with assms(1) show ?thesis by simp
qed

lemma ring_index_distinct:
  assumes "i < n" "n \<le> cap" "j < n" "(h + i) mod cap = (h + j) mod cap"
  shows "i = (j::nat)"
  using assms ring_index_le [of i j cap h] ring_index_le [of j i cap h]
  by (cases "i \<le> j") auto

lemma ring_wf_push [ring]:
  "ring_wf xs cap h t n \<Longrightarrow> n < cap \<Longrightarrow> ring_wf (xs[t := x]) cap h ((t + 1) mod cap) (Suc n)"
  by (auto simp: ring_wf_def mod_Suc_eq)

lemma ring_list_push [ring]:
  assumes "ring_wf xs cap h t n" "n < cap"
  shows "ring_list (xs[t := x]) h (Suc n) = ring_list xs h n @ [x]"
proof (rule nth_equalityI)
  show "length (ring_list (xs[t := x]) h (Suc n)) = length (ring_list xs h n @ [x])" by simp
next
  fix i assume "i < length (ring_list (xs[t := x]) h (Suc n))"
  then have i: "i < Suc n" by simp
  show "ring_list (xs[t := x]) h (Suc n) ! i = (ring_list xs h n @ [x]) ! i"
  proof (cases "i = n")
    case True
    with assms show ?thesis by (auto simp: ring_list_def ring_wf_def nth_append)
  next
    case False
    with i have "i < n" by simp
    then have "(h + i) mod cap \<noteq> (h + n) mod cap"
      using ring_index_distinct [of i "Suc n" cap n h] assms(2) by auto
    with \<open>i < n\<close> i assms show ?thesis
      by (auto simp: ring_list_def ring_wf_def nth_append simp del: upt_Suc)
  qed
qed

lemma ring_wf_pop [ring]:
  assumes "ring_wf xs cap h t n" "0 < n"
  shows "ring_wf (xs[h := y]) cap ((h + 1) mod cap) t (n - 1)"
proof -
  have "((h + 1) mod cap + (n - 1)) mod cap = (h + 1 + (n - 1)) mod cap"
    by (rule mod_add_left_eq)
  with assms show ?thesis by (auto simp: ring_wf_def)
qed

lemma ring_list_pop [ring]:
  assumes "ring_wf xs cap h t n" "0 < n"
  shows "ring_list xs h n = xs ! h # ring_list (xs[h := y]) ((h + 1) mod cap) (n - 1)"
proof (rule nth_equalityI)
  show "length (ring_list xs h n) =
      length (xs ! h # ring_list (xs[h := y]) ((h + 1) mod cap) (n - 1))"
    using assms by simp
next
  fix i assume "i < length (ring_list xs h n)"
  then have i: "i < n" by simp
  show "ring_list xs h n ! i =
      (xs ! h # ring_list (xs[h := y]) ((h + 1) mod cap) (n - 1)) ! i"
  proof (cases i)
    case 0
    with assms show ?thesis by (auto simp: ring_list_def ring_wf_def)
  next
    case (Suc j)
    have "(h + Suc j) mod cap \<noteq> (h + 0) mod cap"
      using ring_index_distinct [of "Suc j" n cap 0 h] i assms Suc by (auto simp: ring_wf_def)
    moreover have "((h + 1) mod cap + j) mod cap = (h + Suc j) mod cap"
      by (simp add: mod_add_left_eq)
    ultimately show ?thesis
      using assms i Suc by (auto simp: ring_list_def ring_wf_def)
  qed
qed

lemma ring_list_advance [ring]:
  assumes "ring_wf xs cap h t n" "0 < n"
  shows "ring_list xs h n = xs ! h # ring_list xs ((h + 1) mod cap) (n - 1)"
  using ring_list_pop [OF assms, of "xs ! h"] by simp

lemma ring_wf_advance [ring]:
  "ring_wf xs cap h t n \<Longrightarrow> 0 < n \<Longrightarrow> ring_wf xs cap ((h + 1) mod cap) t (n - 1)"
  using ring_wf_pop [of xs cap h t n "xs ! h"] by simp

subsection \<open>The contract of a bounded queue\<close>

text \<open>
  A run of a queue is a sequence of attempted insertions and removals. \<open>fifo_run\<close> returns
  the final queue, the items that were accepted, in order, and the items that were
  delivered, in order. Every operation of the gateway's queues holds the queue's mutex from
  its first read to its last write, so any interleaving of threads is such a sequence.
\<close>

datatype 'a queue_op = Push 'a | Pop

fun fifo_run :: "('a \<Rightarrow> 'q \<Rightarrow> 'q option) \<Rightarrow> ('q \<Rightarrow> ('a \<times> 'q) option) \<Rightarrow>
    'a queue_op list \<Rightarrow> 'q \<Rightarrow> 'q \<times> 'a list \<times> 'a list" where
  "fifo_run push pop [] q = (q, [], [])"
| "fifo_run push pop (Push x # ops) q =
     (case push x q of
        None \<Rightarrow> fifo_run push pop ops q
      | Some q' \<Rightarrow> (case fifo_run push pop ops q' of (r, acc, del) \<Rightarrow> (r, x # acc, del)))"
| "fifo_run push pop (Pop # ops) q =
     (case pop q of
        None \<Rightarrow> fifo_run push pop ops q
      | Some (x, q') \<Rightarrow> (case fifo_run push pop ops q' of (r, acc, del) \<Rightarrow> (r, acc, x # del)))"

locale bounded_fifo =
  fixes inv :: "'q \<Rightarrow> bool"
    and cap :: "'q \<Rightarrow> nat"
    and contents :: "'q \<Rightarrow> 'a list"
    and push :: "'a \<Rightarrow> 'q \<Rightarrow> 'q option"
    and pop :: "'q \<Rightarrow> ('a \<times> 'q) option"
  assumes bounded: "inv q \<Longrightarrow> length (contents q) \<le> cap q"
    and push_full: "inv q \<Longrightarrow> push x q = None \<longleftrightarrow> length (contents q) = cap q"
    and push_ok: "inv q \<Longrightarrow> push x q = Some q' \<Longrightarrow>
        inv q' \<and> cap q' = cap q \<and> contents q' = contents q @ [x]"
    and pop_empty: "inv q \<Longrightarrow> pop q = None \<longleftrightarrow> contents q = []"
    and pop_ok: "inv q \<Longrightarrow> pop q = Some (y, q') \<Longrightarrow>
        inv q' \<and> cap q' = cap q \<and> contents q = y # contents q'"
begin

lemma fifo_order:
  "inv q \<Longrightarrow> fifo_run push pop ops q = (r, acc, del) \<Longrightarrow>
     inv r \<and> cap r = cap q \<and> contents q @ acc = del @ contents r"
proof (induction ops arbitrary: q r acc del)
  case Nil
  then show ?case by simp
next
  case (Cons op ops)
  show ?case
  proof (cases op)
    case (Push x)
    show ?thesis
    proof (cases "push x q")
      case None
      with Cons Push show ?thesis by simp
    next
      case (Some q')
      obtain r' acc' del' where run: "fifo_run push pop ops q' = (r', acc', del')"
        by (metis prod_cases3)
      from push_ok [OF Cons.prems(1) Some] Cons.IH [OF _ run] Cons.prems(2) Some Push run
      show ?thesis by auto
    qed
  next
    case Pop
    show ?thesis
    proof (cases "pop q")
      case None
      with Cons Pop show ?thesis by simp
    next
      case (Some yq)
      obtain y q' where y: "yq = (y, q')" by fastforce
      obtain r' acc' del' where run: "fifo_run push pop ops q' = (r', acc', del')"
        by (metis prod_cases3)
      from pop_ok [OF Cons.prems(1), of y q'] Cons.IH [OF _ run] Cons.prems(2) Some y Pop run
      show ?thesis by auto
    qed
  qed
qed

lemma never_over_capacity:
  "inv q \<Longrightarrow> fifo_run push pop ops q = (r, acc, del) \<Longrightarrow> length (contents r) \<le> cap q"
  using fifo_order bounded by metis

end

end
