(* ===== verification/Generic_Queue.thy ===== *)
theory Generic_Queue
  imports Ring_Buffer
begin

text \<open>
  \<^verbatim>\<open>src/infra/generic_queue.c\<close>: the bounded queue with a timed blocking dequeue used by
  the metrics writer and the session touch path.

  The record is \<^verbatim>\<open>struct generic_queue\<close> without the mutex and the condition variable;
  \<open>gq_free_fn\<close> says whether the caller passed a free function. Items are pointers:
  \<open>None\<close> is NULL. The fields \<^verbatim>\<open>count\<close>, \<^verbatim>\<open>head\<close>, \<^verbatim>\<open>tail\<close> and \<^verbatim>\<open>capacity\<close> are C
  ints that \<open>gq_inv\<close> keeps within \<open>0..depth\<close>, so \<open>nat\<close> represents them.

  An operation holds the mutex from its first access to its last, except that a wait
  gives it up. A wait is the list of the states its wake-ups find (with the return code of
  \<^verbatim>\<open>pthread_cond_timedwait\<close>): what other threads did in between. A list that ends before
  the loop does is a call that is still waiting, \<open>None\<close>.
\<close>

record 'a generic_queue =
  gq_items :: "'a option list"
  gq_capacity :: nat
  gq_count :: nat
  gq_head :: nat
  gq_tail :: nat
  gq_shutting_down :: bool
  gq_free_fn :: bool

subsection \<open>Operations\<close>

text \<open>The four booleans are the successes of malloc, calloc and the two pthread inits.\<close>

definition generic_queue_create ::
    "int \<Rightarrow> bool \<Rightarrow> bool \<Rightarrow> bool \<Rightarrow> bool \<Rightarrow> bool \<Rightarrow> 'a generic_queue option" where
  "generic_queue_create depth free_fn malloc_ok calloc_ok mutex_ok cond_ok =
     (if depth \<le> 0 then None
      else if \<not> malloc_ok then None
      else if \<not> calloc_ok then None
      else if \<not> mutex_ok then None
      else if \<not> cond_ok then None
      else Some \<lparr>gq_items = replicate (nat depth) None, gq_capacity = nat depth,
             gq_count = 0, gq_head = 0, gq_tail = 0, gq_shutting_down = False,
             gq_free_fn = free_fn\<rparr>)"

definition generic_queue_enqueue ::
    "'a generic_queue option \<Rightarrow> 'a option \<Rightarrow> int \<times> 'a generic_queue option" where
  "generic_queue_enqueue qp item =
     (case qp of
        None \<Rightarrow> (-1, None)
      | Some q \<Rightarrow>
          (case item of
             None \<Rightarrow> (-1, qp)
           | Some x \<Rightarrow>
               if gq_count q \<ge> gq_capacity q then (-1, qp)
               else (0, Some (q\<lparr>gq_items := (gq_items q)[gq_tail q := Some x],
                               gq_tail := (gq_tail q + 1) mod gq_capacity q,
                               gq_count := gq_count q + 1\<rparr>))))"

definition pop_locked :: "'a generic_queue \<Rightarrow> 'a option \<times> 'a generic_queue" where
  "pop_locked q =
     (gq_items q ! gq_head q,
      q\<lparr>gq_items := (gq_items q)[gq_head q := None],
        gq_head := (gq_head q + 1) mod gq_capacity q,
        gq_count := gq_count q - 1\<rparr>)"

text \<open>The wait loops; a wake-up may be spurious or find another consumer was faster.\<close>

fun cond_wait :: "'a generic_queue \<Rightarrow> 'a generic_queue list \<Rightarrow> 'a generic_queue option" where
  "cond_wait q ws =
     (if gq_count q = 0 \<and> \<not> gq_shutting_down q
      then (case ws of [] \<Rightarrow> None | q' # ws' \<Rightarrow> cond_wait q' ws')
      else Some q)"

fun cond_timedwait ::
    "'a generic_queue \<Rightarrow> int \<Rightarrow> (int \<times> 'a generic_queue) list \<Rightarrow> 'a generic_queue option" where
  "cond_timedwait q wait_rc ws =
     (if gq_count q = 0 \<and> \<not> gq_shutting_down q \<and> wait_rc = 0
      then (case ws of [] \<Rightarrow> None | (rc, q') # ws' \<Rightarrow> cond_timedwait q' rc ws')
      else Some q)"

declare cond_wait.simps [simp del] cond_timedwait.simps [simp del]

definition pop_if_any :: "'a generic_queue \<Rightarrow> 'a option \<times> 'a generic_queue" where
  "pop_if_any q = (if gq_count q > 0 then pop_locked q else (None, q))"

definition generic_queue_dequeue_blocking ::
    "'a generic_queue \<Rightarrow> 'a generic_queue list \<Rightarrow> ('a option \<times> 'a generic_queue) option" where
  "generic_queue_dequeue_blocking q ws = map_option pop_if_any (cond_wait q ws)"

text \<open>The deadline: \<^verbatim>\<open>timeout_ms\<close> after \<open>(tv_sec, tv_nsec)\<close>, for a positive timeout.\<close>

definition timed_deadline :: "int \<times> int \<Rightarrow> int \<Rightarrow> int \<times> int" where
  "timed_deadline now timeout_ms =
     (let sec = fst now + timeout_ms div 1000;
          nsec = snd now + (timeout_ms mod 1000) * 1000000
      in if nsec \<ge> 1000000000 then (sec + 1, nsec - 1000000000) else (sec, nsec))"

text \<open>
  Result: the item, \<^verbatim>\<open>*timed_out\<close> and the queue. \<open>wakeups\<close> gives, for the deadline
  passed to \<^verbatim>\<open>pthread_cond_timedwait\<close>, its return codes and what each wake-up finds.
\<close>

definition generic_queue_dequeue_timed ::
    "'a generic_queue option \<Rightarrow> int \<Rightarrow> int \<times> int \<Rightarrow>
     (int \<times> int \<Rightarrow> (int \<times> 'a generic_queue) list) \<Rightarrow>
     ('a option \<times> bool \<times> 'a generic_queue option) option" where
  "generic_queue_dequeue_timed qp timeout_ms now wakeups =
     (case qp of
        None \<Rightarrow> Some (None, False, None)
      | Some q \<Rightarrow>
          if timeout_ms \<le> 0
          then (case pop_if_any q of
                  (None, q') \<Rightarrow> Some (None, \<not> gq_shutting_down q', Some q')
                | (Some x, q') \<Rightarrow> Some (Some x, False, Some q'))
          else
            (case cond_timedwait q 0 (wakeups (timed_deadline now timeout_ms)) of
               None \<Rightarrow> None
             | Some q1 \<Rightarrow>
                 (case pop_if_any q1 of
                    (None, q') \<Rightarrow> Some (None, \<not> gq_shutting_down q', Some q')
                  | (Some x, q') \<Rightarrow> Some (Some x, False, Some q'))))"

definition generic_queue_shutdown :: "'a generic_queue option \<Rightarrow> 'a generic_queue option" where
  "generic_queue_shutdown qp = map_option (\<lambda>q. q\<lparr>gq_shutting_down := True\<rparr>) qp"

text \<open>Destroying a queue: the items handed to the free function, in order.\<close>

function destroy_loop :: "'a generic_queue \<Rightarrow> 'a list" where
  "destroy_loop q =
     (if gq_count q > 0
      then (if gq_free_fn q then (case gq_items q ! gq_head q of None \<Rightarrow> [] | Some x \<Rightarrow> [x]) else [])
           @ destroy_loop (q\<lparr>gq_head := (gq_head q + 1) mod gq_capacity q,
                             gq_count := gq_count q - 1\<rparr>)
      else [])"
  by pat_completeness auto
termination
  by (relation "measure gq_count") auto

declare destroy_loop.simps [simp del]

definition generic_queue_destroy :: "'a generic_queue option \<Rightarrow> 'a list" where
  "generic_queue_destroy qp = (case qp of None \<Rightarrow> [] | Some q \<Rightarrow> destroy_loop q)"

subsection \<open>The queue as a list\<close>

definition gq_slots :: "'a generic_queue \<Rightarrow> 'a option list" where
  "gq_slots q = ring_list (gq_items q) (gq_head q) (gq_count q)"

definition gq_contents :: "'a generic_queue \<Rightarrow> 'a list" where
  "gq_contents q = map the (gq_slots q)"

definition gq_inv :: "'a generic_queue \<Rightarrow> bool" where
  "gq_inv q \<longleftrightarrow>
     ring_wf (gq_items q) (gq_capacity q) (gq_head q) (gq_tail q) (gq_count q) \<and>
     None \<notin> set (gq_slots q)"

text \<open>The operations in the shape of the contract \<open>bounded_fifo\<close>.\<close>

definition gq_push :: "'a \<Rightarrow> 'a generic_queue \<Rightarrow> 'a generic_queue option" where
  "gq_push x q =
     (case generic_queue_enqueue (Some q) (Some x) of (rc, q') \<Rightarrow> if rc = 0 then q' else None)"

definition gq_pop :: "'a generic_queue \<Rightarrow> ('a \<times> 'a generic_queue) option" where
  "gq_pop q = (case pop_if_any q of (None, _) \<Rightarrow> None | (Some x, q') \<Rightarrow> Some (x, q'))"

lemma length_gq_contents [simp]: "length (gq_contents q) = gq_count q"
  by (simp add: gq_contents_def gq_slots_def)

lemma gq_inv_count: "gq_inv q \<Longrightarrow> gq_count q \<le> gq_capacity q"
  by (simp add: gq_inv_def ring_wf_def)

lemma gq_slots_push:
  assumes "gq_inv q" "gq_count q < gq_capacity q"
  shows "gq_slots (q\<lparr>gq_items := (gq_items q)[gq_tail q := v], gq_tail := t,
                    gq_count := Suc (gq_count q)\<rparr>) = gq_slots q @ [v]"
  using assms ring_list_push [of "gq_items q" "gq_capacity q" "gq_head q" "gq_tail q" "gq_count q" v]
  by (simp add: gq_inv_def gq_slots_def)

lemma gq_slots_pop:
  assumes "gq_inv q" "0 < gq_count q"
  shows "gq_slots q = gq_items q ! gq_head q # gq_slots (snd (pop_locked q))"
  using assms ring_list_pop [of "gq_items q" "gq_capacity q" "gq_head q" "gq_tail q" "gq_count q" None]
  by (simp add: gq_inv_def gq_slots_def pop_locked_def)

lemma pop_locked_spec:
  assumes "gq_inv q" "0 < gq_count q"
  shows "\<exists>x q'. pop_locked q = (Some x, q') \<and> gq_inv q' \<and> gq_contents q = x # gq_contents q' \<and>
    gq_capacity q' = gq_capacity q \<and> gq_shutting_down q' = gq_shutting_down q"
proof -
  from gq_slots_pop [OF assms] assms(1)
  obtain x where x: "gq_items q ! gq_head q = Some x"
    by (cases "gq_items q ! gq_head q") (auto simp: gq_inv_def)
  have "gq_inv (snd (pop_locked q))"
    using assms gq_slots_pop [OF assms]
    by (auto simp: gq_inv_def pop_locked_def intro: ring_wf_pop [simplified])
  with x gq_slots_pop [OF assms] show ?thesis
    by (auto simp: gq_contents_def pop_locked_def)
qed

interpretation gq: bounded_fifo gq_inv gq_capacity gq_contents gq_push gq_pop
proof unfold_locales
  fix q :: "'a generic_queue"
  assume "gq_inv q"
  then show "length (gq_contents q) \<le> gq_capacity q" by (simp add: gq_inv_count)
next
  fix q :: "'a generic_queue" and x
  assume "gq_inv q"
  then show "gq_push x q = None \<longleftrightarrow> length (gq_contents q) = gq_capacity q"
    using gq_inv_count [of q] by (auto simp: gq_push_def generic_queue_enqueue_def)
next
  fix q q' :: "'a generic_queue" and x
  assume inv: "gq_inv q" and push: "gq_push x q = Some q'"
  then have room: "gq_count q < gq_capacity q"
    by (auto simp: gq_push_def generic_queue_enqueue_def split: if_splits)
  from push room inv gq_slots_push [OF inv room, where v = "Some x"]
  show "gq_inv q' \<and> gq_capacity q' = gq_capacity q \<and> gq_contents q' = gq_contents q @ [x]"
    by (auto simp: gq_push_def generic_queue_enqueue_def gq_inv_def gq_contents_def
        intro: ring_wf_push [simplified])
next
  fix q :: "'a generic_queue"
  assume "gq_inv q"
  then show "gq_pop q = None \<longleftrightarrow> gq_contents q = []"
    using pop_locked_spec [of q] by (auto simp: gq_pop_def pop_if_any_def gq_contents_def gq_slots_def)
next
  fix q q' :: "'a generic_queue" and y
  assume "gq_inv q" "gq_pop q = Some (y, q')"
  then show "gq_inv q' \<and> gq_capacity q' = gq_capacity q \<and> gq_contents q = y # gq_contents q'"
    using pop_locked_spec [of q] by (auto simp: gq_pop_def pop_if_any_def split: if_splits)
qed

lemma create_inv:
  "generic_queue_create depth f m c mu co = Some q \<Longrightarrow>
     gq_inv q \<and> gq_contents q = [] \<and> gq_capacity q = nat depth \<and> gq_free_fn q = f"
  by (auto simp: generic_queue_create_def gq_inv_def gq_contents_def gq_slots_def ring_wf_def
      split: if_splits)

lemma push_free_fn: "gq_push x q = Some q' \<Longrightarrow> gq_free_fn q' = gq_free_fn q"
  by (auto simp: gq_push_def generic_queue_enqueue_def split: if_splits)

lemma pop_free_fn: "gq_pop q = Some (x, q') \<Longrightarrow> gq_free_fn q' = gq_free_fn q"
  by (auto simp: gq_pop_def pop_if_any_def pop_locked_def split: if_splits option.splits prod.splits)

lemma run_free_fn:
  "fifo_run gq_push gq_pop ops q = (r, acc, del) \<Longrightarrow> gq_free_fn r = gq_free_fn q"
proof (induction ops arbitrary: q r acc del)
  case Nil
  then show ?case by simp
next
  case (Cons op ops)
  then show ?case
    by (cases op)
       (fastforce split: option.splits prod.splits dest: push_free_fn pop_free_fn)+
qed

lemma destroy_frees_contents:
  "gq_inv q \<Longrightarrow> gq_free_fn q \<Longrightarrow> destroy_loop q = gq_contents q"
proof (induction q rule: destroy_loop.induct)
  case (1 q)
  show ?case
  proof (cases "gq_count q > 0")
    case True
    let ?q' = "q\<lparr>gq_head := (gq_head q + 1) mod gq_capacity q, gq_count := gq_count q - 1\<rparr>"
    from "1.prems"(1) True
    have slots: "gq_slots q = gq_items q ! gq_head q # gq_slots ?q'"
      by (auto simp: gq_inv_def gq_slots_def dest: ring_list_advance)
    with "1.prems"(1) True have inv: "gq_inv ?q'"
      by (auto simp: gq_inv_def intro: ring_wf_advance [simplified])
    from slots "1.prems"(1) obtain x where "gq_items q ! gq_head q = Some x"
      by (cases "gq_items q ! gq_head q") (auto simp: gq_inv_def)
    with "1.IH" [OF True inv] "1.prems"(2) True slots show ?thesis
      by (simp add: destroy_loop.simps [of q] gq_contents_def)
  next
    case False
    then show ?thesis
      by (simp add: destroy_loop.simps [of q] gq_contents_def gq_slots_def)
  qed
qed

lemma cond_wait_done:
  "cond_wait q ws = Some q1 \<Longrightarrow> q1 \<in> set (q # ws) \<and> (gq_count q1 > 0 \<or> gq_shutting_down q1)"
  by (induction q ws rule: cond_wait.induct)
     (subst (asm) (2) cond_wait.simps, auto split: if_splits list.splits)

lemma cond_wait_wakes:
  "\<exists>q1 \<in> set (q # ws). gq_count q1 > 0 \<or> gq_shutting_down q1 \<Longrightarrow> \<exists>q1. cond_wait q ws = Some q1"
proof (induction q ws rule: cond_wait.induct)
  case (1 q ws)
  then show ?case by (cases ws) (auto simp: cond_wait.simps [of q])
qed

lemma cond_timedwait_in:
  "cond_timedwait q rc ws = Some q1 \<Longrightarrow> q1 \<in> insert q (snd ` set ws)"
proof (induction q rc ws rule: cond_timedwait.induct)
  case (1 q rc ws)
  then show ?case
    by (subst (asm) (2) cond_timedwait.simps)
       (auto split: if_splits list.splits)
qed

lemma pop_if_any_cases:
  assumes "gq_inv q"
  obtains (got) x q' where "pop_if_any q = (Some x, q')" "gq_contents q = x # gq_contents q'"
      "gq_inv q'" "gq_count q > 0"
  | (empty) "pop_if_any q = (None, q)" "gq_contents q = []"
  using pop_locked_spec [OF assms] that
  by (cases "gq_count q > 0") (auto simp: pop_if_any_def gq_contents_def gq_slots_def)

subsection \<open>Properties\<close>

text \<open>C30. Ownership and order. Whatever the interleaving of enqueues and dequeues on a freshly
  created queue, the accepted items are exactly those delivered followed by those
  \<^verbatim>\<open>generic_queue_destroy\<close> frees, in order and each once; the queue never holds more than
  \<^verbatim>\<open>depth\<close> items, and an enqueue fails (-1) exactly when it is full.\<close>

theorem gq_fifo_ownership:
  assumes "generic_queue_create depth True m c mu co = Some q"
    and "fifo_run gq_push gq_pop ops q = (r, accepted, delivered)"
  shows "accepted = delivered @ generic_queue_destroy (Some r) \<and>
    int (gq_count r) \<le> depth \<and>
    (fst (generic_queue_enqueue (Some r) (Some x)) = -1 \<longleftrightarrow> int (gq_count r) = depth)"
proof -
  note q = create_inv [OF assms(1)]
  from assms(1) have depth: "0 < depth" by (auto simp: generic_queue_create_def split: if_splits)
  from gq.fifo_order [of q ops] q assms(2)
  have r: "gq_inv r" "gq_capacity r = nat depth" "accepted = delivered @ gq_contents r" by auto
  have "gq_free_fn r" using run_free_fn [OF assms(2)] q by simp
  with r gq_inv_count [OF r(1)] depth show ?thesis
    by (auto simp: generic_queue_destroy_def destroy_frees_contents generic_queue_enqueue_def)
qed

lemma gq_fifo_ownership_witness:
  "\<exists>q r. generic_queue_create 2 True True True True True = Some q \<and>
     fifo_run gq_push gq_pop [Push (7::nat), Push 8, Push 9, Pop] q = (r, [7, 8], [7]) \<and>
     [7, 8] = [7] @ generic_queue_destroy (Some r) \<and> int (gq_count r) \<le> 2"
proof -
  let ?q = "the (generic_queue_create 2 True True True True True) :: nat generic_queue"
  let ?run = "fifo_run gq_push gq_pop [Push (7::nat), Push 8, Push 9, Pop] ?q"
  have c: "generic_queue_create 2 True True True True True = Some ?q"
    by (simp add: generic_queue_create_def)
  have r: "?run = (fst ?run, [7, 8], [7])"
    by (simp add: generic_queue_create_def gq_push_def gq_pop_def generic_queue_enqueue_def
        pop_if_any_def pop_locked_def numeral_2_eq_2)
  from c r gq_fifo_ownership [OF c r] show ?thesis by blast
qed

text \<open>The three outcomes of the timed dequeue: an item (and \<^verbatim>\<open>*timed_out\<close> = 0), NULL with
  \<^verbatim>\<open>*timed_out\<close> = 1 when the queue is empty and still running, NULL with
  \<^verbatim>\<open>*timed_out\<close> = 0 when it is empty and shutting down. An item found by the last wake-up is
  returned even if that wake-up reported a timeout.\<close>

theorem gq_timed_outcomes:
  assumes "gq_inv q"
    and wk: "\<And>w. w \<in> set (wakeups (timed_deadline now timeout_ms)) \<Longrightarrow> gq_inv (snd w)"
    and run: "generic_queue_dequeue_timed (Some q) timeout_ms now wakeups =
      Some (item, timed_out, q')"
  shows "\<exists>q1 r. q' = Some r \<and> gq_inv r \<and>
     q1 \<in> insert q (snd ` set (wakeups (timed_deadline now timeout_ms))) \<and>
     (case item of
        Some x \<Rightarrow> \<not> timed_out \<and> gq_contents q1 = x # gq_contents r
      | None \<Rightarrow> r = q1 \<and> gq_contents r = [] \<and> timed_out = (\<not> gq_shutting_down r))"
proof -
  define ws where "ws = wakeups (timed_deadline now timeout_ms)"
  obtain q1 where q1: "q1 \<in> insert q (snd ` set ws)" and pop:
    "(case pop_if_any q1 of
        (None, q') \<Rightarrow> Some (None, \<not> gq_shutting_down q', Some q')
      | (Some x, q') \<Rightarrow> Some (Some x, False, Some q')) = Some (item, timed_out, q')"
  proof (cases "timeout_ms \<le> 0")
    case True
    with run that [of q] show ?thesis by (simp add: generic_queue_dequeue_timed_def)
  next
    case False
    with run obtain q1 where "cond_timedwait q 0 ws = Some q1"
      by (auto simp: generic_queue_dequeue_timed_def ws_def split: option.splits)
    with False run that [of q1] cond_timedwait_in [of q 0 ws q1] show ?thesis
      by (simp add: generic_queue_dequeue_timed_def ws_def)
  qed
  from q1 assms(1) wk have "gq_inv q1" by (auto simp: ws_def)
  then have "\<exists>r. q' = Some r \<and> gq_inv r \<and>
     (case item of
        Some x \<Rightarrow> \<not> timed_out \<and> gq_contents q1 = x # gq_contents r
      | None \<Rightarrow> r = q1 \<and> gq_contents r = [] \<and> timed_out = (\<not> gq_shutting_down r))"
  proof (cases rule: pop_if_any_cases)
    case (got x r)
    with pop show ?thesis by auto
  next
    case empty
    with pop \<open>gq_inv q1\<close> show ?thesis by auto
  qed
  with q1 show ?thesis unfolding ws_def by blast
qed

lemma gq_timed_outcomes_witness:
  "let q = \<lparr>gq_items = [None], gq_capacity = 1, gq_count = 0, gq_head = 0, gq_tail = 0,
         gq_shutting_down = False, gq_free_fn = True\<rparr> :: nat generic_queue in
   \<exists>q1 r. Some q = Some r \<and> gq_inv r \<and> q1 \<in> insert q (snd ` set [(110 :: int, q)]) \<and>
     (case None :: nat option of Some x \<Rightarrow> \<not> True \<and> gq_contents q1 = x # gq_contents r
      | None \<Rightarrow> r = q1 \<and> gq_contents r = [] \<and> True = (\<not> gq_shutting_down r))"
proof -
  let ?q = "\<lparr>gq_items = [None], gq_capacity = 1, gq_count = 0, gq_head = 0, gq_tail = 0,
         gq_shutting_down = False, gq_free_fn = True\<rparr> :: nat generic_queue"
  have inv: "gq_inv ?q" by (simp add: gq_inv_def ring_wf_def gq_slots_def)
  have run: "generic_queue_dequeue_timed (Some ?q) 250 (5, 900000000) (\<lambda>d. [(110, ?q)]) =
      Some (None, True, Some ?q)"
    by (simp add: generic_queue_dequeue_timed_def cond_timedwait.simps pop_if_any_def)
  from gq_timed_outcomes [OF inv _ run] inv show ?thesis by (simp add: Let_def)
qed

text \<open>C37. The blocking dequeue returns as soon as one wake-up finds an item or the shutdown
  flag, and returns NULL only when the queue is empty and shutting down.\<close>

theorem gq_blocking_dequeue:
  assumes "\<And>s. s \<in> set (q # ws) \<Longrightarrow> gq_inv s"
    and "\<exists>s \<in> set (q # ws). gq_count s > 0 \<or> gq_shutting_down s"
  shows "\<exists>s item r. s \<in> set (q # ws) \<and>
    generic_queue_dequeue_blocking q ws = Some (item, r) \<and>
    (case item of
       Some x \<Rightarrow> gq_contents s = x # gq_contents r
     | None \<Rightarrow> r = s \<and> gq_contents s = [] \<and> gq_shutting_down s)"
proof -
  from cond_wait_wakes [OF assms(2)] obtain s where s: "cond_wait q ws = Some s" by blast
  note fin = cond_wait_done [OF s]
  with assms(1) fin have "gq_inv s" by blast
  then show ?thesis
  proof (cases rule: pop_if_any_cases)
    case (got x r)
    with s fin show ?thesis by (auto simp: generic_queue_dequeue_blocking_def)
  next
    case empty
    then have "gq_count s = 0" by (metis length_gq_contents list.size(3))
    with empty s fin show ?thesis by (auto simp: generic_queue_dequeue_blocking_def)
  qed
qed

lemma gq_blocking_dequeue_witness:
  "let q = \<lparr>gq_items = [None], gq_capacity = 1, gq_count = 0, gq_head = 0, gq_tail = 0,
         gq_shutting_down = False, gq_free_fn = True\<rparr> :: nat generic_queue;
       ws = [q, q\<lparr>gq_shutting_down := True\<rparr>] in
   \<exists>s item r. s \<in> set (q # ws) \<and> generic_queue_dequeue_blocking q ws = Some (item, r) \<and>
    (case item of
       Some x \<Rightarrow> gq_contents s = x # gq_contents r
     | None \<Rightarrow> r = s \<and> gq_contents s = [] \<and> gq_shutting_down s)"
proof -
  let ?q = "\<lparr>gq_items = [None], gq_capacity = 1, gq_count = 0, gq_head = 0, gq_tail = 0,
         gq_shutting_down = False, gq_free_fn = True\<rparr> :: nat generic_queue"
  let ?ws = "[?q, ?q\<lparr>gq_shutting_down := True\<rparr>]"
  have inv: "gq_inv s" if "s \<in> set (?q # ?ws)" for s
    using that by (auto simp: gq_inv_def ring_wf_def gq_slots_def)
  have wake: "\<exists>s \<in> set (?q # ?ws). gq_count s > 0 \<or> gq_shutting_down s" by simp
  from gq_blocking_dequeue [of ?q ?ws, OF inv wake] show ?thesis unfolding Let_def .
qed

text \<open>The deadline handed to \<^verbatim>\<open>pthread_cond_timedwait\<close> is the current time plus the timeout,
  to the nanosecond, and is a normalised timespec.\<close>

theorem timed_deadline_exact:
  assumes "0 \<le> snd now" "snd now < 1000000000" "0 < timeout_ms"
  shows "fst (timed_deadline now timeout_ms) * 1000000000 + snd (timed_deadline now timeout_ms)
       = fst now * 1000000000 + snd now + timeout_ms * 1000000 \<and>
     0 \<le> snd (timed_deadline now timeout_ms) \<and> snd (timed_deadline now timeout_ms) < 1000000000"
proof -
  have "timeout_ms div 1000 * 1000000000 + timeout_ms mod 1000 * 1000000 = timeout_ms * 1000000"
    by presburger
  with assms show ?thesis by (auto simp: timed_deadline_def Let_def)
qed

lemma timed_deadline_exact_witness:
  "timed_deadline (5, 900000000) 1250 = (7, 150000000) \<and>
   fst (timed_deadline (5, 900000000) 1250) * 1000000000 + snd (timed_deadline (5, 900000000) 1250)
     = 5 * 1000000000 + 900000000 + 1250 * 1000000"
  using timed_deadline_exact [of "(5, 900000000)" 1250] by (simp add: timed_deadline_def)

end
