(* ===== verification/Touch_Queue.thy ===== *)
theory Touch_Queue
  imports Ring_Buffer
begin

text \<open>
  \<^verbatim>\<open>src/session/session_touch_queue.c\<close>: the session touch queue, a ring of owned copies
  of session ids. It differs from the generic queue in that it copies its argument, refuses
  an empty id and frees the copies itself.
\<close>

record touch_queue =
  tq_items :: "cstring option list"
  tq_capacity :: nat
  tq_count :: nat
  tq_head :: nat
  tq_tail :: nat
  tq_shutting_down :: bool

definition session_touch_queue_create ::
    "int \<Rightarrow> bool \<Rightarrow> bool \<Rightarrow> bool \<Rightarrow> bool \<Rightarrow> touch_queue option" where
  "session_touch_queue_create depth malloc_ok calloc_ok mutex_ok cond_ok =
     (if depth \<le> 0 then None
      else if \<not> malloc_ok then None
      else if \<not> calloc_ok then None
      else if \<not> mutex_ok then None
      else if \<not> cond_ok then None
      else Some \<lparr>tq_items = replicate (nat depth) None, tq_capacity = nat depth,
             tq_count = 0, tq_head = 0, tq_tail = 0, tq_shutting_down = False\<rparr>)"

text \<open>\<open>strdup_ok\<close>: whether strdup of the id succeeds.\<close>

definition session_touch_queue_enqueue ::
    "touch_queue option \<Rightarrow> cstring option \<Rightarrow> bool \<Rightarrow> int \<times> touch_queue option" where
  "session_touch_queue_enqueue qp session_id strdup_ok =
     (case qp of
        None \<Rightarrow> (-1, None)
      | Some q \<Rightarrow>
          (case session_id of
             None \<Rightarrow> (-1, qp)
           | Some sid \<Rightarrow>
               if sid = [] then (-1, qp)
               else if \<not> strdup_ok then (-1, qp)
               else if tq_count q \<ge> tq_capacity q then (-1, qp)
               else (0, Some (q\<lparr>tq_items := (tq_items q)[tq_tail q := Some sid],
                               tq_tail := (tq_tail q + 1) mod tq_capacity q,
                               tq_count := tq_count q + 1\<rparr>))))"

fun touch_wait :: "touch_queue \<Rightarrow> touch_queue list \<Rightarrow> touch_queue option" where
  "touch_wait q ws =
     (if tq_count q = 0 \<and> \<not> tq_shutting_down q
      then (case ws of [] \<Rightarrow> None | q' # ws' \<Rightarrow> touch_wait q' ws')
      else Some q)"

declare touch_wait.simps [simp del]

definition touch_take :: "touch_queue \<Rightarrow> cstring option \<times> touch_queue" where
  "touch_take q =
     (if tq_count q > 0
      then (tq_items q ! tq_head q,
            q\<lparr>tq_items := (tq_items q)[tq_head q := None],
              tq_head := (tq_head q + 1) mod tq_capacity q,
              tq_count := tq_count q - 1\<rparr>)
      else (None, q))"

definition session_touch_queue_dequeue_blocking ::
    "touch_queue \<Rightarrow> touch_queue list \<Rightarrow> (cstring option \<times> touch_queue) option" where
  "session_touch_queue_dequeue_blocking q ws = map_option touch_take (touch_wait q ws)"

definition session_touch_queue_shutdown :: "touch_queue option \<Rightarrow> touch_queue option" where
  "session_touch_queue_shutdown qp = map_option (\<lambda>q. q\<lparr>tq_shutting_down := True\<rparr>) qp"

text \<open>The copies freed by destroying the queue; \<^verbatim>\<open>free(NULL)\<close> frees nothing.\<close>

function touch_destroy_loop :: "touch_queue \<Rightarrow> cstring list" where
  "touch_destroy_loop q =
     (if tq_count q > 0
      then (case tq_items q ! tq_head q of None \<Rightarrow> [] | Some x \<Rightarrow> [x])
           @ touch_destroy_loop (q\<lparr>tq_head := (tq_head q + 1) mod tq_capacity q,
                                   tq_count := tq_count q - 1\<rparr>)
      else [])"
  by pat_completeness auto
termination
  by (relation "measure tq_count") auto

declare touch_destroy_loop.simps [simp del]

definition session_touch_queue_destroy :: "touch_queue option \<Rightarrow> cstring list" where
  "session_touch_queue_destroy qp = (case qp of None \<Rightarrow> [] | Some q \<Rightarrow> touch_destroy_loop q)"

subsection \<open>The contract\<close>

definition tq_slots :: "touch_queue \<Rightarrow> cstring option list" where
  "tq_slots q = ring_list (tq_items q) (tq_head q) (tq_count q)"

definition tq_contents :: "touch_queue \<Rightarrow> cstring list" where
  "tq_contents q = map the (tq_slots q)"

definition tq_inv :: "touch_queue \<Rightarrow> bool" where
  "tq_inv q \<longleftrightarrow>
     ring_wf (tq_items q) (tq_capacity q) (tq_head q) (tq_tail q) (tq_count q) \<and>
     None \<notin> set (tq_slots q)"

text \<open>
  A non-empty session id as the contract's item: an id is \<open>(c, cs)\<close>, its first character and
  the rest, so that every item of the contract is one the queue accepts.
\<close>

definition tq_push :: "char \<times> cstring \<Rightarrow> touch_queue \<Rightarrow> touch_queue option" where
  "tq_push sid q =
     (case session_touch_queue_enqueue (Some q) (Some (fst sid # snd sid)) True of
        (rc, q') \<Rightarrow> if rc = 0 then q' else None)"

definition tq_pop :: "touch_queue \<Rightarrow> ((char \<times> cstring) \<times> touch_queue) option" where
  "tq_pop q = (case touch_take q of
       (Some (c # cs), q') \<Rightarrow> Some ((c, cs), q')
     | _ \<Rightarrow> None)"

definition tq_ids :: "touch_queue \<Rightarrow> (char \<times> cstring) list" where
  "tq_ids q = map (\<lambda>s. (hd s, tl s)) (tq_contents q)"

definition tq_ok :: "touch_queue \<Rightarrow> bool" where
  "tq_ok q \<longleftrightarrow> tq_inv q \<and> [] \<notin> set (tq_contents q)"

lemma length_tq_ids [simp]: "length (tq_ids q) = tq_count q"
  by (simp add: tq_ids_def tq_contents_def tq_slots_def)

lemma touch_take_spec:
  assumes "tq_ok q" "0 < tq_count q"
  shows "\<exists>c cs q'. touch_take q = (Some (c # cs), q') \<and> tq_ok q' \<and>
     tq_ids q = (c, cs) # tq_ids q' \<and> tq_capacity q' = tq_capacity q"
proof -
  from assms have wf: "ring_wf (tq_items q) (tq_capacity q) (tq_head q) (tq_tail q) (tq_count q)"
    by (simp add: tq_ok_def tq_inv_def)
  have slots: "tq_slots q = tq_items q ! tq_head q # tq_slots (snd (touch_take q))"
    using ring_list_pop [OF wf assms(2), of None] assms(2)
    by (simp add: tq_slots_def touch_take_def)
  with assms obtain x where x: "tq_items q ! tq_head q = Some x"
    by (cases "tq_items q ! tq_head q") (auto simp: tq_ok_def tq_inv_def)
  with slots assms obtain c cs where c: "x = c # cs"
    by (cases x) (auto simp: tq_ok_def tq_contents_def)
  have "tq_ok (snd (touch_take q))"
    using slots assms ring_wf_pop [OF wf assms(2), of None]
    by (auto simp: tq_ok_def tq_inv_def tq_contents_def touch_take_def)
  with slots x c assms(2) show ?thesis
    by (auto simp: tq_ids_def tq_contents_def touch_take_def)
qed

interpretation tq: bounded_fifo tq_ok tq_capacity tq_ids tq_push tq_pop
proof unfold_locales
  fix q
  assume "tq_ok q"
  then show "length (tq_ids q) \<le> tq_capacity q" by (simp add: tq_ok_def tq_inv_def ring_wf_def)
next
  fix q x
  assume "tq_ok q"
  then show "tq_push x q = None \<longleftrightarrow> length (tq_ids q) = tq_capacity q"
    by (auto simp: tq_push_def session_touch_queue_enqueue_def tq_ok_def tq_inv_def ring_wf_def)
next
  fix q q' x
  assume ok: "tq_ok q" and push: "tq_push x q = Some q'"
  then have wf: "ring_wf (tq_items q) (tq_capacity q) (tq_head q) (tq_tail q) (tq_count q)"
    and room: "tq_count q < tq_capacity q"
    and q': "q' = q\<lparr>tq_items := (tq_items q)[tq_tail q := Some (fst x # snd x)],
        tq_tail := (tq_tail q + 1) mod tq_capacity q, tq_count := tq_count q + 1\<rparr>"
    by (auto simp: tq_push_def session_touch_queue_enqueue_def tq_ok_def tq_inv_def split: if_splits)
  from ring_list_push [OF wf room, of "Some (fst x # snd x)"]
  have "tq_slots q' = tq_slots q @ [Some (fst x # snd x)]" by (simp add: tq_slots_def q')
  with ok ring_wf_push [OF wf room, of "Some (fst x # snd x)"]
  show "tq_ok q' \<and> tq_capacity q' = tq_capacity q \<and> tq_ids q' = tq_ids q @ [x]"
    by (auto simp: tq_ok_def tq_inv_def tq_ids_def tq_contents_def q')
next
  fix q
  assume "tq_ok q"
  then show "tq_pop q = None \<longleftrightarrow> tq_ids q = []"
    using touch_take_spec [of q]
    by (cases "tq_count q = 0")
       (auto simp: tq_pop_def touch_take_def tq_ids_def tq_contents_def tq_slots_def)
next
  fix q q' y
  assume ok: "tq_ok q" and pop: "tq_pop q = Some (y, q')"
  then have "0 < tq_count q" by (cases "tq_count q") (auto simp: tq_pop_def touch_take_def)
  from touch_take_spec [OF ok this] pop
  show "tq_ok q' \<and> tq_capacity q' = tq_capacity q \<and> tq_ids q = y # tq_ids q'"
    by (auto simp: tq_pop_def)
qed

lemma touch_create_ok:
  "session_touch_queue_create depth m c mu co = Some q \<Longrightarrow>
     tq_ok q \<and> tq_ids q = [] \<and> tq_capacity q = nat depth"
  by (auto simp: session_touch_queue_create_def tq_ok_def tq_inv_def tq_ids_def tq_contents_def
      tq_slots_def ring_wf_def split: if_splits)

lemma touch_destroy_contents: "tq_inv q \<Longrightarrow> touch_destroy_loop q = tq_contents q"
proof (induction q rule: touch_destroy_loop.induct)
  case (1 q)
  show ?case
  proof (cases "tq_count q > 0")
    case True
    let ?q' = "q\<lparr>tq_head := (tq_head q + 1) mod tq_capacity q, tq_count := tq_count q - 1\<rparr>"
    from "1.prems" True have slots: "tq_slots q = tq_items q ! tq_head q # tq_slots ?q'"
      by (auto simp: tq_inv_def tq_slots_def dest: ring_list_advance)
    with "1.prems" True have inv: "tq_inv ?q'"
      by (auto simp: tq_inv_def intro: ring_wf_advance [simplified])
    from slots "1.prems" obtain x where "tq_items q ! tq_head q = Some x"
      by (cases "tq_items q ! tq_head q") (auto simp: tq_inv_def)
    with "1.IH" [OF True inv] True slots show ?thesis
      by (simp add: touch_destroy_loop.simps [of q] tq_contents_def)
  next
    case False
    then show ?thesis
      by (simp add: touch_destroy_loop.simps [of q] tq_contents_def tq_slots_def)
  qed
qed

text \<open>Every id accepted after creation is delivered or freed, once, in order.\<close>

lemma touch_ownership:
  assumes "session_touch_queue_create depth m c mu co = Some q"
    and "fifo_run tq_push tq_pop ops q = (r, accepted, delivered)"
  shows "map (\<lambda>(c, cs). c # cs) accepted =
     map (\<lambda>(c, cs). c # cs) delivered @ session_touch_queue_destroy (Some r)"
proof -
  note q = touch_create_ok [OF assms(1)]
  from tq.fifo_order [of q ops] q assms(2)
  have r: "tq_ok r" "accepted = delivered @ tq_ids r" by auto
  then have "map (\<lambda>(c, cs). c # cs) (tq_ids r) = tq_contents r"
    by (auto simp: tq_ids_def tq_ok_def intro!: map_idI) (metis list.collapse)
  with r touch_destroy_contents [of r] show ?thesis
    by (simp add: session_touch_queue_destroy_def tq_ok_def)
qed

end
