(* ===== verification/Queue_Manager.thy ===== *)
theory Queue_Manager
  imports Ring_Buffer
begin

text \<open>
  \<^verbatim>\<open>src/infra/queue_manager.c\<close>: the N dispatch queues, one per worker. The request
  objects are an arbitrary type \<open>'a\<close> (\<open>None\<close> is a NULL request); the per-queue mutexes are
  left out, each queue access of the code being one critical section. The unlocked
  round-robin cursor is read and written once per enqueue, in that order.
\<close>

record 'a single_queue =
  sq_items :: "'a option list"
  sq_capacity :: nat
  sq_count :: nat
  sq_head :: nat
  sq_tail :: nat

record 'a queue_manager =
  qm_queues :: "'a single_queue list"
  qm_queue_count :: nat
  qm_enqueue_cursor :: nat
  qm_shutting_down :: bool

subsection \<open>One queue\<close>

definition single_queue_is_full :: "'a single_queue \<Rightarrow> bool" where
  "single_queue_is_full q \<longleftrightarrow> sq_count q \<ge> sq_capacity q"

definition single_queue_is_empty :: "'a single_queue \<Rightarrow> bool" where
  "single_queue_is_empty q \<longleftrightarrow> sq_count q = 0"

definition single_queue_push :: "'a single_queue \<Rightarrow> 'a option \<Rightarrow> int \<times> 'a single_queue" where
  "single_queue_push q req =
     (if single_queue_is_full q then (-1, q)
      else (0, q\<lparr>sq_items := (sq_items q)[sq_tail q := req],
                 sq_tail := (sq_tail q + 1) mod sq_capacity q,
                 sq_count := sq_count q + 1\<rparr>))"

definition single_queue_pop :: "'a single_queue \<Rightarrow> 'a option \<times> 'a single_queue" where
  "single_queue_pop q =
     (if single_queue_is_empty q then (None, q)
      else (sq_items q ! sq_head q,
            q\<lparr>sq_items := (sq_items q)[sq_head q := None],
              sq_head := (sq_head q + 1) mod sq_capacity q,
              sq_count := sq_count q - 1\<rparr>))"

subsection \<open>The manager\<close>

text \<open>
  \<open>init_ok i\<close> gives the success of the three initialisation steps of queue \<open>i\<close> (calloc,
  mutex, condition variable); the loop stops at the first failure and the manager exists
  only if every queue was initialised.
\<close>

definition fresh_single_queue :: "nat \<Rightarrow> 'a single_queue" where
  "fresh_single_queue depth =
     \<lparr>sq_items = replicate depth None, sq_capacity = depth, sq_count = 0, sq_head = 0, sq_tail = 0\<rparr>"

fun init_queues :: "nat \<Rightarrow> (nat \<Rightarrow> bool \<times> bool \<times> bool) \<Rightarrow> nat list \<Rightarrow> 'a single_queue list" where
  "init_queues depth init_ok [] = []"
| "init_queues depth init_ok (i # is) =
     (case init_ok i of (items_ok, mutex_ok, cond_ok) \<Rightarrow>
        if \<not> items_ok then []
        else if \<not> mutex_ok then []
        else if \<not> cond_ok then []
        else fresh_single_queue depth # init_queues depth init_ok is)"

definition queue_manager_create ::
    "int \<Rightarrow> int \<Rightarrow> bool \<Rightarrow> bool \<Rightarrow> (nat \<Rightarrow> bool \<times> bool \<times> bool) \<Rightarrow> 'a queue_manager option" where
  "queue_manager_create queue_count queue_depth malloc_ok calloc_ok init_ok =
     (if queue_count \<le> 0 \<or> queue_depth \<le> 0 then None
      else if \<not> malloc_ok then None
      else if \<not> calloc_ok then None
      else let qs = init_queues (nat queue_depth) init_ok [0..<nat queue_count] in
        if length qs \<noteq> nat queue_count then None
        else Some \<lparr>qm_queues = qs, qm_queue_count = nat queue_count, qm_enqueue_cursor = 0,
               qm_shutting_down = False\<rparr>)"

definition queue_manager_enqueue_to ::
    "'a queue_manager option \<Rightarrow> 'a option \<Rightarrow> int \<Rightarrow> int \<times> 'a queue_manager option" where
  "queue_manager_enqueue_to qmp req queue_index =
     (case qmp of
        None \<Rightarrow> (-1, None)
      | Some qm \<Rightarrow>
          if req = None \<or> queue_index < 0 \<or> queue_index \<ge> int (qm_queue_count qm) then (-1, qmp)
          else let i = nat queue_index; q = qm_queues qm ! i in
            if single_queue_is_full q then (-1, qmp)
            else (case single_queue_push q req of
                (rc, q') \<Rightarrow> (rc, Some (qm\<lparr>qm_queues := (qm_queues qm)[i := q']\<rparr>))))"

fun enqueue_loop ::
    "'a queue_manager \<Rightarrow> 'a option \<Rightarrow> int \<Rightarrow> nat \<Rightarrow> nat list \<Rightarrow> int \<times> 'a queue_manager" where
  "enqueue_loop qm req exclude_index start [] = (-1, qm)"
| "enqueue_loop qm req exclude_index start (i # is) =
     (let idx = (start + i) mod qm_queue_count qm in
      if int idx = exclude_index then enqueue_loop qm req exclude_index start is
      else if \<not> single_queue_is_full (qm_queues qm ! idx)
      then (case single_queue_push (qm_queues qm ! idx) req of
          (rc, q') \<Rightarrow> (rc, qm\<lparr>qm_queues := (qm_queues qm)[idx := q']\<rparr>))
      else enqueue_loop qm req exclude_index start is)"

definition queue_manager_enqueue_excluding ::
    "'a queue_manager \<Rightarrow> 'a option \<Rightarrow> int \<Rightarrow> int \<times> 'a queue_manager" where
  "queue_manager_enqueue_excluding qm req exclude_index =
     (let start = qm_enqueue_cursor qm;
          qm1 = qm\<lparr>qm_enqueue_cursor := (qm_enqueue_cursor qm + 1) mod qm_queue_count qm\<rparr>
      in enqueue_loop qm1 req exclude_index start [0..<qm_queue_count qm])"

definition queue_manager_enqueue :: "'a queue_manager \<Rightarrow> 'a option \<Rightarrow> int \<times> 'a queue_manager" where
  "queue_manager_enqueue qm req = queue_manager_enqueue_excluding qm req (-1)"

fun qm_wait :: "'a queue_manager \<Rightarrow> nat \<Rightarrow> 'a queue_manager list \<Rightarrow> 'a queue_manager option" where
  "qm_wait qm i ws =
     (if single_queue_is_empty (qm_queues qm ! i) \<and> \<not> qm_shutting_down qm
      then (case ws of [] \<Rightarrow> None | qm' # ws' \<Rightarrow> qm_wait qm' i ws')
      else Some qm)"

declare qm_wait.simps [simp del]

definition queue_manager_dequeue_blocking ::
    "'a queue_manager \<Rightarrow> nat \<Rightarrow> 'a queue_manager list \<Rightarrow> ('a option \<times> 'a queue_manager) option" where
  "queue_manager_dequeue_blocking qm i ws =
     map_option (\<lambda>qm1. case single_queue_pop (qm_queues qm1 ! i) of
         (req, q') \<Rightarrow> (req, qm1\<lparr>qm_queues := (qm_queues qm1)[i := q']\<rparr>))
       (qm_wait qm i ws)"

definition queue_manager_shutdown :: "'a queue_manager option \<Rightarrow> 'a queue_manager option" where
  "queue_manager_shutdown qmp =
     map_option (\<lambda>qm. if qm_queue_count qm = 0 then qm else qm\<lparr>qm_shutting_down := True\<rparr>) qmp"

definition queue_manager_total_count :: "'a queue_manager \<Rightarrow> nat" where
  "queue_manager_total_count qm =
     fold (\<lambda>i total. total + sq_count (qm_queues qm ! i)) [0..<qm_queue_count qm] 0"

text \<open>Destroying the manager: the requests freed, queue by queue. A pop of NULL ends a queue.\<close>

function drain_single :: "'a single_queue \<Rightarrow> 'a list" where
  "drain_single q =
     (if single_queue_is_empty q then []
      else (case single_queue_pop q of (None, _) \<Rightarrow> [] | (Some r, q') \<Rightarrow> r # drain_single q'))"
  by pat_completeness auto
termination
  by (relation "measure sq_count") (auto simp: single_queue_pop_def single_queue_is_empty_def)

declare drain_single.simps [simp del]

definition queue_manager_destroy :: "'a queue_manager option \<Rightarrow> 'a list" where
  "queue_manager_destroy qmp =
     (case qmp of None \<Rightarrow> []
      | Some qm \<Rightarrow> concat (map (\<lambda>i. drain_single (qm_queues qm ! i)) [0..<qm_queue_count qm]))"

subsection \<open>One queue meets the contract\<close>

definition sq_slots :: "'a single_queue \<Rightarrow> 'a option list" where
  "sq_slots q = ring_list (sq_items q) (sq_head q) (sq_count q)"

definition sq_contents :: "'a single_queue \<Rightarrow> 'a list" where
  "sq_contents q = map the (sq_slots q)"

definition sq_inv :: "'a single_queue \<Rightarrow> bool" where
  "sq_inv q \<longleftrightarrow>
     ring_wf (sq_items q) (sq_capacity q) (sq_head q) (sq_tail q) (sq_count q) \<and>
     None \<notin> set (sq_slots q)"

definition sq_push :: "'a \<Rightarrow> 'a single_queue \<Rightarrow> 'a single_queue option" where
  "sq_push x q = (case single_queue_push q (Some x) of (rc, q') \<Rightarrow> if rc = 0 then Some q' else None)"

definition sq_pop :: "'a single_queue \<Rightarrow> ('a \<times> 'a single_queue) option" where
  "sq_pop q = (case single_queue_pop q of (None, _) \<Rightarrow> None | (Some x, q') \<Rightarrow> Some (x, q'))"

lemma length_sq_contents [simp]: "length (sq_contents q) = sq_count q"
  by (simp add: sq_contents_def sq_slots_def)

lemma sq_inv_count: "sq_inv q \<Longrightarrow> sq_count q \<le> sq_capacity q"
  by (simp add: sq_inv_def ring_wf_def)

lemma sq_pop_spec:
  assumes "sq_inv q" "0 < sq_count q"
  shows "\<exists>x q'. single_queue_pop q = (Some x, q') \<and> sq_inv q' \<and>
    sq_contents q = x # sq_contents q' \<and> sq_capacity q' = sq_capacity q"
proof -
  from assms have wf: "ring_wf (sq_items q) (sq_capacity q) (sq_head q) (sq_tail q) (sq_count q)"
    by (simp add: sq_inv_def)
  have slots: "sq_slots q = sq_items q ! sq_head q # sq_slots (snd (single_queue_pop q))"
    using ring_list_pop [OF wf assms(2), of None] assms(2)
    by (simp add: sq_slots_def single_queue_pop_def single_queue_is_empty_def)
  with assms obtain x where x: "sq_items q ! sq_head q = Some x"
    by (cases "sq_items q ! sq_head q") (auto simp: sq_inv_def)
  have "sq_inv (snd (single_queue_pop q))"
    using slots assms ring_wf_pop [OF wf assms(2), of None]
    by (auto simp: sq_inv_def single_queue_pop_def single_queue_is_empty_def)
  with slots x assms(2) show ?thesis
    by (auto simp: sq_contents_def single_queue_pop_def single_queue_is_empty_def)
qed

lemma sq_push_spec:
  assumes "sq_inv q" "\<not> single_queue_is_full q"
  shows "\<exists>q'. single_queue_push q (Some x) = (0, q') \<and> sq_inv q' \<and>
    sq_contents q' = sq_contents q @ [x] \<and> sq_capacity q' = sq_capacity q"
proof -
  from assms have wf: "ring_wf (sq_items q) (sq_capacity q) (sq_head q) (sq_tail q) (sq_count q)"
    and room: "sq_count q < sq_capacity q"
    by (auto simp: sq_inv_def single_queue_is_full_def)
  let ?q' = "snd (single_queue_push q (Some x))"
  from ring_list_push [OF wf room, of "Some x"] assms(2)
  have slots: "sq_slots ?q' = sq_slots q @ [Some x]"
    by (simp add: sq_slots_def single_queue_push_def)
  with assms ring_wf_push [OF wf room, of "Some x"] show ?thesis
    by (auto simp: sq_inv_def sq_contents_def single_queue_push_def)
qed

interpretation sq: bounded_fifo sq_inv sq_capacity sq_contents sq_push sq_pop
proof unfold_locales
  fix q :: "'a single_queue"
  assume "sq_inv q"
  then show "length (sq_contents q) \<le> sq_capacity q" by (simp add: sq_inv_count)
next
  fix q :: "'a single_queue" and x
  assume "sq_inv q"
  then show "sq_push x q = None \<longleftrightarrow> length (sq_contents q) = sq_capacity q"
    using sq_inv_count [of q]
    by (auto simp: sq_push_def single_queue_push_def single_queue_is_full_def)
next
  fix q q' :: "'a single_queue" and x
  assume inv: "sq_inv q" and push: "sq_push x q = Some q'"
  then have "\<not> single_queue_is_full q"
    by (auto simp: sq_push_def single_queue_push_def split: if_splits)
  from sq_push_spec [OF inv this, of x] push
  show "sq_inv q' \<and> sq_capacity q' = sq_capacity q \<and> sq_contents q' = sq_contents q @ [x]"
    by (auto simp: sq_push_def)
next
  fix q :: "'a single_queue"
  assume "sq_inv q"
  then show "sq_pop q = None \<longleftrightarrow> sq_contents q = []"
    using sq_pop_spec [of q]
    by (cases "sq_count q = 0")
       (auto simp: sq_pop_def single_queue_pop_def single_queue_is_empty_def sq_contents_def sq_slots_def)
next
  fix q q' :: "'a single_queue" and y
  assume inv: "sq_inv q" and pop: "sq_pop q = Some (y, q')"
  then have "0 < sq_count q"
    by (cases "sq_count q") (auto simp: sq_pop_def single_queue_pop_def single_queue_is_empty_def)
  from sq_pop_spec [OF inv this] pop
  show "sq_inv q' \<and> sq_capacity q' = sq_capacity q \<and> sq_contents q = y # sq_contents q'"
    by (auto simp: sq_pop_def)
qed

subsection \<open>The manager\<close>

definition qm_inv :: "'a queue_manager \<Rightarrow> bool" where
  "qm_inv qm \<longleftrightarrow>
     length (qm_queues qm) = qm_queue_count qm \<and> 0 < qm_queue_count qm \<and>
     qm_enqueue_cursor qm < qm_queue_count qm \<and> list_all sq_inv (qm_queues qm)"

lemma qm_inv_nth: "qm_inv qm \<Longrightarrow> i < qm_queue_count qm \<Longrightarrow> sq_inv (qm_queues qm ! i)"
  by (simp add: qm_inv_def list_all_length)

lemma fresh_single_queue_inv: "0 < depth \<Longrightarrow> sq_inv (fresh_single_queue depth)"
  by (simp add: fresh_single_queue_def sq_inv_def sq_slots_def ring_wf_def)

lemma init_queues_fresh: "q \<in> set (init_queues depth init_ok is) \<Longrightarrow> q = fresh_single_queue depth"
  by (induction depth init_ok "is" rule: init_queues.induct) (auto split: prod.splits if_splits)

lemma queue_manager_create_inv:
  "queue_manager_create n d m c ok = Some qm \<Longrightarrow> qm_inv qm \<and> qm_queue_count qm = nat n"
  by (auto simp: queue_manager_create_def qm_inv_def list_all_iff Let_def split: if_splits
      dest!: init_queues_fresh intro!: fresh_single_queue_inv)

lemma enqueue_loop_hit:
  assumes "i0 = (start + k) mod qm_queue_count qm" "int i0 \<noteq> e"
    and "\<not> single_queue_is_full (qm_queues qm ! i0)"
    and "\<And>j. j < k \<Longrightarrow> lo \<le> j \<Longrightarrow> int ((start + j) mod qm_queue_count qm) = e \<or>
           single_queue_is_full (qm_queues qm ! ((start + j) mod qm_queue_count qm))"
    and "lo \<le> k" "k < hi"
  shows "enqueue_loop qm req e start [lo..<hi] =
    (case single_queue_push (qm_queues qm ! i0) req of
       (rc, q') \<Rightarrow> (rc, qm\<lparr>qm_queues := (qm_queues qm)[i0 := q']\<rparr>))"
  using assms(4-)
proof (induction "k - lo" arbitrary: lo)
  case 0
  then have "lo = k" by simp
  with 0 assms(1-3) show ?case by (simp add: upt_rec [of k hi] Let_def)
next
  case (Suc n)
  then have lt: "lo < k" by simp
  with Suc have "enqueue_loop qm req e start [Suc lo..<hi] =
    (case single_queue_push (qm_queues qm ! i0) req of
       (rc, q') \<Rightarrow> (rc, qm\<lparr>qm_queues := (qm_queues qm)[i0 := q']\<rparr>))" by simp
  moreover from Suc.prems(1) [of lo] lt Suc.prems(3)
  have "enqueue_loop qm req e start [lo..<hi] = enqueue_loop qm req e start [Suc lo..<hi]"
    by (auto simp: upt_rec [of lo hi] Let_def)
  ultimately show ?case by simp
qed

lemma enqueue_loop_miss:
  "(\<And>j. j \<in> set is \<Longrightarrow> int ((start + j) mod qm_queue_count qm) = e \<or>
      single_queue_is_full (qm_queues qm ! ((start + j) mod qm_queue_count qm))) \<Longrightarrow>
   enqueue_loop qm req e start is = (-1, qm)"
  by (induction "is") (auto simp: Let_def)

lemma rotation_surj:
  assumes "i < n" "start < (n::nat)"
  shows "\<exists>k<n. (start + k) mod n = i"
proof (cases "start \<le> i")
  case True
  with assms show ?thesis by (intro exI [of _ "i - start"]) auto
next
  case False
  with assms show ?thesis by (intro exI [of _ "i + n - start"]) (auto simp: mod_if)
qed

text \<open>C29. Round-robin dispatch. An enqueue of a request either appends it to the first queue, in
  cyclic order from the cursor, that is neither excluded nor full, leaving every other queue
  alone, or fails with -1 having changed no queue, and then every eligible queue is full. The
  cursor moves on by one and all the queues stay well formed.\<close>

theorem enqueue_excluding_round_robin:
  assumes inv: "qm_inv qm"
    and run: "queue_manager_enqueue_excluding qm (Some x) e = (rc, qm')"
  shows "qm_inv qm' \<and> qm_enqueue_cursor qm' = (qm_enqueue_cursor qm + 1) mod qm_queue_count qm \<and>
    (if rc = 0
     then \<exists>k < qm_queue_count qm. \<exists>i. i = (qm_enqueue_cursor qm + k) mod qm_queue_count qm \<and>
        int i \<noteq> e \<and> sq_contents (qm_queues qm' ! i) = sq_contents (qm_queues qm ! i) @ [x] \<and>
        (\<forall>j. j \<noteq> i \<longrightarrow> qm_queues qm' ! j = qm_queues qm ! j) \<and>
        (\<forall>j < k. int ((qm_enqueue_cursor qm + j) mod qm_queue_count qm) = e \<or>
           single_queue_is_full (qm_queues qm ! ((qm_enqueue_cursor qm + j) mod qm_queue_count qm)))
     else rc = -1 \<and> qm_queues qm' = qm_queues qm \<and>
        (\<forall>i < qm_queue_count qm. int i \<noteq> e \<longrightarrow> single_queue_is_full (qm_queues qm ! i)))"
proof -
  let ?n = "qm_queue_count qm" and ?c = "qm_enqueue_cursor qm"
  let ?skip = "\<lambda>j. int ((?c + j) mod ?n) = e \<or> single_queue_is_full (qm_queues qm ! ((?c + j) mod ?n))"
  let ?qm1 = "qm\<lparr>qm_enqueue_cursor := (?c + 1) mod ?n\<rparr>"
  from inv have n: "0 < ?n" and c: "?c < ?n" by (auto simp: qm_inv_def)
  have run': "enqueue_loop ?qm1 (Some x) e ?c [0..<?n] = (rc, qm')"
    using run by (simp add: queue_manager_enqueue_excluding_def Let_def)
  show ?thesis
  proof (cases "\<forall>j < ?n. ?skip j")
    case True
    then have "enqueue_loop ?qm1 (Some x) e ?c [0..<?n] = (-1, ?qm1)"
      by (intro enqueue_loop_miss) auto
    with run' have "rc = -1" "qm' = ?qm1" by auto
    moreover have "single_queue_is_full (qm_queues qm ! i)" if "i < ?n" "int i \<noteq> e" for i
      using rotation_surj [OF that(1) c] True that(2) by metis
    ultimately show ?thesis using inv n by (auto simp: qm_inv_def)
  next
    case False
    define k where "k = (LEAST j. j < ?n \<and> \<not> ?skip j)"
    from False have ex: "\<exists>j. j < ?n \<and> \<not> ?skip j" by blast
    from LeastI_ex [OF ex] have k: "k < ?n" "\<not> ?skip k" by (auto simp: k_def)
    have before: "?skip j" if "j < k" for j
      using not_less_Least [of j "\<lambda>j. j < ?n \<and> \<not> ?skip j"] that k(1) by (auto simp: k_def)
    let ?i = "(?c + k) mod ?n"
    have i: "?i < ?n" using n by simp
    from sq_push_spec [OF qm_inv_nth [OF inv i]] k(2) obtain q' where
      q': "single_queue_push (qm_queues qm ! ?i) (Some x) = (0, q')" "sq_inv q'"
        "sq_contents q' = sq_contents (qm_queues qm ! ?i) @ [x]" by blast
    have "enqueue_loop ?qm1 (Some x) e ?c [0..<?n] =
        (case single_queue_push (qm_queues ?qm1 ! ?i) (Some x) of
          (rc, q') \<Rightarrow> (rc, ?qm1\<lparr>qm_queues := (qm_queues ?qm1)[?i := q']\<rparr>))"
      by (rule enqueue_loop_hit [where k = k]) (use k before in auto)
    with run' q' have rc: "rc = 0" and qm': "qm' = ?qm1\<lparr>qm_queues := (qm_queues qm)[?i := q']\<rparr>"
      by auto
    have "qm_inv qm'"
      using inv q'(2) n by (auto simp: qm_inv_def qm' list_all_length nth_list_update)
    moreover have "sq_contents (qm_queues qm' ! ?i) = sq_contents (qm_queues qm ! ?i) @ [x]"
      using inv i q'(3) by (simp add: qm' qm_inv_def)
    ultimately show ?thesis using rc k before by (auto simp: qm' intro!: exI [of _ k])
  qed
qed

lemma enqueue_excluding_round_robin_witness:
  "let q = fresh_single_queue 1 :: nat single_queue;
       qm = \<lparr>qm_queues = [q, q], qm_queue_count = 2, qm_enqueue_cursor = 1, qm_shutting_down = False\<rparr>;
       out = queue_manager_enqueue_excluding qm (Some 7) (-1)
   in fst out = 0 \<and> qm_inv (snd out) \<and> qm_enqueue_cursor (snd out) = 0 \<and>
      sq_contents (qm_queues (snd out) ! 1) = [7]"
proof -
  let ?q = "fresh_single_queue 1 :: nat single_queue"
  let ?qm = "\<lparr>qm_queues = [?q, ?q], qm_queue_count = 2, qm_enqueue_cursor = 1, qm_shutting_down = False\<rparr>"
  let ?out = "queue_manager_enqueue_excluding ?qm (Some 7) (-1)"
  have inv: "qm_inv ?qm" by (simp add: qm_inv_def fresh_single_queue_inv)
  have rc: "fst ?out = 0" "sq_contents (qm_queues (snd ?out) ! 1) = [7]"
    by (simp_all add: queue_manager_enqueue_excluding_def fresh_single_queue_def Let_def upt_rec
        single_queue_is_full_def single_queue_push_def sq_contents_def sq_slots_def ring_list_def)
  from enqueue_excluding_round_robin [OF inv, of 7 "-1" "fst ?out" "snd ?out"] rc
  show ?thesis by (simp add: Let_def)
qed

lemma fold_counts:
  "fold (\<lambda>i total. total + f i) is (t::nat) = t + sum_list (map f is)"
  by (induction "is" arbitrary: t) auto

lemma drain_single_contents: "sq_inv q \<Longrightarrow> drain_single q = sq_contents q"
proof (induction q rule: drain_single.induct)
  case (1 q)
  show ?case
  proof (cases "sq_count q = 0")
    case True
    then show ?thesis
      by (simp add: drain_single.simps [of q] single_queue_is_empty_def sq_contents_def sq_slots_def)
  next
    case False
    with sq_pop_spec [OF "1.prems"] obtain x q' where
      q': "single_queue_pop q = (Some x, q')" "sq_inv q'" "sq_contents q = x # sq_contents q'" by auto
    with "1.IH" [of "Some x" q' x] False show ?thesis
      by (simp add: drain_single.simps [of q] single_queue_is_empty_def)
  qed
qed

text \<open>The dispatcher's total is the number of requests waiting in all the queues, and
  destroying the manager frees exactly those requests, queue by queue and in queue order.\<close>

theorem queue_manager_destroy_frees_all:
  assumes "qm_inv qm"
  shows "queue_manager_destroy (Some qm) = concat (map sq_contents (qm_queues qm)) \<and>
    queue_manager_total_count qm = length (queue_manager_destroy (Some qm))"
proof -
  from assms have n: "length (qm_queues qm) = qm_queue_count qm" by (simp add: qm_inv_def)
  have "map (\<lambda>i. drain_single (qm_queues qm ! i)) [0..<qm_queue_count qm] =
      map (\<lambda>i. sq_contents (qm_queues qm ! i)) [0..<qm_queue_count qm]"
    using qm_inv_nth [OF assms] by (auto simp: drain_single_contents)
  also have "\<dots> = map sq_contents (qm_queues qm)"
    using n by (simp add: list_eq_iff_nth_eq)
  finally have d: "queue_manager_destroy (Some qm) = concat (map sq_contents (qm_queues qm))"
    by (simp add: queue_manager_destroy_def)
  have "queue_manager_total_count qm = sum_list (map sq_count (qm_queues qm))"
    using n by (simp add: queue_manager_total_count_def fold_counts list_eq_iff_nth_eq
        arg_cong [where f = sum_list])
  with d show ?thesis by (simp add: length_concat o_def)
qed

lemma queue_manager_destroy_frees_all_witness:
  "let q = \<lparr>sq_items = [Some (7::nat), None], sq_capacity = 2, sq_count = 1, sq_head = 0, sq_tail = 1\<rparr>;
       qm = \<lparr>qm_queues = [q, q], qm_queue_count = 2, qm_enqueue_cursor = 0, qm_shutting_down = True\<rparr>
   in queue_manager_destroy (Some qm) = [7, 7] \<and> queue_manager_total_count qm = 2"
proof -
  let ?q = "\<lparr>sq_items = [Some (7::nat), None], sq_capacity = 2, sq_count = 1, sq_head = 0, sq_tail = 1\<rparr>"
  let ?qm = "\<lparr>qm_queues = [?q, ?q], qm_queue_count = 2, qm_enqueue_cursor = 0, qm_shutting_down = True\<rparr>"
  have "qm_inv ?qm" by (simp add: qm_inv_def sq_inv_def ring_wf_def sq_slots_def ring_list_def)
  from queue_manager_destroy_frees_all [OF this] show ?thesis
    by (simp add: sq_contents_def sq_slots_def ring_list_def Let_def)
qed

end
