(* ===== verification/Date_Normalize.thy ===== *)
theory Date_Normalize
  imports C_Prelude
begin

text \<open>
  \<^verbatim>\<open>src/execute/date_normalize.c\<close>: a client's date value and format mask to the canonical
  \<^verbatim>\<open>YYYY-MM-DD HH24:MI:SS[.FF6]\<close>, without a database round trip. The groups follow the
  file: \<open>tokenize_mask\<close>, \<open>parse_value\<close>, \<open>finish\<close>, \<open>date_normalize\<close>.

  A function that may fail returns \<open>Inl (code, reason)\<close>; the reason is the full text
  handed to \<^verbatim>\<open>set_reason\<close>, which \<open>date_normalize\<close> cuts to the caller's buffer. The
  current year and month (from \<^verbatim>\<open>localtime_r\<close>) are arguments; years are \<open>int\<close>
  because the RR window subtracts a century.
\<close>

subsection \<open>Mask elements\<close>

datatype el_kind =
    EL_SEP | EL_LIT
  | EL_YYYY | EL_RRRR | EL_YY | EL_RR
  | EL_MM | EL_MON | EL_MONTH
  | EL_DD
  | EL_HH24 | EL_HH12
  | EL_MI | EL_SS | EL_FF
  | EL_AMPM

datatype el_group =
    G_NONE | G_YEAR | G_MONTH | G_DAY | G_HOUR | G_MIN | G_SEC | G_FRAC | G_MER

record fmt_el =
  kind :: el_kind
  ff_digits :: nat
  el_text :: cstring

definition MAX_ELEMENTS :: nat where
  "MAX_ELEMENTS = 48"

definition DATE_NORM_OK :: int where "DATE_NORM_OK = 0"
definition DATE_NORM_BAD_VALUE :: int where "DATE_NORM_BAD_VALUE = -1"
definition DATE_NORM_BAD_MASK :: int where "DATE_NORM_BAD_MASK = -2"
definition DATE_NORM_BAD_ARG :: int where "DATE_NORM_BAD_ARG = -3"
definition DATE_NORMALIZE_OUT_MAX :: nat where "DATE_NORMALIZE_OUT_MAX = 32"
definition DATE_CANONICAL_MASK :: cstring where
  "DATE_CANONICAL_MASK = ''YYYY-MM-DD HH24:MI:SS''"
definition DATE_CANONICAL_MASK_TS :: cstring where
  "DATE_CANONICAL_MASK_TS = ''YYYY-MM-DD HH24:MI:SS.FF6''"

definition KEYWORDS :: "(cstring \<times> el_kind) list" where
  "KEYWORDS =
     [(''HH24'', EL_HH24), (''HH12'', EL_HH12), (''HH'', EL_HH12), (''MONTH'', EL_MONTH),
      (''MON'', EL_MON), (''MM'', EL_MM), (''MI'', EL_MI), (''YYYY'', EL_YYYY),
      (''RRRR'', EL_RRRR), (''YY'', EL_YY), (''RR'', EL_RR), (''DD'', EL_DD), (''SS'', EL_SS),
      (''A.M.'', EL_AMPM), (''P.M.'', EL_AMPM), (''AM'', EL_AMPM), (''PM'', EL_AMPM)]"

definition UNSUPPORTED_PREFIXES :: "cstring list" where
  "UNSUPPORTED_PREFIXES = [''SSSSS'', ''DDD'', ''DAY'']"

fun group_of :: "el_kind \<Rightarrow> el_group" where
  "group_of EL_YYYY = G_YEAR"
| "group_of EL_RRRR = G_YEAR"
| "group_of EL_YY = G_YEAR"
| "group_of EL_RR = G_YEAR"
| "group_of EL_MM = G_MONTH"
| "group_of EL_MON = G_MONTH"
| "group_of EL_MONTH = G_MONTH"
| "group_of EL_DD = G_DAY"
| "group_of EL_HH24 = G_HOUR"
| "group_of EL_HH12 = G_HOUR"
| "group_of EL_MI = G_MIN"
| "group_of EL_SS = G_SEC"
| "group_of EL_FF = G_FRAC"
| "group_of EL_AMPM = G_MER"
| "group_of EL_SEP = G_NONE"
| "group_of EL_LIT = G_NONE"

definition is_time_element :: "el_kind \<Rightarrow> bool" where
  "is_time_element k \<longleftrightarrow>
     k = EL_HH24 \<or> k = EL_HH12 \<or> k = EL_MI \<or> k = EL_SS \<or> k = EL_FF \<or> k = EL_AMPM"

subsection \<open>The mask tokenizer\<close>

text \<open>The keyword part: the element at the front of the mask and how many bytes it takes.\<close>

fun match_keyword :: "(cstring \<times> el_kind) list \<Rightarrow> cstring \<Rightarrow> (fmt_el \<times> nat) option" where
  "match_keyword [] p = None"
| "match_keyword ((word, k) # ws) p =
     (if ci_prefix word p then Some (\<lparr>kind = k, ff_digits = 0, el_text = word\<rparr>, length word)
      else match_keyword ws p)"

definition match_ff :: "cstring \<Rightarrow> fmt_el \<times> nat" where
  "match_ff p =
     (case drop 2 p of
        c # _ \<Rightarrow>
          if 49 \<le> byte c \<and> byte c \<le> 57
          then (\<lparr>kind = EL_FF, ff_digits = byte c - 48, el_text = ''FF'' @ dec (byte c - 48)\<rparr>, 3)
          else (\<lparr>kind = EL_FF, ff_digits = 0, el_text = ''FF''\<rparr>, 2)
      | [] \<Rightarrow> (\<lparr>kind = EL_FF, ff_digits = 0, el_text = ''FF''\<rparr>, 2))"

fun find_unsupported :: "cstring list \<Rightarrow> cstring \<Rightarrow> nat option" where
  "find_unsupported [] p = None"
| "find_unsupported (u # us) p = (if ci_prefix u p then Some (length u) else find_unsupported us p)"

definition unsupported_reason :: "nat \<Rightarrow> cstring \<Rightarrow> cstring" where
  "unsupported_reason n p = ''unsupported format element '' @ [CHR 39] @ take n p @ [CHR 39]"

definition next_element :: "cstring \<Rightarrow> (int \<times> cstring) + (fmt_el \<times> nat)" where
  "next_element p =
     (case find_unsupported UNSUPPORTED_PREFIXES p of
        Some ul \<Rightarrow> Inl (DATE_NORM_BAD_MASK, unsupported_reason ul p)
      | None \<Rightarrow>
          if ci_prefix ''FF'' p then Inr (match_ff p)
          else (case match_keyword KEYWORDS p of
                  Some r \<Rightarrow> Inr r
                | None \<Rightarrow> Inl (DATE_NORM_BAD_MASK,
                    unsupported_reason (length (takeWhile c_isalnum (take 16 p))) p)))"

definition is_sep_char :: "char \<Rightarrow> bool" where
  "is_sep_char c \<longleftrightarrow> c \<noteq> CHR 34 \<and> \<not> c_isalnum c"

lemma match_keyword_pos: "match_keyword ws p = Some (el, n) \<Longrightarrow> [] \<notin> fst ` set ws \<Longrightarrow> 0 < n"
  by (induction ws p rule: match_keyword.induct) (auto split: if_splits)

lemma next_element_pos: "next_element p = Inr (el, n) \<Longrightarrow> 0 < n"
  by (auto simp: next_element_def match_ff_def KEYWORDS_def
      split: option.splits if_splits list.splits dest!: match_keyword_pos)

function tokenize_loop ::
    "bool \<Rightarrow> cstring \<Rightarrow> fmt_el list \<Rightarrow> el_group list \<Rightarrow> (int \<times> cstring) + fmt_el list" where
  "tokenize_loop is_timestamp p els seen =
     (case p of
        [] \<Rightarrow> Inr els
      | c # rest \<Rightarrow>
          if length els \<ge> MAX_ELEMENTS then Inl (DATE_NORM_BAD_MASK, ''format is too long'')
          else if c = CHR 34 then
            (case c_strchr rest (CHR 34) of
               None \<Rightarrow> Inl (DATE_NORM_BAD_MASK, ''format has unterminated quoted text'')
             | Some len \<Rightarrow>
                 tokenize_loop is_timestamp (drop (len + 1) rest)
                   (els @ [\<lparr>kind = EL_LIT, ff_digits = 0, el_text = take 63 (take len rest)\<rparr>]) seen)
          else if \<not> c_isalnum c then
            tokenize_loop is_timestamp (dropWhile is_sep_char p)
              (els @ [\<lparr>kind = EL_SEP, ff_digits = 0, el_text = take 63 (takeWhile is_sep_char p)\<rparr>]) seen
          else
            (case next_element p of
               Inl e \<Rightarrow> Inl e
             | Inr (el, n) \<Rightarrow>
                 let g = group_of (kind el) in
                 if g \<noteq> G_NONE \<and> g \<in> set seen then
                   Inl (DATE_NORM_BAD_MASK, ''format element '' @ [CHR 39] @ el_text el @ [CHR 39] @
                     '' appears twice (or clashes with another element for the same field)'')
                 else if kind el = EL_FF \<and> \<not> is_timestamp then
                   Inl (DATE_NORM_BAD_MASK,
                     ''fractional seconds (FF) are only valid for TIMESTAMP columns'')
                 else tokenize_loop is_timestamp (drop n p) (els @ [el]) (g # seen)))"
  by pat_completeness auto
termination
  by (relation "measure (\<lambda>(ts, p, els, seen). length p)")
     (auto simp: is_sep_char_def le_imp_less_Suc length_dropWhile_le dest: next_element_pos
       split: if_splits)

declare tokenize_loop.simps [simp del]

definition tokenize_mask :: "cstring \<Rightarrow> bool \<Rightarrow> (int \<times> cstring) + fmt_el list" where
  "tokenize_mask fmt is_timestamp =
     (case tokenize_loop is_timestamp fmt [] [] of
        Inl e \<Rightarrow> Inl e
      | Inr els \<Rightarrow>
          let has_hh24 = list_ex (\<lambda>el. kind el = EL_HH24) els;
              has_ampm = list_ex (\<lambda>el. kind el = EL_AMPM) els;
              has_data = list_ex (\<lambda>el. kind el \<noteq> EL_SEP \<and> kind el \<noteq> EL_LIT) els
          in if has_hh24 \<and> has_ampm
             then Inl (DATE_NORM_BAD_MASK, ''HH24 cannot be used with AM/PM'')
             else if \<not> has_data
             then Inl (DATE_NORM_BAD_MASK, ''format has no date or time elements'')
             else Inr els)"

subsection \<open>The value parser\<close>

record dt_parts =
  year :: int
  month :: nat
  day :: nat
  hour :: nat
  minute :: nat
  second :: nat
  year_set :: bool
  month_set :: bool
  day_set :: bool
  hour_set :: bool
  hour_is_12 :: bool
  meridian :: nat
  frac :: cstring

definition dt_zero :: dt_parts where
  "dt_zero = \<lparr>year = 0, month = 0, day = 0, hour = 0, minute = 0, second = 0,
     year_set = False, month_set = False, day_set = False, hour_set = False,
     hour_is_12 = False, meridian = 0, frac = []\<rparr>"

definition MONTH_FULL :: "cstring list" where
  "MONTH_FULL = [''JANUARY'', ''FEBRUARY'', ''MARCH'', ''APRIL'', ''MAY'', ''JUNE'',
     ''JULY'', ''AUGUST'', ''SEPTEMBER'', ''OCTOBER'', ''NOVEMBER'', ''DECEMBER'']"

text \<open>First word of the list that is a prefix of \<open>v\<close>: its position and its length.\<close>

fun find_name :: "nat \<Rightarrow> cstring list \<Rightarrow> cstring \<Rightarrow> (nat \<times> nat) option" where
  "find_name m [] v = None"
| "find_name m (w # ws) v = (if ci_prefix w v then Some (m, length w) else find_name (m + 1) ws v)"

definition read_month_name :: "cstring \<Rightarrow> nat \<times> cstring" where
  "read_month_name v =
     (case find_name 1 MONTH_FULL v of
        Some (m, l) \<Rightarrow> (m, drop l v)
      | None \<Rightarrow>
          (case find_name 1 (map (take 3) MONTH_FULL) v of
             Some (m, l) \<Rightarrow> (m, drop 3 v)
           | None \<Rightarrow> (0, v)))"

definition digit_value :: "cstring \<Rightarrow> nat" where
  "digit_value ds = foldl (\<lambda>acc c. acc * 10 + (byte c - 48)) 0 ds"

text \<open>Digits read, their value, the rest of the input.\<close>

definition read_digits :: "nat \<Rightarrow> cstring \<Rightarrow> nat \<times> nat \<times> cstring" where
  "read_digits max_width v =
     (let ds = takeWhile c_isdigit (take max_width v)
      in (length ds, digit_value ds, drop (length ds) v))"

definition expand_two_digit_year :: "nat \<Rightarrow> bool \<Rightarrow> int \<Rightarrow> int" where
  "expand_two_digit_year yy is_rr current_year =
     (let century = current_year div 100; cur_yy = current_year mod 100
      in if \<not> is_rr then century * 100 + int yy
         else if yy < 50 then (if cur_yy < 50 then century else century + 1) * 100 + int yy
         else (if cur_yy < 50 then century - 1 else century) * 100 + int yy)"

definition NON_NUMERIC :: "int \<times> cstring" where
  "NON_NUMERIC = (DATE_NORM_BAD_VALUE,
     ''a non-numeric character was found where a numeric was expected'')"

definition BAD_MONTH :: "int \<times> cstring" where
  "BAD_MONTH = (DATE_NORM_BAD_VALUE, ''not a valid month'')"

text \<open>A separator of the mask: blanks are free, at most \<open>budget\<close> other characters.\<close>

fun skip_sep :: "nat \<Rightarrow> cstring \<Rightarrow> cstring" where
  "skip_sep budget [] = []"
| "skip_sep budget (c # v) =
     (if c_isalnum c then c # v
      else if c_isspace c then skip_sep budget v
      else case budget of 0 \<Rightarrow> c # v | Suc b \<Rightarrow> skip_sep b v)"

definition read_number ::
    "nat \<Rightarrow> cstring \<Rightarrow> (nat \<Rightarrow> nat \<Rightarrow> dt_parts) \<Rightarrow> (int \<times> cstring) + (dt_parts \<times> cstring)" where
  "read_number width v f =
     (case read_digits width v of
        (nd, num, v') \<Rightarrow> if nd = 0 then Inl NON_NUMERIC else Inr (f nd num, v'))"

definition parse_element ::
    "fmt_el \<Rightarrow> int \<Rightarrow> dt_parts \<Rightarrow> cstring \<Rightarrow> (int \<times> cstring) + (dt_parts \<times> cstring)" where
  "parse_element el current_year dt v =
     (case kind el of
        EL_SEP \<Rightarrow> Inr (dt, skip_sep (length (el_text el)) v)
      | EL_LIT \<Rightarrow>
          if \<not> ci_prefix (el_text el) v
          then Inl (DATE_NORM_BAD_VALUE, ''literal does not match format string'')
          else Inr (dt, drop (length (el_text el)) v)
      | EL_YYYY \<Rightarrow> read_number 4 v (\<lambda>nd num. dt\<lparr>year := int num, year_set := True\<rparr>)
      | EL_RRRR \<Rightarrow> read_number 4 v (\<lambda>nd num. dt\<lparr>year :=
          (if nd \<le> 2 then expand_two_digit_year num True current_year else int num),
          year_set := True\<rparr>)
      | EL_YY \<Rightarrow> read_number 4 v (\<lambda>nd num. dt\<lparr>year :=
          (if nd \<le> 2 then expand_two_digit_year num False current_year else int num),
          year_set := True\<rparr>)
      | EL_RR \<Rightarrow> read_number 4 v (\<lambda>nd num. dt\<lparr>year :=
          (if nd \<le> 2 then expand_two_digit_year num True current_year else int num),
          year_set := True\<rparr>)
      | EL_MM \<Rightarrow>
          if v \<noteq> [] \<and> c_isalpha (hd v)
          then (case read_month_name v of
                  (m, v') \<Rightarrow> if m = 0 then Inl BAD_MONTH
                    else Inr (dt\<lparr>month := m, month_set := True\<rparr>, v'))
          else read_number 2 v (\<lambda>nd num. dt\<lparr>month := num, month_set := True\<rparr>)
      | EL_MON \<Rightarrow>
          (case read_month_name v of
             (m, v') \<Rightarrow> if m = 0 then Inl BAD_MONTH
               else Inr (dt\<lparr>month := m, month_set := True\<rparr>, v'))
      | EL_MONTH \<Rightarrow>
          (case read_month_name v of
             (m, v') \<Rightarrow> if m = 0 then Inl BAD_MONTH
               else Inr (dt\<lparr>month := m, month_set := True\<rparr>, v'))
      | EL_DD \<Rightarrow> read_number 2 v (\<lambda>nd num. dt\<lparr>day := num, day_set := True\<rparr>)
      | EL_HH24 \<Rightarrow>
          read_number 2 v (\<lambda>nd num. dt\<lparr>hour := num, hour_set := True, hour_is_12 := False\<rparr>)
      | EL_HH12 \<Rightarrow>
          read_number 2 v (\<lambda>nd num. dt\<lparr>hour := num, hour_set := True, hour_is_12 := True\<rparr>)
      | EL_MI \<Rightarrow> read_number 2 v (\<lambda>nd num. dt\<lparr>minute := num\<rparr>)
      | EL_SS \<Rightarrow> read_number 2 v (\<lambda>nd num. dt\<lparr>second := num\<rparr>)
      | EL_FF \<Rightarrow>
          (let width = (if ff_digits el \<noteq> 0 then ff_digits el else 9);
               ds = takeWhile c_isdigit (take width v)
           in if ds = [] then Inl NON_NUMERIC else Inr (dt\<lparr>frac := ds\<rparr>, drop (length ds) v))
      | EL_AMPM \<Rightarrow>
          if ci_prefix ''A.M.'' v then Inr (dt\<lparr>meridian := 1\<rparr>, drop 4 v)
          else if ci_prefix ''P.M.'' v then Inr (dt\<lparr>meridian := 2\<rparr>, drop 4 v)
          else if ci_prefix ''AM'' v then Inr (dt\<lparr>meridian := 1\<rparr>, drop 2 v)
          else if ci_prefix ''PM'' v then Inr (dt\<lparr>meridian := 2\<rparr>, drop 2 v)
          else Inl (DATE_NORM_BAD_VALUE, ''AM/A.M. or PM/P.M. required''))"

definition optional_at_end :: "fmt_el \<Rightarrow> bool" where
  "optional_at_end el \<longleftrightarrow> kind el = EL_SEP \<or> kind el = EL_LIT \<or> is_time_element (kind el)"

fun parse_elements ::
    "fmt_el list \<Rightarrow> int \<Rightarrow> dt_parts \<Rightarrow> cstring \<Rightarrow> (int \<times> cstring) + (dt_parts \<times> cstring)" where
  "parse_elements [] current_year dt v = Inr (dt, v)"
| "parse_elements (el # els) current_year dt v =
     (if v = [] then
        (if list_all optional_at_end (el # els) then Inr (dt, v)
         else Inl (DATE_NORM_BAD_VALUE, ''input value not long enough for date format''))
      else (case parse_element el current_year dt v of
              Inl e \<Rightarrow> Inl e
            | Inr (dt', v') \<Rightarrow> parse_elements els current_year dt' v'))"

definition parse_value ::
    "cstring \<Rightarrow> fmt_el list \<Rightarrow> int \<Rightarrow> dt_parts \<Rightarrow> (int \<times> cstring) + dt_parts" where
  "parse_value val els current_year dt =
     (case parse_elements els current_year dt (dropWhile c_isspace val) of
        Inl e \<Rightarrow> Inl e
      | Inr (dt', v) \<Rightarrow>
          if dropWhile c_isspace v \<noteq> []
          then Inl (DATE_NORM_BAD_VALUE,
            ''date format picture ends before converting entire input string'')
          else Inr dt')"

subsection \<open>Checks and output\<close>

definition is_leap :: "int \<Rightarrow> bool" where
  "is_leap y =
     (if y < 1582 then y mod 4 = 0
      else (y mod 4 = 0 \<and> y mod 100 \<noteq> 0) \<or> y mod 400 = 0)"

definition days_in_month :: "int \<Rightarrow> nat \<Rightarrow> nat" where
  "days_in_month y m =
     (if m = 2 \<and> is_leap y then 29
      else [31, 28, 31, 30, 31, 30, 31, 31, 30, 31, 30, 31] ! (m - 1))"

definition with_defaults :: "int \<Rightarrow> nat \<Rightarrow> dt_parts \<Rightarrow> dt_parts" where
  "with_defaults current_year current_month dt =
     dt\<lparr>year := (if year_set dt then year dt else current_year),
        month := (if month_set dt then month dt else current_month),
        day := (if day_set dt then day dt else 1)\<rparr>"

definition skip_1582_gap :: "dt_parts \<Rightarrow> dt_parts" where
  "skip_1582_gap dt =
     (if year dt = 1582 \<and> month dt = 10 \<and> day dt \<ge> 5 \<and> day dt \<le> 14 then dt\<lparr>day := 15\<rparr> else dt)"

definition check_hour :: "dt_parts \<Rightarrow> cstring + dt_parts" where
  "check_hour dt =
     (if hour_set dt then
        (if hour_is_12 dt then
           (if hour dt < 1 \<or> hour dt > 12 then Inl ''hour must be between 1 and 12''
            else if meridian dt = 1 then Inr (dt\<lparr>hour := hour dt mod 12\<rparr>)
            else if meridian dt = 2 then Inr (dt\<lparr>hour := hour dt mod 12 + 12\<rparr>)
            else Inr dt)
         else if hour dt > 23 then Inl ''hour must be between 0 and 23''
         else Inr dt)
      else Inr dt)"

definition f6 :: "cstring \<Rightarrow> cstring" where
  "f6 fr = take 6 fr @ replicate (6 - length fr) (CHR ''0'')"

definition canonical_text :: "bool \<Rightarrow> dt_parts \<Rightarrow> cstring" where
  "canonical_text is_timestamp dt =
     dec_pad 4 (nat (year dt)) @ ''-'' @ dec_pad 2 (month dt) @ ''-'' @ dec_pad 2 (day dt) @ '' '' @
     dec_pad 2 (hour dt) @ '':'' @ dec_pad 2 (minute dt) @ '':'' @ dec_pad 2 (second dt) @
     (if is_timestamp then ''.'' @ f6 (frac dt) else [])"

definition finish ::
    "dt_parts \<Rightarrow> bool \<Rightarrow> int \<Rightarrow> nat \<Rightarrow> nat \<Rightarrow> (int \<times> cstring) + cstring" where
  "finish dt0 is_timestamp current_year current_month out_size =
     (let dt1 = with_defaults current_year current_month dt0 in
      if year dt1 < 1 \<or> year dt1 > 9999
      then Inl (DATE_NORM_BAD_VALUE, ''year must be between 1 and 9999'')
      else if month dt1 < 1 \<or> month dt1 > 12
      then Inl (DATE_NORM_BAD_VALUE, ''not a valid month'')
      else if day dt1 < 1 \<or> day dt1 > 31
      then Inl (DATE_NORM_BAD_VALUE, ''day of month must be between 1 and last day of month'')
      else if day dt1 > days_in_month (year dt1) (month dt1)
      then Inl (DATE_NORM_BAD_VALUE, ''date not valid for month specified'')
      else (case check_hour (skip_1582_gap dt1) of
          Inl r \<Rightarrow> Inl (DATE_NORM_BAD_VALUE, r)
        | Inr dt \<Rightarrow>
            if minute dt > 59
            then Inl (DATE_NORM_BAD_VALUE, ''minutes must be between 0 and 59'')
            else if second dt > 59
            then Inl (DATE_NORM_BAD_VALUE, ''seconds must be between 0 and 59'')
            else if length (canonical_text is_timestamp dt) \<ge> out_size
            then Inl (DATE_NORM_BAD_ARG, ''output buffer too small'')
            else Inr (canonical_text is_timestamp dt)))"

subsection \<open>The public functions\<close>

text \<open>
  \<^verbatim>\<open>set_reason\<close> into a buffer of \<open>reason_size\<close> bytes; size 0 stands for no buffer. The
  result of \<open>date_normalize\<close> is the return code, what it wrote to \<^verbatim>\<open>out\<close> (\<open>None\<close>: it did
  not touch it) and the reason buffer.
\<close>

definition set_reason :: "nat \<Rightarrow> cstring \<Rightarrow> cstring" where
  "set_reason reason_size text = (if reason_size = 0 then [] else c_snprintf reason_size text)"

definition date_normalize ::
    "cstring option \<Rightarrow> cstring option \<Rightarrow> bool \<Rightarrow> bool \<Rightarrow> nat \<Rightarrow> nat \<Rightarrow> int \<Rightarrow> nat \<Rightarrow>
     int \<times> cstring option \<times> cstring" where
  "date_normalize val fmt is_timestamp out_given out_size reason_size current_year current_month =
     (case val of
        None \<Rightarrow> (DATE_NORM_BAD_ARG, None, set_reason reason_size ''invalid arguments'')
      | Some v \<Rightarrow>
          if \<not> out_given \<or> out_size < DATE_NORMALIZE_OUT_MAX
          then (DATE_NORM_BAD_ARG, None, set_reason reason_size ''invalid arguments'')
          else
            let m = (case fmt of
                       Some (c # cs) \<Rightarrow> c # cs
                     | _ \<Rightarrow> if is_timestamp then DATE_CANONICAL_MASK_TS else DATE_CANONICAL_MASK)
            in (case tokenize_mask m is_timestamp of
                  Inl (rc, r) \<Rightarrow> (rc, None, set_reason reason_size r)
                | Inr els \<Rightarrow>
                    (case parse_value v els current_year dt_zero of
                       Inl (rc, r) \<Rightarrow> (rc, None, set_reason reason_size r)
                     | Inr dt \<Rightarrow>
                         (case finish dt is_timestamp current_year current_month
                             DATE_NORMALIZE_OUT_MAX of
                            Inl (rc, r) \<Rightarrow> (rc, None, set_reason reason_size r)
                          | Inr tmp \<Rightarrow>
                              (DATE_NORM_OK, Some (c_snprintf out_size tmp), [])))))"

definition date_mask_is_canonical :: "cstring option \<Rightarrow> bool" where
  "date_mask_is_canonical fmt =
     (case fmt of
        None \<Rightarrow> False
      | Some m0 \<Rightarrow>
          let m = dropWhile c_isspace m0;
              trimmed = rev (dropWhile c_isspace (rev m))
          in length trimmed = length DATE_CANONICAL_MASK \<and> ci_eq trimmed DATE_CANONICAL_MASK)"

subsection \<open>Digits\<close>

lemma digit_value_snoc [simp]: "digit_value (ds @ [c]) = digit_value ds * 10 + (byte c - 48)"
  by (simp add: digit_value_def)

lemma digit_value_dec [simp]: "digit_value (dec n) = n"
proof (induction n rule: dec.induct)
  case (1 n)
  show ?case
  proof (cases "n < 10")
    case True
    then show ?thesis by (simp add: dec.simps [of n] digit_value_def)
  next
    case False
    with 1 show ?thesis by (simp add: dec.simps [of n])
  qed
qed

lemma digit_value_zeros [simp]: "digit_value (replicate k (CHR ''0'') @ ds) = digit_value ds"
  by (induction k) (auto simp: digit_value_def byte_def)

lemma zero_isdigit [simp]: "c_isdigit (CHR ''0'')"
  by (simp add: c_isdigit_def byte_def)

lemma dec_pad_digits: "c \<in> set (dec_pad w n) \<Longrightarrow> c_isdigit c"
  by (auto simp: dec_pad_def dec_all_digits)

lemma digit_value_pad [simp]: "digit_value (dec_pad w n) = n"
  by (simp add: dec_pad_def)

lemma takeWhile_digits:
  "(\<And>c. c \<in> set ds \<Longrightarrow> c_isdigit c) \<Longrightarrow> length ds = w \<Longrightarrow>
     takeWhile c_isdigit (take w (ds @ rest)) = ds"
  by auto

lemma read_digits_pad [simp]:
  assumes "n < 10 ^ w" "0 < w"
  shows "read_digits w (dec_pad w n @ rest) = (w, n, rest)"
proof -
  have "takeWhile c_isdigit (take w (dec_pad w n @ rest)) = dec_pad w n"
    by (rule takeWhile_digits) (use assms dec_pad_digits in auto)
  with assms show ?thesis by (simp only: read_digits_def Let_def) simp
qed

lemma dec_pad_first:
  assumes "n < 10 ^ w" "0 < w"
  obtains c cs where "dec_pad w n = c # cs" "c_isdigit c"
  using dec_pad_digits [of _ w n] length_dec_pad [OF assms] assms(2)
  by (cases "dec_pad w n") auto

lemma skip_sep_digit [simp]: "c_isdigit c \<Longrightarrow> skip_sep b (c # v) = c # v"
  by simp

lemma skip_sep_pad [simp]:
  "n < 10 ^ w \<Longrightarrow> 0 < w \<Longrightarrow> skip_sep b (dec_pad w n @ rest) = dec_pad w n @ rest"
  by (erule (1) dec_pad_first) simp

lemma read_number_pad [simp]:
  "n < 10 ^ w \<Longrightarrow> 0 < w \<Longrightarrow> read_number w (dec_pad w n @ rest) f = Inr (f w n, rest)"
  by (simp add: read_number_def)

lemma pad_not_nil [simp]: "n < 10 ^ w \<Longrightarrow> 0 < w \<Longrightarrow> dec_pad w n \<noteq> []"
  by (erule (1) dec_pad_first) simp

lemma pad_hd [simp]:
  "n < 10 ^ w \<Longrightarrow> 0 < w \<Longrightarrow> \<not> c_isalpha (hd (dec_pad w n @ rest))"
  by (erule (1) dec_pad_first) simp

lemma strip_pad [simp]:
  "n < 10 ^ w \<Longrightarrow> 0 < w \<Longrightarrow> dropWhile c_isspace (dec_pad w n @ rest) = dec_pad w n @ rest"
  by (erule (1) dec_pad_first) simp

lemmas pad_4 = read_number_pad [of _ 4, simplified] skip_sep_pad [of _ 4, simplified]
  pad_not_nil [of _ 4, simplified] pad_hd [of _ 4, simplified] pad_hd [of _ 4 "[]", simplified] strip_pad [of _ 4, simplified]

lemmas pad_2 = read_number_pad [of _ 2, simplified] skip_sep_pad [of _ 2, simplified]
  pad_not_nil [of _ 2, simplified] pad_hd [of _ 2, simplified] pad_hd [of _ 2 "[]", simplified] strip_pad [of _ 2, simplified]
  read_number_pad [of _ 2 "[]", simplified] skip_sep_pad [of _ 2 _ "[]", simplified]

subsection \<open>Evaluation of masks\<close>

lemma alnum_upper [simp]:
  "c_isalnum (CHR ''A'')"
  "c_isalnum (CHR ''D'')"
  "c_isalnum (CHR ''F'')"
  "c_isalnum (CHR ''H'')"
  "c_isalnum (CHR ''I'')"
  "c_isalnum (CHR ''M'')"
  "c_isalnum (CHR ''P'')"
  "c_isalnum (CHR ''R'')"
  "c_isalnum (CHR ''S'')"
  "c_isalnum (CHR ''Y'')"
  "c_isalnum (CHR ''2'')"
  "c_isalnum (CHR ''4'')"
  "c_isalnum (CHR ''6'')"
  by (simp_all add: ctype_defs byte_def)

lemma digit_6: "digit 6 = CHR ''6''"
  by (simp add: byte_inject [symmetric]) (simp add: byte_def)

lemmas tokenize_eval = tokenize_mask_def tokenize_loop.simps MAX_ELEMENTS_def next_element_def
  KEYWORDS_def UNSUPPORTED_PREFIXES_def ci_prefix_def match_ff_def is_sep_char_def Let_def

lemma tokenize_canonical:
  "tokenize_mask DATE_CANONICAL_MASK False = Inr
     [\<lparr>kind = EL_YYYY, ff_digits = 0, el_text = ''YYYY''\<rparr>, \<lparr>kind = EL_SEP, ff_digits = 0, el_text = ''-''\<rparr>,
      \<lparr>kind = EL_MM, ff_digits = 0, el_text = ''MM''\<rparr>, \<lparr>kind = EL_SEP, ff_digits = 0, el_text = ''-''\<rparr>,
      \<lparr>kind = EL_DD, ff_digits = 0, el_text = ''DD''\<rparr>, \<lparr>kind = EL_SEP, ff_digits = 0, el_text = '' ''\<rparr>,
      \<lparr>kind = EL_HH24, ff_digits = 0, el_text = ''HH24''\<rparr>, \<lparr>kind = EL_SEP, ff_digits = 0, el_text = '':''\<rparr>,
      \<lparr>kind = EL_MI, ff_digits = 0, el_text = ''MI''\<rparr>, \<lparr>kind = EL_SEP, ff_digits = 0, el_text = '':''\<rparr>,
      \<lparr>kind = EL_SS, ff_digits = 0, el_text = ''SS''\<rparr>]"
  by (simp add: tokenize_eval DATE_CANONICAL_MASK_def)

lemma tokenize_canonical_ts:
  "tokenize_mask DATE_CANONICAL_MASK_TS True = Inr
     [\<lparr>kind = EL_YYYY, ff_digits = 0, el_text = ''YYYY''\<rparr>, \<lparr>kind = EL_SEP, ff_digits = 0, el_text = ''-''\<rparr>,
      \<lparr>kind = EL_MM, ff_digits = 0, el_text = ''MM''\<rparr>, \<lparr>kind = EL_SEP, ff_digits = 0, el_text = ''-''\<rparr>,
      \<lparr>kind = EL_DD, ff_digits = 0, el_text = ''DD''\<rparr>, \<lparr>kind = EL_SEP, ff_digits = 0, el_text = '' ''\<rparr>,
      \<lparr>kind = EL_HH24, ff_digits = 0, el_text = ''HH24''\<rparr>, \<lparr>kind = EL_SEP, ff_digits = 0, el_text = '':''\<rparr>,
      \<lparr>kind = EL_MI, ff_digits = 0, el_text = ''MI''\<rparr>, \<lparr>kind = EL_SEP, ff_digits = 0, el_text = '':''\<rparr>,
      \<lparr>kind = EL_SS, ff_digits = 0, el_text = ''SS''\<rparr>, \<lparr>kind = EL_SEP, ff_digits = 0, el_text = ''.''\<rparr>,
      \<lparr>kind = EL_FF, ff_digits = 6, el_text = ''FF6''\<rparr>]"
  by (simp add: tokenize_eval DATE_CANONICAL_MASK_TS_def) (simp add: byte_def dec_less_10 digit_6)

subsection \<open>Canonical dates are read back\<close>

text \<open>A date and time that \<open>canonical_text\<close> writes in full.\<close>

definition valid_parts :: "dt_parts \<Rightarrow> bool" where
  "valid_parts dt \<longleftrightarrow>
     1 \<le> year dt \<and> year dt \<le> 9999 \<and> 1 \<le> month dt \<and> month dt \<le> 12 \<and>
     1 \<le> day dt \<and> day dt \<le> days_in_month (year dt) (month dt) \<and> day dt \<le> 31 \<and>
     \<not> (year dt = 1582 \<and> month dt = 10 \<and> 5 \<le> day dt \<and> day dt \<le> 14) \<and>
     hour dt \<le> 23 \<and> minute dt \<le> 59 \<and> second dt \<le> 59 \<and> list_all c_isdigit (frac dt)"

definition reparsed :: "bool \<Rightarrow> dt_parts \<Rightarrow> dt_parts" where
  "reparsed ts dt = dt_zero\<lparr>year := year dt, year_set := True, month := month dt, month_set := True,
     day := day dt, day_set := True, hour := hour dt, hour_set := True, hour_is_12 := False,
     minute := minute dt, second := second dt, frac := (if ts then f6 (frac dt) else [])\<rparr>"

lemma f6_simps [simp]:
  "length (f6 fr) = 6" "list_all c_isdigit fr \<Longrightarrow> list_all c_isdigit (f6 fr)" "f6 (f6 fr) = f6 fr"
proof -
  show len: "length (f6 fr) = 6" by (simp add: f6_def)
  show "list_all c_isdigit fr \<Longrightarrow> list_all c_isdigit (f6 fr)"
    by (auto simp: f6_def list_all_iff dest: in_set_takeD)
  from len show "f6 (f6 fr) = f6 fr" by (simp add: f6_def [of "f6 fr"])
qed

lemma takeWhile_f6 [simp]:
  "list_all c_isdigit fr \<Longrightarrow> takeWhile c_isdigit (take 6 (f6 fr)) = f6 fr"
  using f6_simps(2) [of fr] by (simp add: list_all_iff)

lemma canonical_lengths:
  assumes "valid_parts dt"
  shows "nat (year dt) < 10000" "month dt < 100" "day dt < 100" "hour dt < 100"
    "minute dt < 100" "second dt < 100" "0 \<le> year dt"
  using assms by (auto simp: valid_parts_def)

lemma parse_canonical_els:
  assumes "valid_parts dt"
  shows "parse_elements
     [\<lparr>kind = EL_YYYY, ff_digits = 0, el_text = ''YYYY''\<rparr>, \<lparr>kind = EL_SEP, ff_digits = 0, el_text = ''-''\<rparr>,
      \<lparr>kind = EL_MM, ff_digits = 0, el_text = ''MM''\<rparr>, \<lparr>kind = EL_SEP, ff_digits = 0, el_text = ''-''\<rparr>,
      \<lparr>kind = EL_DD, ff_digits = 0, el_text = ''DD''\<rparr>, \<lparr>kind = EL_SEP, ff_digits = 0, el_text = '' ''\<rparr>,
      \<lparr>kind = EL_HH24, ff_digits = 0, el_text = ''HH24''\<rparr>, \<lparr>kind = EL_SEP, ff_digits = 0, el_text = '':''\<rparr>,
      \<lparr>kind = EL_MI, ff_digits = 0, el_text = ''MI''\<rparr>, \<lparr>kind = EL_SEP, ff_digits = 0, el_text = '':''\<rparr>,
      \<lparr>kind = EL_SS, ff_digits = 0, el_text = ''SS''\<rparr>] cy dt_zero (canonical_text False dt)
    = Inr (reparsed False dt, [])"
  by (simp add: canonical_text_def parse_element_def reparsed_def dt_zero_def
      canonical_lengths [OF assms] pad_2 pad_4)

lemma parse_canonical_els_ts:
  assumes "valid_parts dt"
  shows "parse_elements
     [\<lparr>kind = EL_YYYY, ff_digits = 0, el_text = ''YYYY''\<rparr>, \<lparr>kind = EL_SEP, ff_digits = 0, el_text = ''-''\<rparr>,
      \<lparr>kind = EL_MM, ff_digits = 0, el_text = ''MM''\<rparr>, \<lparr>kind = EL_SEP, ff_digits = 0, el_text = ''-''\<rparr>,
      \<lparr>kind = EL_DD, ff_digits = 0, el_text = ''DD''\<rparr>, \<lparr>kind = EL_SEP, ff_digits = 0, el_text = '' ''\<rparr>,
      \<lparr>kind = EL_HH24, ff_digits = 0, el_text = ''HH24''\<rparr>, \<lparr>kind = EL_SEP, ff_digits = 0, el_text = '':''\<rparr>,
      \<lparr>kind = EL_MI, ff_digits = 0, el_text = ''MI''\<rparr>, \<lparr>kind = EL_SEP, ff_digits = 0, el_text = '':''\<rparr>,
      \<lparr>kind = EL_SS, ff_digits = 0, el_text = ''SS''\<rparr>, \<lparr>kind = EL_SEP, ff_digits = 0, el_text = ''.''\<rparr>,
      \<lparr>kind = EL_FF, ff_digits = 6, el_text = ''FF6''\<rparr>] cy dt_zero (canonical_text True dt)
    = Inr (reparsed True dt, [])"
proof -
  from assms have "list_all c_isdigit (frac dt)" by (simp add: valid_parts_def)
  then have fr: "list_all c_isdigit (f6 (frac dt))"
    and tk: "takeWhile c_isdigit (take 6 (f6 (frac dt))) = f6 (frac dt)"
    by (rule f6_simps(2), rule takeWhile_f6)
  obtain c cs where f6: "f6 (frac dt) = c # cs"
    using f6_simps(1) [of "frac dt"] by (cases "f6 (frac dt)") auto
  from f6 tk fr show ?thesis
    by (simp add: canonical_text_def parse_element_def reparsed_def dt_zero_def Let_def
        canonical_lengths [OF assms] pad_2 pad_4)
qed

lemma canonical_text_reparsed: "canonical_text ts (reparsed ts dt) = canonical_text ts dt"
  by (auto simp: canonical_text_def reparsed_def dt_zero_def)

lemma valid_reparsed: "valid_parts dt \<Longrightarrow> valid_parts (reparsed ts dt)"
  by (simp add: valid_parts_def reparsed_def dt_zero_def)

lemma canonical_text_front:
  assumes "valid_parts dt"
  shows "dropWhile c_isspace (canonical_text ts dt) = canonical_text ts dt"
  using canonical_lengths [OF assms] by (simp add: canonical_text_def pad_4)

lemma length_canonical_text:
  assumes "valid_parts dt"
  shows "length (canonical_text ts dt) = (if ts then 26 else 19)"
  using canonical_lengths [OF assms] length_dec_pad [of _ 2] length_dec_pad [of _ 4]
  by (simp add: canonical_text_def)

lemma parse_canonical:
  assumes "valid_parts dt"
  shows "\<exists>els. tokenize_mask (if ts then DATE_CANONICAL_MASK_TS else DATE_CANONICAL_MASK) ts = Inr els \<and>
     parse_value (canonical_text ts dt) els cy dt_zero = Inr (reparsed ts dt)"
  by (cases ts)
     (auto simp: tokenize_canonical tokenize_canonical_ts parse_value_def canonical_text_front [OF assms]
       parse_canonical_els [OF assms] parse_canonical_els_ts [OF assms] simp del: parse_elements.simps)

lemma finish_valid_id:
  assumes "valid_parts dt" "year_set dt" "month_set dt" "day_set dt" "hour_set dt" "\<not> hour_is_12 dt"
    and "26 < n"
  shows "finish dt ts cy cm n = Inr (canonical_text ts dt)"
proof -
  from assms have d: "with_defaults cy cm dt = dt" "skip_1582_gap dt = dt" "check_hour dt = Inr dt"
    by (auto simp: with_defaults_def skip_1582_gap_def check_hour_def valid_parts_def)
  from assms(1,7) length_canonical_text [OF assms(1), of ts] show ?thesis
    by (auto simp: finish_def d Let_def valid_parts_def)
qed

lemma finish_valid:
  assumes "finish dt0 ts cy cm n = Inr s" and "list_all c_isdigit (frac dt0)"
    and "hour_set dt0 \<or> hour dt0 = 0"
  shows "\<exists>dt. valid_parts dt \<and> s = canonical_text ts dt"
proof -
  define dt1 where "dt1 = with_defaults cy cm dt0"
  define dt2 where "dt2 = skip_1582_gap dt1"
  from assms(1) obtain dt where dt: "check_hour dt2 = Inr dt" and s: "s = canonical_text ts dt"
    and ok: "1 \<le> year dt1" "year dt1 \<le> 9999" "1 \<le> month dt1" "month dt1 \<le> 12" "1 \<le> day dt1"
      "day dt1 \<le> 31" "day dt1 \<le> days_in_month (year dt1) (month dt1)" "minute dt \<le> 59" "second dt \<le> 59"
    by (auto simp: finish_def Let_def dt1_def [symmetric] dt2_def [symmetric] not_less
        split: if_splits sum.splits)
  have "days_in_month 1582 10 = 31" by (simp add: days_in_month_def)
  with ok have ok2: "1 \<le> year dt2" "year dt2 \<le> 9999" "1 \<le> month dt2" "month dt2 \<le> 12" "1 \<le> day dt2"
      "day dt2 \<le> 31" "day dt2 \<le> days_in_month (year dt2) (month dt2)"
      "\<not> (year dt2 = 1582 \<and> month dt2 = 10 \<and> 5 \<le> day dt2 \<and> day dt2 \<le> 14)"
    by (auto simp: dt2_def skip_1582_gap_def)
  have same: "frac dt2 = frac dt0" "hour dt2 = hour dt0" "hour_set dt2 = hour_set dt0"
    by (auto simp: dt2_def dt1_def skip_1582_gap_def with_defaults_def)
  from dt have "year dt = year dt2" "month dt = month dt2" "day dt = day dt2" "frac dt = frac dt2"
    "hour dt \<le> 23"
    using assms(3) same by (auto simp: check_hour_def split: if_splits)
  with ok2 ok(8,9) same assms(2) have "valid_parts dt" by (simp add: valid_parts_def)
  with s show ?thesis by blast
qed

definition parsed_ok :: "dt_parts \<Rightarrow> bool" where
  "parsed_ok dt \<longleftrightarrow> list_all c_isdigit (frac dt) \<and> (hour_set dt \<or> hour dt = 0)"

lemma takeWhile_list_all: "list_all P (takeWhile P xs)"
  by (auto simp: list_all_iff dest: set_takeWhileD)

lemma parse_element_ok:
  "parse_element el cy dt v = Inr (dt', v') \<Longrightarrow> parsed_ok dt \<Longrightarrow> parsed_ok dt'"
  by (cases "kind el")
     (auto simp: parse_element_def parsed_ok_def read_number_def Let_def takeWhile_list_all
       split: if_splits prod.splits)

lemma parse_elements_ok:
  "parse_elements els cy dt v = Inr (dt', v') \<Longrightarrow> parsed_ok dt \<Longrightarrow> parsed_ok dt'"
  by (induction els cy dt v rule: parse_elements.induct)
     (auto split: if_splits sum.splits dest: parse_element_ok)

lemma parse_value_ok: "parse_value v els cy dt_zero = Inr dt \<Longrightarrow> parsed_ok dt"
  by (auto simp: parse_value_def dt_zero_def parsed_ok_def split: sum.splits prod.splits if_splits
      dest!: parse_elements_ok)

lemma date_normalize_Some:
  assumes "date_normalize val fmt ts ok n r cy cm = (rc, Some s, why)"
  shows "rc = 0 \<and> why = [] \<and> ok \<and> 32 \<le> n \<and> (\<exists>dt. valid_parts dt \<and> s = canonical_text ts dt)"
proof -
  define m where "m = (case fmt of Some (c # cs) \<Rightarrow> c # cs
      | _ \<Rightarrow> if ts then DATE_CANONICAL_MASK_TS else DATE_CANONICAL_MASK)"
  from assms obtain v where v: "val = Some v" by (cases val) (auto simp: date_normalize_def)
  from assms have ok: "ok" "32 \<le> n"
    by (auto simp: date_normalize_def v DATE_NORMALIZE_OUT_MAX_def split: if_splits)
  with assms v have "(case tokenize_mask m ts of
                  Inl (rc, x) \<Rightarrow> (rc, None, set_reason r x)
                | Inr els \<Rightarrow>
                    (case parse_value v els cy dt_zero of
                       Inl (rc, x) \<Rightarrow> (rc, None, set_reason r x)
                     | Inr dt \<Rightarrow>
                         (case finish dt ts cy cm DATE_NORMALIZE_OUT_MAX of
                            Inl (rc, x) \<Rightarrow> (rc, None, set_reason r x)
                          | Inr tmp \<Rightarrow> (DATE_NORM_OK, Some (c_snprintf n tmp), [])))) = (rc, Some s, why)"
    by (simp add: date_normalize_def m_def Let_def DATE_NORMALIZE_OUT_MAX_def)
  then obtain els dt tmp where p: "parse_value v els cy dt_zero = Inr dt"
    "finish dt ts cy cm DATE_NORMALIZE_OUT_MAX = Inr tmp" "s = c_snprintf n tmp" "rc = 0" "why = []"
    by (auto split: sum.splits simp: DATE_NORM_OK_def)
  from finish_valid [OF p(2)] parse_value_ok [OF p(1)] obtain dt'
    where dt': "valid_parts dt'" "tmp = canonical_text ts dt'" by (auto simp: parsed_ok_def)
  with length_canonical_text [OF dt'(1), of ts] ok p(3) have "s = canonical_text ts dt'"
    by (cases ts) auto
  with ok p dt' show ?thesis by auto
qed

lemma date_normalize_canonical:
  assumes "valid_parts dt"
  shows "date_normalize (Some (canonical_text ts dt)) None ts True 32 r cy cm =
    (0, Some (canonical_text ts dt), [])"
proof -
  from parse_canonical [OF assms] obtain els where els:
    "tokenize_mask (if ts then DATE_CANONICAL_MASK_TS else DATE_CANONICAL_MASK) ts = Inr els"
    "parse_value (canonical_text ts dt) els cy dt_zero = Inr (reparsed ts dt)" by blast
  have "finish (reparsed ts dt) ts cy cm 32 = Inr (canonical_text ts dt)"
    using finish_valid_id [OF valid_reparsed [OF assms], of ts 32 ts cy cm]
    by (simp add: canonical_text_reparsed) (simp add: reparsed_def)
  with els length_canonical_text [OF assms, of ts] show ?thesis
    by (cases ts) (auto simp: date_normalize_def DATE_NORMALIZE_OUT_MAX_def DATE_NORM_OK_def Let_def)
qed

lemma slash [simp]: "\<not> c_isalnum (CHR ''/'')" "\<not> c_isspace (CHR ''/'')" "c_tolower (CHR ''/'') = CHR ''/''"
  by (simp_all add: ctype_defs c_tolower_def byte_def)

lemma digit_chars [simp]:
  "c_isdigit (CHR ''1'')" "c_isdigit (CHR ''2'')" "c_isdigit (CHR ''5'')" "c_isdigit (CHR ''9'')"
  by (simp_all add: ctype_defs byte_def)

lemmas parse_eval = parse_value_def parse_element_def read_number_def read_digits_def digit_value_def
  Let_def

text \<open>29 February 1500 exists in the Julian calendar only.\<close>

lemma sample_1500:
  "date_normalize (Some ''29/02/1500'') (Some ''DD/MM/YYYY'') False True 32 0 2026 11
     = (0, Some ''1500-02-29 00:00:00'', [])"
proof -
  have t: "tokenize_mask ''DD/MM/YYYY'' False = Inr
    [\<lparr>kind = EL_DD, ff_digits = 0, el_text = ''DD''\<rparr>, \<lparr>kind = EL_SEP, ff_digits = 0, el_text = ''/''\<rparr>,
     \<lparr>kind = EL_MM, ff_digits = 0, el_text = ''MM''\<rparr>, \<lparr>kind = EL_SEP, ff_digits = 0, el_text = ''/''\<rparr>,
     \<lparr>kind = EL_YYYY, ff_digits = 0, el_text = ''YYYY''\<rparr>]"
    by (simp add: tokenize_eval)
  let ?dt = "dt_zero\<lparr>year := 1500, year_set := True, month := 2, month_set := True, day := 29,
    day_set := True\<rparr>"
  have p: "parse_value ''29/02/1500'' 
    [\<lparr>kind = EL_DD, ff_digits = 0, el_text = ''DD''\<rparr>, \<lparr>kind = EL_SEP, ff_digits = 0, el_text = ''/''\<rparr>,
     \<lparr>kind = EL_MM, ff_digits = 0, el_text = ''MM''\<rparr>, \<lparr>kind = EL_SEP, ff_digits = 0, el_text = ''/''\<rparr>,
     \<lparr>kind = EL_YYYY, ff_digits = 0, el_text = ''YYYY''\<rparr>] 2026 dt_zero = Inr ?dt"
    by (simp add: parse_eval dt_zero_def) (simp add: byte_def)
  have f: "finish ?dt False 2026 11 32 = Inr ''1500-02-29 00:00:00''" by code_simp
  show "date_normalize (Some ''29/02/1500'') (Some ''DD/MM/YYYY'') False True 32 0 2026 11
     = (0, Some ''1500-02-29 00:00:00'', [])"
    by (simp add: date_normalize_def t p f DATE_NORMALIZE_OUT_MAX_def DATE_NORM_OK_def)
qed

subsection \<open>Properties\<close>

text \<open>C26. Canonicalisation is idempotent. Whatever value and mask produced a canonical date,
  normalising it again under the default mask succeeds and returns it unchanged, on any later
  day: nothing of the output depends on the current date or on the defaulting rules.\<close>

theorem date_normalize_idempotent:
  assumes "date_normalize val fmt ts given n r cy cm = (0, Some s, why)"
  shows "date_normalize (Some s) None ts True 32 r' cy' cm' = (0, Some s, [])"
  using date_normalize_Some [OF assms] date_normalize_canonical by auto

lemma date_normalize_idempotent_witness:
  "date_normalize (Some ''29/02/1500'') (Some ''DD/MM/YYYY'') False True 32 0 2026 11
     = (0, Some ''1500-02-29 00:00:00'', []) \<and>
   date_normalize (Some ''1500-02-29 00:00:00'') None False True 32 9 2027 1
     = (0, Some ''1500-02-29 00:00:00'', [])"
  using sample_1500 date_normalize_idempotent [OF sample_1500] by blast



lemma next_element_code: "next_element p = Inl (rc, r) \<Longrightarrow> rc = DATE_NORM_BAD_MASK"
  by (auto simp: next_element_def split: option.splits if_splits)

lemma tokenize_loop_code: "tokenize_loop ts p els seen = Inl (rc, r) \<Longrightarrow> rc = DATE_NORM_BAD_MASK"
proof (induction ts p els seen rule: tokenize_loop.induct)
  case (1 ts p els seen)
  note step = "1.prems" [unfolded tokenize_loop.simps [of ts p]]
  show ?case
  proof (cases p)
    case Nil
    with step show ?thesis by simp
  next
    case (Cons c rest)
    note IH = "1.IH" [OF Cons]
    show ?thesis
    proof (cases "length els \<ge> MAX_ELEMENTS")
      case True
      with step Cons show ?thesis by simp
    next
      case short: False
      consider "c = CHR 34" | "c \<noteq> CHR 34" "\<not> c_isalnum c" | "c \<noteq> CHR 34" "c_isalnum c" by blast
      then show ?thesis
      proof cases
        case 1
        with step Cons short IH(1) show ?thesis by (simp split: option.splits)
      next
        case 2
        with step Cons short IH(2) show ?thesis by simp
      next
        case 3
        show ?thesis
        proof (cases "next_element p")
          case (Inl e)
          with step Cons short 3 next_element_code show ?thesis by (cases e) simp
        next
          case (Inr r)
          with step Cons short 3 IH(3) show ?thesis
            by (cases r) (simp add: Let_def split: if_splits)
        qed
      qed
    qed
  qed
qed

lemma tokenize_mask_code: "tokenize_mask m ts = Inl (rc, r) \<Longrightarrow> rc = DATE_NORM_BAD_MASK"
  by (auto simp: tokenize_mask_def Let_def dest: tokenize_loop_code split: sum.splits if_splits)

lemma parse_element_code: "parse_element el cy dt v = Inl (rc, r) \<Longrightarrow> rc = DATE_NORM_BAD_VALUE"
  by (cases "kind el")
     (auto simp: parse_element_def read_number_def NON_NUMERIC_def BAD_MONTH_def Let_def
       split: if_splits prod.splits)

lemma parse_elements_code: "parse_elements els cy dt v = Inl (rc, r) \<Longrightarrow> rc = DATE_NORM_BAD_VALUE"
  by (induction els cy dt v rule: parse_elements.induct)
     (auto split: if_splits sum.splits dest: parse_element_code)

lemma parse_value_code: "parse_value v els cy dt = Inl (rc, r) \<Longrightarrow> rc = DATE_NORM_BAD_VALUE"
  by (auto simp: parse_value_def split: sum.splits prod.splits if_splits dest: parse_elements_code)

lemma finish_code:
  assumes "finish dt0 ts cy cm DATE_NORMALIZE_OUT_MAX = Inl (rc, r)" "parsed_ok dt0"
  shows "rc = DATE_NORM_BAD_VALUE"
proof (rule ccontr)
  assume "rc \<noteq> DATE_NORM_BAD_VALUE"
  let ?s = "canonical_text ts (projr (check_hour (skip_1582_gap (with_defaults cy cm dt0))))"
  from assms(1) \<open>rc \<noteq> _\<close> have s: "finish dt0 ts cy cm (Suc (length ?s)) = Inr ?s" "32 \<le> length ?s"
    by (auto simp: finish_def Let_def DATE_NORMALIZE_OUT_MAX_def split: if_splits sum.splits)
  from finish_valid [OF s(1)] assms(2) obtain dt where "valid_parts dt" "?s = canonical_text ts dt"
    by (auto simp: parsed_ok_def)
  with length_canonical_text [of dt ts] s(2) show False by (simp split: if_splits)
qed

text \<open>Failures are classified. With a buffer of at least 32 bytes the code is never
  BAD_ARG; the output is written exactly on success; and a mask is rejected (BAD_MASK) whatever the
  value or the current date, so that the caller may blame the mask alone.\<close>

theorem date_normalize_errors:
  assumes "DATE_NORMALIZE_OUT_MAX \<le> n"
    and "date_normalize (Some v) fmt ts True n r cy cm = (rc, written, why)"
    and "date_normalize (Some v') fmt ts True n r cy' cm' = (rc', written', why')"
  shows "rc \<in> {DATE_NORM_OK, DATE_NORM_BAD_VALUE, DATE_NORM_BAD_MASK} \<and>
    (rc = DATE_NORM_OK \<longleftrightarrow> written \<noteq> None) \<and>
    (rc = DATE_NORM_BAD_MASK \<longleftrightarrow> rc' = DATE_NORM_BAD_MASK) \<and>
    (rc = DATE_NORM_BAD_MASK \<longrightarrow> why = why')"
proof -
  define m where "m = (case fmt of Some (c # cs) \<Rightarrow> c # cs
      | _ \<Rightarrow> if ts then DATE_CANONICAL_MASK_TS else DATE_CANONICAL_MASK)"
  define run where "run v cy cm = (case tokenize_mask m ts of
      Inl (rc, x) \<Rightarrow> (rc, None, set_reason r x)
    | Inr els \<Rightarrow>
        (case parse_value v els cy dt_zero of
           Inl (rc, x) \<Rightarrow> (rc, None, set_reason r x)
         | Inr dt \<Rightarrow>
             (case finish dt ts cy cm DATE_NORMALIZE_OUT_MAX of
                Inl (rc, x) \<Rightarrow> (rc, None, set_reason r x)
              | Inr tmp \<Rightarrow> (DATE_NORM_OK, Some (c_snprintf n tmp), []))))" for v cy cm
  have run: "date_normalize (Some v) fmt ts True n r cy cm = run v cy cm" for v cy cm
    using assms(1) by (simp add: date_normalize_def m_def [symmetric] run_def Let_def)
  note codes = DATE_NORM_OK_def DATE_NORM_BAD_VALUE_def DATE_NORM_BAD_MASK_def
  show ?thesis
  proof (cases "tokenize_mask m ts")
    case (Inl e)
    with assms(2,3) show ?thesis by (cases e) (auto simp: run run_def codes dest: tokenize_mask_code)
  next
    case (Inr els)
    have "fst (run v cy cm) \<in> {DATE_NORM_OK, DATE_NORM_BAD_VALUE} \<and>
        (fst (run v cy cm) = DATE_NORM_OK \<longleftrightarrow> fst (snd (run v cy cm)) \<noteq> None)" for v cy cm
      using Inr by (auto simp: run_def codes split: sum.splits prod.splits
          dest!: finish_code parse_value_code parse_value_ok)
    from this [of v cy cm] this [of v' cy' cm'] assms(2,3) show ?thesis
      by (auto simp: run codes)
  qed
qed

lemma date_normalize_errors_witness:
  "(0::int) \<in> {DATE_NORM_OK, DATE_NORM_BAD_VALUE, DATE_NORM_BAD_MASK} \<and>
   ((0::int) = DATE_NORM_OK \<longleftrightarrow> Some ''1500-02-29 00:00:00'' \<noteq> None)"
  using date_normalize_errors [OF _ sample_1500 sample_1500]
  by (simp add: DATE_NORMALIZE_OUT_MAX_def)

end
