(* ===== verification/Db_Type_Class.thy ===== *)
theory Db_Type_Class
  imports C_Prelude
begin

text \<open>
  \<^verbatim>\<open>src/execute/db_type_class.c\<close>: a column's type name, as the drivers' metadata reports it,
  to a vendor-neutral class, to the kind of LOB the core writes after the statement, and to
  whether a text LOB is bound in the statement itself. NULL is \<open>None\<close>.
\<close>

datatype db_type_class_t =
    DB_TYPE_CLASS_OTHER | DB_TYPE_CLASS_STRING | DB_TYPE_CLASS_NUMERIC | DB_TYPE_CLASS_DATE
  | DB_TYPE_CLASS_TIMESTAMP | DB_TYPE_CLASS_LOB | DB_TYPE_CLASS_INTERVAL_YM
  | DB_TYPE_CLASS_INTERVAL_DS | DB_TYPE_CLASS_BINARY | DB_TYPE_CLASS_ROWID

datatype db_lob_kind_t = DB_LOB_NONE | DB_LOB_BINARY | DB_LOB_TEXT

definition TYPE_MAP :: "(cstring \<times> db_type_class_t) list" where
  "TYPE_MAP =
     [(''VARCHAR2'', DB_TYPE_CLASS_STRING), (''NVARCHAR2'', DB_TYPE_CLASS_STRING),
      (''VARCHAR'', DB_TYPE_CLASS_STRING), (''CHAR'', DB_TYPE_CLASS_STRING),
      (''NCHAR'', DB_TYPE_CLASS_STRING),
      (''ROWID'', DB_TYPE_CLASS_ROWID), (''UROWID'', DB_TYPE_CLASS_ROWID),
      (''NUMBER'', DB_TYPE_CLASS_NUMERIC), (''FLOAT'', DB_TYPE_CLASS_NUMERIC),
      (''BINARY_FLOAT'', DB_TYPE_CLASS_NUMERIC), (''BINARY_DOUBLE'', DB_TYPE_CLASS_NUMERIC),
      (''INTEGER'', DB_TYPE_CLASS_NUMERIC), (''INT'', DB_TYPE_CLASS_NUMERIC),
      (''SMALLINT'', DB_TYPE_CLASS_NUMERIC), (''DECIMAL'', DB_TYPE_CLASS_NUMERIC),
      (''NUMERIC'', DB_TYPE_CLASS_NUMERIC), (''REAL'', DB_TYPE_CLASS_NUMERIC),
      (''DOUBLE'', DB_TYPE_CLASS_NUMERIC),
      (''DATE'', DB_TYPE_CLASS_DATE), (''TIMESTAMP'', DB_TYPE_CLASS_TIMESTAMP),
      (''RAW'', DB_TYPE_CLASS_BINARY),
      (''BLOB'', DB_TYPE_CLASS_LOB), (''CLOB'', DB_TYPE_CLASS_LOB), (''NCLOB'', DB_TYPE_CLASS_LOB),
      (''BFILE'', DB_TYPE_CLASS_LOB),
      (''NVARCHAR'', DB_TYPE_CLASS_STRING), (''UNIQUEIDENTIFIER'', DB_TYPE_CLASS_STRING),
      (''TIME'', DB_TYPE_CLASS_STRING),
      (''BIGINT'', DB_TYPE_CLASS_NUMERIC), (''TINYINT'', DB_TYPE_CLASS_NUMERIC),
      (''BIT'', DB_TYPE_CLASS_NUMERIC), (''MONEY'', DB_TYPE_CLASS_NUMERIC),
      (''SMALLMONEY'', DB_TYPE_CLASS_NUMERIC),
      (''SMALLDATETIME'', DB_TYPE_CLASS_DATE), (''DATETIME'', DB_TYPE_CLASS_TIMESTAMP),
      (''DATETIME2'', DB_TYPE_CLASS_TIMESTAMP), (''DATETIMEOFFSET'', DB_TYPE_CLASS_TIMESTAMP),
      (''BINARY'', DB_TYPE_CLASS_BINARY), (''VARBINARY'', DB_TYPE_CLASS_BINARY),
      (''TEXT'', DB_TYPE_CLASS_LOB), (''NTEXT'', DB_TYPE_CLASS_LOB), (''IMAGE'', DB_TYPE_CLASS_LOB),
      (''XML'', DB_TYPE_CLASS_LOB)]"

definition is_base_char :: "char \<Rightarrow> bool" where
  "is_base_char c \<longleftrightarrow> c \<noteq> CHR ''('' \<and> \<not> c_isspace c"

definition base_name_len :: "cstring \<Rightarrow> nat" where
  "base_name_len s = length (takeWhile is_base_char s)"

fun contains_ci :: "cstring \<Rightarrow> cstring \<Rightarrow> bool" where
  "contains_ci [] word = False"
| "contains_ci (c # s) word = (ci_prefix word (c # s) \<or> contains_ci s word)"

definition base_is :: "cstring \<Rightarrow> nat \<Rightarrow> cstring \<Rightarrow> bool" where
  "base_is s n name \<longleftrightarrow> length name = n \<and> ci_prefix name s"

definition skip_spaces :: "cstring \<Rightarrow> cstring" where
  "skip_spaces s = dropWhile c_isspace s"

definition has_max_suffix :: "cstring \<Rightarrow> bool" where
  "has_max_suffix after_base =
     (case skip_spaces after_base of
        [] \<Rightarrow> False
      | c # p \<Rightarrow>
          if c \<noteq> CHR ''('' then False
          else let p = skip_spaces p in
            if \<not> ci_prefix ''MAX'' p then False
            else (case skip_spaces (drop 3 p) of [] \<Rightarrow> False | d # _ \<Rightarrow> d = CHR '')''))"

fun type_map_lookup :: "cstring \<Rightarrow> nat \<Rightarrow> (cstring \<times> db_type_class_t) list \<Rightarrow> db_type_class_t" where
  "type_map_lookup s n [] = DB_TYPE_CLASS_OTHER"
| "type_map_lookup s n ((name, cls) # m) = (if base_is s n name then cls else type_map_lookup s n m)"

definition db_type_class :: "cstring option \<Rightarrow> db_type_class_t" where
  "db_type_class type_name =
     (case type_name of
        None \<Rightarrow> DB_TYPE_CLASS_OTHER
      | Some t \<Rightarrow>
          let s = skip_spaces t; n = base_name_len s; q = drop n s in
          if n = 0 then DB_TYPE_CLASS_OTHER
          else if has_max_suffix q then DB_TYPE_CLASS_LOB
          else if base_is s n ''INTERVAL'' then
            (if contains_ci q ''MONTH'' then DB_TYPE_CLASS_INTERVAL_YM
             else if contains_ci q ''SECOND'' then DB_TYPE_CLASS_INTERVAL_DS
             else DB_TYPE_CLASS_OTHER)
          else type_map_lookup s n TYPE_MAP)"

fun db_type_class_name :: "db_type_class_t \<Rightarrow> cstring" where
  "db_type_class_name DB_TYPE_CLASS_STRING = ''STRING''"
| "db_type_class_name DB_TYPE_CLASS_NUMERIC = ''NUMERIC''"
| "db_type_class_name DB_TYPE_CLASS_DATE = ''DATE''"
| "db_type_class_name DB_TYPE_CLASS_TIMESTAMP = ''TIMESTAMP''"
| "db_type_class_name DB_TYPE_CLASS_LOB = ''LOB''"
| "db_type_class_name DB_TYPE_CLASS_INTERVAL_YM = ''INTERVAL_YM''"
| "db_type_class_name DB_TYPE_CLASS_INTERVAL_DS = ''INTERVAL_DS''"
| "db_type_class_name DB_TYPE_CLASS_BINARY = ''BINARY''"
| "db_type_class_name DB_TYPE_CLASS_ROWID = ''ROWID''"
| "db_type_class_name DB_TYPE_CLASS_OTHER = ''OTHER''"

definition db_type_lob_kind :: "cstring option \<Rightarrow> db_lob_kind_t" where
  "db_type_lob_kind type_name =
     (case type_name of
        None \<Rightarrow> DB_LOB_NONE
      | Some t \<Rightarrow>
          let s = skip_spaces t; n = base_name_len s in
          if n = 0 then DB_LOB_NONE
          else if base_is s n ''BLOB'' then DB_LOB_BINARY
          else if base_is s n ''CLOB'' then DB_LOB_TEXT
          else if base_is s n ''NCLOB'' then DB_LOB_TEXT
          else if has_max_suffix (drop n s) \<and> base_is s n ''VARBINARY'' then DB_LOB_BINARY
          else if base_is s n ''IMAGE'' then DB_LOB_BINARY
          else DB_LOB_NONE)"

definition db_type_text_bound :: "cstring option \<Rightarrow> bool" where
  "db_type_text_bound type_name =
     (case type_name of
        None \<Rightarrow> False
      | Some t \<Rightarrow>
          let s = skip_spaces t; n = base_name_len s in
          if n = 0 then False
          else if has_max_suffix (drop n s) then base_is s n ''VARCHAR'' \<or> base_is s n ''NVARCHAR''
          else base_is s n ''TEXT'' \<or> base_is s n ''NTEXT'' \<or> base_is s n ''XML'')"

subsection \<open>The type word\<close>

text \<open>The type word, in lower case, and the qualifier after it determine every answer.\<close>

definition type_word :: "cstring \<Rightarrow> cstring" where
  "type_word t = map c_tolower (takeWhile is_base_char (skip_spaces t))"

definition type_rest :: "cstring \<Rightarrow> cstring" where
  "type_rest t = dropWhile is_base_char (skip_spaces t)"

lemma base_is_word [simp]:
  "base_is (skip_spaces t) (base_name_len (skip_spaces t)) w \<longleftrightarrow> type_word t = map c_tolower w"
proof -
  define s where "s = skip_spaces t"
  have n: "take (base_name_len s) s = takeWhile is_base_char s" "base_name_len s \<le> length s"
    by (simp_all add: base_name_len_def takeWhile_eq_take [symmetric] length_takeWhile_le)
  have len: "length (type_word t) = base_name_len s"
    by (simp add: type_word_def s_def base_name_len_def)
  have "type_word t = map c_tolower (take (base_name_len s) s)"
    by (simp only: n(1)) (simp add: type_word_def s_def)
  moreover have "length w = base_name_len s" if "type_word t = map c_tolower w"
    using len that by simp
  ultimately have "base_is s (base_name_len s) w \<longleftrightarrow> type_word t = map c_tolower w"
    using n(2) unfolding base_is_def ci_prefix_def by metis
  then show ?thesis by (simp only: s_def)
qed

lemma drop_base [simp]: "drop (base_name_len (skip_spaces t)) (skip_spaces t) = type_rest t"
  by (simp add: base_name_len_def type_rest_def dropWhile_eq_drop)

lemma base_len_0 [simp]: "base_name_len (skip_spaces t) = 0 \<longleftrightarrow> type_word t = []"
  by (simp add: base_name_len_def type_word_def)

fun word_lookup :: "cstring \<Rightarrow> (cstring \<times> db_type_class_t) list \<Rightarrow> db_type_class_t" where
  "word_lookup w [] = DB_TYPE_CLASS_OTHER"
| "word_lookup w ((name, cls) # m) = (if w = map c_tolower name then cls else word_lookup w m)"

lemma type_map_word [simp]:
  "type_map_lookup (skip_spaces t) (base_name_len (skip_spaces t)) m = word_lookup (type_word t) m"
  by (induction m) auto

lemma lob_kind_word: "db_type_lob_kind (Some t) =
   (if type_word t \<in> {''blob'', ''image''} \<or>
       type_word t = ''varbinary'' \<and> has_max_suffix (type_rest t) then DB_LOB_BINARY
    else if type_word t \<in> {''clob'', ''nclob''} then DB_LOB_TEXT else DB_LOB_NONE)"
  by (auto simp: db_type_lob_kind_def Let_def)

lemma text_bound_word: "db_type_text_bound (Some t) \<longleftrightarrow>
   (if has_max_suffix (type_rest t) then type_word t \<in> {''varchar'', ''nvarchar''}
    else type_word t \<in> {''text'', ''ntext'', ''xml''})"
  by (auto simp: db_type_text_bound_def Let_def)

lemma type_class_word: "db_type_class (Some t) =
   (if type_word t = [] then DB_TYPE_CLASS_OTHER
    else if has_max_suffix (type_rest t) then DB_TYPE_CLASS_LOB
    else if type_word t = ''interval'' then
      (if contains_ci (type_rest t) ''MONTH'' then DB_TYPE_CLASS_INTERVAL_YM
       else if contains_ci (type_rest t) ''SECOND'' then DB_TYPE_CLASS_INTERVAL_DS
       else DB_TYPE_CLASS_OTHER)
    else word_lookup (type_word t) TYPE_MAP)"
  by (simp add: db_type_class_def Let_def)

subsection \<open>Properties of the type classes\<close>

text \<open>The three questions asked of a type name agree: a column written as a LOB after the
  statement, or bound in it as a text LOB, is of class LOB, and no column is both.\<close>

theorem lob_questions_agree:
  "\<not> (db_type_lob_kind t \<noteq> DB_LOB_NONE \<and> db_type_text_bound t) \<and>
   ((db_type_lob_kind t = DB_LOB_NONE \<and> \<not> db_type_text_bound t) \<or> db_type_class t = DB_TYPE_CLASS_LOB)"
proof (cases t)
  case None
  then show ?thesis by (simp add: db_type_lob_kind_def db_type_text_bound_def)
next
  case (Some n)
  show ?thesis
    by (simp add: Some lob_kind_word text_bound_word type_class_word TYPE_MAP_def)
qed

end
