(* ===== verification/Sql_Dialect.thy ===== *)
theory Sql_Dialect
  imports Db_Type_Class
begin

text \<open>
  The \<open>db_dialect_t\<close> interface of \<^verbatim>\<open>src/include/db_driver.h\<close>: every vendor-specific SQL
  fragment the core asks the driver for. A hook that writes into a caller's buffer takes the
  buffer's size (0 stands for a NULL buffer) and returns \<open>Some\<close> of the text, or \<open>None\<close>
  where the code returns -1. The locale \<open>dialect\<close> states the contract the statement
  builders rely on; both drivers' dialects are interpretations of it.
\<close>

datatype db_dml_kind_t = DB_DML_INSERT | DB_DML_UPDATE

record db_row_locator_ctx =
  loc_table :: cstring
  loc_owner :: cstring
  key_columns :: "cstring option list option"
  key_count :: int

record db_dialect =
  bind_placeholder :: "int \<Rightarrow> nat \<Rightarrow> cstring option"
  value_expr :: "cstring option \<Rightarrow> cstring option \<Rightarrow> nat \<Rightarrow> cstring option"
  lob_placeholder :: "cstring option \<Rightarrow> cstring option"
  row_locator_clauses ::
    "db_dml_kind_t \<Rightarrow> db_row_locator_ctx option \<Rightarrow> int \<Rightarrow> nat \<Rightarrow> nat \<Rightarrow> (cstring \<times> cstring) option"
  row_limit_sql :: "cstring option \<Rightarrow> int \<Rightarrow> nat \<Rightarrow> cstring option"
  count_rows_sql :: "cstring option \<Rightarrow> nat \<Rightarrow> cstring option"
  now_expr :: cstring
  add_seconds_expr :: "cstring option \<Rightarrow> cstring option \<Rightarrow> nat \<Rightarrow> cstring option"
  procedure_call_sql :: "cstring option \<Rightarrow> cstring option list option \<Rightarrow> int \<Rightarrow> nat \<Rightarrow> cstring option"

text \<open>
  \<^verbatim>\<open>oracle_fmt\<close> and \<^verbatim>\<open>ms_fmt\<close>: \<^verbatim>\<open>vsnprintf\<close> into the buffer, -1 when the text and its NUL
  do not fit. The text is the format already expanded; a text of more than
  \<^verbatim>\<open>INT_MAX\<close> bytes, for which \<^verbatim>\<open>vsnprintf\<close> fails, is refused by the same test.
\<close>

definition fmt_out :: "nat \<Rightarrow> cstring \<Rightarrow> cstring option" where
  "fmt_out out_max text =
     (if out_max = 0 then None else if length text \<ge> out_max then None else Some text)"

lemma fmt_out_Some [simp]: "fmt_out n t = Some s \<longleftrightarrow> s = t \<and> length t < n"
  by (auto simp: fmt_out_def)

lemma fmt_out_None [simp]: "fmt_out n t = None \<longleftrightarrow> n \<le> length t"
  by (auto simp: fmt_out_def)

text \<open>
  The incremental writer of both \<^verbatim>\<open>procedure_call_sql\<close> hooks: \<^verbatim>\<open>snprintf(out + used,
  out_max - used, ...)\<close> with the test after each piece.
\<close>

definition append_out :: "nat \<Rightarrow> cstring \<Rightarrow> cstring \<Rightarrow> cstring option" where
  "append_out out_max used piece =
     (if length piece \<ge> out_max - length used then None else Some (used @ piece))"

fun append_all :: "nat \<Rightarrow> cstring \<Rightarrow> cstring list \<Rightarrow> cstring option" where
  "append_all out_max used [] = Some used"
| "append_all out_max used (p # ps) =
     (case append_out out_max used p of None \<Rightarrow> None | Some u \<Rightarrow> append_all out_max u ps)"

lemma append_out_fmt:
  "length u < n \<Longrightarrow> append_out n u p = fmt_out n (u @ p)"
  by (auto simp: append_out_def fmt_out_def)

text \<open>Checking piece by piece decides exactly whether the whole text fits.\<close>

lemma append_all_fmt:
  "length u < n \<Longrightarrow> append_all n u ps = fmt_out n (u @ concat ps)"
proof (induction ps arbitrary: u)
  case Nil
  then show ?case by (simp add: fmt_out_def)
next
  case (Cons p ps)
  show ?case
  proof (cases "length (u @ p) < n")
    case True
    then show ?thesis using Cons.IH [of "u @ p"] Cons.prems by (simp add: append_out_fmt fmt_out_def)
  next
    case False
    then show ?thesis using Cons.prems by (simp add: append_out_fmt fmt_out_def)
  qed
qed

lemma fmt_append_all: "append_all n [] ps = fmt_out n (concat ps)" if "0 < n"
  using that append_all_fmt [of "[]" n ps] by simp

text \<open>Lists of SQL fragments with a separator.\<close>

fun sep_by :: "cstring \<Rightarrow> cstring list \<Rightarrow> cstring" where
  "sep_by sep [] = []"
| "sep_by sep [x] = x"
| "sep_by sep (x # y # xs) = x @ sep @ sep_by sep (y # xs)"

lemma sep_by_snoc: "sep_by sep (xs @ [x]) = (if xs = [] then x else sep_by sep xs @ sep @ x)"
  by (induction sep xs rule: sep_by.induct) auto

lemma length_sep_by:
  "(\<And>x. x \<in> set xs \<Longrightarrow> length x \<le> k) \<Longrightarrow> length (sep_by sep xs) \<le> length xs * (k + length sep)"
proof (induction sep xs rule: sep_by.induct)
  case (2 sep x)
  then show ?case by (simp add: trans_le_add1)
next
  case (3 sep x y xs)
  from "3.IH" "3.prems" have "length (sep_by sep (y # xs)) \<le> length (y # xs) * (k + length sep)" by simp
  moreover have "length x \<le> k" using "3.prems" by simp
  ultimately show ?case by simp
qed simp

lemma length_sep_by_strict:
  assumes "\<And>x. x \<in> set xs \<Longrightarrow> length x \<le> k" "length xs \<le> m" "m * (k + length sep) < n"
  shows "length (sep_by sep xs) < n"
proof -
  have "length xs * (k + length sep) \<le> m * (k + length sep)" using assms(2) by simp
  with length_sep_by [OF assms(1), of xs sep] assms(3) show ?thesis by linarith
qed

subsection \<open>The contract\<close>

text \<open>
  The sizes are those of the builders' stack buffers: a placeholder in 32 bytes, a value
  expression in 256, each locator clause in 512. \<open>reported\<close> holds of the type names the
  driver's own metadata reports; on those the dialect's LOB literals agree with
  \<open>db_type_lob_kind\<close>, as the comments in both files require.
\<close>

locale dialect =
  fixes dl :: db_dialect
    and reported :: "cstring \<Rightarrow> bool"
  assumes placeholder:
      "1 \<le> pos \<Longrightarrow> pos < 2 ^ 31 \<Longrightarrow> \<exists>s. bind_placeholder dl pos 32 = Some s \<and> length s \<le> 11"
    and conversion:
      "length e \<le> 11 \<Longrightarrow>
        \<exists>a b. value_expr dl (Some d) (Some e) 256 = Some (a @ e @ b) \<and> length (a @ b) \<le> 48"
    and literal: "lob_placeholder dl (Some d) = Some s \<Longrightarrow> length s \<le> 12"
    and lob_agrees:
      "reported d \<Longrightarrow> lob_placeholder dl (Some d) = None \<longleftrightarrow> db_type_lob_kind (Some d) = DB_LOB_NONE"
    and no_type: "reported []"
    and locator:
      "1 \<le> pos \<Longrightarrow> pos < 2 ^ 31 \<Longrightarrow>
       (key_columns loc = None \<and> key_count loc = 0) \<or>
         (\<exists>k. key_columns loc = Some [Some k] \<and> key_count loc = 1 \<and> k \<noteq> [] \<and> length k < 128) \<Longrightarrow>
       row_locator_clauses dl kind (Some loc) pos 512 512 \<noteq> None"
    and limit_embeds:
      "row_limit_sql dl (Some q) k n = Some s \<Longrightarrow> length s < n \<and> (\<exists>a b. s = a @ q @ b)"
    and count_embeds:
      "count_rows_sql dl (Some q) n = Some s \<Longrightarrow> length s < n \<and> (\<exists>a b. s = a @ q @ b)"
    and call_fits:
      "procedure_call_sql dl (Some p) ps c n = Some s \<Longrightarrow> length s < n \<and> (\<exists>a b. s = a @ p @ b)"

end
