(* ===== verification/Mssql_Dialect.thy ===== *)
theory Mssql_Dialect
  imports Sql_Dialect
begin

text \<open>
  \<^verbatim>\<open>src/execute/mssql_dialect.c\<close>: SQL Server's dialect. The scanner \<open>mssql_sql_shape\<close>
  looks at the top level of a user's SQL for ORDER BY, OFFSET and TOP; the hooks use it to
  decide how a query may be wrapped. Counters that the code keeps in \<^verbatim>\<open>int\<close> (bracket depth,
  words seen) are \<open>nat\<close>: they are bounded by the length of the text.
\<close>

subsection \<open>Type names\<close>

definition ms_base_len :: "cstring \<Rightarrow> nat" where
  "ms_base_len s = length (takeWhile is_base_char s)"

definition ms_base_is :: "cstring \<Rightarrow> nat \<Rightarrow> cstring \<Rightarrow> bool" where
  "ms_base_is s n name \<longleftrightarrow> length name = n \<and> ci_prefix name s"

definition ms_has_max :: "cstring \<Rightarrow> bool" where
  "ms_has_max after_base =
     (case skip_spaces after_base of
        [] \<Rightarrow> False
      | c # p \<Rightarrow>
          if c \<noteq> CHR ''('' then False
          else let p = skip_spaces p in
            if \<not> ci_prefix ''MAX'' p then False
            else (case skip_spaces (drop 3 p) of [] \<Rightarrow> False | d # _ \<Rightarrow> d = CHR '')''))"

text \<open>The helpers repeat those of \<^verbatim>\<open>db_type_class.c\<close>.\<close>

lemma ms_type_helpers [simp]:
  "ms_base_len = base_name_len" "ms_base_is = base_is" "ms_has_max = has_max_suffix"
  by (auto simp: fun_eq_iff ms_base_len_def base_name_len_def ms_base_is_def base_is_def
      ms_has_max_def has_max_suffix_def)

subsection \<open>The scanner\<close>

record shape =
  depth :: nat
  after_order :: bool
  seen_order :: bool
  seen_offset :: bool
  offset_pending :: bool
  after_by :: bool
  top_words :: nat
  first_select :: bool
  quantifier :: bool
  starts_top :: bool
  line_comment_at_end :: bool

definition shape_init :: shape where
  "shape_init = \<lparr>depth = 0, after_order = False, seen_order = False, seen_offset = False,
     offset_pending = False, after_by = False, top_words = 0, first_select = False,
     quantifier = False, starts_top = False, line_comment_at_end = False\<rparr>"

definition ms_word_char :: "char \<Rightarrow> bool" where
  "ms_word_char c \<longleftrightarrow> c_isalnum c \<or> c \<in> {CHR ''_'', CHR ''@'', CHR ''#'', CHR ''$''} \<or> byte c \<ge> 128"

text \<open>Block comments nest; \<open>level\<close> is the number still open.\<close>

fun skip_block :: "nat \<Rightarrow> cstring \<Rightarrow> cstring" where
  "skip_block 0 p = p"
| "skip_block (Suc level) [] = []"
| "skip_block (Suc level) [c] = []"
| "skip_block (Suc level) (c # d # p) =
     (if c = CHR ''/'' \<and> d = CHR ''*'' then skip_block (Suc (Suc level)) p
      else if c = CHR ''*'' \<and> d = CHR ''/'' then skip_block level p
      else skip_block (Suc level) (d # p))"

text \<open>After the opening quote: the closing one doubled is an escaped quote.\<close>

fun skip_quoted :: "char \<Rightarrow> cstring \<Rightarrow> cstring" where
  "skip_quoted close [] = []"
| "skip_quoted close [c] = []"
| "skip_quoted close (c # d # p) =
     (if c = close then (if d = close then skip_quoted close p else d # p)
      else skip_quoted close (d # p))"

definition word_is :: "cstring \<Rightarrow> cstring \<Rightarrow> bool" where
  "word_is w name = ms_base_is w (length w) name"

definition word_step :: "cstring \<Rightarrow> shape \<Rightarrow> shape" where
  "word_step w st0 =
     (let st = (if top_words st0 = 0 then st0\<lparr>first_select := word_is w ''SELECT''\<rparr>
                else if top_words st0 = 1 \<and> first_select st0 then
                  (if word_is w ''TOP'' then st0\<lparr>starts_top := True\<rparr>
                   else if word_is w ''ALL'' \<or> word_is w ''DISTINCT'' then st0\<lparr>quantifier := True\<rparr>
                   else st0)
                else if top_words st0 = 2 \<and> quantifier st0 \<and> word_is w ''TOP'' then st0\<lparr>starts_top := True\<rparr>
                else st0);
          by = after_order st \<and> word_is w ''BY''
      in st\<lparr>seen_offset := seen_offset st \<or> (offset_pending st \<and> (word_is w ''ROW'' \<or> word_is w ''ROWS'')),
            offset_pending := offset_pending st \<or> (seen_order st \<and> \<not> after_by st \<and> word_is w ''OFFSET''),
            after_by := by, seen_order := seen_order st \<or> by,
            after_order := word_is w ''ORDER'', top_words := top_words st + 1\<rparr>)"

definition clear_order :: "shape \<Rightarrow> shape" where
  "clear_order st = st\<lparr>after_order := False, after_by := False\<rparr>"

definition starts :: "char \<Rightarrow> cstring \<Rightarrow> bool" where
  "starts c p \<longleftrightarrow> p \<noteq> [] \<and> hd p = c"

lemma starts_simps [simp]: "\<not> starts c []" "starts c (d # p) \<longleftrightarrow> d = c"
  by (auto simp: starts_def)

lemma length_skip_block: "length (skip_block l p) \<le> length p"
  by (induction l p rule: skip_block.induct) auto

lemma length_skip_quoted: "length (skip_quoted q p) \<le> length p"
  by (induction q p rule: skip_quoted.induct) auto

definition closing :: "char \<Rightarrow> char" where
  "closing c = (if c = CHR ''['' then CHR '']'' else c)"

definition is_quote :: "char \<Rightarrow> bool" where
  "is_quote c \<longleftrightarrow> c = CHR 39 \<or> c = CHR 34 \<or> c = CHR ''[''"

definition NL :: char where "NL = CHR 10"

function scan :: "shape \<Rightarrow> cstring \<Rightarrow> shape" where
  "scan st [] = st"
| "scan st (c # p) =
     (if c_isspace c then scan st p
      else if c = CHR ''-'' \<and> starts (CHR ''-'') p then
        (let q = dropWhile (\<lambda>x. x \<noteq> NL) (tl p)
         in if q = [] then st\<lparr>line_comment_at_end := True\<rparr> else scan st q)
      else if c = CHR ''/'' \<and> starts (CHR ''*'') p then scan st (skip_block 1 (tl p))
      else
        let st = st\<lparr>line_comment_at_end := False\<rparr> in
        if is_quote c then scan (clear_order st) (skip_quoted (closing c) p)
        else if c = CHR ''('' then scan (clear_order (st\<lparr>depth := depth st + 1\<rparr>)) p
        else if c = CHR '')'' then scan (clear_order (st\<lparr>depth := depth st - 1\<rparr>)) p
        else if ms_word_char c then
          (let w = c # takeWhile ms_word_char p; q = dropWhile ms_word_char p in
           if w \<in> {''N'', ''n''} \<and> starts (CHR 39) q then scan st q
           else scan (if depth st = 0 then word_step w st else st) q)
        else scan (clear_order st) p)"
  by pat_completeness auto
termination
  by (relation "measure (length \<circ> snd)")
     (auto simp: le_imp_less_Suc length_dropWhile_le length_skip_quoted intro!: le_imp_less_Suc
       le_trans [OF length_skip_block] le_trans [OF length_dropWhile_le])

declare scan.simps(2) [simp del]

text \<open>NULL is \<open>None\<close>: the four flags stay 0 and the result is -1.\<close>

definition mssql_sql_shape :: "cstring option \<Rightarrow> (bool \<times> bool \<times> bool \<times> bool) option" where
  "mssql_sql_shape sql =
     map_option (\<lambda>q. let st = scan shape_init q
        in (seen_order st, seen_offset st, starts_top st, line_comment_at_end st)) sql"

subsection \<open>Hooks\<close>

definition ms_bind_placeholder :: "int \<Rightarrow> nat \<Rightarrow> cstring option" where
  "ms_bind_placeholder pos out_max = (if pos < 1 then None else fmt_out out_max ''?'')"

definition ms_value_expr :: "cstring option \<Rightarrow> cstring option \<Rightarrow> nat \<Rightarrow> cstring option" where
  "ms_value_expr dtype operand out_max =
     (case operand of
        None \<Rightarrow> None
      | Some e \<Rightarrow>
          let d = skip_spaces (case dtype of None \<Rightarrow> [] | Some d \<Rightarrow> d); n = ms_base_len d in
          if ms_base_is d n ''DATETIME2'' \<or> ms_base_is d n ''DATETIME'' \<or> ms_base_is d n ''SMALLDATETIME''
          then fmt_out out_max (''CAST('' @ e @ '' AS datetime2(7))'')
          else if ms_base_is d n ''DATE'' then fmt_out out_max (''CAST('' @ e @ '' AS date)'')
          else if ms_base_is d n ''DATETIMEOFFSET''
          then fmt_out out_max (''CAST('' @ e @ '' AS datetimeoffset(7))'')
          else if ms_base_is d n ''TIME'' then fmt_out out_max (''CAST('' @ e @ '' AS time(7))'')
          else if ms_base_is d n ''VARBINARY'' \<or> ms_base_is d n ''BINARY''
          then fmt_out out_max (''CONVERT(varbinary(max), '' @ e @ '', 2)'')
          else fmt_out out_max e)"

definition ms_lob_placeholder :: "cstring option \<Rightarrow> cstring option" where
  "ms_lob_placeholder dtype =
     (case dtype of
        None \<Rightarrow> None
      | Some t \<Rightarrow>
          let d = skip_spaces t; n = ms_base_len d in
          if ms_has_max (drop n d) \<and> ms_base_is d n ''VARBINARY'' then Some ''0x''
          else if ms_base_is d n ''IMAGE'' then Some ''0x''
          else None)"

text \<open>The identifier is quoted into a buffer of 300 bytes, \<open>]\<close> doubled.\<close>

fun ms_quote_loop :: "cstring \<Rightarrow> cstring \<Rightarrow> cstring option" where
  "ms_quote_loop q [] = Some q"
| "ms_quote_loop q (c # k) =
     (if length q + 3 \<ge> 300 then None
      else ms_quote_loop (q @ (if c = CHR '']'' then [c, c] else [c])) k)"

definition ms_row_locator_clauses ::
    "db_dml_kind_t \<Rightarrow> db_row_locator_ctx option \<Rightarrow> int \<Rightarrow> nat \<Rightarrow> nat \<Rightarrow> (cstring \<times> cstring) option" where
  "ms_row_locator_clauses knd loc pos mid_max tail_max =
     (if mid_max = 0 \<or> tail_max = 0 then None
      else case loc of
        None \<Rightarrow> Some ([], [])
      | Some l \<Rightarrow>
          (if key_count l = 0 then Some ([], [])
           else case key_columns l of
             None \<Rightarrow> Some ([], [])
           | Some ks \<Rightarrow>
               (if key_count l \<noteq> 1 then None
                else case ks of
                  Some (c # k) # _ \<Rightarrow>
                    (case ms_quote_loop ''['' (c # k) of
                       None \<Rightarrow> None
                     | Some q \<Rightarrow>
                         map_option (\<lambda>m. (m, []))
                           (fmt_out mid_max (''OUTPUT inserted.'' @ (q @ '']'') @ '' INTO @dm_k (k)'')))
                | _ \<Rightarrow> None)))"

definition ms_row_limit_sql :: "cstring option \<Rightarrow> int \<Rightarrow> nat \<Rightarrow> cstring option" where
  "ms_row_limit_sql sql max_rows out_max =
     (case sql of
        None \<Rightarrow> None
      | Some q \<Rightarrow>
          if max_rows < 0 then None
          else (case mssql_sql_shape sql of
                  Some (ob, off, tp, elc) \<Rightarrow>
                    if ob \<and> \<not> off \<and> \<not> tp
                    then fmt_out out_max (q @ (if elc then [NL] else '' '') @
                      ''OFFSET 0 ROWS FETCH NEXT '' @ dec_int max_rows @ '' ROWS ONLY'')
                    else fmt_out out_max (''SELECT TOP ('' @ dec_int max_rows @ '') * FROM ('' @ q @
                      (if elc then [NL] else []) @ '') AS dm_t'')
                | None \<Rightarrow> None))"

definition ms_count_rows_sql :: "cstring option \<Rightarrow> nat \<Rightarrow> cstring option" where
  "ms_count_rows_sql sql out_max =
     (case sql of
        None \<Rightarrow> None
      | Some q \<Rightarrow>
          (case mssql_sql_shape sql of
             Some (ob, off, tp, elc) \<Rightarrow>
               let mid = (if ob \<and> \<not> off \<and> \<not> tp
                          then (if elc then NL # ''OFFSET 0 ROWS'' else '' OFFSET 0 ROWS'')
                          else (if elc then [NL] else []))
               in fmt_out out_max (''SELECT COUNT(*) FROM (SELECT 1 AS dm_c FROM ('' @ q @ mid @
                    '') AS dm_a) AS dm_b'')
           | None \<Rightarrow> None))"

definition ms_add_seconds_expr :: "cstring option \<Rightarrow> cstring option \<Rightarrow> nat \<Rightarrow> cstring option" where
  "ms_add_seconds_expr base_expr seconds_expr out_max =
     (case (base_expr, seconds_expr) of
        (Some b, Some s) \<Rightarrow> fmt_out out_max (''DATEADD(second, CAST('' @ s @ '' AS int), '' @ b @ '')'')
      | _ \<Rightarrow> None)"

fun ms_params :: "nat \<Rightarrow> cstring option list \<Rightarrow> cstring list option" where
  "ms_params i [] = Some []"
| "ms_params i (None # ps) = None"
| "ms_params i (Some p # ps) =
     map_option (\<lambda>ts. ((if i > 0 then '', '' else '''') @ ''?'') # ts) (ms_params (i + 1) ps)"

definition ms_procedure_call_sql ::
    "cstring option \<Rightarrow> cstring option list option \<Rightarrow> int \<Rightarrow> nat \<Rightarrow> cstring option" where
  "ms_procedure_call_sql proc_name param_names cnt out_max =
     (case proc_name of
        None \<Rightarrow> None
      | Some p \<Rightarrow>
          if cnt < 0 \<or> (cnt > 0 \<and> param_names = None) \<or> out_max = 0 then None
          else if cnt = 0 then fmt_out out_max (''{CALL '' @ p @ ''}'')
          else (case ms_params 0 (take (nat cnt) (the param_names)) of
                  None \<Rightarrow> None
                | Some ps \<Rightarrow> append_all out_max [] ((''{CALL '' @ p @ ''('') # ps @ ['')}''])))"

definition mssql_dialect :: db_dialect where
  "mssql_dialect = \<lparr>
     bind_placeholder = ms_bind_placeholder,
     value_expr = ms_value_expr,
     lob_placeholder = ms_lob_placeholder,
     row_locator_clauses = ms_row_locator_clauses,
     row_limit_sql = ms_row_limit_sql,
     count_rows_sql = ms_count_rows_sql,
     now_expr = ''SYSDATETIME()'',
     add_seconds_expr = ms_add_seconds_expr,
     procedure_call_sql = ms_procedure_call_sql\<rparr>"

text \<open>SQL Server has no type called BLOB, CLOB or NCLOB.\<close>

definition mssql_reports :: "cstring \<Rightarrow> bool" where
  "mssql_reports t \<longleftrightarrow> type_word t \<notin> {''blob'', ''clob'', ''nclob''}"

subsection \<open>The contract holds\<close>

definition escape_close :: "char \<Rightarrow> cstring \<Rightarrow> cstring" where
  "escape_close q s = concat (map (\<lambda>c. if c = q then [c, c] else [c]) s)"

lemma escape_close_simps [simp]:
  "escape_close q [] = []"
  "escape_close q (c # s) = (if c = q then [c, c] else [c]) @ escape_close q s"
  by (simp_all add: escape_close_def)

lemma ms_quote_loop_Some: "ms_quote_loop q k = Some r \<Longrightarrow> r = q @ escape_close (CHR '']'') k \<and> length r < 300"
  if "length q < 300"
  using that by (induction q k rule: ms_quote_loop.induct) (auto split: if_splits)

lemma ms_quote_loop_fits:
  "length q + 2 * length k < 298 \<Longrightarrow> ms_quote_loop q k = Some (q @ escape_close (CHR '']'') k)"
  by (induction q k rule: ms_quote_loop.induct) auto

lemma length_escape_close: "length (escape_close q s) \<le> 2 * length s"
  by (induction s) auto

lemma skip_quoted_escape:
  "\<not> starts q rest \<Longrightarrow> skip_quoted q (escape_close q s @ q # rest) = rest"
proof (induction s)
  case Nil
  then show ?case by (cases rest) auto
next
  case (Cons c s)
  show ?case
  proof (cases "c = q")
    case True
    with Cons show ?thesis by simp
  next
    case False
    obtain d p where "escape_close q s @ q # rest = d # p" by (cases "escape_close q s @ q # rest") auto
    with False Cons show ?thesis by simp
  qed
qed

lemma ms_value_wraps:
  "\<exists>a b. \<forall>e n. ms_value_expr (Some d) (Some e) n = fmt_out n (a @ e @ b) \<and> length (a @ b) \<le> 48"
proof -
  have "\<exists>a b. \<forall>e n. ms_value_expr (Some d) (Some e) n = fmt_out n (a @ e @ b)
      \<and> (a, b) \<in> {(''CAST('', '' AS datetime2(7))''), (''CAST('', '' AS date)''),
        (''CAST('', '' AS datetimeoffset(7))''), (''CAST('', '' AS time(7))''),
        (''CONVERT(varbinary(max), '', '', 2)''), ([], [])}"
  proof -
    let ?w = "type_word d"
    consider "?w \<in> {''datetime2'', ''datetime'', ''smalldatetime''}" | "?w = ''date''"
      | "?w = ''datetimeoffset''" | "?w = ''time''" | "?w \<in> {''varbinary'', ''binary''}"
      | "?w \<notin> {''datetime2'', ''datetime'', ''smalldatetime'', ''date'', ''datetimeoffset'', ''time'',
          ''varbinary'', ''binary''}" by blast
    then show ?thesis
    proof cases
      case 1 then show ?thesis
        by (intro exI [of _ "''CAST(''"] exI [of _ "'' AS datetime2(7))''"]) (auto simp: ms_value_expr_def)
    next
      case 2 then show ?thesis
        by (intro exI [of _ "''CAST(''"] exI [of _ "'' AS date)''"]) (auto simp: ms_value_expr_def)
    next
      case 3 then show ?thesis
        by (intro exI [of _ "''CAST(''"] exI [of _ "'' AS datetimeoffset(7))''"]) (auto simp: ms_value_expr_def)
    next
      case 4 then show ?thesis
        by (intro exI [of _ "''CAST(''"] exI [of _ "'' AS time(7))''"]) (auto simp: ms_value_expr_def)
    next
      case 5 then show ?thesis
        by (intro exI [of _ "''CONVERT(varbinary(max), ''"] exI [of _ "'', 2)''"]) (auto simp: ms_value_expr_def)
    next
      case 6 then show ?thesis
        by (intro exI [of _ "[]"]) (auto simp: ms_value_expr_def Let_def)
    qed
  qed
  then show ?thesis by (elim exE) (intro exI, auto)
qed

lemma ms_call_text:
  assumes "ms_procedure_call_sql (Some p) ps c n = Some s"
  shows "length s < n \<and> (\<exists>a b. s = a @ p @ b)"
proof (cases "c = 0")
  case True
  with assms have "s = ''{CALL '' @ p @ ''}''" "length s < n"
    by (auto simp: ms_procedure_call_sql_def split: if_splits)
  then show ?thesis by blast
next
  case False
  with assms obtain ts where "0 < n" "append_all n [] ((''{CALL '' @ p @ ''('') # ts @ ['')}'']) = Some s"
    by (auto simp del: append_all.simps simp: ms_procedure_call_sql_def split: if_splits option.splits)
  then have "s = ''{CALL '' @ p @ ''('' @ concat ts @ '')}''" "length s < n"
    by (auto simp: fmt_append_all simp del: append_all.simps)
  then show ?thesis by blast
qed

lemma ms_locator_ok:
  assumes "(key_columns loc = None \<and> key_count loc = 0) \<or>
         (\<exists>k. key_columns loc = Some [Some k] \<and> key_count loc = 1 \<and> k \<noteq> [] \<and> length k < 128)"
  shows "ms_row_locator_clauses knd (Some loc) pos 512 512 \<noteq> None"
  using assms
proof
  assume "key_columns loc = None \<and> key_count loc = 0"
  then show ?thesis by (simp add: ms_row_locator_clauses_def)
next
  assume "\<exists>k. key_columns loc = Some [Some k] \<and> key_count loc = 1 \<and> k \<noteq> [] \<and> length k < 128"
  then obtain c k where k: "key_columns loc = Some [Some (c # k)]" "key_count loc = 1" "length k < 127"
    by (auto simp: neq_Nil_conv)
  then have "length (escape_close (CHR '']'') (c # k)) \<le> 254"
    using length_escape_close [of "CHR '']''" "c # k"] by simp
  with k ms_quote_loop_fits [of "''[''" "c # k"] show ?thesis
    by (simp add: ms_row_locator_clauses_def del: ms_quote_loop.simps escape_close_simps)
qed

interpretation ms: dialect mssql_dialect mssql_reports
proof unfold_locales
  show "\<exists>s. bind_placeholder mssql_dialect pos 32 = Some s \<and> length s \<le> 11" if "1 \<le> pos" for pos
    using that by (simp add: mssql_dialect_def ms_bind_placeholder_def)
  show "\<exists>a b. value_expr mssql_dialect (Some d) (Some e) 256 = Some (a @ e @ b) \<and> length (a @ b) \<le> 48"
    if len: "length e \<le> 11" for d e
  proof -
    obtain a b where ab: "\<And>e n. ms_value_expr (Some d) (Some e) n = fmt_out n (a @ e @ b)"
      "length (a @ b) \<le> 48" using ms_value_wraps [of d] by blast
    then show ?thesis using len
      by (intro exI [of _ a] exI [of _ b]) (simp add: mssql_dialect_def)
  qed
  show "length s \<le> 12" if "lob_placeholder mssql_dialect (Some d) = Some s" for d s
    using that by (auto simp: mssql_dialect_def ms_lob_placeholder_def Let_def split: if_splits)
  show "(lob_placeholder mssql_dialect (Some d) = None) = (db_type_lob_kind (Some d) = DB_LOB_NONE)"
    if "mssql_reports d" for d
    using that by (auto simp: mssql_dialect_def ms_lob_placeholder_def lob_kind_word mssql_reports_def)
  show "mssql_reports []" by (simp add: mssql_reports_def type_word_def skip_spaces_def)
  show "row_locator_clauses mssql_dialect knd (Some loc) pos 512 512 \<noteq> None"
    if "(key_columns loc = None \<and> key_count loc = 0) \<or>
         (\<exists>k. key_columns loc = Some [Some k] \<and> key_count loc = 1 \<and> k \<noteq> [] \<and> length k < 128)"
    for pos loc knd
    using ms_locator_ok [OF that] by (simp add: mssql_dialect_def)
  show "length s < n \<and> (\<exists>a b. s = a @ q @ b)"
    if "row_limit_sql mssql_dialect (Some q) k n = Some s" for q k n s
  proof -
    let ?n = "if line_comment_at_end (scan shape_init q) then [NL] else '' ''"
    let ?m = "if line_comment_at_end (scan shape_init q) then [NL] else []"
    from that have "length s < n \<and> (s = [] @ q @ ?n @ ''OFFSET 0 ROWS FETCH NEXT '' @ dec_int k @ '' ROWS ONLY''
        \<or> s = (''SELECT TOP ('' @ dec_int k @ '') * FROM ('') @ q @ ?m @ '') AS dm_t'')"
      by (simp add: mssql_dialect_def ms_row_limit_sql_def mssql_sql_shape_def Let_def split: if_splits)
    then show ?thesis by blast
  qed
  show "length s < n \<and> (\<exists>a b. s = a @ q @ b)"
    if "count_rows_sql mssql_dialect (Some q) n = Some s" for q n s
  proof -
    from that obtain mid where
      "s = ''SELECT COUNT(*) FROM (SELECT 1 AS dm_c FROM ('' @ q @ mid @ '') AS dm_a) AS dm_b''" "length s < n"
      by (auto simp: mssql_dialect_def ms_count_rows_sql_def mssql_sql_shape_def Let_def)
    then show ?thesis by blast
  qed
  show "length s < n \<and> (\<exists>a b. s = a @ p @ b)"
    if "procedure_call_sql mssql_dialect (Some p) ps c n = Some s" for p ps c n s
    using that ms_call_text by (simp add: mssql_dialect_def)
qed

subsection \<open>Scanning a query and what is appended to it\<close>

text \<open>No quote and no block comment is left open at the end.\<close>

fun quote_closed :: "char \<Rightarrow> cstring \<Rightarrow> bool" where
  "quote_closed close [] = False"
| "quote_closed close [c] = (c = close)"
| "quote_closed close (c # d # p) =
     (if c = close then (if d = close then quote_closed close p else True)
      else quote_closed close (d # p))"

fun block_closed :: "nat \<Rightarrow> cstring \<Rightarrow> bool" where
  "block_closed 0 p = True"
| "block_closed (Suc level) [] = False"
| "block_closed (Suc level) [c] = False"
| "block_closed (Suc level) (c # d # p) =
     (if c = CHR ''/'' \<and> d = CHR ''*'' then block_closed (Suc (Suc level)) p
      else if c = CHR ''*'' \<and> d = CHR ''/'' then block_closed level p
      else block_closed (Suc level) (d # p))"

function closed :: "cstring \<Rightarrow> bool" where
  "closed [] = True"
| "closed (c # p) =
     (if c_isspace c then closed p
      else if c = CHR ''-'' \<and> starts (CHR ''-'') p then closed (dropWhile (\<lambda>x. x \<noteq> NL) (tl p))
      else if c = CHR ''/'' \<and> starts (CHR ''*'') p then
        block_closed 1 (tl p) \<and> closed (skip_block 1 (tl p))
      else if is_quote c then quote_closed (closing c) p \<and> closed (skip_quoted (closing c) p)
      else if c = CHR ''('' \<or> c = CHR '')'' then closed p
      else if ms_word_char c then closed (dropWhile ms_word_char p)
      else closed p)"
  by pat_completeness auto
termination
  by (relation "measure length")
     (auto simp: le_imp_less_Suc length_dropWhile_le length_skip_quoted intro!: le_imp_less_Suc
       le_trans [OF length_skip_block] le_trans [OF length_dropWhile_le])

declare closed.simps(2) [simp del]

definition boundary :: "char \<Rightarrow> bool" where
  "boundary c \<longleftrightarrow> c \<in> {CHR '' '', NL, CHR '')'', CHR ''(''}"

lemma boundary_not [simp]:
  "boundary c \<Longrightarrow> \<not> ms_word_char c" "boundary c \<Longrightarrow> \<not> is_quote c" "boundary c \<Longrightarrow> c \<noteq> CHR ''*''"
  "boundary c \<Longrightarrow> c \<noteq> CHR ''-''" "boundary c \<Longrightarrow> c \<noteq> CHR 39" "boundary c \<Longrightarrow> c \<noteq> closing d \<or> \<not> is_quote d"
  by (auto simp: boundary_def ms_word_char_def is_quote_def closing_def NL_def ctype_defs byte_def)

lemma skip_quoted_append:
  "quote_closed q p \<Longrightarrow> b \<noteq> q \<Longrightarrow> skip_quoted q (p @ b # r) = skip_quoted q p @ b # r"
  by (induction q p rule: skip_quoted.induct) auto

lemma skip_block_append:
  "block_closed l p \<Longrightarrow> skip_block l (p @ r) = skip_block l p @ r"
  by (induction l p rule: skip_block.induct) auto

text \<open>What follows a query does not depend on the pending comment flag.\<close>

definition fresh_start :: "cstring \<Rightarrow> bool" where
  "fresh_start r \<longleftrightarrow> (\<forall>st b. scan (st\<lparr>line_comment_at_end := b\<rparr>) r = scan st r)"

lemma starts_append [simp]:
  "p \<noteq> [] \<Longrightarrow> starts c (p @ r) \<longleftrightarrow> starts c p"
  by (cases p) auto

lemma dropWhile_boundary:
  "\<not> P b \<Longrightarrow> dropWhile P (p @ b # r) = dropWhile P p @ b # r"
  "\<not> P b \<Longrightarrow> takeWhile P (p @ b # r) = takeWhile P p"
  by (induction p) auto

lemma dropWhile_append_some:
  "dropWhile P p \<noteq> [] \<Longrightarrow> dropWhile P (p @ r) = dropWhile P p @ r"
  by (induction p) auto

lemma dropWhile_append_none:
  "dropWhile P p = [] \<Longrightarrow> dropWhile P (p @ r) = dropWhile P r"
  by (induction p) auto

text \<open>One step of the scanner per kind of character.\<close>

lemma scan_space: "c_isspace c \<Longrightarrow> scan st (c # p) = scan st p"
  by (simp add: scan.simps(2))

lemma scan_line:
  "scan st (CHR ''-'' # CHR ''-'' # p) =
     (let q = dropWhile (\<lambda>x. x \<noteq> NL) p
      in if q = [] then st\<lparr>line_comment_at_end := True\<rparr> else scan st q)"
  by (simp add: scan.simps(2))

lemma slash_star [simp]: "\<not> c_isspace (CHR ''/'')"
  by (simp add: ctype_defs byte_def)

lemma scan_block: "scan st (CHR ''/'' # CHR ''*'' # p) = scan st (skip_block 1 p)"
  by (simp add: scan.simps(2))

definition plain :: "char \<Rightarrow> cstring \<Rightarrow> bool" where
  "plain c p \<longleftrightarrow> \<not> c_isspace c \<and> \<not> (c = CHR ''-'' \<and> starts (CHR ''-'') p) \<and>
     \<not> (c = CHR ''/'' \<and> starts (CHR ''*'') p)"

abbreviation solid :: "shape \<Rightarrow> shape" where
  "solid st \<equiv> st\<lparr>line_comment_at_end := False\<rparr>"

lemma scan_quote:
  "plain c p \<Longrightarrow> is_quote c \<Longrightarrow> scan st (c # p) = scan (clear_order (solid st)) (skip_quoted (closing c) p)"
  by (auto simp: scan.simps(2) [of _ c] plain_def)

lemma quote_not [simp]: "is_quote c \<Longrightarrow> c \<noteq> CHR ''(''" "is_quote c \<Longrightarrow> c \<noteq> CHR '')''"
  by (auto simp: is_quote_def)

lemma scan_open: "scan st (CHR ''('' # p) = scan (clear_order ((solid st)\<lparr>depth := depth st + 1\<rparr>)) p"
  by (simp add: scan.simps(2) is_quote_def ctype_defs byte_def)

lemma scan_close: "scan st (CHR '')'' # p) = scan (clear_order ((solid st)\<lparr>depth := depth st - 1\<rparr>)) p"
  by (simp add: scan.simps(2) is_quote_def ctype_defs byte_def)

definition word_char_at :: "char \<Rightarrow> bool" where
  "word_char_at c \<longleftrightarrow> ms_word_char c \<and> \<not> is_quote c \<and> c \<noteq> CHR ''('' \<and> c \<noteq> CHR '')''"

definition word_scan :: "shape \<Rightarrow> cstring \<Rightarrow> cstring \<Rightarrow> shape" where
  "word_scan st w q =
     (if w \<in> {''N'', ''n''} \<and> starts (CHR 39) q then st
      else if depth st = 0 then word_step w st else st)"

lemma scan_word:
  "plain c p \<Longrightarrow> word_char_at c \<Longrightarrow> scan st (c # p) =
     scan (word_scan (solid st) (c # takeWhile ms_word_char p) (dropWhile ms_word_char p))
       (dropWhile ms_word_char p)"
  by (auto simp: scan.simps(2) [of _ c] plain_def word_char_at_def word_scan_def Let_def)

lemma scan_other:
  "plain c p \<Longrightarrow> \<not> ms_word_char c \<Longrightarrow> \<not> is_quote c \<Longrightarrow> c \<noteq> CHR ''('' \<Longrightarrow> c \<noteq> CHR '')'' \<Longrightarrow>
     scan st (c # p) = scan (clear_order (solid st)) p"
  by (auto simp: scan.simps(2) [of _ c] plain_def)

lemma closed_step:
  "c_isspace c \<Longrightarrow> closed (c # p) = closed p"
  "closed (CHR ''-'' # CHR ''-'' # p) = closed (dropWhile (\<lambda>x. x \<noteq> NL) p)"
  "closed (CHR ''/'' # CHR ''*'' # p) = (block_closed 1 p \<and> closed (skip_block 1 p))"
  "plain c p \<Longrightarrow> is_quote c \<Longrightarrow> closed (c # p) = (quote_closed (closing c) p \<and> closed (skip_quoted (closing c) p))"
  "closed (CHR ''('' # p) = closed p"
  "closed (CHR '')'' # p) = closed p"
  "plain c p \<Longrightarrow> word_char_at c \<Longrightarrow> closed (c # p) = closed (dropWhile ms_word_char p)"
  "plain c p \<Longrightarrow> \<not> ms_word_char c \<Longrightarrow> \<not> is_quote c \<Longrightarrow> c \<noteq> CHR ''('' \<Longrightarrow> c \<noteq> CHR '')'' \<Longrightarrow> closed (c # p) = closed p"
  by (auto simp: closed.simps(2) plain_def word_char_at_def is_quote_def ctype_defs byte_def)

lemma scan_kinds:
  obtains "c_isspace c" | r where "c = CHR ''-''" "p = CHR ''-'' # r"
    | r where "c = CHR ''/''" "p = CHR ''*'' # r" | "plain c p" "is_quote c"
    | "c = CHR ''(''" | "c = CHR '')''" | "plain c p" "word_char_at c"
    | "plain c p" "\<not> ms_word_char c" "\<not> is_quote c" "c \<noteq> CHR ''(''" "c \<noteq> CHR '')''"
  unfolding plain_def word_char_at_def by (cases p) auto

lemma scan_append:
  assumes "closed p" "fresh_start (b # r)" "boundary b"
    and "line_comment_at_end (scan st p) \<longrightarrow> b = NL \<or> p = []"
  shows "scan st (p @ b # r) = scan (scan st p) (b # r)"
  using assms
proof (induction p arbitrary: st rule: length_induct)
  case (1 p)
  note prems = 1(2-) and IH = 1(1)
  show ?case
  proof (cases p)
    case Nil
    then show ?thesis by simp
  next
    case (Cons c q)
    note b = boundary_not [OF \<open>boundary b\<close>]
    have lce: "line_comment_at_end (scan st (c # q)) \<Longrightarrow> b = NL" using prems(4) Cons by simp
    have pl: "plain c (q @ b # r)" if "plain c q" using that b by (cases q) (auto simp: plain_def)
    have IH': "scan s (x @ b # r) = scan (scan s x) (b # r)"
      if "length x < length p" "closed x" "line_comment_at_end (scan s x) \<longrightarrow> b = NL \<or> x = []" for x s
      using IH that prems(2,3) by blast
    from scan_kinds [where c = c and p = q] show ?thesis
    proof cases
      case 1
      then show ?thesis using IH' [of q] prems(1) lce Cons by (simp add: scan_space closed_step)
    next
      case (2 x)
      let ?d = "dropWhile (\<lambda>x. x \<noteq> NL) x"
      show ?thesis
      proof (cases "?d = []")
        case True
        with 2 lce have "b = NL" by (simp add: scan_line)
        with 2 True Cons prems(2) show ?thesis
          by (simp add: scan_line dropWhile_append_none fresh_start_def)
      next
        case False
        with 2 IH' [of ?d] prems(1) lce Cons show ?thesis
          by (auto simp: scan_line dropWhile_append_some closed_step length_dropWhile_le le_imp_less_Suc less_SucI
              simp del: dropWhile_eq_Nil_conv)
      qed
    next
      case (3 x)
      with IH' [of "skip_block 1 x"] prems(1) lce Cons length_skip_block [of 1 x] show ?thesis
        by (simp add: scan_block closed_step skip_block_append)
    next
      case 4
      with IH' [of "skip_quoted (closing c) q"] prems(1) lce Cons length_skip_quoted [of "closing c" q] b(6) [of c]
      show ?thesis by (simp add: scan_quote pl closed_step skip_quoted_append)
    next
      case 5
      with IH' [of q] prems(1) lce Cons show ?thesis by (simp add: scan_open closed_step)
    next
      case 6
      with IH' [of q] prems(1) lce Cons show ?thesis by (simp add: scan_close closed_step)
    next
      case 7
      have "starts (CHR 39) (d @ b # r) = starts (CHR 39) d" for d using b by (cases d) auto
      then have "word_scan s w (d @ b # r) = word_scan s w d" for s w d by (simp add: word_scan_def)
      with 7 IH' [of "dropWhile ms_word_char q"] prems(1) lce Cons show ?thesis
        by (simp add: scan_word pl closed_step dropWhile_boundary b length_dropWhile_le le_imp_less_Suc)
    next
      case 8
      with IH' [of q] prems(1) lce Cons show ?thesis by (simp add: scan_other pl closed_step)
    qed
  qed
qed


subsection \<open>Concrete tails\<close>

lemma word_chars [simp]: "c_isalnum c \<Longrightarrow> ms_word_char c" "c_isalnum c \<Longrightarrow> word_char_at c"
  "c_isalnum c \<Longrightarrow> plain c p"
  by (auto simp: ms_word_char_def word_char_at_def plain_def is_quote_def ctype_defs byte_def)

lemma not_word [simp]: "\<not> ms_word_char (CHR '' '')" "\<not> ms_word_char (CHR '')'')" "\<not> ms_word_char (CHR ''('')"
  "\<not> ms_word_char (CHR ''*'')" "\<not> ms_word_char NL" "c_isspace NL" "plain (CHR ''*'') p"
  "word_char_at (CHR ''_'')" "ms_word_char (CHR ''_'')"
  by (auto simp: ms_word_char_def NL_def ctype_defs byte_def plain_def word_char_at_def is_quote_def)

lemma fresh_startI:
  "fresh_start r \<Longrightarrow> c_isspace c \<Longrightarrow> fresh_start (c # r)"
  "c_isalnum c \<Longrightarrow> fresh_start (c # r)"
  "fresh_start (CHR '')'' # r)"
  by (simp_all add: fresh_start_def scan_space scan_word scan_close)

lemma last_dropWhile: "dropWhile P xs \<noteq> [] \<Longrightarrow> last (dropWhile P xs) = last xs"
  by (induction xs) auto

lemma scan_final_comment:
  assumes "r \<noteq> []" "\<And>c. c \<in> set r \<Longrightarrow> c \<notin> {CHR ''-'', CHR ''/'', CHR 39, CHR 34, CHR ''[''}"
    and "\<not> c_isspace (last r)"
  shows "\<not> line_comment_at_end (scan st r)"
  using assms
proof (induction r arbitrary: st rule: length_induct)
  case (1 r)
  note prems = 1(2-)
  have IH: "\<not> line_comment_at_end (scan s x)" if "length x < length r" "x \<noteq> []" "set x \<subseteq> set r"
      "\<not> c_isspace (last x)" for x s
    using 1(1) that prems(2) by blast
  obtain c q where r: "r = c # q" using prems(1) by (cases r) auto
  have nq: "\<not> is_quote c" "c \<noteq> CHR ''-''" "c \<noteq> CHR ''/''" using prems(2) [of c] r by (auto simp: is_quote_def)
  consider "q = []" | "q \<noteq> []" by blast
  then show ?case
  proof cases
    case 1
    with prems(3) r nq show ?thesis
      by (simp add: scan.simps(2) Let_def clear_order_def word_step_def)
  next
    case q: 2
    have l: "last r = last q" using q r by simp
    have IHq: "\<not> line_comment_at_end (scan s q)" for s
      by (rule IH) (use q r l prems(3) in auto)
    show ?thesis
    proof (cases "c_isspace c")
      case True
      then show ?thesis using IHq r by (simp add: scan_space)
    next
      case ns: False
      show ?thesis
      proof (cases "ms_word_char c \<and> c \<noteq> CHR ''('' \<and> c \<noteq> CHR '')''")
        case True
        then have "scan st r = scan (word_scan (solid st) (c # takeWhile ms_word_char q) (dropWhile ms_word_char q))
            (dropWhile ms_word_char q)"
          unfolding r by (intro scan_word) (use ns nq in \<open>auto simp: plain_def word_char_at_def\<close>)
        moreover have "\<not> line_comment_at_end (word_scan (solid st) w d)" for w d
          by (simp add: word_scan_def word_step_def Let_def)
        moreover have "\<not> line_comment_at_end (scan s (dropWhile ms_word_char q))"
          if "dropWhile ms_word_char q \<noteq> []" for s
        proof (rule IH [OF _ that])
          show "length (dropWhile ms_word_char q) < length r"
            using length_dropWhile_le [of ms_word_char q] r by simp
          show "set (dropWhile ms_word_char q) \<subseteq> set r" using r set_dropWhileD by fastforce
          show "\<not> c_isspace (last (dropWhile ms_word_char q))"
            using last_dropWhile [OF that] prems(3) l by simp
        qed
        ultimately show ?thesis by (cases "dropWhile ms_word_char q = []") auto
      next
        case False
        consider "c = CHR ''(''" | "c = CHR '')''" | "\<not> ms_word_char c" "c \<noteq> CHR ''(''" "c \<noteq> CHR '')''"
          using False by blast
        then show ?thesis
        proof cases
          case 1 then show ?thesis using IHq r by (simp add: scan_open)
        next
          case 2 then show ?thesis using IHq r by (simp add: scan_close)
        next
          case 3 then show ?thesis using ns nq IHq r by (simp add: scan_other plain_def)
        qed
      qed
    qed
  qed
qed


lemma closed_plain:
  assumes "\<And>c. c \<in> set r \<Longrightarrow> c \<notin> {CHR ''-'', CHR ''/'', CHR 39, CHR 34, CHR ''[''}"
  shows "closed r"
  using assms
proof (induction r rule: closed.induct)
  case 1
  then show ?case by simp
next
  case (2 c p)
  have nq: "\<not> is_quote c" "c \<noteq> CHR ''-''" "c \<noteq> CHR ''/''" using "2.prems" [of c] by (auto simp: is_quote_def)
  have sub: "\<And>x. x \<in> set (dropWhile ms_word_char p) \<Longrightarrow> x \<in> set p" using set_dropWhileD by fastforce
  with 2 nq show ?case by (simp add: closed.simps(2) [of c])
qed

lemma comment_indep:
  "line_comment_at_end s = line_comment_at_end t \<Longrightarrow>
     line_comment_at_end (scan s p) = line_comment_at_end (scan t p)"
proof (induction p arbitrary: s t rule: length_induct)
  case (1 p)
  have IH: "line_comment_at_end (scan s x) = line_comment_at_end (scan t x)"
    if "length x < length p" "line_comment_at_end s = line_comment_at_end t" for x s t
    using 1(1) that by blast
  note eq = 1(2)
  show ?case
  proof (cases p)
    case Nil
    with eq show ?thesis by simp
  next
    case (Cons c q)
    have co: "line_comment_at_end (clear_order u) = line_comment_at_end u"
      "line_comment_at_end (word_scan u w d) = line_comment_at_end u" for u w d
      by (simp_all add: clear_order_def word_scan_def word_step_def Let_def)
    from scan_kinds [where c = c and p = q] show ?thesis
    proof cases
      case sp: 1 then show ?thesis using IH [of q s t] eq Cons by (simp add: scan_space)
    next
      case (2 x) then show ?thesis using IH [of "dropWhile (\<lambda>x. x \<noteq> NL) x" s t] eq Cons
        by (cases "dropWhile (\<lambda>x. x \<noteq> NL) x = []")
           (simp_all add: scan_line Let_def length_dropWhile_le le_imp_less_Suc less_SucI
             del: dropWhile_eq_Nil_conv)
    next
      case (3 x) then show ?thesis using IH [of "skip_block 1 x" s t] eq Cons length_skip_block [of 1 x]
        by (simp add: scan_block)
    next
      case 4 then show ?thesis using Cons length_skip_quoted [of "closing c" q]
        by (simp add: scan_quote IH co)
    next
      case 5 then show ?thesis using Cons by (simp add: scan_open IH co)
    next
      case 6 then show ?thesis using Cons by (simp add: scan_close IH co)
    next
      case 7 then show ?thesis using Cons
        by (simp add: scan_word IH co length_dropWhile_le le_imp_less_Suc)
    next
      case 8 then show ?thesis using Cons by (simp add: scan_other IH co)
    qed
  qed
qed

subsection \<open>Wrapped queries\<close>

definition clean :: "cstring \<Rightarrow> bool" where
  "clean r \<longleftrightarrow> (\<forall>c \<in> set r. c \<notin> {CHR ''-'', CHR ''/'', CHR 39, CHR 34, CHR ''[''})"

lemma clean_simps [simp]:
  "clean []" "clean (a @ b) \<longleftrightarrow> clean a \<and> clean b"
  "clean (c # a) \<longleftrightarrow> c \<notin> {CHR ''-'', CHR ''/'', CHR 39, CHR 34, CHR ''[''} \<and> clean a"
  by (auto simp: clean_def)

lemma dec_digits_clean: "0 \<le> k \<Longrightarrow> clean (dec_int k)"
  by (auto simp: dec_int_def clean_def ctype_defs byte_def dest!: dec_all_digits)

lemma clean_comment: "clean r \<Longrightarrow> r \<noteq> [] \<Longrightarrow> \<not> c_isspace (last r) \<Longrightarrow> \<not> line_comment_at_end (scan st r)"
  by (rule scan_final_comment) (auto simp: clean_def)

lemma clean_closed: "clean r \<Longrightarrow> closed r"
  by (rule closed_plain) (auto simp: clean_def)

text \<open>A query in brackets: what precedes it is scanned on its own.\<close>

lemma scan_in_brackets:
  assumes "clean h" "h \<noteq> []" "\<not> c_isspace (last h)"
  shows "scan st (h @ '' ('' @ r) =
    scan (clear_order ((solid (scan st h))\<lparr>depth := depth (scan st h) + 1\<rparr>)) r"
proof -
  have "scan st (h @ CHR '' '' # (CHR ''('' # r)) = scan (scan st h) (CHR '' '' # (CHR ''('' # r))"
  proof (rule scan_append)
    show "fresh_start (CHR '' '' # (CHR ''('' # r))"
      by (simp add: fresh_start_def scan_space scan_open)
  qed (use clean_closed assms clean_comment in \<open>auto simp: boundary_def\<close>)
  then show ?thesis by (simp add: scan_space scan_open)
qed

lemma NL_not [simp]: "NL \<noteq> CHR ''-''" "NL \<noteq> CHR ''/''" "NL \<noteq> CHR 39" "NL \<noteq> CHR 34" "NL \<noteq> CHR ''[''"
  by (simp_all add: NL_def)

lemma boundary_chars [simp]: "boundary NL" "boundary (CHR '' '')" "boundary (CHR '')'')"
  unfolding boundary_def by blast+

text \<open>What may follow a query that ends inside a \<^verbatim>\<open>--\<close> comment (\<open>e\<close>) or not.\<close>

definition tail_ok :: "bool \<Rightarrow> cstring \<Rightarrow> bool" where
  "tail_ok e r \<longleftrightarrow> r \<noteq> [] \<and> boundary (hd r) \<and> fresh_start r \<and> (e \<longrightarrow> hd r = NL) \<and>
     clean r \<and> \<not> c_isspace (last r)"

lemma tail_ok_word:
  assumes "clean t" "t \<noteq> []" "\<not> c_isspace (last t)" "c_isalnum (hd t)"
  shows "tail_ok e ((if e then NL else CHR '' '') # t)"
proof -
  have "fresh_start t" using assms(2,4) by (cases t) (simp_all add: fresh_startI(2))
  then have "fresh_start ((if e then NL else CHR '' '') # t)" by (simp add: fresh_startI(1))
  with assms show ?thesis by (simp add: tail_ok_def)
qed

lemma tail_ok_close:
  assumes "clean t" "\<not> c_isspace (last (CHR '')'' # t))"
  shows "tail_ok e ((if e then [NL] else []) @ CHR '')'' # t)"
  using assms fresh_startI(3) [of t] by (simp add: tail_ok_def fresh_startI(1))

lemma scan_tail:
  assumes "closed q" "tail_ok (line_comment_at_end (scan st q)) r"
  shows "scan st (q @ r) = scan (scan st q) r" "\<not> line_comment_at_end (scan st (q @ r))"
proof -
  obtain b t where r: "r = b # t" using assms(2) by (cases r) (auto simp: tail_ok_def)
  show eq: "scan st (q @ r) = scan (scan st q) r"
    unfolding r by (rule scan_append [OF assms(1)]) (use assms(2) r in \<open>auto simp: tail_ok_def\<close>)
  show "\<not> line_comment_at_end (scan st (q @ r))"
    unfolding eq by (rule clean_comment) (use assms(2) in \<open>auto simp: tail_ok_def\<close>)
qed

lemma scan_tail_in_brackets:
  assumes "closed q" "tail_ok (line_comment_at_end (scan shape_init q)) r"
    and "clean h" "h \<noteq> []" "\<not> c_isspace (last h)"
  shows "\<not> line_comment_at_end (scan shape_init (h @ '' ('' @ q @ r))"
proof -
  let ?s1 = "clear_order ((solid (scan shape_init h))\<lparr>depth := depth (scan shape_init h) + 1\<rparr>)"
  have "line_comment_at_end (scan ?s1 q) = line_comment_at_end (scan shape_init q)"
    by (rule comment_indep) (simp add: clear_order_def shape_init_def)
  with assms(1,2) have "\<not> line_comment_at_end (scan ?s1 (q @ r))" by (intro scan_tail) simp_all
  then show ?thesis by (simp only: scan_in_brackets [OF assms(3-5)] not_False_eq_True)
qed

lemma not_space_end [simp]:
  "\<not> c_isspace (CHR ''Y'')" "\<not> c_isspace (CHR ''M'')" "\<not> c_isspace (CHR ''t'')" "\<not> c_isspace (CHR ''b'')"
  "c_isalnum (CHR ''O'')"
  by (simp_all add: ctype_defs byte_def)

end
