(* ===== verification/Oracle_Dialect.thy ===== *)
theory Oracle_Dialect
  imports Sql_Dialect
begin

text \<open>
  The dialect of \<^verbatim>\<open>src/execute/driver_oracle.c\<close> (section DIALECT), and its
  interpretation of the contract. The rest of that file is OCI calls and is not modelled.
\<close>

definition ORACLE_ISO_DATE_MASK :: cstring where
  "ORACLE_ISO_DATE_MASK = ''YYYY-MM-DD HH24:MI:SS''"

definition ORACLE_ISO_TS_MASK :: cstring where
  "ORACLE_ISO_TS_MASK = ''YYYY-MM-DD HH24:MI:SS.FF6''"

definition sq :: cstring where
  "sq = [CHR 39]"

definition oracle_bind_placeholder :: "int \<Rightarrow> nat \<Rightarrow> cstring option" where
  "oracle_bind_placeholder pos out_max =
     (if pos < 1 then None else fmt_out out_max ('':'' @ dec_int pos))"

definition oracle_value_expr :: "cstring option \<Rightarrow> cstring option \<Rightarrow> nat \<Rightarrow> cstring option" where
  "oracle_value_expr dtype operand out_max =
     (case operand of
        None \<Rightarrow> None
      | Some e \<Rightarrow>
          let d = (case dtype of None \<Rightarrow> [] | Some d \<Rightarrow> d) in
          if d = ''DATE'' then
            fmt_out out_max (''TO_DATE('' @ e @ '','' @ sq @ ORACLE_ISO_DATE_MASK @ sq @ '')'')
          else if cs_prefix ''TIMESTAMP'' d then
            fmt_out out_max (''TO_TIMESTAMP('' @ e @ '','' @ sq @ ORACLE_ISO_TS_MASK @ sq @ '')'')
          else if c_strstr d ''INTERVAL'' \<noteq> None \<and> c_strstr d ''MONTH'' \<noteq> None then
            fmt_out out_max (''TO_YMINTERVAL('' @ e @ '')'')
          else if c_strstr d ''INTERVAL'' \<noteq> None \<and> c_strstr d ''SECOND'' \<noteq> None then
            fmt_out out_max (''TO_DSINTERVAL('' @ e @ '')'')
          else fmt_out out_max e)"

definition oracle_lob_placeholder :: "cstring option \<Rightarrow> cstring option" where
  "oracle_lob_placeholder dtype =
     (case dtype of
        None \<Rightarrow> None
      | Some d \<Rightarrow>
          if d = ''BLOB'' then Some ''EMPTY_BLOB()''
          else if d = ''CLOB'' \<or> d = ''NCLOB'' then Some ''EMPTY_CLOB()''
          else None)"

text \<open>A NULL or empty \<^verbatim>\<open>mid\<close> buffer is size 0; the kind is one of the enum's two values.\<close>

definition oracle_row_locator_clauses ::
    "db_dml_kind_t \<Rightarrow> db_row_locator_ctx option \<Rightarrow> int \<Rightarrow> nat \<Rightarrow> nat \<Rightarrow> (cstring \<times> cstring) option" where
  "oracle_row_locator_clauses knd loc pos mid_max tail_max =
     (if pos < 1 \<or> mid_max = 0 then None
      else map_option (\<lambda>t. ([], t))
             (fmt_out tail_max (''RETURNING ROWID INTO :'' @ dec_int pos)))"

definition oracle_row_limit_sql :: "cstring option \<Rightarrow> int \<Rightarrow> nat \<Rightarrow> cstring option" where
  "oracle_row_limit_sql sql max_rows out_max =
     (case sql of
        None \<Rightarrow> None
      | Some q \<Rightarrow>
          if max_rows < 0 then None
          else fmt_out out_max (''SELECT * FROM ('' @ q @ '') WHERE ROWNUM <= '' @ dec_int max_rows))"

definition oracle_count_rows_sql :: "cstring option \<Rightarrow> nat \<Rightarrow> cstring option" where
  "oracle_count_rows_sql sql out_max =
     (case sql of
        None \<Rightarrow> None
      | Some q \<Rightarrow> fmt_out out_max (''SELECT COUNT(*) FROM (SELECT 1 FROM ('' @ q @ ''))''))"

definition oracle_add_seconds_expr ::
    "cstring option \<Rightarrow> cstring option \<Rightarrow> nat \<Rightarrow> cstring option" where
  "oracle_add_seconds_expr base_expr seconds_expr out_max =
     (case (base_expr, seconds_expr) of
        (Some b, Some s) \<Rightarrow>
          fmt_out out_max (b @ '' + NUMTODSINTERVAL('' @ s @ '', '' @ sq @ ''SECOND'' @ sq @ '')'')
      | _ \<Rightarrow> None)"

fun oracle_params :: "nat \<Rightarrow> cstring option list \<Rightarrow> cstring list option" where
  "oracle_params i [] = Some []"
| "oracle_params i (None # ps) = None"
| "oracle_params i (Some p # ps) =
     map_option (\<lambda>ts. ((if i > 0 then '', '' else '''') @ '':'' @ p) # ts) (oracle_params (i + 1) ps)"

text \<open>
  The pieces are written one after the other and the first that does not fit, or the first
  NULL name, ends the call with -1: the same outcome as checking the names first.
\<close>

definition oracle_procedure_call_sql ::
    "cstring option \<Rightarrow> cstring option list option \<Rightarrow> int \<Rightarrow> nat \<Rightarrow> cstring option" where
  "oracle_procedure_call_sql proc_name param_names cnt out_max =
     (case proc_name of
        None \<Rightarrow> None
      | Some p \<Rightarrow>
          if cnt < 0 \<or> (cnt > 0 \<and> param_names = None) then None
          else if cnt = 0 then fmt_out out_max (''BEGIN '' @ p @ ''; END;'')
          else if out_max = 0 then None
          else (case oracle_params 0 (take (nat cnt) (the param_names)) of
                  None \<Rightarrow> None
                | Some ps \<Rightarrow>
                    append_all out_max [] ((''BEGIN '' @ p @ ''('') # ps @ [''); END;''])))"

definition oracle_dialect :: db_dialect where
  "oracle_dialect = \<lparr>
     bind_placeholder = oracle_bind_placeholder,
     value_expr = oracle_value_expr,
     lob_placeholder = oracle_lob_placeholder,
     row_locator_clauses = oracle_row_locator_clauses,
     row_limit_sql = oracle_row_limit_sql,
     count_rows_sql = oracle_count_rows_sql,
     now_expr = ''SYSTIMESTAMP'',
     add_seconds_expr = oracle_add_seconds_expr,
     procedure_call_sql = oracle_procedure_call_sql\<rparr>"

text \<open>
  The type names Oracle's dictionary gives a column: LOB types are spelled BLOB, CLOB and
  NCLOB exactly, in upper case and without a suffix, and SQL Server's binary LOB names do
  not occur.
\<close>

definition oracle_reports :: "cstring \<Rightarrow> bool" where
  "oracle_reports t \<longleftrightarrow>
     (type_word t \<in> {''blob'', ''clob'', ''nclob''} \<longrightarrow> t \<in> {''BLOB'', ''CLOB'', ''NCLOB''}) \<and>
     type_word t \<notin> {''image'', ''varbinary''}"

subsection \<open>The contract holds\<close>

lemma length_dec_int: "0 \<le> i \<Longrightarrow> i < 2 ^ 31 \<Longrightarrow> length (dec_int i) \<le> 10"
  using length_dec_le [of "nat i" 10] by (simp add: dec_int_def)

lemma oracle_value_wraps:
  "\<exists>a b. \<forall>e n. oracle_value_expr (Some d) (Some e) n = fmt_out n (a @ e @ b) \<and> length (a @ b) \<le> 48"
proof -
  consider "d = ''DATE''" | "d \<noteq> ''DATE''" "cs_prefix ''TIMESTAMP'' d"
    | "d \<noteq> ''DATE''" "\<not> cs_prefix ''TIMESTAMP'' d" "c_strstr d ''INTERVAL'' \<noteq> None \<and> c_strstr d ''MONTH'' \<noteq> None"
    | "d \<noteq> ''DATE''" "\<not> cs_prefix ''TIMESTAMP'' d" "\<not> (c_strstr d ''INTERVAL'' \<noteq> None \<and> c_strstr d ''MONTH'' \<noteq> None)"
        "c_strstr d ''INTERVAL'' \<noteq> None \<and> c_strstr d ''SECOND'' \<noteq> None"
    | "d \<noteq> ''DATE''" "\<not> cs_prefix ''TIMESTAMP'' d" "\<not> (c_strstr d ''INTERVAL'' \<noteq> None \<and> c_strstr d ''MONTH'' \<noteq> None)"
        "\<not> (c_strstr d ''INTERVAL'' \<noteq> None \<and> c_strstr d ''SECOND'' \<noteq> None)"
    by blast
  then show ?thesis
  proof cases
    case 1
    show ?thesis
      by (rule exI [of _ "''TO_DATE(''"], rule exI [of _ "'','' @ sq @ ORACLE_ISO_DATE_MASK @ sq @ '')''"])
         (simp add: oracle_value_expr_def 1 sq_def ORACLE_ISO_DATE_MASK_def)
  next
    case 2
    show ?thesis
      by (rule exI [of _ "''TO_TIMESTAMP(''"], rule exI [of _ "'','' @ sq @ ORACLE_ISO_TS_MASK @ sq @ '')''"])
         (simp add: oracle_value_expr_def 2 sq_def ORACLE_ISO_TS_MASK_def)
  next
    case 3
    show ?thesis
      by (rule exI [of _ "''TO_YMINTERVAL(''"], rule exI [of _ "'')''"])
         (use 3 in \<open>simp add: oracle_value_expr_def Let_def\<close>)
  next
    case 4
    show ?thesis
      by (rule exI [of _ "''TO_DSINTERVAL(''"], rule exI [of _ "'')''"])
         (use 4 in \<open>simp add: oracle_value_expr_def Let_def del: not_None_eq\<close>)
  next
    case 5
    show ?thesis
      by (rule exI [of _ "[]"], rule exI [of _ "[]"])
         (use 5 in \<open>auto simp: oracle_value_expr_def Let_def simp del: not_None_eq\<close>)
  qed
qed

lemma oracle_call_text:
  assumes "oracle_procedure_call_sql (Some p) ps c n = Some s"
  shows "length s < n \<and> (\<exists>a b. s = a @ p @ b)"
proof (cases "c = 0")
  case True
  with assms have "s = ''BEGIN '' @ p @ ''; END;''" "length s < n"
    by (auto simp: oracle_procedure_call_sql_def)
  then show ?thesis by blast
next
  case False
  with assms obtain ts where "0 < n"
    "append_all n [] ((''BEGIN '' @ p @ ''('') # ts @ [''); END;'']) = Some s"
    by (auto simp del: append_all.simps simp: oracle_procedure_call_sql_def split: if_splits option.splits)
  then have "s = ''BEGIN '' @ p @ ''('' @ concat ts @ ''); END;''" "length s < n"
    by (auto simp: fmt_append_all simp del: append_all.simps)
  then show ?thesis by blast
qed

lemma oracle_lob_agrees:
  assumes "oracle_reports d"
  shows "oracle_lob_placeholder (Some d) = None \<longleftrightarrow> db_type_lob_kind (Some d) = DB_LOB_NONE"
proof -
  have w: "type_word ''BLOB'' = ''blob''" "type_word ''CLOB'' = ''clob''" "type_word ''NCLOB'' = ''nclob''"
    by code_simp+
  show ?thesis using assms
    by (auto simp: oracle_reports_def oracle_lob_placeholder_def lob_kind_word w)
qed

interpretation ora: dialect oracle_dialect oracle_reports
proof unfold_locales
  show "\<exists>s. bind_placeholder oracle_dialect pos 32 = Some s \<and> length s \<le> 11"
    if "1 \<le> pos" "pos < 2 ^ 31" for pos
    using that length_dec_int [of pos] by (simp add: oracle_dialect_def oracle_bind_placeholder_def)
  show "\<exists>a b. value_expr oracle_dialect (Some d) (Some e) 256 = Some (a @ e @ b) \<and> length (a @ b) \<le> 48"
    if len: "length e \<le> 11" for d e
  proof -
    obtain a b where ab: "\<And>e n. oracle_value_expr (Some d) (Some e) n = fmt_out n (a @ e @ b)"
      "length (a @ b) \<le> 48" using oracle_value_wraps [of d] by blast
    then show ?thesis using len
      by (intro exI [of _ a] exI [of _ b]) (simp add: oracle_dialect_def)
  qed
  show "length s \<le> 12" if "lob_placeholder oracle_dialect (Some d) = Some s" for d s
    using that by (auto simp: oracle_dialect_def oracle_lob_placeholder_def split: if_splits)
  show "(lob_placeholder oracle_dialect (Some d) = None) = (db_type_lob_kind (Some d) = DB_LOB_NONE)"
    if "oracle_reports d" for d
    using oracle_lob_agrees [OF that] by (simp add: oracle_dialect_def)
  show "oracle_reports []" by (simp add: oracle_reports_def type_word_def skip_spaces_def)
  show "row_locator_clauses oracle_dialect knd (Some loc) pos 512 512 \<noteq> None"
    if "1 \<le> pos" "pos < 2 ^ 31" for pos loc knd
    using that length_dec_int [of pos] by (simp add: oracle_dialect_def oracle_row_locator_clauses_def)
  show "length s < n \<and> (\<exists>a b. s = a @ q @ b)"
    if "row_limit_sql oracle_dialect (Some q) k n = Some s" for q k n s
  proof -
    from that have "s = ''SELECT * FROM ('' @ q @ '') WHERE ROWNUM <= '' @ dec_int k" "length s < n"
      by (auto simp: oracle_dialect_def oracle_row_limit_sql_def split: if_splits)
    then show ?thesis by blast
  qed
  show "length s < n \<and> (\<exists>a b. s = a @ q @ b)"
    if "count_rows_sql oracle_dialect (Some q) n = Some s" for q n s
  proof -
    from that have "s = ''SELECT COUNT(*) FROM (SELECT 1 FROM ('' @ q @ ''))''" "length s < n"
      by (auto simp: oracle_dialect_def oracle_count_rows_sql_def)
    then show ?thesis by blast
  qed
  show "length s < n \<and> (\<exists>a b. s = a @ p @ b)"
    if "procedure_call_sql oracle_dialect (Some p) ps c n = Some s" for p ps c n s
    using that oracle_call_text by (simp add: oracle_dialect_def)
qed

end
