(* ===== verification/Query_Wrapping.thy ===== *)
theory Query_Wrapping
  imports Mssql_Dialect Oracle_Dialect
begin

text \<open>
  What the SQL Server scanner and the wrapping hooks of both dialects do to a user's query:
  quoted text is skipped, appended text is always read, a limited query is recognised as such,
  and the key column of the OUTPUT clause is quoted without loss.
\<close>

text \<open>C36. Nothing appended to a query is swallowed by a trailing \<^verbatim>\<open>--\<close> comment: for a query whose
  quotes and block comments are closed, neither wrapped form ends inside a comment, so the closing
  bracket, the alias and the row limit are all read by the server.\<close>

theorem ms_wrappers_not_commented:
  assumes "closed q"
    and "ms_row_limit_sql (Some q) k n = Some s \<or> ms_count_rows_sql (Some q) n = Some s"
  shows "\<exists>ob off tp. mssql_sql_shape (Some s) = Some (ob, off, tp, False)"
proof -
  let ?e = "line_comment_at_end (scan shape_init q)"
  let ?b = "if ?e then NL else CHR '' ''" and ?m = "if ?e then [NL] else []"
  let ?lim = "''OFFSET 0 ROWS FETCH NEXT '' @ dec_int k @ '' ROWS ONLY''"
  let ?top = "''SELECT TOP ('' @ dec_int k @ '') * FROM''"
  let ?cnt = "''SELECT COUNT(*) FROM (SELECT 1 AS dm_c FROM''"
  have k: "0 \<le> k" if "ms_row_limit_sql (Some q) k n = Some s"
    using that by (auto simp: ms_row_limit_sql_def split: if_splits)
  have "0 \<le> k \<and> s = q @ ?b # ?lim \<or> 0 \<le> k \<and> s = ?top @ '' ('' @ q @ ?m @ CHR '')'' # '' AS dm_t'' \<or>
    s = ?cnt @ '' ('' @ q @ ?b # ''OFFSET 0 ROWS) AS dm_a) AS dm_b'' \<or>
    s = ?cnt @ '' ('' @ q @ ?m @ CHR '')'' # '' AS dm_a) AS dm_b''"
    using assms(2) k
    by (auto simp: ms_row_limit_sql_def ms_count_rows_sql_def mssql_sql_shape_def Let_def split: if_splits)
  then have "\<not> line_comment_at_end (scan shape_init s)"
  proof (elim disjE conjE)
    assume "0 \<le> k" "s = q @ ?b # ?lim"
    then show ?thesis
      by (simp only:) (intro scan_tail(2) assms(1) tail_ok_word, simp_all add: dec_digits_clean)
  next
    assume "0 \<le> k" "s = ?top @ '' ('' @ q @ ?m @ CHR '')'' # '' AS dm_t''"
    then show ?thesis
      by (simp only:) (intro scan_tail_in_brackets assms(1) tail_ok_close, simp_all add: dec_digits_clean)
  next
    assume "s = ?cnt @ '' ('' @ q @ ?b # ''OFFSET 0 ROWS) AS dm_a) AS dm_b''"
    then show ?thesis
      by (simp only:) (intro scan_tail_in_brackets assms(1) tail_ok_word, simp_all)
  next
    assume "s = ?cnt @ '' ('' @ q @ ?m @ CHR '')'' # '' AS dm_a) AS dm_b''"
    then show ?thesis
      by (simp only:) (intro scan_tail_in_brackets assms(1) tail_ok_close, simp_all)
  qed
  then show ?thesis by (simp add: mssql_sql_shape_def Let_def)
qed

lemma ms_wrappers_not_commented_witness:
  "(\<exists>ob off tp. mssql_sql_shape (Some (''SELECT TOP (5) * FROM (SELECT 1 -- x'' @ NL # '') AS dm_t''))
      = Some (ob, off, tp, False))"
proof -
  have c: "closed ''SELECT 1 -- x''" by code_simp
  have "ms_row_limit_sql (Some ''SELECT 1 -- x'') 5 100 =
    Some (''SELECT TOP (5) * FROM (SELECT 1 -- x'' @ NL # '') AS dm_t'')" by code_simp
  with ms_wrappers_not_commented [OF c, of 5 100] show ?thesis by blast
qed

text \<open>Oracle's wrappers do append on the same line: the closing bracket is read as comment.\<close>

lemma oracle_count_commented:
  "oracle_count_rows_sql (Some ''SELECT 1 FROM DUAL -- x'') 100 =
     Some ''SELECT COUNT(*) FROM (SELECT 1 FROM (SELECT 1 FROM DUAL -- x))'' \<and>
   map_option (\<lambda>(a, b, c, d). d)
     (mssql_sql_shape (Some ''SELECT COUNT(*) FROM (SELECT 1 FROM (SELECT 1 FROM DUAL -- x))'')) = Some True"
proof
  show "oracle_count_rows_sql (Some ''SELECT 1 FROM DUAL -- x'') 100 =
     Some ''SELECT COUNT(*) FROM (SELECT 1 FROM (SELECT 1 FROM DUAL -- x))''"
    by (simp add: oracle_count_rows_sql_def)
  show "map_option (\<lambda>(a, b, c, d). d)
     (mssql_sql_shape (Some ''SELECT COUNT(*) FROM (SELECT 1 FROM (SELECT 1 FROM DUAL -- x))'')) = Some True"
    by code_simp
qed

text \<open>The contents of a quoted literal or identifier never change the shape: after an
  opening quote, any text whose closing quotes are doubled is skipped up to the matching quote,
  and only the pending ORDER / BY state is reset.\<close>

theorem scan_quoted_text:
  assumes "is_quote c" "\<not> starts (closing c) rest"
  shows "scan st (c # escape_close (closing c) body @ closing c # rest) =
    scan (st\<lparr>line_comment_at_end := False, after_order := False, after_by := False\<rparr>) rest"
proof -
  have "plain c p" for p using assms(1) by (auto simp: plain_def is_quote_def ctype_defs byte_def)
  then show ?thesis
    using assms by (simp add: scan_quote skip_quoted_escape clear_order_def)
qed

lemma scan_quoted_text_witness:
  "scan shape_init ([CHR 39] @ escape_close (CHR 39) ([CHR 39] @ '' ORDER BY x'') @ [CHR 39] @ '' FROM t'') =
    scan (shape_init\<lparr>line_comment_at_end := False, after_order := False, after_by := False\<rparr>) '' FROM t''"
  using scan_quoted_text [of "CHR 39" "'' FROM t''" shape_init "[CHR 39] @ '' ORDER BY x''"]
  by (simp add: is_quote_def closing_def)

text \<open>Reading a bracketed identifier, as SQL Server does: \<open>]]\<close> stands for \<open>]\<close>.\<close>

fun read_bracketed :: "cstring \<Rightarrow> (cstring \<times> cstring) option" where
  "read_bracketed [] = None"
| "read_bracketed [c] = (if c = CHR '']'' then Some ([], []) else None)"
| "read_bracketed (c # d # p) =
     (if c = CHR '']'' then
        (if d = CHR '']'' then map_option (\<lambda>(n, r). (CHR '']'' # n, r)) (read_bracketed p)
         else Some ([], d # p))
      else map_option (\<lambda>(n, r). (c # n, r)) (read_bracketed (d # p)))"

lemma read_bracketed_escape:
  "\<not> starts (CHR '']'') rest \<Longrightarrow>
     read_bracketed (escape_close (CHR '']'') k @ CHR '']'' # rest) = Some (k, rest)"
proof (induction k)
  case Nil
  then show ?case by (cases rest) auto
next
  case (Cons c k)
  show ?case
  proof (cases "c = CHR '']''")
    case True
    with Cons show ?thesis by simp
  next
    case False
    obtain d p where "escape_close (CHR '']'') k @ CHR '']'' # rest = d # p"
      by (cases "escape_close (CHR '']'') k @ CHR '']'' # rest") auto
    with False Cons show ?thesis by simp
  qed
qed

text \<open>The key column of the OUTPUT clause is quoted safely: whatever characters the name has
  (a \<open>]\<close> included), the server reads back exactly that name, then \<open>INTO @dm_k (k)\<close>; and a name of
  up to 127 bytes always fits the builders' buffers.\<close>

theorem ms_locator_identifier:
  assumes "key_columns loc = Some [Some k]" "key_count loc = 1" "k \<noteq> []"
  shows "case ms_row_locator_clauses knd (Some loc) pos 512 512 of
      None \<Rightarrow> 128 \<le> length k
    | Some (mid, tail) \<Rightarrow> tail = [] \<and>
        (\<exists>q. mid = ''OUTPUT inserted.['' @ q \<and> read_bracketed q = Some (k, '' INTO @dm_k (k)''))"
proof (cases "ms_row_locator_clauses knd (Some loc) pos 512 512")
  case None
  with ms_locator_ok [of loc knd pos] assms have "\<not> length k < 128" by blast
  with None show ?thesis by simp
next
  case (Some r)
  obtain c k' where k: "k = c # k'" using assms(3) by (cases k) auto
  from Some assms k obtain q where q: "ms_quote_loop ''['' k = Some q"
    "r = (''OUTPUT inserted.'' @ (q @ '']'') @ '' INTO @dm_k (k)'', [])"
    by (auto simp: ms_row_locator_clauses_def split: option.splits)
  then have "q = ''['' @ escape_close (CHR '']'') k" using ms_quote_loop_Some [of "''[''"] by auto
  with q have "r = (''OUTPUT inserted.['' @ (escape_close (CHR '']'') k @ CHR '']'' # '' INTO @dm_k (k)''), [])"
    by simp
  with read_bracketed_escape [of "'' INTO @dm_k (k)''" k] show ?thesis by (simp only: Some) simp
qed

lemma ms_locator_identifier_witness:
  "case ms_row_locator_clauses DB_DML_INSERT (Some \<lparr>loc_table = ''T'', loc_owner = [],
      key_columns = Some [Some ''a]b''], key_count = 1\<rparr>) 3 512 512 of
      None \<Rightarrow> 128 \<le> length ''a]b''
    | Some (mid, tail) \<Rightarrow> tail = [] \<and>
        (\<exists>q. mid = ''OUTPUT inserted.['' @ q \<and> read_bracketed q = Some (''a]b'', '' INTO @dm_k (k)''))"
  using ms_locator_identifier [of "\<lparr>loc_table = ''T'', loc_owner = [],
      key_columns = Some [Some ''a]b''], key_count = 1\<rparr>" "''a]b''" DB_DML_INSERT 3] by (simp del: list.size)

lemma word_at_front:
  assumes "w \<noteq> []" "\<And>c. c \<in> set w \<Longrightarrow> c_isalnum c" "depth st = 0"
  shows "scan st (w @ CHR '' '' # r) = scan (word_step w (solid st)) r"
proof -
  obtain c v where w: "w = c # v" using assms(1) by (cases w) auto
  have v: "\<And>x. x \<in> set v \<Longrightarrow> ms_word_char x" using assms(2) w by simp
  have tk: "takeWhile ms_word_char (v @ CHR '' '' # r) = v"
    "dropWhile ms_word_char (v @ CHR '' '' # r) = CHR '' '' # r"
    using v by (induction v) auto
  show ?thesis
    using assms(2,3) w by (simp add: scan_word tk word_scan_def scan_space)
qed

lemma word_step_keeps:
  "depth (word_step w st) = depth st" "line_comment_at_end (word_step w st) = line_comment_at_end st"
  "\<not> word_is w ''TOP'' \<Longrightarrow> starts_top (word_step w st) = starts_top st"
  "seen_order st \<Longrightarrow> seen_order (word_step w st)"
  "seen_offset st \<Longrightarrow> seen_offset (word_step w st)"
  "offset_pending st \<Longrightarrow> offset_pending (word_step w st)"
  "seen_order st \<Longrightarrow> \<not> after_by st \<Longrightarrow> word_is w ''OFFSET'' \<Longrightarrow> offset_pending (word_step w st)"
  "offset_pending st \<Longrightarrow> word_is w ''ROWS'' \<Longrightarrow> seen_offset (word_step w st)"
  by (simp_all add: word_step_def Let_def)

lemma digits_not_top:
  assumes "\<And>c. c \<in> set w \<Longrightarrow> c_isdigit c"
  shows "\<not> word_is w ''TOP''"
proof
  assume "word_is w ''TOP''"
  then obtain c v where c: "w = c # v" "c_tolower c = CHR ''t''"
    by (cases w) (auto simp: word_is_def base_is_def ci_prefix_def)
  with assms have "c_isdigit c" by simp
  then have "\<not> c_isupper c" and "c \<noteq> CHR ''t''" by (auto simp: ctype_defs byte_def)
  with c show False by (simp add: c_tolower_def)
qed

lemma concrete_words [simp]:
  "word_is ''OFFSET'' ''OFFSET''" "word_is ''ROWS'' ''ROWS''" "\<not> word_is ''OFFSET'' ''TOP''"
  "\<not> word_is ''0'' ''TOP''" "\<not> word_is ''ROWS'' ''TOP''" "\<not> word_is ''FETCH'' ''TOP''"
  "\<not> word_is ''NEXT'' ''TOP''" "\<not> word_is ''ONLY'' ''TOP''"
  by (simp_all add: word_is_def base_is_def ci_prefix_def)

lemma scan_last_word:
  assumes "w \<noteq> []" "\<And>c. c \<in> set w \<Longrightarrow> c_isalnum c" "depth st = 0"
  shows "scan st w = word_step w (solid st)"
proof -
  obtain c v where w: "w = c # v" using assms(1) by (cases w) auto
  have tk: "takeWhile ms_word_char v = v" "dropWhile ms_word_char v = []"
    using assms(2) w by (simp_all add: takeWhile_eq_all_conv)
  show ?thesis using assms(2,3) w by (simp add: scan_word tk word_scan_def)
qed

text \<open>A limited query is recognised as limited: when the scanner finds a top-level ORDER BY and
  neither OFFSET nor TOP, the text \<open>row_limit_sql\<close> appends is itself found as the top-level
  OFFSET ... ROWS, so wrapping the result again never appends a second OFFSET clause.\<close>

theorem ms_row_limit_recognised:
  assumes "closed q" "mssql_sql_shape (Some q) = Some (True, False, False, elc)"
    and "depth (scan shape_init q) = 0" "\<not> after_by (scan shape_init q)"
    and "ms_row_limit_sql (Some q) k n = Some s"
  shows "mssql_sql_shape (Some s) = Some (True, True, False, False)"
proof -
  let ?b = "if elc then NL else CHR '' ''"
  let ?t = "''OFFSET 0 ROWS FETCH NEXT '' @ dec_int k @ '' ROWS ONLY''"
  define st where "st = scan shape_init q"
  from assms(2) have st: "seen_order st" "\<not> starts_top st" "line_comment_at_end st = elc"
    by (simp_all add: mssql_sql_shape_def Let_def st_def)
  from assms(3,4) have st': "depth st = 0" "\<not> after_by st" by (simp_all add: st_def)
  from assms(2,5) have k: "0 \<le> k" and s: "s = q @ ?b # ?t"
    by (auto simp: ms_row_limit_sql_def split: if_splits)
  have tail: "tail_ok elc (?b # ?t)"
    using k by (intro tail_ok_word) (simp_all add: dec_digits_clean)
  have dig: "\<And>c. c \<in> set (dec_int k) \<Longrightarrow> c_isdigit c" "dec_int k \<noteq> []"
    using k by (auto simp: dec_int_def dest: dec_all_digits)
  define s1 where "s1 = word_step ''OFFSET'' (solid st)"
  define s2 where "s2 = word_step ''0'' (solid s1)"
  define s3 where "s3 = word_step ''ROWS'' (solid s2)"
  define s4 where "s4 = word_step ''FETCH'' (solid s3)"
  define s5 where "s5 = word_step ''NEXT'' (solid s4)"
  define s6 where "s6 = word_step (dec_int k) (solid s5)"
  define s7 where "s7 = word_step ''ROWS'' (solid s6)"
  define s8 where "s8 = word_step ''ONLY'' (solid s7)"
  note al = ctype_defs byte_def
  have d: "depth s1 = 0" "depth s2 = 0" "depth s3 = 0" "depth s4 = 0" "depth s5 = 0" "depth s6 = 0" "depth s7 = 0"
    using st' by (simp_all add: s1_def s2_def s3_def s4_def s5_def s6_def s7_def word_step_keeps(1))
  have p2: "offset_pending s1 \<and> seen_order s1 \<and> \<not> starts_top s1"
    using st st' by (simp add: s1_def word_step_keeps)
  then have "offset_pending s2 \<and> seen_order s2 \<and> \<not> starts_top s2" by (simp add: s2_def word_step_keeps)
  then have "seen_offset s3 \<and> seen_order s3 \<and> \<not> starts_top s3" by (simp add: s3_def word_step_keeps)
  then have "seen_offset s4 \<and> seen_order s4 \<and> \<not> starts_top s4" by (simp add: s4_def word_step_keeps)
  then have "seen_offset s5 \<and> seen_order s5 \<and> \<not> starts_top s5" by (simp add: s5_def word_step_keeps)
  then have "seen_offset s6 \<and> seen_order s6 \<and> \<not> starts_top s6"
    by (simp add: s6_def word_step_keeps digits_not_top [OF dig(1)])
  then have "seen_offset s7 \<and> seen_order s7 \<and> \<not> starts_top s7" by (simp add: s7_def word_step_keeps)
  then have fin: "seen_offset s8 \<and> seen_order s8 \<and> \<not> starts_top s8 \<and> \<not> line_comment_at_end s8"
    by (simp add: s8_def word_step_keeps)
  have words: "?t = ''OFFSET'' @ CHR '' '' # ''0'' @ CHR '' '' # ''ROWS'' @ CHR '' '' # ''FETCH'' @ CHR '' '' #
      ''NEXT'' @ CHR '' '' # dec_int k @ CHR '' '' # ''ROWS'' @ CHR '' '' # ''ONLY''" by simp
  have "scan st (''OFFSET'' @ CHR '' '' # r) = scan s1 r" for r
    unfolding s1_def by (rule word_at_front) (auto simp: al st')
  moreover have "scan s1 (''0'' @ CHR '' '' # r) = scan s2 r" for r
    unfolding s2_def by (rule word_at_front) (auto simp: al d)
  moreover have "scan s2 (''ROWS'' @ CHR '' '' # r) = scan s3 r" for r
    unfolding s3_def by (rule word_at_front) (auto simp: al d)
  moreover have "scan s3 (''FETCH'' @ CHR '' '' # r) = scan s4 r" for r
    unfolding s4_def by (rule word_at_front) (auto simp: al d)
  moreover have "scan s4 (''NEXT'' @ CHR '' '' # r) = scan s5 r" for r
    unfolding s5_def by (rule word_at_front) (auto simp: al d)
  moreover have "scan s5 (dec_int k @ CHR '' '' # r) = scan s6 r" for r
    unfolding s6_def by (rule word_at_front) (use dig d in auto)
  moreover have "scan s6 (''ROWS'' @ CHR '' '' # r) = scan s7 r" for r
    unfolding s7_def by (rule word_at_front) (auto simp: al d)
  moreover have "scan s7 ''ONLY'' = s8"
    unfolding s8_def by (rule scan_last_word) (auto simp: al d)
  ultimately have "scan st ?t = s8" unfolding words by (simp only:)
  moreover have "scan shape_init s = scan st (?b # ?t)"
    unfolding s st_def by (rule scan_tail(1) [OF assms(1)]) (use tail st(3) in \<open>simp add: st_def\<close>)
  moreover have "scan st (?b # ?t) = scan st ?t" by (simp only: scan_space split: if_split) (simp add: scan_space)
  ultimately show ?thesis using fin by (simp add: mssql_sql_shape_def Let_def)
qed

lemma ms_row_limit_recognised_witness:
  "mssql_sql_shape (Some ''SELECT 1 ORDER BY 1 OFFSET 0 ROWS FETCH NEXT 7 ROWS ONLY'')
     = Some (True, True, False, False)"
proof -
  let ?q = "''SELECT 1 ORDER BY 1''"
  have c: "closed ?q" by (rule closed_plain) auto
  have sc: "scan shape_init ?q = \<lparr>depth = 0, after_order = False, seen_order = True, seen_offset = False,
     offset_pending = False, after_by = False, top_words = 5, first_select = True,
     quantifier = False, starts_top = False, line_comment_at_end = False\<rparr>" by code_simp
  have sh: "mssql_sql_shape (Some ?q) = Some (True, False, False, False)"
    by (simp add: mssql_sql_shape_def sc)
  have d: "depth (scan shape_init ?q) = 0" "\<not> after_by (scan shape_init ?q)" by (simp_all add: sc)
  have k: "dec_int 7 = ''7''" by code_simp
  have l: "ms_row_limit_sql (Some ?q) 7 100 =
    Some ''SELECT 1 ORDER BY 1 OFFSET 0 ROWS FETCH NEXT 7 ROWS ONLY''"
    by (simp add: ms_row_limit_sql_def sh k)
  show ?thesis by (rule ms_row_limit_recognised [OF c sh d l])
qed

end
