(* ===== verification/Dml_Builder.thy ===== *)
theory Dml_Builder
  imports Oracle_Dialect Mssql_Dialect
begin

text \<open>
  The statement builders of the core: \<open>build_insert_sql\<close> (\<^verbatim>\<open>Insert_Execute_Module.c\<close>),
  \<open>build_update_sql\<close> (\<^verbatim>\<open>Update_Execute_Module.c\<close>), \<open>build_delete_sql\<close>
  (\<^verbatim>\<open>Delete_Execute_Module.c\<close>). The driver's dialect is an argument. The lists are assembled
  with \<^verbatim>\<open>strncat\<close> into fixed stack buffers, which cuts silently; the lemmas show that under the
  dialect contract nothing is ever cut. Logging is left out.
\<close>

subsection \<open>Data\<close>

text \<open>A column's metadata: name and type name. The contexts hold what the request asks for.\<close>

record col_metadata =
  col_name :: cstring
  data_type :: cstring

record insert_ctx =
  ins_table :: cstring
  ins_owner :: cstring
  ins_cols :: "cstring list"

record update_ctx =
  upd_table :: cstring
  upd_owner :: cstring
  upd_cols :: "cstring list"
  upd_keys :: "cstring list"

record del_key_field =
  field_name :: cstring
  field_type :: cstring

record delete_ctx =
  del_table :: cstring
  del_owner :: cstring
  del_keys :: "del_key_field list"

definition MAX_INSERT_COLS :: nat where "MAX_INSERT_COLS = 1024"
definition MAX_UPD_COLS :: nat where "MAX_UPD_COLS = 1024"
definition MAX_UPD_KEY_COLS :: nat where "MAX_UPD_KEY_COLS = 32"
definition MAX_DEL_KEY_COLS :: nat where "MAX_DEL_KEY_COLS = 32"

text \<open>\<^verbatim>\<open>strncat(buf, s, sizeof(buf) - strlen(buf) - 1)\<close>.\<close>

definition strncat_buf :: "nat \<Rightarrow> cstring \<Rightarrow> cstring \<Rightarrow> cstring" where
  "strncat_buf cap buf s = buf @ take (cap - length buf - 1) s"

fun find_type :: "col_metadata list \<Rightarrow> cstring \<Rightarrow> cstring \<Rightarrow> cstring" where
  "find_type [] dflt name = dflt"
| "find_type (m # ms) dflt name = (if ci_eq (col_name m) name then data_type m else find_type ms dflt name)"

text \<open>\<^verbatim>\<open>loc_mid[0] ? " " : "", loc_mid\<close>.\<close>

definition spaced :: "cstring \<Rightarrow> cstring" where
  "spaced s = (if s = [] then [] else CHR '' '' # s)"

text \<open>The bind expression of a column: placeholder at \<open>pos\<close>, converted to the column's type.\<close>

definition bind_value :: "db_dialect \<Rightarrow> cstring \<Rightarrow> int \<Rightarrow> cstring option" where
  "bind_value dl dtype pos =
     (case bind_placeholder dl pos 32 of
        None \<Rightarrow> None
      | Some ph \<Rightarrow> value_expr dl (Some dtype) (Some ph) 256)"

text \<open>
  The answer of the driver's \<^verbatim>\<open>table_key\<close> hook: \<open>None\<close> when the lookup failed, else the key
  column if there is one (\<^verbatim>\<open>key_count\<close> 1).
\<close>

definition locator_ctx :: "cstring \<Rightarrow> cstring \<Rightarrow> cstring option \<Rightarrow> db_row_locator_ctx" where
  "locator_ctx table owner key =
     \<lparr>loc_table = table, loc_owner = owner,
      key_columns = map_option (\<lambda>k. [Some k]) key,
      key_count = (case key of None \<Rightarrow> 0 | Some _ \<Rightarrow> 1)\<rparr>"

subsection \<open>INSERT\<close>

fun insert_loop ::
    "db_dialect \<Rightarrow> col_metadata list \<Rightarrow> nat \<Rightarrow> cstring list \<Rightarrow> cstring \<times> cstring \<times> nat \<Rightarrow>
     (cstring \<times> cstring \<times> nat) option" where
  "insert_loop dl cols i [] st = Some st"
| "insert_loop dl cols i (name # names) (col_list, bind_list, bind_num) =
     (let csz = MAX_INSERT_COLS * 132; bsz = MAX_INSERT_COLS * 256;
          cl = (if i > 0 then strncat_buf csz col_list '', '' else col_list);
          bl = (if i > 0 then strncat_buf bsz bind_list '', '' else bind_list);
          cl = strncat_buf csz cl name;
          dtype = find_type cols [] name
      in case lob_placeholder dl (Some dtype) of
           Some lit \<Rightarrow> insert_loop dl cols (i + 1) names (cl, strncat_buf bsz bl lit, bind_num)
         | None \<Rightarrow>
             (case bind_value dl dtype (int (bind_num + 1)) of
                None \<Rightarrow> None
              | Some e \<Rightarrow>
                  insert_loop dl cols (i + 1) names (cl, strncat_buf bsz bl e, bind_num + 1)))"

definition build_insert_sql ::
    "db_dialect \<Rightarrow> cstring option option \<Rightarrow> insert_ctx \<Rightarrow> col_metadata list \<Rightarrow> nat \<Rightarrow>
     (cstring \<times> nat) option" where
  "build_insert_sql dl key ic cols sql_max =
     (case insert_loop dl cols 0 (ins_cols ic) ([], [], 0) of
        None \<Rightarrow> None
      | Some (col_list, bind_list, bind_num) \<Rightarrow>
          (case key of
             None \<Rightarrow> None
           | Some k \<Rightarrow>
               (case row_locator_clauses dl DB_DML_INSERT
                       (Some (locator_ctx (ins_table ic) (ins_owner ic) k)) (int (bind_num + 1)) 512 512 of
                  None \<Rightarrow> None
                | Some (mid, tail) \<Rightarrow>
                    map_option (\<lambda>sql. (sql, bind_num))
                      (fmt_out sql_max
                        (''INSERT INTO '' @
                         (if ins_owner ic \<noteq> [] then ins_owner ic @ ''.'' else []) @ ins_table ic @
                         '' ('' @ col_list @ '')'' @ spaced mid @ '' VALUES ('' @ bind_list @ '')'' @
                         spaced tail)))))"

subsection \<open>UPDATE\<close>

fun set_loop ::
    "db_dialect \<Rightarrow> col_metadata list \<Rightarrow> nat \<Rightarrow> cstring list \<Rightarrow> cstring \<times> nat \<Rightarrow> (cstring \<times> nat) option" where
  "set_loop dl cols i [] st = Some st"
| "set_loop dl cols i (name # names) (set_list, bind_pos) =
     (let sz = MAX_UPD_COLS * 256;
          sl = (if i > 0 then strncat_buf sz set_list '', '' else set_list);
          dtype = find_type cols [] name
      in case lob_placeholder dl (Some dtype) of
           Some lit \<Rightarrow>
             set_loop dl cols (i + 1) names
               (strncat_buf sz sl (c_snprintf 512 (name @ ''='' @ lit)), bind_pos)
         | None \<Rightarrow>
             (case bind_value dl dtype (int bind_pos) of
                None \<Rightarrow> None
              | Some e \<Rightarrow>
                  set_loop dl cols (i + 1) names
                    (strncat_buf sz sl (c_snprintf 512 (name @ ''='' @ e)), bind_pos + 1)))"

fun where_loop ::
    "db_dialect \<Rightarrow> nat \<Rightarrow> nat \<Rightarrow> (cstring \<times> cstring) list \<Rightarrow> cstring \<times> nat \<Rightarrow> (cstring \<times> nat) option" where
  "where_loop dl sz i [] st = Some st"
| "where_loop dl sz i ((name, ktype) # keys) (where_list, bind_pos) =
     (let wl = (if i > 0 then strncat_buf sz where_list '' AND '' else where_list)
      in case bind_value dl ktype (int bind_pos) of
           None \<Rightarrow> None
         | Some e \<Rightarrow>
             where_loop dl sz (i + 1) keys
               (strncat_buf sz wl (c_snprintf 512 (name @ ''='' @ e)), bind_pos + 1))"

definition build_update_sql ::
    "db_dialect \<Rightarrow> cstring option option \<Rightarrow> update_ctx \<Rightarrow> col_metadata list \<Rightarrow> nat \<Rightarrow>
     (cstring \<times> nat) option" where
  "build_update_sql dl key uc cols sql_max =
     (case set_loop dl cols 0 (upd_cols uc) ([], 1) of
        None \<Rightarrow> None
      | Some (set_list, pos) \<Rightarrow>
          (case where_loop dl (MAX_UPD_KEY_COLS * 256) 0
                  (map (\<lambda>k. (k, find_type cols [] k)) (upd_keys uc)) ([], pos) of
             None \<Rightarrow> None
           | Some (where_list, rowid_pos) \<Rightarrow>
               (case key of
                  None \<Rightarrow> None
                | Some k \<Rightarrow>
                    (case row_locator_clauses dl DB_DML_UPDATE
                            (Some (locator_ctx (upd_table uc) (upd_owner uc) k)) (int rowid_pos) 512 512 of
                       None \<Rightarrow> None
                     | Some (mid, tail) \<Rightarrow>
                         map_option (\<lambda>sql. (sql, rowid_pos))
                           (fmt_out sql_max
                             (''UPDATE '' @
                              (if upd_owner uc \<noteq> [] then upd_owner uc @ ''.'' else []) @ upd_table uc @
                              '' SET '' @ set_list @ spaced mid @ '' WHERE '' @ where_list @
                              spaced tail))))))"

subsection \<open>DELETE\<close>

definition build_delete_sql :: "db_dialect \<Rightarrow> delete_ctx \<Rightarrow> nat \<Rightarrow> cstring option" where
  "build_delete_sql dl dc sql_max =
     (case where_loop dl (MAX_DEL_KEY_COLS * 256) 0
             (map (\<lambda>k. (field_name k, field_type k)) (del_keys dc)) ([], 1) of
        None \<Rightarrow> None
      | Some (where_list, _) \<Rightarrow>
          fmt_out sql_max
            (''DELETE FROM '' @ (if del_owner dc \<noteq> [] then del_owner dc @ ''.'' else []) @ del_table dc @
             '' WHERE '' @ where_list))"

text \<open>
  How many values \<open>execute_insert_batch\<close> allocates and binds per row: the columns whose LOB
  kind is NONE. It counts them on its own, after the statement has been built.
\<close>

definition scalar_col_count :: "col_metadata list \<Rightarrow> cstring list \<Rightarrow> nat" where
  "scalar_col_count cols names =
     length (filter (\<lambda>n. db_type_lob_kind (Some (find_type cols [] n)) = DB_LOB_NONE) names)"

subsection \<open>What the loops compute\<close>

lemma strncat_fits [simp]: "length buf + length s < n \<Longrightarrow> strncat_buf n buf s = buf @ s"
  by (simp add: strncat_buf_def)

text \<open>The separator goes before every element but the first of the whole list.\<close>

fun joined :: "nat \<Rightarrow> cstring \<Rightarrow> cstring list \<Rightarrow> cstring" where
  "joined i sep [] = []"
| "joined i sep (x # xs) = (if i > 0 then sep else []) @ x @ joined (i + 1) sep xs"

lemma joined_sep_by: "joined 0 sep xs = sep_by sep xs"
proof -
  have "joined (Suc i) sep xs = (if xs = [] then [] else sep @ sep_by sep xs)" for i xs
    by (induction sep xs arbitrary: i rule: sep_by.induct) auto
  then show ?thesis by (cases xs rule: list.exhaust) (auto, metis sep_by.simps(2,3) neq_Nil_conv append_Nil2)
qed

text \<open>The values of an INSERT: a LOB literal, or the bind expression at the next position.\<close>

fun insert_exprs :: "db_dialect \<Rightarrow> col_metadata list \<Rightarrow> nat \<Rightarrow> cstring list \<Rightarrow> cstring list" where
  "insert_exprs dl cols k [] = []"
| "insert_exprs dl cols k (n # ns) =
     (let d = find_type cols [] n in
      case lob_placeholder dl (Some d) of
        Some lit \<Rightarrow> lit # insert_exprs dl cols k ns
      | None \<Rightarrow> the (bind_value dl d (int (k + 1))) # insert_exprs dl cols (k + 1) ns)"

definition bound_cols :: "db_dialect \<Rightarrow> col_metadata list \<Rightarrow> cstring list \<Rightarrow> cstring list" where
  "bound_cols dl cols names = filter (\<lambda>n. lob_placeholder dl (Some (find_type cols [] n)) = None) names"

definition set_exprs :: "db_dialect \<Rightarrow> col_metadata list \<Rightarrow> nat \<Rightarrow> cstring list \<Rightarrow> cstring list" where
  "set_exprs dl cols k names = map2 (\<lambda>n e. n @ ''='' @ e) names (insert_exprs dl cols k names)"

fun where_exprs :: "db_dialect \<Rightarrow> nat \<Rightarrow> (cstring \<times> cstring) list \<Rightarrow> cstring list" where
  "where_exprs dl k [] = []"
| "where_exprs dl k ((n, d) # ks) = (n @ ''='' @ the (bind_value dl d (int k))) # where_exprs dl (k + 1) ks"

context dialect
begin

lemma bind_value_ok:
  assumes "1 \<le> pos" "pos < 2 ^ 31"
  shows "\<exists>e. bind_value dl d pos = Some e \<and> length e \<le> 59"
proof -
  from placeholder [OF assms] obtain ph where ph: "bind_placeholder dl pos 32 = Some ph" "length ph \<le> 11"
    by blast
  from conversion [OF ph(2), of d] obtain a b
    where "value_expr dl (Some d) (Some ph) 256 = Some (a @ ph @ b)" "length (a @ b) \<le> 48" by blast
  with ph show ?thesis by (simp add: bind_value_def)
qed

lemma insert_loop_ok:
  assumes "\<And>n. n \<in> set names \<Longrightarrow> length n \<le> 127" "k + length names + 1 < 2 ^ 31"
    and "length cl + length names * 129 < MAX_INSERT_COLS * 132"
    and "length bl + length names * 61 < MAX_INSERT_COLS * 256"
  shows "insert_loop dl cols i names (cl, bl, k) =
    Some (cl @ joined i '', '' names, bl @ joined i '', '' (insert_exprs dl cols k names),
      k + length (bound_cols dl cols names))"
  using assms
proof (induction names arbitrary: i cl bl k)
  case Nil
  then show ?case by (simp add: bound_cols_def)
next
  case (Cons n names)
  let ?d = "find_type cols [] n"
  let ?cl = "cl @ (if i > 0 then '', '' else []) @ n" and ?bl = "bl @ (if i > 0 then '', '' else [])"
  have n: "length n \<le> 127" using Cons.prems by simp
  have cl: "strncat_buf (MAX_INSERT_COLS * 132)
      (if i > 0 then strncat_buf (MAX_INSERT_COLS * 132) cl '', '' else cl) n = ?cl"
    using Cons.prems(3) n by simp
  have bl: "(if i > 0 then strncat_buf (MAX_INSERT_COLS * 256) bl '', '' else bl) = ?bl"
    using Cons.prems(4) by simp
  show ?case
  proof (cases "lob_placeholder dl (Some ?d)")
    case (Some lit)
    then have lit: "length lit \<le> 12" by (rule literal)
    have "strncat_buf (MAX_INSERT_COLS * 256) ?bl lit = ?bl @ lit" using Cons.prems(4) lit by simp
    moreover have "insert_loop dl cols (i + 1) names (?cl, ?bl @ lit, k) =
      Some (?cl @ joined (i + 1) '', '' names, (?bl @ lit) @ joined (i + 1) '', '' (insert_exprs dl cols k names),
        k + length (bound_cols dl cols names))"
      by (rule Cons.IH) (use Cons.prems(1) in simp, use Cons.prems(2) in simp,
        use Cons.prems(3) n in simp, use Cons.prems(4) lit in simp)
    ultimately show ?thesis
      using Some cl bl by (simp add: Let_def bound_cols_def del: strncat_fits)
  next
    case None
    obtain e where e: "bind_value dl ?d (int (k + 1)) = Some e" "length e \<le> 59"
      using bind_value_ok [of "int (k + 1)" ?d] Cons.prems(2) by auto
    have "strncat_buf (MAX_INSERT_COLS * 256) ?bl e = ?bl @ e" using Cons.prems(4) e(2) by simp
    moreover have "insert_loop dl cols (i + 1) names (?cl, ?bl @ e, k + 1) =
      Some (?cl @ joined (i + 1) '', '' names,
        (?bl @ e) @ joined (i + 1) '', '' (insert_exprs dl cols (k + 1) names),
        (k + 1) + length (bound_cols dl cols names))"
      by (rule Cons.IH) (use Cons.prems(1) in simp, use Cons.prems(2) in simp,
        use Cons.prems(3) n in simp, use Cons.prems(4) e(2) in simp)
    ultimately show ?thesis
      using None e(1) cl bl by (simp add: Let_def bound_cols_def del: strncat_fits)
  qed
qed

lemma set_loop_ok:
  assumes "\<And>n. n \<in> set names \<Longrightarrow> length n \<le> 127" "1 \<le> k" "k + length names < 2 ^ 31"
    and "length sl + length names * 189 < MAX_UPD_COLS * 256"
  shows "set_loop dl cols i names (sl, k) =
    Some (sl @ joined i '', '' (set_exprs dl cols (k - 1) names), k + length (bound_cols dl cols names))"
  using assms
proof (induction names arbitrary: i sl k)
  case Nil
  then show ?case by (simp add: bound_cols_def set_exprs_def)
next
  case (Cons n names)
  let ?d = "find_type cols [] n"
  let ?sl = "sl @ (if i > 0 then '', '' else [])"
  have n: "length n \<le> 127" using Cons.prems by simp
  have sl: "(if i > 0 then strncat_buf (MAX_UPD_COLS * 256) sl '', '' else sl) = ?sl"
    using Cons.prems(4) by simp
  have add: "strncat_buf (MAX_UPD_COLS * 256) ?sl (c_snprintf 512 (n @ ''='' @ e)) = ?sl @ n @ ''='' @ e"
    if "length e \<le> 59" for e using Cons.prems(4) that n by simp
  show ?case
  proof (cases "lob_placeholder dl (Some ?d)")
    case (Some lit)
    then have lit: "length lit \<le> 12" by (rule literal)
    have "set_loop dl cols (i + 1) names (?sl @ n @ ''='' @ lit, k) =
      Some ((?sl @ n @ ''='' @ lit) @ joined (i + 1) '', '' (set_exprs dl cols (k - 1) names),
        k + length (bound_cols dl cols names))"
      by (rule Cons.IH) (use Cons.prems(1) in simp, use Cons.prems(2) in simp,
        use Cons.prems(3) in simp, use Cons.prems(4) lit n in simp)
    then show ?thesis
      using Some sl add [of lit] lit by (simp add: Let_def bound_cols_def set_exprs_def del: strncat_fits)
  next
    case None
    obtain e where e: "bind_value dl ?d (int k) = Some e" "length e \<le> 59"
      using bind_value_ok [of "int k" ?d] Cons.prems(2,3) by auto
    have "set_loop dl cols (i + 1) names (?sl @ n @ ''='' @ e, k + 1) =
      Some ((?sl @ n @ ''='' @ e) @ joined (i + 1) '', '' (set_exprs dl cols (k + 1 - 1) names),
        k + 1 + length (bound_cols dl cols names))"
      by (rule Cons.IH) (use Cons.prems(1) in simp, use Cons.prems(2) in simp,
        use Cons.prems(3) in simp, use Cons.prems(4) e(2) n in simp)
    with Cons.prems(2) show ?thesis
      using None e sl add [of e]
      by (cases k) (simp_all add: Let_def bound_cols_def set_exprs_def add.commute del: strncat_fits)
  qed
qed

lemma where_loop_ok:
  assumes "\<And>n d. (n, d) \<in> set keys \<Longrightarrow> length n \<le> 127" "1 \<le> k" "k + length keys < 2 ^ 31"
    and "length wl + length keys * 192 < sz"
  shows "where_loop dl sz i keys (wl, k) =
    Some (wl @ joined i '' AND '' (where_exprs dl k keys), k + length keys)"
  using assms
proof (induction keys arbitrary: i wl k)
  case Nil
  then show ?case by simp
next
  case (Cons x keys)
  obtain n d where x: "x = (n, d)" by (cases x)
  let ?wl = "wl @ (if i > 0 then '' AND '' else [])"
  have n: "length n \<le> 127" using Cons.prems x by auto
  have wl: "(if i > 0 then strncat_buf sz wl '' AND '' else wl) = ?wl" using Cons.prems(4) by simp
  obtain e where e: "bind_value dl d (int k) = Some e" "length e \<le> 59"
    using bind_value_ok [of "int k" d] Cons.prems(2,3) by auto
  have add: "strncat_buf sz ?wl (c_snprintf 512 (n @ ''='' @ e)) = ?wl @ n @ ''='' @ e"
    using Cons.prems(4) e(2) n by simp
  have "where_loop dl sz (i + 1) keys (?wl @ n @ ''='' @ e, k + 1) =
    Some ((?wl @ n @ ''='' @ e) @ joined (i + 1) '' AND '' (where_exprs dl (k + 1) keys), k + 1 + length keys)"
    by (rule Cons.IH) (use Cons.prems(1) x in force, simp, use Cons.prems(3) in simp,
      use Cons.prems(4) e(2) n in simp)
  then show ?case using e wl add x by (simp add: Let_def del: strncat_fits)
qed

text \<open>On the types the driver reports, the columns bound are those the caller counts.\<close>

lemma bound_cols_scalar:
  assumes "\<And>m. m \<in> set cols \<Longrightarrow> reported (data_type m)"
  shows "length (bound_cols dl cols names) = scalar_col_count cols names"
proof -
  have "reported (find_type cols [] n)" for n
    using assms by (induction cols) (auto simp: no_type)
  then show ?thesis by (simp add: bound_cols_def scalar_col_count_def lob_agrees cong: filter_cong)
qed

lemma locator_exists:
  assumes "case key of None \<Rightarrow> True | Some k \<Rightarrow> k \<noteq> [] \<and> length k < 128" "1 \<le> pos" "pos < 2 ^ 31"
  obtains mid tail where
    "row_locator_clauses dl knd (Some (locator_ctx table owner key)) pos 512 512 = Some (mid, tail)"
proof -
  have "row_locator_clauses dl knd (Some (locator_ctx table owner key)) pos 512 512 \<noteq> None"
    using assms by (intro locator) (auto simp: locator_ctx_def split: option.splits)
  with that show thesis by auto
qed

text \<open>The three builders, when every hook keeps the contract.\<close>

lemma build_insert_ok:
  assumes cols: "\<And>m. m \<in> set cols \<Longrightarrow> reported (data_type m)"
    and names: "\<And>n. n \<in> set (ins_cols ic) \<Longrightarrow> length n \<le> 127" "length (ins_cols ic) \<le> MAX_INSERT_COLS"
    and key: "case key of None \<Rightarrow> True | Some k \<Rightarrow> k \<noteq> [] \<and> length k < 128"
  shows "\<exists>mid tail. build_insert_sql dl (Some key) ic cols n =
    map_option (\<lambda>sql. (sql, scalar_col_count cols (ins_cols ic)))
      (fmt_out n (''INSERT INTO '' @ (if ins_owner ic \<noteq> [] then ins_owner ic @ ''.'' else []) @ ins_table ic @
        '' ('' @ sep_by '', '' (ins_cols ic) @ '')'' @ spaced mid @ '' VALUES ('' @
        sep_by '', '' (insert_exprs dl cols 0 (ins_cols ic)) @ '')'' @ spaced tail)) \<and>
    row_locator_clauses dl DB_DML_INSERT (Some (locator_ctx (ins_table ic) (ins_owner ic) key))
      (int (scalar_col_count cols (ins_cols ic)) + 1) 512 512 = Some (mid, tail)"
proof -
  have cnt: "scalar_col_count cols (ins_cols ic) \<le> 1024"
    unfolding scalar_col_count_def
    by (rule le_trans [OF length_filter_le]) (use names(2) in \<open>simp add: MAX_INSERT_COLS_def\<close>)
  obtain mid tail where loc: "row_locator_clauses dl DB_DML_INSERT
      (Some (locator_ctx (ins_table ic) (ins_owner ic) key))
      (int (scalar_col_count cols (ins_cols ic)) + 1) 512 512 = Some (mid, tail)"
    by (rule locator_exists [OF key, of "int (scalar_col_count cols (ins_cols ic)) + 1"]) (use cnt in auto)
  have "insert_loop dl cols 0 (ins_cols ic) ([], [], 0) =
    Some (joined 0 '', '' (ins_cols ic), joined 0 '', '' (insert_exprs dl cols 0 (ins_cols ic)),
      scalar_col_count cols (ins_cols ic))"
    using insert_loop_ok [of "ins_cols ic" 0 "[]" "[]" cols 0] names bound_cols_scalar [OF cols]
    by (simp add: MAX_INSERT_COLS_def)
  with loc show ?thesis
    by (intro exI [of _ mid] exI [of _ tail]) (simp add: build_insert_sql_def joined_sep_by add.commute)
qed

lemma build_update_ok:
  assumes cols: "\<And>m. m \<in> set cols \<Longrightarrow> reported (data_type m)"
    and names: "\<And>n. n \<in> set (upd_cols uc) \<union> set (upd_keys uc) \<Longrightarrow> length n \<le> 127"
      "length (upd_cols uc) \<le> MAX_UPD_COLS" "length (upd_keys uc) \<le> MAX_UPD_KEY_COLS"
    and key: "case key of None \<Rightarrow> True | Some k \<Rightarrow> k \<noteq> [] \<and> length k < 128"
    and pos: "pos = scalar_col_count cols (upd_cols uc) + length (upd_keys uc) + 1"
  shows "\<exists>mid tail. build_update_sql dl (Some key) uc cols n =
    map_option (\<lambda>sql. (sql, pos))
      (fmt_out n (''UPDATE '' @ (if upd_owner uc \<noteq> [] then upd_owner uc @ ''.'' else []) @ upd_table uc @
        '' SET '' @ sep_by '', '' (set_exprs dl cols 0 (upd_cols uc)) @ spaced mid @ '' WHERE '' @
        sep_by '' AND '' (where_exprs dl (scalar_col_count cols (upd_cols uc) + 1)
          (map (\<lambda>k. (k, find_type cols [] k)) (upd_keys uc))) @ spaced tail)) \<and>
    row_locator_clauses dl DB_DML_UPDATE (Some (locator_ctx (upd_table uc) (upd_owner uc) key))
      (int pos) 512 512 = Some (mid, tail)"
proof -
  have cnt: "scalar_col_count cols (upd_cols uc) \<le> 1024"
    unfolding scalar_col_count_def
    by (rule le_trans [OF length_filter_le]) (use names(2) in \<open>simp add: MAX_UPD_COLS_def\<close>)
  have keys: "length (upd_keys uc) \<le> 32" using names(3) by (simp add: MAX_UPD_KEY_COLS_def)
  obtain mid tail where loc: "row_locator_clauses dl DB_DML_UPDATE
      (Some (locator_ctx (upd_table uc) (upd_owner uc) key)) (int pos) 512 512 = Some (mid, tail)"
    by (rule locator_exists [OF key, of "int pos"]) (use cnt keys pos in auto)
  have s: "set_loop dl cols 0 (upd_cols uc) ([], 1) =
    Some (joined 0 '', '' (set_exprs dl cols 0 (upd_cols uc)), 1 + scalar_col_count cols (upd_cols uc))"
    using set_loop_ok [of "upd_cols uc" 1 "[]" cols 0] names bound_cols_scalar [OF cols]
    by (simp add: MAX_UPD_COLS_def)
  have w: "where_loop dl (MAX_UPD_KEY_COLS * 256) 0 (map (\<lambda>k. (k, find_type cols [] k)) (upd_keys uc))
      ([], 1 + scalar_col_count cols (upd_cols uc)) =
    Some (joined 0 '' AND '' (where_exprs dl (1 + scalar_col_count cols (upd_cols uc))
      (map (\<lambda>k. (k, find_type cols [] k)) (upd_keys uc))), pos)"
    using where_loop_ok [of "map (\<lambda>k. (k, find_type cols [] k)) (upd_keys uc)"
        "1 + scalar_col_count cols (upd_cols uc)" "[]" "MAX_UPD_KEY_COLS * 256" 0] names cnt keys
    by (auto simp: MAX_UPD_KEY_COLS_def pos)
  from s w loc show ?thesis
    by (intro exI [of _ mid] exI [of _ tail]) (simp add: build_update_sql_def joined_sep_by)
qed

lemma build_delete_ok:
  assumes "\<And>k. k \<in> set (del_keys dc) \<Longrightarrow> length (field_name k) \<le> 127"
    and "length (del_keys dc) \<le> MAX_DEL_KEY_COLS"
  shows "build_delete_sql dl dc n =
    fmt_out n (''DELETE FROM '' @ (if del_owner dc \<noteq> [] then del_owner dc @ ''.'' else []) @ del_table dc @
      '' WHERE '' @ sep_by '' AND '' (where_exprs dl 1 (map (\<lambda>k. (field_name k, field_type k)) (del_keys dc))))"
proof -
  have "where_loop dl (MAX_DEL_KEY_COLS * 256) 0 (map (\<lambda>k. (field_name k, field_type k)) (del_keys dc)) ([], 1) =
    Some (joined 0 '' AND '' (where_exprs dl 1 (map (\<lambda>k. (field_name k, field_type k)) (del_keys dc))),
      1 + length (del_keys dc))"
    using where_loop_ok [of "map (\<lambda>k. (field_name k, field_type k)) (del_keys dc)" 1 "[]"
        "MAX_DEL_KEY_COLS * 256" 0] assms
    by (auto simp: MAX_DEL_KEY_COLS_def)
  then show ?thesis by (simp add: build_delete_sql_def joined_sep_by)
qed

end

subsection \<open>Properties of the two drivers' statements\<close>

text \<open>A driver's dialect with the type names its own metadata reports.\<close>

definition driver_dialect :: "db_dialect \<Rightarrow> (cstring \<Rightarrow> bool) \<Rightarrow> bool" where
  "driver_dialect dl rep \<longleftrightarrow>
     dl = oracle_dialect \<and> rep = oracle_reports \<or> dl = mssql_dialect \<and> rep = mssql_reports"

lemma driver_dialect_contract: "driver_dialect dl rep \<Longrightarrow> dialect dl rep"
  using ora.dialect_axioms ms.dialect_axioms by (auto simp: driver_dialect_def)

text \<open>An optional key column name that fits the builders' 128-byte buffer.\<close>

definition key_fits :: "cstring option \<Rightarrow> bool" where
  "key_fits key \<longleftrightarrow> (case key of None \<Rightarrow> True | Some k \<Rightarrow> k \<noteq> [] \<and> length k < 128)"

text \<open>C28. The INSERT of either driver is exactly the intended statement, nothing cut by the fixed
  buffers: each column's value is the driver's LOB literal or the bind expression at the next
  position, the positions run without a gap, the row locator takes the position after them, and the
  number of positions is the number of values \<open>execute_insert_batch\<close> counts from the type classes.
  The only failure is a statement longer than the caller's buffer.\<close>

theorem insert_sql_exact:
  assumes "driver_dialect dl rep" "list_all (\<lambda>m. rep (data_type m)) cols"
    and "list_all (\<lambda>n. length n \<le> 127) (ins_cols ic)" "length (ins_cols ic) \<le> MAX_INSERT_COLS"
    and "key_fits key"
  shows "\<exists>mid tail. build_insert_sql dl (Some key) ic cols n =
    map_option (\<lambda>sql. (sql, scalar_col_count cols (ins_cols ic)))
      (fmt_out n (''INSERT INTO '' @ (if ins_owner ic \<noteq> [] then ins_owner ic @ ''.'' else []) @ ins_table ic @
        '' ('' @ sep_by '', '' (ins_cols ic) @ '')'' @ spaced mid @ '' VALUES ('' @
        sep_by '', '' (insert_exprs dl cols 0 (ins_cols ic)) @ '')'' @ spaced tail)) \<and>
    row_locator_clauses dl DB_DML_INSERT (Some (locator_ctx (ins_table ic) (ins_owner ic) key))
      (int (scalar_col_count cols (ins_cols ic)) + 1) 512 512 = Some (mid, tail)"
  by (rule dialect.build_insert_ok [OF driver_dialect_contract [OF assms(1)]])
     (use assms in \<open>auto simp: list_all_iff key_fits_def\<close>)

lemma insert_sql_exact_witness:
  "\<exists>mid tail. build_insert_sql oracle_dialect (Some None) \<lparr>ins_table = ''T'', ins_owner = [], ins_cols = [''A'', ''C'']\<rparr>
      [\<lparr>col_name = ''A'', data_type = ''DATE''\<rparr>, \<lparr>col_name = ''C'', data_type = ''CLOB''\<rparr>] 400 =
    map_option (\<lambda>sql. (sql, scalar_col_count
        [\<lparr>col_name = ''A'', data_type = ''DATE''\<rparr>, \<lparr>col_name = ''C'', data_type = ''CLOB''\<rparr>] [''A'', ''C'']))
      (fmt_out 400 (''INSERT INTO T (A, C)'' @ spaced mid @ '' VALUES ('' @
        sep_by '', '' (insert_exprs oracle_dialect
          [\<lparr>col_name = ''A'', data_type = ''DATE''\<rparr>, \<lparr>col_name = ''C'', data_type = ''CLOB''\<rparr>] 0 [''A'', ''C'']) @
        '')'' @ spaced tail))"
proof -
  have r: "oracle_reports ''DATE''" "oracle_reports ''CLOB''" by code_simp+
  show ?thesis
    using insert_sql_exact [of oracle_dialect oracle_reports
      "[\<lparr>col_name = ''A'', data_type = ''DATE''\<rparr>, \<lparr>col_name = ''C'', data_type = ''CLOB''\<rparr>]"
      "\<lparr>ins_table = ''T'', ins_owner = [], ins_cols = [''A'', ''C'']\<rparr>" None 400] r
    by (simp add: driver_dialect_def MAX_INSERT_COLS_def key_fits_def del: insert_exprs.simps find_type.simps) blast
qed

text \<open>The UPDATE of either driver is exactly the intended statement: SET expressions first,
  then the WHERE keys at the positions that follow, then the row locator at the next one, whose
  number is returned.\<close>

theorem update_sql_exact:
  assumes "driver_dialect dl rep" "list_all (\<lambda>m. rep (data_type m)) cols"
    and "list_all (\<lambda>n. length n \<le> 127) (upd_cols uc @ upd_keys uc)"
    and "length (upd_cols uc) \<le> MAX_UPD_COLS" "length (upd_keys uc) \<le> MAX_UPD_KEY_COLS"
    and "key_fits key" "first_key = scalar_col_count cols (upd_cols uc) + 1"
  shows "\<exists>mid tail. build_update_sql dl (Some key) uc cols n =
    map_option (\<lambda>sql. (sql, first_key + length (upd_keys uc)))
      (fmt_out n (''UPDATE '' @ (if upd_owner uc \<noteq> [] then upd_owner uc @ ''.'' else []) @ upd_table uc @
        '' SET '' @ sep_by '', '' (set_exprs dl cols 0 (upd_cols uc)) @ spaced mid @ '' WHERE '' @
        sep_by '' AND '' (where_exprs dl first_key
          (map (\<lambda>k. (k, find_type cols [] k)) (upd_keys uc))) @ spaced tail)) \<and>
    row_locator_clauses dl DB_DML_UPDATE (Some (locator_ctx (upd_table uc) (upd_owner uc) key))
      (int (first_key + length (upd_keys uc))) 512 512 = Some (mid, tail)"
  unfolding assms(7)
  by (rule dialect.build_update_ok [OF driver_dialect_contract [OF assms(1)]])
     (use assms in \<open>auto simp: list_all_iff key_fits_def\<close>)

lemma update_sql_exact_witness:
  "\<exists>mid tail. build_update_sql mssql_dialect (Some (Some ''ID''))
      \<lparr>upd_table = ''T'', upd_owner = ''dbo'', upd_cols = [''A''], upd_keys = [''ID'']\<rparr>
      [\<lparr>col_name = ''A'', data_type = ''DATETIME2(7)''\<rparr>] 400 =
    map_option (\<lambda>sql. (sql, 3))
      (fmt_out 400 (''UPDATE dbo.T SET '' @
        sep_by '', '' (set_exprs mssql_dialect [\<lparr>col_name = ''A'', data_type = ''DATETIME2(7)''\<rparr>] 0 [''A'']) @
        spaced mid @ '' WHERE '' @ sep_by '' AND '' (where_exprs mssql_dialect 2 [(''ID'', [])]) @ spaced tail))"
proof -
  let ?cols = "[\<lparr>col_name = ''A'', data_type = ''DATETIME2(7)''\<rparr>]"
  have r: "mssql_reports ''DATETIME2(7)''" "scalar_col_count ?cols [''A''] = 1" "find_type ?cols [] ''ID'' = []"
    by code_simp+
  show ?thesis
    using update_sql_exact [of mssql_dialect mssql_reports ?cols
      "\<lparr>upd_table = ''T'', upd_owner = ''dbo'', upd_cols = [''A''], upd_keys = [''ID'']\<rparr>" "Some ''ID''" 2 400] r
    by (simp add: driver_dialect_def MAX_UPD_COLS_def MAX_UPD_KEY_COLS_def key_fits_def
        del: where_exprs.simps find_type.simps) blast
qed

end
