(* ===== verification/Mssql_Text.thy ===== *)
theory Mssql_Text
  imports C_Prelude
begin

text \<open>
  \<^verbatim>\<open>src/execute/mssql_text.c\<close>: the UTF-8 text of a statement to the UTF-16 units handed to
  \<^verbatim>\<open>SQLPrepareW\<close> / \<^verbatim>\<open>SQLExecDirectW\<close>. Bytes and units are \<open>nat\<close>; the masks and shifts of
  the code are written as \<open>div\<close> and \<open>mod\<close> (\<^verbatim>\<open>(c & 0xE0) == 0xC0\<close> is \<open>c div 32 = 6\<close>,
  \<^verbatim>\<open>(cp << 6) | (b & 0x3F)\<close> is \<open>cp * 64 + b mod 64\<close>). A code point never exceeds 21 bits, so
  nothing wraps.
\<close>

definition REPLACEMENT :: nat where
  "REPLACEMENT = 65533"

text \<open>The lead byte: the bits it gives and the length it announces.\<close>

definition lead :: "nat \<Rightarrow> nat \<times> nat" where
  "lead c =
     (if c < 128 then (c, 1)
      else if c div 32 = 6 then (c mod 32, 2)
      else if c div 16 = 14 then (c mod 16, 3)
      else if c div 8 = 30 then (c mod 8, 4)
      else (REPLACEMENT, 1))"

text \<open>The continuation bytes; \<open>None\<close> when one is not of the form \<^verbatim>\<open>10xxxxxx\<close>.\<close>

fun continue_cp :: "nat \<Rightarrow> nat list \<Rightarrow> nat option" where
  "continue_cp cp [] = Some cp"
| "continue_cp cp (b # bs) = (if b div 64 \<noteq> 2 then None else continue_cp (cp * 64 + b mod 64) bs)"

definition decode_at :: "nat \<Rightarrow> nat list \<Rightarrow> nat \<times> nat" where
  "decode_at c rest =
     (case lead c of
        (cp, len) \<Rightarrow>
          if len > 1 then
            (if len - 1 > length rest then (REPLACEMENT, 1)
             else (case continue_cp cp (take (len - 1) rest) of
                     None \<Rightarrow> (REPLACEMENT, 1)
                   | Some cp' \<Rightarrow> (cp', len)))
          else (cp, len))"

definition checked_cp :: "nat \<Rightarrow> nat" where
  "checked_cp cp = (if cp > 1114111 \<or> (55296 \<le> cp \<and> cp \<le> 57343) then REPLACEMENT else cp)"

definition utf16_units :: "nat \<Rightarrow> nat list" where
  "utf16_units cp =
     (if cp \<ge> 65536
      then [55296 + (cp - 65536) div 1024, 56320 + (cp - 65536) mod 1024]
      else [cp])"

function wide_loop :: "nat list \<Rightarrow> nat list" where
  "wide_loop [] = []"
| "wide_loop (c # rest) =
     (case decode_at c rest of
        (cp, len) \<Rightarrow> utf16_units (checked_cp cp) @ wide_loop (drop (len - 1) rest))"
  by pat_completeness auto
termination by (relation "measure length") auto

text \<open>\<^verbatim>\<open>utf8_to_wide\<close>: the units before the terminating 0. A NULL statement is the empty one.\<close>

definition utf8_to_wide :: "cstring \<Rightarrow> nat list" where
  "utf8_to_wide s = wide_loop (map byte s)"

definition mssql_statement_units :: "cstring option \<Rightarrow> nat list" where
  "mssql_statement_units sql = utf8_to_wide (case sql of None \<Rightarrow> [] | Some s \<Rightarrow> s)"

subsection \<open>Reference encoders\<close>

definition scalar :: "nat \<Rightarrow> bool" where
  "scalar cp \<longleftrightarrow> cp \<le> 1114111 \<and> \<not> (55296 \<le> cp \<and> cp \<le> 57343)"

definition utf8_bytes :: "nat \<Rightarrow> nat list" where
  "utf8_bytes cp =
     (if cp < 128 then [cp]
      else if cp < 2048 then [192 + cp div 64, 128 + cp mod 64]
      else if cp < 65536 then [224 + cp div 4096, 128 + cp div 64 mod 64, 128 + cp mod 64]
      else [240 + cp div 262144, 128 + cp div 4096 mod 64, 128 + cp div 64 mod 64, 128 + cp mod 64])"

lemma checked_scalar [simp]: "scalar (checked_cp cp)" "scalar cp \<Longrightarrow> checked_cp cp = cp"
  by (auto simp: scalar_def checked_cp_def REPLACEMENT_def)

lemma low_part: "x < m \<Longrightarrow> (k * m + x) div m = k" "x < m \<Longrightarrow> (k * m + x) mod m = x" for x m k :: nat
  by simp_all

lemma cont_byte [simp]: "x < 64 \<Longrightarrow> (128 + x) div 64 = 2" "x < 64 \<Longrightarrow> (128 + x) mod 64 = x" for x :: nat
  using low_part [of x 64 2] by simp_all

lemma lead_bytes:
  "c < 128 \<Longrightarrow> lead c = (c, 1)"
  "x < 32 \<Longrightarrow> lead (192 + x) = (x, 2)"
  "x < 16 \<Longrightarrow> lead (224 + x) = (x, 3)"
  "x < 8 \<Longrightarrow> lead (240 + x) = (x, 4)"
  using low_part [of x 32 6] low_part [of "x" 16 14] low_part [of x 8 30] low_part [of x 32 7]
    low_part [of "16 + x" 32 7] low_part [of x 16 15]
  by (simp_all add: lead_def)

lemma join_6: "x div 64 * 64 + x mod 64 = x" for x :: nat
  by simp

lemma div64: "cp div 4096 = cp div 64 div 64" "cp div 262144 = cp div 4096 div 64" for cp :: nat
  by (simp_all add: div_mult2_eq [symmetric])

text \<open>One encoded character is decoded from the front.\<close>

lemma decode_seq:
  "c < 128 \<Longrightarrow> decode_at c rest = (c, 1)"
  "a < 32 \<Longrightarrow> x < 64 \<Longrightarrow> decode_at (192 + a) ((128 + x) # rest) = (a * 64 + x, 2)"
  "a < 16 \<Longrightarrow> x < 64 \<Longrightarrow> y < 64 \<Longrightarrow>
     decode_at (224 + a) ((128 + x) # (128 + y) # rest) = ((a * 64 + x) * 64 + y, 3)"
  "a < 8 \<Longrightarrow> x < 64 \<Longrightarrow> y < 64 \<Longrightarrow> z < 64 \<Longrightarrow>
     decode_at (240 + a) ((128 + x) # (128 + y) # (128 + z) # rest) = (((a * 64 + x) * 64 + y) * 64 + z, 4)"
  by (simp_all add: decode_at_def lead_bytes)

lemma wide_loop_char:
  assumes "scalar cp"
  shows "wide_loop (utf8_bytes cp @ rest) = utf16_units cp @ wide_loop rest"
proof -
  have "\<exists>c bs. utf8_bytes cp = c # bs \<and> decode_at c (bs @ rest) = (cp, Suc (length bs))"
  proof -
    consider "cp < 128" | "128 \<le> cp" "cp < 2048" | "2048 \<le> cp" "cp < 65536" | "65536 \<le> cp" by linarith
    then show ?thesis
    proof cases
      case 1
      then show ?thesis by (simp add: utf8_bytes_def decode_seq)
    next
      case 2
      then have "decode_at (192 + cp div 64) ((128 + cp mod 64) # rest) = (cp div 64 * 64 + cp mod 64, 2)"
        by (intro decode_seq less_mult_imp_div_less) simp_all
      with 2 show ?thesis by (simp add: utf8_bytes_def)
    next
      case 3
      have "decode_at (224 + cp div 4096) ((128 + cp div 64 mod 64) # (128 + cp mod 64) # rest) =
        ((cp div 4096 * 64 + cp div 64 mod 64) * 64 + cp mod 64, 3)"
        using 3 by (intro decode_seq less_mult_imp_div_less) simp_all
      moreover have "(cp div 4096 * 64 + cp div 64 mod 64) * 64 + cp mod 64 = cp"
        unfolding div64(1) join_6 ..
      ultimately show ?thesis using 3 by (simp add: utf8_bytes_def)
    next
      case 4
      have "decode_at (240 + cp div 262144)
          ((128 + cp div 4096 mod 64) # (128 + cp div 64 mod 64) # (128 + cp mod 64) # rest) =
        (((cp div 262144 * 64 + cp div 4096 mod 64) * 64 + cp div 64 mod 64) * 64 + cp mod 64, 4)"
        using assms by (intro decode_seq less_mult_imp_div_less) (simp_all add: scalar_def)
      moreover have "((cp div 262144 * 64 + cp div 4096 mod 64) * 64 + cp div 64 mod 64) * 64 + cp mod 64 = cp"
        unfolding div64 join_6 ..
      ultimately show ?thesis using 4 by (simp add: utf8_bytes_def)
    qed
  qed
  then obtain c bs where "utf8_bytes cp = c # bs" "decode_at c (bs @ rest) = (cp, Suc (length bs))" by blast
  with assms show ?thesis by simp
qed

text \<open>Encoding round trip. The UTF-8 text of any sequence of Unicode scalar values is turned
  into exactly its UTF-16 text.\<close>

theorem utf8_to_wide_exact:
  assumes "list_all scalar cps" "map byte s = concat (map utf8_bytes cps)"
  shows "utf8_to_wide s = concat (map utf16_units cps)"
proof -
  have "wide_loop (concat (map utf8_bytes cps)) = concat (map utf16_units cps)"
    using assms(1) by (induction cps) (auto simp: wide_loop_char)
  with assms(2) show ?thesis by (simp add: utf8_to_wide_def)
qed


lemma utf8_to_wide_exact_witness:
  "utf8_to_wide (map char_of (concat (map utf8_bytes [83, 233, 8364, 128512]))) = [83, 233, 8364, 55357, 56832]"
proof -
  have "map byte (map char_of (concat (map utf8_bytes [83, 233, 8364, 128512]))) =
    concat (map utf8_bytes [83, 233, 8364, 128512])"
    by (simp add: utf8_bytes_def)
  from utf8_to_wide_exact [OF _ this] show ?thesis by (simp add: scalar_def utf16_units_def)
qed

text \<open>Whatever the bytes of the statement, valid UTF-8 or not, the buffer of \<open>2 * (n + 1)\<close> units is
  never overrun, the terminating 0 included, and the text handed to the driver is well-formed UTF-16.\<close>

theorem utf8_to_wide_safe:
  "length (utf8_to_wide s) + 1 \<le> (length s + 1) * 2 \<and>
   (\<exists>cps. list_all scalar cps \<and> utf8_to_wide s = concat (map utf16_units cps))"
proof -
  have "length (wide_loop bs) \<le> 2 * length bs \<and>
      (\<exists>cps. list_all scalar cps \<and> wide_loop bs = concat (map utf16_units cps))" for bs
  proof (induction bs rule: wide_loop.induct)
    case 1
    then show ?case by (simp add: exI [of _ "[]"])
  next
    case (2 c rest)
    obtain cp len where d: "decode_at c rest = (cp, len)" by (cases "decode_at c rest")
    from "2.IH" [OF d [symmetric]] obtain cps where IH:
      "length (wide_loop (drop (len - 1) rest)) \<le> 2 * length (drop (len - 1) rest)"
      "list_all scalar cps" "wide_loop (drop (len - 1) rest) = concat (map utf16_units cps)" by blast
    have "length (utf16_units x) \<le> 2" for x by (simp add: utf16_units_def)
    with IH(1) have "length (wide_loop (c # rest)) \<le> 2 * length (c # rest)"
      using add_mono [of "length (utf16_units (checked_cp cp))" 2 "length (wide_loop (drop (len - 1) rest))"
          "2 * length rest"] by (simp add: d)
    moreover have "wide_loop (c # rest) = concat (map utf16_units (checked_cp cp # cps))"
      using IH(3) by (simp add: d)
    moreover have "list_all scalar (checked_cp cp # cps)" using IH(2) by simp
    ultimately show ?case by blast
  qed
  from this [of "map byte s"] show ?thesis by (simp add: utf8_to_wide_def)
qed

text \<open>Overlong encodings are not rejected: the two bytes C0 80 give the unit 0, at which the driver,
  called with \<^verbatim>\<open>SQL_NTS\<close>, ends the statement; C0 A7 gives an apostrophe.\<close>

lemma overlong_accepted:
  "utf8_to_wide [CHR ''1'', CHR 0xC0, CHR 0x80, CHR ''2''] = [49, 0, 50]"
  "utf8_to_wide [CHR 0xC0, CHR 0xA7] = [39]"
  by (simp_all add: utf8_to_wide_def byte_def decode_at_def lead_def checked_cp_def utf16_units_def)

end
