(* ===== verification/Cache_Hash.thy ===== *)
theory Cache_Hash
  imports C_Prelude
begin

text \<open>
  The pure part of \<^verbatim>\<open>src/infra/cache.c\<close>: the three 64-bit hashes, the rounding of the
  bucket count to a power of two, and the canonical form of a SQL text used as cache key.
\<close>

unbundle bit_operations_syntax

subsection \<open>Hash functions\<close>

definition u64_of_char :: "char \<Rightarrow> 64 word" where
  "u64_of_char c = of_nat (byte c)"

definition hash_fnv1a :: "cstring \<Rightarrow> 64 word" where
  "hash_fnv1a key =
     foldl (\<lambda>h c. (h XOR u64_of_char c) * 1099511628211) 14695981039346656037 key"

definition hash_djb2 :: "cstring \<Rightarrow> 64 word" where
  "hash_djb2 key = foldl (\<lambda>h c. (push_bit 5 h + h) + u64_of_char c) 5381 key"

definition rotl64 :: "nat \<Rightarrow> 64 word \<Rightarrow> 64 word" where
  "rotl64 r k = push_bit r k OR drop_bit (64 - r) k"

text \<open>\<^verbatim>\<open>memcpy\<close> of eight bytes into a \<^verbatim>\<open>uint64_t\<close> on a little-endian machine; the tail
  of the last \<^verbatim>\<open>len & 7\<close> bytes is assembled in the same order.\<close>

fun le_word :: "cstring \<Rightarrow> 64 word" where
  "le_word [] = 0"
| "le_word (c # cs) = u64_of_char c OR push_bit 8 (le_word cs)"

definition murmur_c1 :: "64 word" where "murmur_c1 = 0x87c37b91114253d5"
definition murmur_c2 :: "64 word" where "murmur_c2 = 0x4cf5ad432745937f"

definition murmur_mix :: "64 word \<Rightarrow> 64 word" where
  "murmur_mix k = rotl64 31 (k * murmur_c1) * murmur_c2"

definition murmur_block :: "64 word \<Rightarrow> cstring \<Rightarrow> 64 word" where
  "murmur_block h b = rotl64 27 (h XOR murmur_mix (le_word b)) * 5 + 0x52dce729"

fun murmur_blocks :: "nat \<Rightarrow> 64 word \<Rightarrow> cstring \<Rightarrow> 64 word" where
  "murmur_blocks 0 h data = h"
| "murmur_blocks (Suc n) h data = murmur_blocks n (murmur_block h (take 8 data)) (drop 8 data)"

definition murmur_final :: "64 word \<Rightarrow> 64 word" where
  "murmur_final h0 =
     (let h = h0 XOR drop_bit 33 h0; h = h * 0xff51afd7ed558ccd;
          h = h XOR drop_bit 33 h; h = h * 0xc4ceb9fe1a85ec53
      in h XOR drop_bit 33 h)"

definition hash_murmur3 :: "cstring \<Rightarrow> 64 word" where
  "hash_murmur3 key =
     (let len = length key; nblocks = len div 8;
          h = murmur_blocks nblocks (0xdeadbeefcafe1234 XOR of_nat len) key;
          tail = drop (nblocks * 8) key;
          h = (if len mod 8 \<noteq> 0 then h XOR murmur_mix (le_word tail) else h)
      in murmur_final (h XOR of_nat len))"

datatype cache_hash_algorithm_t = CACHE_HASH_FNV1A | CACHE_HASH_DJB2 | CACHE_HASH_MURMUR3

fun compute_hash :: "cache_hash_algorithm_t \<Rightarrow> cstring \<Rightarrow> 64 word" where
  "compute_hash CACHE_HASH_DJB2 key = hash_djb2 key"
| "compute_hash CACHE_HASH_MURMUR3 key = hash_murmur3 key"
| "compute_hash CACHE_HASH_FNV1A key = hash_fnv1a key"

text \<open>\<^verbatim>\<open>hash & (bucket_count - 1)\<close>.\<close>

definition bucket_index :: "64 word \<Rightarrow> nat \<Rightarrow> nat" where
  "bucket_index h n = unat (h AND (of_nat n - 1))"

lemma bucket_index_mod: "bucket_index h (2 ^ k) = unat h mod 2 ^ k" if "k < 64"
proof -
  have "(of_nat (2 ^ k) - 1 :: 64 word) = mask k"
    by (simp add: mask_eq_decr_exp)
  then have "bucket_index h (2 ^ k) = unat (take_bit k h)"
    by (simp add: bucket_index_def take_bit_eq_mask)
  also have "unat (take_bit k h) = take_bit k (unat h)" by (rule unsigned_take_bit_eq)
  finally show ?thesis by (simp only: take_bit_eq_mod)
qed

lemma bucket_index_less: "k < 64 \<Longrightarrow> bucket_index h (2 ^ k) < 2 ^ k"
  by (simp add: bucket_index_mod)

subsection \<open>Rounding the bucket count\<close>

text \<open>
  \<^verbatim>\<open>while (pw2 < buckets) pw2 <<= 1;\<close> on \<^verbatim>\<open>size_t\<close>. Past \<open>2 ^ 63\<close> the shift gives 0 and
  the loop never ends: the value \<open>None\<close>.
\<close>

partial_function (option) round_pow2 :: "64 word \<Rightarrow> 64 word \<Rightarrow> 64 word option" where
  "round_pow2 pw2 buckets = (if pw2 < buckets then round_pow2 (push_bit 1 pw2) buckets else Some pw2)"

declare round_pow2.simps [code]

definition bucket_count_of :: "64 word \<Rightarrow> 64 word option" where
  "bucket_count_of requested = round_pow2 1 (if requested = 0 then 1024 else requested)"

subsection \<open>The canonical SQL key\<close>

text \<open>
  \<open>room\<close> is \<^verbatim>\<open>dest_max - 1 - len\<close>, the bytes that still fit before the NUL; a blank is written
  only when another byte would still fit.
\<close>

fun normalize_loop :: "nat \<Rightarrow> bool \<Rightarrow> cstring \<Rightarrow> cstring" where
  "normalize_loop room in_ws [] = []"
| "normalize_loop 0 in_ws (c # s) = []"
| "normalize_loop (Suc room) in_ws (c # s) =
     (if c_isspace c then
        (if \<not> in_ws \<and> 0 < room then CHR '' '' # normalize_loop room True s
         else normalize_loop (Suc room) in_ws s)
      else c_toupper c # normalize_loop room False s)"

definition trim_trailing :: "cstring \<Rightarrow> cstring" where
  "trim_trailing d = (if d \<noteq> [] \<and> last d = CHR '' '' then butlast d else d)"

definition cache_normalize_sql :: "cstring option \<Rightarrow> nat \<Rightarrow> cstring option" where
  "cache_normalize_sql sql dest_max =
     (case sql of
        None \<Rightarrow> None
      | Some s \<Rightarrow>
          if dest_max < 2 then None
          else Some (trim_trailing (normalize_loop (dest_max - 1) True s)))"


subsection \<open>Properties\<close>

lemma unat_p2: "n < 64 \<Longrightarrow> unat (2 ^ n :: 64 word) = 2 ^ n"
proof -
  assume "n < 64"
  then have "(2::nat) ^ n < 2 ^ 64" by (intro power_strict_increasing) auto
  then have "take_bit 64 ((2::nat) ^ n) = 2 ^ n" by (rule take_bit_nat_eq_self)
  then have "unat (of_nat (2 ^ n) :: 64 word) = 2 ^ n" by (simp only: unsigned_of_nat) simp
  then show ?thesis by simp
qed

lemma round_pow2_up:
  assumes "k \<le> 63" "unat n \<le> 2 ^ 63" "0 < k \<longrightarrow> 2 ^ (k - 1) < unat n"
  shows "\<exists>j. round_pow2 (2 ^ k) n = Some (2 ^ j) \<and> j \<le> 63 \<and> unat n \<le> 2 ^ j \<and> (0 < j \<longrightarrow> 2 ^ (j - 1) < unat n)"
  using assms
proof (induction "63 - k" arbitrary: k)
  case 0
  then have k: "k = 63" by simp
  have "unat (2 ^ 63 :: 64 word) = 2 ^ 63" by simp
  with "0.prems" have "\<not> (2 ^ k :: 64 word) < n" unfolding k word_less_nat_alt by simp
  then have "round_pow2 (2 ^ k) n = Some (2 ^ k)" by (simp only: round_pow2.simps [of "2 ^ k"] if_False)
  with "0.prems" show ?case by (intro exI [of _ k]) (simp only: k, simp)
next
  case (Suc m)
  then have k: "k < 63" by simp
  have u: "unat (2 ^ k :: 64 word) = 2 ^ k" using k by (simp add: unat_p2)
  show ?case
  proof (cases "(2 ^ k :: 64 word) < n")
    case False
    then have "unat n \<le> 2 ^ k" using u by (simp add: word_less_nat_alt)
    with False Suc.prems show ?thesis
      by (intro exI [of _ k]) (simp add: round_pow2.simps [of "2 ^ k"])
  next
    case True
    have "push_bit 1 (2 ^ k) = (2 ^ Suc k :: 64 word)" by (simp add: push_bit_eq_mult)
    moreover from True have "2 ^ k < unat n" using u by (simp add: word_less_nat_alt)
    with Suc.hyps(1) [of "Suc k"] Suc.hyps(2) Suc.prems k have
      "\<exists>j. round_pow2 (2 ^ Suc k) n = Some (2 ^ j) \<and> j \<le> 63 \<and> unat n \<le> 2 ^ j \<and> (0 < j \<longrightarrow> 2 ^ (j - 1) < unat n)"
      by simp
    ultimately show ?thesis using True by (simp only: round_pow2.simps [of "2 ^ k"] if_True)
  qed
qed

lemma round_pow2_zero_aux: "round_pow2 a b = Some c \<Longrightarrow> a = 0 \<longrightarrow> b = 0"
proof (rule round_pow2.raw_induct [where P = "\<lambda>a b c. a = 0 \<longrightarrow> b = 0"])
  fix rec :: "64 word \<Rightarrow> 64 word \<Rightarrow> 64 word option" and x y z :: "64 word"
  assume IH: "\<And>x y z. rec x y = Some z \<Longrightarrow> x = 0 \<longrightarrow> y = 0"
    and run: "(if x < y then rec (push_bit 1 x) y else Some x) = Some z"
  show "x = 0 \<longrightarrow> y = (0 :: 64 word)"
  proof (cases "x < y")
    case True
    with run have "rec (push_bit 1 x) y = Some z" by simp
    from IH [OF this] show ?thesis by auto
  next
    case False
    then show ?thesis by (auto simp: word_gt_0)
  qed
qed

lemma round_pow2_zero: "0 < n \<Longrightarrow> round_pow2 0 n = None"
  using round_pow2_zero_aux [of 0 n] by (cases "round_pow2 0 n") auto

lemma round_diverges:
  assumes "\<not> unat n \<le> 2 ^ 63"
  shows "bucket_count_of n = None"
proof -
  have step: "round_pow2 (2 ^ k) n = round_pow2 (2 ^ Suc k) n" if "k \<le> 63" for k
  proof -
    have "unat (2 ^ k :: 64 word) = 2 ^ k" using that by (simp add: unat_p2)
    moreover have "(2::nat) ^ k \<le> 2 ^ 63" using that by (intro power_increasing) auto
    ultimately have "(2 ^ k :: 64 word) < n" using assms by (simp add: word_less_nat_alt)
    moreover have "push_bit 1 (2 ^ k) = (2 ^ Suc k :: 64 word)" by (simp add: push_bit_eq_mult)
    ultimately show ?thesis by (simp only: round_pow2.simps [of "2 ^ k"] if_True)
  qed
  have "round_pow2 (2 ^ 0) n = round_pow2 (2 ^ k) n" if "k \<le> 64" for k
    using that by (induction k) (auto simp only: step Suc_le_mono)
  moreover have "(2 :: 64 word) ^ 64 = 0" by simp
  ultimately have "round_pow2 1 n = round_pow2 0 n" by (metis le_refl power_0)
  moreover have "n \<noteq> 0" using assms by auto
  ultimately show ?thesis using round_pow2_zero [of n] by (simp add: bucket_count_of_def word_gt_0)
qed

text \<open>The bucket count. For any request up to \<open>2 ^ 63\<close> the rounding loop ends with the least
  power of two that is large enough, so that the mask \<open>hash & (count - 1)\<close> always selects an existing
  bucket; a larger request never returns.\<close>

theorem bucket_count_rounded:
  "if unat n \<le> 2 ^ 63 then
     \<exists>k \<le> 63. bucket_count_of n = Some (2 ^ k) \<and> unat n \<le> 2 ^ k \<and>
       (n \<noteq> 0 \<and> 0 < k \<longrightarrow> 2 ^ (k - 1) < unat n) \<and> (\<forall>h. bucket_index h (2 ^ k) < 2 ^ k)
   else bucket_count_of n = None"
proof (cases "unat n \<le> 2 ^ 63")
  case True
  let ?n = "if n = 0 then 1024 else n"
  from True have "unat ?n \<le> 2 ^ 63" by simp
  then obtain j where j: "round_pow2 1 ?n = Some (2 ^ j)" "j \<le> 63" "unat ?n \<le> 2 ^ j"
      "0 < j \<longrightarrow> 2 ^ (j - 1) < unat ?n"
    using round_pow2_up [of 0 ?n] by auto
  then have "bucket_count_of n = Some (2 ^ j)" by (simp add: bucket_count_of_def)
  moreover have "unat n \<le> 2 ^ j" using j(3) by (cases "n = 0") simp_all
  moreover have "n \<noteq> 0 \<and> 0 < j \<longrightarrow> 2 ^ (j - 1) < unat n" using j(4) by auto
  ultimately show ?thesis using True j(2) bucket_index_less by auto
next
  case False
  with round_diverges show ?thesis by simp
qed

lemma bucket_count_rounded_witness: "bucket_count_of 1000 = Some 1024"
proof -
  from bucket_count_rounded [of 1000] obtain k where
    k: "k \<le> 63" "bucket_count_of 1000 = Some (2 ^ k)" "1000 \<le> (2::nat) ^ k"
       "0 < k \<longrightarrow> (2::nat) ^ (k - 1) < 1000"
    by auto
  have "\<not> k \<le> 9" using k(3) power_increasing [of k 9 "2::nat"] by auto
  moreover have "\<not> 11 \<le> k"
  proof
    assume "11 \<le> k"
    then have "10 \<le> k - 1" by simp
    then have "(2::nat) ^ 10 \<le> 2 ^ (k - 1)" by (rule power_increasing) simp
    with k(4) \<open>11 \<le> k\<close> show False by simp
  qed
  ultimately have "k = 10" by simp
  with k(2) show ?thesis by simp
qed

lemma normalize_bound: "length (normalize_loop room in_ws s) \<le> room"
  by (induction room in_ws s rule: normalize_loop.induct) auto

text \<open>The shape of a normalised text: no blank is followed by another, blanks are all spaces.\<close>

fun single_spaced :: "bool \<Rightarrow> cstring \<Rightarrow> bool" where
  "single_spaced in_ws [] = True"
| "single_spaced in_ws (c # s) =
     (if c_isspace c then \<not> in_ws \<and> c = CHR '' '' \<and> single_spaced True s
      else c_toupper c = c \<and> single_spaced False s)"

lemma normalize_shape: "single_spaced in_ws (normalize_loop room in_ws s)"
proof (induction room in_ws s rule: normalize_loop.induct)
  case (3 room in_ws c s)
  then show ?case by (cases in_ws) auto
qed simp_all

lemma normalize_fixed:
  "single_spaced in_ws d \<Longrightarrow> d = [] \<or> last d \<noteq> CHR '' '' \<Longrightarrow> length d \<le> room \<Longrightarrow> normalize_loop room in_ws d = d"
proof (induction in_ws d arbitrary: room rule: single_spaced.induct)
  case (2 in_ws c s)
  from "2.prems"(3) obtain r where r: "room = Suc r" by (cases room) auto
  show ?case
  proof (cases "c_isspace c")
    case True
    with "2.prems" have "s \<noteq> []" by (auto split: if_splits)
    with "2.prems" r have "0 < r" by (cases s) auto
    with True 2 r \<open>s \<noteq> []\<close> show ?thesis by (simp split: if_splits)
  next
    case False
    with 2 r show ?thesis by (cases "s = []") (simp_all split: if_splits)
  qed
qed simp

lemma single_spaced_butlast: "single_spaced in_ws d \<Longrightarrow> single_spaced in_ws (butlast d)"
  by (induction in_ws d rule: single_spaced.induct) auto

lemma trim_last:
  assumes "single_spaced in_ws d" "in_ws \<longrightarrow> d = [] \<or> hd d \<noteq> CHR '' ''"
  shows "trim_trailing d = [] \<or> last (trim_trailing d) \<noteq> CHR '' ''"
proof (cases "d \<noteq> [] \<and> last d = CHR '' ''")
  case True
  then obtain e where d: "d = e @ [CHR '' '']" by (cases d rule: rev_cases) auto
  have "single_spaced in_ws (e @ [CHR '' '']) \<Longrightarrow> e = [] \<or> last e \<noteq> CHR '' ''"
    by (induction in_ws e rule: single_spaced.induct) (auto split: if_splits)
  with assms(1) d show ?thesis by (simp add: trim_trailing_def)
next
  case False
  then show ?thesis by (auto simp: trim_trailing_def)
qed

text \<open>The cache key is a normal form: it fits the buffer with its NUL, and normalising a key
  again, into a buffer at least as large, returns it unchanged.\<close>

theorem cache_normalize_idempotent:
  assumes "cache_normalize_sql (Some s) n = Some d" "n \<le> m"
  shows "length d < n \<and> cache_normalize_sql (Some d) m = Some d"
proof -
  let ?r = "normalize_loop (n - 1) True s"
  from assms have n: "2 \<le> n" and d: "d = trim_trailing ?r"
    by (auto simp: cache_normalize_sql_def not_less split: if_splits)
  have "single_spaced True d"
    using normalize_shape single_spaced_butlast by (simp add: d trim_trailing_def)
  moreover have "d = [] \<or> last d \<noteq> CHR '' ''"
  proof -
    have "?r = [] \<or> hd ?r \<noteq> CHR '' ''"
      using normalize_shape [of True "n - 1" s] by (cases ?r) (auto split: if_splits)
    then show ?thesis unfolding d by (intro trim_last [OF normalize_shape]) blast
  qed
  moreover have len: "length d \<le> n - 1"
    using normalize_bound [of "n - 1" True s] by (auto simp: d trim_trailing_def intro: le_trans [OF diff_le_self])
  ultimately have "normalize_loop (m - 1) True d = d" "trim_trailing d = d"
    using assms(2) by (auto intro!: normalize_fixed simp: trim_trailing_def)
  with len n assms(2) show ?thesis by (simp add: cache_normalize_sql_def)
qed

lemma cache_normalize_idempotent_witness:
  "length ''SELECT 1'' < 40 \<and> cache_normalize_sql (Some ''SELECT 1'') 40 = Some ''SELECT 1''"
proof -
  have "cache_normalize_sql (Some ''  select   1 '') 40 = Some ''SELECT 1''" by code_simp
  from cache_normalize_idempotent [OF this, of 40] show ?thesis by simp
qed

text \<open>The key does not tell literals apart by case: two different queries share it.\<close>

lemma normalize_merges_literals:
  "cache_normalize_sql (Some (''SELECT '' @ [CHR 39] @ ''abc'' @ [CHR 39])) 64 =
   cache_normalize_sql (Some (''SELECT '' @ [CHR 39] @ ''ABC'' @ [CHR 39])) 64"
  by code_simp

end
