(* ===== verification/Cache.thy ===== *)
theory Cache
  imports Cache_Hash "HOL-Library.Multiset"
begin

text \<open>
  The cache of \<^verbatim>\<open>src/infra/cache.c\<close>: a chained hash table whose entries are borrowed by the
  workers (\<open>in_use\<close>). A bucket's chain is the list of its entries, head first; an entry carries its
  heap address, the pointer that \<open>cache_lookup\<close> hands out. Every operation runs under the
  rwlock, so it is one function on the state; the environment's answers (\<^verbatim>\<open>time(NULL)\<close>, the address
  \<^verbatim>\<open>calloc\<close> returns, or its failure, the measured lookup time) are arguments. \<^verbatim>\<open>size_t\<close> and
  \<^verbatim>\<open>uint64_t\<close> counters are \<open>nat\<close>: the invariant shows that none is decremented below 0. \<^verbatim>\<open>time_t\<close>
  is a signed integer. The copies of optional strings (\<^verbatim>\<open>strdup\<close>) are taken to succeed, and
  logging is left out.
\<close>

subsection \<open>State\<close>

record cache_opts =
  opt_ttl_seconds :: int
  opt_pinned :: bool
  opt_row_count :: nat
  opt_json :: "(cstring \<times> nat) option"
  opt_trace :: "cstring option list"
  opt_tag :: "cstring option"

record cache_entry =
  addr :: nat
  hash_key :: "64 word"
  normalized_sql :: cstring
  trace :: "cstring option list"
  output_document :: cstring
  output_length :: nat
  row_count :: nat
  output_json :: "(cstring \<times> nat) option"
  table_dependency_tag :: "cstring option"
  created_ts :: int
  last_access_ts :: int
  expiry_ts :: int
  hit_count :: nat
  in_use :: bool
  pinned :: bool
  entry_memory_bytes :: nat

record cache_stats =
  s_cache_hits :: nat
  s_cache_misses :: nat
  s_eviction_rate :: nat
  s_avg_lookup_us :: nat
  s_peak_entry_size :: nat

record cache =
  buckets :: "cache_entry list list"
  bucket_count :: nat
  entry_count :: nat
  cache_hits :: nat
  cache_misses :: nat
  cache_evictions :: nat
  cache_inserts :: nat
  collision_count :: nat
  max_entries :: nat
  max_memory_bytes :: nat
  ttl_seconds :: int
  enabled :: bool
  current_memory_bytes :: nat
  algorithm :: cache_hash_algorithm_t
  stats :: cache_stats

record cache_config =
  cfg_bucket_count :: "64 word"
  cfg_max_entries :: nat
  cfg_max_memory_bytes :: nat
  cfg_ttl_seconds :: int
  cfg_hash_algorithm :: cache_hash_algorithm_t
  cfg_enabled :: bool

text \<open>\<^verbatim>\<open>sizeof(cache_entry_t)\<close> on a 64-bit machine: 20 words and three flags in an eighth-aligned
  tail word.\<close>

definition SIZEOF_CACHE_ENTRY :: nat where
  "SIZEOF_CACHE_ENTRY = 176"

subsection \<open>Entries\<close>

definition opt_len :: "cstring option \<Rightarrow> nat" where
  "opt_len s = (case s of None \<Rightarrow> 0 | Some t \<Rightarrow> length t + 1)"

definition entry_memory_size :: "cache_entry \<Rightarrow> nat" where
  "entry_memory_size e =
     SIZEOF_CACHE_ENTRY + (length (normalized_sql e) + 1) + (output_length e + 1) +
     (case output_json e of None \<Rightarrow> 0 | Some (j, n) \<Rightarrow> n + 1) + sum_list (map opt_len (trace e))"

definition alloc_entry ::
    "nat \<Rightarrow> cstring \<Rightarrow> cstring \<Rightarrow> nat \<Rightarrow> 64 word \<Rightarrow> int \<Rightarrow> cache_opts option \<Rightarrow> int \<Rightarrow> cache_entry" where
  "alloc_entry a key doc doc_len h ttl opts now =
     (let e = \<lparr>addr = a, hash_key = h, normalized_sql = key,
           trace = (case opts of None \<Rightarrow> [] | Some o1 \<Rightarrow> opt_trace o1),
           output_document = doc, output_length = doc_len,
           row_count = (case opts of None \<Rightarrow> 0 | Some o1 \<Rightarrow> opt_row_count o1),
           output_json = (case opts of None \<Rightarrow> None | Some o1 \<Rightarrow> opt_json o1),
           table_dependency_tag = (case opts of None \<Rightarrow> None | Some o1 \<Rightarrow> opt_tag o1),
           created_ts = now, last_access_ts = now,
           expiry_ts = (if ttl > 0 then now + ttl else 0), hit_count = 0, in_use = False,
           pinned = (case opts of None \<Rightarrow> False | Some o1 \<Rightarrow> opt_pinned o1),
           entry_memory_bytes = 0\<rparr>
      in e\<lparr>entry_memory_bytes := entry_memory_size e\<rparr>)"

subsection \<open>Creation\<close>

definition stats_zero :: cache_stats where
  "stats_zero = \<lparr>s_cache_hits = 0, s_cache_misses = 0, s_eviction_rate = 0, s_avg_lookup_us = 0,
     s_peak_entry_size = 0\<rparr>"

text \<open>\<open>None\<close>: the rounding of the bucket count does not end.\<close>

definition cache_create :: "cache_config \<Rightarrow> cache option" where
  "cache_create cfg =
     map_option (\<lambda>n.
       \<lparr>buckets = replicate (unat n) [], bucket_count = unat n, entry_count = 0,
        cache_hits = 0, cache_misses = 0, cache_evictions = 0, cache_inserts = 0, collision_count = 0,
        max_entries = (if cfg_max_entries cfg > 0 then cfg_max_entries cfg else 10000),
        max_memory_bytes =
          (if cfg_max_memory_bytes cfg > 0 then cfg_max_memory_bytes cfg else 256 * 1024 * 1024),
        ttl_seconds = (if cfg_ttl_seconds cfg > 0 then cfg_ttl_seconds cfg else 300),
        enabled = cfg_enabled cfg, current_memory_bytes = 0, algorithm = cfg_hash_algorithm cfg,
        stats = stats_zero\<rparr>)
       (bucket_count_of (cfg_bucket_count cfg))"

definition bucket_of :: "cache \<Rightarrow> cstring \<Rightarrow> nat" where
  "bucket_of c key = bucket_index (compute_hash (algorithm c) key) (bucket_count c)"

definition all_entries :: "cache \<Rightarrow> cache_entry list" where
  "all_entries c = concat (buckets c)"

text \<open>An entry is the one looked for when hash and key agree.\<close>

definition matches :: "64 word \<Rightarrow> cstring \<Rightarrow> cache_entry \<Rightarrow> bool" where
  "matches h key e \<longleftrightarrow> hash_key e = h \<and> normalized_sql e = key"

subsection \<open>Eviction\<close>

text \<open>
  \<^verbatim>\<open>oldest_access = (time_t)UINT64_MAX\<close>: on a signed 64-bit \<^verbatim>\<open>time_t\<close> the conversion gives -1.
\<close>

definition OLDEST_INIT :: int where
  "OLDEST_INIT = sint (- 1 :: 64 word)"

fun pick_victim :: "int \<Rightarrow> cache_entry option \<Rightarrow> cache_entry list \<Rightarrow> cache_entry option" where
  "pick_victim oldest victim [] = victim"
| "pick_victim oldest victim (e # es) =
     (if \<not> pinned e \<and> \<not> in_use e \<and> last_access_ts e < oldest
      then pick_victim (last_access_ts e) (Some e) es
      else pick_victim oldest victim es)"

definition unlink :: "nat \<Rightarrow> cache_entry list list \<Rightarrow> cache_entry list list" where
  "unlink a bs = map (filter (\<lambda>e. addr e \<noteq> a)) bs"

definition evict_lru_under_lock :: "cache \<Rightarrow> cache option" where
  "evict_lru_under_lock c =
     (case pick_victim OLDEST_INIT None (all_entries c) of
        None \<Rightarrow> None
      | Some v \<Rightarrow>
          Some (c\<lparr>buckets := unlink (addr v) (buckets c),
                  current_memory_bytes := current_memory_bytes c - entry_memory_bytes v,
                  entry_count := entry_count c - 1,
                  cache_evictions := cache_evictions c + 1,
                  stats := (stats c)\<lparr>s_eviction_rate := s_eviction_rate (stats c) + 1\<rparr>\<rparr>))"

lemma pick_victim_mem: "pick_victim o1 v es = Some w \<Longrightarrow> v = Some w \<or> w \<in> set es"
  by (induction o1 v es rule: pick_victim.induct) (auto split: if_splits)

lemma evict_lru_shrinks:
  "evict_lru_under_lock c = Some c' \<Longrightarrow> length (all_entries c') < length (all_entries c)"
proof -
  assume "evict_lru_under_lock c = Some c'"
  then obtain v where v: "pick_victim OLDEST_INIT None (all_entries c) = Some v"
    "buckets c' = unlink (addr v) (buckets c)"
    by (auto simp: evict_lru_under_lock_def split: option.splits)
  then have "v \<in> set (all_entries c)" using pick_victim_mem by blast
  moreover have "all_entries c' = filter (\<lambda>e. addr e \<noteq> addr v) (all_entries c)"
    using v(2) by (simp add: all_entries_def unlink_def filter_concat)
  ultimately show ?thesis by (metis (mono_tags, lifting) length_filter_less)
qed

text \<open>\<^verbatim>\<open>while (over the limit) if (!evict_lru_under_lock(cache)) break;\<close>\<close>

function evict_while :: "(cache \<Rightarrow> bool) \<Rightarrow> cache \<Rightarrow> cache \<times> nat" where
  "evict_while over c =
     (if over c then
        (case evict_lru_under_lock c of
           None \<Rightarrow> (c, 0)
         | Some c' \<Rightarrow> (case evict_while over c' of (d, n) \<Rightarrow> (d, n + 1)))
      else (c, 0))"
  by pat_completeness auto
termination
  by (relation "measure (\<lambda>(over, c). length (all_entries c))") (auto dest: evict_lru_shrinks)

declare evict_while.simps [simp del]

subsection \<open>Insert\<close>

text \<open>What happened to the document handed over; \<open>Doc_Untouched\<close> leaves it to the caller, which frees it.\<close>

datatype doc_fate = Doc_Untouched | Doc_Owned | Doc_Freed

definition insert_memory_estimate :: "cstring \<Rightarrow> nat \<Rightarrow> nat" where
  "insert_memory_estimate key doc_len = SIZEOF_CACHE_ENTRY + length key + 1 + doc_len + 1"

definition effective_ttl :: "cache \<Rightarrow> cache_opts option \<Rightarrow> int" where
  "effective_ttl c opts =
     (case opts of
        None \<Rightarrow> ttl_seconds c
      | Some o1 \<Rightarrow> if opt_ttl_seconds o1 > 0 then opt_ttl_seconds o1 else ttl_seconds c)"

text \<open>The part after the replaced entry has been unlinked.\<close>

definition insert_new ::
    "cache \<Rightarrow> cstring \<Rightarrow> cstring \<Rightarrow> nat \<Rightarrow> cache_opts option \<Rightarrow> int \<Rightarrow> nat option \<Rightarrow>
     int \<times> cache \<times> doc_fate" where
  "insert_new c key doc doc_len opts now mem =
     (let h = compute_hash (algorithm c) key; b = bucket_of c key;
          c1 = fst (evict_while (\<lambda>c. entry_count c \<ge> max_entries c) c);
          c2 = fst (evict_while
                 (\<lambda>c. current_memory_bytes c + insert_memory_estimate key doc_len > max_memory_bytes c) c1)
      in case mem of
           None \<Rightarrow> (-1, c2, Doc_Untouched)
         | Some a \<Rightarrow>
             let e = alloc_entry a key doc doc_len h (effective_ttl c opts) opts now in
             (0, c2\<lparr>buckets := (buckets c2)[b := e # buckets c2 ! b],
                    collision_count := (if buckets c2 ! b \<noteq> [] then collision_count c2 + 1
                                        else collision_count c2),
                    entry_count := entry_count c2 + 1,
                    current_memory_bytes := current_memory_bytes c2 + entry_memory_bytes e,
                    cache_inserts := cache_inserts c2 + 1,
                    stats := (stats c2)\<lparr>s_peak_entry_size :=
                      max (s_peak_entry_size (stats c2)) (entry_memory_bytes e)\<rparr>\<rparr>, Doc_Owned))"

definition cache_insert ::
    "cache \<Rightarrow> cstring option \<Rightarrow> (cstring \<times> nat) option \<Rightarrow> cache_opts option \<Rightarrow> int \<Rightarrow> nat option \<Rightarrow>
     int \<times> cache \<times> doc_fate" where
  "cache_insert c key doc opts now mem =
     (case (key, doc) of
        (Some k, Some (d, dlen)) \<Rightarrow>
          if \<not> enabled c then (0, c, Doc_Freed)
          else
            let h = compute_hash (algorithm c) k; b = bucket_of c k in
            (case find (matches h k) (buckets c ! b) of
               Some e \<Rightarrow>
                 if in_use e then (0, c, Doc_Freed)
                 else insert_new
                        (c\<lparr>buckets := unlink (addr e) (buckets c),
                           current_memory_bytes := current_memory_bytes c - entry_memory_bytes e,
                           entry_count := entry_count c - 1\<rparr>) k d dlen opts now mem
             | None \<Rightarrow> insert_new c k d dlen opts now mem)
      | _ \<Rightarrow> (-1, c, Doc_Untouched))"

subsection \<open>Lookup and release\<close>

definition update_entry :: "nat \<Rightarrow> (cache_entry \<Rightarrow> cache_entry) \<Rightarrow> cache \<Rightarrow> cache" where
  "update_entry a f c = c\<lparr>buckets := map (map (\<lambda>e. if addr e = a then f e else e)) (buckets c)\<rparr>"

definition count_miss :: "cache \<Rightarrow> cache" where
  "count_miss c = c\<lparr>cache_misses := cache_misses c + 1,
     stats := (stats c)\<lparr>s_cache_misses := s_cache_misses (stats c) + 1\<rparr>\<rparr>"

definition count_hit :: "nat \<Rightarrow> cache \<Rightarrow> cache" where
  "count_hit us c =
     (let n = s_cache_hits (stats c) + 1 in
      c\<lparr>cache_hits := cache_hits c + 1,
        stats := (stats c)\<lparr>s_cache_hits := n,
          s_avg_lookup_us := (s_avg_lookup_us (stats c) * (n - 1) + us) div n\<rparr>\<rparr>)"

definition expired :: "int \<Rightarrow> cache_entry \<Rightarrow> bool" where
  "expired now e \<longleftrightarrow> expiry_ts e > 0 \<and> now \<ge> expiry_ts e"

definition cache_lookup :: "cache \<Rightarrow> cstring option \<Rightarrow> int \<Rightarrow> nat \<Rightarrow> cache \<times> cache_entry option" where
  "cache_lookup c key now us =
     (case key of
        None \<Rightarrow> (c, None)
      | Some k \<Rightarrow>
          if \<not> enabled c then (c, None)
          else
            let h = compute_hash (algorithm c) k in
            (case find (matches h k) (buckets c ! bucket_of c k) of
               None \<Rightarrow> (count_miss c, None)
             | Some e \<Rightarrow>
                 if expired now e then (count_miss c, None)
                 else
                   let f = (\<lambda>e. e\<lparr>in_use := True, last_access_ts := now, hit_count := hit_count e + 1\<rparr>)
                   in (count_hit us (update_entry (addr e) f c), Some (f e))))"

text \<open>
  \<open>cache_release\<close> writes through the caller's pointer: \<open>None\<close> when no live entry is at that
  address, a use after free. A NULL pointer is ignored.
\<close>

definition cache_release :: "cache \<Rightarrow> nat option \<Rightarrow> cache option" where
  "cache_release c entry =
     (case entry of
        None \<Rightarrow> Some c
      | Some a \<Rightarrow>
          if a \<in> set (map addr (all_entries c))
          then Some (update_entry a (\<lambda>e. e\<lparr>in_use := False\<rparr>) c)
          else None)"

subsection \<open>Expiry\<close>

definition past_ts :: "int \<Rightarrow> int" where
  "past_ts now = (if now > 0 then now - 1 else 1)"

definition count_eviction :: "nat \<Rightarrow> cache \<Rightarrow> cache" where
  "count_eviction n c = c\<lparr>cache_evictions := cache_evictions c + n,
     stats := (stats c)\<lparr>s_eviction_rate := s_eviction_rate (stats c) + n\<rparr>\<rparr>"

definition cache_expire_entry :: "cache \<Rightarrow> cstring option \<Rightarrow> int \<Rightarrow> int \<times> cache" where
  "cache_expire_entry c key now =
     (case key of
        None \<Rightarrow> (-1, c)
      | Some k \<Rightarrow>
          (case find (matches (compute_hash (algorithm c) k) k) (buckets c ! bucket_of c k) of
             None \<Rightarrow> (1, c)
           | Some e \<Rightarrow>
               (0, count_eviction 1 (update_entry (addr e) (\<lambda>e. e\<lparr>expiry_ts := past_ts now\<rparr>) c))))"

definition tag_hit :: "int \<Rightarrow> cstring \<Rightarrow> cache_entry \<Rightarrow> bool" where
  "tag_hit now tag e \<longleftrightarrow>
     (case table_dependency_tag e of
        None \<Rightarrow> False
      | Some t \<Rightarrow> \<not> (expiry_ts e > 0 \<and> expiry_ts e \<le> now) \<and> c_strstr t tag \<noteq> None)"

definition cache_invalidate_by_tag :: "cache \<Rightarrow> cstring option \<Rightarrow> int \<Rightarrow> int \<times> cache" where
  "cache_invalidate_by_tag c tag now =
     (case tag of
        Some (x # xs) \<Rightarrow>
          let hits = filter (tag_hit now (x # xs)) (all_entries c) in
          (int (length hits),
           count_eviction (length hits)
             (c\<lparr>buckets := map (map (\<lambda>e. if tag_hit now (x # xs) e then e\<lparr>expiry_ts := past_ts now\<rparr> else e))
                              (buckets c)\<rparr>))
      | _ \<Rightarrow> (-1, c))"

definition sweepable :: "int \<Rightarrow> cache_entry \<Rightarrow> bool" where
  "sweepable now e \<longleftrightarrow> expired now e \<and> \<not> pinned e \<and> \<not> in_use e"

definition cache_evict_expired :: "cache \<Rightarrow> int \<Rightarrow> int \<times> cache" where
  "cache_evict_expired c now =
     (let gone = filter (sweepable now) (all_entries c);
          c1 = count_eviction (length gone)
                 (c\<lparr>buckets := map (filter (\<lambda>e. \<not> sweepable now e)) (buckets c),
                    current_memory_bytes := current_memory_bytes c - sum_list (map entry_memory_bytes gone),
                    entry_count := entry_count c - length gone\<rparr>);
          (c2, n) = evict_while (\<lambda>c. current_memory_bytes c > max_memory_bytes c) c1
      in (int (length gone) + int n, c2))"

definition cache_reinitialize :: "cache \<Rightarrow> int \<times> cache" where
  "cache_reinitialize c =
     (let gone = filter (\<lambda>e. \<not> pinned e) (all_entries c) in
      (0, c\<lparr>buckets := map (filter pinned) (buckets c),
            current_memory_bytes := current_memory_bytes c - sum_list (map entry_memory_bytes gone),
            entry_count := entry_count c - length gone,
            cache_hits := 0, cache_misses := 0, cache_evictions := 0, cache_inserts := 0,
            collision_count := 0, stats := stats_zero\<rparr>))"

definition cache_hash_string :: "cache \<Rightarrow> cstring option \<Rightarrow> 64 word" where
  "cache_hash_string c key = (case key of None \<Rightarrow> 0 | Some k \<Rightarrow> compute_hash (algorithm c) k)"

subsection \<open>The invariant\<close>

definition table_wf :: "cache \<Rightarrow> bool" where
  "table_wf c \<longleftrightarrow>
     length (buckets c) = bucket_count c \<and> (\<exists>k \<le> 63. bucket_count c = 2 ^ k) \<and>
     (\<forall>b < bucket_count c. \<forall>e \<in> set (buckets c ! b). bucket_of c (normalized_sql e) = b) \<and>
     (\<forall>e \<in> set (all_entries c). hash_key e = compute_hash (algorithm c) (normalized_sql e)) \<and>
     distinct (map normalized_sql (all_entries c)) \<and> distinct (map addr (all_entries c))"

definition accounts :: "cache \<Rightarrow> bool" where
  "accounts c \<longleftrightarrow>
     entry_count c = length (all_entries c) \<and>
     current_memory_bytes c = sum_list (map entry_memory_bytes (all_entries c))"

definition cache_wf :: "cache \<Rightarrow> bool" where
  "cache_wf c \<longleftrightarrow> table_wf c \<and> accounts c"

text \<open>The entry stored under a key, wherever it is chained.\<close>

definition stored :: "cache \<Rightarrow> cstring \<Rightarrow> cache_entry option" where
  "stored c k = find (\<lambda>e. normalized_sql e = k) (all_entries c)"

lemma table_wf_cong:
  "buckets c = buckets d \<Longrightarrow> bucket_count c = bucket_count d \<Longrightarrow> algorithm c = algorithm d \<Longrightarrow>
     table_wf c = table_wf d"
  by (simp add: table_wf_def bucket_of_def all_entries_def)

lemma in_all_entries: "e \<in> set (all_entries c) \<longleftrightarrow> (\<exists>b < length (buckets c). e \<in> set (buckets c ! b))"
  by (simp add: all_entries_def in_set_conv_nth) (metis in_set_conv_nth nth_mem)

lemma bucket_in_range: "table_wf c \<Longrightarrow> bucket_of c k < length (buckets c)"
  using bucket_index_less unfolding table_wf_def bucket_of_def by fastforce

text \<open>Searching the bucket of a key finds the entry stored under it.\<close>

lemma find_unique:
  assumes "distinct (map f xs)" "x \<in> set xs"
  shows "find (\<lambda>y. f y = f x) xs = Some x"
  using assms by (induction xs) (auto simp: image_iff)

lemma stored_SomeI: "table_wf c \<Longrightarrow> e \<in> set (all_entries c) \<Longrightarrow> stored c (normalized_sql e) = Some e"
  by (simp add: table_wf_def stored_def find_unique)

lemma stored_Some: "stored c k = Some e \<Longrightarrow> e \<in> set (all_entries c) \<and> normalized_sql e = k"
  by (auto simp: stored_def find_Some_iff in_set_conv_nth)

lemma find_in_bucket:
  assumes "table_wf c"
  shows "find (matches (compute_hash (algorithm c) k) k) (buckets c ! bucket_of c k) = stored c k"
proof (cases "stored c k")
  case None
  have "\<not> matches (compute_hash (algorithm c) k) k e" if "e \<in> set (buckets c ! bucket_of c k)" for e
  proof -
    have "e \<in> set (all_entries c)" using that bucket_in_range [OF assms] in_all_entries by blast
    with None show ?thesis by (auto simp: stored_def find_None_iff matches_def)
  qed
  with None show ?thesis by (simp add: find_None_iff)
next
  case (Some e)
  then have e: "e \<in> set (all_entries c)" "normalized_sql e = k" using stored_Some by auto
  then obtain b where b: "b < length (buckets c)" "e \<in> set (buckets c ! b)" using in_all_entries by blast
  with assms e have "b = bucket_of c k" by (auto simp: table_wf_def)
  with b have mem: "e \<in> set (buckets c ! bucket_of c k)" by simp
  have hash: "hash_key e = compute_hash (algorithm c) k" using assms e by (auto simp: table_wf_def)
  have sub: "distinct (map normalized_sql (buckets c ! bucket_of c k))"
    using assms bucket_in_range [OF assms, of k]
    unfolding table_wf_def all_entries_def map_concat by (auto simp: distinct_concat_iff)
  have all: "\<And>x. x \<in> set (buckets c ! bucket_of c k) \<Longrightarrow> x \<in> set (all_entries c)"
    using bucket_in_range [OF assms] in_all_entries by blast
  have "find (matches (compute_hash (algorithm c) k) k) (buckets c ! bucket_of c k) =
      find (\<lambda>y. normalized_sql y = normalized_sql e) (buckets c ! bucket_of c k)"
    by (rule find_cong [OF refl]) (use all assms e(2) in \<open>auto simp: matches_def table_wf_def\<close>)
  with find_unique [OF sub mem] Some show ?thesis by simp
qed

subsection \<open>Removing entries\<close>

lemma all_filter [simp]: "all_entries (c\<lparr>buckets := map (filter P) (buckets c)\<rparr>) = filter P (all_entries c)"
  by (simp add: all_entries_def filter_concat)

lemma table_wf_filter:
  assumes "table_wf c" "buckets d = map (filter P) (buckets c)" "bucket_count d = bucket_count c"
    "algorithm d = algorithm c"
  shows "table_wf d"
proof -
  have "all_entries d = filter P (all_entries c)" using assms(2) by (simp add: all_entries_def filter_concat)
  with assms show ?thesis by (auto simp: table_wf_def bucket_of_def distinct_map inj_on_def)
qed

lemma sum_split:
  fixes f :: "'a \<Rightarrow> nat"
  shows "sum_list (map f (filter P xs)) + sum_list (map f (filter (\<lambda>x. \<not> P x) xs)) = sum_list (map f xs)"
  by (induction xs) auto

lemma length_split: "length (filter P xs) + length (filter (\<lambda>x. \<not> P x) xs) = length xs"
  by (induction xs) auto

text \<open>Every removal of the code: the kept entries, and the totals less those of the others.\<close>

lemma cache_wf_remove:
  assumes "cache_wf c" "buckets d = map (filter P) (buckets c)" "bucket_count d = bucket_count c"
    and "algorithm d = algorithm c" "gone = filter (\<lambda>e. \<not> P e) (all_entries c)"
    and "entry_count d = entry_count c - length gone"
    and "current_memory_bytes d = current_memory_bytes c - sum_list (map entry_memory_bytes gone)"
  shows "cache_wf d"
proof -
  have all: "all_entries d = filter P (all_entries c)" using assms(2) by (simp add: all_entries_def filter_concat)
  from assms(1) have "table_wf c" by (simp add: cache_wf_def)
  then have "table_wf d" by (rule table_wf_filter [OF _ assms(2-4)])
  moreover have "accounts d"
    using assms(1,5,6,7) length_split [of P "all_entries c"] sum_split [of entry_memory_bytes P "all_entries c"]
    unfolding cache_wf_def accounts_def all by (elim conjE, intro conjI; simp)
  ultimately show ?thesis by (simp add: cache_wf_def)
qed

lemma filter_addr:
  assumes "distinct (map addr es)" "e \<in> set es"
  shows "filter (\<lambda>x. \<not> addr x \<noteq> addr e) es = [e]"
  using assms by (induction es) (auto simp: image_iff intro!: filter_False)

lemma cache_wf_unlink:
  assumes "cache_wf c" "e \<in> set (all_entries c)" "buckets d = unlink (addr e) (buckets c)"
    and "bucket_count d = bucket_count c" "algorithm d = algorithm c"
    and "entry_count d = entry_count c - 1"
    and "current_memory_bytes d = current_memory_bytes c - entry_memory_bytes e"
  shows "cache_wf d"
proof (rule cache_wf_remove [OF assms(1)])
  have "filter (\<lambda>x. \<not> addr x \<noteq> addr e) (all_entries c) = [e]"
    using assms(1,2) by (intro filter_addr) (auto simp: cache_wf_def table_wf_def)
  then show "[e] = filter (\<lambda>x. \<not> addr x \<noteq> addr e) (all_entries c)" by simp
qed (use assms in \<open>simp_all add: unlink_def\<close>)

lemma evict_lru_wf:
  assumes "cache_wf c" "evict_lru_under_lock c = Some d"
  shows "cache_wf d"
proof -
  from assms(2) obtain v where v: "pick_victim OLDEST_INIT None (all_entries c) = Some v"
    and d: "d = c\<lparr>buckets := unlink (addr v) (buckets c),
                  current_memory_bytes := current_memory_bytes c - entry_memory_bytes v,
                  entry_count := entry_count c - 1,
                  cache_evictions := cache_evictions c + 1,
                  stats := (stats c)\<lparr>s_eviction_rate := s_eviction_rate (stats c) + 1\<rparr>\<rparr>"
    by (auto simp: evict_lru_under_lock_def split: option.splits)
  from v have "v \<in> set (all_entries c)" using pick_victim_mem by blast
  then show ?thesis by (rule cache_wf_unlink [OF assms(1)]) (simp_all add: d)
qed

lemma evict_while_keeps:
  assumes "P c" "\<And>c c'. P c \<Longrightarrow> evict_lru_under_lock c = Some c' \<Longrightarrow> P c'"
  shows "P (fst (evict_while over c))"
  using assms(1)
proof (induction over c rule: evict_while.induct)
  case (1 over c)
  show ?case
  proof (cases "over c")
    case False
    with 1 show ?thesis by (subst evict_while.simps) simp
  next
    case True
    show ?thesis
    proof (cases "evict_lru_under_lock c")
      case None
      with True 1 show ?thesis by (subst evict_while.simps) simp
    next
      case (Some c')
      with "1.IH" [OF True Some] "1.prems" assms(2) have "P (fst (evict_while over c'))" by blast
      with True Some show ?thesis by (subst evict_while.simps) (simp add: case_prod_beta)
    qed
  qed
qed

lemma evict_while_wf: "cache_wf c \<Longrightarrow> cache_wf (fst (evict_while over c))"
  by (rule evict_while_keeps) (use evict_lru_wf in auto)

text \<open>What eviction leaves alone: the configuration, and every pinned or borrowed entry.\<close>

definition evolves :: "cache \<Rightarrow> cache \<Rightarrow> bool" where
  "evolves c d \<longleftrightarrow>
     bucket_count d = bucket_count c \<and> algorithm d = algorithm c \<and> enabled d = enabled c \<and>
     ttl_seconds d = ttl_seconds c \<and>
     set (all_entries d) \<subseteq> set (all_entries c) \<and>
     (\<forall>e \<in> set (all_entries c). pinned e \<or> in_use e \<longrightarrow> e \<in> set (all_entries d))"

lemma evolves_refl [simp]: "evolves c c"
  by (simp add: evolves_def)

lemma evolves_trans: "evolves b c \<Longrightarrow> evolves c d \<Longrightarrow> evolves b d"
  by (simp add: evolves_def) blast

lemma pick_victim_free: "pick_victim o1 v es = Some w \<Longrightarrow> v = Some w \<or> (\<not> pinned w \<and> \<not> in_use w)"
  by (induction o1 v es rule: pick_victim.induct) (auto split: if_splits)

lemma evict_lru_evolves:
  assumes "cache_wf c" "evict_lru_under_lock c = Some d"
  shows "evolves c d"
proof -
  from assms(2) obtain v where v: "pick_victim OLDEST_INIT None (all_entries c) = Some v"
    "buckets d = unlink (addr v) (buckets c)" "bucket_count d = bucket_count c" "algorithm d = algorithm c"
    "enabled d = enabled c" "ttl_seconds d = ttl_seconds c"
    by (auto simp: evict_lru_under_lock_def split: option.splits)
  then have free: "\<not> pinned v" "\<not> in_use v" "v \<in> set (all_entries c)"
    using pick_victim_free pick_victim_mem by blast+
  have all: "all_entries d = filter (\<lambda>e. addr e \<noteq> addr v) (all_entries c)"
    using v(2) by (simp add: all_entries_def unlink_def filter_concat)
  have "e = v" if "e \<in> set (all_entries c)" "addr e = addr v" for e
    using assms(1) free(3) that by (auto simp: cache_wf_def table_wf_def distinct_map dest: inj_onD)
  with free v all show ?thesis by (auto simp: evolves_def)
qed

lemma evict_while_evolves:
  assumes "cache_wf c"
  shows "evolves c (fst (evict_while over c))"
proof -
  have "cache_wf (fst (evict_while over c)) \<and> evolves c (fst (evict_while over c))"
  proof (rule evict_while_keeps)
    fix d d' assume "cache_wf d \<and> evolves c d" "evict_lru_under_lock d = Some d'"
    then show "cache_wf d' \<and> evolves c d'" using evict_lru_wf evict_lru_evolves evolves_trans by metis
  qed (use assms in simp)
  then show ?thesis ..
qed


subsection \<open>Changing entries in place\<close>

lemma all_map: "buckets d = map (map f) (buckets c) \<Longrightarrow> all_entries d = map f (all_entries c)"
  by (simp add: all_entries_def map_concat)

text \<open>Every update of the code leaves key, hash, address and charge of the entries alone.\<close>

definition keeps_identity :: "(cache_entry \<Rightarrow> cache_entry) \<Rightarrow> bool" where
  "keeps_identity f \<longleftrightarrow> (\<forall>e. normalized_sql (f e) = normalized_sql e \<and> hash_key (f e) = hash_key e \<and>
     addr (f e) = addr e \<and> entry_memory_bytes (f e) = entry_memory_bytes e)"

lemma cache_wf_update:
  assumes "cache_wf c" "buckets d = map (map f) (buckets c)" "bucket_count d = bucket_count c"
    and "algorithm d = algorithm c" "entry_count d = entry_count c"
    and "current_memory_bytes d = current_memory_bytes c" "keeps_identity f"
  shows "cache_wf d"
proof -
  have k: "normalized_sql \<circ> f = normalized_sql" "addr \<circ> f = addr"
    "entry_memory_bytes \<circ> f = entry_memory_bytes"
    using assms(7) by (auto simp: keeps_identity_def fun_eq_iff)
  have "bucket_of d = bucket_of c" using assms(3,4) by (simp add: bucket_of_def fun_eq_iff)
  with assms k show ?thesis
    by (auto simp: cache_wf_def table_wf_def accounts_def all_map [OF assms(2)] keeps_identity_def)
qed

lemma keeps_if: "keeps_identity f \<Longrightarrow> keeps_identity (\<lambda>e. if P e then f e else e)"
  by (simp add: keeps_identity_def)

lemma keeps_updates [simp]:
  "keeps_identity (\<lambda>e. e\<lparr>in_use := u\<rparr>)" "keeps_identity (\<lambda>e. e\<lparr>expiry_ts := t\<rparr>)"
  "keeps_identity (\<lambda>e. e\<lparr>in_use := u, last_access_ts := t, hit_count := g e\<rparr>)"
  by (simp_all add: keeps_identity_def)

subsection \<open>Adding an entry\<close>

lemma all_prepend:
  assumes "b < length (buckets c)" "buckets d = (buckets c)[b := e # buckets c ! b]"
  shows "mset (all_entries d) = add_mset e (mset (all_entries c))"
proof -
  have split: "buckets c = take b (buckets c) @ buckets c ! b # drop (Suc b) (buckets c)"
    using assms(1) by (rule id_take_nth_drop)
  have "buckets d = take b (buckets c) @ (e # buckets c ! b) # drop (Suc b) (buckets c)"
    using assms by (simp add: upd_conv_take_nth_drop)
  then have "mset (all_entries d) = add_mset e (mset (concat (take b (buckets c) @ buckets c ! b # drop (Suc b) (buckets c))))"
    by (simp add: all_entries_def)
  with split show ?thesis by (simp add: all_entries_def)
qed

lemma distinct_map_mset: "mset xs = add_mset e (mset ys) \<Longrightarrow> distinct (map f xs) \<longleftrightarrow> distinct (map f ys) \<and> f e \<notin> f ` set ys"
proof -
  assume "mset xs = add_mset e (mset ys)"
  then have "mset (map f xs) = mset (map f (e # ys))" by simp
  then have "distinct (map f xs) = distinct (map f (e # ys))" by (rule mset_eq_imp_distinct_iff)
  then show ?thesis by auto
qed

lemma cache_wf_prepend:
  assumes wf: "cache_wf c" and b: "b = bucket_of c (normalized_sql e)"
    and d: "buckets d = (buckets c)[b := e # buckets c ! b]" "bucket_count d = bucket_count c"
      "algorithm d = algorithm c" "entry_count d = entry_count c + 1"
      "current_memory_bytes d = current_memory_bytes c + entry_memory_bytes e"
    and new: "stored c (normalized_sql e) = None" "addr e \<notin> addr ` set (all_entries c)"
      "hash_key e = compute_hash (algorithm c) (normalized_sql e)"
  shows "cache_wf d"
proof -
  have t: "table_wf c" using wf by (simp add: cache_wf_def)
  have lt: "b < length (buckets c)" using bucket_in_range [OF t] b by simp
  note ms = all_prepend [OF lt d(1)]
  have set: "set (all_entries d) = insert e (set (all_entries c))"
    using ms by (metis set_mset_add_mset_insert set_mset_mset)
  have bo: "bucket_of d = bucket_of c" using d(2,3) by (simp add: bucket_of_def fun_eq_iff)
  have fresh: "normalized_sql e \<notin> normalized_sql ` set (all_entries c)"
    using new(1) by (auto simp: stored_def find_None_iff)
  have "\<forall>i < bucket_count d. \<forall>x \<in> set (buckets d ! i). bucket_of d (normalized_sql x) = i"
    using t d(1,2) b lt by (auto simp: table_wf_def bo nth_list_update)
  moreover have "distinct (map normalized_sql (all_entries d))" "distinct (map addr (all_entries d))"
    using t fresh new(2) unfolding distinct_map_mset [OF ms] table_wf_def by blast+
  ultimately have "table_wf d" using t d set new(3) by (auto simp: table_wf_def)
  moreover have "accounts d"
  proof -
    have "length (all_entries d) = length (all_entries c) + 1"
      using ms by (metis add.commute plus_1_eq_Suc size_add_mset size_mset)
    moreover have "sum_list (map entry_memory_bytes (all_entries d)) =
        entry_memory_bytes e + sum_list (map entry_memory_bytes (all_entries c))"
      using ms by (metis image_mset_add_mset mset_map sum_mset.add_mset sum_mset_sum_list)
    ultimately show ?thesis using wf d(4,5) by (simp add: cache_wf_def accounts_def)
  qed
  ultimately show ?thesis by (simp add: cache_wf_def)
qed


subsection \<open>Every operation keeps the invariant\<close>

text \<open>\<open>calloc\<close> returns memory that is not in use.\<close>

definition fresh_mem :: "cache \<Rightarrow> nat option \<Rightarrow> bool" where
  "fresh_mem c mem \<longleftrightarrow> (case mem of None \<Rightarrow> True | Some a \<Rightarrow> a \<notin> addr ` set (all_entries c))"

lemma stored_None_evolves: "stored c k = None \<Longrightarrow> evolves c d \<Longrightarrow> stored d k = None"
  by (auto simp: stored_def find_None_iff evolves_def)

lemma alloc_entry_fields [simp]:
  "normalized_sql (alloc_entry a k d l h t opts now) = k" "hash_key (alloc_entry a k d l h t opts now) = h"
  "addr (alloc_entry a k d l h t opts now) = a" "in_use (alloc_entry a k d l h t opts now) = False"
  "output_document (alloc_entry a k d l h t opts now) = d"
  "output_length (alloc_entry a k d l h t opts now) = l"
  "expiry_ts (alloc_entry a k d l h t opts now) = (if t > 0 then now + t else 0)"
  by (simp_all add: alloc_entry_def Let_def)

lemma insert_new_wf:
  assumes "cache_wf c" "stored c k = None" "fresh_mem c mem"
  shows "cache_wf (fst (snd (insert_new c k doc dlen opts now mem)))"
proof -
  define c1 where "c1 = fst (evict_while (\<lambda>c. entry_count c \<ge> max_entries c) c)"
  define c2 where "c2 = fst (evict_while (\<lambda>c. current_memory_bytes c + insert_memory_estimate k dlen
      > max_memory_bytes c) c1)"
  have wf: "cache_wf c1" "cache_wf c2" unfolding c1_def c2_def using assms(1) evict_while_wf by blast+
  have ev: "evolves c c2" unfolding c1_def c2_def
    using evolves_trans evict_while_evolves evict_while_wf assms(1) by blast
  show ?thesis
  proof (cases mem)
    case None
    with wf show ?thesis by (simp add: insert_new_def c1_def [symmetric] c2_def [symmetric] Let_def)
  next
    case (Some a)
    have same: "algorithm c2 = algorithm c" "bucket_of c2 k = bucket_of c k"
      using ev by (simp_all add: evolves_def bucket_of_def)
    show ?thesis
      unfolding insert_new_def c1_def [symmetric] c2_def [symmetric] Let_def Some option.case prod.sel
      by (rule cache_wf_prepend [OF wf(2), where e = "alloc_entry a k doc dlen
              (compute_hash (algorithm c) k) (effective_ttl c opts) opts now" and b = "bucket_of c k"])
         (use assms(3) Some ev same stored_None_evolves [OF assms(2) ev] in
           \<open>auto simp: fresh_mem_def evolves_def\<close>)
  qed
qed

lemma stored_unlink:
  assumes "cache_wf c" "e \<in> set (all_entries c)" "buckets d = unlink (addr e) (buckets c)"
  shows "stored d (normalized_sql e) = None"
proof -
  have "all_entries d = filter (\<lambda>x. addr x \<noteq> addr e) (all_entries c)"
    using assms(3) by (simp add: all_entries_def unlink_def filter_concat)
  moreover have "addr x = addr e" if "x \<in> set (all_entries c)" "normalized_sql x = normalized_sql e" for x
    using assms(1,2) that by (auto simp: cache_wf_def table_wf_def distinct_map dest: inj_onD)
  ultimately show ?thesis by (auto simp: stored_def find_None_iff)
qed

lemma cache_insert_wf:
  assumes "cache_wf c" "fresh_mem c mem"
  shows "cache_wf (fst (snd (cache_insert c key doc opts now mem)))"
proof (cases "key = None \<or> doc = None \<or> \<not> enabled c")
  case True
  with assms show ?thesis by (auto simp: cache_insert_def split: option.splits)
next
  case False
  then obtain k d dlen where k: "key = Some k" "doc = Some (d, dlen)" "enabled c" by auto
  have f: "find (matches (compute_hash (algorithm c) k) k) (buckets c ! bucket_of c k) = stored c k"
    using assms(1) by (intro find_in_bucket) (simp add: cache_wf_def)
  show ?thesis
  proof (cases "stored c k")
    case None
    with k f assms show ?thesis by (simp add: cache_insert_def insert_new_wf)
  next
    case (Some e)
    from stored_Some [OF this] have e: "e \<in> set (all_entries c)" "normalized_sql e = k" by auto
    let ?c' = "c\<lparr>buckets := unlink (addr e) (buckets c),
                 current_memory_bytes := current_memory_bytes c - entry_memory_bytes e,
                 entry_count := entry_count c - 1\<rparr>"
    have wf': "cache_wf ?c'" by (rule cache_wf_unlink [OF assms(1) e(1)]) simp_all
    have "stored ?c' k = None" using stored_unlink [OF assms(1) e(1), of ?c'] e(2) by simp
    moreover have "fresh_mem ?c' mem"
      using assms(2) by (auto simp: fresh_mem_def all_entries_def unlink_def split: option.splits)
    ultimately show ?thesis using k f Some assms(1) insert_new_wf [OF wf'] by (simp add: cache_insert_def Let_def)
  qed
qed

lemma wf_stats [simp]:
  "cache_wf (count_miss c) = cache_wf c" "cache_wf (count_hit us c) = cache_wf c"
  "cache_wf (count_eviction n c) = cache_wf c"
  by (simp_all add: cache_wf_def table_wf_def accounts_def bucket_of_def all_entries_def
      count_miss_def count_hit_def count_eviction_def Let_def)

lemma update_entry_wf: "cache_wf c \<Longrightarrow> keeps_identity f \<Longrightarrow> cache_wf (update_entry a f c)"
  by (rule cache_wf_update [where f = "\<lambda>e. if addr e = a then f e else e"])
     (simp_all add: update_entry_def keeps_if)

lemma cache_lookup_wf: "cache_wf c \<Longrightarrow> cache_wf (fst (cache_lookup c key now us))"
  by (auto simp: cache_lookup_def Let_def update_entry_wf split: option.splits)

lemma cache_release_wf: "cache_wf c \<Longrightarrow> cache_release c a = Some d \<Longrightarrow> cache_wf d"
  by (auto simp: cache_release_def update_entry_wf split: option.splits if_splits)

lemma cache_expire_wf: "cache_wf c \<Longrightarrow> cache_wf (snd (cache_expire_entry c key now))"
  by (auto simp: cache_expire_entry_def update_entry_wf split: option.splits)

lemma cache_invalidate_wf:
  assumes "cache_wf c"
  shows "cache_wf (snd (cache_invalidate_by_tag c tag now))"
proof (cases tag)
  case None
  with assms show ?thesis by (simp add: cache_invalidate_by_tag_def)
next
  case (Some t)
  show ?thesis
  proof (cases t)
    case Nil
    with assms Some show ?thesis by (simp add: cache_invalidate_by_tag_def)
  next
    case (Cons x xs)
    let ?f = "\<lambda>e. if tag_hit now (x # xs) e then e\<lparr>expiry_ts := past_ts now\<rparr> else e"
    have "cache_wf (c\<lparr>buckets := map (map ?f) (buckets c)\<rparr>)"
      by (rule cache_wf_update [OF assms, where f = ?f]) (simp_all add: keeps_if)
    with Some Cons show ?thesis by (simp add: cache_invalidate_by_tag_def Let_def)
  qed
qed

lemma cache_evict_wf:
  assumes "cache_wf c"
  shows "cache_wf (snd (cache_evict_expired c now))"
proof -
  let ?gone = "filter (sweepable now) (all_entries c)"
  let ?c1 = "c\<lparr>buckets := map (filter (\<lambda>e. \<not> sweepable now e)) (buckets c),
      current_memory_bytes := current_memory_bytes c - sum_list (map entry_memory_bytes ?gone),
      entry_count := entry_count c - length ?gone\<rparr>"
  have "cache_wf ?c1" by (rule cache_wf_remove [OF assms, where P = "\<lambda>e. \<not> sweepable now e"]) simp_all
  then have "cache_wf (fst (evict_while over (count_eviction (length ?gone) ?c1)))" for over
    by (intro evict_while_wf) simp
  then show ?thesis by (simp add: cache_evict_expired_def Let_def case_prod_beta)
qed

lemma cache_reinit_wf: "cache_wf c \<Longrightarrow> cache_wf (snd (cache_reinitialize c))"
  by (rule cache_wf_remove [where P = pinned]) (simp_all add: cache_reinitialize_def Let_def)

lemma cache_create_wf: "cache_create cfg = Some c \<Longrightarrow> cache_wf c"
proof -
  assume "cache_create cfg = Some c"
  then obtain n where n: "bucket_count_of (cfg_bucket_count cfg) = Some n"
    "buckets c = replicate (unat n) []" "bucket_count c = unat n" "entry_count c = 0"
    "current_memory_bytes c = 0" by (auto simp: cache_create_def)
  obtain k where k: "k \<le> 63" "n = 2 ^ k"
  proof -
    let ?n = "if cfg_bucket_count cfg = 0 then 1024 else cfg_bucket_count cfg"
    have "unat ?n \<le> 2 ^ 63"
    proof (rule ccontr)
      assume "\<not> unat ?n \<le> 2 ^ 63"
      then have "bucket_count_of ?n = None" by (rule round_diverges)
      with n(1) show False by (cases "cfg_bucket_count cfg = 0") (simp_all add: bucket_count_of_def)
    qed
    then obtain j where "round_pow2 1 ?n = Some (2 ^ j)" "j \<le> 63"
      using round_pow2_up [of 0 ?n] by auto
    with n(1) that show thesis by (auto simp: bucket_count_of_def)
  qed
  then have "unat n = 2 ^ k" using unat_p2 [of k] by simp
  with n k show "cache_wf c"
    by (auto simp: cache_wf_def table_wf_def accounts_def all_entries_def)
qed

end
