(* ===== verification/Cache_Runs.thy ===== *)
theory Cache_Runs
  imports Cache
begin

text \<open>
  Runs of the cache: the states the operations reach from a created cache, what a lookup returns after
  an insert, why a borrowed pointer stays valid, what invalidation by table does, and the two limits
  of the code (no LRU victim is ever found; the borrow flag does not count holders).
\<close>

subsection \<open>Runs\<close>

text \<open>
  One operation of any worker. \<open>cache_step\<close> leaves out \<open>cache_reinitialize\<close> and the release of
  the entry at address \<open>a\<close>; \<open>cache_reachable\<close> has everything.
\<close>

inductive cache_step :: "nat \<Rightarrow> cache \<Rightarrow> cache \<Rightarrow> bool" for a :: nat where
  insert: "fresh_mem c mem \<Longrightarrow> cache_insert c key doc opts now mem = (rc, d, fate) \<Longrightarrow> cache_step a c d"
| lookup: "cache_lookup c key now us = (d, r) \<Longrightarrow> cache_step a c d"
| release: "cache_release c b = Some d \<Longrightarrow> b \<noteq> Some a \<Longrightarrow> cache_step a c d"
| expire: "cache_expire_entry c key now = (rc, d) \<Longrightarrow> cache_step a c d"
| invalidate: "cache_invalidate_by_tag c tag now = (rc, d) \<Longrightarrow> cache_step a c d"
| evict: "cache_evict_expired c now = (rc, d) \<Longrightarrow> cache_step a c d"

inductive_cases cache_stepE: "cache_step a c d"

inductive cache_reachable :: "cache_config \<Rightarrow> cache \<Rightarrow> bool" for cfg :: cache_config where
  create: "cache_create cfg = Some c \<Longrightarrow> cache_reachable cfg c"
| step: "cache_reachable cfg c \<Longrightarrow> cache_step a c d \<Longrightarrow> cache_reachable cfg d"
| release_own: "cache_reachable cfg c \<Longrightarrow> cache_release c b = Some d \<Longrightarrow> cache_reachable cfg d"
| reinit: "cache_reachable cfg c \<Longrightarrow> cache_reachable cfg (snd (cache_reinitialize c))"

lemma cache_step_wf: "cache_step a c d \<Longrightarrow> cache_wf c \<Longrightarrow> cache_wf d"
proof (induction rule: cache_step.induct)
  case (insert c mem key doc opts now rc d fate)
  with cache_insert_wf [of c mem key doc opts now] show ?case by simp
next
  case (lookup c key now us d r)
  with cache_lookup_wf [of c key now us] show ?case by simp
next
  case (release c b d)
  then show ?case using cache_release_wf by blast
next
  case (expire c key now rc d)
  with cache_expire_wf [of c key now] show ?case by simp
next
  case (invalidate c tag now rc d)
  with cache_invalidate_wf [of c tag now] show ?case by simp
next
  case (evict c now rc d)
  with cache_evict_wf [of c now] show ?case by simp
qed

lemma cache_reachable_wf: "cache_reachable cfg c \<Longrightarrow> cache_wf c"
  by (induction rule: cache_reachable.induct)
     (auto intro: cache_create_wf cache_step_wf cache_release_wf cache_reinit_wf)

text \<open>C27. The table and its accounts. In every state a run of the operations reaches, the entry
  count is the number of entries chained, the memory figure is the sum of their charges (so no
  subtraction of the code ever passes below 0), no key is stored twice, and the entry of any key is
  found by searching the one bucket its hash selects.\<close>

theorem cache_accounts_exact:
  assumes "cache_reachable cfg c"
  shows "entry_count c = length (all_entries c) \<and>
    current_memory_bytes c = sum_list (map entry_memory_bytes (all_entries c)) \<and>
    distinct (map normalized_sql (all_entries c)) \<and> distinct (map addr (all_entries c)) \<and>
    bucket_of c k < length (buckets c) \<and>
    find (matches (compute_hash (algorithm c) k) k) (buckets c ! bucket_of c k) = stored c k"
proof -
  from cache_reachable_wf [OF assms] have "table_wf c" "accounts c" by (simp_all add: cache_wf_def)
  then show ?thesis using find_in_bucket bucket_in_range by (simp add: accounts_def table_wf_def)
qed

subsection \<open>Insert and lookup\<close>

lemma find_stored:
  "cache_wf c \<Longrightarrow> find (matches (compute_hash (algorithm c) k) k) (buckets c ! bucket_of c k) = stored c k"
  by (rule find_in_bucket) (simp add: cache_wf_def)

lemma lookup_stored:
  "cache_wf c \<Longrightarrow> enabled c \<Longrightarrow> snd (cache_lookup c (Some k) now us) =
     (case stored c k of None \<Rightarrow> None
      | Some e \<Rightarrow> if expired now e then None
               else Some (e\<lparr>in_use := True, last_access_ts := now, hit_count := hit_count e + 1\<rparr>))"
  by (simp add: cache_lookup_def find_stored Let_def split: option.splits)

lemma insert_new_result:
  assumes "cache_wf c" "stored c k = None" "a \<notin> addr ` set (all_entries c)"
    and "insert_new c k doc dlen opts now (Some a) = (rc, d, fate)"
  shows "rc = 0 \<and> fate = Doc_Owned \<and> enabled d = enabled c \<and> ttl_seconds d = ttl_seconds c \<and>
    stored d k = Some (alloc_entry a k doc dlen (compute_hash (algorithm c) k) (effective_ttl c opts) opts now) \<and>
    (\<forall>e \<in> set (all_entries c). pinned e \<or> in_use e \<longrightarrow> e \<in> set (all_entries d))"
proof -
  define c1 where "c1 = fst (evict_while (\<lambda>c. entry_count c \<ge> max_entries c) c)"
  define c2 where "c2 = fst (evict_while (\<lambda>c. current_memory_bytes c + insert_memory_estimate k dlen
      > max_memory_bytes c) c1)"
  let ?e = "alloc_entry a k doc dlen (compute_hash (algorithm c) k) (effective_ttl c opts) opts now"
  have wf: "cache_wf c1" "cache_wf c2" unfolding c1_def c2_def using assms(1) evict_while_wf by blast+
  have ev: "evolves c c2" unfolding c1_def c2_def
    using evolves_trans evict_while_evolves evict_while_wf assms(1) by blast
  have wfd: "cache_wf d"
    using insert_new_wf [OF assms(1,2), of "Some a" doc dlen opts now] assms(3,4) by (simp add: fresh_mem_def)
  have d: "rc = 0" "fate = Doc_Owned" "enabled d = enabled c2" "ttl_seconds d = ttl_seconds c2"
    "buckets d = (buckets c2)[bucket_of c k := ?e # buckets c2 ! bucket_of c k]"
    using assms(4) unfolding insert_new_def c1_def [symmetric] c2_def [symmetric] Let_def by auto
  have "table_wf c2" using wf by (simp add: cache_wf_def)
  then have lt: "bucket_of c k < length (buckets c2)"
    using bucket_in_range [of c2 k] ev by (simp add: evolves_def bucket_of_def)
  have set: "set (all_entries d) = insert ?e (set (all_entries c2))"
    using all_prepend [OF lt d(5)] by (metis set_mset_add_mset_insert set_mset_mset)
  then have "stored d k = Some ?e"
    using stored_SomeI [of d ?e] wfd by (simp add: cache_wf_def)
  with d ev set show ?thesis by (auto simp: evolves_def)
qed

lemma cache_insert_result:
  assumes "cache_wf c" "enabled c" "\<forall>e. stored c k = Some e \<longrightarrow> \<not> in_use e"
    and "a \<notin> addr ` set (all_entries c)"
    and "cache_insert c (Some k) (Some (doc, dlen)) opts now (Some a) = (rc, d, fate)"
  shows "rc = 0 \<and> fate = Doc_Owned \<and> enabled d \<and>
    stored d k = Some (alloc_entry a k doc dlen (compute_hash (algorithm c) k) (effective_ttl c opts) opts now) \<and>
    (\<forall>e \<in> set (all_entries c). normalized_sql e \<noteq> k \<and> (pinned e \<or> in_use e) \<longrightarrow> e \<in> set (all_entries d))"
proof (cases "stored c k")
  case None
  with assms have "insert_new c k doc dlen opts now (Some a) = (rc, d, fate)"
    by (simp add: cache_insert_def find_stored)
  from insert_new_result [OF assms(1) None assms(4) this] assms(2) show ?thesis by auto
next
  case (Some e)
  from stored_Some [OF this] have e: "e \<in> set (all_entries c)" "normalized_sql e = k" by auto
  let ?c' = "c\<lparr>buckets := unlink (addr e) (buckets c),
               current_memory_bytes := current_memory_bytes c - entry_memory_bytes e,
               entry_count := entry_count c - 1\<rparr>"
  have wf': "cache_wf ?c'" by (rule cache_wf_unlink [OF assms(1) e(1)]) simp_all
  have none: "stored ?c' k = None" using stored_unlink [OF assms(1) e(1), of ?c'] e(2) by simp
  have all: "all_entries ?c' = filter (\<lambda>x. addr x \<noteq> addr e) (all_entries c)"
    by (simp add: all_entries_def unlink_def filter_concat)
  have "insert_new ?c' k doc dlen opts now (Some a) = (rc, d, fate)"
    using assms(2,3,5) Some by (simp add: cache_insert_def find_stored [OF assms(1)] Let_def)
  moreover have "effective_ttl ?c' opts = effective_ttl c opts"
    by (cases opts) (simp_all add: effective_ttl_def)
  moreover have "a \<notin> addr ` set (all_entries ?c')" using assms(4) all by auto
  ultimately have r: "rc = 0 \<and> fate = Doc_Owned \<and> enabled d \<and>
    stored d k = Some (alloc_entry a k doc dlen (compute_hash (algorithm c) k) (effective_ttl c opts) opts now) \<and>
    (\<forall>e \<in> set (all_entries ?c'). pinned e \<or> in_use e \<longrightarrow> e \<in> set (all_entries d))"
    using insert_new_result [OF wf' none, of a doc dlen opts now rc d fate] assms(2) by simp
  have "addr x \<noteq> addr e" if "x \<in> set (all_entries c)" "normalized_sql x \<noteq> k" for x
    using assms(1) e that by (auto simp: cache_wf_def table_wf_def distinct_map dest: inj_onD)
  with r all show ?thesis by auto
qed

text \<open>What was inserted is what is found. Inserting under a key whose entry no worker holds
  succeeds, hands the document to the cache, and until the entry's time to live has passed a lookup
  of the key returns that document, marked as borrowed; pinned and borrowed entries of other keys
  are still stored, unchanged.\<close>

theorem cache_lookup_after_insert:
  assumes "cache_reachable cfg c" "enabled c" "\<forall>e. stored c k = Some e \<longrightarrow> \<not> in_use e"
    and "a \<notin> addr ` set (all_entries c)"
    and "cache_insert c (Some k) (Some (doc, dlen)) opts now (Some a) = (rc, d, fate)"
    and "0 < effective_ttl c opts" "later < now + effective_ttl c opts"
    and "cache_lookup d (Some k) later us = (d', r)"
  shows "rc = 0 \<and> fate = Doc_Owned \<and>
    (\<exists>e. r = Some e \<and> output_document e = doc \<and> output_length e = dlen \<and> in_use e \<and> addr e = a) \<and>
    (\<forall>k' e. k' \<noteq> k \<and> stored c k' = Some e \<and> (pinned e \<or> in_use e) \<longrightarrow> stored d k' = Some e)"
proof -
  note wf = cache_reachable_wf [OF assms(1)]
  note ins = cache_insert_result [OF wf assms(2,3,4,5)]
  have wfd: "cache_wf d" using cache_insert_wf [OF wf, of "Some a" "Some k" "Some (doc, dlen)" opts now] assms(4,5)
    by (simp add: fresh_mem_def)
  have "\<not> expired later (alloc_entry a k doc dlen (compute_hash (algorithm c) k) (effective_ttl c opts) opts now)"
    using assms(6,7) by (simp add: expired_def)
  with ins lookup_stored [OF wfd, of k later us] assms(8)
  have "\<exists>e. r = Some e \<and> output_document e = doc \<and> output_length e = dlen \<and> in_use e \<and> addr e = a"
    by (auto simp: alloc_entry_def Let_def)
  moreover have "stored d k' = Some e" if "k' \<noteq> k" "stored c k' = Some e" "pinned e \<or> in_use e" for k' e
  proof -
    from stored_Some [OF that(2)] have "e \<in> set (all_entries c)" "normalized_sql e = k'" by auto
    with that ins have "e \<in> set (all_entries d)" by auto
    with stored_SomeI [of d e] wfd \<open>normalized_sql e = k'\<close> show ?thesis by (simp add: cache_wf_def)
  qed
  ultimately show ?thesis using ins by blast
qed


text \<open>The empty one-bucket cache of the witnesses.\<close>

definition tiny_config :: cache_config where
  "tiny_config = \<lparr>cfg_bucket_count = 1, cfg_max_entries = 1, cfg_max_memory_bytes = 1000, cfg_ttl_seconds = 60,
     cfg_hash_algorithm = CACHE_HASH_DJB2, cfg_enabled = True\<rparr>"

definition tiny :: cache where
  "tiny = \<lparr>buckets = [[]], bucket_count = 1, entry_count = 0, cache_hits = 0, cache_misses = 0,
     cache_evictions = 0, cache_inserts = 0, collision_count = 0, max_entries = 1, max_memory_bytes = 1000,
     ttl_seconds = 60, enabled = True, current_memory_bytes = 0, algorithm = CACHE_HASH_DJB2,
     stats = stats_zero\<rparr>"

lemma tiny_created: "cache_create tiny_config = Some tiny"
proof -
  have "bucket_count_of 1 = Some 1" by (simp add: bucket_count_of_def round_pow2.simps)
  then show ?thesis by (simp add: cache_create_def tiny_config_def tiny_def)
qed

lemma tiny_reachable: "cache_reachable tiny_config tiny"
  by (rule cache_reachable.create) (rule tiny_created)

lemma cache_accounts_exact_witness:
  "entry_count tiny = length (all_entries tiny) \<and> bucket_of tiny ''K'' < 1"
  using cache_accounts_exact [OF tiny_reachable, of "''K''"] by (simp add: tiny_def)

lemma cache_lookup_after_insert_witness:
  "\<exists>e. snd (cache_lookup (fst (snd (cache_insert tiny (Some ''K'') (Some (''V'', 1)) None 100 (Some 7)))) (Some ''K'') 159 3)
     = Some e \<and> output_document e = ''V'' \<and> addr e = 7"
proof -
  obtain rc d fate where i: "cache_insert tiny (Some ''K'') (Some (''V'', 1)) None 100 (Some 7) = (rc, d, fate)"
    by (metis prod_cases3)
  obtain d' r where l: "cache_lookup d (Some ''K'') 159 3 = (d', r)" by (cases "cache_lookup d (Some ''K'') 159 3")
  have t: "enabled tiny" "stored tiny k = None" "all_entries tiny = []" "effective_ttl tiny None = 60" for k
    by (simp_all add: tiny_def stored_def all_entries_def effective_ttl_def)
  show ?thesis using cache_lookup_after_insert [OF tiny_reachable _ _ _ i _ _ l] t i l by auto
qed

subsection \<open>Borrowed entries\<close>

text \<open>What the holder of a borrowed pointer relies on: the entry at its address is still there, still
  marked, with the same document.\<close>

definition held :: "nat \<Rightarrow> cstring \<Rightarrow> cache \<Rightarrow> bool" where
  "held a doc c \<longleftrightarrow> (\<exists>e \<in> set (all_entries c). addr e = a \<and> in_use e \<and> output_document e = doc)"

lemma held_evolves: "held a doc c \<Longrightarrow> evolves c d \<Longrightarrow> held a doc d"
  by (auto simp: held_def evolves_def)

lemma held_update:
  assumes "held a doc c" "buckets d = map (map f) (buckets c)"
    and "\<And>e. addr e = a \<Longrightarrow> in_use e \<Longrightarrow> addr (f e) = a \<and> in_use (f e) \<and> output_document (f e) = output_document e"
  shows "held a doc d"
proof -
  from assms(1) obtain e where "e \<in> set (all_entries c)" "addr e = a" "in_use e" "output_document e = doc"
    by (auto simp: held_def)
  moreover from this have "f e \<in> set (all_entries d)" by (simp add: all_map [OF assms(2)])
  ultimately show ?thesis using assms(3) [of e] unfolding held_def by auto
qed

lemma held_update_entry:
  "held a doc c \<Longrightarrow> (\<And>e. addr e = a \<Longrightarrow> in_use e \<Longrightarrow>
      addr (f e) = a \<and> (in_use (f e) \<or> b \<noteq> a) \<and> output_document (f e) = output_document e) \<Longrightarrow>
    held a doc (update_entry b f c)"
  by (rule held_update [where c = c and f = "\<lambda>e. if addr e = b then f e else e"])
     (auto simp: update_entry_def)

lemma held_stats [simp]:
  "held a doc (count_miss c) = held a doc c" "held a doc (count_hit us c) = held a doc c"
  "held a doc (count_eviction n c) = held a doc c"
  by (simp_all add: held_def all_entries_def count_miss_def count_hit_def count_eviction_def Let_def)

lemma held_insert_new:
  assumes "cache_wf c" "held a doc c"
  shows "held a doc (fst (snd (insert_new c k v l opts now mem)))"
proof -
  define c1 where "c1 = fst (evict_while (\<lambda>c. entry_count c \<ge> max_entries c) c)"
  define c2 where "c2 = fst (evict_while (\<lambda>c. current_memory_bytes c + insert_memory_estimate k l
      > max_memory_bytes c) c1)"
  have wf: "cache_wf c1" "cache_wf c2" unfolding c1_def c2_def using assms(1) evict_while_wf by blast+
  have ev: "evolves c c2" unfolding c1_def c2_def
    using evolves_trans evict_while_evolves evict_while_wf assms(1) by blast
  then have h: "held a doc c2" by (rule held_evolves [OF assms(2)])
  have lt: "bucket_of c k < length (buckets c2)"
    using bucket_in_range [of c2 k] wf(2) ev by (simp add: cache_wf_def evolves_def bucket_of_def)
  show ?thesis
  proof (cases mem)
    case None
    with h show ?thesis by (simp add: insert_new_def c1_def [symmetric] c2_def [symmetric] Let_def)
  next
    case (Some m)
    define d where "d = fst (snd (insert_new c k v l opts now mem))"
    have "\<exists>e. buckets d = (buckets c2)[bucket_of c k := e # buckets c2 ! bucket_of c k]"
      unfolding d_def insert_new_def c1_def [symmetric] c2_def [symmetric] Let_def Some by simp blast
    then obtain e where "buckets d = (buckets c2)[bucket_of c k := e # buckets c2 ! bucket_of c k]" by blast
    from all_prepend [OF lt this] have "set (all_entries c2) \<subseteq> set (all_entries d)"
      by (metis set_mset_add_mset_insert set_mset_mset subset_insertI)
    with h show ?thesis by (auto simp: held_def d_def)
  qed
qed

lemma held_insert:
  assumes "cache_wf c" "held a doc c"
  shows "held a doc (fst (snd (cache_insert c key v opts now mem)))"
proof (cases "key = None \<or> v = None \<or> \<not> enabled c")
  case True
  with assms show ?thesis by (auto simp: cache_insert_def split: option.splits)
next
  case False
  then obtain k x l where k: "key = Some k" "v = Some (x, l)" "enabled c" by auto
  show ?thesis
  proof (cases "stored c k")
    case None
    with k assms show ?thesis by (simp add: cache_insert_def find_stored held_insert_new)
  next
    case (Some e)
    show ?thesis
    proof (cases "in_use e")
      case True
      with k assms Some show ?thesis by (simp add: cache_insert_def find_stored Let_def)
    next
      case False
      from stored_Some [OF Some] have e: "e \<in> set (all_entries c)" by auto
      let ?c' = "c\<lparr>buckets := unlink (addr e) (buckets c),
                   current_memory_bytes := current_memory_bytes c - entry_memory_bytes e,
                   entry_count := entry_count c - 1\<rparr>"
      have wf': "cache_wf ?c'" by (rule cache_wf_unlink [OF assms(1) e]) simp_all
      have all: "all_entries ?c' = filter (\<lambda>x. addr x \<noteq> addr e) (all_entries c)"
        by (simp add: all_entries_def unlink_def filter_concat)
      from assms(2) obtain h where h: "h \<in> set (all_entries c)" "addr h = a" "in_use h" "output_document h = doc"
        by (auto simp: held_def)
      have "addr h \<noteq> addr e"
        using assms(1) e h False by (auto simp: cache_wf_def table_wf_def distinct_map dest: inj_onD)
      with h all have "held a doc ?c'" by (auto simp: held_def)
      from held_insert_new [OF wf' this] k Some False show ?thesis
        by (simp add: cache_insert_def find_stored [OF assms(1)] Let_def)
    qed
  qed
qed

lemma held_step:
  assumes "cache_step a c d" "cache_wf c" "held a doc c"
  shows "held a doc d"
  using assms
proof (induction rule: cache_step.induct)
  case (insert c mem key v opts now rc d fate)
  with held_insert [of c a doc key v opts now mem] show ?case by simp
next
  case (lookup c key now us d r)
  then show ?case
    by (auto simp: cache_lookup_def Let_def split: option.splits if_splits intro!: held_update_entry)
next
  case (release c b d)
  then show ?case
    by (auto simp: cache_release_def split: option.splits if_splits intro!: held_update_entry)
next
  case (expire c key now rc d)
  then show ?case
    by (auto simp: cache_expire_entry_def split: option.splits intro!: held_update_entry)
next
  case (invalidate c tag now rc d)
  show ?case
  proof (cases "tag = None \<or> tag = Some []")
    case True
    with invalidate show ?thesis by (auto simp: cache_invalidate_by_tag_def)
  next
    case False
    then obtain x xs where t: "tag = Some (x # xs)" by (metis list.exhaust not_None_eq)
    let ?f = "\<lambda>e. if tag_hit now (x # xs) e then e\<lparr>expiry_ts := past_ts now\<rparr> else e"
    have "held a doc (c\<lparr>buckets := map (map ?f) (buckets c)\<rparr>)"
      by (rule held_update [OF invalidate(3), where f = ?f]) auto
    with invalidate(1) t show ?thesis by (auto simp: cache_invalidate_by_tag_def Let_def)
  qed
next
  case (evict c now rc d)
  let ?gone = "filter (sweepable now) (all_entries c)"
  let ?c1 = "c\<lparr>buckets := map (filter (\<lambda>e. \<not> sweepable now e)) (buckets c),
      current_memory_bytes := current_memory_bytes c - sum_list (map entry_memory_bytes ?gone),
      entry_count := entry_count c - length ?gone\<rparr>"
  have wf: "cache_wf ?c1"
    by (rule cache_wf_remove [OF evict(2), where P = "\<lambda>e. \<not> sweepable now e"]) simp_all
  have "all_entries ?c1 = filter (\<lambda>e. \<not> sweepable now e) (all_entries c)"
    by (simp add: all_entries_def filter_concat)
  with evict(3) have "held a doc ?c1" by (auto simp: held_def sweepable_def)
  then have "held a doc (count_eviction (length ?gone) ?c1)" by simp
  with wf have "held a doc (fst (evict_while over (count_eviction (length ?gone) ?c1)))" for over
    by (intro held_evolves [OF _ evict_while_evolves]) simp_all
  moreover have "snd (cache_evict_expired c now) = fst (evict_while
      (\<lambda>c. current_memory_bytes c > max_memory_bytes c) (count_eviction (length ?gone) ?c1))"
    by (simp add: cache_evict_expired_def Let_def case_prod_beta)
  moreover have "d = snd (cache_evict_expired c now)" using evict(1) by simp
  ultimately show ?case by simp
qed



text \<open>The state after one insert into the empty cache.\<close>

definition tiny1 :: cache where
  "tiny1 = fst (snd (cache_insert tiny (Some ''K'') (Some (''V'', 1)) None 100 (Some 7)))"

lemma tiny1_facts:
  "cache_reachable tiny_config tiny1" "enabled tiny1"
  "stored tiny1 ''K'' = Some (alloc_entry 7 ''K'' ''V'' 1 (compute_hash CACHE_HASH_DJB2 ''K'') 60 None 100)"
proof -
  obtain rc d fate where i: "cache_insert tiny (Some ''K'') (Some (''V'', 1)) None 100 (Some 7) = (rc, d, fate)"
    by (metis prod_cases3)
  have t: "enabled tiny" "stored tiny k = None" "all_entries tiny = []" "effective_ttl tiny None = 60"
    "algorithm tiny = CACHE_HASH_DJB2" for k
    by (simp_all add: tiny_def stored_def all_entries_def effective_ttl_def)
  have d: "d = tiny1" using i by (simp add: tiny1_def)
  have "cache_step 0 tiny d" by (rule cache_step.insert [OF _ i]) (simp add: fresh_mem_def t)
  then show "cache_reachable tiny_config tiny1"
    unfolding d by (rule cache_reachable.step [OF tiny_reachable])
  from cache_insert_result [OF cache_reachable_wf [OF tiny_reachable] _ _ _ i] t d
  show "enabled tiny1" "stored tiny1 ''K'' = Some (alloc_entry 7 ''K'' ''V'' 1 (compute_hash CACHE_HASH_DJB2 ''K'') 60 None 100)"
    by simp_all
qed


subsection \<open>Expiry\<close>

lemma stored_map:
  assumes "buckets d = map (map f) (buckets c)" "\<And>e. normalized_sql (f e) = normalized_sql e"
  shows "stored d k = map_option f (stored c k)"
proof -
  have "find (\<lambda>e. normalized_sql e = k) (map f xs) = map_option f (find (\<lambda>e. normalized_sql e = k) xs)" for xs
    using assms(2) by (induction xs) auto
  then show ?thesis by (simp add: stored_def all_map [OF assms(1)])
qed

lemma past_expired: "2 \<le> now \<Longrightarrow> now \<le> later \<Longrightarrow> expired later (e\<lparr>expiry_ts := past_ts now\<rparr>)"
  by (simp add: expired_def past_ts_def)

text \<open>A write invalidates what it must. After \<open>cache_invalidate_by_tag\<close> no later lookup returns an
  entry whose table list contains the table's name, whether or not a worker holds it; every entry that
  does not name the table is left exactly as it was; and nothing is freed.\<close>

theorem invalidate_by_tag_effective:
  assumes "cache_reachable cfg c" "tag \<noteq> []" "2 \<le> now" "now \<le> later"
    and "cache_invalidate_by_tag c (Some tag) now = (n, d)" "stored c k = Some e"
  shows "if (\<exists>a b. table_dependency_tag e = Some (a @ tag @ b))
    then snd (cache_lookup d (Some k) later us) = None
    else stored d k = Some e"
proof -
  note wf = cache_reachable_wf [OF assms(1)]
  obtain x xs where t: "tag = x # xs" using assms(2) by (cases tag) auto
  let ?f = "\<lambda>e. if tag_hit now tag e then e\<lparr>expiry_ts := past_ts now\<rparr> else e"
  have b: "buckets d = map (map ?f) (buckets c)" "enabled d = enabled c"
    using assms(5) t by (auto simp: cache_invalidate_by_tag_def Let_def count_eviction_def)
  have wfd: "cache_wf d" using cache_invalidate_wf [OF wf, of "Some tag" now] assms(5) by simp
  have st: "stored d k = Some (?f e)" using stored_map [OF b(1)] assms(6) by simp
  have sub: "c_strstr g tag \<noteq> None \<longleftrightarrow> (\<exists>a b. g = a @ tag @ b)" for g
  proof
    assume "c_strstr g tag \<noteq> None"
    then obtain i where "c_strstr g tag = Some i" by blast
    from c_strstr_Some [OF this] have "drop i g = tag @ drop (length tag) (drop i g)"
      by (metis append_take_drop_id cs_prefix_def)
    then have "g = take i g @ tag @ drop (length tag) (drop i g)" by (metis append_take_drop_id)
    then show "\<exists>a b. g = a @ tag @ b" by blast
  next
    assume "\<exists>a b. g = a @ tag @ b"
    then show "c_strstr g tag \<noteq> None" using c_strstr_infix by fastforce
  qed
  show ?thesis
  proof (cases "\<exists>a b. table_dependency_tag e = Some (a @ tag @ b)")
    case True
    then obtain g where g: "table_dependency_tag e = Some g" "c_strstr g tag \<noteq> None" using sub by blast
    have "tag_hit now tag e \<or> expired later e"
      using assms(4) by (simp add: tag_hit_def expired_def g del: not_None_eq)
    then have "expired later (?f e)" using past_expired [OF assms(3,4)] by auto
    then have "snd (cache_lookup d (Some k) later us) = None"
      using st lookup_stored [OF wfd, of k later us] by (cases "enabled d") (auto simp: cache_lookup_def)
    with True show ?thesis by simp
  next
    case False
    then have "\<not> tag_hit now tag e" using sub by (auto simp: tag_hit_def split: option.splits)
    with st False show ?thesis by simp
  qed
qed

lemma invalidate_by_tag_effective_witness:
  "stored (snd (cache_invalidate_by_tag tiny1 (Some ''OCI'') 130)) ''K'' = stored tiny1 ''K''"
proof -
  obtain n d where i: "cache_invalidate_by_tag tiny1 (Some ''OCI'') 130 = (n, d)"
    by (cases "cache_invalidate_by_tag tiny1 (Some ''OCI'') 130")
  have "table_dependency_tag (alloc_entry 7 ''K'' ''V'' 1 (compute_hash CACHE_HASH_DJB2 ''K'') 60 None 100) = None"
    by (simp add: alloc_entry_def Let_def)
  with invalidate_by_tag_effective [OF tiny1_facts(1) _ _ _ i tiny1_facts(3), of 140] tiny1_facts(3) i
  show ?thesis by simp
qed

subsection \<open>Limits\<close>

lemma OLDEST_INIT_neg: "OLDEST_INIT = -1"
  by (simp add: OLDEST_INIT_def)

lemma pick_none: "\<forall>e \<in> set es. oldest \<le> last_access_ts e \<Longrightarrow> pick_victim oldest None es = None"
  by (induction es) auto

text \<open>C38. With access times that are not negative the search for the least recently used entry never
  finds one, because the initial \<open>oldest_access\<close> is -1: neither the entry limit nor the memory limit
  is enforced, and inserting a new key always adds one entry, however many there are.\<close>

theorem lru_never_evicts:
  assumes "cache_reachable cfg c" "\<forall>e \<in> set (all_entries c). 0 \<le> last_access_ts e"
    and "enabled c" "stored c k = None" "a \<notin> addr ` set (all_entries c)"
    and "cache_insert c (Some k) (Some (doc, dlen)) opts now (Some a) = (rc, d, fate)"
  shows "evict_lru_under_lock c = None \<and> entry_count d = entry_count c + 1"
proof -
  have none: "evict_lru_under_lock c = None"
    using pick_none [of "all_entries c" OLDEST_INIT] assms(2)
    by (force simp: evict_lru_under_lock_def OLDEST_INIT_neg)
  then have ev: "evict_while over c = (c, 0)" for over
    by (subst evict_while.simps) simp
  with assms(3,4,6) none show ?thesis
    by (auto simp: cache_insert_def find_stored [OF cache_reachable_wf [OF assms(1)]] insert_new_def Let_def)
qed

lemma tiny1_table:
  "all_entries tiny1 = [alloc_entry 7 ''K'' ''V'' 1 (compute_hash CACHE_HASH_DJB2 ''K'') 60 None 100]"
  "entry_count tiny1 = 1" "max_entries tiny1 = 1"
proof -
  have "bucket_of tiny k = 0" for k by (simp add: bucket_of_def bucket_index_def tiny_def)
  moreover have "evict_while (\<lambda>c. max_entries c \<le> entry_count c) tiny = (tiny, 0)"
    "evict_while (\<lambda>c. max_memory_bytes c < current_memory_bytes c + insert_memory_estimate ''K'' 1) tiny = (tiny, 0)"
    by (subst evict_while.simps, simp add: tiny_def insert_memory_estimate_def SIZEOF_CACHE_ENTRY_def)+
  moreover have "enabled tiny" "buckets tiny = [[]]" "algorithm tiny = CACHE_HASH_DJB2"
    "effective_ttl tiny None = 60" "entry_count tiny = 0" "max_entries tiny = 1"
    by (simp_all add: tiny_def effective_ttl_def)
  ultimately show "all_entries tiny1 = [alloc_entry 7 ''K'' ''V'' 1 (compute_hash CACHE_HASH_DJB2 ''K'') 60 None 100]"
    "entry_count tiny1 = 1" "max_entries tiny1 = 1"
    by (simp_all add: tiny1_def cache_insert_def insert_new_def Let_def all_entries_def del: compute_hash.simps)
qed

lemma lru_never_evicts_witness:
  "max_entries tiny1 = 1 \<and> entry_count tiny1 = 1 \<and>
   entry_count (fst (snd (cache_insert tiny1 (Some ''L'') (Some (''W'', 1)) None 101 (Some 8)))) = 2"
proof -
  obtain rc d fate where i: "cache_insert tiny1 (Some ''L'') (Some (''W'', 1)) None 101 (Some 8) = (rc, d, fate)"
    by (metis prod_cases3)
  have "stored tiny1 ''L'' = None" "8 \<notin> addr ` set (all_entries tiny1)"
    "\<forall>e \<in> set (all_entries tiny1). 0 \<le> last_access_ts e"
    by (simp_all add: stored_def tiny1_table) (simp add: alloc_entry_def Let_def)
  with lru_never_evicts [OF tiny1_facts(1) _ tiny1_facts(2) _ _ i] show ?thesis
    using i tiny1_table by simp
qed



subsection \<open>A second holder\<close>

lemma insert_new_subset:
  assumes "cache_wf c" "insert_new c k doc dlen opts now (Some a) = (rc, d, fate)"
  shows "addr ` set (all_entries d) \<subseteq> insert a (addr ` set (all_entries c))"
proof -
  define c1 where "c1 = fst (evict_while (\<lambda>c. entry_count c \<ge> max_entries c) c)"
  define c2 where "c2 = fst (evict_while (\<lambda>c. current_memory_bytes c + insert_memory_estimate k dlen
      > max_memory_bytes c) c1)"
  let ?e = "alloc_entry a k doc dlen (compute_hash (algorithm c) k) (effective_ttl c opts) opts now"
  have wf: "cache_wf c1" "cache_wf c2" unfolding c1_def c2_def using assms(1) evict_while_wf by blast+
  have ev: "evolves c c2" unfolding c1_def c2_def
    using evolves_trans evict_while_evolves evict_while_wf assms(1) by blast
  have d: "buckets d = (buckets c2)[bucket_of c k := ?e # buckets c2 ! bucket_of c k]"
    using assms(2) unfolding insert_new_def c1_def [symmetric] c2_def [symmetric] Let_def by auto
  have "table_wf c2" using wf by (simp add: cache_wf_def)
  then have lt: "bucket_of c k < length (buckets c2)"
    using bucket_in_range [of c2 k] ev by (simp add: evolves_def bucket_of_def)
  have "set (all_entries d) = insert ?e (set (all_entries c2))"
    using all_prepend [OF lt d] by (metis set_mset_add_mset_insert set_mset_mset)
  moreover have "set (all_entries c2) \<subseteq> set (all_entries c)" using ev by (simp add: evolves_def)
  ultimately show ?thesis by auto
qed

lemma insert_frees:
  assumes "cache_wf c" "enabled c" "stored c k = Some e" "\<not> in_use e" "a \<noteq> addr e"
    and "cache_insert c (Some k) (Some (doc, dlen)) opts now (Some a) = (rc, d, fate)"
  shows "addr e \<notin> addr ` set (all_entries d)"
proof -
  from stored_Some [OF assms(3)] have e: "e \<in> set (all_entries c)" by auto
  let ?c' = "c\<lparr>buckets := unlink (addr e) (buckets c),
               current_memory_bytes := current_memory_bytes c - entry_memory_bytes e,
               entry_count := entry_count c - 1\<rparr>"
  have wf': "cache_wf ?c'" by (rule cache_wf_unlink [OF assms(1) e]) simp_all
  have all: "all_entries ?c' = filter (\<lambda>x. addr x \<noteq> addr e) (all_entries c)"
    by (simp add: all_entries_def unlink_def filter_concat)
  have "insert_new ?c' k doc dlen opts now (Some a) = (rc, d, fate)"
    using assms by (simp add: cache_insert_def find_stored [OF assms(1)] Let_def)
  from insert_new_subset [OF wf' this] assms(5) all show ?thesis by auto
qed

lemma stored_update_entry:
  assumes "cache_wf c" "stored c k = Some e" "\<And>x. normalized_sql (f x) = normalized_sql x"
  shows "stored (update_entry (addr e) f c) k = Some (f e)"
proof -
  let ?f = "\<lambda>x. if addr x = addr e then f x else x"
  have "buckets (update_entry (addr e) f c) = map (map ?f) (buckets c)" by (simp add: update_entry_def)
  from stored_map [OF this] assms show ?thesis by simp
qed

lemma stored_stats [simp]:
  "stored (count_hit us c) k = stored c k" "enabled (count_hit us c) = enabled c"
  "enabled (update_entry a f c) = enabled c"
  by (simp_all add: stored_def all_entries_def count_hit_def update_entry_def Let_def)

text \<open>The flag \<open>in_use\<close> does not count holders. When two workers have looked up the same entry and the
  first releases it, a third may replace it by an insert of the same key: the second worker's pointer
  then dangles, and its own release writes to freed memory.\<close>

lemma second_holder_dangles:
  assumes "cache_reachable cfg c" "enabled c" "stored c k = Some e" "\<not> expired t e" "a \<noteq> addr e"
    and "cache_lookup c (Some k) t us = (c1, Some e1)" "cache_lookup c1 (Some k) t us = (c2, Some e2)"
    and "cache_release c2 (Some (addr e1)) = Some c3"
    and "cache_insert c3 (Some k) (Some (doc, dlen)) opts now (Some a) = (rc, c4, fate)"
  shows "addr e2 = addr e1 \<and> cache_release c4 (Some (addr e2)) = None"
proof -
  let ?f = "\<lambda>e. e\<lparr>in_use := True, last_access_ts := t, hit_count := hit_count e + 1\<rparr>"
  note wf = cache_reachable_wf [OF assms(1)]
  have c1: "c1 = count_hit us (update_entry (addr e) ?f c)" "e1 = ?f e"
    using assms(2,3,4,6) by (auto simp: cache_lookup_def find_stored [OF wf] Let_def)
  have wf1: "cache_wf c1" using cache_lookup_wf [OF wf, of "Some k" t us] assms(6) by simp
  have s1: "stored c1 k = Some e1" "enabled c1" using c1 stored_update_entry [OF wf assms(3), of ?f] assms(2) by simp_all
  have "\<not> expired t e1" using assms(4) c1(2) by (simp add: expired_def)
  then have c2: "c2 = count_hit us (update_entry (addr e1) ?f c1)" "e2 = ?f e1"
    using s1 assms(7) by (auto simp: cache_lookup_def find_stored [OF wf1] Let_def)
  have wf2: "cache_wf c2" using cache_lookup_wf [OF wf1, of "Some k" t us] assms(7) by simp
  have s2: "stored c2 k = Some e2" "enabled c2" using c2 stored_update_entry [OF wf1 s1(1), of ?f] s1(2) by simp_all
  have ad: "addr e1 = addr e" "addr e2 = addr e" by (simp_all add: c1(2) c2(2))
  have c3: "c3 = update_entry (addr e2) (\<lambda>e. e\<lparr>in_use := False\<rparr>) c2"
    using assms(8) ad by (simp add: cache_release_def split: if_splits)
  have wf3: "cache_wf c3" by (rule cache_release_wf [OF wf2 assms(8)])
  have s3: "stored c3 k = Some (e2\<lparr>in_use := False\<rparr>)" "enabled c3"
    using c3 stored_update_entry [OF wf2 s2(1), of "\<lambda>e. e\<lparr>in_use := False\<rparr>"] s2(2) by simp_all
  from insert_frees [OF wf3 s3(2,1) _ _ assms(9)] assms(5) ad
  have "addr e \<notin> addr ` set (all_entries c4)" by simp
  with ad show ?thesis by (auto simp: cache_release_def)
qed

end
