(* ===== verification/Transaction_Manager.thy ===== *)
theory Transaction_Manager
  imports C_Prelude "HOL-Library.Word"
begin

text \<open>
  The transaction manager (\<^verbatim>\<open>src/execute/Transaction_Manager.c\<close>): the life cycle of transaction
  handles on one context, the commit retry loop, the identifiers and the XML answers. The state holds
  the fields of \<^verbatim>\<open>oci_context_t\<close> the manager writes (\<^verbatim>\<open>active_tx\<close>), the thread's log tag, the
  database session behind the driver and the handles by address: a handle may be a caller's or a local
  variable of a statement, and \<^verbatim>\<open>active_tx\<close> points at one of them. The driver's \<^verbatim>\<open>commit()\<close> and
  \<^verbatim>\<open>rollback()\<close> act on a session of any type \<open>'d\<close>. Clocks, random bytes and the result of
  \<^verbatim>\<open>malloc\<close> are arguments. Logging, the delay between attempts and the metrics records are left out.
\<close>

unbundle bit_operations_syntax

subsection \<open>Data\<close>

datatype tx_status_t =
    TX_STATUS_NONE | TX_STATUS_ACTIVE | TX_STATUS_COMMITTED | TX_STATUS_ROLLED_BACK
  | TX_STATUS_ABORTED | TX_STATUS_TIMED_OUT

definition TX_OK :: int where "TX_OK = 0"
definition TX_ERR_INVALID_ARG :: int where "TX_ERR_INVALID_ARG = -1"
definition TX_ERR_ALREADY_ACTIVE :: int where "TX_ERR_ALREADY_ACTIVE = -2"
definition TX_ERR_NO_ACTIVE :: int where "TX_ERR_NO_ACTIVE = -3"
definition TX_ERR_OCI_FAILURE :: int where "TX_ERR_OCI_FAILURE = -4"
definition TX_ERR_TIMEOUT :: int where "TX_ERR_TIMEOUT = -5"
definition DB_TX_RETRYABLE :: int where "DB_TX_RETRYABLE = 1"
definition TX_UUID_LEN :: nat where "TX_UUID_LEN = 37"

lemmas tx_codes = TX_OK_def TX_ERR_INVALID_ARG_def TX_ERR_ALREADY_ACTIVE_def TX_ERR_NO_ACTIVE_def
  TX_ERR_OCI_FAILURE_def TX_ERR_TIMEOUT_def DB_TX_RETRYABLE_def

record tx_handle =
  transaction_id :: cstring
  session_id :: cstring
  tx_name :: cstring
  tx_status :: tx_status_t
  start_time_us :: "64 word"
  end_time_us :: "64 word"
  last_activity_epoch :: int
  timeout_seconds :: int
  max_retries :: int
  retry_delay_ms :: int
  has_ctx :: bool

text \<open>The transaction settings of \<^verbatim>\<open>config.ini\<close>, and the two hooks of the driver.\<close>

record tx_ini =
  ini_timeout_seconds :: int
  ini_max_retries :: int
  ini_retry_delay_ms :: int

record 'd tx_driver =
  drv_commit :: "('d \<Rightarrow> int \<times> 'd) option"
  drv_rollback :: "('d \<Rightarrow> int \<times> 'd) option"

record 'd tx_world =
  active_tx :: "nat option"
  log_txid :: "cstring option"
  session :: 'd
  handles :: "nat \<Rightarrow> tx_handle"

text \<open>What a function leaves in \<^verbatim>\<open>*result_xml\<close>: nothing written, or NULL or a text.\<close>

datatype xml_out = Xml_Unset | Xml "cstring option"

definition set_handle :: "nat \<Rightarrow> tx_handle \<Rightarrow> 'd tx_world \<Rightarrow> 'd tx_world" where
  "set_handle a h w = w\<lparr>handles := (handles w)(a := h)\<rparr>"

subsection \<open>Identifiers\<close>

definition hex_digit :: "nat \<Rightarrow> char" where
  "hex_digit n = (''0123456789abcdef'' ! n)"

text \<open>\<^verbatim>\<open>%02x\<close> of a byte.\<close>

definition hex2 :: "8 word \<Rightarrow> cstring" where
  "hex2 b = [hex_digit (unat (drop_bit 4 b)), hex_digit (unat (b AND 15))]"

definition uuid_bytes :: "8 word list \<Rightarrow> 8 word list" where
  "uuid_bytes rnd = rnd[6 := (rnd ! 6 AND 0x0F) OR 0x40, 8 := (rnd ! 8 AND 0x3F) OR 0x80]"

definition tx_generate_uuid :: "8 word list \<Rightarrow> cstring" where
  "tx_generate_uuid rnd =
     (let b = uuid_bytes rnd; h = (\<lambda>i n. concat (map hex2 (take n (drop i b))))
      in c_snprintf TX_UUID_LEN (h 0 4 @ ''-'' @ h 4 2 @ ''-'' @ h 6 2 @ ''-'' @ h 8 2 @ ''-'' @ h 10 6))"

subsection \<open>Small accessors\<close>

fun tx_status_str :: "tx_status_t \<Rightarrow> cstring" where
  "tx_status_str TX_STATUS_NONE = ''NONE''"
| "tx_status_str TX_STATUS_ACTIVE = ''ACTIVE''"
| "tx_status_str TX_STATUS_COMMITTED = ''COMMITTED''"
| "tx_status_str TX_STATUS_ROLLED_BACK = ''ROLLED_BACK''"
| "tx_status_str TX_STATUS_ABORTED = ''ABORTED''"
| "tx_status_str TX_STATUS_TIMED_OUT = ''TIMED_OUT''"

definition tx_get_id :: "tx_handle option \<Rightarrow> cstring" where
  "tx_get_id h = (case h of
       None \<Rightarrow> ''-''
     | Some h \<Rightarrow> if tx_status h = TX_STATUS_NONE then ''-'' else transaction_id h)"

definition tx_is_active :: "tx_handle option \<Rightarrow> bool" where
  "tx_is_active h = (case h of None \<Rightarrow> False | Some h \<Rightarrow> tx_status h = TX_STATUS_ACTIVE)"

definition fresh_handle :: "bool \<Rightarrow> tx_handle" where
  "fresh_handle ctx =
     \<lparr>transaction_id = ''-'', session_id = ''-'', tx_name = ''-'', tx_status = TX_STATUS_NONE,
      start_time_us = 0, end_time_us = 0, last_activity_epoch = 0, timeout_seconds = 0,
      max_retries = 0, retry_delay_ms = 0, has_ctx = ctx\<rparr>"

definition tx_init :: "nat option \<Rightarrow> bool \<Rightarrow> 'd tx_world \<Rightarrow> 'd tx_world" where
  "tx_init hp ctx w = (case hp of None \<Rightarrow> w | Some a \<Rightarrow> set_handle a (fresh_handle ctx) w)"

definition tx_touch :: "nat option \<Rightarrow> int \<Rightarrow> 'd tx_world \<Rightarrow> 'd tx_world" where
  "tx_touch hp now w =
     (case hp of
        None \<Rightarrow> w
      | Some a \<Rightarrow>
          if tx_status (handles w a) \<noteq> TX_STATUS_ACTIVE then w
          else set_handle a ((handles w a)\<lparr>last_activity_epoch := now\<rparr>) w)"

subsection \<open>XML answers\<close>

definition LF :: cstring where "LF = [CHR 10]"

text \<open>\<^verbatim>\<open>gmtime_r\<close> and \<^verbatim>\<open>strftime\<close>: seconds since 1970 as a UTC calendar time.\<close>

definition greg_leap :: "nat \<Rightarrow> bool" where
  "greg_leap y \<longleftrightarrow> y mod 4 = 0 \<and> (y mod 100 \<noteq> 0 \<or> y mod 400 = 0)"

function utc_year :: "nat \<Rightarrow> nat \<Rightarrow> nat \<times> nat" where
  "utc_year y d =
     (if d < (if greg_leap y then 366 else 365) then (y, d)
      else utc_year (y + 1) (d - (if greg_leap y then 366 else 365)))"
  by pat_completeness auto
termination by (relation "measure snd") auto

declare utc_year.simps [simp del]

fun utc_month :: "nat \<Rightarrow> nat list \<Rightarrow> nat \<Rightarrow> nat \<times> nat" where
  "utc_month m [] d = (m, d)"
| "utc_month m (l # ls) d = (if d < l then (m, d) else utc_month (m + 1) ls (d - l))"

definition utc_text :: "nat \<Rightarrow> cstring" where
  "utc_text sec =
     (let (y, yd) = utc_year 1970 (sec div 86400);
          (m, md) = utc_month 1 [31, if greg_leap y then 29 else 28, 31, 30, 31, 30, 31, 31, 30, 31, 30] yd;
          s = sec mod 86400
      in dec y @ ''-'' @ dec_pad 2 m @ ''-'' @ dec_pad 2 (md + 1) @ '' '' @
         dec_pad 2 (s div 3600) @ '':'' @ dec_pad 2 (s mod 3600 div 60) @ '':'' @ dec_pad 2 (s mod 60))"

definition tx_timestamp_str :: "64 word \<Rightarrow> nat \<Rightarrow> cstring" where
  "tx_timestamp_str us len =
     c_snprintf len (utc_text (unat us div 1000000) @ ''.'' @ dec_pad 6 (unat us mod 1000000))"

definition xml_header :: cstring where
  "xml_header = ''<?xml version='' @ [CHR 34] @ ''1.0'' @ [CHR 34] @ '' encoding='' @ [CHR 34] @ ''UTF-8'' @
     [CHR 34] @ ''?>'' @ LF"

definition xml_field :: "cstring \<Rightarrow> cstring \<Rightarrow> cstring" where
  "xml_field name v = ''  <'' @ name @ ''>'' @ v @ ''</'' @ name @ ''>'' @ LF"

definition begin_xml_text :: "tx_handle \<Rightarrow> cstring" where
  "begin_xml_text h =
     xml_header @ ''<transaction>'' @ LF @ xml_field ''operation'' ''BEGIN'' @
     xml_field ''transaction_id'' (transaction_id h) @ xml_field ''transaction_name'' (tx_name h) @
     xml_field ''session_id'' (session_id h) @ xml_field ''status'' (tx_status_str (tx_status h)) @
     xml_field ''start_time'' (tx_timestamp_str (start_time_us h) 32) @
     xml_field ''timeout_seconds'' (dec_int (timeout_seconds h)) @
     xml_field ''max_retries'' (dec_int (max_retries h)) @ ''</transaction>'' @ LF"

definition tx_build_begin_xml :: "bool \<Rightarrow> tx_handle \<Rightarrow> cstring option" where
  "tx_build_begin_xml malloc_ok h =
     (if malloc_ok then Some (c_snprintf 1024 (begin_xml_text h)) else None)"

definition result_xml_text :: "tx_handle \<Rightarrow> cstring \<Rightarrow> cstring \<Rightarrow> cstring" where
  "result_xml_text h op extra =
     xml_header @ ''<transaction>'' @ LF @ xml_field ''operation'' op @
     xml_field ''transaction_id'' (transaction_id h) @ xml_field ''session_id'' (session_id h) @
     xml_field ''status'' (tx_status_str (tx_status h)) @ extra @ ''</transaction>'' @ LF"

text \<open>A text that does not fit 2048 bytes is printed again into a larger buffer.\<close>

definition tx_build_result_xml :: "bool \<Rightarrow> bool \<Rightarrow> tx_handle \<Rightarrow> cstring \<Rightarrow> cstring \<Rightarrow> cstring option" where
  "tx_build_result_xml malloc_ok malloc2_ok h op extra =
     (let t = result_xml_text h op extra in
      if \<not> malloc_ok then None
      else if length t \<ge> 2048 then (if malloc2_ok then Some (c_snprintf (length t + 64) t) else None)
      else Some t)"

text \<open>
  \<^verbatim>\<open>%.6f\<close> of \<^verbatim>\<open>(double)duration / 1e6\<close>; the conversions are exact to six digits below
  \<open>2 ^ 51\<close> microseconds.
\<close>

definition seconds_text :: "64 word \<Rightarrow> cstring" where
  "seconds_text us = dec (unat us div 1000000) @ ''.'' @ dec_pad 6 (unat us mod 1000000)"

definition duration_xml :: "64 word \<Rightarrow> cstring" where
  "duration_xml us =
     ''<duration_us>'' @ dec (unat us) @ ''</duration_us>'' @ LF @
     ''<execution_time>'' @ seconds_text us @ ''</execution_time>''"

subsection \<open>The driver calls\<close>

definition tx_driver_rollback :: "'d tx_driver option \<Rightarrow> 'd \<Rightarrow> int \<times> 'd" where
  "tx_driver_rollback drv d =
     (case drv of
        None \<Rightarrow> (-1, d)
      | Some r \<Rightarrow> (case drv_rollback r of None \<Rightarrow> (-1, d) | Some f \<Rightarrow> f d))"

text \<open>The retry loop: \<open>left\<close> more attempts are allowed. The result is that of the last attempt.\<close>

fun commit_loop :: "('d \<Rightarrow> int \<times> 'd) \<Rightarrow> nat \<Rightarrow> nat \<Rightarrow> 'd \<Rightarrow> int \<times> nat \<times> 'd" where
  "commit_loop commit attempt left d =
     (case commit d of (rc, d') \<Rightarrow>
        if rc \<noteq> DB_TX_RETRYABLE then (rc, attempt, d')
        else (case left of 0 \<Rightarrow> (rc, attempt, d') | Suc l \<Rightarrow> commit_loop commit (attempt + 1) l d'))"

declare commit_loop.simps [simp del]

text \<open>The result, the number of attempts reported, and the session.\<close>

definition tx_commit_with_retry ::
    "'d tx_driver option \<Rightarrow> int \<Rightarrow> 'd \<Rightarrow> int \<times> nat \<times> 'd" where
  "tx_commit_with_retry drv retries d =
     (case drv of
        None \<Rightarrow> (-1, 0, d)
      | Some r \<Rightarrow>
          (case drv_commit r of
             None \<Rightarrow> (-1, 0, d)
           | Some commit \<Rightarrow>
               (case commit_loop commit 0 (nat retries) d of
                  (rc, attempt, d') \<Rightarrow> (if rc = 0 then 0 else -1, attempt + 1, d'))))"

subsection \<open>Transactions of a caller\<close>

definition tx_begin ::
    "nat option \<Rightarrow> cstring option \<Rightarrow> cstring option \<Rightarrow> tx_ini option \<Rightarrow> 8 word list \<Rightarrow> 64 word \<Rightarrow> int \<Rightarrow>
     bool \<Rightarrow> 'd tx_world \<Rightarrow> int \<times> xml_out \<times> 'd tx_world" where
  "tx_begin hp sid name ini rnd now_us now malloc_ok w =
     (case hp of
        None \<Rightarrow> (TX_ERR_INVALID_ARG, Xml_Unset, w)
      | Some a \<Rightarrow>
          let h = handles w a in
          if \<not> has_ctx h then (TX_ERR_INVALID_ARG, Xml_Unset, w)
          else if tx_status h = TX_STATUS_ACTIVE then (TX_ERR_ALREADY_ACTIVE, Xml None, w)
          else
            let or_dash = (\<lambda>s. case s of Some (c # cs) \<Rightarrow> c # cs | _ \<Rightarrow> ''-'');
                h' = h\<lparr>transaction_id := tx_generate_uuid rnd,
                       session_id := c_strncpy TX_UUID_LEN (or_dash sid),
                       tx_name := c_strncpy 128 (or_dash name),
                       start_time_us := now_us, end_time_us := 0, last_activity_epoch := now,
                       timeout_seconds := (case ini of None \<Rightarrow> 300 | Some i \<Rightarrow> ini_timeout_seconds i),
                       max_retries := (case ini of None \<Rightarrow> 3 | Some i \<Rightarrow> ini_max_retries i),
                       retry_delay_ms := (case ini of None \<Rightarrow> 500 | Some i \<Rightarrow> ini_retry_delay_ms i),
                       tx_status := TX_STATUS_ACTIVE\<rparr>
            in (TX_OK, Xml (tx_build_begin_xml malloc_ok h'),
                (set_handle a h' w)\<lparr>active_tx := Some a, log_txid := Some (transaction_id h')\<rparr>))"

text \<open>Every resolution stamps the handle, and clears the context's pointer and the thread's tag.\<close>

definition resolve :: "nat \<Rightarrow> tx_status_t \<Rightarrow> 64 word \<Rightarrow> 'd \<Rightarrow> 'd tx_world \<Rightarrow> 'd tx_world" where
  "resolve a st now_us d w =
     (set_handle a ((handles w a)\<lparr>end_time_us := now_us, tx_status := st\<rparr>) w)
       \<lparr>active_tx := None, log_txid := None, session := d\<rparr>"

definition resolved_xml :: "bool \<Rightarrow> bool \<Rightarrow> nat \<Rightarrow> cstring \<Rightarrow> cstring \<Rightarrow> 'd tx_world \<Rightarrow> xml_out" where
  "resolved_xml m1 m2 a op extra w = Xml (tx_build_result_xml m1 m2 (handles w a) op extra)"

definition tx_commit ::
    "'d tx_driver option \<Rightarrow> nat option \<Rightarrow> 64 word \<Rightarrow> bool \<Rightarrow> bool \<Rightarrow> 'd tx_world \<Rightarrow>
     int \<times> xml_out \<times> 'd tx_world" where
  "tx_commit drv hp now_us m1 m2 w =
     (case hp of
        None \<Rightarrow> (TX_ERR_INVALID_ARG, Xml_Unset, w)
      | Some a \<Rightarrow>
          let h = handles w a in
          if \<not> has_ctx h then (TX_ERR_INVALID_ARG, Xml_Unset, w)
          else if tx_status h \<noteq> TX_STATUS_ACTIVE then (TX_ERR_NO_ACTIVE, Xml None, w)
          else
            (case tx_commit_with_retry drv (max_retries h) (session w) of
               (rc, attempts, d) \<Rightarrow>
                 let w' = (if rc = 0 then resolve a TX_STATUS_COMMITTED now_us d w
                           else resolve a TX_STATUS_ABORTED now_us (snd (tx_driver_rollback drv d)) w);
                     extra = c_snprintf 128 (duration_xml (now_us - start_time_us h))
                 in (if rc = 0 then TX_OK else TX_ERR_OCI_FAILURE,
                     resolved_xml m1 m2 a ''COMMIT'' extra w', w')))"

definition tx_rollback ::
    "'d tx_driver option \<Rightarrow> nat option \<Rightarrow> 64 word \<Rightarrow> bool \<Rightarrow> bool \<Rightarrow> 'd tx_world \<Rightarrow>
     int \<times> xml_out \<times> 'd tx_world" where
  "tx_rollback drv hp now_us m1 m2 w =
     (case hp of
        None \<Rightarrow> (TX_ERR_INVALID_ARG, Xml_Unset, w)
      | Some a \<Rightarrow>
          let h = handles w a in
          if \<not> has_ctx h then (TX_ERR_INVALID_ARG, Xml_Unset, w)
          else if tx_status h \<noteq> TX_STATUS_ACTIVE then (TX_ERR_NO_ACTIVE, Xml None, w)
          else
            let w' = resolve a TX_STATUS_ROLLED_BACK now_us (snd (tx_driver_rollback drv (session w))) w;
                extra = c_snprintf 128 (duration_xml (now_us - start_time_us h))
            in (TX_OK, resolved_xml m1 m2 a ''ROLLBACK'' extra w', w'))"

definition tx_abort ::
    "'d tx_driver option \<Rightarrow> nat option \<Rightarrow> cstring option \<Rightarrow> 64 word \<Rightarrow> bool \<Rightarrow> bool \<Rightarrow> 'd tx_world \<Rightarrow>
     int \<times> xml_out \<times> 'd tx_world" where
  "tx_abort drv hp reason now_us m1 m2 w =
     (case hp of
        None \<Rightarrow> (TX_ERR_INVALID_ARG, Xml_Unset, w)
      | Some a \<Rightarrow>
          let h = handles w a in
          if \<not> has_ctx h then (TX_ERR_INVALID_ARG, Xml_Unset, w)
          else
            let why = (case reason of Some (c # cs) \<Rightarrow> c # cs | _ \<Rightarrow> ''unspecified'');
                d = (if tx_status h = TX_STATUS_ACTIVE then snd (tx_driver_rollback drv (session w))
                     else session w);
                w' = resolve a TX_STATUS_ABORTED now_us d w;
                extra = c_snprintf 256 (duration_xml (now_us - start_time_us h) @ LF @
                  ''<abort_reason>'' @ why @ ''</abort_reason>'')
            in (TX_OK, resolved_xml m1 m2 a ''ABORT'' extra w', w'))"

definition tx_check_timeout ::
    "'d tx_driver option \<Rightarrow> nat option \<Rightarrow> int \<Rightarrow> 64 word \<Rightarrow> bool \<Rightarrow> bool \<Rightarrow> bool \<Rightarrow> bool \<Rightarrow> 'd tx_world \<Rightarrow>
     int \<times> xml_out \<times> 'd tx_world" where
  "tx_check_timeout drv hp now now_us m1 m2 m3 m4 w =
     (case hp of
        None \<Rightarrow> (TX_OK, Xml_Unset, w)
      | Some a \<Rightarrow>
          let h = handles w a; idle = now - last_activity_epoch h in
          if tx_status h \<noteq> TX_STATUS_ACTIVE then (TX_OK, Xml_Unset, w)
          else if timeout_seconds h \<le> 0 then (TX_OK, Xml_Unset, w)
          else if idle < timeout_seconds h then (TX_OK, Xml_Unset, w)
          else
            (case tx_abort drv hp (Some ''idle_timeout'') now_us m1 m2 w of
               (_, xml, w1) \<Rightarrow>
                 let w2 = set_handle a ((handles w1 a)\<lparr>tx_status := TX_STATUS_TIMED_OUT\<rparr>) w1;
                     extra = c_snprintf 128 (''<idle_seconds>'' @ dec_int idle @ ''</idle_seconds>'' @ LF @
                       ''<timeout_seconds>'' @ dec_int (timeout_seconds h) @ ''</timeout_seconds>'')
                 in (TX_ERR_TIMEOUT,
                     (case xml of Xml (Some t) \<Rightarrow> xml | _ \<Rightarrow> resolved_xml m3 m4 a ''TIMEOUT'' extra w2), w2)))"

subsection \<open>The identity of a standalone statement\<close>

text \<open>The address is that of the caller's local handle.\<close>

definition begin_standalone_tx_if_needed ::
    "nat \<Rightarrow> 8 word list \<Rightarrow> 'd tx_world \<Rightarrow> bool \<times> 'd tx_world" where
  "begin_standalone_tx_if_needed a rnd w =
     (case active_tx w of
        Some _ \<Rightarrow> (False, w)
      | None \<Rightarrow>
          (True, (set_handle a ((fresh_handle True)\<lparr>transaction_id := tx_generate_uuid rnd,
                    tx_status := TX_STATUS_ACTIVE\<rparr>) w)\<lparr>active_tx := Some a\<rparr>))"

definition end_standalone_tx_if_owned :: "bool \<Rightarrow> 'd tx_world \<Rightarrow> 'd tx_world" where
  "end_standalone_tx_if_owned owned w = (if owned then w\<lparr>active_tx := None\<rparr> else w)"

end
