(* ===== verification/Transaction_Runs.thy ===== *)
theory Transaction_Runs
  imports Transaction_Manager
begin

text \<open>
  What the transaction manager guarantees: the retry loop, the steps of a context under its operations
  and their invariant, durability under the driver contract of \<^verbatim>\<open>db_driver.h\<close>, the shape of the
  identifiers and the completeness of the XML answers.
\<close>

subsection \<open>The retry loop\<close>

primrec after :: "('d \<Rightarrow> int \<times> 'd) \<Rightarrow> nat \<Rightarrow> 'd \<Rightarrow> 'd" where
  "after commit 0 d = d"
| "after commit (Suc i) d = after commit i (snd (commit d))"

text \<open>The answer to attempt \<open>i\<close>, counted from 0.\<close>

definition answer :: "('d \<Rightarrow> int \<times> 'd) \<Rightarrow> nat \<Rightarrow> 'd \<Rightarrow> int" where
  "answer commit i d = fst (commit (after commit i d))"

lemma answer_simps:
  "answer commit 0 d = fst (commit d)"
  "answer commit (Suc i) d = answer commit i (snd (commit d))"
  by (simp_all add: answer_def)

lemma commit_loop_spec:
  "commit_loop commit k left d = (rc, n, d') \<Longrightarrow>
     k \<le> n \<and> n \<le> k + left \<and> d' = after commit (n - k + 1) d \<and> rc = answer commit (n - k) d \<and>
     (\<forall>i < n - k. answer commit i d = DB_TX_RETRYABLE) \<and> (rc \<noteq> DB_TX_RETRYABLE \<or> n = k + left)"
proof (induction commit k left d rule: commit_loop.induct)
  case (1 commit k left d)
  obtain c e where ce: "commit d = (c, e)" by (cases "commit d")
  show ?case
  proof (cases "c \<noteq> DB_TX_RETRYABLE \<or> left = 0")
    case True
    with "1.prems" ce show ?thesis
      by (auto simp: commit_loop.simps [of commit k left d] answer_simps split: nat.splits if_splits)
  next
    case False
    then obtain l where l: "left = Suc l" and c: "c = DB_TX_RETRYABLE" by (cases left) auto
    with "1.prems" ce have rec: "commit_loop commit (k + 1) l e = (rc, n, d')"
      by (simp add: commit_loop.simps [of commit k "Suc l" d])
    from c have nc: "\<not> c \<noteq> DB_TX_RETRYABLE" by simp
    from "1.IH" [OF ce [symmetric] nc l rec]
    have ih: "k + 1 \<le> n" "n \<le> k + 1 + l" "d' = after commit (n - (k + 1) + 1) e"
        "rc = answer commit (n - (k + 1)) e" "\<forall>i < n - (k + 1). answer commit i e = DB_TX_RETRYABLE"
        "rc \<noteq> DB_TX_RETRYABLE \<or> n = k + 1 + l" by blast+
    define m where "m = n - (k + 1)"
    have m: "n - k = Suc m" using ih(1) by (simp add: m_def)
    have e: "e = snd (commit d)" "fst (commit d) = DB_TX_RETRYABLE" using ce c by simp_all
    have "\<forall>i < Suc m. answer commit i d = DB_TX_RETRYABLE"
      using ih(5) e unfolding m_def [symmetric] by (simp add: All_less_Suc2 answer_simps)
    moreover have "d' = after commit (Suc m + 1) d" using ih(3) e(1) by (simp add: m_def)
    moreover have "rc = answer commit (Suc m) d" using ih(4) e(1) by (simp add: m_def answer_simps)
    ultimately show ?thesis using ih(1,2,6) l by (simp only: m) auto
  qed
qed

text \<open>C33. The commit policy. At most \<open>max_retries + 1\<close> attempts are made, each after one that the
  driver reported as retryable; the loop stops at the first answer of any other kind, reports success
  exactly when that answer is 0, and counts exactly the calls it made.\<close>

theorem tx_commit_retry_exact:
  assumes "drv_commit r = Some commit"
    and "tx_commit_with_retry (Some r) retries d = (rc, attempts, d')"
  shows "1 \<le> attempts \<and> attempts \<le> nat retries + 1 \<and> d' = after commit attempts d \<and>
    (\<forall>i < attempts - 1. answer commit i d = DB_TX_RETRYABLE) \<and>
    (attempts < nat retries + 1 \<longrightarrow> answer commit (attempts - 1) d \<noteq> DB_TX_RETRYABLE) \<and>
    rc = (if answer commit (attempts - 1) d = 0 then 0 else -1)"
proof -
  obtain c n e where loop: "commit_loop commit 0 (nat retries) d = (c, n, e)"
    by (cases "commit_loop commit 0 (nat retries) d")
  with assms have eq: "attempts = n + 1" "d' = e" "rc = (if c = 0 then 0 else -1)"
    by (auto simp: tx_commit_with_retry_def split: if_splits)
  note spec = commit_loop_spec [OF loop]
  have n: "attempts - 1 = n" using eq by simp
  show ?thesis unfolding n
  proof (intro conjI)
    show "1 \<le> attempts" using eq(1) by simp
    show "attempts \<le> nat retries + 1" using eq(1) spec by linarith
    show "d' = after commit attempts d" using eq(1,2) spec by (simp only: diff_zero)
    show "\<forall>i < n. answer commit i d = DB_TX_RETRYABLE" using spec unfolding diff_zero by blast
    show "attempts < nat retries + 1 \<longrightarrow> answer commit n d \<noteq> DB_TX_RETRYABLE"
      using spec eq(1) unfolding diff_zero add_0 by (metis less_irrefl)
    show "rc = (if answer commit n d = 0 then 0 else -1)" using spec eq(3) by (simp only: diff_zero)
  qed
qed

text \<open>A driver that fails twice with a retryable error and then commits; its session counts the calls.\<close>

definition flaky :: "nat tx_driver" where
  "flaky = \<lparr>drv_commit = Some (\<lambda>n. (if n < 2 then DB_TX_RETRYABLE else 0, n + 1)),
            drv_rollback = Some (\<lambda>n. (0, n))\<rparr>"

lemma tx_commit_retry_exact_witness:
  "tx_commit_with_retry (Some flaky) 3 0 = (0, 3, 3) \<and> (3::nat) \<le> nat 3 + 1"
proof -
  have *: "tx_commit_with_retry (Some flaky) 3 0 = (0, 3, 3)"
    by code_simp
  have "drv_commit flaky = Some (\<lambda>n. (if n < 2 then DB_TX_RETRYABLE else 0, n + 1))"
    by (simp add: flaky_def)
  from tx_commit_retry_exact [OF this *] * show ?thesis by simp
qed

subsection \<open>Steps of a context\<close>

text \<open>
  The operations of the manager in any order on any handles of a context, and the statements run on it:
  a statement takes an identity if there is none, works on the session, and gives the identity back. It
  commits by itself only when it owns the identity.
\<close>

inductive tx_step :: "('d \<Rightarrow> 'x list) \<Rightarrow> 'd tx_driver option \<Rightarrow> 'd tx_world \<Rightarrow> 'd tx_world \<Rightarrow> bool"
    for durable drv where
  st_init: "active_tx w \<noteq> Some a \<Longrightarrow> tx_step durable drv w (tx_init (Some a) c w)"
| st_begin: "tx_begin hp sid name ini rnd us now m w = (rc, x, w') \<Longrightarrow> tx_step durable drv w w'"
| st_touch: "tx_step durable drv w (tx_touch hp now w)"
| st_commit: "tx_commit drv hp us m1 m2 w = (rc, x, w') \<Longrightarrow> tx_step durable drv w w'"
| st_rollback: "tx_rollback drv hp us m1 m2 w = (rc, x, w') \<Longrightarrow> tx_step durable drv w w'"
| st_abort: "tx_abort drv hp why us m1 m2 w = (rc, x, w') \<Longrightarrow> tx_step durable drv w w'"
| st_timeout: "tx_check_timeout drv hp now us m1 m2 m3 m4 w = (rc, x, w') \<Longrightarrow> tx_step durable drv w w'"
| st_statement:
    "begin_standalone_tx_if_needed a rnd w = (owned, w1) \<Longrightarrow>
     (\<not> owned \<Longrightarrow> durable d = durable (session w1)) \<Longrightarrow>
     tx_step durable drv w (end_standalone_tx_if_owned owned (w1\<lparr>session := d\<rparr>))"

inductive_cases tx_stepE: "tx_step durable drv w w'"

inductive tx_reachable :: "('d \<Rightarrow> 'x list) \<Rightarrow> 'd tx_driver option \<Rightarrow> 'd tx_world \<Rightarrow> bool"
    for durable drv where
  tx_start: "active_tx w = None \<Longrightarrow> log_txid w = None \<Longrightarrow> tx_reachable durable drv w"
| tx_next: "tx_reachable durable drv w \<Longrightarrow> tx_step durable drv w w' \<Longrightarrow> tx_reachable durable drv w'"

definition tx_inv :: "'d tx_world \<Rightarrow> bool" where
  "tx_inv w \<longleftrightarrow>
     (\<forall>a. active_tx w = Some a \<longrightarrow> tx_status (handles w a) = TX_STATUS_ACTIVE \<and> has_ctx (handles w a)) \<and>
     (\<forall>t. log_txid w = Some t \<longrightarrow> (\<exists>a. active_tx w = Some a \<and> transaction_id (handles w a) = t))"

lemma tx_inv_idle: "active_tx w = None \<Longrightarrow> log_txid w = None \<Longrightarrow> tx_inv w"
  by (simp add: tx_inv_def)

lemma resolve_idle [simp]: "active_tx (resolve a st us d w) = None" "log_txid (resolve a st us d w) = None"
  by (simp_all add: resolve_def)

lemma set_handle_fields [simp]:
  "active_tx (set_handle a h w) = active_tx w" "log_txid (set_handle a h w) = log_txid w"
  "session (set_handle a h w) = session w" "handles (set_handle a h w) b = (if b = a then h else handles w b)"
  by (simp_all add: set_handle_def)

text \<open>How each operation may end: unchanged, or with the handle resolved.\<close>

lemma tx_commit_cases:
  assumes "tx_commit drv hp us m1 m2 w = (rc, x, w')"
  obtains "w' = w" | a c n d where "hp = Some a" "tx_status (handles w a) = TX_STATUS_ACTIVE"
      "tx_commit_with_retry drv (max_retries (handles w a)) (session w) = (c, n, d)"
      "w' = (if c = 0 then resolve a TX_STATUS_COMMITTED us d w
             else resolve a TX_STATUS_ABORTED us (snd (tx_driver_rollback drv d)) w)"
      "rc = (if c = 0 then TX_OK else TX_ERR_OCI_FAILURE)"
proof (cases "\<exists>a. hp = Some a \<and> has_ctx (handles w a) \<and> tx_status (handles w a) = TX_STATUS_ACTIVE")
  case True
  then obtain a where a: "hp = Some a" "has_ctx (handles w a)" "tx_status (handles w a) = TX_STATUS_ACTIVE"
    by blast
  obtain c n d where r: "tx_commit_with_retry drv (max_retries (handles w a)) (session w) = (c, n, d)"
    by (cases "tx_commit_with_retry drv (max_retries (handles w a)) (session w)")
  show ?thesis by (rule that(2) [OF a(1,3) r]) (use assms a r in \<open>simp_all add: tx_commit_def Let_def\<close>)
next
  case False
  with assms have "w' = w" by (auto simp: tx_commit_def Let_def split: option.splits if_splits)
  then show ?thesis by (rule that(1))
qed

lemma tx_rollback_cases:
  assumes "tx_rollback drv hp us m1 m2 w = (rc, x, w')"
  obtains "w' = w" | a where "hp = Some a" "tx_status (handles w a) = TX_STATUS_ACTIVE"
      "w' = resolve a TX_STATUS_ROLLED_BACK us (snd (tx_driver_rollback drv (session w))) w"
proof (cases "\<exists>a. hp = Some a \<and> has_ctx (handles w a) \<and> tx_status (handles w a) = TX_STATUS_ACTIVE")
  case True
  then obtain a where a: "hp = Some a" "has_ctx (handles w a)" "tx_status (handles w a) = TX_STATUS_ACTIVE"
    by blast
  show ?thesis by (rule that(2) [OF a(1,3)]) (use assms a in \<open>simp add: tx_rollback_def Let_def\<close>)
next
  case False
  with assms have "w' = w" by (auto simp: tx_rollback_def Let_def split: option.splits if_splits)
  then show ?thesis by (rule that(1))
qed

lemma tx_abort_cases:
  assumes "tx_abort drv hp why us m1 m2 w = (rc, x, w')"
  obtains "w' = w" | a where "hp = Some a" "rc = TX_OK"
      "w' = resolve a TX_STATUS_ABORTED us
              (if tx_status (handles w a) = TX_STATUS_ACTIVE then snd (tx_driver_rollback drv (session w))
               else session w) w"
proof (cases "\<exists>a. hp = Some a \<and> has_ctx (handles w a)")
  case True
  then obtain a where a: "hp = Some a" "has_ctx (handles w a)" by blast
  show ?thesis by (rule that(2) [OF a(1)]) (use assms a in \<open>simp_all add: tx_abort_def Let_def\<close>)
next
  case False
  with assms have "w' = w" by (auto simp: tx_abort_def Let_def split: option.splits if_splits)
  then show ?thesis by (rule that(1))
qed

lemma tx_timeout_cases:
  assumes "tx_check_timeout drv hp now us m1 m2 m3 m4 w = (rc, x, w')"
  obtains "w' = w" | a r y w1 where "hp = Some a" "tx_status (handles w a) = TX_STATUS_ACTIVE"
      "tx_abort drv (Some a) (Some ''idle_timeout'') us m1 m2 w = (r, y, w1)"
      "w' = set_handle a ((handles w1 a)\<lparr>tx_status := TX_STATUS_TIMED_OUT\<rparr>) w1"
proof (cases "\<exists>a. hp = Some a \<and> tx_status (handles w a) = TX_STATUS_ACTIVE \<and>
    timeout_seconds (handles w a) > 0 \<and>
    now - last_activity_epoch (handles w a) \<ge> timeout_seconds (handles w a)")
  case True
  then obtain a where a: "hp = Some a" "tx_status (handles w a) = TX_STATUS_ACTIVE"
      "\<not> timeout_seconds (handles w a) \<le> 0"
      "\<not> now - last_activity_epoch (handles w a) < timeout_seconds (handles w a)"
    by auto
  obtain r y w1 where ab: "tx_abort drv (Some a) (Some ''idle_timeout'') us m1 m2 w = (r, y, w1)"
    by (cases "tx_abort drv (Some a) (Some ''idle_timeout'') us m1 m2 w")
  show ?thesis
    by (rule that(2) [OF a(1,2) ab]) (use assms a ab in \<open>simp add: tx_check_timeout_def Let_def\<close>)
next
  case False
  with assms have "w' = w" by (auto simp: tx_check_timeout_def Let_def split: option.splits if_splits)
  then show ?thesis by (rule that(1))
qed

lemma tx_begin_cases:
  assumes "tx_begin hp sid name ini rnd us now m w = (rc, x, w')"
  obtains "w' = w" | a h where "hp = Some a" "tx_status (handles w a) \<noteq> TX_STATUS_ACTIVE"
      "tx_status h = TX_STATUS_ACTIVE" "has_ctx h"
      "w' = (set_handle a h w)\<lparr>active_tx := Some a, log_txid := Some (transaction_id h)\<rparr>"
proof (cases "\<exists>a. hp = Some a \<and> has_ctx (handles w a) \<and> tx_status (handles w a) \<noteq> TX_STATUS_ACTIVE")
  case True
  then obtain a where a: "hp = Some a" "has_ctx (handles w a)" "tx_status (handles w a) \<noteq> TX_STATUS_ACTIVE"
    by blast
  show ?thesis
    by (rule that(2) [OF a(1,3), of "handles w' a"]) (use assms a in \<open>auto simp: tx_begin_def Let_def\<close>)
next
  case False
  with assms have "w' = w" by (auto simp: tx_begin_def Let_def split: option.splits if_splits)
  then show ?thesis by (rule that(1))
qed

subsection \<open>The invariant\<close>

lemma tx_inv_resolve: "tx_inv (resolve a st us d w)"
  by (rule tx_inv_idle) simp_all

lemma tx_inv_abort: "tx_inv w \<Longrightarrow> tx_abort drv hp why us m1 m2 w = (rc, x, w') \<Longrightarrow> tx_inv w'"
  by (erule tx_abort_cases) (simp_all add: tx_inv_resolve)

lemma tx_inv_begin: "tx_inv w \<Longrightarrow> tx_begin hp sid name ini rnd us now m w = (rc, x, w') \<Longrightarrow> tx_inv w'"
  by (erule tx_begin_cases) (simp_all add: tx_inv_def)

lemma tx_inv_touch: "tx_inv w \<Longrightarrow> tx_inv (tx_touch hp now w)"
  by (cases hp; cases "active_tx w") (auto simp: tx_inv_def tx_touch_def)

lemma tx_inv_statement:
  assumes "tx_inv w" "begin_standalone_tx_if_needed a rnd w = (owned, w1)"
  shows "tx_inv (end_standalone_tx_if_owned owned (w1\<lparr>session := d\<rparr>))"
proof (cases "active_tx w")
  case None
  with assms(1) have "log_txid w = None" by (cases "log_txid w") (auto simp: tx_inv_def)
  with None assms(2) show ?thesis
    by (intro tx_inv_idle) (auto simp: begin_standalone_tx_if_needed_def end_standalone_tx_if_owned_def)
next
  case (Some b)
  with assms show ?thesis
    by (auto simp: begin_standalone_tx_if_needed_def end_standalone_tx_if_owned_def tx_inv_def)
qed

lemma tx_inv_timeout:
  assumes "tx_inv w" "tx_check_timeout drv hp now us m1 m2 m3 m4 w = (rc, x, w')"
  shows "tx_inv w'"
  using assms(2)
proof (cases rule: tx_timeout_cases)
  case 1
  with assms(1) show ?thesis by simp
next
  case (2 a r y w1)
  show ?thesis
  proof (cases "has_ctx (handles w a)")
    case True
    with 2(3) have "active_tx w1 = None \<and> log_txid w1 = None" by (auto simp: tx_abort_def Let_def)
    with 2(4) show ?thesis by (intro tx_inv_idle) simp_all
  next
    case False
    with 2(3) have "w1 = w" by (simp add: tx_abort_def)
    moreover have "active_tx w \<noteq> Some a" using False assms(1) by (auto simp: tx_inv_def)
    ultimately show ?thesis using 2(4) assms(1) by (auto simp: tx_inv_def)
  qed
qed

lemma tx_inv_step: "tx_step durable drv w w' \<Longrightarrow> tx_inv w \<Longrightarrow> tx_inv w'"
proof (induction rule: tx_step.induct)
  case (st_init w a c)
  then show ?case by (auto simp: tx_inv_def tx_init_def)
next
  case (st_commit hp us m1 m2 w rc x w')
  from st_commit.hyps st_commit.prems show ?case
    by (cases rule: tx_commit_cases) (simp_all add: tx_inv_resolve)
next
  case (st_rollback hp us m1 m2 w rc x w')
  from st_rollback.hyps st_rollback.prems show ?case
    by (cases rule: tx_rollback_cases) (simp_all add: tx_inv_resolve)
qed (blast intro: tx_inv_begin tx_inv_touch tx_inv_abort tx_inv_timeout tx_inv_statement)+

text \<open>
  What the context points at. In every state a context reaches, \<^verbatim>\<open>active_tx\<close> points at a handle
  that is ACTIVE and belongs to the context, and the thread's log lines are tagged with an identifier only
  while the transaction of that identifier is the active one.
\<close>

theorem tx_pointer_sound:
  assumes "tx_reachable durable drv w"
  shows "(\<forall>a. active_tx w = Some a \<longrightarrow> tx_status (handles w a) = TX_STATUS_ACTIVE \<and> has_ctx (handles w a)) \<and>
    (\<forall>t. log_txid w = Some t \<longrightarrow> (\<exists>a. active_tx w = Some a \<and> transaction_id (handles w a) = t))"
proof -
  from assms have "tx_inv w"
    by (induction rule: tx_reachable.induct) (auto intro: tx_inv_idle tx_inv_step)
  then show ?thesis by (simp add: tx_inv_def)
qed

text \<open>A world with one initialised handle at address 0, on which a transaction is begun.\<close>

definition one_handle :: "'d \<Rightarrow> 'd tx_world" where
  "one_handle d = \<lparr>active_tx = None, log_txid = None, session = d, handles = (\<lambda>_. fresh_handle True)\<rparr>"

definition one_begun :: "'d \<Rightarrow> 'd tx_world" where
  "one_begun d = snd (snd (tx_begin (Some 0) None None None (replicate 16 0) 5 7 True (one_handle d)))"

lemma one_begun_active: "active_tx (one_begun d) = Some 0" "session (one_begun d) = d"
    "tx_status (handles (one_begun d) 0) = TX_STATUS_ACTIVE" "has_ctx (handles (one_begun d) 0)"
    "max_retries (handles (one_begun d) 0) = 3"
  by (simp_all add: one_begun_def tx_begin_def one_handle_def fresh_handle_def Let_def)

lemma one_begun_reachable: "tx_reachable durable drv (one_begun d)"
proof (rule tx_next)
  show "tx_reachable durable drv (one_handle d)" by (rule tx_start) (simp_all add: one_handle_def)
  show "tx_step durable drv (one_handle d) (one_begun d)"
    by (rule st_begin) (auto simp: one_begun_def prod_eq_iff)
qed

lemma tx_pointer_sound_witness:
  "active_tx (one_begun (1::nat)) = Some 0 \<and> tx_status (handles (one_begun (1::nat)) 0) = TX_STATUS_ACTIVE"
  using conjunct1 [OF tx_pointer_sound [OF one_begun_reachable [of "\<lambda>_. []" None "1::nat"]]]
    one_begun_active(1) [of "1::nat"]
  by simp

subsection \<open>Durability\<close>

text \<open>
  What \<^verbatim>\<open>db_driver.h\<close> says of \<open>commit()\<close> and \<open>rollback()\<close>: 0 means the outstanding work is
  committed; any other answer means it failed, and after a retryable failure the work is still
  outstanding; a rollback commits nothing.
\<close>

definition driver_contract :: "('d \<Rightarrow> 'x list) \<Rightarrow> ('d \<Rightarrow> 'x list) \<Rightarrow> 'd tx_driver \<Rightarrow> bool" where
  "driver_contract durable pending r \<longleftrightarrow>
     (\<forall>f d rc d'. drv_commit r = Some f \<longrightarrow> f d = (rc, d') \<longrightarrow>
        (rc = 0 \<longrightarrow> durable d' = durable d @ pending d \<and> pending d' = []) \<and>
        (rc \<noteq> 0 \<longrightarrow> durable d' = durable d) \<and>
        (rc = DB_TX_RETRYABLE \<longrightarrow> pending d' = pending d)) \<and>
     (\<forall>f d rc d'. drv_rollback r = Some f \<longrightarrow> f d = (rc, d') \<longrightarrow>
        durable d' = durable d \<and> (rc = 0 \<longrightarrow> pending d' = []))"

lemma rollback_keeps:
  assumes "driver_contract durable pending r"
  shows "durable (snd (tx_driver_rollback (Some r) d)) = durable d"
proof (cases "drv_rollback r")
  case (Some f)
  obtain rc e where "f d = (rc, e)" by (cases "f d")
  with Some assms show ?thesis by (auto simp: driver_contract_def tx_driver_rollback_def)
qed (simp add: tx_driver_rollback_def)

lemma commit_loop_contract:
  assumes "driver_contract durable pending r" "drv_commit r = Some f"
  shows "commit_loop f k left d = (rc, n, e) \<Longrightarrow>
    (if rc = 0 then durable e = durable d @ pending d \<and> pending e = [] else durable e = durable d)"
proof (induction left arbitrary: k d)
  case 0
  obtain c d' where "f d = (c, d')" by (cases "f d")
  with 0 assms show ?case
    by (auto simp: driver_contract_def commit_loop.simps [of f k 0 d] split: if_splits)
next
  case (Suc l)
  obtain c d' where f: "f d = (c, d')" by (cases "f d")
  with assms have c: "c = 0 \<Longrightarrow> durable d' = durable d @ pending d \<and> pending d' = []"
      "c \<noteq> 0 \<Longrightarrow> durable d' = durable d" "c = DB_TX_RETRYABLE \<Longrightarrow> pending d' = pending d"
    unfolding driver_contract_def by blast+
  show ?case
  proof (cases "c = DB_TX_RETRYABLE")
    case True
    with Suc.prems f have "commit_loop f (k + 1) l d' = (rc, n, e)"
      by (simp add: commit_loop.simps [of f k "Suc l" d])
    from Suc.IH [OF this] True c show ?thesis by (simp add: DB_TX_RETRYABLE_def split: if_splits)
  next
    case False
    with Suc.prems f c show ?thesis
      by (auto simp: commit_loop.simps [of f k "Suc l" d] split: if_splits)
  qed
qed

lemma commit_with_retry_contract:
  assumes "driver_contract durable pending r" "tx_commit_with_retry (Some r) retries d = (rc, n, e)"
  shows "if rc = 0 then durable e = durable d @ pending d \<and> pending e = [] else durable e = durable d"
proof (cases "drv_commit r")
  case None
  with assms(2) show ?thesis by (simp add: tx_commit_with_retry_def)
next
  case (Some f)
  obtain c k e' where loop: "commit_loop f 0 (nat retries) d = (c, k, e')"
    by (cases "commit_loop f 0 (nat retries) d")
  with Some assms(2) have "e = e'" "rc = 0 \<longleftrightarrow> c = 0"
    by (auto simp: tx_commit_with_retry_def split: if_splits)
  with commit_loop_contract [OF assms(1) Some loop] show ?thesis by simp
qed


text \<open>A session is a pair: what is durable, what is outstanding.\<close>

definition pair_driver :: "(nat list \<times> nat list) tx_driver" where
  "pair_driver = \<lparr>drv_commit = Some (\<lambda>(a, b). (0, (a @ b, []))), drv_rollback = Some (\<lambda>(a, b). (0, (a, [])))\<rparr>"

lemma pair_driver_contract: "driver_contract fst snd pair_driver"
  by (auto simp: driver_contract_def pair_driver_def DB_TX_RETRYABLE_def)


subsection \<open>Aborting a transaction that is over\<close>

text \<open>An abort never undoes a commit, but it rewrites its record: on a handle that is not ACTIVE -
  committed, say - it calls no driver and leaves the database as it was, yet it marks the handle ABORTED
  and answers with an ABORT document; and it clears the context's \<^verbatim>\<open>active_tx\<close> and the thread's tag
  even when they belong to another transaction, which stays ACTIVE.\<close>

theorem tx_abort_inactive:
  assumes "has_ctx (handles w a)" and "tx_status (handles w a) \<noteq> TX_STATUS_ACTIVE"
    and "tx_abort drv (Some a) why us m1 m2 w = (rc, x, w')"
  shows "rc = TX_OK \<and> session w' = session w \<and> tx_status (handles w' a) = TX_STATUS_ABORTED \<and>
    active_tx w' = None \<and> log_txid w' = None \<and> (\<forall>b. b \<noteq> a \<longrightarrow> handles w' b = handles w b)"
  using assms by (auto simp: tx_abort_def Let_def resolve_def)

lemma tx_abort_inactive_witness:
  "let w = one_begun (0::nat); w' = snd (snd (tx_abort None (Some 1) None 8 True True w))
   in active_tx w = Some 0 \<and> active_tx w' = None \<and> tx_status (handles w' 0) = TX_STATUS_ACTIVE"
proof -
  let ?w = "one_begun (0::nat)"
  have other: "has_ctx (handles ?w 1)" "tx_status (handles ?w 1) \<noteq> TX_STATUS_ACTIVE"
    by (simp_all add: one_begun_def tx_begin_def one_handle_def fresh_handle_def Let_def)
  obtain rc x w' where c: "tx_abort None (Some 1) None 8 True True ?w = (rc, x, w')"
    by (cases "tx_abort None (Some 1) None 8 True True ?w")
  from tx_abort_inactive [OF other c] have "active_tx w' = None" "handles w' 0 = handles ?w 0" by simp_all
  with c one_begun_active [of "0::nat"] show ?thesis by (simp add: Let_def)
qed

subsection \<open>Identifiers\<close>

lemma hex_digit_cases: "n < 16 \<Longrightarrow> hex_digit n \<in> set ''0123456789abcdef''"
  unfolding hex_digit_def by (rule nth_mem) simp

lemma hex_digit_inj: "m < 16 \<Longrightarrow> n < 16 \<Longrightarrow> hex_digit m = hex_digit n \<Longrightarrow> m = n"
  unfolding hex_digit_def by (subst (asm) nth_eq_iff_index_eq) simp_all

lemma high_nibble: "unat (drop_bit 4 (b :: 8 word)) < 16"
proof -
  have "unat b < 256" using unsigned_less [of b] by simp
  then show ?thesis by (simp add: drop_bit_eq_div unat_div)
qed

lemma low_nibble: "unat (b AND 15 :: 8 word) < 16"
proof -
  have "b AND 15 = take_bit 4 b" by (simp add: take_bit_eq_mask mask_numeral)
  then show ?thesis by (simp add: take_bit_eq_mod unat_mod)
qed

lemma hex2_hex: "set (hex2 b) \<subseteq> set ''0123456789abcdef''"
  using hex_digit_cases [OF high_nibble] hex_digit_cases [OF low_nibble] by (simp add: hex2_def)

lemma length_hex2 [simp]: "length (hex2 b) = 2"
  by (simp add: hex2_def)

lemma version_digit: "hex2 ((b AND 0x0F) OR 0x40 :: 8 word) ! 0 = CHR ''4''"
proof -
  have "drop_bit 4 ((b AND 0x0F) OR 0x40) = (drop_bit 4 b AND drop_bit 4 0x0F) OR drop_bit 4 (0x40 :: 8 word)"
    by (simp only: drop_bit_and drop_bit_or)
  also have "\<dots> = 4" by simp
  finally show ?thesis by (simp add: hex2_def hex_digit_def)
qed

lemma variant_digit: "hex2 ((b AND 0x3F) OR 0x80 :: 8 word) ! 0 \<in> set ''89ab''"
proof -
  have "drop_bit 4 ((b AND 0x3F) OR 0x80) = (drop_bit 4 b AND drop_bit 4 0x3F) OR drop_bit 4 (0x80 :: 8 word)"
    by (simp only: drop_bit_and drop_bit_or)
  also have "\<dots> = (drop_bit 4 b AND 3) OR 8" by simp
  also have "drop_bit 4 b AND 3 = take_bit 2 (drop_bit 4 b)" by (simp add: take_bit_eq_mask mask_numeral)
  finally have d: "drop_bit 4 ((b AND 0x3F) OR 0x80) = take_bit 2 (drop_bit 4 b) OR 8" .
  have "unat (take_bit 2 (drop_bit 4 b)) < 4" by (simp add: take_bit_eq_mod unat_mod)
  then have "unat (take_bit 2 (drop_bit 4 b)) \<in> {0, 1, 2, 3}" by auto
  then have "take_bit 2 (drop_bit 4 b) \<in> {0, 1, 2, 3}"
    by (simp add: word_unat_eq_iff)
  with d show ?thesis by (auto simp: hex2_def hex_digit_def)
qed

lemma concat_hex2: "length (concat (map hex2 bs)) = 2 * length bs" "set (concat (map hex2 bs)) \<subseteq> set ''0123456789abcdef''"
  using hex2_hex by (induction bs) auto

lemma hex2_inj: "hex2 a = hex2 b \<Longrightarrow> a = b"
proof -
  assume "hex2 a = hex2 b"
  then have "hex_digit (unat (drop_bit 4 a)) = hex_digit (unat (drop_bit 4 b))"
      "hex_digit (unat (a AND 15)) = hex_digit (unat (b AND 15))"
    by (simp_all add: hex2_def)
  then have "drop_bit 4 a = drop_bit 4 b" "a AND 15 = b AND 15"
    using hex_digit_inj high_nibble low_nibble by (metis word_unat_eq_iff)+
  then have "push_bit 4 (drop_bit 4 a) + take_bit 4 a = push_bit 4 (drop_bit 4 b) + take_bit 4 b"
    by (simp add: take_bit_eq_mask mask_numeral)
  then show "a = b" by (simp add: bits_ident)
qed

lemma concat_hex2_inj: "concat (map hex2 as) = concat (map hex2 bs) \<Longrightarrow> as = bs"
proof (induction as arbitrary: bs)
  case Nil
  then show ?case by (cases bs) (auto simp: hex2_def)
next
  case (Cons a as)
  then obtain b bs' where b: "bs = b # bs'" by (cases bs) (auto simp: hex2_def)
  with Cons.prems have "hex2 a = hex2 b \<and> concat (map hex2 as) = concat (map hex2 bs')"
    by (simp add: append_eq_append_conv)
  with b show ?case using Cons.IH hex2_inj by blast
qed

lemma uuid_text:
  assumes "length rnd = 16"
  shows "tx_generate_uuid rnd =
    concat (map hex2 (take 4 (uuid_bytes rnd))) @ ''-'' @ concat (map hex2 (take 2 (drop 4 (uuid_bytes rnd)))) @
    ''-'' @ concat (map hex2 (take 2 (drop 6 (uuid_bytes rnd)))) @ ''-'' @
    concat (map hex2 (take 2 (drop 8 (uuid_bytes rnd)))) @ ''-'' @ concat (map hex2 (take 6 (drop 10 (uuid_bytes rnd))))"
proof -
  define b where "b = uuid_bytes rnd"
  have lb: "length b = 16" using assms by (simp add: b_def uuid_bytes_def)
  show ?thesis
    unfolding tx_generate_uuid_def Let_def b_def [symmetric] TX_UUID_LEN_def drop_0
    by (rule c_snprintf_id) (simp only: length_append concat_hex2(1) length_take length_drop lb, simp)
qed

lemma hex_pair: "i + 1 < length bs \<Longrightarrow> concat (map hex2 (take 2 (drop i bs))) = hex2 (bs ! i) @ hex2 (bs ! (i + 1))"
proof -
  assume "i + 1 < length bs"
  then have "drop i bs = bs ! i # bs ! (i + 1) # drop (i + 2) bs"
    by (metis Cons_nth_drop_Suc Suc_eq_plus1 Suc_lessD add_2_eq_Suc')
  then show ?thesis by simp
qed

text \<open>The identifiers are version-4 UUIDs. Whatever the 16 random bytes, the text has 36 characters
  (the buffer of 37 cuts nothing): lower-case hexadecimal digits in groups of 8, 4, 4, 4 and 12, the
  version digit 4 and a variant digit 8, 9, a or b; and two identifiers are equal only if all the bits the
  standard leaves free are.\<close>

theorem tx_uuid_shape:
  assumes "length rnd = 16" and "u = tx_generate_uuid rnd"
  shows "length u = 36 \<and> u ! 8 = CHR ''-'' \<and> u ! 13 = CHR ''-'' \<and> u ! 18 = CHR ''-'' \<and> u ! 23 = CHR ''-'' \<and>
    u ! 14 = CHR ''4'' \<and> u ! 19 \<in> set ''89ab'' \<and> set u \<subseteq> set ''-0123456789abcdef'' \<and>
    (\<forall>rnd'. length rnd' = 16 \<and> tx_generate_uuid rnd' = u \<longrightarrow> uuid_bytes rnd' = uuid_bytes rnd)"
proof (intro conjI allI impI)
  define b where "b = uuid_bytes rnd"
  have len: "length (uuid_bytes r) = length r" for r by (simp add: uuid_bytes_def)
  with assms have lb: "length b = 16" by (simp add: b_def)
  let ?h = "\<lambda>i n. concat (map hex2 (take n (drop i b)))"
  have u: "u = ?h 0 4 @ ''-'' @ ?h 4 2 @ ''-'' @ ?h 6 2 @ ''-'' @ ?h 8 2 @ ''-'' @ ?h 10 6"
    using uuid_text [OF assms(1)] assms(2) by (simp add: b_def)
  have l: "length (?h 0 4) = 8" "length (?h 4 2) = 4" "length (?h 6 2) = 4" "length (?h 8 2) = 4" "length (?h 10 6) = 12"
    using lb by (simp_all add: concat_hex2(1))
  show "length u = 36" using u l by simp
  show "u ! 8 = CHR ''-''" "u ! 13 = CHR ''-''" "u ! 18 = CHR ''-''" "u ! 23 = CHR ''-''"
    using l by (simp_all add: u nth_append)
  have b6: "b ! 6 = (rnd ! 6 AND 0x0F) OR 0x40" and b8: "b ! 8 = (rnd ! 8 AND 0x3F) OR 0x80"
    using assms(1) by (simp_all add: b_def uuid_bytes_def)
  have "u ! 14 = ?h 6 2 ! 0" "u ! 19 = ?h 8 2 ! 0" using l by (simp_all add: u nth_append)
  then have "u ! 14 = hex2 (b ! 6) ! 0" "u ! 19 = hex2 (b ! 8) ! 0"
    using lb by (simp_all add: hex_pair nth_append)
  then show "u ! 14 = CHR ''4''" "u ! 19 \<in> set ''89ab''"
    using b6 b8 version_digit variant_digit by simp_all
  show "set u \<subseteq> set ''-0123456789abcdef''"
  proof -
    have "set (concat (map hex2 xs)) \<subseteq> set ''-0123456789abcdef''" for xs
      by (rule subset_trans [OF concat_hex2(2)]) auto
    then show ?thesis by (simp only: u set_append Un_subset_iff) simp
  qed
  fix rnd' assume r: "length rnd' = 16 \<and> tx_generate_uuid rnd' = u"
  define c where "c = uuid_bytes rnd'"
  let ?g = "\<lambda>i n. concat (map hex2 (take n (drop i c)))"
  have lc: "length c = 16" using r len by (simp add: c_def)
  have "u = ?g 0 4 @ ''-'' @ ?g 4 2 @ ''-'' @ ?g 6 2 @ ''-'' @ ?g 8 2 @ ''-'' @ ?g 10 6"
    using uuid_text [of rnd'] r by (simp add: c_def)
  with u l lb lc have "?g 0 4 = ?h 0 4" "?g 4 2 = ?h 4 2" "?g 6 2 = ?h 6 2" "?g 8 2 = ?h 8 2" "?g 10 6 = ?h 10 6"
    by (simp_all add: append_eq_append_conv concat_hex2(1))
  note parts = this [THEN concat_hex2_inj]
  have split: "xs = take 4 (drop 0 xs) @ take 2 (drop 4 xs) @ take 2 (drop 6 xs) @ take 2 (drop 8 xs) @ take 6 (drop 10 xs)"
    if "length xs = 16" for xs :: "8 word list"
  proof -
    have step: "drop i xs = take n (drop i xs) @ drop (n + i) xs" for i n
      by (metis append_take_drop_id drop_drop)
    have "take 6 (drop 10 xs) = drop 10 xs" using that by simp
    with step [of 0 4] step [of 4 2] step [of 6 2] step [of 8 2] show ?thesis by simp
  qed
  show "uuid_bytes rnd' = uuid_bytes rnd"
    using split [OF lc] split [OF lb] parts by (simp only: b_def [symmetric] c_def [symmetric])
qed

lemma tx_uuid_shape_witness:
  "tx_generate_uuid (replicate 16 255) ! 14 = CHR ''4'' \<and> length (tx_generate_uuid (replicate 16 255)) = 36"
  using tx_uuid_shape [OF length_replicate refl, of 255] by simp

subsection \<open>The XML answers are complete\<close>

lemma length_dec_signed: "\<bar>i\<bar> < 10 ^ k \<Longrightarrow> 0 < k \<Longrightarrow> length (dec_int i) \<le> k + 1"
proof -
  assume i: "\<bar>i\<bar> < 10 ^ k" and k: "0 < k"
  have "nat j < 10 ^ k" if "\<bar>j\<bar> < 10 ^ k" for j :: int
    using that by (simp add: nat_less_iff)
  from length_dec_le [OF this [of i] k] length_dec_le [OF this [of "- i"] k] i
  show ?thesis by (simp add: dec_int_def)
qed

lemma word64_less: "unat (x :: 64 word) < 18446744073709551616"
proof -
  have "unat x < 2 ^ LENGTH(64)" by (rule unsigned_less)
  then show ?thesis by simp
qed

lemma dec_word64: "length (dec (unat (x :: 64 word))) \<le> 20"
  using word64_less [of x] by (intro length_dec_le) simp_all

lemma length_duration_xml: "length (duration_xml us) \<le> 102"
proof -
  note word64_less [of us]
  then have "length (dec (unat us div 1000000)) \<le> 14" by (intro length_dec_le) (simp_all add: div_less_iff_less_mult)
  moreover have "length (dec_pad 6 (unat us mod 1000000)) = 6" by (intro length_dec_pad) simp_all
  ultimately show ?thesis using dec_word64 [of us]
    by (simp add: duration_xml_def seconds_text_def LF_def)
qed

lemma length_status: "length (tx_status_str s) \<le> 11"
  by (cases s) simp_all

lemma xml_field_length: "length (xml_field n v) = 2 * length n + length v + 8"
  by (simp add: xml_field_def LF_def)

definition ids_fit :: "tx_handle \<Rightarrow> bool" where
  "ids_fit h \<longleftrightarrow> length (transaction_id h) \<le> 36 \<and> length (session_id h) \<le> 36 \<and> length (tx_name h) \<le> 127"

lemma result_xml_fits:
  assumes "ids_fit h" "length op \<le> 8" "length extra \<le> 255"
  shows "length (result_xml_text h op extra) < 2048"
  using assms length_status [of "tx_status h"]
  by (simp add: result_xml_text_def xml_field_length xml_header_def LF_def ids_fit_def)

lemma begin_xml_fits:
  assumes "ids_fit h" "\<bar>timeout_seconds h\<bar> < 10 ^ 10" "\<bar>max_retries h\<bar> < 10 ^ 10"
  shows "length (begin_xml_text h) < 1024"
proof -
  have "length (tx_timestamp_str (start_time_us h) 32) \<le> 31" by (simp add: tx_timestamp_str_def c_snprintf_def)
  with assms length_dec_signed [OF assms(2)] length_dec_signed [OF assms(3)] length_status [of "tx_status h"]
  show ?thesis by (simp add: begin_xml_text_def xml_field_length xml_header_def LF_def ids_fit_def)
qed

lemma length_or_dash: "length s \<le> n \<Longrightarrow> length (c_strncpy (Suc n) s) \<le> n"
  by simp

lemma tx_begin_ids:
  assumes "tx_begin (Some a) sid name ini rnd us now m w = (TX_OK, x, w')" and "length rnd = 16"
  shows "ids_fit (handles w' a) \<and> has_ctx (handles w' a) \<and> tx_status (handles w' a) = TX_STATUS_ACTIVE \<and>
    start_time_us (handles w' a) = us \<and> x = Xml (tx_build_begin_xml m (handles w' a)) \<and>
    timeout_seconds (handles w' a) = (case ini of None \<Rightarrow> 300 | Some i \<Rightarrow> ini_timeout_seconds i) \<and>
    max_retries (handles w' a) = (case ini of None \<Rightarrow> 3 | Some i \<Rightarrow> ini_max_retries i)"
proof -
  have "length (tx_generate_uuid rnd) \<le> 36"
    by (simp add: tx_generate_uuid_def TX_UUID_LEN_def Let_def c_snprintf_def)
  with assms(1) show ?thesis
    by (auto simp: tx_begin_def Let_def ids_fit_def TX_UUID_LEN_def tx_codes split: if_splits)
qed

text \<open>The answers are whole documents. For a transaction begun with settings in the range of
  \<^verbatim>\<open>int\<close>, the BEGIN and the COMMIT document are written completely: no field, and not the closing
  tag, is cut by the buffers, and the second allocation of the result builder is never needed.\<close>

theorem tx_answers_complete:
  assumes "tx_begin (Some a) sid name ini rnd us now True w = (TX_OK, x, w1)" and "length rnd = 16"
    and "\<And>i. ini = Some i \<Longrightarrow> \<bar>ini_timeout_seconds i\<bar> \<le> 2 ^ 31 \<and> \<bar>ini_max_retries i\<bar> \<le> 2 ^ 31"
    and "tx_commit drv (Some a) us2 True m2 w1 = (rc, y, w2)"
  shows "x = Xml (Some (begin_xml_text (handles w1 a))) \<and>
    y = Xml (Some (result_xml_text (handles w2 a) ''COMMIT'' (duration_xml (us2 - us))))"
proof -
  note b = tx_begin_ids [OF assms(1,2)]
  have "\<bar>timeout_seconds (handles w1 a)\<bar> < 10 ^ 10" "\<bar>max_retries (handles w1 a)\<bar> < 10 ^ 10"
    using b assms(3) by (cases ini; force)+
  with b have x: "x = Xml (Some (begin_xml_text (handles w1 a)))"
    using begin_xml_fits [of "handles w1 a"] by (simp add: tx_build_begin_xml_def)
  obtain c n d where r: "tx_commit_with_retry drv (max_retries (handles w1 a)) (session w1) = (c, n, d)"
    by (cases "tx_commit_with_retry drv (max_retries (handles w1 a)) (session w1)")
  have e: "c_snprintf 128 (duration_xml (us2 - us)) = duration_xml (us2 - us)"
    using length_duration_xml [of "us2 - us"] by (intro c_snprintf_id) simp
  from assms(4) b r e have y: "y = resolved_xml True m2 a ''COMMIT'' (duration_xml (us2 - us)) w2"
    by (auto simp: tx_commit_def Let_def)
  from assms(4) b r have "ids_fit (handles w2 a)"
    by (auto simp: tx_commit_def Let_def resolve_def ids_fit_def)
  from result_xml_fits [OF this, of "''COMMIT''" "duration_xml (us2 - us)"] length_duration_xml [of "us2 - us"]
  have "length (result_xml_text (handles w2 a) ''COMMIT'' (duration_xml (us2 - us))) < 2048" by simp
  with x y show ?thesis by (simp add: resolved_xml_def tx_build_result_xml_def Let_def)
qed

lemma tx_answers_complete_witness:
  "let (rc1, x, w1) = tx_begin (Some 0) None None None (replicate 16 0) 5 7 True (one_handle (0::nat));
       (rc2, y, w2) = tx_commit None (Some 0) 1000005 True False w1
   in y = Xml (Some (result_xml_text (handles w2 0) ''COMMIT'' (duration_xml 1000000)))"
proof -
  obtain rc x w1 where b: "tx_begin (Some 0) None None None (replicate 16 0) 5 7 True (one_handle (0::nat)) = (rc, x, w1)"
    by (cases "tx_begin (Some 0) None None None (replicate 16 0) 5 7 True (one_handle (0::nat))")
  then have "rc = TX_OK"
    by (simp add: tx_begin_def one_handle_def fresh_handle_def Let_def prod_eq_iff)
  note b' = b [unfolded this]
  obtain rc2 y w2 where c: "tx_commit None (Some 0) 1000005 True False w1 = (rc2, y, w2)"
    by (cases "tx_commit None (Some 0) 1000005 True False w1")
  have "y = Xml (Some (result_xml_text (handles w2 0) ''COMMIT'' (duration_xml (1000005 - 5))))"
    using tx_answers_complete [OF b' _ _ c] by simp
  with b c show ?thesis by simp
qed

end
