(* ===== verification/Session_Pool.thy ===== *)
theory Session_Pool
  imports C_Prelude
begin

text \<open>
  The contract of a pool of database sessions, which \<^verbatim>\<open>Connection_Pool.c\<close> and \<^verbatim>\<open>MSSQL_Pool.c\<close>
  both offer to the worker threads through \<^verbatim>\<open>db_driver.h\<close>, and what it gives the workers: whatever
  they do, in any order, no two of them ever work on one connection. The contract is the locale
  \<open>session_pool\<close>; the run of the workers is proved in it once.
\<close>

subsection \<open>Searching the slot array\<close>

text \<open>The loops that take the first slot with a property.\<close>

fun first_index :: "('a \<Rightarrow> bool) \<Rightarrow> nat \<Rightarrow> 'a list \<Rightarrow> nat option" where
  "first_index P i [] = None"
| "first_index P i (x # xs) = (if P x then Some i else first_index P (i + 1) xs)"

lemma first_index_Some:
  "first_index P k xs = Some i \<Longrightarrow>
     k \<le> i \<and> i < k + length xs \<and> P (xs ! (i - k)) \<and> (\<forall>j < i - k. \<not> P (xs ! j))"
proof (induction P k xs rule: first_index.induct)
  case (2 P k x xs)
  show ?case
  proof (cases "P x")
    case True
    with "2.prems" show ?thesis by simp
  next
    case False
    with "2.prems" have rec: "first_index P (k + 1) xs = Some i" by simp
    from "2.IH" [OF False rec]
    have ih: "k + 1 \<le> i" "i < k + 1 + length xs" "P (xs ! (i - (k + 1)))"
        "\<forall>j < i - (k + 1). \<not> P (xs ! j)" by auto
    define m where "m = i - (k + 1)"
    have m: "i - k = Suc m" using ih(1) by (simp add: m_def)
    have "\<forall>j < Suc m. \<not> P ((x # xs) ! j)"
      using ih(4) False by (simp add: m_def All_less_Suc2)
    with ih m show ?thesis by (simp add: m_def)
  qed
qed simp

lemma first_index_None: "first_index P k xs = None \<longleftrightarrow> (\<forall>x \<in> set xs. \<not> P x)"
  by (induction P k xs rule: first_index.induct) auto

lemmas first_index_0 = first_index_Some [where k = 0, simplified]

subsection \<open>Accounts of a slot array\<close>

text \<open>
  \<open>H s\<close> are the handles slot \<open>s\<close> holds. The slots share no handle, and what is allocated is what the slots
  hold and \<open>A\<close>, which belongs to others.
\<close>

lemma count_update:
  "i < length xs \<Longrightarrow> int (length (filter P (xs[i := x]))) =
     int (length (filter P xs)) - (if P (xs ! i) then 1 else 0) + (if P x then 1 else 0)"
proof (induction xs arbitrary: i)
  case (Cons y xs)
  show ?case
  proof (cases i)
    case (Suc m)
    then have "m < length xs" using Cons.prems by simp
    from Cons.IH [OF this] Suc show ?thesis by (cases "P (xs ! m)"; cases "P x") simp_all
  qed simp
qed simp

lemma UN_update:
  assumes "i < length xs"
  shows "(\<Union>j < length xs. f (xs[i := x] ! j)) = (\<Union>j \<in> {..<length xs} - {i}. f (xs ! j)) \<union> f x"
proof -
  have "{..<length xs} = insert i ({..<length xs} - {i})" using assms by auto
  then have "(\<Union>j < length xs. f (xs[i := x] ! j)) =
      f (xs[i := x] ! i) \<union> (\<Union>j \<in> {..<length xs} - {i}. f (xs[i := x] ! j))"
    by (metis UN_insert)
  with assms show ?thesis by (auto simp: nth_list_update)
qed

lemma UN_remove:
  assumes i: "i < n" and H: "\<forall>j < n. j \<noteq> i \<longrightarrow> H j \<inter> H i = {}" and A: "H i \<inter> A = {}"
  shows "A \<union> (\<Union>j < n. H j) - H i = A \<union> (\<Union>j \<in> {..<n} - {i}. H j)"
proof -
  let ?R = "\<Union>j \<in> {..<n} - {i}. H j"
  have "{..<n} = insert i ({..<n} - {i})" using i by auto
  then have "(\<Union>j < n. H j) = H i \<union> ?R" by (metis UN_insert)
  moreover have "?R \<inter> H i = {}" using H by blast
  ultimately show ?thesis using A by blast
qed

definition slot_accounts :: "('s \<Rightarrow> nat set) \<Rightarrow> nat set \<Rightarrow> nat set \<Rightarrow> 's list \<Rightarrow> bool" where
  "slot_accounts H A al xs \<longleftrightarrow>
     (\<forall>i < length xs. \<forall>j < length xs. i \<noteq> j \<longrightarrow> H (xs ! i) \<inter> H (xs ! j) = {}) \<and>
     (\<forall>i < length xs. H (xs ! i) \<inter> A = {}) \<and> al = A \<union> (\<Union>i < length xs. H (xs ! i))"

lemma slot_accountsI:
  assumes "\<And>i j. i < length xs \<Longrightarrow> j < length xs \<Longrightarrow> i \<noteq> j \<Longrightarrow> H (xs ! i) \<inter> H (xs ! j) = {}"
    "\<And>i. i < length xs \<Longrightarrow> H (xs ! i) \<inter> A = {}" "al = A \<union> (\<Union>i < length xs. H (xs ! i))"
  shows "slot_accounts H A al xs"
  using assms unfolding slot_accounts_def by (intro conjI allI impI) simp_all

lemma slot_accountsD:
  assumes "slot_accounts H A al xs"
  shows "i < length xs \<Longrightarrow> j < length xs \<Longrightarrow> i \<noteq> j \<Longrightarrow> H (xs ! i) \<inter> H (xs ! j) = {}"
    "i < length xs \<Longrightarrow> H (xs ! i) \<inter> A = {}" "al = A \<union> (\<Union>i < length xs. H (xs ! i))"
proof -
  note c = assms [unfolded slot_accounts_def]
  show "i < length xs \<Longrightarrow> j < length xs \<Longrightarrow> i \<noteq> j \<Longrightarrow> H (xs ! i) \<inter> H (xs ! j) = {}"
    using conjunct1 [OF c] by iprover
  show "i < length xs \<Longrightarrow> H (xs ! i) \<inter> A = {}" using conjunct1 [OF conjunct2 [OF c]] by iprover
  show "al = A \<union> (\<Union>i < length xs. H (xs ! i))" by (rule conjunct2 [OF conjunct2 [OF c]])
qed

lemma slot_accounts_replace:
  assumes acc: "slot_accounts H A al xs" and i: "i < length xs" and s: "H s \<inter> al = {}"
    and al2: "al2 = (al - H (xs ! i)) \<union> H s"
  shows "slot_accounts H A al2 (xs[i := s])"
proof (rule slot_accountsI)
  note a = slot_accountsD [OF acc]
  have out: "H s \<inter> H (xs ! j) = {}" if "j < length xs" for j using s a(3) that by blast
  show "H (xs[i := s] ! j) \<inter> H (xs[i := s] ! k) = {}"
    if "j < length (xs[i := s])" "k < length (xs[i := s])" "j \<noteq> k" for j k
    using that a(1) [of j k] out [of j] out [of k] by (cases "j = i"; cases "k = i") (simp_all add: Int_commute)
  have "H s \<inter> A = {}" using s a(3) by blast
  then show "H (xs[i := s] ! j) \<inter> A = {}" if "j < length (xs[i := s])" for j
    using that a(2) [of j] by (cases "j = i") simp_all
  have "al - H (xs ! i) = A \<union> (\<Union>j \<in> {..<length xs} - {i}. H (xs ! j))"
    unfolding a(3) using UN_remove [OF i, of "\<lambda>j. H (xs ! j)" A] a(1) [OF _ i] a(2) [OF i] by simp
  then show "al2 = A \<union> (\<Union>j < length (xs[i := s]). H (xs[i := s] ! j))"
    using UN_update [OF i, of H s] al2 by (simp add: Un_assoc)
qed

lemma slot_accounts_mark:
  assumes acc: "slot_accounts H A al xs" and i: "i < length xs" and s: "H s = H (xs ! i)"
  shows "slot_accounts H A al (xs[i := s])"
proof -
  have h: "H (xs[i := s] ! j) = H (xs ! j)" for j using s i by (cases "j = i") simp_all
  show ?thesis
    by (rule slot_accountsI; unfold h length_list_update) (use slot_accountsD [OF acc] in blast)+
qed

subsection \<open>Slots in use\<close>

text \<open>What an operation does to the slots in use: it leaves them alone, or takes one more, slot \<open>i\<close>.\<close>

definition kept_slots :: "('s \<Rightarrow> bool) \<Rightarrow> 's list \<Rightarrow> 's list \<Rightarrow> bool" where
  "kept_slots busy xs ys \<longleftrightarrow>
     length ys = length xs \<and>
     (\<forall>j < length xs. (busy (ys ! j) \<longleftrightarrow> busy (xs ! j)) \<and> (busy (xs ! j) \<longrightarrow> ys ! j = xs ! j))"

definition lent_slot :: "('s \<Rightarrow> bool) \<Rightarrow> nat \<Rightarrow> 's list \<Rightarrow> 's list \<Rightarrow> bool" where
  "lent_slot busy i xs ys \<longleftrightarrow>
     length ys = length xs \<and> i < length xs \<and> \<not> busy (xs ! i) \<and> busy (ys ! i) \<and>
     (\<forall>j < length xs. j \<noteq> i \<longrightarrow> (busy (ys ! j) \<longleftrightarrow> busy (xs ! j)) \<and> (busy (xs ! j) \<longrightarrow> ys ! j = xs ! j))"

definition busy_slots :: "('s \<Rightarrow> bool) \<Rightarrow> 's list \<Rightarrow> nat set" where
  "busy_slots busy xs = {i. i < length xs \<and> busy (xs ! i)}"

lemma kept_slots_refl [simp]: "kept_slots busy xs xs"
  by (simp add: kept_slots_def)

lemma kept_slots_trans: "kept_slots busy xs ys \<Longrightarrow> kept_slots busy ys zs \<Longrightarrow> kept_slots busy xs zs"
  by (simp add: kept_slots_def)

lemma kept_lent: "kept_slots busy xs ys \<Longrightarrow> lent_slot busy i ys zs \<Longrightarrow> lent_slot busy i xs zs"
  by (auto simp: kept_slots_def lent_slot_def)

text \<open>A step on a slot that is not in use and does not become so.\<close>

lemma kept_slots_one:
  assumes "length ys = length xs" "\<And>j. j \<noteq> i \<Longrightarrow> ys ! j = xs ! j" "\<not> busy (xs ! i)" "\<not> busy (ys ! i)"
  shows "kept_slots busy xs ys"
proof -
  have "(busy (ys ! j) \<longleftrightarrow> busy (xs ! j)) \<and> (busy (xs ! j) \<longrightarrow> ys ! j = xs ! j)" for j
    using assms by (cases "j = i") simp_all
  with assms(1) show ?thesis by (simp add: kept_slots_def)
qed

lemma kept_busy: "kept_slots busy xs ys \<Longrightarrow> busy_slots busy ys = busy_slots busy xs"
  by (auto simp: kept_slots_def busy_slots_def)

lemma kept_nth: "kept_slots busy xs ys \<Longrightarrow> i \<in> busy_slots busy xs \<Longrightarrow> ys ! i = xs ! i"
  by (simp add: kept_slots_def busy_slots_def)

lemma lent_busy:
  assumes "lent_slot busy i xs ys"
  shows "i \<notin> busy_slots busy xs" "busy_slots busy ys = insert i (busy_slots busy xs)"
    "j \<in> busy_slots busy xs \<Longrightarrow> ys ! j = xs ! j"
proof -
  show "i \<notin> busy_slots busy xs" using assms by (simp add: lent_slot_def busy_slots_def)
  have "j \<in> busy_slots busy ys \<longleftrightarrow> j \<in> insert i (busy_slots busy xs)" for j
    using assms by (cases "j = i") (auto simp: lent_slot_def busy_slots_def)
  then show "busy_slots busy ys = insert i (busy_slots busy xs)" by blast
  show "ys ! j = xs ! j" if "j \<in> busy_slots busy xs"
    using assms that by (cases "j = i") (auto simp: lent_slot_def busy_slots_def)
qed

lemma freed_busy:
  assumes "length ys = length xs" "\<And>j. j \<noteq> i \<Longrightarrow> ys ! j = xs ! j" "\<not> busy (ys ! i)"
  shows "busy_slots busy ys = busy_slots busy xs - {i}"
proof -
  have "j \<in> busy_slots busy ys \<longleftrightarrow> j \<in> busy_slots busy xs - {i}" for j
    using assms by (cases "j = i") (simp_all add: busy_slots_def)
  then show ?thesis by blast
qed

subsection \<open>Workers\<close>

text \<open>
  What may happen: a worker without a session asks for one (one round of the borrowing loop), a worker
  gives its session back, or the pool is maintained. The environment of a step (clock, answers of the
  client library) is \<open>'e\<close>.
\<close>

datatype 'e pool_event = Borrow 'e nat | Return 'e nat | Maintain 'e

text \<open>A worker holds the slot's number and the connection it was given.\<close>

type_synonym 'h holders = "nat \<Rightarrow> (nat \<times> 'h) option"

definition pool_step ::
    "('p \<Rightarrow> nat \<Rightarrow> 'h option) \<Rightarrow> ('e \<Rightarrow> 'p \<Rightarrow> 'p \<times> nat option) \<Rightarrow> ('e \<Rightarrow> nat \<Rightarrow> 'p \<Rightarrow> 'p) \<Rightarrow> ('e \<Rightarrow> 'p \<Rightarrow> 'p) \<Rightarrow>
     'e pool_event \<Rightarrow> 'p \<times> 'h holders \<Rightarrow> 'p \<times> 'h holders" where
  "pool_step conn borrow give_back maintain ev st =
     (case st of (p, hold) \<Rightarrow>
        (case ev of
           Borrow e w \<Rightarrow>
             (if hold w \<noteq> None then (p, hold)
              else (case borrow e p of
                  (q, None) \<Rightarrow> (q, hold)
                | (q, Some i) \<Rightarrow> (q, hold(w := Some (i, the (conn q i))))))
         | Return e w \<Rightarrow>
             (case hold w of None \<Rightarrow> (p, hold) | Some (i, _) \<Rightarrow> (give_back e i p, hold(w := None)))
         | Maintain e \<Rightarrow> (maintain e p, hold)))"

definition held_by ::
    "('p \<Rightarrow> nat set) \<Rightarrow> ('p \<Rightarrow> nat \<Rightarrow> 'h option) \<Rightarrow> ('p \<Rightarrow> bool) \<Rightarrow> 'p \<times> 'h holders \<Rightarrow> bool" where
  "held_by lent conn pool_ok st \<longleftrightarrow>
     (case st of (p, hold) \<Rightarrow>
        pool_ok p \<and> (\<forall>w i h. hold w = Some (i, h) \<longrightarrow> i \<in> lent p \<and> conn p i = Some h) \<and>
        (\<forall>v w i g h. hold v = Some (i, g) \<longrightarrow> hold w = Some (i, h) \<longrightarrow> v = w) \<and>
        (\<forall>i \<in> lent p. \<exists>w h. hold w = Some (i, h)))"

locale session_pool =
  fixes lent :: "'p \<Rightarrow> nat set"
    and conn :: "'p \<Rightarrow> nat \<Rightarrow> 'h option"
    and pool_ok :: "'p \<Rightarrow> bool"
    and borrow :: "'e \<Rightarrow> 'p \<Rightarrow> 'p \<times> nat option"
    and give_back :: "'e \<Rightarrow> nat \<Rightarrow> 'p \<Rightarrow> 'p"
    and maintain :: "'e \<Rightarrow> 'p \<Rightarrow> 'p"
  assumes conn_live: "pool_ok p \<Longrightarrow> i \<in> lent p \<Longrightarrow> conn p i \<noteq> None"
    and conn_distinct: "pool_ok p \<Longrightarrow> i \<in> lent p \<Longrightarrow> j \<in> lent p \<Longrightarrow> conn p i = conn p j \<Longrightarrow> i = j"
    and borrow_ok: "pool_ok p \<Longrightarrow> pool_ok (fst (borrow e p))"
    and borrow_keeps: "pool_ok p \<Longrightarrow> i \<in> lent p \<Longrightarrow> conn (fst (borrow e p)) i = conn p i"
    and borrow_none: "pool_ok p \<Longrightarrow> snd (borrow e p) = None \<Longrightarrow> lent (fst (borrow e p)) = lent p"
    and borrow_some: "pool_ok p \<Longrightarrow> snd (borrow e p) = Some i \<Longrightarrow>
      i \<notin> lent p \<and> lent (fst (borrow e p)) = insert i (lent p)"
    and back_ok: "pool_ok p \<Longrightarrow> i \<in> lent p \<Longrightarrow> pool_ok (give_back e i p)"
    and back_lent: "pool_ok p \<Longrightarrow> i \<in> lent p \<Longrightarrow> lent (give_back e i p) = lent p - {i}"
    and back_keeps: "pool_ok p \<Longrightarrow> i \<in> lent p \<Longrightarrow> j \<in> lent p \<Longrightarrow> j \<noteq> i \<Longrightarrow>
      conn (give_back e i p) j = conn p j"
    and maintain_ok: "pool_ok p \<Longrightarrow> pool_ok (maintain e p)"
    and maintain_lent: "pool_ok p \<Longrightarrow> lent (maintain e p) = lent p"
    and maintain_keeps: "pool_ok p \<Longrightarrow> i \<in> lent p \<Longrightarrow> conn (maintain e p) i = conn p i"
begin

abbreviation event :: "'e pool_event \<Rightarrow> 'p \<times> 'h holders \<Rightarrow> 'p \<times> 'h holders" where
  "event \<equiv> pool_step conn borrow give_back maintain"

abbreviation held_ok :: "'p \<times> 'h holders \<Rightarrow> bool" where
  "held_ok \<equiv> held_by lent conn pool_ok"

lemma held_okI:
  assumes "pool_ok p" "\<And>w i h. hold w = Some (i, h) \<Longrightarrow> i \<in> lent p \<and> conn p i = Some h"
    "\<And>v w i g h. hold v = Some (i, g) \<Longrightarrow> hold w = Some (i, h) \<Longrightarrow> v = w"
    "\<And>i. i \<in> lent p \<Longrightarrow> \<exists>w h. hold w = Some (i, h)"
  shows "held_ok (p, hold)"
  using assms unfolding held_by_def by blast

lemma held_ok_start: "pool_ok p \<Longrightarrow> lent p = {} \<Longrightarrow> held_ok (p, \<lambda>_. None)"
  by (simp add: held_by_def)

lemma held_okD:
  assumes "held_ok (p, hold)"
  shows "pool_ok p" "hold w = Some (i, h) \<Longrightarrow> i \<in> lent p \<and> conn p i = Some h"
    "hold v = Some (i, g) \<Longrightarrow> hold w = Some (i, h') \<Longrightarrow> v = w"
    "j \<in> lent p \<Longrightarrow> \<exists>w h. hold w = Some (j, h)"
  using assms unfolding held_by_def by blast+

lemma held_ok_borrow:
  assumes "held_ok (p, hold)" "hold w = None"
  shows "held_ok (event (Borrow e w) (p, hold))"
proof (cases "snd (borrow e p)")
  case None
  note ok = held_okD(1) [OF assms(1)]
  obtain q where q: "borrow e p = (q, None)" using None by (cases "borrow e p") simp
  from q have ev: "event (Borrow e w) (p, hold) = (q, hold)" using assms(2) by (simp add: pool_step_def)
  have "lent q = lent p" using borrow_none [OF ok None] q by simp
  moreover have "conn q i = conn p i" if "i \<in> lent p" for i using borrow_keeps [OF ok that, of e] q by simp
  moreover have "pool_ok q" using borrow_ok [OF ok, of e] q by simp
  ultimately show ?thesis unfolding ev using held_okD(2-4) [OF assms(1)]
    by (intro held_okI) (metis, metis, metis, metis)
next
  case (Some i)
  note ok = held_okD(1) [OF assms(1)]
  obtain q where q: "borrow e p = (q, Some i)" using Some by (cases "borrow e p") simp
  have new: "i \<notin> lent p" "lent q = insert i (lent p)" using borrow_some [OF ok Some] q by simp_all
  have okq: "pool_ok q" using borrow_ok [OF ok, of e] q by simp
  then obtain h where h: "conn q i = Some h" using conn_live [of q i] new(2) by auto
  have ev: "event (Borrow e w) (p, hold) = (q, hold(w := Some (i, h)))"
    using q assms(2) h by (simp add: pool_step_def)
  have keep: "conn q j = conn p j" if "j \<in> lent p" for j using borrow_keeps [OF ok that, of e] q by simp
  show ?thesis unfolding ev
  proof (rule held_okI [OF okq])
    show "j \<in> lent q \<and> conn q j = Some g" if "(hold(w := Some (i, h))) v = Some (j, g)" for v j g
      using that held_okD(2) [OF assms(1)] keep new(2) h by (auto split: if_splits)
    show "v = u" if "(hold(w := Some (i, h))) v = Some (j, g)" "(hold(w := Some (i, h))) u = Some (j, g')" for v u j g g'
      using that held_okD(2,3) [OF assms(1)] new(1) by (auto split: if_splits)
    show "\<exists>v g. (hold(w := Some (i, h))) v = Some (j, g)" if "j \<in> lent q" for j
    proof (cases "j = i")
      case False
      with that new(2) have "j \<in> lent p" by auto
      with held_okD(4) [OF assms(1)] obtain v g where "hold v = Some (j, g)" by blast
      with assms(2) show ?thesis by (intro exI [of _ v] exI [of _ g]) auto
    qed auto
  qed
qed

lemma held_ok_return:
  assumes "held_ok (p, hold)" "hold w = Some (i, h)"
  shows "held_ok (event (Return e w) (p, hold))"
proof -
  note ok = held_okD(1) [OF assms(1)]
  have lent: "i \<in> lent p" using held_okD(2) [OF assms] by simp
  have ev: "event (Return e w) (p, hold) = (give_back e i p, hold(w := None))"
    using assms(2) by (simp add: pool_step_def)
  show ?thesis unfolding ev
  proof (rule held_okI [OF back_ok [OF ok lent]])
    show "j \<in> lent (give_back e i p) \<and> conn (give_back e i p) j = Some g"
      if "(hold(w := None)) v = Some (j, g)" for v j g
    proof -
      from that have v: "hold v = Some (j, g)" "v \<noteq> w" by (auto split: if_splits)
      with held_okD(2,3) [OF assms(1)] assms(2) have "j \<in> lent p" "conn p j = Some g" "j \<noteq> i" by blast+
      with back_lent [OF ok lent, of e] back_keeps [OF ok lent, of j e] show ?thesis by simp
    qed
    show "v = u" if "(hold(w := None)) v = Some (j, g)" "(hold(w := None)) u = Some (j, g')" for v u j g g'
      using that held_okD(3) [OF assms(1)] by (auto split: if_splits)
    show "\<exists>v g. (hold(w := None)) v = Some (j, g)" if "j \<in> lent (give_back e i p)" for j
    proof -
      from that back_lent [OF ok lent, of e] have "j \<in> lent p" "j \<noteq> i" by auto
      with held_okD(4) [OF assms(1)] obtain v g where "hold v = Some (j, g)" by blast
      with \<open>j \<noteq> i\<close> assms(2) have "(hold(w := None)) v = Some (j, g)" by auto
      then show ?thesis by blast
    qed
  qed
qed

lemma held_ok_event: "held_ok st \<Longrightarrow> held_ok (event ev st)"
proof -
  assume a: "held_ok st"
  obtain p hold where st: "st = (p, hold)" by (cases st)
  note a' = a [unfolded st]
  show "held_ok (event ev st)"
  proof (cases ev)
    case (Borrow e w)
    then show ?thesis using a' held_ok_borrow [OF a', of w e] by (cases "hold w") (simp_all add: st pool_step_def)
  next
    case (Return e w)
    then show ?thesis using a' held_ok_return [OF a', of w _ _ e] by (cases "hold w") (auto simp add: st pool_step_def)
  next
    case (Maintain e)
    note ok = held_okD(1) [OF a']
    have "held_ok (maintain e p, hold)"
      using maintain_ok [OF ok, of e] maintain_lent [OF ok, of e] maintain_keeps [OF ok, of _ e] held_okD(2-4) [OF a']
      by (intro held_okI) (simp, metis, metis, metis)
    with Maintain show ?thesis by (simp add: st pool_step_def)
  qed
qed

lemma held_ok_run: "held_ok st \<Longrightarrow> held_ok (fold event evs st)"
  by (induction evs arbitrary: st) (simp_all add: held_ok_event)

lemma run_ok: "pool_ok p \<Longrightarrow> lent p = {} \<Longrightarrow> fold event evs (p, \<lambda>_. None) = (q, hold) \<Longrightarrow> pool_ok q"
  using held_ok_run [OF held_ok_start, of p evs] held_okD(1) [of q hold] by simp

text \<open>No two workers share a slot or a connection, and what a worker holds is still the slot's.\<close>

lemma exclusive:
  assumes "pool_ok p" "lent p = {}" "fold event evs (p, \<lambda>_. None) = (q, hold)"
    and "hold v = Some (i, g)" "hold w = Some (j, h)" "v \<noteq> w"
  shows "i \<noteq> j \<and> g \<noteq> h \<and> conn q i = Some g \<and> conn q j = Some h"
proof -
  have ok: "held_ok (q, hold)" using held_ok_run [OF held_ok_start [OF assms(1,2)], of evs] assms(3) by simp
  have ij: "i \<in> lent q" "conn q i = Some g" "j \<in> lent q" "conn q j = Some h"
    using held_okD(2) [OF ok] assms(4,5) by blast+
  moreover have "i \<noteq> j" using held_okD(3) [OF ok] assms(4-6) by blast
  ultimately show ?thesis using conn_distinct [OF held_okD(1) [OF ok], of i j] by auto
qed

end

end
