(* ===== verification/Connection_Pool.thy ===== *)
theory Connection_Pool
  imports Session_Pool
begin

text \<open>
  The Oracle session pool (\<^verbatim>\<open>src/infra/Connection_Pool.c\<close>). A slot owns four OCI handles; the pool
  opens slots, lends them to worker contexts, revalidates, recycles and closes them. The OCI library is
  an oracle \<open>oci\<close>: which handles exist, and its answers to the calls to come (the \<open>k\<close>-th call of the
  \<open>n\<close>-th attempt to open a slot, the \<open>n\<close>-th ping). Everything between the lock and the unlock of the
  pool's mutex is one function; a thread that waits takes the list of the states in which it is woken.
  NLS statements, timeouts of the network layer, logging and metrics are left out.
\<close>

subsection \<open>The OCI library\<close>

record oci =
  next_handle :: nat
  allocated :: "nat set"
  opens_done :: nat
  pings_done :: nat
  rolled_back :: "nat list"
  step_ok :: "nat \<Rightarrow> nat \<Rightarrow> bool"
  ping_ok :: "nat \<Rightarrow> bool"

definition oci_alloc :: "oci \<Rightarrow> nat \<times> oci" where
  "oci_alloc o1 = (next_handle o1,
     o1\<lparr>next_handle := next_handle o1 + 1, allocated := insert (next_handle o1) (allocated o1)\<rparr>)"

definition oci_free :: "nat option \<Rightarrow> oci \<Rightarrow> oci" where
  "oci_free h o1 = (case h of None \<Rightarrow> o1 | Some x \<Rightarrow> o1\<lparr>allocated := allocated o1 - {x}\<rparr>)"

subsection \<open>Slots\<close>

record pool_slot =
  slot_in_use :: bool
  srvhp :: "nat option"
  svchp :: "nat option"
  authp :: "nat option"
  errhp :: "nat option"
  slot_created :: int
  slot_last_used :: int

definition slot_zero :: pool_slot where
  "slot_zero = \<lparr>slot_in_use = False, srvhp = None, svchp = None, authp = None, errhp = None,
     slot_created = 0, slot_last_used = 0\<rparr>"

text \<open>The calls of \<open>open_slot\<close> whose failure ends it, in order. Two of them set user and password.\<close>

datatype open_step = Alloc_Err | Alloc_Srv | Alloc_Svc | Alloc_Auth | Plain_Call

definition open_steps :: "bool \<Rightarrow> open_step list" where
  "open_steps wallet =
     [Alloc_Err, Alloc_Srv, Plain_Call, Alloc_Svc, Alloc_Auth, Plain_Call] @
     (if wallet then [] else [Plain_Call, Plain_Call]) @ [Plain_Call, Plain_Call]"

fun do_step :: "open_step \<Rightarrow> oci \<times> pool_slot \<Rightarrow> oci \<times> pool_slot" where
  "do_step Plain_Call (o1, s) = (o1, s)"
| "do_step Alloc_Err (o1, s) = (case oci_alloc o1 of (h, o2) \<Rightarrow> (o2, s\<lparr>errhp := Some h\<rparr>))"
| "do_step Alloc_Srv (o1, s) = (case oci_alloc o1 of (h, o2) \<Rightarrow> (o2, s\<lparr>srvhp := Some h\<rparr>))"
| "do_step Alloc_Svc (o1, s) = (case oci_alloc o1 of (h, o2) \<Rightarrow> (o2, s\<lparr>svchp := Some h\<rparr>))"
| "do_step Alloc_Auth (o1, s) = (case oci_alloc o1 of (h, o2) \<Rightarrow> (o2, s\<lparr>authp := Some h\<rparr>))"

fun run_steps :: "(nat \<Rightarrow> bool) \<Rightarrow> nat \<Rightarrow> open_step list \<Rightarrow> oci \<times> pool_slot \<Rightarrow> bool \<times> oci \<times> pool_slot" where
  "run_steps ok k [] st = (True, st)"
| "run_steps ok k (x # xs) st = (if ok k then run_steps ok (k + 1) xs (do_step x st) else (False, st))"

text \<open>The clean-up that \<open>open_slot\<close> and \<open>close_slot\<close> share.\<close>

definition free_handles :: "oci \<times> pool_slot \<Rightarrow> oci \<times> pool_slot" where
  "free_handles st = (case st of (o1, s) \<Rightarrow>
     (oci_free (errhp s) (oci_free (srvhp s) (oci_free (svchp s) (oci_free (authp s) o1))),
      s\<lparr>srvhp := None, svchp := None, authp := None, errhp := None\<rparr>))"

definition open_slot :: "bool \<Rightarrow> int \<Rightarrow> oci \<Rightarrow> pool_slot \<Rightarrow> bool \<times> oci \<times> pool_slot" where
  "open_slot wallet now o1 s =
     (case run_steps (step_ok o1 (opens_done o1)) 0 (open_steps wallet)
             (o1\<lparr>opens_done := opens_done o1 + 1\<rparr>, s) of
        (ok, o2, s2) \<Rightarrow>
          if ok then (True, o2, s2\<lparr>slot_created := now, slot_last_used := now, slot_in_use := False\<rparr>)
          else (False, free_handles (o2, s2)))"

definition close_slot :: "oci \<Rightarrow> pool_slot \<Rightarrow> oci \<times> pool_slot" where
  "close_slot o1 s = (case free_handles (o1, s) of (o2, s2) \<Rightarrow> (o2, s2\<lparr>slot_in_use := False\<rparr>))"

definition validate_slot :: "oci \<Rightarrow> pool_slot \<Rightarrow> bool \<times> oci" where
  "validate_slot o1 s =
     (if svchp s = None \<or> errhp s = None then (False, o1)
      else (ping_ok o1 (pings_done o1), o1\<lparr>pings_done := pings_done o1 + 1\<rparr>))"

subsection \<open>The pool\<close>

record pool =
  slots :: "pool_slot list"
  slots_open :: int
  pool_max_size :: nat
  retries :: nat
  session_max_lifetime :: int
  validation_on_borrow :: bool
  rollback_on_return :: bool
  use_wallet :: bool
  pool_envhp :: "nat option"
  pool_errhp :: "nat option"
  lib :: oci

text \<open>Open, close and validate slot \<open>i\<close>; the count of open slots is kept by the callers.\<close>

definition open_at :: "int \<Rightarrow> nat \<Rightarrow> pool \<Rightarrow> bool \<times> pool" where
  "open_at now i p =
     (case open_slot (use_wallet p) now (lib p) (slots p ! i) of
        (ok, o2, s) \<Rightarrow> (ok, p\<lparr>lib := o2, slots := (slots p)[i := s],
                             slots_open := slots_open p + (if ok then 1 else 0)\<rparr>))"

definition close_at :: "nat \<Rightarrow> pool \<Rightarrow> pool" where
  "close_at i p =
     (case close_slot (lib p) (slots p ! i) of
        (o2, s) \<Rightarrow> p\<lparr>lib := o2, slots := (slots p)[i := s], slots_open := slots_open p - 1\<rparr>)"

definition validate_at :: "nat \<Rightarrow> pool \<Rightarrow> bool \<times> pool" where
  "validate_at i p = (case validate_slot (lib p) (slots p ! i) of (ok, o2) \<Rightarrow> (ok, p\<lparr>lib := o2\<rparr>))"

fun reopen_loop :: "int \<Rightarrow> nat \<Rightarrow> nat \<Rightarrow> pool \<Rightarrow> bool \<times> pool" where
  "reopen_loop now i 0 p = (False, p)"
| "reopen_loop now i (Suc n) p =
     (case open_at now i p of (ok, p2) \<Rightarrow> if ok then (True, p2) else reopen_loop now i n p2)"

text \<open>Close a slot and try to open it again, as often as the configuration says.\<close>

definition revive :: "int \<Rightarrow> nat \<Rightarrow> nat \<Rightarrow> pool \<Rightarrow> bool \<times> pool" where
  "revive now n i p = reopen_loop now i n (close_at i p)"

subsection \<open>Connecting and disconnecting\<close>

record pool_ini =
  cfg_min_size :: int
  cfg_max_size :: int
  cfg_retries :: int
  cfg_max_lifetime :: int
  cfg_validation :: bool
  cfg_rollback :: bool
  cfg_wallet :: bool
  cfg_wallet_location :: cstring

text \<open>\<open>None\<close>: the loop writes behind the end of the slot array.\<close>

fun open_minimum :: "int \<Rightarrow> nat \<Rightarrow> nat \<Rightarrow> pool \<Rightarrow> (bool \<times> pool) option" where
  "open_minimum now i 0 p = Some (True, p)"
| "open_minimum now i (Suc n) p =
     (if i \<ge> length (slots p) \<and> retries p > 0 then None
      else case reopen_loop now i (retries p) p of
             (ok, p2) \<Rightarrow> if ok then open_minimum now (i + 1) n p2 else Some (False, p2))"

fun close_all :: "nat \<Rightarrow> pool \<Rightarrow> pool" where
  "close_all 0 p = p"
| "close_all (Suc n) p =
     (let p2 = close_all n p in if svchp (slots p2 ! n) \<noteq> None then close_at n p2 else p2)"

text \<open>The handles of the pool itself go last.\<close>

definition release_pool :: "pool \<Rightarrow> oci" where
  "release_pool p =
     (let p2 = close_all (length (slots p)) p in oci_free (pool_envhp p2) (oci_free (pool_errhp p2) (lib p2)))"

definition new_pool :: "pool_ini \<Rightarrow> oci \<Rightarrow> pool" where
  "new_pool ini o1 =
     (let n = nat (if cfg_max_size ini > 0 then cfg_max_size ini else 10) in
      \<lparr>slots = replicate n slot_zero, slots_open = 0, pool_max_size = n,
       retries = nat (if cfg_retries ini \<ge> 0 then cfg_retries ini else 3),
       session_max_lifetime = (if cfg_max_lifetime ini > 0 then cfg_max_lifetime ini else 3600),
       validation_on_borrow = cfg_validation ini, rollback_on_return = cfg_rollback ini,
       use_wallet = cfg_wallet ini, pool_envhp = None, pool_errhp = None, lib = o1\<rparr>)"

definition min_size :: "pool_ini \<Rightarrow> nat" where
  "min_size ini = nat (if cfg_min_size ini > 0 then cfg_min_size ini else 1)"

text \<open>
  The booleans: the allocations of pool and slots, mutex and condition variable, \<^verbatim>\<open>OCIEnvCreate\<close> and
  the pool's error handle. The result is the pool, or the library after everything was released.
\<close>

definition OCI_Connect_pool ::
    "pool_ini \<Rightarrow> bool \<Rightarrow> bool \<Rightarrow> bool \<Rightarrow> bool \<Rightarrow> int \<Rightarrow> oci \<Rightarrow> (oci + pool) option" where
  "OCI_Connect_pool ini alloc_ok sync_ok env_ok err_ok now o1 =
     (if \<not> alloc_ok then Some (Inl o1)
      else if cfg_wallet ini \<and> cfg_wallet_location ini = [] then Some (Inl o1)
      else if \<not> sync_ok then Some (Inl o1)
      else if \<not> env_ok then Some (Inl o1)
      else
        let (env, o2) = oci_alloc o1; p = (new_pool ini o2)\<lparr>pool_envhp := Some env\<rparr> in
        if \<not> err_ok then Some (Inl (release_pool p))
        else
          let (err, o3) = oci_alloc o2; p = p\<lparr>pool_errhp := Some err, lib := o3\<rparr> in
          map_option (\<lambda>(ok, q). if ok then Inr q else Inl (release_pool q))
            (open_minimum now 0 (min_size ini) p))"

definition OCI_Disconnect_pool :: "pool option \<Rightarrow> oci option" where
  "OCI_Disconnect_pool pp = map_option release_pool pp"

subsection \<open>Health check\<close>

definition health_slot :: "int \<Rightarrow> nat \<Rightarrow> pool \<times> nat \<Rightarrow> pool \<times> nat" where
  "health_slot now i st =
     (case st of (p, failures) \<Rightarrow>
        let s = slots p ! i in
        if svchp s = None \<or> slot_in_use s then (p, failures)
        else if session_max_lifetime p > 0 \<and> now - slot_created s > session_max_lifetime p then
          (case revive now 1 i p of (ok, p2) \<Rightarrow> (p2, if ok then failures else failures + 1))
        else
          (case validate_at i p of
             (True, p2) \<Rightarrow> (p2, failures)
           | (False, p2) \<Rightarrow>
               (case revive now (retries p2) i p2 of (ok, p3) \<Rightarrow> (p3, if ok then failures else failures + 1))))"

definition OCI_Pool_health_check :: "int \<Rightarrow> pool option \<Rightarrow> int \<times> pool option" where
  "OCI_Pool_health_check now pp =
     (case pp of
        None \<Rightarrow> (-1, None)
      | Some p \<Rightarrow>
          (case fold (health_slot now) [0..<length (slots p)] (p, 0) of (q, failures) \<Rightarrow> (int failures, Some q)))"

subsection \<open>Borrowing and returning\<close>

text \<open>What a worker's context keeps of the slot it borrowed; a wiped context is all zeros.\<close>

record worker =
  w_slot :: int
  w_svchp :: "nat option"
  w_errhp :: "nat option"
  w_srvhp :: "nat option"

definition worker_zero :: worker where
  "worker_zero = \<lparr>w_slot = 0, w_svchp = None, w_errhp = None, w_srvhp = None\<rparr>"

text \<open>One round of the loop: a free open slot, or a closed one opened now if the pool may grow.\<close>

definition try_borrow :: "int \<Rightarrow> pool \<Rightarrow> pool \<times> nat option" where
  "try_borrow now p =
     (case first_index (\<lambda>s. svchp s \<noteq> None \<and> \<not> slot_in_use s) 0 (slots p) of
        Some i \<Rightarrow> (p, Some i)
      | None \<Rightarrow>
          if slots_open p < int (pool_max_size p) then
            (case first_index (\<lambda>s. svchp s = None) 0 (slots p) of
               None \<Rightarrow> (p, None)
             | Some i \<Rightarrow> (case open_at now i p of (ok, p2) \<Rightarrow> (p2, if ok then Some i else None)))
          else (p, None))"

text \<open>The waiting loop; the wake-ups carry the state found and whether the deadline has passed.\<close>

fun borrow_loop :: "int \<Rightarrow> pool \<Rightarrow> (bool \<times> pool) list \<Rightarrow> (pool \<times> nat option) option" where
  "borrow_loop now p ws =
     (case try_borrow now p of
        (p2, Some i) \<Rightarrow> Some (p2, Some i)
      | (p2, None) \<Rightarrow>
          (case ws of
             [] \<Rightarrow> None
           | (timed_out, q) # ws' \<Rightarrow> if timed_out then Some (q, None) else borrow_loop now q ws'))"

definition grant :: "nat \<Rightarrow> pool \<Rightarrow> worker \<times> pool" where
  "grant i p =
     (let s = slots p ! i in
      (\<lparr>w_slot = int i, w_svchp = svchp s, w_errhp = errhp s, w_srvhp = srvhp s\<rparr>,
       p\<lparr>slots := (slots p)[i := s\<lparr>slot_in_use := True\<rparr>]\<rparr>))"

text \<open>The slot found is validated if configured, and marked. The worker's context is only written on
  success.\<close>

definition finish_borrow :: "int \<Rightarrow> nat \<Rightarrow> pool \<Rightarrow> (worker option) \<times> pool" where
  "finish_borrow now i p =
     (if \<not> validation_on_borrow p then (case grant i p of (w, q) \<Rightarrow> (Some w, q))
      else
        (case validate_at i p of
           (True, p2) \<Rightarrow> (case grant i p2 of (w, q) \<Rightarrow> (Some w, q))
         | (False, p2) \<Rightarrow>
             (case revive now (retries p2) i p2 of
                (True, p3) \<Rightarrow> (case grant i p3 of (w, q) \<Rightarrow> (Some w, q))
              | (False, p3) \<Rightarrow> (None, p3))))"

definition OCI_Pool_get_session ::
    "int \<Rightarrow> worker \<Rightarrow> pool \<Rightarrow> (bool \<times> pool) list \<Rightarrow> (int \<times> worker \<times> pool) option" where
  "OCI_Pool_get_session now w p ws =
     map_option
       (\<lambda>(q, found). case found of
          None \<Rightarrow> (-1, w, q)
        | Some i \<Rightarrow> (case finish_borrow now i q of
            (Some w2, q2) \<Rightarrow> (0, w2, q2)
          | (None, q2) \<Rightarrow> (-1, w, q2)))
       (borrow_loop now p ws)"

definition OCI_Pool_release_session :: "int \<Rightarrow> worker \<Rightarrow> pool \<Rightarrow> worker \<times> pool" where
  "OCI_Pool_release_session now w p =
     (if w_slot w < 0 \<or> w_slot w \<ge> int (length (slots p)) then (w, p)
      else
        let i = nat (w_slot w); s = slots p ! i;
            o2 = (if rollback_on_return p \<and> errhp s \<noteq> None
                  then (case svchp s of None \<Rightarrow> lib p
                        | Some h \<Rightarrow> (lib p)\<lparr>rolled_back := h # rolled_back (lib p)\<rparr>) else lib p)
        in (worker_zero,
            p\<lparr>lib := o2, slots := (slots p)[i := s\<lparr>slot_last_used := now, slot_in_use := False\<rparr>]\<rparr>))"

definition OCI_Pool_session_is_alive :: "worker \<Rightarrow> (bool \<times> bool) \<Rightarrow> bool" where
  "OCI_Pool_session_is_alive w status =
     (if w_srvhp w = None \<or> w_errhp w = None then False else fst status \<and> snd status)"

text \<open>The copy of the shared loggers and caches after a successful borrow touches no field modelled.\<close>

definition OCI_Pool_reconnect_session ::
    "int \<Rightarrow> worker \<Rightarrow> pool \<Rightarrow> (bool \<times> pool) list \<Rightarrow> (int \<times> worker \<times> pool) option" where
  "OCI_Pool_reconnect_session now w p ws =
     (case OCI_Pool_release_session now w p of
        (w2, p2) \<Rightarrow> OCI_Pool_get_session now w2 p2 ws)"

end
