(* ===== verification/Connection_Pool_Runs.thy ===== *)
theory Connection_Pool_Runs
  imports Connection_Pool
begin

text \<open>
  What the Oracle pool keeps: its accounts of slots and OCI handles (nothing leaked, nothing used after it
  was freed), and the contract \<open>session_pool\<close>, from which the workers' sessions are exclusive.
\<close>

subsection \<open>Handles of a slot\<close>

definition slot_handles :: "pool_slot \<Rightarrow> nat set" where
  "slot_handles s = set_option (errhp s) \<union> set_option (srvhp s) \<union> set_option (svchp s) \<union> set_option (authp s)"

definition slot_closed :: "pool_slot \<Rightarrow> bool" where
  "slot_closed s \<longleftrightarrow> errhp s = None \<and> srvhp s = None \<and> svchp s = None \<and> authp s = None \<and> \<not> slot_in_use s"

definition slot_open :: "pool_slot \<Rightarrow> bool" where
  "slot_open s \<longleftrightarrow> errhp s \<noteq> None \<and> srvhp s \<noteq> None \<and> svchp s \<noteq> None \<and> authp s \<noteq> None"

definition oci_wf :: "oci \<Rightarrow> bool" where
  "oci_wf o1 \<longleftrightarrow> (\<forall>h \<in> allocated o1. h < next_handle o1)"

lemma slot_closed_handles: "slot_closed s \<Longrightarrow> slot_handles s = {}"
  by (simp add: slot_closed_def slot_handles_def)

lemma slot_zero_closed [simp]: "slot_closed slot_zero"
  by (simp add: slot_closed_def slot_zero_def)

lemma oci_free_set: "oci_free h o1 = o1\<lparr>allocated := allocated o1 - set_option h\<rparr>"
  by (cases h) (simp_all add: oci_free_def)

lemma free_handles_spec:
  "free_handles (o1, s) = (o1\<lparr>allocated := allocated o1 - slot_handles s\<rparr>,
     s\<lparr>srvhp := None, svchp := None, authp := None, errhp := None\<rparr>)"
  by (simp add: free_handles_def oci_free_set slot_handles_def Diff_eq) (simp add: Int_ac)

lemma close_slot_spec:
  assumes "close_slot o1 s = (o2, s2)"
  shows "slot_closed s2 \<and> allocated o2 = allocated o1 - slot_handles s \<and> next_handle o2 = next_handle o1"
  using assms by (auto simp: close_slot_def free_handles_spec slot_closed_def)

text \<open>
  While a slot is being opened: what was allocated since is in the slot, and is new.
\<close>

definition being_opened :: "oci \<Rightarrow> oci \<times> pool_slot \<Rightarrow> bool" where
  "being_opened o0 st \<longleftrightarrow>
     (case st of (o1, s) \<Rightarrow>
        allocated o1 = allocated o0 \<union> slot_handles s \<and> next_handle o0 \<le> next_handle o1 \<and>
        (\<forall>h \<in> slot_handles s. next_handle o0 \<le> h \<and> h < next_handle o1))"

text \<open>The fields that the steps still to come will set are not set yet.\<close>

fun unset :: "open_step \<Rightarrow> pool_slot \<Rightarrow> bool" where
  "unset Plain_Call s = True"
| "unset Alloc_Err s = (errhp s = None)"
| "unset Alloc_Srv s = (srvhp s = None)"
| "unset Alloc_Svc s = (svchp s = None)"
| "unset Alloc_Auth s = (authp s = None)"

lemma opening_step: "being_opened o0 st \<Longrightarrow> unset x (snd st) \<Longrightarrow> being_opened o0 (do_step x st)"
  by (cases x; cases st) (auto simp: being_opened_def oci_alloc_def slot_handles_def)

lemma unset_step: "unset y (snd st) \<Longrightarrow> x \<noteq> y \<or> x = Plain_Call \<Longrightarrow> unset y (snd (do_step x st))"
  by (cases x; cases y; cases st) (auto simp: oci_alloc_def)

lemma opening_run:
  "being_opened o0 st \<Longrightarrow> \<forall>x \<in> set xs. unset x (snd st) \<Longrightarrow> distinct (filter (\<lambda>x. x \<noteq> Plain_Call) xs) \<Longrightarrow>
     run_steps ok k xs st = (b, st2) \<Longrightarrow> being_opened o0 st2"
proof (induction ok k xs st rule: run_steps.induct)
  case (2 ok k x xs st)
  show ?case
  proof (cases "ok k")
    case True
    have "\<forall>y \<in> set xs. unset y (snd (do_step x st))"
      using "2.prems"(2,3) by (auto intro!: unset_step split: if_splits)
    moreover have "being_opened o0 (do_step x st)"
      using "2.prems"(1,2) by (auto intro: opening_step)
    ultimately show ?thesis using True 2 by (auto split: if_splits)
  next
    case False
    with 2 show ?thesis by simp
  qed
qed simp

lemma in_use_run: "run_steps ok k xs st = (b, st2) \<Longrightarrow> slot_in_use (snd st2) = slot_in_use (snd st)"
proof (induction ok k xs st rule: run_steps.induct)
  case (2 ok k x xs st)
  have "slot_in_use (snd (do_step x st)) = slot_in_use (snd st)"
    by (cases x; cases st) (auto simp: oci_alloc_def)
  with 2 show ?case by (auto split: if_splits)
qed simp

lemma run_all_set:
  "run_steps ok k xs st = (True, st2) \<Longrightarrow> x \<in> set xs \<or> (x \<noteq> Plain_Call \<and> \<not> unset x (snd st)) \<Longrightarrow>
     x \<noteq> Plain_Call \<Longrightarrow> \<not> unset x (snd st2)"
proof (induction ok k xs st rule: run_steps.induct)
  case (2 ok k y xs st)
  then have run: "ok k" "run_steps ok (k + 1) xs (do_step y st) = (True, st2)" by (auto split: if_splits)
  have "x \<in> set xs \<or> \<not> unset x (snd (do_step y st))"
    using "2.prems"(2,3) by (cases x; cases y; cases st) (auto simp: oci_alloc_def)
  with "2.IH" [OF run(1) run(2)] "2.prems"(3) show ?case by blast
qed simp

lemma open_slot_spec:
  assumes "open_slot wallet now o1 s = (ok, o2, s2)" "slot_closed s" "oci_wf o1"
  shows "next_handle o1 \<le> next_handle o2 \<and> \<not> slot_in_use s2 \<and>
    allocated o2 = allocated o1 \<union> slot_handles s2 \<and>
    (\<forall>h \<in> slot_handles s2. next_handle o1 \<le> h \<and> h < next_handle o2) \<and>
    (if ok then slot_open s2 else slot_closed s2)"
proof -
  let ?o = "o1\<lparr>opens_done := opens_done o1 + 1\<rparr>"
  obtain b o3 s3 where run: "run_steps (step_ok o1 (opens_done o1)) 0 (open_steps wallet) (?o, s) = (b, o3, s3)"
    by (cases "run_steps (step_ok o1 (opens_done o1)) 0 (open_steps wallet) (?o, s)")
  have start: "being_opened o1 (?o, s)"
    using slot_closed_handles [OF assms(2)] by (simp add: being_opened_def)
  have "\<forall>x \<in> set (open_steps wallet). unset x (snd (?o, s))"
    using assms(2) by (auto simp: open_steps_def slot_closed_def)
  moreover have "distinct (filter (\<lambda>x. x \<noteq> Plain_Call) (open_steps wallet))" by (simp add: open_steps_def)
  ultimately have op: "being_opened o1 (o3, s3)" using opening_run [OF start _ _ run] by blast
  have use: "\<not> slot_in_use s3" using in_use_run [OF run] assms(2) by (simp add: slot_closed_def)
  show ?thesis
  proof (cases b)
    case True
    with run have run': "run_steps (step_ok o1 (opens_done o1)) 0 (open_steps wallet) (?o, s) = (True, o3, s3)"
      by simp
    have "\<not> unset x s3" if "x \<in> {Alloc_Err, Alloc_Srv, Alloc_Svc, Alloc_Auth}" for x
      using run_all_set [OF run', of x] that by (auto simp: open_steps_def)
    from this [of Alloc_Err] this [of Alloc_Srv] this [of Alloc_Svc] this [of Alloc_Auth]
    have "slot_open s3" by (simp add: slot_open_def)
    with True run assms(1) op show ?thesis
      by (auto simp: open_slot_def being_opened_def slot_open_def slot_handles_def)
  next
    case False
    with run assms(1) have res: "ok = False" "o2 = o3\<lparr>allocated := allocated o3 - slot_handles s3\<rparr>"
        "s2 = s3\<lparr>srvhp := None, svchp := None, authp := None, errhp := None\<rparr>"
      by (auto simp: open_slot_def free_handles_spec)
    have "allocated o1 \<inter> slot_handles s3 = {}"
      using op assms(3) by (force simp: being_opened_def oci_wf_def)
    then have "allocated o2 = allocated o1" using op res(2) by (auto simp: being_opened_def)
    with res use op show ?thesis by (auto simp: being_opened_def slot_closed_def slot_handles_def)
  qed
qed

subsection \<open>The accounts of the pool\<close>

text \<open>\<open>A\<close> are the handles that belong to others: the pool's own and those of other pools.\<close>

definition pool_inv :: "nat set \<Rightarrow> pool \<Rightarrow> bool" where
  "pool_inv A p \<longleftrightarrow>
     length (slots p) = pool_max_size p \<and> oci_wf (lib p) \<and>
     (\<forall>i < length (slots p). slot_open (slots p ! i) \<or> slot_closed (slots p ! i)) \<and>
     slot_accounts slot_handles A (allocated (lib p)) (slots p) \<and>
     slots_open p = int (length (filter (\<lambda>s. svchp s \<noteq> None) (slots p)))"

lemma pool_invD:
  assumes "pool_inv A p"
  shows "length (slots p) = pool_max_size p" "oci_wf (lib p)"
    "i < length (slots p) \<Longrightarrow> slot_open (slots p ! i) \<or> slot_closed (slots p ! i)"
    "slot_accounts slot_handles A (allocated (lib p)) (slots p)"
    "slots_open p = int (length (filter (\<lambda>s. svchp s \<noteq> None) (slots p)))"
  using assms unfolding pool_inv_def by blast+

lemma pool_inv_replace:
  assumes inv: "pool_inv A p" and i: "i < length (slots p)"
    and s: "slot_open s \<or> slot_closed s" "slot_handles s \<inter> allocated (lib p) = {}"
    and lib: "allocated o2 = (allocated (lib p) - slot_handles (slots p ! i)) \<union> slot_handles s"
      "next_handle (lib p) \<le> next_handle o2" "\<forall>h \<in> slot_handles s. h < next_handle o2"
  shows "pool_inv A (p\<lparr>lib := o2, slots := (slots p)[i := s],
    slots_open := slots_open p - (if svchp (slots p ! i) \<noteq> None then 1 else 0) + (if svchp s \<noteq> None then 1 else 0)\<rparr>)"
proof -
  have wf: "oci_wf o2"
    using pool_invD(2) [OF inv] lib unfolding oci_wf_def by (metis DiffD1 UnE order_less_le_trans)
  have oc: "slot_open ((slots p)[i := s] ! j) \<or> slot_closed ((slots p)[i := s] ! j)" if "j < length (slots p)" for j
    using s(1) pool_invD(3) [OF inv, of j] that by (cases "j = i") simp_all
  show ?thesis
    using slot_accounts_replace [OF pool_invD(4) [OF inv] i s(2) lib(1)] wf oc pool_invD(1,5) [OF inv]
      count_update [OF i, of "\<lambda>s. svchp s \<noteq> None" s]
    by (simp add: pool_inv_def)
qed

subsection \<open>Opening, closing and reviving a slot\<close>

text \<open>A step touched slot \<open>i\<close> only, and left the configuration and the pool's own handles alone.\<close>

definition same_but :: "nat \<Rightarrow> pool \<Rightarrow> pool \<Rightarrow> bool" where
  "same_but i p q \<longleftrightarrow>
     length (slots q) = length (slots p) \<and> (\<forall>j. j \<noteq> i \<longrightarrow> slots q ! j = slots p ! j) \<and>
     pool_max_size q = pool_max_size p \<and> retries q = retries p \<and>
     session_max_lifetime q = session_max_lifetime p \<and> validation_on_borrow q = validation_on_borrow p \<and>
     rollback_on_return q = rollback_on_return p \<and> use_wallet q = use_wallet p \<and>
     pool_envhp q = pool_envhp p \<and> pool_errhp q = pool_errhp p"

lemma same_but_refl [simp]: "same_but i p p"
  by (simp add: same_but_def)

lemma same_but_trans: "same_but i p q \<Longrightarrow> same_but i q r \<Longrightarrow> same_but i p r"
  by (simp add: same_but_def)

definition settled :: "nat set \<Rightarrow> nat \<Rightarrow> pool \<Rightarrow> bool \<times> pool \<Rightarrow> bool" where
  "settled A i p r \<longleftrightarrow>
     pool_inv A (snd r) \<and> same_but i p (snd r) \<and> \<not> slot_in_use (slots (snd r) ! i) \<and>
     (if fst r then slot_open (slots (snd r) ! i) else slot_closed (slots (snd r) ! i))"

lemma slot_open_svchp: "slot_open s \<Longrightarrow> svchp s \<noteq> None"
  by (simp add: slot_open_def)

lemma slot_closed_svchp: "slot_closed s \<Longrightarrow> svchp s = None"
  by (simp add: slot_closed_def)

lemma slot_open_or_closed: "slot_open s \<or> slot_closed s \<Longrightarrow> svchp s = None \<longleftrightarrow> slot_closed s"
  by (auto simp: slot_open_def slot_closed_def)

lemma open_at_settled:
  assumes inv: "pool_inv A p" and i: "i < length (slots p)" and closed: "slot_closed (slots p ! i)"
  shows "settled A i p (open_at now i p)"
proof -
  obtain ok o2 s where op: "open_slot (use_wallet p) now (lib p) (slots p ! i) = (ok, o2, s)"
    by (cases "open_slot (use_wallet p) now (lib p) (slots p ! i)")
  note wf = pool_invD(2) [OF inv]
  note spec = open_slot_spec [OF op closed wf]
  have new: "slot_handles s \<inter> allocated (lib p) = {}"
    using spec wf by (force simp: oci_wf_def)
  have oc: "slot_open s \<or> slot_closed s" using spec by (cases ok) simp_all
  have cnt: "slots_open p - (if svchp (slots p ! i) \<noteq> None then 1 else 0) + (if svchp s \<noteq> None then 1 else 0)
      = slots_open p + (if ok then 1 else 0)"
    using spec slot_closed_svchp [OF closed] slot_open_svchp [of s] slot_closed_svchp [of s] by (cases ok) simp_all
  have "pool_inv A (p\<lparr>lib := o2, slots := (slots p)[i := s], slots_open := slots_open p + (if ok then 1 else 0)\<rparr>)"
    using pool_inv_replace [OF inv i oc new, of o2] spec slot_closed_handles [OF closed] unfolding cnt by simp
  with op spec i show ?thesis by (cases ok) (simp_all add: settled_def open_at_def same_but_def)
qed

lemma close_at_settled:
  assumes inv: "pool_inv A p" and i: "i < length (slots p)" and op: "slot_open (slots p ! i)"
  shows "settled A i p (False, close_at i p)"
proof -
  obtain o2 s where cl: "close_slot (lib p) (slots p ! i) = (o2, s)"
    by (cases "close_slot (lib p) (slots p ! i)")
  note spec = close_slot_spec [OF cl]
  have h: "slot_handles s = {}" using spec slot_closed_handles by blast
  have cnt: "slots_open p - (if svchp (slots p ! i) \<noteq> None then 1 else 0) + (if svchp s \<noteq> None then 1 else 0)
      = slots_open p - 1"
    using spec slot_open_svchp [OF op] slot_closed_svchp [of s] by simp
  have "pool_inv A (p\<lparr>lib := o2, slots := (slots p)[i := s], slots_open := slots_open p - 1\<rparr>)"
    using pool_inv_replace [OF inv i, of s o2] spec h unfolding cnt by simp
  moreover have "\<not> slot_in_use s" using spec by (simp add: slot_closed_def)
  ultimately show ?thesis using cl spec i by (simp add: settled_def close_at_def same_but_def)
qed

lemma settled_trans: "settled A i p (b, q) \<Longrightarrow> settled A i q r \<Longrightarrow> settled A i p r"
  by (auto simp: settled_def intro: same_but_trans)

lemma settledD:
  assumes "settled A i p (b, q)"
  shows "pool_inv A q" "same_but i p q" "length (slots q) = length (slots p)" "\<not> slot_in_use (slots q ! i)"
    "b \<Longrightarrow> slot_open (slots q ! i)" "\<not> b \<Longrightarrow> slot_closed (slots q ! i)"
    "j \<noteq> i \<Longrightarrow> slots q ! j = slots p ! j"
  using assms by (auto simp: settled_def same_but_def)

lemma reopen_settled:
  "pool_inv A p \<Longrightarrow> i < length (slots p) \<Longrightarrow> slot_closed (slots p ! i) \<Longrightarrow> settled A i p (reopen_loop now i n p)"
proof (induction now i n p rule: reopen_loop.induct)
  case (1 now i p)
  then show ?case by (simp add: settled_def slot_closed_def)
next
  case (2 now i n p)
  obtain ok q where op: "open_at now i p = (ok, q)" by (cases "open_at now i p")
  note st = open_at_settled [OF "2.prems", of now, unfolded op]
  show ?case
  proof (cases ok)
    case True
    with op st show ?thesis by simp
  next
    case False
    have "settled A i q (reopen_loop now i n q)"
      by (rule "2.IH" [OF op [symmetric] False]) (use settledD [OF st] False "2.prems"(2) in simp_all)
    with settled_trans [OF st] op False show ?thesis by simp
  qed
qed

lemma revive_settled:
  assumes "pool_inv A p" "i < length (slots p)" "slot_open (slots p ! i)"
  shows "settled A i p (revive now n i p)"
proof -
  note c = close_at_settled [OF assms]
  have "settled A i (close_at i p) (reopen_loop now i n (close_at i p))"
    by (rule reopen_settled) (use settledD [OF c] assms(2) in simp_all)
  with settled_trans [OF c] show ?thesis by (simp add: revive_def)
qed

lemma pool_inv_lib:
  "pool_inv A p \<Longrightarrow> allocated o2 = allocated (lib p) \<Longrightarrow> next_handle o2 = next_handle (lib p) \<Longrightarrow>
     pool_inv A (p\<lparr>lib := o2\<rparr>)"
  by (simp add: pool_inv_def oci_wf_def)

lemma validate_at_spec:
  assumes "validate_at i p = (ok, q)"
  shows "slots q = slots p \<and> same_but j p q \<and> (pool_inv A p \<longrightarrow> pool_inv A q)"
  using assms
  by (auto simp: validate_at_def validate_slot_def same_but_def intro!: pool_inv_lib split: if_splits)

lemma settled_count:
  assumes "settled A i p (b, q)" "pool_inv A p" "i < length (slots p)"
  shows "slots_open q = slots_open p - (if svchp (slots p ! i) \<noteq> None then 1 else 0) + (if b then 1 else 0)"
proof -
  define s where "s = slots q ! i"
  have sq: "slots q = (slots p)[i := s]"
  proof (rule nth_equalityI)
    show "slots q ! j = (slots p)[i := s] ! j" if "j < length (slots q)" for j
      using settledD(3,7) [OF assms(1)] that by (cases "j = i") (simp_all add: s_def)
  qed (use settledD(3) [OF assms(1)] in simp)
  have b: "svchp s \<noteq> None \<longleftrightarrow> b"
    using settledD(5,6) [OF assms(1)] slot_open_svchp [of s] slot_closed_svchp [of s]
    by (cases b) (simp_all add: s_def)
  have "slots_open q = int (length (filter (\<lambda>s. svchp s \<noteq> None) ((slots p)[i := s])))"
    using pool_invD(5) [OF settledD(1) [OF assms(1)]] by (simp only: sq)
  with count_update [OF assms(3), of "\<lambda>s. svchp s \<noteq> None" s] pool_invD(5) [OF assms(2)] b
  show ?thesis by simp
qed

subsection \<open>The health check\<close>

text \<open>What maintenance keeps: slots in use are not touched, and no slot becomes in use.\<close>

definition undisturbed :: "nat set \<Rightarrow> pool \<Rightarrow> pool \<Rightarrow> bool" where
  "undisturbed A p q \<longleftrightarrow>
     pool_inv A q \<and> pool_envhp q = pool_envhp p \<and> pool_errhp q = pool_errhp p \<and>
     kept_slots slot_in_use (slots p) (slots q)"

lemma undisturbed_refl: "pool_inv A p \<Longrightarrow> undisturbed A p p"
  by (simp add: undisturbed_def)

lemma undisturbed_trans: "undisturbed A p q \<Longrightarrow> undisturbed A q r \<Longrightarrow> undisturbed A p r"
  by (auto simp: undisturbed_def intro: kept_slots_trans)

lemma settled_undisturbed:
  assumes "settled A i p (b, q)" "\<not> slot_in_use (slots p ! i)"
  shows "undisturbed A p q"
proof -
  have "kept_slots slot_in_use (slots p) (slots q)"
    by (rule kept_slots_one [of _ _ i]) (use settledD [OF assms(1)] assms(2) in simp_all)
  then show ?thesis using settledD(1,2) [OF assms(1)] by (simp add: undisturbed_def same_but_def)
qed

lemma svchp_open: "pool_inv A p \<Longrightarrow> i < length (slots p) \<Longrightarrow> svchp (slots p ! i) \<noteq> None \<Longrightarrow> slot_open (slots p ! i)"
  using pool_invD(3) [of A p i] slot_closed_svchp [of "slots p ! i"] by auto

lemma revive_counts:
  assumes "pool_inv A p" "i < length (slots p)" "svchp (slots p ! i) \<noteq> None" "\<not> slot_in_use (slots p ! i)"
    "revive now n i p = (ok, q)"
  shows "undisturbed A p q \<and> slots_open q + (if ok then 0 else 1) = slots_open p"
proof -
  have st: "settled A i p (ok, q)"
    using revive_settled [OF assms(1,2) svchp_open [OF assms(1-3)], of now n] assms(5) by simp
  from settled_count [OF st assms(1,2)] assms(3) settled_undisturbed [OF st assms(4)] show ?thesis by simp
qed

lemma health_slot_spec:
  assumes inv: "pool_inv A p" and i: "i < length (slots p)" and h: "health_slot now i (p, f) = (q, g)"
  shows "undisturbed A p q \<and> f \<le> g \<and> slots_open q + int g = slots_open p + int f"
proof -
  let ?s = "slots p ! i"
  consider (skip) "svchp ?s = None \<or> slot_in_use ?s"
    | (old) "svchp ?s \<noteq> None" "\<not> slot_in_use ?s" "session_max_lifetime p > 0 \<and> now - slot_created ?s > session_max_lifetime p"
    | (probe) "svchp ?s \<noteq> None" "\<not> slot_in_use ?s" "\<not> (session_max_lifetime p > 0 \<and> now - slot_created ?s > session_max_lifetime p)"
    by blast
  then show ?thesis
  proof cases
    case skip
    with h undisturbed_refl [OF inv] show ?thesis by (auto simp: health_slot_def Let_def)
  next
    case old
    obtain ok q' where r: "revive now 1 i p = (ok, q')" by (cases "revive now 1 i p")
    from revive_counts [OF inv i old(1,2) r] h old r show ?thesis
      by (cases ok) (simp_all add: health_slot_def Let_def)
  next
    case probe
    obtain ok p2 where v: "validate_at i p = (ok, p2)" by (cases "validate_at i p")
    have p2: "slots p2 = slots p" "same_but i p p2" "pool_inv A p2" using validate_at_spec [OF v] inv by simp_all
    then have und: "undisturbed A p p2" by (simp add: undisturbed_def same_but_def)
    have cnt: "slots_open p2 = slots_open p" using pool_invD(5) [OF inv] pool_invD(5) [OF p2(3)] p2(1) by simp
    show ?thesis
    proof (cases ok)
      case True
      with h probe v und cnt show ?thesis by (auto simp: health_slot_def Let_def)
    next
      case False
      obtain ok3 q' where r: "revive now (retries p2) i p2 = (ok3, q')" by (cases "revive now (retries p2) i p2")
      have "undisturbed A p2 q' \<and> slots_open q' + (if ok3 then 0 else 1) = slots_open p2"
        using revive_counts [OF p2(3) _ _ _ r] p2(1) i probe by simp
      with undisturbed_trans [OF und] h probe v r False cnt show ?thesis
        by (cases ok3) (simp_all add: health_slot_def Let_def)
    qed
  qed
qed

lemma health_fold:
  "pool_inv A p \<Longrightarrow> \<forall>i \<in> set js. i < length (slots p) \<Longrightarrow> fold (health_slot now) js (p, f) = (q, g) \<Longrightarrow>
     undisturbed A p q \<and> f \<le> g \<and> slots_open q + int g = slots_open p + int f"
proof (induction js arbitrary: p f)
  case Nil
  then show ?case by (simp add: undisturbed_refl)
next
  case (Cons i js)
  obtain p2 f2 where h: "health_slot now i (p, f) = (p2, f2)" by (cases "health_slot now i (p, f)")
  have s: "undisturbed A p p2 \<and> f \<le> f2 \<and> slots_open p2 + int f2 = slots_open p + int f"
    using health_slot_spec [OF Cons.prems(1) _ h] Cons.prems(2) by simp
  then have "pool_inv A p2" "length (slots p2) = length (slots p)" by (simp_all add: undisturbed_def kept_slots_def)
  with Cons.IH [of p2 f2] Cons.prems(2,3) h
  have "undisturbed A p2 q \<and> f2 \<le> g \<and> slots_open q + int g = slots_open p2 + int f2" by simp
  with s show ?case using undisturbed_trans by force
qed

lemma health_check_spec:
  assumes "pool_inv A p" "OCI_Pool_health_check now (Some p) = (n, r)"
  shows "\<exists>q. r = Some q \<and> undisturbed A p q \<and> n = slots_open p - slots_open q \<and> 0 \<le> n"
proof -
  obtain q g where f: "fold (health_slot now) [0..<length (slots p)] (p, 0) = (q, g)"
    by (cases "fold (health_slot now) [0..<length (slots p)] (p, 0)")
  from health_fold [OF assms(1) _ f] have "undisturbed A p q \<and> slots_open q + int g = slots_open p" by simp
  with f assms(2) show ?thesis by (auto simp: OCI_Pool_health_check_def)
qed

end
