(* ===== verification/Connection_Pool_Sessions.thy ===== *)
theory Connection_Pool_Sessions
  imports Connection_Pool_Runs
begin

text \<open>
  The life of the Oracle pool from \<^verbatim>\<open>OCI_Connect_pool\<close> to \<^verbatim>\<open>OCI_Disconnect_pool\<close>: borrowing and
  returning against the accounts of the pool, and the contract \<open>session_pool\<close> for its operations.
\<close>

subsection \<open>Borrowing\<close>

lemma slot_handles_mark [simp]:
  "slot_handles (s\<lparr>slot_in_use := b\<rparr>) = slot_handles s" "slot_handles (s\<lparr>slot_last_used := t\<rparr>) = slot_handles s"
  "slot_open (s\<lparr>slot_in_use := b\<rparr>) = slot_open s" "slot_open (s\<lparr>slot_last_used := t\<rparr>) = slot_open s"
  by (simp_all add: slot_handles_def slot_open_def)

lemma pool_inv_mark:
  assumes inv: "pool_inv A p" and i: "i < length (slots p)" and op: "slot_open (slots p ! i)"
    and s: "slot_open s" "slot_handles s = slot_handles (slots p ! i)"
  shows "pool_inv A (p\<lparr>slots := (slots p)[i := s]\<rparr>)"
proof -
  have "slot_open ((slots p)[i := s] ! j) \<or> slot_closed ((slots p)[i := s] ! j)" if "j < length (slots p)" for j
    using s(1) i pool_invD(3) [OF inv that] by (cases "j = i") simp_all
  then show ?thesis
    using slot_accounts_mark [OF pool_invD(4) [OF inv] i s(2)] pool_invD(1,2,5) [OF inv]
      count_update [OF i, of "\<lambda>s. svchp s \<noteq> None" s] slot_open_svchp [OF op] slot_open_svchp [OF s(1)]
    by (simp add: pool_inv_def)
qed

text \<open>\<open>q\<close> is \<open>p\<close> with slot \<open>i\<close>, which was free, now in use.\<close>

definition lent_out :: "nat set \<Rightarrow> nat \<Rightarrow> pool \<Rightarrow> pool \<Rightarrow> bool" where
  "lent_out A i p q \<longleftrightarrow>
     pool_inv A q \<and> pool_envhp q = pool_envhp p \<and> pool_errhp q = pool_errhp p \<and>
     slot_open (slots q ! i) \<and> lent_slot slot_in_use i (slots p) (slots q)"

lemma undisturbed_lent: "undisturbed A p q \<Longrightarrow> lent_out A i q r \<Longrightarrow> lent_out A i p r"
  by (auto simp: undisturbed_def lent_out_def intro: kept_lent)

lemma try_borrow_spec:
  assumes inv: "pool_inv A p" and t: "try_borrow now p = (q, r)"
  shows "undisturbed A p q \<and> (case r of
           Some i \<Rightarrow> i < length (slots p) \<and> slot_open (slots q ! i) \<and> \<not> slot_in_use (slots q ! i)
         | None \<Rightarrow> \<forall>s \<in> set (slots p). svchp s \<noteq> None \<longrightarrow> slot_in_use s)"
proof (cases "first_index (\<lambda>s. svchp s \<noteq> None \<and> \<not> slot_in_use s) 0 (slots p)")
  case (Some i)
  with t have r: "q = p" "r = Some i" by (simp_all add: try_borrow_def)
  from first_index_0 [OF Some] have "i < length (slots p)" "svchp (slots p ! i) \<noteq> None" "\<not> slot_in_use (slots p ! i)"
    by simp_all
  with svchp_open [OF inv] r undisturbed_refl [OF inv] show ?thesis by simp
next
  case None
  then have busy: "\<forall>s \<in> set (slots p). svchp s \<noteq> None \<longrightarrow> slot_in_use s" by (auto simp: first_index_None)
  show ?thesis
  proof (cases "slots_open p < int (pool_max_size p) \<and> first_index (\<lambda>s. svchp s = None) 0 (slots p) \<noteq> None")
    case False
    with None t have "q = p" "r = None" by (auto simp: try_borrow_def split: if_splits option.splits)
    with busy undisturbed_refl [OF inv] show ?thesis by simp
  next
    case True
    then obtain i where fi: "first_index (\<lambda>s. svchp s = None) 0 (slots p) = Some i" by blast
    from first_index_0 [OF fi] have i: "i < length (slots p)" "svchp (slots p ! i) = None" by simp_all
    with pool_invD(3) [OF inv] slot_open_svchp have cl: "slot_closed (slots p ! i)" by blast
    obtain ok p2 where op: "open_at now i p = (ok, p2)" by (cases "open_at now i p")
    note st = open_at_settled [OF inv i(1) cl, of now, unfolded op]
    have "\<not> slot_in_use (slots p ! i)" using cl by (simp add: slot_closed_def)
    moreover have "q = p2" "r = (if ok then Some i else None)"
      using t None True fi op by (simp_all add: try_borrow_def)
    ultimately show ?thesis
      using settled_undisturbed [OF st] busy settledD(4,5) [OF st] i(1) by (cases ok) simp_all
  qed
qed

lemma grant_spec:
  assumes "pool_inv A p" "i < length (slots p)" "slot_open (slots p ! i)" "\<not> slot_in_use (slots p ! i)"
    "grant i p = (w, q)"
  shows "lent_out A i p q \<and> w_slot w = int i \<and> w_svchp w = svchp (slots q ! i) \<and>
    w_errhp w = errhp (slots q ! i) \<and> w_srvhp w = srvhp (slots q ! i)"
  using assms pool_inv_mark [OF assms(1-3), of "(slots p ! i)\<lparr>slot_in_use := True\<rparr>"]
  by (auto simp: grant_def Let_def lent_out_def lent_slot_def)

lemma finish_borrow_spec:
  assumes inv: "pool_inv A p" and i: "i < length (slots p)" "slot_open (slots p ! i)" "\<not> slot_in_use (slots p ! i)"
    and f: "finish_borrow now i p = (r, q)"
  shows "case r of
      None \<Rightarrow> undisturbed A p q
    | Some w \<Rightarrow> lent_out A i p q \<and> w_slot w = int i \<and> w_svchp w = svchp (slots q ! i) \<and>
        w_errhp w = errhp (slots q ! i) \<and> w_srvhp w = srvhp (slots q ! i)"
proof (cases "validation_on_borrow p")
  case False
  with f grant_spec [OF inv i] show ?thesis
    by (cases "grant i p") (auto simp: finish_borrow_def)
next
  case True
  obtain ok p2 where v: "validate_at i p = (ok, p2)" by (cases "validate_at i p")
  have p2: "slots p2 = slots p" "same_but i p p2" "pool_inv A p2" using validate_at_spec [OF v] inv by simp_all
  have und: "undisturbed A p p2" using p2 by (simp add: undisturbed_def same_but_def)
  show ?thesis
  proof (cases ok)
    case ok: True
    from grant_spec [OF p2(3)] p2(1) i f True v ok undisturbed_lent [OF und] show ?thesis
      by (cases "grant i p2") (auto simp: finish_borrow_def)
  next
    case no: False
    obtain ok3 p3 where r: "revive now (retries p2) i p2 = (ok3, p3)" by (cases "revive now (retries p2) i p2")
    have st: "settled A i p2 (ok3, p3)"
      using revive_settled [OF p2(3), of i now "retries p2"] p2(1) i r by simp
    have und3: "undisturbed A p p3"
      using undisturbed_trans [OF und settled_undisturbed [OF st]] p2(1) i(3) by simp
    show ?thesis
    proof (cases ok3)
      case True
      obtain w q' where g: "grant i p3 = (w, q')" by (cases "grant i p3")
      from grant_spec [OF settledD(1) [OF st] _ settledD(5) [OF st True] settledD(4) [OF st] g]
        settledD(3) [OF st] p2(1) i(1) undisturbed_lent [OF und3, of i q'] True no g r v f
          \<open>validation_on_borrow p\<close>
      show ?thesis by (auto simp: finish_borrow_def)
    next
      case False
      with und3 no r v f True show ?thesis by (auto simp: finish_borrow_def)
    qed
  qed
qed

subsection \<open>Returning\<close>

lemma release_spec:
  assumes inv: "pool_inv A p" and i: "i < length (slots p)" "slot_in_use (slots p ! i)" "w_slot w = int i"
    and r: "OCI_Pool_release_session now w p = (w2, q)"
  shows "pool_inv A q \<and> length (slots q) = length (slots p) \<and> pool_envhp q = pool_envhp p \<and>
    pool_errhp q = pool_errhp p \<and> \<not> slot_in_use (slots q ! i) \<and> (\<forall>j. j \<noteq> i \<longrightarrow> slots q ! j = slots p ! j)"
proof -
  let ?s = "slots p ! i"
  have op: "slot_open ?s" using pool_invD(3) [OF inv i(1)] i(2) by (auto simp: slot_closed_def)
  define o2 where "o2 = (if rollback_on_return p \<and> errhp ?s \<noteq> None
      then (case svchp ?s of None \<Rightarrow> lib p | Some h \<Rightarrow> (lib p)\<lparr>rolled_back := h # rolled_back (lib p)\<rparr>) else lib p)"
  have q: "q = p\<lparr>lib := o2, slots := (slots p)[i := ?s\<lparr>slot_last_used := now, slot_in_use := False\<rparr>]\<rparr>"
    using r i(1,3) by (simp add: OCI_Pool_release_session_def Let_def o2_def)
  have o2: "allocated o2 = allocated (lib p)" "next_handle o2 = next_handle (lib p)"
    by (simp_all add: o2_def split: option.split)
  have "pool_inv A ((p\<lparr>slots := (slots p)[i := ?s\<lparr>slot_last_used := now, slot_in_use := False\<rparr>]\<rparr>)\<lparr>lib := o2\<rparr>)"
    by (rule pool_inv_lib [OF pool_inv_mark [OF inv i(1) op]]) (use op o2 in simp_all)
  moreover have "(p\<lparr>slots := (slots p)[i := ?s\<lparr>slot_last_used := now, slot_in_use := False\<rparr>]\<rparr>)\<lparr>lib := o2\<rparr> = q"
    unfolding q by simp
  ultimately show ?thesis using q i(1) by simp
qed

subsection \<open>The contract\<close>

text \<open>
  \<open>B\<close> are the handles of the rest of the process. A connected pool has its environment and its error
  handle, and every other handle it allocated is in exactly one of its slots.
\<close>

definition pool_live :: "nat set \<Rightarrow> pool \<Rightarrow> bool" where
  "pool_live B p \<longleftrightarrow>
     (case (pool_envhp p, pool_errhp p) of
        (Some env, Some err) \<Rightarrow> env \<notin> B \<and> err \<notin> B \<and> env \<noteq> err \<and> pool_inv (insert env (insert err B)) p
      | _ \<Rightarrow> False)"

lemma pool_liveE:
  assumes "pool_live B p"
  obtains env err where "pool_envhp p = Some env" "pool_errhp p = Some err" "env \<notin> B" "err \<notin> B" "env \<noteq> err"
    "pool_inv (insert env (insert err B)) p"
  using assms by (auto simp: pool_live_def split: option.splits)

lemma pool_live_step:
  assumes "pool_live B p" "pool_envhp q = pool_envhp p" "pool_errhp q = pool_errhp p"
    "\<And>A. pool_inv A p \<Longrightarrow> pool_inv A q"
  shows "pool_live B q"
  using assms by (auto simp: pool_live_def split: option.splits)

text \<open>One round of \<open>OCI_Pool_get_session\<close>: what a worker does between two waits.\<close>

definition ora_borrow :: "int \<Rightarrow> pool \<Rightarrow> pool \<times> nat option" where
  "ora_borrow now p =
     (case try_borrow now p of
        (q, None) \<Rightarrow> (q, None)
      | (q, Some i) \<Rightarrow> (case finish_borrow now i q of (w, q2) \<Rightarrow> (q2, if w = None then None else Some i)))"

definition ora_return :: "int \<Rightarrow> nat \<Rightarrow> pool \<Rightarrow> pool" where
  "ora_return now i p = snd (OCI_Pool_release_session now (worker_zero\<lparr>w_slot := int i\<rparr>) p)"

definition ora_maintain :: "int \<Rightarrow> pool \<Rightarrow> pool" where
  "ora_maintain now p = the (snd (OCI_Pool_health_check now (Some p)))"

definition ora_lent :: "pool \<Rightarrow> nat set" where
  "ora_lent p = busy_slots slot_in_use (slots p)"

definition ora_conn :: "pool \<Rightarrow> nat \<Rightarrow> nat option" where
  "ora_conn p i = svchp (slots p ! i)"

lemma ora_borrow_spec:
  assumes inv: "pool_inv A p" and b: "ora_borrow now p = (q, r)"
  shows "case r of None \<Rightarrow> undisturbed A p q | Some i \<Rightarrow> lent_out A i p q"
proof -
  obtain p2 r2 where t: "try_borrow now p = (p2, r2)" by (cases "try_borrow now p")
  note ts = try_borrow_spec [OF inv t]
  have inv2: "pool_inv A p2" "length (slots p2) = length (slots p)" using ts by (simp_all add: undisturbed_def kept_slots_def)
  show ?thesis
  proof (cases r2)
    case None
    with b t have "q = p2" "r = None" by (simp_all add: ora_borrow_def)
    with ts show ?thesis by simp
  next
    case (Some i)
    obtain w q2 where f: "finish_borrow now i p2 = (w, q2)" by (cases "finish_borrow now i p2")
    from b t Some f have q: "q = q2" "r = (if w = None then None else Some i)" by (simp_all add: ora_borrow_def)
    have und: "undisturbed A p p2" and i: "i < length (slots p2)" "slot_open (slots p2 ! i)" "\<not> slot_in_use (slots p2 ! i)"
      using ts Some inv2(2) by simp_all
    note fs = finish_borrow_spec [OF inv2(1) i f]
    show ?thesis
    proof (cases w)
      case None
      with fs undisturbed_trans [OF und] q show ?thesis by simp
    next
      case (Some w')
      with fs undisturbed_lent [OF und] q show ?thesis by simp
    qed
  qed
qed

lemma ora_maintain_spec: "pool_inv A p \<Longrightarrow> undisturbed A p (ora_maintain now p)"
  using health_check_spec [of A p now] by (cases "OCI_Pool_health_check now (Some p)") (auto simp: ora_maintain_def)

lemma undisturbed_lent_set: "undisturbed A p q \<Longrightarrow> ora_lent q = ora_lent p"
  by (simp add: undisturbed_def ora_lent_def kept_busy)

lemma undisturbed_conn: "undisturbed A p q \<Longrightarrow> i \<in> ora_lent p \<Longrightarrow> ora_conn q i = ora_conn p i"
  using kept_nth [of slot_in_use "slots p" "slots q" i] by (simp add: undisturbed_def ora_lent_def ora_conn_def)

lemma undisturbed_live: "pool_live B p \<Longrightarrow> (\<And>A. pool_inv A p \<Longrightarrow> undisturbed A p q) \<Longrightarrow> pool_live B q"
  by (elim pool_liveE) (force simp: pool_live_def undisturbed_def)

lemma lent_out_sets:
  assumes "lent_out A i p q"
  shows "i \<notin> ora_lent p" "ora_lent q = insert i (ora_lent p)" "j \<in> ora_lent p \<Longrightarrow> ora_conn q j = ora_conn p j"
  using assms lent_busy [of slot_in_use i "slots p" "slots q"]
  by (simp_all add: lent_out_def ora_lent_def ora_conn_def)

lemma lent_open: "pool_live B p \<Longrightarrow> i \<in> ora_lent p \<Longrightarrow> slot_open (slots p ! i)"
  by (elim pool_liveE) (force simp: ora_lent_def busy_slots_def slot_closed_def dest: pool_invD(3))

lemma open_conn: "slot_open s \<Longrightarrow> svchp s = Some h \<Longrightarrow> h \<in> slot_handles s"
  by (simp add: slot_handles_def)

lemma lent_conn_distinct:
  assumes live: "pool_live B p" and ij: "i \<in> ora_lent p" "j \<in> ora_lent p" "ora_conn p i = ora_conn p j"
  shows "i = j"
proof (rule ccontr)
  assume ne: "i \<noteq> j"
  obtain env err where inv: "pool_inv (insert env (insert err B)) p" using live by (rule pool_liveE)
  obtain h where h: "svchp (slots p ! i) = Some h" using lent_open [OF live ij(1)] by (auto simp: slot_open_def)
  with ij(3) have "svchp (slots p ! j) = Some h" by (simp add: ora_conn_def)
  with h lent_open [OF live ij(1)] lent_open [OF live ij(2)]
  have "h \<in> slot_handles (slots p ! i) \<inter> slot_handles (slots p ! j)" by (simp add: open_conn)
  with slot_accountsD(1) [OF pool_invD(4) [OF inv] _ _ ne] ij(1,2) show False by (simp add: ora_lent_def busy_slots_def)
qed

lemma ora_return_spec:
  assumes "pool_inv A p" "i \<in> ora_lent p"
  shows "pool_inv A (ora_return e i p) \<and> pool_envhp (ora_return e i p) = pool_envhp p \<and>
    pool_errhp (ora_return e i p) = pool_errhp p \<and> ora_lent (ora_return e i p) = ora_lent p - {i} \<and>
    (\<forall>j. j \<noteq> i \<longrightarrow> slots (ora_return e i p) ! j = slots p ! j)"
proof -
  obtain w2 q where r: "OCI_Pool_release_session e (worker_zero\<lparr>w_slot := int i\<rparr>) p = (w2, q)"
    by (cases "OCI_Pool_release_session e (worker_zero\<lparr>w_slot := int i\<rparr>) p")
  note rs = release_spec [OF assms(1) _ _ _ r, of i]
  have i: "i < length (slots p)" "slot_in_use (slots p ! i)" using assms(2) by (simp_all add: ora_lent_def busy_slots_def)
  have rs: "pool_inv A q" "length (slots q) = length (slots p)" "pool_envhp q = pool_envhp p"
      "pool_errhp q = pool_errhp p" "\<not> slot_in_use (slots q ! i)" "\<And>j. j \<noteq> i \<Longrightarrow> slots q ! j = slots p ! j"
    using rs i by simp_all
  have "ora_lent q = ora_lent p - {i}"
    unfolding ora_lent_def by (rule freed_busy) (use rs in simp_all)
  with rs r show ?thesis by (auto simp: ora_return_def)
qed

interpretation ora_pool: session_pool ora_lent ora_conn "pool_live B" ora_borrow ora_return ora_maintain
  for B :: "nat set"
proof
  fix p :: pool and i j :: nat and e :: int
  assume live: "pool_live B p"
  obtain env err where inv: "pool_inv (insert env (insert err B)) p" using live by (rule pool_liveE)
  obtain q r where b: "ora_borrow e p = (q, r)" by (cases "ora_borrow e p")
  note bs = ora_borrow_spec [OF _ b]
  show "i \<in> ora_lent p \<Longrightarrow> ora_conn p i \<noteq> None"
    using lent_open [OF live] by (simp add: ora_conn_def slot_open_svchp)
  show "i \<in> ora_lent p \<Longrightarrow> j \<in> ora_lent p \<Longrightarrow> ora_conn p i = ora_conn p j \<Longrightarrow> i = j"
    by (rule lent_conn_distinct [OF live])
  show "pool_live B (fst (ora_borrow e p))"
  proof (cases r)
    case None
    with bs b show ?thesis by (auto intro: undisturbed_live [OF live])
  next
    case (Some k)
    have lo: "lent_out A k p q" if "pool_inv A p" for A using ora_borrow_spec [OF that b] Some by simp
    have "pool_live B q"
      by (rule pool_live_step [OF live]) (use lo [OF inv] lo in \<open>simp_all add: lent_out_def\<close>)
    with b show ?thesis by simp
  qed
  show "ora_conn (fst (ora_borrow e p)) i = ora_conn p i" if "i \<in> ora_lent p"
    using bs [OF inv] b undisturbed_conn [OF _ that] lent_out_sets(3) [OF _ that] by (auto split: option.splits)
  show "ora_lent (fst (ora_borrow e p)) = ora_lent p" if "snd (ora_borrow e p) = None"
    using bs [OF inv] b that undisturbed_lent_set by auto
  show "i \<notin> ora_lent p \<and> ora_lent (fst (ora_borrow e p)) = insert i (ora_lent p)" if "snd (ora_borrow e p) = Some i"
    using bs [OF inv] b that lent_out_sets(1,2) by auto
  show "pool_live B (ora_return e i p)" if "i \<in> ora_lent p"
    by (rule pool_live_step [OF live]) (use ora_return_spec [OF _ that, of _ e] inv in blast)+
  show "ora_lent (ora_return e i p) = ora_lent p - {i}" if "i \<in> ora_lent p"
    using ora_return_spec [OF inv that] by blast
  show "ora_conn (ora_return e i p) j = ora_conn p j" if "i \<in> ora_lent p" "j \<in> ora_lent p" "j \<noteq> i"
    using ora_return_spec [OF inv that(1), of e] that(3) by (simp add: ora_conn_def)
  show "pool_live B (ora_maintain e p)"
    by (rule undisturbed_live [OF live]) (rule ora_maintain_spec)
  show "ora_lent (ora_maintain e p) = ora_lent p"
    using undisturbed_lent_set [OF ora_maintain_spec [OF inv]] .
  show "ora_conn (ora_maintain e p) i = ora_conn p i" if "i \<in> ora_lent p"
    using undisturbed_conn [OF ora_maintain_spec [OF inv] that] .
qed

subsection \<open>Connecting and disconnecting\<close>

lemma close_all_spec:
  "pool_inv A p \<Longrightarrow> n \<le> length (slots p) \<Longrightarrow>
     pool_inv A (close_all n p) \<and> length (slots (close_all n p)) = length (slots p) \<and>
     pool_envhp (close_all n p) = pool_envhp p \<and> pool_errhp (close_all n p) = pool_errhp p \<and>
     (\<forall>j < n. slot_closed (slots (close_all n p) ! j))"
proof (induction n)
  case (Suc n)
  let ?p = "close_all n p"
  from Suc have ih: "pool_inv A ?p" "length (slots ?p) = length (slots p)" "pool_envhp ?p = pool_envhp p"
      "pool_errhp ?p = pool_errhp p" "\<And>j. j < n \<Longrightarrow> slot_closed (slots ?p ! j)" by auto
  have n: "n < length (slots ?p)" using ih(2) Suc.prems(2) by simp
  show ?case
  proof (cases "svchp (slots ?p ! n) = None")
    case True
    with pool_invD(3) [OF ih(1) n] slot_open_svchp have "slot_closed (slots ?p ! n)" by blast
    with True ih show ?thesis by (auto simp: less_Suc_eq)
  next
    case False
    note st = close_at_settled [OF ih(1) n svchp_open [OF ih(1) n False]]
    have "slot_closed (slots (close_at n ?p) ! j)" if "j < Suc n" for j
      using settledD(6,7) [OF st] ih(5) that by (cases "j = n") simp_all
    with False ih settledD(1,3) [OF st] settledD(2) [OF st] show ?thesis by (simp add: same_but_def)
  qed
qed simp

text \<open>Disconnecting leaves exactly what was allocated outside of the pool.\<close>

lemma release_pool_spec:
  assumes inv: "pool_inv A p"
  shows "allocated (release_pool p) = A - set_option (pool_envhp p) - set_option (pool_errhp p)"
proof -
  let ?q = "close_all (length (slots p)) p"
  note c = close_all_spec [OF inv order_refl]
  have "(\<Union>i < length (slots ?q). slot_handles (slots ?q ! i)) = {}" using c slot_closed_handles by auto
  moreover have "pool_inv A ?q" using c by blast
  ultimately have "allocated (lib ?q) = A" using slot_accountsD(3) [OF pool_invD(4)] by blast
  with c show ?thesis by (auto simp: release_pool_def oci_free_set)
qed

lemma release_live: "pool_live B p \<Longrightarrow> allocated (release_pool p) = B"
  by (elim pool_liveE) (auto simp: release_pool_spec)

lemma reopen_Some_retries: "reopen_loop now i n p = (True, q) \<Longrightarrow> 0 < n"
  by (cases n) simp_all

text \<open>Opening the minimum: slots \<open>i\<close> to \<open>i + n - 1\<close>, all closed before.\<close>

lemma open_minimum_spec:
  assumes "pool_inv A p" "\<forall>j < length (slots p). i \<le> j \<longrightarrow> slot_closed (slots p ! j)"
  shows "case open_minimum now i n p of
      None \<Rightarrow> 0 < retries p \<and> length (slots p) < i + n
    | Some (ok, q) \<Rightarrow> pool_inv A q \<and> length (slots q) = length (slots p) \<and>
        pool_envhp q = pool_envhp p \<and> pool_errhp q = pool_errhp p \<and>
        (ok \<longrightarrow> (0 < n \<longrightarrow> 0 < retries p \<and> i + n \<le> length (slots p)) \<and> slots_open q = slots_open p + int n \<and>
           (\<forall>j. j < i \<or> i + n \<le> j \<longrightarrow> slots q ! j = slots p ! j) \<and>
           (\<forall>j. i \<le> j \<and> j < i + n \<longrightarrow> slot_open (slots q ! j) \<and> \<not> slot_in_use (slots q ! j)))"
  using assms
proof (induction now i n p rule: open_minimum.induct)
  case (1 now i p)
  then show ?case by auto
next
  case (2 now i n p)
  consider (bad) "length (slots p) \<le> i" "0 < retries p" | (none) "length (slots p) \<le> i" "retries p = 0"
    | (good) "i < length (slots p)" by linarith
  then show ?case
  proof cases
    case bad
    then show ?thesis by simp
  next
    case none
    with "2.prems" show ?thesis by simp
  next
    case good
    obtain ok p2 where r: "reopen_loop now i (retries p) p = (ok, p2)" by (cases "reopen_loop now i (retries p) p")
    have st: "settled A i p (ok, p2)" using reopen_settled [OF "2.prems"(1) good, of now "retries p"] "2.prems"(2) good r by simp
    have keep: "length (slots p2) = length (slots p)" "pool_envhp p2 = pool_envhp p" "pool_errhp p2 = pool_errhp p"
        "retries p2 = retries p" using settledD(2) [OF st] by (simp_all add: same_but_def)
    show ?thesis
    proof (cases ok)
      case False
      with r good settledD(1) [OF st] keep show ?thesis by simp
    next
      case True
      have closed: "\<forall>j < length (slots p2). i + 1 \<le> j \<longrightarrow> slot_closed (slots p2 ! j)"
        using "2.prems"(2) settledD(7) [OF st] keep(1) by simp
      have "slots_open p2 = slots_open p + 1"
        using settled_count [OF st "2.prems"(1) good] True "2.prems"(2) good by (simp add: slot_closed_def)
      note step = this settledD(4) [OF st] settledD(5) [OF st True] settledD(7) [OF st]
      have bad: "\<not> (length (slots p) \<le> i \<and> 0 < retries p)" using good by simp
      have ret: "0 < retries p" using reopen_Some_retries [of now i "retries p" p p2] r True by simp
      note ih = "2.IH" [OF _ r [symmetric] True settledD(1) [OF st] closed]
      show ?thesis
      proof (cases "open_minimum now (i + 1) n p2")
        case None
        with ih bad keep good r True show ?thesis by simp
      next
        case (Some res)
        obtain ok2 q where res: "res = (ok2, q)" by (cases res)
        have q: "pool_inv A q" "length (slots q) = length (slots p2)" "pool_envhp q = pool_envhp p2"
            "pool_errhp q = pool_errhp p2"
          using ih bad Some res by auto
        show ?thesis
        proof (cases ok2)
          case False
          with q keep good r True Some res show ?thesis by simp
        next
          case ok2: True
          have a: "0 < n \<longrightarrow> i + 1 + n \<le> length (slots p2)" "slots_open q = slots_open p2 + int n"
              "\<And>j. j < i + 1 \<or> i + 1 + n \<le> j \<Longrightarrow> slots q ! j = slots p2 ! j"
              "\<And>j. i + 1 \<le> j \<Longrightarrow> j < i + 1 + n \<Longrightarrow> slot_open (slots q ! j) \<and> \<not> slot_in_use (slots q ! j)"
            using ih bad Some res ok2 by auto
          have "slots q ! j = slots p ! j" if "j < i \<or> i + Suc n \<le> j" for j
            using a(3) [of j] step(4) [of j] that by auto
          moreover have "slot_open (slots q ! j) \<and> \<not> slot_in_use (slots q ! j)" if "i \<le> j" "j < i + Suc n" for j
            using a(3) [of j] a(4) [of j] step(2,3) that by (cases "j = i") simp_all
          moreover have "i + Suc n \<le> length (slots p)" using a(1) good keep(1) by (cases n) simp_all
          ultimately show ?thesis using q keep good r True Some res ok2 ret a(2) step(1) by simp
        qed
      qed
    qed
  qed
qed

lemma new_pool_inv:
  assumes "oci_wf o1"
  shows "pool_inv (allocated o1) (new_pool ini o1)"
proof -
  have h: "slot_handles slot_zero = {}" "svchp slot_zero = None"
    by (simp add: slot_closed_handles, simp add: slot_zero_def)
  show ?thesis
    using assms by (simp add: pool_inv_def new_pool_def Let_def h slot_accounts_def)
qed

lemma pool_inv_own_handles [simp]:
  "pool_inv A (p\<lparr>pool_envhp := x\<rparr>) = pool_inv A p" "pool_inv A (p\<lparr>pool_errhp := x\<rparr>) = pool_inv A p"
  by (simp_all add: pool_inv_def)

lemma new_pool_lib: "(new_pool ini o1)\<lparr>lib := o2\<rparr> = new_pool ini o2"
  by (simp add: new_pool_def Let_def)

text \<open>The pool just before its minimum of slots is opened.\<close>

definition bare_pool :: "pool_ini \<Rightarrow> oci \<Rightarrow> pool" where
  "bare_pool ini o1 =
     (case oci_alloc o1 of (env, o2) \<Rightarrow> case oci_alloc o2 of (err, o3) \<Rightarrow>
        (new_pool ini o3)\<lparr>pool_envhp := Some env, pool_errhp := Some err\<rparr>)"

lemma bare_pool_simps [simp]:
  "slots (bare_pool ini o1) = replicate (pool_max_size (new_pool ini o1)) slot_zero"
  "slots_open (bare_pool ini o1) = 0"
  "retries (bare_pool ini o1) = nat (if cfg_retries ini \<ge> 0 then cfg_retries ini else 3)"
  by (simp_all add: bare_pool_def oci_alloc_def new_pool_def Let_def)

lemma bare_pool_live:
  assumes "oci_wf o1"
  shows "pool_live (allocated o1) (bare_pool ini o1)"
proof -
  let ?env = "next_handle o1" and ?err = "next_handle o1 + 1"
  let ?o3 = "o1\<lparr>next_handle := next_handle o1 + 1 + 1, allocated := insert ?err (insert ?env (allocated o1))\<rparr>"
  have "oci_wf ?o3" using assms by (auto simp: oci_wf_def)
  from new_pool_inv [OF this, of ini] assms show ?thesis
    by (auto simp: bare_pool_def pool_live_def oci_alloc_def oci_wf_def insert_commute)
qed

lemma new_pool_handles:
  "(new_pool ini o1)\<lparr>pool_envhp := x, pool_errhp := y, lib := o2\<rparr> = (new_pool ini o2)\<lparr>pool_envhp := x, pool_errhp := y\<rparr>"
  "(new_pool ini o2)\<lparr>pool_envhp := x, pool_errhp := None\<rparr> = (new_pool ini o2)\<lparr>pool_envhp := x\<rparr>"
  by (simp_all add: new_pool_def Let_def)

lemma connect_steps:
  "OCI_Connect_pool ini a s e r now o1 =
     (if \<not> a \<or> (cfg_wallet ini \<and> cfg_wallet_location ini = []) \<or> \<not> s \<or> \<not> e then Some (Inl o1)
      else if \<not> r then Some (Inl (release_pool ((new_pool ini (snd (oci_alloc o1)))\<lparr>pool_envhp := Some (fst (oci_alloc o1))\<rparr>)))
      else map_option (\<lambda>(ok, q). if ok then Inr q else Inl (release_pool q))
             (open_minimum now 0 (min_size ini) (bare_pool ini o1)))"
proof -
  obtain env o2 where e2: "oci_alloc o1 = (env, o2)" by (cases "oci_alloc o1")
  obtain err o3 where e3: "oci_alloc o2 = (err, o3)" by (cases "oci_alloc o2")
  have "bare_pool ini o1 = (new_pool ini o2)\<lparr>pool_envhp := Some env, pool_errhp := Some err, lib := o3\<rparr>"
    by (simp add: bare_pool_def e2 e3 new_pool_handles)
  then show ?thesis
    unfolding OCI_Connect_pool_def Let_def by (auto simp: e2 e3)
qed

lemma connect_spec:
  assumes wf: "oci_wf o1"
  shows "case OCI_Connect_pool ini a s e r now o1 of
      None \<Rightarrow> pool_max_size (new_pool ini o1) < min_size ini
    | Some (Inl o2) \<Rightarrow> allocated o2 = allocated o1
    | Some (Inr p) \<Rightarrow> cfg_retries ini \<noteq> 0 \<and> pool_live (allocated o1) p \<and> ora_lent p = {} \<and>
        slots_open p = int (min_size ini) \<and> length (slots p) = pool_max_size (new_pool ini o1) \<and>
        (\<forall>j < length (slots p). if j < min_size ini then slot_open (slots p ! j) else slot_closed (slots p ! j))"
proof -
  let ?p = "bare_pool ini o1"
  obtain env err where ee: "pool_envhp ?p = Some env" "pool_errhp ?p = Some err" "env \<notin> allocated o1"
      "err \<notin> allocated o1" "env \<noteq> err" "pool_inv (insert env (insert err (allocated o1))) ?p"
    using bare_pool_live [OF wf] by (rule pool_liveE)
  consider (early) "\<not> a \<or> (cfg_wallet ini \<and> cfg_wallet_location ini = []) \<or> \<not> s \<or> \<not> e"
    | (no_err) "\<not> (\<not> a \<or> (cfg_wallet ini \<and> cfg_wallet_location ini = []) \<or> \<not> s \<or> \<not> e)" "\<not> r"
    | (open') "\<not> (\<not> a \<or> (cfg_wallet ini \<and> cfg_wallet_location ini = []) \<or> \<not> s \<or> \<not> e)" "r" by blast
  then show ?thesis
  proof cases
    case early
    then have "OCI_Connect_pool ini a s e r now o1 = Some (Inl o1)" unfolding connect_steps by (rule if_P)
    then show ?thesis by simp
  next
    case no_err
    let ?q = "(new_pool ini (snd (oci_alloc o1)))\<lparr>pool_envhp := Some (fst (oci_alloc o1))\<rparr>"
    have "oci_wf (snd (oci_alloc o1))" using wf by (auto simp: oci_wf_def oci_alloc_def less_Suc_eq)
    from new_pool_inv [OF this, of ini]
    have "pool_inv (insert (next_handle o1) (allocated o1)) ?q" by (simp add: oci_alloc_def)
    from release_pool_spec [OF this] have "allocated (release_pool ?q) = allocated o1"
      using wf by (auto simp: oci_wf_def oci_alloc_def new_pool_def Let_def)
    with no_err show ?thesis unfolding connect_steps by simp
  next
    case open'
    have "\<forall>j < length (slots ?p). 0 \<le> j \<longrightarrow> slot_closed (slots ?p ! j)" by simp
    note om = open_minimum_spec [OF ee(6) this, where now = now and n = "min_size ini"]
    have c: "OCI_Connect_pool ini a s e r now o1 = map_option (\<lambda>(ok, q). if ok then Inr q else Inl (release_pool q))
        (open_minimum now 0 (min_size ini) ?p)" 
      unfolding connect_steps if_not_P [OF open'(1)] using open'(2) by simp
    show ?thesis
    proof (cases "open_minimum now 0 (min_size ini) ?p")
      case None
      with om c show ?thesis by simp
    next
      case (Some res)
      obtain ok q where res: "res = (ok, q)" by (cases res)
      have q: "pool_inv (insert env (insert err (allocated o1))) q" "length (slots q) = length (slots ?p)"
          "pool_envhp q = Some env" "pool_errhp q = Some err" using om Some res ee(1,2) by simp_all
      show ?thesis
      proof (cases ok)
        case False
        from release_pool_spec [OF q(1)] q(3,4) ee(3,4) have "allocated (release_pool q) = allocated o1" by auto
        with c Some res False show ?thesis by simp
      next
        case True
        have min: "0 < min_size ini" by (simp add: min_size_def)
        have o: "0 < retries ?p" "min_size ini \<le> length (slots ?p)" "slots_open q = int (min_size ini)"
            "\<And>j. min_size ini \<le> j \<Longrightarrow> slots q ! j = slots ?p ! j"
            "\<And>j. j < min_size ini \<Longrightarrow> slot_open (slots q ! j) \<and> \<not> slot_in_use (slots q ! j)"
          using om Some res True min by simp_all
        have cl: "slot_closed (slots q ! j)" if "min_size ini \<le> j" "j < length (slots q)" for j
          using o(4) [OF that(1)] that(2) q(2) by simp
        have "ora_lent q = {}"
        proof -
          have "\<not> slot_in_use (slots q ! j)" if "j < length (slots q)" for j
            using o(5) [of j] cl [of j] that by (cases "j < min_size ini") (simp_all add: slot_closed_def)
          then show ?thesis by (auto simp: ora_lent_def busy_slots_def)
        qed
        moreover have "pool_live (allocated o1) q" using q ee(3-5) by (simp add: pool_live_def)
        moreover have "cfg_retries ini \<noteq> 0" using o(1) by (auto split: if_splits)
        ultimately show ?thesis using c Some res True o(3,5) q(2) cl by simp
      qed
    qed
  qed
qed

subsection \<open>Reconnecting\<close>

lemma get_session_fails: "OCI_Pool_get_session now w p ws = Some (-1, w2, q) \<Longrightarrow> w2 = w"
proof -
  assume g: "OCI_Pool_get_session now w p ws = Some (-1, w2, q)"
  then obtain p2 found where b: "borrow_loop now p ws = Some (p2, found)"
    by (cases "borrow_loop now p ws") (auto simp: OCI_Pool_get_session_def)
  show ?thesis
  proof (cases found)
    case None
    with g b show ?thesis by (simp add: OCI_Pool_get_session_def)
  next
    case (Some i)
    obtain r p3 where f: "finish_borrow now i p2 = (r, p3)" by (cases "finish_borrow now i p2")
    with g b Some show ?thesis by (cases r) (simp_all add: OCI_Pool_get_session_def)
  qed
qed

lemma first_index_least:
  assumes "i < length xs" "P (xs ! i)" "\<forall>j < i. \<not> P (xs ! j)"
  shows "first_index P 0 xs = Some i"
proof (cases "first_index P 0 xs")
  case None
  with assms(1,2) show ?thesis by (auto simp: first_index_None)
next
  case (Some k)
  from first_index_0 [OF this] assms have "k = i" by (metis linorder_neqE_nat)
  with Some show ?thesis by simp
qed

text \<open>
  Without validation on borrowing, a reconnection hands out the connection it has just given back, the one
  presumed dead, unless an earlier slot happens to be free.
\<close>

lemma reconnect_same_session:
  assumes val: "\<not> validation_on_borrow p" and w: "w_slot w = int i" "i < length (slots p)" "svchp (slots p ! i) \<noteq> None"
    and busy: "\<forall>j < i. svchp (slots p ! j) \<noteq> None \<longrightarrow> slot_in_use (slots p ! j)"
  shows "\<exists>w2 q. OCI_Pool_reconnect_session now w p ws = Some (0, w2, q) \<and> w_slot w2 = int i \<and>
    w_svchp w2 = svchp (slots p ! i)"
proof -
  obtain w0 p2 where r: "OCI_Pool_release_session now w p = (w0, p2)" by (cases "OCI_Pool_release_session now w p")
  have p2: "slots p2 = (slots p)[i := (slots p ! i)\<lparr>slot_last_used := now, slot_in_use := False\<rparr>]"
      "validation_on_borrow p2 = validation_on_borrow p"
    using r w by (auto simp: OCI_Pool_release_session_def Let_def)
  have "first_index (\<lambda>s. svchp s \<noteq> None \<and> \<not> slot_in_use s) 0 (slots p2) = Some i"
    by (rule first_index_least) (use p2 w busy in auto)
  then have "borrow_loop now p2 ws = Some (p2, Some i)"
    by (subst borrow_loop.simps) (simp add: try_borrow_def)
  moreover have "finish_borrow now i p2 = (Some (fst (grant i p2)), snd (grant i p2))"
    using val p2(2) by (simp add: finish_borrow_def split: prod.split)
  ultimately have "OCI_Pool_get_session now w0 p2 ws = Some (0, fst (grant i p2), snd (grant i p2))"
    by (simp add: OCI_Pool_get_session_def)
  with r p2(1) w(2) show ?thesis by (simp add: OCI_Pool_reconnect_session_def grant_def Let_def)
qed

text \<open>A pool of two slots in use whose server is gone.\<close>

definition dead_pool :: pool where
  "dead_pool =
     (let s = slot_zero\<lparr>slot_in_use := True, srvhp := Some 1, svchp := Some 2, authp := Some 3, errhp := Some 4\<rparr> in
      \<lparr>slots = [s, s\<lparr>srvhp := Some 5, svchp := Some 6, authp := Some 7, errhp := Some 8\<rparr>], slots_open = 2,
       pool_max_size = 2, retries = 1, session_max_lifetime = 3600, validation_on_borrow = True,
       rollback_on_return = False, use_wallet = False, pool_envhp = Some 9, pool_errhp = Some 10,
       lib = \<lparr>next_handle = 11, allocated = {1..10}, opens_done = 0, pings_done = 0, rolled_back = [],
         step_ok = (\<lambda>n k. False), ping_ok = (\<lambda>n. False)\<rparr>\<rparr>)"

subsection \<open>Properties\<close>

lemma connect_pool_live:
  assumes "oci_wf o1" "OCI_Connect_pool ini a s e r now o1 = Some (Inr p)"
  shows "pool_live (allocated o1) p" "ora_lent p = {}"
  using connect_spec [OF assms(1), of ini a s e r now] assms(2) by simp_all

definition test_oci :: oci where
  "test_oci = \<lparr>next_handle = 1, allocated = {0}, opens_done = 0, pings_done = 0, rolled_back = [],
     step_ok = (\<lambda>n k. n \<noteq> 1), ping_ok = (\<lambda>n. False)\<rparr>"

definition test_ini :: pool_ini where
  "test_ini = \<lparr>cfg_min_size = 1, cfg_max_size = 2, cfg_retries = 2, cfg_max_lifetime = 0, cfg_validation = False,
     cfg_rollback = True, cfg_wallet = False, cfg_wallet_location = []\<rparr>"

lemma test_oci_wf: "oci_wf test_oci"
  by (simp add: oci_wf_def test_oci_def)


definition test_pool :: pool where
  "test_pool = (case OCI_Connect_pool test_ini True True True True 5 test_oci of Some (Inr p) \<Rightarrow> p)"

definition test_run :: "pool \<times> nat holders" where
  "test_run = fold (pool_step ora_conn ora_borrow ora_return ora_maintain)
     [Borrow 6 0, Maintain 7, Borrow 8 1, Borrow 9 1] (test_pool, \<lambda>_. None)"

lemma test_pool_connected: "OCI_Connect_pool test_ini True True True True 5 test_oci = Some (Inr test_pool)"
proof -
  have "case OCI_Connect_pool test_ini True True True True 5 test_oci of Some (Inr p) \<Rightarrow> True | _ \<Rightarrow> False"
    by code_simp
  then show ?thesis by (auto simp: test_pool_def split: option.splits sum.splits)
qed

lemma test_run_holds: "snd test_run 0 = Some (0, 5)" "snd test_run 1 = Some (1, 9)"
  by code_simp+


text \<open>
  \<^verbatim>\<open>OCI_Connect_pool\<close> either connects, with exactly the configured minimum of slots open and free and
  the rest closed, or releases every handle it allocated. It writes behind its slot array only if the configured
  minimum exceeds the maximum (which it does not check), and never connects if the configuration allows no
  attempt (\<^verbatim>\<open>retries_on_connection_failure = 0\<close>).
\<close>

theorem ora_connect_exact:
  assumes "oci_wf o1"
  shows "case OCI_Connect_pool ini a s e r now o1 of
      None \<Rightarrow> pool_max_size (new_pool ini o1) < min_size ini
    | Some (Inl o2) \<Rightarrow> allocated o2 = allocated o1
    | Some (Inr p) \<Rightarrow> cfg_retries ini \<noteq> 0 \<and> pool_live (allocated o1) p \<and> ora_lent p = {} \<and>
        slots_open p = int (min_size ini) \<and> length (slots p) = pool_max_size (new_pool ini o1) \<and>
        (\<forall>j < length (slots p). if j < min_size ini then slot_open (slots p ! j) else slot_closed (slots p ! j))"
  by (rule connect_spec [OF assms])

lemma ora_connect_exact_witness:
  "slots_open test_pool = 1 \<and> slot_open (slots test_pool ! 0) \<and> slot_closed (slots test_pool ! 1)"
proof -
  have "length (slots test_pool) = 2" "min_size test_ini = 1" by code_simp+
  with ora_connect_exact [OF test_oci_wf, of test_ini True True True True 5] test_pool_connected
  show ?thesis by (auto simp: All_less_Suc2 numeral_2_eq_2)
qed

text \<open>C3. No handle is leaked and none is freed twice: after any run of borrowing, returning and health
  checks, disconnecting the pool leaves exactly the handles that were allocated before it was connected.\<close>

theorem ora_no_handle_leaked:
  assumes "oci_wf o1" "OCI_Connect_pool ini a s e r now o1 = Some (Inr p)"
    and "fold (pool_step ora_conn ora_borrow ora_return ora_maintain) evs (p, \<lambda>_. None) = (q, hold)"
  shows "map_option allocated (OCI_Disconnect_pool (Some q)) = Some (allocated o1)"
  using release_live [OF ora_pool.run_ok [OF connect_pool_live [OF assms(1,2)] assms(3)]]
  by (simp add: OCI_Disconnect_pool_def)

lemma ora_no_handle_leaked_witness:
  "map_option allocated (OCI_Disconnect_pool (Some (fst test_run))) = Some {0}"
proof -
  have run: "fold (pool_step ora_conn ora_borrow ora_return ora_maintain)
      [Borrow 6 0, Maintain 7, Borrow 8 1, Borrow 9 1] (test_pool, \<lambda>_. None) = (fst test_run, snd test_run)"
    by (simp only: test_run_def prod.collapse)
  show ?thesis
    using ora_no_handle_leaked [OF test_oci_wf test_pool_connected run] by (simp add: test_oci_def)
qed

text \<open>A health check of a consistent pool never touches a slot in use and never marks one, keeps the
  accounts of handles and open slots, and its result is the number of slots it had to leave closed.\<close>

theorem ora_health_check_exact:
  assumes "pool_inv A p" "OCI_Pool_health_check now (Some p) = (n, r)"
  shows "\<exists>q. r = Some q \<and> pool_inv A q \<and> n = slots_open p - slots_open q \<and> 0 \<le> n \<and>
    length (slots q) = length (slots p) \<and>
    (\<forall>j < length (slots p). (slot_in_use (slots q ! j) \<longleftrightarrow> slot_in_use (slots p ! j)) \<and>
       (slot_in_use (slots p ! j) \<longrightarrow> slots q ! j = slots p ! j))"
  using health_check_spec [OF assms] by (auto simp: undisturbed_def kept_slots_def)

lemma ora_health_check_exact_witness:
  "\<exists>q. OCI_Pool_health_check 9 (Some test_pool) = (0, Some q) \<and> slots_open q = 1"
proof -
  obtain n r where h: "OCI_Pool_health_check 9 (Some test_pool) = (n, r)"
    by (cases "OCI_Pool_health_check 9 (Some test_pool)")
  have n: "fst (OCI_Pool_health_check 9 (Some test_pool)) = 0" and o: "slots_open test_pool = 1" by code_simp+
  obtain A where "pool_inv A test_pool"
    using connect_pool_live(1) [OF test_oci_wf test_pool_connected] by (rule pool_liveE)
  from ora_health_check_exact [OF this h] n o h show ?thesis by auto
qed

text \<open>
  A reconnection that fails leaves the worker's context zeroed, so it names slot 0: giving it back or
  reconnecting it again, as the worker does when its next request fails, frees slot 0 whoever holds it.
\<close>

theorem ora_failed_reconnect_frees_slot_0:
  assumes "OCI_Pool_reconnect_session now w p ws = Some (-1, w2, q)" "0 \<le> w_slot w" "w_slot w < int (length (slots p))"
    and "slots q2 \<noteq> []"
  shows "w2 = worker_zero \<and> \<not> slot_in_use (slots (snd (OCI_Pool_release_session now2 w2 q2)) ! 0)"
proof -
  have "fst (OCI_Pool_release_session now w p) = worker_zero"
    using assms(2,3) by (simp add: OCI_Pool_release_session_def Let_def)
  then have w2: "w2 = worker_zero"
    using assms(1) get_session_fails [of now "fst (OCI_Pool_release_session now w p)"]
    by (auto simp: OCI_Pool_reconnect_session_def split: prod.splits)
  have "0 < length (slots q2)" using assms(4) by simp
  then have "\<not> slot_in_use (slots (snd (OCI_Pool_release_session now2 worker_zero q2)) ! 0)"
    by (simp add: OCI_Pool_release_session_def Let_def worker_zero_def)
  with w2 show ?thesis by simp
qed

lemma ora_failed_reconnect_frees_slot_0_witness:
  "\<exists>w2 q. OCI_Pool_reconnect_session 9 (worker_zero\<lparr>w_slot := 1\<rparr>) dead_pool [] = Some (-1, w2, q) \<and>
     slot_in_use (slots q ! 0) \<and> \<not> slot_in_use (slots (snd (OCI_Pool_release_session 10 w2 q)) ! 0)"
proof -
  obtain r where r: "OCI_Pool_reconnect_session 9 (worker_zero\<lparr>w_slot := 1\<rparr>) dead_pool [] = Some r"
      and "fst r = -1" "slots (snd (snd r)) \<noteq> []" "slot_in_use (slots (snd (snd r)) ! 0)"
  proof -
    have "case OCI_Pool_reconnect_session 9 (worker_zero\<lparr>w_slot := 1\<rparr>) dead_pool [] of
        Some r \<Rightarrow> fst r = -1 \<and> slots (snd (snd r)) \<noteq> [] \<and> slot_in_use (slots (snd (snd r)) ! 0) | None \<Rightarrow> False"
      by code_simp
    then show ?thesis using that by (auto split: option.splits)
  qed
  moreover obtain n w2 q where "r = (n, w2, q)" by (cases r)
  moreover have "w_slot (worker_zero\<lparr>w_slot := 1\<rparr>) < int (length (slots dead_pool))" by code_simp
  ultimately show ?thesis
    using ora_failed_reconnect_frees_slot_0 [of 9 "worker_zero\<lparr>w_slot := 1\<rparr>" dead_pool "[]" w2 q q 10] by auto
qed

end
