(* ===== verification/Mssql_Pool.thy ===== *)
theory Mssql_Pool
  imports Session_Pool
begin

text \<open>
  The SQL Server connections and their pool (\<^verbatim>\<open>src/infra/MSSQL_Pool.c\<close>): the shared ODBC environment,
  connections and their commit mode, and the pool with the same interface as the Oracle one. ODBC is the
  record \<open>odbc\<close>: what is allocated, which connections are in manual-commit mode, and its answers to the
  calls to come, in the order they are made. Everything between the lock and the unlock of a mutex is one
  function. Login and network timeouts, logging and metrics are left out.
\<close>

subsection \<open>ODBC\<close>

record odbc =
  next_dbc :: nat
  dbcs :: "nat set"
  manual :: "nat set"
  ended :: "(nat \<times> bool) list"
  env_live :: bool
  env_refs :: nat
  calls_done :: nat
  answer :: "nat \<Rightarrow> bool"

definition ask :: "odbc \<Rightarrow> bool \<times> odbc" where
  "ask o1 = (answer o1 (calls_done o1), o1\<lparr>calls_done := calls_done o1 + 1\<rparr>)"

text \<open>The environment is created for the first user; it is freed again if its version cannot be set.\<close>

definition mssql_env_acquire :: "odbc \<Rightarrow> bool \<times> odbc" where
  "mssql_env_acquire o1 =
     (if env_live o1 then (True, o1\<lparr>env_refs := env_refs o1 + 1\<rparr>)
      else
        (case ask o1 of
           (False, o2) \<Rightarrow> (False, o2)
         | (True, o2) \<Rightarrow>
             (case ask o2 of
                (False, o3) \<Rightarrow> (False, o3)
              | (True, o3) \<Rightarrow> (True, o3\<lparr>env_live := True, env_refs := env_refs o3 + 1\<rparr>))))"

definition mssql_env_release :: "odbc \<Rightarrow> odbc" where
  "mssql_env_release o1 =
     (if env_refs o1 > 0 then
        (let n = env_refs o1 - 1 in o1\<lparr>env_refs := n, env_live := (if n = 0 then False else env_live o1)\<rparr>)
      else o1)"

text \<open>\<open>fits\<close>: the connection string fits its buffer. The calls: allocate, set autocommit, connect.\<close>

definition mssql_open_connection :: "bool \<Rightarrow> odbc \<Rightarrow> nat option \<times> odbc" where
  "mssql_open_connection fits o1 =
     (if \<not> fits then (None, o1)
      else
        (case ask o1 of
           (False, o2) \<Rightarrow> (None, o2)
         | (True, o2) \<Rightarrow>
             let h = next_dbc o2; o2 = o2\<lparr>next_dbc := h + 1, dbcs := insert h (dbcs o2)\<rparr> in
             (case ask o2 of
                (False, o3) \<Rightarrow> (None, o3\<lparr>dbcs := dbcs o3 - {h}\<rparr>)
              | (True, o3) \<Rightarrow>
                  (case ask o3 of
                     (False, o4) \<Rightarrow> (None, o4\<lparr>dbcs := dbcs o4 - {h}\<rparr>)
                   | (True, o4) \<Rightarrow> (Some h, o4)))))"

definition mssql_close_connection :: "nat option \<Rightarrow> odbc \<Rightarrow> odbc" where
  "mssql_close_connection h o1 =
     (case h of None \<Rightarrow> o1 | Some x \<Rightarrow> o1\<lparr>dbcs := dbcs o1 - {x}, manual := manual o1 - {x}\<rparr>)"

definition mssql_ping :: "nat option \<Rightarrow> odbc \<Rightarrow> bool \<times> odbc" where
  "mssql_ping h o1 = (if h = None then (False, o1) else ask o1)"

definition mssql_end_tran :: "nat option \<Rightarrow> bool \<Rightarrow> odbc \<Rightarrow> int \<times> odbc" where
  "mssql_end_tran h commit o1 =
     (case h of
        None \<Rightarrow> (-1, o1)
      | Some x \<Rightarrow> (case ask o1 of
          (ok, o2) \<Rightarrow> if ok then (0, o2\<lparr>ended := (x, commit) # ended o2\<rparr>) else (-1, o2)))"

definition mssql_tx_in_manual :: "nat option \<Rightarrow> odbc \<Rightarrow> int \<times> odbc" where
  "mssql_tx_in_manual h o1 =
     (case h of
        None \<Rightarrow> (-1, o1)
      | Some x \<Rightarrow> (case ask o1 of (ok, o2) \<Rightarrow> (if \<not> ok then -1 else if x \<in> manual o2 then 1 else 0, o2)))"

definition mssql_tx_begin_write :: "nat option \<Rightarrow> bool \<Rightarrow> odbc \<Rightarrow> int \<times> odbc" where
  "mssql_tx_begin_write h autocommit o1 =
     (case h of
        None \<Rightarrow> (-1, o1)
      | Some x \<Rightarrow>
          if autocommit then (0, o1)
          else (case mssql_tx_in_manual h o1 of
              (m, o2) \<Rightarrow>
                if m = 1 then (0, o2)
                else (case ask o2 of (ok, o3) \<Rightarrow> if ok then (0, o3\<lparr>manual := insert x (manual o3)\<rparr>) else (-1, o3))))"

definition mssql_tx_end_write :: "nat option \<Rightarrow> bool \<Rightarrow> odbc \<Rightarrow> int \<times> odbc" where
  "mssql_tx_end_write h autocommit o1 =
     (case h of
        None \<Rightarrow> (-1, o1)
      | Some x \<Rightarrow>
          if autocommit then (0, o1)
          else (case mssql_tx_in_manual h o1 of
              (m, o2) \<Rightarrow>
                if m = 0 then (0, o2)
                else (case ask o2 of (ok, o3) \<Rightarrow> if ok then (0, o3\<lparr>manual := manual o3 - {x}\<rparr>) else (-1, o3))))"

subsection \<open>A connection without a pool\<close>

text \<open>The context's connection, and whether it holds a reference to the environment.\<close>

definition MSSQL_Connect_standalone :: "bool \<Rightarrow> odbc \<Rightarrow> nat option \<times> odbc" where
  "MSSQL_Connect_standalone fits o1 =
     (case mssql_env_acquire o1 of
        (False, o2) \<Rightarrow> (None, o2)
      | (True, o2) \<Rightarrow>
          (case mssql_open_connection fits o2 of
             (None, o3) \<Rightarrow> (None, mssql_env_release o3)
           | (Some h, o3) \<Rightarrow> (Some h, o3)))"

definition MSSQL_Disconnect_standalone :: "nat option \<Rightarrow> bool \<Rightarrow> odbc \<Rightarrow> odbc" where
  "MSSQL_Disconnect_standalone svchp envhp o1 =
     (let o2 = (case svchp of
                  None \<Rightarrow> o1
                | Some h \<Rightarrow> mssql_close_connection (Some h) (snd (mssql_end_tran (Some h) False o1)))
      in if envhp then mssql_env_release o2 else o2)"

subsection \<open>The pool\<close>

record ms_slot =
  hdbc :: "nat option"
  ms_in_use :: bool
  ms_created :: int
  ms_last_used :: int

definition ms_slot_zero :: ms_slot where
  "ms_slot_zero = \<lparr>hdbc = None, ms_in_use = False, ms_created = 0, ms_last_used = 0\<rparr>"

record ms_pool =
  ms_slots :: "ms_slot list"
  ms_slots_open :: int
  ms_max_size :: nat
  ms_retries :: int
  ms_max_lifetime :: int
  ms_validation :: bool
  ms_rollback :: bool
  ms_autocommit :: bool
  ms_fits :: bool
  ms_henv :: bool
  ms_lib :: odbc

definition ms_open_slot :: "int \<Rightarrow> nat \<Rightarrow> ms_pool \<Rightarrow> bool \<times> ms_pool" where
  "ms_open_slot now i p =
     (case mssql_open_connection (ms_fits p) (ms_lib p) of
        (None, o2) \<Rightarrow> (False, p\<lparr>ms_lib := o2\<rparr>)
      | (Some h, o2) \<Rightarrow>
          (True, p\<lparr>ms_lib := o2,
             ms_slots := (ms_slots p)[i := \<lparr>hdbc = Some h, ms_in_use = False, ms_created = now, ms_last_used = now\<rparr>]\<rparr>))"

definition ms_close_slot :: "nat \<Rightarrow> ms_pool \<Rightarrow> ms_pool" where
  "ms_close_slot i p =
     (let s = ms_slots p ! i in
      p\<lparr>ms_lib := mssql_close_connection (hdbc s) (ms_lib p),
        ms_slots := (ms_slots p)[i := s\<lparr>hdbc := None, ms_in_use := False\<rparr>]\<rparr>)"

definition ms_open_counted :: "int \<Rightarrow> nat \<Rightarrow> ms_pool \<Rightarrow> bool \<times> ms_pool" where
  "ms_open_counted now i p =
     (case ms_open_slot now i p of
        (ok, p2) \<Rightarrow> (ok, if ok then p2\<lparr>ms_slots_open := ms_slots_open p2 + 1\<rparr> else p2))"

definition ms_close_counted :: "nat \<Rightarrow> ms_pool \<Rightarrow> ms_pool" where
  "ms_close_counted i p = (let p2 = ms_close_slot i p in p2\<lparr>ms_slots_open := ms_slots_open p2 - 1\<rparr>)"

fun ms_reopen_loop :: "int \<Rightarrow> nat \<Rightarrow> nat \<Rightarrow> ms_pool \<Rightarrow> bool \<times> ms_pool" where
  "ms_reopen_loop now i 0 p = (False, p)"
| "ms_reopen_loop now i (Suc n) p =
     (case ms_open_counted now i p of
        (True, p2) \<Rightarrow> (True, p2)
      | (False, p2) \<Rightarrow> ms_reopen_loop now i n p2)"

definition ms_reopen_slot :: "int \<Rightarrow> nat \<Rightarrow> ms_pool \<Rightarrow> bool \<times> ms_pool" where
  "ms_reopen_slot now i p = ms_reopen_loop now i (nat (if ms_retries p > 0 then ms_retries p else 1)) p"

fun ms_close_all :: "nat \<Rightarrow> ms_pool \<Rightarrow> ms_pool" where
  "ms_close_all 0 p = p"
| "ms_close_all (Suc n) p =
     (let p2 = ms_close_all n p in if hdbc (ms_slots p2 ! n) \<noteq> None then ms_close_slot n p2 else p2)"

definition ms_free_pool :: "ms_pool \<Rightarrow> odbc" where
  "ms_free_pool p =
     (let p2 = ms_close_all (length (ms_slots p)) p
      in if ms_henv p2 then mssql_env_release (ms_lib p2) else ms_lib p2)"

subsection \<open>Connecting and disconnecting\<close>

record ms_ini =
  ini_min_size :: int
  ini_max_size :: int
  ini_retries :: int
  ini_max_lifetime :: int
  ini_validation :: bool
  ini_rollback :: bool
  ini_autocommit :: bool
  ini_fits :: bool

definition ms_size :: "ms_ini \<Rightarrow> nat" where
  "ms_size ini = nat (if ini_max_size ini > 0 then ini_max_size ini else 10)"

definition ms_min :: "ms_ini \<Rightarrow> nat" where
  "ms_min ini = min (nat (if ini_min_size ini > 0 then ini_min_size ini else 1)) (ms_size ini)"

definition ms_new_pool :: "ms_ini \<Rightarrow> bool \<Rightarrow> odbc \<Rightarrow> ms_pool" where
  "ms_new_pool ini env o1 =
     \<lparr>ms_slots = replicate (ms_size ini) ms_slot_zero, ms_slots_open = 0, ms_max_size = ms_size ini,
      ms_retries = (if ini_retries ini \<ge> 0 then ini_retries ini else 3),
      ms_max_lifetime = (if ini_max_lifetime ini > 0 then ini_max_lifetime ini else 3600),
      ms_validation = ini_validation ini, ms_rollback = ini_rollback ini, ms_autocommit = ini_autocommit ini,
      ms_fits = ini_fits ini, ms_henv = env, ms_lib = o1\<rparr>"

fun ms_open_minimum :: "int \<Rightarrow> nat \<Rightarrow> nat \<Rightarrow> ms_pool \<Rightarrow> bool \<times> ms_pool" where
  "ms_open_minimum now i 0 p = (True, p)"
| "ms_open_minimum now i (Suc n) p =
     (case ms_reopen_slot now i p of
        (True, p2) \<Rightarrow> ms_open_minimum now (i + 1) n p2
      | (False, p2) \<Rightarrow> (False, p2))"

text \<open>The booleans: the allocation of the pool, mutex and condition variable, the slot array.\<close>

definition MSSQL_Connect_pool :: "ms_ini \<Rightarrow> bool \<Rightarrow> bool \<Rightarrow> bool \<Rightarrow> int \<Rightarrow> odbc \<Rightarrow> odbc + ms_pool" where
  "MSSQL_Connect_pool ini alloc_ok sync_ok slots_ok now o1 =
     (if \<not> alloc_ok then Inl o1
      else if \<not> sync_ok then Inl o1
      else if \<not> slots_ok then Inl (ms_free_pool ((ms_new_pool ini False o1)\<lparr>ms_slots := []\<rparr>))
      else
        (case mssql_env_acquire o1 of
           (False, o2) \<Rightarrow> Inl (ms_free_pool (ms_new_pool ini False o2))
         | (True, o2) \<Rightarrow>
             (case ms_open_minimum now 0 (ms_min ini) (ms_new_pool ini True o2) of
                (True, q) \<Rightarrow> Inr q
              | (False, q) \<Rightarrow> Inl (ms_free_pool q))))"

fun ms_rollback_all :: "nat \<Rightarrow> ms_pool \<Rightarrow> ms_pool" where
  "ms_rollback_all 0 p = p"
| "ms_rollback_all (Suc n) p =
     (let p2 = ms_rollback_all n p in
      if hdbc (ms_slots p2 ! n) \<noteq> None
      then ms_close_slot n (p2\<lparr>ms_lib := snd (mssql_end_tran (hdbc (ms_slots p2 ! n)) False (ms_lib p2))\<rparr>)
      else p2)"

definition MSSQL_Disconnect_pool :: "ms_pool option \<Rightarrow> odbc option" where
  "MSSQL_Disconnect_pool pp =
     map_option (\<lambda>p. ms_free_pool ((ms_rollback_all (length (ms_slots p)) p)\<lparr>ms_slots_open := 0\<rparr>)) pp"

subsection \<open>Borrowing and returning\<close>

record ms_worker =
  mw_slot :: int
  mw_svchp :: "nat option"

definition ms_worker_zero :: ms_worker where
  "ms_worker_zero = \<lparr>mw_slot = 0, mw_svchp = None\<rparr>"

definition ms_try_borrow :: "int \<Rightarrow> ms_pool \<Rightarrow> ms_pool \<times> nat option" where
  "ms_try_borrow now p =
     (case first_index (\<lambda>s. hdbc s \<noteq> None \<and> \<not> ms_in_use s) 0 (ms_slots p) of
        Some i \<Rightarrow> (p, Some i)
      | None \<Rightarrow>
          if ms_slots_open p < int (ms_max_size p) then
            (case first_index (\<lambda>s. hdbc s = None) 0 (ms_slots p) of
               None \<Rightarrow> (p, None)
             | Some i \<Rightarrow> (case ms_open_counted now i p of (ok, p2) \<Rightarrow> (p2, if ok then Some i else None)))
          else (p, None))"

fun ms_borrow_loop :: "int \<Rightarrow> ms_pool \<Rightarrow> (bool \<times> ms_pool) list \<Rightarrow> (ms_pool \<times> nat option) option" where
  "ms_borrow_loop now p ws =
     (case ms_try_borrow now p of
        (p2, Some i) \<Rightarrow> Some (p2, Some i)
      | (p2, None) \<Rightarrow>
          (case ws of
             [] \<Rightarrow> None
           | (timed_out, q) # ws' \<Rightarrow> if timed_out then Some (q, None) else ms_borrow_loop now q ws'))"

definition ms_grant :: "nat \<Rightarrow> ms_pool \<Rightarrow> ms_worker \<times> ms_pool" where
  "ms_grant i p =
     (let s = ms_slots p ! i in
      (\<lparr>mw_slot = int i, mw_svchp = hdbc s\<rparr>, p\<lparr>ms_slots := (ms_slots p)[i := s\<lparr>ms_in_use := True\<rparr>]\<rparr>))"

definition ms_finish_borrow :: "int \<Rightarrow> nat \<Rightarrow> ms_pool \<Rightarrow> ms_worker option \<times> ms_pool" where
  "ms_finish_borrow now i p =
     (if \<not> ms_validation p then (case ms_grant i p of (w, q) \<Rightarrow> (Some w, q))
      else
        (case mssql_ping (hdbc (ms_slots p ! i)) (ms_lib p) of
           (True, o2) \<Rightarrow> (case ms_grant i (p\<lparr>ms_lib := o2\<rparr>) of (w, q) \<Rightarrow> (Some w, q))
         | (False, o2) \<Rightarrow>
             (case ms_reopen_slot now i (ms_close_counted i (p\<lparr>ms_lib := o2\<rparr>)) of
                (True, p2) \<Rightarrow> (case ms_grant i p2 of (w, q) \<Rightarrow> (Some w, q))
              | (False, p2) \<Rightarrow> (None, p2))))"

definition MSSQL_Pool_get_session ::
    "int \<Rightarrow> ms_worker \<Rightarrow> ms_pool \<Rightarrow> (bool \<times> ms_pool) list \<Rightarrow> (int \<times> ms_worker \<times> ms_pool) option" where
  "MSSQL_Pool_get_session now w p ws =
     map_option
       (\<lambda>(q, found). case found of
          None \<Rightarrow> (-1, w, q)
        | Some i \<Rightarrow> (case ms_finish_borrow now i q of
            (Some w2, q2) \<Rightarrow> (0, w2, q2)
          | (None, q2) \<Rightarrow> (-1, w, q2)))
       (ms_borrow_loop now p ws)"

definition MSSQL_Pool_release_session :: "int \<Rightarrow> ms_worker \<Rightarrow> ms_pool \<Rightarrow> ms_worker \<times> ms_pool" where
  "MSSQL_Pool_release_session now w p =
     (if mw_slot w < 0 \<or> mw_slot w \<ge> int (length (ms_slots p)) then (w, p)
      else
        let i = nat (mw_slot w); s = ms_slots p ! i;
            o2 = (if ms_rollback p \<and> hdbc s \<noteq> None
                  then (case mssql_end_tran (hdbc s) False (ms_lib p) of
                      (rc, o2) \<Rightarrow> if rc \<noteq> 0 then o2 else snd (mssql_tx_end_write (hdbc s) (ms_autocommit p) o2))
                  else ms_lib p)
        in (ms_worker_zero,
            p\<lparr>ms_lib := o2, ms_slots := (ms_slots p)[i := s\<lparr>ms_last_used := now, ms_in_use := False\<rparr>]\<rparr>))"

definition MSSQL_Pool_session_is_alive :: "ms_worker \<Rightarrow> bool \<Rightarrow> bool \<Rightarrow> bool" where
  "MSSQL_Pool_session_is_alive w attr_ok dead = (if mw_svchp w = None then False else attr_ok \<and> \<not> dead)"

text \<open>Giving up the connection presumed lost: closed only while the slot still has the worker's connection.\<close>

definition ms_give_up :: "ms_worker \<Rightarrow> ms_pool \<Rightarrow> ms_pool" where
  "ms_give_up w p =
     (if mw_slot w \<ge> 0 \<and> mw_slot w < int (length (ms_slots p)) then
        (let i = nat (mw_slot w); s = ms_slots p ! i in
         if hdbc s \<noteq> None \<and> hdbc s = mw_svchp w then ms_close_counted i p else p)
      else p)"

definition MSSQL_Pool_reconnect_session ::
    "int \<Rightarrow> ms_worker \<Rightarrow> ms_pool \<Rightarrow> (bool \<times> ms_pool) list \<Rightarrow> (int \<times> ms_worker \<times> ms_pool) option" where
  "MSSQL_Pool_reconnect_session now w p ws = MSSQL_Pool_get_session now ms_worker_zero (ms_give_up w p) ws"

subsection \<open>Health check\<close>

definition ms_health_slot :: "int \<Rightarrow> nat \<Rightarrow> ms_pool \<times> nat \<Rightarrow> ms_pool \<times> nat" where
  "ms_health_slot now i st =
     (case st of (p, failures) \<Rightarrow>
        let s = ms_slots p ! i in
        if hdbc s = None \<or> ms_in_use s then (p, failures)
        else if ms_max_lifetime p > 0 \<and> now - ms_created s > ms_max_lifetime p then
          (case ms_reopen_slot now i (ms_close_counted i p) of (ok, p2) \<Rightarrow> (p2, if ok then failures else failures + 1))
        else
          (case mssql_ping (hdbc s) (ms_lib p) of
             (True, o2) \<Rightarrow> (p\<lparr>ms_lib := o2\<rparr>, failures)
           | (False, o2) \<Rightarrow>
               (case ms_reopen_slot now i (ms_close_counted i (p\<lparr>ms_lib := o2\<rparr>)) of
                  (ok, p2) \<Rightarrow> (p2, if ok then failures else failures + 1))))"

definition MSSQL_Pool_health_check :: "int \<Rightarrow> ms_pool option \<Rightarrow> int \<times> ms_pool option" where
  "MSSQL_Pool_health_check now pp =
     (case pp of
        None \<Rightarrow> (-1, None)
      | Some p \<Rightarrow>
          (case fold (ms_health_slot now) [0..<length (ms_slots p)] (p, 0) of (q, failures) \<Rightarrow> (int failures, Some q)))"

end
