(* ===== verification/Mssql_Sessions.thy ===== *)
theory Mssql_Sessions
  imports Mssql_Pool
begin

text \<open>
  The accounts of the SQL Server pool and the contract \<open>session_pool\<close> for its operations; a connection
  given back by \<^verbatim>\<open>MSSQL_Pool_reconnect_session\<close> is one that is closed.
\<close>

subsection \<open>Connections\<close>

definition odbc_wf :: "odbc \<Rightarrow> bool" where
  "odbc_wf o1 \<longleftrightarrow> (\<forall>h \<in> dbcs o1. h < next_dbc o1)"

text \<open>A call that leaves connections and environment as they are.\<close>

definition same_dbcs :: "odbc \<Rightarrow> odbc \<Rightarrow> bool" where
  "same_dbcs o1 o2 \<longleftrightarrow> dbcs o2 = dbcs o1 \<and> next_dbc o2 = next_dbc o1 \<and> env_live o2 = env_live o1 \<and> env_refs o2 = env_refs o1"

lemma same_dbcs_trans: "same_dbcs o1 o2 \<Longrightarrow> same_dbcs o2 o3 \<Longrightarrow> same_dbcs o1 o3"
  by (simp add: same_dbcs_def)

lemma same_dbcs_refl [simp]: "same_dbcs o1 o1"
  by (simp add: same_dbcs_def)

lemma same_dbcs_ask: "same_dbcs o1 (snd (ask o1))"
  by (simp add: ask_def same_dbcs_def)

lemma same_dbcs_ping: "same_dbcs o1 (snd (mssql_ping h o1))"
  by (simp add: mssql_ping_def same_dbcs_ask)

lemma same_dbcs_end_tran: "same_dbcs o1 (snd (mssql_end_tran h c o1))"
  by (cases h) (simp_all add: mssql_end_tran_def ask_def same_dbcs_def)

lemma same_dbcs_end_write: "same_dbcs o1 (snd (mssql_tx_end_write h a o1))"
  by (cases h) (simp_all add: mssql_tx_end_write_def mssql_tx_in_manual_def ask_def same_dbcs_def)

lemma same_dbcs_begin_write: "same_dbcs o1 (snd (mssql_tx_begin_write h a o1))"
  by (cases h) (simp_all add: mssql_tx_begin_write_def mssql_tx_in_manual_def ask_def same_dbcs_def)

lemma open_connection_spec:
  assumes "mssql_open_connection fits o1 = (r, o2)" "odbc_wf o1"
  shows "odbc_wf o2 \<and> next_dbc o1 \<le> next_dbc o2 \<and> env_live o2 = env_live o1 \<and> env_refs o2 = env_refs o1 \<and>
    (case r of None \<Rightarrow> dbcs o2 = dbcs o1 | Some h \<Rightarrow> h \<notin> dbcs o1 \<and> dbcs o2 = insert h (dbcs o1))"
proof -
  have "next_dbc o1 \<notin> dbcs o1" using assms(2) by (auto simp: odbc_wf_def)
  with assms show ?thesis
    by (auto simp: mssql_open_connection_def ask_def Let_def odbc_wf_def less_Suc_eq split: if_splits bool.splits)
qed

lemma close_connection_spec:
  "dbcs (mssql_close_connection h o1) = dbcs o1 - set_option h"
  "next_dbc (mssql_close_connection h o1) = next_dbc o1"
  "env_live (mssql_close_connection h o1) = env_live o1" "env_refs (mssql_close_connection h o1) = env_refs o1"
  by (cases h; simp add: mssql_close_connection_def)+

subsection \<open>The accounts of the pool\<close>

definition ms_handles :: "ms_slot \<Rightarrow> nat set" where
  "ms_handles s = set_option (hdbc s)"

definition ms_inv :: "nat set \<Rightarrow> ms_pool \<Rightarrow> bool" where
  "ms_inv A p \<longleftrightarrow>
     length (ms_slots p) = ms_max_size p \<and> odbc_wf (ms_lib p) \<and>
     (\<forall>i < length (ms_slots p). ms_in_use (ms_slots p ! i) \<longrightarrow> hdbc (ms_slots p ! i) \<noteq> None) \<and>
     slot_accounts ms_handles A (dbcs (ms_lib p)) (ms_slots p) \<and>
     ms_slots_open p = int (length (filter (\<lambda>s. hdbc s \<noteq> None) (ms_slots p)))"

lemma ms_invD:
  assumes "ms_inv A p"
  shows "length (ms_slots p) = ms_max_size p" "odbc_wf (ms_lib p)"
    "i < length (ms_slots p) \<Longrightarrow> ms_in_use (ms_slots p ! i) \<Longrightarrow> hdbc (ms_slots p ! i) \<noteq> None"
    "slot_accounts ms_handles A (dbcs (ms_lib p)) (ms_slots p)"
    "ms_slots_open p = int (length (filter (\<lambda>s. hdbc s \<noteq> None) (ms_slots p)))"
  using assms unfolding ms_inv_def by blast+

text \<open>Slot \<open>i\<close> gets the content \<open>s\<close>, and the library the matching state.\<close>

lemma ms_inv_replace:
  assumes inv: "ms_inv A p" and i: "i < length (ms_slots p)"
    and s: "ms_in_use s \<Longrightarrow> hdbc s \<noteq> None"
      "ms_handles s = ms_handles (ms_slots p ! i) \<and> dbcs o2 = dbcs (ms_lib p) \<or>
       ms_handles s \<inter> dbcs (ms_lib p) = {} \<and> dbcs o2 = (dbcs (ms_lib p) - ms_handles (ms_slots p ! i)) \<union> ms_handles s"
    and wf: "odbc_wf o2"
    and n: "n = ms_slots_open p - (if hdbc (ms_slots p ! i) \<noteq> None then 1 else 0) + (if hdbc s \<noteq> None then 1 else 0)"
  shows "ms_inv A (p\<lparr>ms_lib := o2, ms_slots := (ms_slots p)[i := s], ms_slots_open := n\<rparr>)"
proof -
  note acc = ms_invD(4) [OF inv]
  have "slot_accounts ms_handles A (dbcs o2) ((ms_slots p)[i := s])"
    using s(2) slot_accounts_mark [OF acc i, of s] slot_accounts_replace [OF acc i, of s "dbcs o2"] by auto
  moreover have "ms_in_use ((ms_slots p)[i := s] ! j) \<longrightarrow> hdbc ((ms_slots p)[i := s] ! j) \<noteq> None"
    if "j < length (ms_slots p)" for j
    using s(1) ms_invD(3) [OF inv, of j] that by (cases "j = i") simp_all
  ultimately show ?thesis
    using wf ms_invD(1,5) [OF inv] count_update [OF i, of "\<lambda>s. hdbc s \<noteq> None" s]
    unfolding n by (simp add: ms_inv_def)
qed

definition ms_same :: "nat \<Rightarrow> ms_pool \<Rightarrow> ms_pool \<Rightarrow> bool" where
  "ms_same i p q \<longleftrightarrow>
     length (ms_slots q) = length (ms_slots p) \<and> (\<forall>j. j \<noteq> i \<longrightarrow> ms_slots q ! j = ms_slots p ! j) \<and>
     ms_max_size q = ms_max_size p \<and> ms_retries q = ms_retries p \<and> ms_max_lifetime q = ms_max_lifetime p \<and>
     ms_validation q = ms_validation p \<and> ms_rollback q = ms_rollback p \<and> ms_autocommit q = ms_autocommit p \<and>
     ms_fits q = ms_fits p \<and> ms_henv q = ms_henv p \<and>
     env_live (ms_lib q) = env_live (ms_lib p) \<and> env_refs (ms_lib q) = env_refs (ms_lib p)"

lemma ms_same_trans: "ms_same i p q \<Longrightarrow> ms_same i q r \<Longrightarrow> ms_same i p r"
  by (simp add: ms_same_def)

lemma ms_same_lib: "same_dbcs (ms_lib p) o2 \<Longrightarrow> ms_same i p (p\<lparr>ms_lib := o2\<rparr>)"
  by (simp add: ms_same_def same_dbcs_def)

lemma ms_inv_lib: "ms_inv A p \<Longrightarrow> same_dbcs (ms_lib p) o2 \<Longrightarrow> ms_inv A (p\<lparr>ms_lib := o2\<rparr>)"
  by (simp add: ms_inv_def same_dbcs_def odbc_wf_def)

definition ms_settled :: "nat set \<Rightarrow> nat \<Rightarrow> ms_pool \<Rightarrow> bool \<times> ms_pool \<Rightarrow> bool" where
  "ms_settled A i p r \<longleftrightarrow>
     ms_inv A (snd r) \<and> ms_same i p (snd r) \<and> \<not> ms_in_use (ms_slots (snd r) ! i) \<and>
     (hdbc (ms_slots (snd r) ! i) \<noteq> None \<longleftrightarrow> fst r) \<and>
     ms_slots_open (snd r) = ms_slots_open p - (if hdbc (ms_slots p ! i) \<noteq> None then 1 else 0) + (if fst r then 1 else 0)"

lemma ms_settledD:
  assumes "ms_settled A i p (b, q)"
  shows "ms_inv A q" "ms_same i p q" "length (ms_slots q) = length (ms_slots p)" "\<not> ms_in_use (ms_slots q ! i)"
    "hdbc (ms_slots q ! i) \<noteq> None \<longleftrightarrow> b" "j \<noteq> i \<Longrightarrow> ms_slots q ! j = ms_slots p ! j"
    "ms_slots_open q = ms_slots_open p - (if hdbc (ms_slots p ! i) \<noteq> None then 1 else 0) + (if b then 1 else 0)"
  using assms by (simp_all add: ms_settled_def ms_same_def)

lemma ms_settled_trans:
  assumes "ms_settled A i p (b, q)" "ms_settled A i q r"
  shows "ms_settled A i p r"
proof -
  obtain c q2 where r: "r = (c, q2)" by (cases r)
  note a = ms_settledD [OF assms(1)] and b = ms_settledD [OF assms(2) [unfolded r]]
  have "ms_slots_open q2 = ms_slots_open p - (if hdbc (ms_slots p ! i) \<noteq> None then 1 else 0) + (if c then 1 else 0)"
    using a(5,7) b(7) by (cases b) simp_all
  with b ms_same_trans [OF a(2) b(2)] show ?thesis by (simp add: ms_settled_def r)
qed

lemma ms_open_settled:
  assumes inv: "ms_inv A p" and i: "i < length (ms_slots p)" "hdbc (ms_slots p ! i) = None"
  shows "ms_settled A i p (ms_open_counted now i p)"
proof -
  obtain r o2 where op: "mssql_open_connection (ms_fits p) (ms_lib p) = (r, o2)"
    by (cases "mssql_open_connection (ms_fits p) (ms_lib p)")
  note sp = open_connection_spec [OF op ms_invD(2) [OF inv]]
  show ?thesis
  proof (cases r)
    case None
    with op have q: "ms_open_counted now i p = (False, p\<lparr>ms_lib := o2\<rparr>)"
      by (simp add: ms_open_counted_def ms_open_slot_def)
    have "ms_inv A (p\<lparr>ms_lib := o2\<rparr>)" using inv sp None by (simp add: ms_inv_def)
    with q sp i ms_invD(3) [OF inv i(1)] show ?thesis by (auto simp: ms_settled_def ms_same_def)
  next
    case (Some h)
    let ?s = "\<lparr>hdbc = Some h, ms_in_use = False, ms_created = now, ms_last_used = now\<rparr>"
    have q: "ms_open_counted now i p =
        (True, p\<lparr>ms_lib := o2, ms_slots := (ms_slots p)[i := ?s], ms_slots_open := ms_slots_open p + 1\<rparr>)"
      using op Some by (simp add: ms_open_counted_def ms_open_slot_def)
    have "ms_inv A (p\<lparr>ms_lib := o2, ms_slots := (ms_slots p)[i := ?s], ms_slots_open := ms_slots_open p + 1\<rparr>)"
      by (rule ms_inv_replace [OF inv i(1)]) (use sp Some i in \<open>simp_all add: ms_handles_def\<close>)
    with q sp i show ?thesis by (simp add: ms_settled_def ms_same_def)
  qed
qed

lemma ms_close_settled:
  assumes inv: "ms_inv A p" and i: "i < length (ms_slots p)" "hdbc (ms_slots p ! i) \<noteq> None"
  shows "ms_settled A i p (False, ms_close_counted i p)"
proof -
  let ?s = "(ms_slots p ! i)\<lparr>hdbc := None, ms_in_use := False\<rparr>"
  let ?o = "mssql_close_connection (hdbc (ms_slots p ! i)) (ms_lib p)"
  have q: "ms_close_counted i p = p\<lparr>ms_lib := ?o, ms_slots := (ms_slots p)[i := ?s], ms_slots_open := ms_slots_open p - 1\<rparr>"
    by (simp add: ms_close_counted_def ms_close_slot_def Let_def)
  have "ms_inv A (p\<lparr>ms_lib := ?o, ms_slots := (ms_slots p)[i := ?s], ms_slots_open := ms_slots_open p - 1\<rparr>)"
    by (rule ms_inv_replace [OF inv i(1)])
      (use ms_invD(2) [OF inv] i in \<open>simp_all add: ms_handles_def close_connection_spec odbc_wf_def\<close>)
  with i show ?thesis unfolding q by (simp add: ms_settled_def ms_same_def close_connection_spec)
qed

lemma ms_reopen_loop_settled:
  "ms_inv A p \<Longrightarrow> i < length (ms_slots p) \<Longrightarrow> hdbc (ms_slots p ! i) = None \<Longrightarrow>
     ms_settled A i p (ms_reopen_loop now i n p)"
proof (induction now i n p rule: ms_reopen_loop.induct)
  case (1 now i p)
  then show ?case using ms_invD(3) [of A p i] by (auto simp: ms_settled_def ms_same_def)
next
  case (2 now i n p)
  obtain ok q where op: "ms_open_counted now i p = (ok, q)" by (cases "ms_open_counted now i p")
  note st = ms_open_settled [OF "2.prems", of now, unfolded op]
  show ?case
  proof (cases ok)
    case True
    with op st show ?thesis by simp
  next
    case False
    have "ms_settled A i q (ms_reopen_loop now i n q)"
      by (rule "2.IH" [OF op [symmetric]]) (use ms_settledD [OF st] False "2.prems"(2) in simp_all)
    with ms_settled_trans [OF st] op False show ?thesis by simp
  qed
qed

lemma ms_reopen_settled:
  "ms_inv A p \<Longrightarrow> i < length (ms_slots p) \<Longrightarrow> hdbc (ms_slots p ! i) = None \<Longrightarrow> ms_settled A i p (ms_reopen_slot now i p)"
  unfolding ms_reopen_slot_def by (rule ms_reopen_loop_settled)

lemma ms_revive_settled:
  assumes "ms_inv A p" "i < length (ms_slots p)" "hdbc (ms_slots p ! i) \<noteq> None"
  shows "ms_settled A i p (ms_reopen_slot now i (ms_close_counted i p))"
proof -
  note c = ms_close_settled [OF assms]
  have "ms_settled A i (ms_close_counted i p) (ms_reopen_slot now i (ms_close_counted i p))"
    by (rule ms_reopen_settled) (use ms_settledD [OF c] assms(2) in simp_all)
  with ms_settled_trans [OF c] show ?thesis by simp
qed

subsection \<open>The operations against the accounts\<close>

definition ms_kept :: "nat set \<Rightarrow> ms_pool \<Rightarrow> ms_pool \<Rightarrow> bool" where
  "ms_kept A p q \<longleftrightarrow>
     ms_inv A q \<and> ms_henv q = ms_henv p \<and> env_live (ms_lib q) = env_live (ms_lib p) \<and>
     env_refs (ms_lib q) = env_refs (ms_lib p) \<and> kept_slots ms_in_use (ms_slots p) (ms_slots q)"

definition ms_lent_out :: "nat set \<Rightarrow> nat \<Rightarrow> ms_pool \<Rightarrow> ms_pool \<Rightarrow> bool" where
  "ms_lent_out A i p q \<longleftrightarrow>
     ms_inv A q \<and> ms_henv q = ms_henv p \<and> env_live (ms_lib q) = env_live (ms_lib p) \<and>
     env_refs (ms_lib q) = env_refs (ms_lib p) \<and> lent_slot ms_in_use i (ms_slots p) (ms_slots q)"

lemma ms_kept_refl: "ms_inv A p \<Longrightarrow> ms_kept A p p"
  by (simp add: ms_kept_def)

lemma ms_kept_trans: "ms_kept A p q \<Longrightarrow> ms_kept A q r \<Longrightarrow> ms_kept A p r"
  by (auto simp: ms_kept_def intro: kept_slots_trans)

lemma ms_kept_lent: "ms_kept A p q \<Longrightarrow> ms_lent_out A i q r \<Longrightarrow> ms_lent_out A i p r"
  by (auto simp: ms_kept_def ms_lent_out_def intro: kept_lent)

lemma ms_kept_length: "ms_kept A p q \<Longrightarrow> length (ms_slots q) = length (ms_slots p)"
  by (simp add: ms_kept_def kept_slots_def)

lemma ms_kept_lib: "ms_inv A p \<Longrightarrow> same_dbcs (ms_lib p) o2 \<Longrightarrow> ms_kept A p (p\<lparr>ms_lib := o2\<rparr>)"
  by (simp add: ms_kept_def ms_inv_lib) (simp add: same_dbcs_def)

lemma ms_settled_kept:
  assumes "ms_settled A i p (b, q)" "\<not> ms_in_use (ms_slots p ! i)"
  shows "ms_kept A p q"
proof -
  have "kept_slots ms_in_use (ms_slots p) (ms_slots q)"
    by (rule kept_slots_one [of _ _ i]) (use ms_settledD [OF assms(1)] assms(2) in simp_all)
  then show ?thesis using ms_settledD(1,2) [OF assms(1)] by (simp add: ms_kept_def ms_same_def)
qed

lemma ms_try_borrow_spec:
  assumes inv: "ms_inv A p" and t: "ms_try_borrow now p = (q, r)"
  shows "ms_kept A p q \<and> (case r of
           Some i \<Rightarrow> i < length (ms_slots q) \<and> hdbc (ms_slots q ! i) \<noteq> None \<and> \<not> ms_in_use (ms_slots q ! i)
         | None \<Rightarrow> True)"
proof (cases "first_index (\<lambda>s. hdbc s \<noteq> None \<and> \<not> ms_in_use s) 0 (ms_slots p)")
  case (Some i)
  with t have r: "q = p" "r = Some i" by (simp_all add: ms_try_borrow_def)
  from first_index_0 [OF Some] r ms_kept_refl [OF inv] show ?thesis by simp
next
  case None
  show ?thesis
  proof (cases "ms_slots_open p < int (ms_max_size p) \<and> first_index (\<lambda>s. hdbc s = None) 0 (ms_slots p) \<noteq> None")
    case False
    with None t have "q = p" "r = None" by (auto simp: ms_try_borrow_def split: if_splits option.splits)
    with ms_kept_refl [OF inv] show ?thesis by simp
  next
    case True
    then obtain i where fi: "first_index (\<lambda>s. hdbc s = None) 0 (ms_slots p) = Some i" by blast
    from first_index_0 [OF fi] have i: "i < length (ms_slots p)" "hdbc (ms_slots p ! i) = None" by simp_all
    obtain ok p2 where op: "ms_open_counted now i p = (ok, p2)" by (cases "ms_open_counted now i p")
    note st = ms_open_settled [OF inv i, of now, unfolded op]
    have "\<not> ms_in_use (ms_slots p ! i)" using ms_invD(3) [OF inv i(1)] i(2) by blast
    moreover have "q = p2" "r = (if ok then Some i else None)"
      using t None True fi op by (simp_all add: ms_try_borrow_def)
    ultimately show ?thesis
      using ms_settled_kept [OF st] ms_settledD(3-5) [OF st] i(1) by (cases ok) simp_all
  qed
qed

lemma ms_grant_spec:
  assumes "ms_inv A p" "i < length (ms_slots p)" "hdbc (ms_slots p ! i) \<noteq> None" "\<not> ms_in_use (ms_slots p ! i)"
    "ms_grant i p = (w, q)"
  shows "ms_lent_out A i p q \<and> w = \<lparr>mw_slot = int i, mw_svchp = hdbc (ms_slots q ! i)\<rparr>"
proof -
  let ?s = "(ms_slots p ! i)\<lparr>ms_in_use := True\<rparr>"
  have q: "q = p\<lparr>ms_slots := (ms_slots p)[i := ?s]\<rparr>" "w = \<lparr>mw_slot = int i, mw_svchp = hdbc (ms_slots p ! i)\<rparr>"
    using assms(5) by (simp_all add: ms_grant_def Let_def)
  have "ms_inv A (p\<lparr>ms_lib := ms_lib p, ms_slots := (ms_slots p)[i := ?s], ms_slots_open := ms_slots_open p\<rparr>)"
    by (rule ms_inv_replace [OF assms(1,2)]) (use assms(3) ms_invD(2) [OF assms(1)] in \<open>simp_all add: ms_handles_def\<close>)
  moreover have "p\<lparr>ms_lib := ms_lib p, ms_slots := (ms_slots p)[i := ?s], ms_slots_open := ms_slots_open p\<rparr> = q"
    unfolding q(1) by simp
  ultimately show ?thesis using q assms(2,4) by (simp add: ms_lent_out_def lent_slot_def)
qed

lemma ms_finish_borrow_spec:
  assumes inv: "ms_inv A p" and i: "i < length (ms_slots p)" "hdbc (ms_slots p ! i) \<noteq> None" "\<not> ms_in_use (ms_slots p ! i)"
    and f: "ms_finish_borrow now i p = (r, q)"
  shows "case r of None \<Rightarrow> ms_kept A p q
    | Some w \<Rightarrow> ms_lent_out A i p q \<and> w = \<lparr>mw_slot = int i, mw_svchp = hdbc (ms_slots q ! i)\<rparr>"
proof (cases "ms_validation p")
  case False
  with f ms_grant_spec [OF inv i] show ?thesis by (cases "ms_grant i p") (auto simp: ms_finish_borrow_def)
next
  case val: True
  obtain ok o2 where v: "mssql_ping (hdbc (ms_slots p ! i)) (ms_lib p) = (ok, o2)"
    by (cases "mssql_ping (hdbc (ms_slots p ! i)) (ms_lib p)")
  let ?p = "p\<lparr>ms_lib := o2\<rparr>"
  have kept: "ms_kept A p ?p"
    by (rule ms_kept_lib [OF inv]) (use same_dbcs_ping [of "ms_lib p" "hdbc (ms_slots p ! i)"] v in simp)
  then have inv2: "ms_inv A ?p" by (simp add: ms_kept_def)
  show ?thesis
  proof (cases ok)
    case True
    obtain w q' where g: "ms_grant i ?p = (w, q')" by (cases "ms_grant i ?p")
    from ms_grant_spec [OF inv2 _ _ _ g] i ms_kept_lent [OF kept, of i q'] f val v True g
    show ?thesis by (auto simp: ms_finish_borrow_def)
  next
    case no: False
    obtain ok3 p3 where r: "ms_reopen_slot now i (ms_close_counted i ?p) = (ok3, p3)"
      by (cases "ms_reopen_slot now i (ms_close_counted i ?p)")
    have st: "ms_settled A i ?p (ok3, p3)" using ms_revive_settled [OF inv2, of i now] i r by simp
    have kept3: "ms_kept A p p3" using ms_kept_trans [OF kept ms_settled_kept [OF st]] i(3) by simp
    show ?thesis
    proof (cases ok3)
      case True
      obtain w q' where g: "ms_grant i p3 = (w, q')" by (cases "ms_grant i p3")
      have "hdbc (ms_slots p3 ! i) \<noteq> None" using ms_settledD(5) [OF st] True by simp
      from ms_grant_spec [OF ms_settledD(1) [OF st] _ this ms_settledD(4) [OF st] g] ms_settledD(3) [OF st] i(1)
        ms_kept_lent [OF kept3, of i q'] f val v no r True g
      show ?thesis by (auto simp: ms_finish_borrow_def)
    next
      case False
      with kept3 f val v no r show ?thesis by (auto simp: ms_finish_borrow_def)
    qed
  qed
qed

lemma ms_release_spec:
  assumes inv: "ms_inv A p" and i: "i < length (ms_slots p)" "mw_slot w = int i"
    and r: "MSSQL_Pool_release_session now w p = (w2, q)"
  shows "ms_inv A q \<and> ms_same i p q \<and> \<not> ms_in_use (ms_slots q ! i) \<and> w2 = ms_worker_zero"
proof -
  let ?s = "ms_slots p ! i"
  define o2 where "o2 = (if ms_rollback p \<and> hdbc ?s \<noteq> None
      then (case mssql_end_tran (hdbc ?s) False (ms_lib p) of
          (rc, o2) \<Rightarrow> if rc \<noteq> 0 then o2 else snd (mssql_tx_end_write (hdbc ?s) (ms_autocommit p) o2))
      else ms_lib p)"
  let ?s2 = "?s\<lparr>ms_last_used := now, ms_in_use := False\<rparr>"
  have q: "q = p\<lparr>ms_lib := o2, ms_slots := (ms_slots p)[i := ?s2]\<rparr>" "w2 = ms_worker_zero"
    using r i by (simp_all add: MSSQL_Pool_release_session_def Let_def o2_def)
  have o2: "same_dbcs (ms_lib p) o2"
  proof (cases "mssql_end_tran (hdbc ?s) False (ms_lib p)")
    case (Pair rc o3)
    then have "same_dbcs (ms_lib p) o3" using same_dbcs_end_tran [of "ms_lib p" "hdbc ?s" False] by simp
    with same_dbcs_trans [OF this same_dbcs_end_write] Pair show ?thesis by (simp add: o2_def)
  qed
  have "ms_inv A (p\<lparr>ms_lib := o2, ms_slots := (ms_slots p)[i := ?s2], ms_slots_open := ms_slots_open p\<rparr>)"
    by (rule ms_inv_replace [OF inv i(1)])
      (use ms_invD(2) [OF inv] o2 in \<open>simp_all add: ms_handles_def same_dbcs_def odbc_wf_def\<close>)
  moreover have "p\<lparr>ms_lib := o2, ms_slots := (ms_slots p)[i := ?s2], ms_slots_open := ms_slots_open p\<rparr> = q"
    unfolding q(1) by simp
  ultimately show ?thesis using q i(1) o2 by (simp add: ms_same_def same_dbcs_def)
qed

subsection \<open>The health check\<close>

lemma ms_health_slot_spec:
  assumes inv: "ms_inv A p" and i: "i < length (ms_slots p)" and h: "ms_health_slot now i (p, f) = (q, g)"
  shows "ms_kept A p q \<and> ms_slots_open q + int g = ms_slots_open p + int f"
proof (cases "hdbc (ms_slots p ! i) = None \<or> ms_in_use (ms_slots p ! i)")
  case True
  with h ms_kept_refl [OF inv] show ?thesis by (auto simp: ms_health_slot_def Let_def)
next
  case free: False
  have revive: "ms_kept A p2 q2 \<and> ms_slots_open q2 + (if ok then 0 else 1) = ms_slots_open p2"
    if "ms_reopen_slot now i (ms_close_counted i p2) = (ok, q2)" "ms_inv A p2" "ms_slots p2 = ms_slots p" for p2 ok q2
  proof -
    have st: "ms_settled A i p2 (ok, q2)" using ms_revive_settled [OF that(2), of i now] that i free by simp
    from ms_settled_kept [OF st] ms_settledD(7) [OF st] that(3) free show ?thesis by (cases ok) simp_all
  qed
  show ?thesis
  proof (cases "ms_max_lifetime p > 0 \<and> now - ms_created (ms_slots p ! i) > ms_max_lifetime p")
    case True
    obtain ok q2 where r: "ms_reopen_slot now i (ms_close_counted i p) = (ok, q2)"
      by (cases "ms_reopen_slot now i (ms_close_counted i p)")
    from revive [OF r inv] h free True r show ?thesis by (cases ok) (auto simp: ms_health_slot_def Let_def)
  next
    case False
    obtain ok o2 where v: "mssql_ping (hdbc (ms_slots p ! i)) (ms_lib p) = (ok, o2)"
      by (cases "mssql_ping (hdbc (ms_slots p ! i)) (ms_lib p)")
    let ?p = "p\<lparr>ms_lib := o2\<rparr>"
    have kept: "ms_kept A p ?p"
      by (rule ms_kept_lib [OF inv]) (use same_dbcs_ping [of "ms_lib p" "hdbc (ms_slots p ! i)"] v in simp)
    show ?thesis
    proof (cases ok)
      case True
      with h free False v kept show ?thesis by (auto simp: ms_health_slot_def Let_def)
    next
      case no: False
      obtain ok3 q2 where r: "ms_reopen_slot now i (ms_close_counted i ?p) = (ok3, q2)"
        by (cases "ms_reopen_slot now i (ms_close_counted i ?p)")
      have "ms_kept A ?p q2 \<and> ms_slots_open q2 + (if ok3 then 0 else 1) = ms_slots_open p"
        using revive [OF r] kept by (simp add: ms_kept_def)
      with ms_kept_trans [OF kept] h free False v no r show ?thesis
        by (cases ok3) (auto simp: ms_health_slot_def Let_def)
    qed
  qed
qed

lemma ms_health_fold:
  "ms_inv A p \<Longrightarrow> \<forall>i \<in> set js. i < length (ms_slots p) \<Longrightarrow> fold (ms_health_slot now) js (p, f) = (q, g) \<Longrightarrow>
     ms_kept A p q \<and> ms_slots_open q + int g = ms_slots_open p + int f"
proof (induction js arbitrary: p f)
  case Nil
  then show ?case by (simp add: ms_kept_refl)
next
  case (Cons i js)
  obtain p2 f2 where h: "ms_health_slot now i (p, f) = (p2, f2)" by (cases "ms_health_slot now i (p, f)")
  have s: "ms_kept A p p2 \<and> ms_slots_open p2 + int f2 = ms_slots_open p + int f"
    using ms_health_slot_spec [OF Cons.prems(1) _ h] Cons.prems(2) by simp
  then have "ms_inv A p2" "length (ms_slots p2) = length (ms_slots p)" by (simp_all add: ms_kept_def kept_slots_def)
  with Cons.IH [of p2 f2] Cons.prems(2,3) h
  have "ms_kept A p2 q \<and> ms_slots_open q + int g = ms_slots_open p2 + int f2" by simp
  with s show ?case using ms_kept_trans by force
qed

lemma ms_health_check_spec:
  assumes "ms_inv A p" "MSSQL_Pool_health_check now (Some p) = (n, r)"
  shows "\<exists>q. r = Some q \<and> ms_kept A p q \<and> n = ms_slots_open p - ms_slots_open q"
proof -
  obtain q g where f: "fold (ms_health_slot now) [0..<length (ms_slots p)] (p, 0) = (q, g)"
    by (cases "fold (ms_health_slot now) [0..<length (ms_slots p)] (p, 0)")
  from ms_health_fold [OF assms(1) _ f] have "ms_kept A p q \<and> ms_slots_open q + int g = ms_slots_open p" by simp
  with f assms(2) show ?thesis by (auto simp: MSSQL_Pool_health_check_def)
qed

subsection \<open>The contract\<close>

text \<open>A connected pool: its accounts are right and it holds a reference to the environment.\<close>

definition ms_live :: "nat set \<Rightarrow> nat \<Rightarrow> ms_pool \<Rightarrow> bool" where
  "ms_live B n p \<longleftrightarrow> ms_inv B p \<and> ms_henv p \<and> env_live (ms_lib p) \<and> env_refs (ms_lib p) = n"

text \<open>One round of \<open>MSSQL_Pool_get_session\<close>; a session given back is released, or given up as lost.\<close>

definition ms_borrow :: "int \<times> bool \<Rightarrow> ms_pool \<Rightarrow> ms_pool \<times> nat option" where
  "ms_borrow e p =
     (case ms_try_borrow (fst e) p of
        (q, None) \<Rightarrow> (q, None)
      | (q, Some i) \<Rightarrow> (case ms_finish_borrow (fst e) i q of (w, q2) \<Rightarrow> (q2, if w = None then None else Some i)))"

definition ms_return :: "int \<times> bool \<Rightarrow> nat \<Rightarrow> ms_pool \<Rightarrow> ms_pool" where
  "ms_return e i p =
     (let w = \<lparr>mw_slot = int i, mw_svchp = hdbc (ms_slots p ! i)\<rparr> in
      if snd e then ms_give_up w p else snd (MSSQL_Pool_release_session (fst e) w p))"

definition ms_maintain :: "int \<times> bool \<Rightarrow> ms_pool \<Rightarrow> ms_pool" where
  "ms_maintain e p = the (snd (MSSQL_Pool_health_check (fst e) (Some p)))"

definition ms_lent :: "ms_pool \<Rightarrow> nat set" where
  "ms_lent p = busy_slots ms_in_use (ms_slots p)"

definition ms_conn :: "ms_pool \<Rightarrow> nat \<Rightarrow> nat option" where
  "ms_conn p i = hdbc (ms_slots p ! i)"

lemma ms_borrow_spec:
  assumes inv: "ms_inv A p" and b: "ms_borrow e p = (q, r)"
  shows "case r of None \<Rightarrow> ms_kept A p q | Some i \<Rightarrow> ms_lent_out A i p q"
proof -
  obtain p2 r2 where t: "ms_try_borrow (fst e) p = (p2, r2)" by (cases "ms_try_borrow (fst e) p")
  note ts = ms_try_borrow_spec [OF inv t]
  then have inv2: "ms_inv A p2" by (simp add: ms_kept_def)
  show ?thesis
  proof (cases r2)
    case None
    with b t have "q = p2" "r = None" by (simp_all add: ms_borrow_def)
    with ts show ?thesis by simp
  next
    case (Some i)
    obtain w q2 where f: "ms_finish_borrow (fst e) i p2 = (w, q2)" by (cases "ms_finish_borrow (fst e) i p2")
    from b t Some f have q: "q = q2" "r = (if w = None then None else Some i)" by (simp_all add: ms_borrow_def)
    have kept: "ms_kept A p p2" and i: "i < length (ms_slots p2)" "hdbc (ms_slots p2 ! i) \<noteq> None" "\<not> ms_in_use (ms_slots p2 ! i)"
      using ts Some by simp_all
    note fs = ms_finish_borrow_spec [OF inv2 i f]
    show ?thesis
    proof (cases w)
      case None
      with fs ms_kept_trans [OF kept] q show ?thesis by simp
    next
      case (Some w')
      with fs ms_kept_lent [OF kept] q show ?thesis by simp
    qed
  qed
qed

lemma ms_return_spec:
  assumes inv: "ms_inv A p" and lent: "i \<in> ms_lent p"
  shows "ms_inv A (ms_return e i p) \<and> ms_same i p (ms_return e i p) \<and> \<not> ms_in_use (ms_slots (ms_return e i p) ! i)"
proof -
  let ?w = "\<lparr>mw_slot = int i, mw_svchp = hdbc (ms_slots p ! i)\<rparr>"
  have i: "i < length (ms_slots p)" "ms_in_use (ms_slots p ! i)" using lent by (simp_all add: ms_lent_def busy_slots_def)
  then have h: "hdbc (ms_slots p ! i) \<noteq> None" using ms_invD(3) [OF inv] by blast
  show ?thesis
  proof (cases "snd e")
    case True
    have "ms_return e i p = ms_close_counted i p" using True i(1) h by (simp add: ms_return_def ms_give_up_def Let_def)
    with ms_settledD(1,2,4) [OF ms_close_settled [OF inv i(1) h]] show ?thesis by simp
  next
    case False
    obtain w2 q where r: "MSSQL_Pool_release_session (fst e) ?w p = (w2, q)"
      by (cases "MSSQL_Pool_release_session (fst e) ?w p")
    from ms_release_spec [OF inv i(1) _ r] False r show ?thesis by (simp add: ms_return_def Let_def)
  qed
qed

lemma ms_maintain_spec: "ms_inv A p \<Longrightarrow> ms_kept A p (ms_maintain e p)"
  using ms_health_check_spec [of A p "fst e"]
  by (cases "MSSQL_Pool_health_check (fst e) (Some p)") (auto simp: ms_maintain_def)

lemma ms_kept_lent_set: "ms_kept A p q \<Longrightarrow> ms_lent q = ms_lent p"
  by (simp add: ms_kept_def ms_lent_def kept_busy)

lemma ms_kept_conn: "ms_kept A p q \<Longrightarrow> i \<in> ms_lent p \<Longrightarrow> ms_conn q i = ms_conn p i"
  using kept_nth [of ms_in_use "ms_slots p" "ms_slots q" i] by (simp add: ms_kept_def ms_lent_def ms_conn_def)

lemma ms_lent_out_sets:
  assumes "ms_lent_out A i p q"
  shows "i \<notin> ms_lent p" "ms_lent q = insert i (ms_lent p)" "j \<in> ms_lent p \<Longrightarrow> ms_conn q j = ms_conn p j"
  using assms lent_busy [of ms_in_use i "ms_slots p" "ms_slots q"]
  by (simp_all add: ms_lent_out_def ms_lent_def ms_conn_def)

lemma ms_lent_conn: "ms_inv B p \<Longrightarrow> i \<in> ms_lent p \<Longrightarrow> ms_conn p i \<noteq> None"
  using ms_invD(3) [of B p i] by (simp add: ms_lent_def busy_slots_def ms_conn_def)

lemma ms_conn_distinct:
  assumes inv: "ms_inv B p" and ij: "i \<in> ms_lent p" "j \<in> ms_lent p" "ms_conn p i = ms_conn p j"
  shows "i = j"
proof (rule ccontr)
  assume ne: "i \<noteq> j"
  obtain h where "hdbc (ms_slots p ! i) = Some h" using ms_lent_conn [OF inv ij(1)] by (auto simp: ms_conn_def)
  with ij(3) have "h \<in> ms_handles (ms_slots p ! i) \<inter> ms_handles (ms_slots p ! j)"
    by (auto simp: ms_conn_def ms_handles_def)
  with slot_accountsD(1) [OF ms_invD(4) [OF inv] _ _ ne] ij(1,2) show False by (simp add: ms_lent_def busy_slots_def)
qed

interpretation mssql_pool: session_pool ms_lent ms_conn "ms_live B n" ms_borrow ms_return ms_maintain
  for B :: "nat set" and n :: nat
proof
  fix p :: ms_pool and i j :: nat and e :: "int \<times> bool"
  assume live: "ms_live B n p"
  then have inv: "ms_inv B p" and env: "ms_henv p" "env_live (ms_lib p)" "env_refs (ms_lib p) = n" by (simp_all add: ms_live_def)
  obtain q r where b: "ms_borrow e p = (q, r)" by (cases "ms_borrow e p")
  note bs = ms_borrow_spec [OF inv b]
  note ms = ms_maintain_spec [OF inv, of e]
  show "i \<in> ms_lent p \<Longrightarrow> ms_conn p i \<noteq> None" by (rule ms_lent_conn [OF inv])
  show "i \<in> ms_lent p \<Longrightarrow> j \<in> ms_lent p \<Longrightarrow> ms_conn p i = ms_conn p j \<Longrightarrow> i = j" by (rule ms_conn_distinct [OF inv])
  show "ms_live B n (fst (ms_borrow e p))"
    using bs b env by (cases r) (simp_all add: ms_live_def ms_kept_def ms_lent_out_def)
  show "ms_conn (fst (ms_borrow e p)) i = ms_conn p i" if "i \<in> ms_lent p"
    using bs b ms_kept_conn [OF _ that] ms_lent_out_sets(3) [OF _ that] by (auto split: option.splits)
  show "ms_lent (fst (ms_borrow e p)) = ms_lent p" if "snd (ms_borrow e p) = None"
    using bs b that ms_kept_lent_set by auto
  show "i \<notin> ms_lent p \<and> ms_lent (fst (ms_borrow e p)) = insert i (ms_lent p)" if "snd (ms_borrow e p) = Some i"
    using bs b that ms_lent_out_sets(1,2) by auto
  show "ms_live B n (ms_return e i p)" if "i \<in> ms_lent p"
    using ms_return_spec [OF inv that, of e] env by (simp add: ms_live_def ms_same_def)
  show "ms_lent (ms_return e i p) = ms_lent p - {i}" if "i \<in> ms_lent p"
    unfolding ms_lent_def by (rule freed_busy) (use ms_return_spec [OF inv that, of e] in \<open>simp_all add: ms_same_def\<close>)
  show "ms_conn (ms_return e i p) j = ms_conn p j" if "i \<in> ms_lent p" "j \<in> ms_lent p" "j \<noteq> i"
    using ms_return_spec [OF inv that(1), of e] that(3) by (simp add: ms_conn_def ms_same_def)
  show "ms_live B n (ms_maintain e p)" using ms env by (simp add: ms_live_def ms_kept_def)
  show "ms_lent (ms_maintain e p) = ms_lent p" by (rule ms_kept_lent_set [OF ms])
  show "ms_conn (ms_maintain e p) i = ms_conn p i" if "i \<in> ms_lent p" by (rule ms_kept_conn [OF ms that])
qed

subsection \<open>Connecting and disconnecting\<close>

text \<open>The accounts without the count, which closing all slots does not keep.\<close>

definition ms_acc :: "nat set \<Rightarrow> ms_pool \<Rightarrow> ms_pool \<Rightarrow> bool" where
  "ms_acc A p q \<longleftrightarrow>
     slot_accounts ms_handles A (dbcs (ms_lib q)) (ms_slots q) \<and> length (ms_slots q) = length (ms_slots p) \<and>
     ms_henv q = ms_henv p \<and> env_live (ms_lib q) = env_live (ms_lib p) \<and> env_refs (ms_lib q) = env_refs (ms_lib p)"

lemma ms_acc_inv: "ms_inv A p \<Longrightarrow> ms_acc A p p"
  by (simp add: ms_acc_def ms_invD(4))

lemma ms_acc_lib: "ms_acc A p q \<Longrightarrow> same_dbcs (ms_lib q) o2 \<Longrightarrow> ms_acc A p (q\<lparr>ms_lib := o2\<rparr>)"
  by (simp add: ms_acc_def same_dbcs_def)

lemma ms_acc_close:
  assumes "ms_acc A p q" "i < length (ms_slots p)"
  shows "ms_acc A p (ms_close_slot i q)"
proof -
  let ?s = "(ms_slots q ! i)\<lparr>hdbc := None, ms_in_use := False\<rparr>"
  have acc: "slot_accounts ms_handles A (dbcs (ms_lib q)) (ms_slots q)" and i: "i < length (ms_slots q)"
    using assms by (simp_all add: ms_acc_def)
  have h: "ms_handles ?s = {}" by (simp add: ms_handles_def)
  have "slot_accounts ms_handles A (dbcs (ms_lib q) - ms_handles (ms_slots q ! i)) ((ms_slots q)[i := ?s])"
    by (rule slot_accounts_replace [OF acc i]) (simp_all add: h)
  with assms(1) show ?thesis
    by (simp add: ms_acc_def ms_close_slot_def Let_def close_connection_spec ms_handles_def)
qed

lemma ms_close_slot_nth:
  "i < length (ms_slots p) \<Longrightarrow> hdbc (ms_slots (ms_close_slot i p) ! i) = None"
  "j \<noteq> i \<Longrightarrow> ms_slots (ms_close_slot i p) ! j = ms_slots p ! j"
  by (simp_all add: ms_close_slot_def Let_def)

lemma ms_close_all_spec:
  "ms_acc A p0 p \<Longrightarrow> n \<le> length (ms_slots p0) \<Longrightarrow>
     ms_acc A p0 (ms_close_all n p) \<and> (\<forall>j < n. hdbc (ms_slots (ms_close_all n p) ! j) = None)"
proof (induction n)
  case (Suc n)
  let ?p = "ms_close_all n p"
  from Suc have ih: "ms_acc A p0 ?p" "\<forall>j < n. hdbc (ms_slots ?p ! j) = None" by auto
  then have n: "n < length (ms_slots ?p)" using Suc.prems(2) by (simp add: ms_acc_def)
  have "hdbc (ms_slots (ms_close_slot n ?p) ! j) = None" if "j < Suc n" for j
    using that ih(2) ms_close_slot_nth(1) [OF n] ms_close_slot_nth(2) [of j n ?p] by (cases "j = n") simp_all
  with ih ms_acc_close [OF ih(1), of n] Suc.prems(2) show ?case by (auto simp: Let_def less_Suc_eq)
qed simp

lemma ms_rollback_all_acc:
  "ms_acc A p0 p \<Longrightarrow> n \<le> length (ms_slots p0) \<Longrightarrow> ms_acc A p0 (ms_rollback_all n p)"
proof (induction n)
  case (Suc n)
  let ?p = "ms_rollback_all n p"
  let ?q = "?p\<lparr>ms_lib := snd (mssql_end_tran (hdbc (ms_slots ?p ! n)) False (ms_lib ?p))\<rparr>"
  have ih: "ms_acc A p0 ?p" using Suc by simp
  have "ms_acc A p0 (ms_close_slot n ?q)"
    by (rule ms_acc_close [OF ms_acc_lib [OF ih same_dbcs_end_tran]]) (use Suc.prems in simp)
  with ih show ?case by (simp add: Let_def)
qed simp

lemma env_release_spec:
  "dbcs (mssql_env_release o1) = dbcs o1"
  "0 < env_refs o1 \<Longrightarrow> env_refs (mssql_env_release o1) = env_refs o1 - 1 \<and>
     env_live (mssql_env_release o1) = (env_refs o1 \<noteq> 1 \<and> env_live o1)"
  by (simp_all add: mssql_env_release_def Let_def)

text \<open>What the pool took of ODBC is given back.\<close>

definition balanced :: "odbc \<Rightarrow> odbc \<Rightarrow> bool" where
  "balanced o1 o2 \<longleftrightarrow> dbcs o2 = dbcs o1 \<and> env_refs o2 = env_refs o1 \<and> env_live o2 = env_live o1"

definition env_ok :: "odbc \<Rightarrow> bool" where
  "env_ok o1 \<longleftrightarrow> (env_live o1 \<longleftrightarrow> env_refs o1 > 0)"

lemma ms_free_pool_spec:
  assumes acc: "ms_acc A p0 p" and env: "env_ok (ms_lib p)" "ms_henv p \<longrightarrow> env_refs (ms_lib p) > 0"
  shows "dbcs (ms_free_pool p) = A \<and> env_ok (ms_free_pool p) \<and>
    env_refs (ms_free_pool p) = env_refs (ms_lib p) - (if ms_henv p then 1 else 0)"
proof -
  let ?q = "ms_close_all (length (ms_slots p)) p"
  have len: "length (ms_slots p) \<le> length (ms_slots p0)" using acc by (simp add: ms_acc_def)
  have q: "ms_acc A p0 ?q" "\<And>j. j < length (ms_slots p) \<Longrightarrow> hdbc (ms_slots ?q ! j) = None"
    using ms_close_all_spec [OF acc len] by auto
  have acc_q: "slot_accounts ms_handles A (dbcs (ms_lib ?q)) (ms_slots ?q)" and lq: "length (ms_slots ?q) = length (ms_slots p)"
      and e: "ms_henv ?q = ms_henv p" "env_live (ms_lib ?q) = env_live (ms_lib p)" "env_refs (ms_lib ?q) = env_refs (ms_lib p)"
    using q(1) acc by (simp_all add: ms_acc_def)
  have "(\<Union>j < length (ms_slots ?q). ms_handles (ms_slots ?q ! j)) = {}" using q(2) lq by (auto simp: ms_handles_def)
  with slot_accountsD(3) [OF acc_q] have d: "dbcs (ms_lib ?q) = A" by blast
  show ?thesis
  proof (cases "ms_henv p")
    case True
    then have "0 < env_refs (ms_lib ?q)" using env(2) e by simp
    from env_release_spec(2) [OF this] env(1) True e d show ?thesis
      by (auto simp: ms_free_pool_def Let_def env_release_spec(1) env_ok_def)
  next
    case False
    with env(1) e d show ?thesis by (simp add: ms_free_pool_def Let_def env_ok_def)
  qed
qed

lemma env_acquire_spec:
  assumes "mssql_env_acquire o1 = (ok, o2)" "env_ok o1"
  shows "dbcs o2 = dbcs o1 \<and> next_dbc o2 = next_dbc o1 \<and> env_ok o2 \<and> env_refs o2 = env_refs o1 + (if ok then 1 else 0)"
  using assms by (auto simp: mssql_env_acquire_def ask_def env_ok_def split: if_splits bool.splits)

lemma ms_new_pool_inv:
  assumes "odbc_wf o1"
  shows "ms_inv (dbcs o1) (ms_new_pool ini env o1)"
proof -
  have h: "ms_handles ms_slot_zero = {}" "hdbc ms_slot_zero = None" "\<not> ms_in_use ms_slot_zero"
    by (simp_all add: ms_slot_zero_def ms_handles_def)
  show ?thesis using assms by (simp add: ms_inv_def ms_new_pool_def h slot_accounts_def)
qed

lemma ms_open_minimum_spec:
  "ms_inv A p \<Longrightarrow> i + n \<le> length (ms_slots p) \<Longrightarrow> \<forall>j < length (ms_slots p). i \<le> j \<longrightarrow> hdbc (ms_slots p ! j) = None \<Longrightarrow>
     ms_open_minimum now i n p = (ok, q) \<Longrightarrow>
     ms_kept A p q \<and> (ok \<longrightarrow> ms_slots_open q = ms_slots_open p + int n)"
proof (induction now i n p rule: ms_open_minimum.induct)
  case (1 now i p)
  then show ?case by (simp add: ms_kept_refl)
next
  case (2 now i n p)
  have i: "i < length (ms_slots p)" "hdbc (ms_slots p ! i) = None" using "2.prems"(2,3) by simp_all
  obtain b p2 where r: "ms_reopen_slot now i p = (b, p2)" by (cases "ms_reopen_slot now i p")
  have st: "ms_settled A i p (b, p2)" using ms_reopen_settled [OF "2.prems"(1) i, of now] r by simp
  have free: "\<not> ms_in_use (ms_slots p ! i)" using ms_invD(3) [OF "2.prems"(1) i(1)] i(2) by blast
  note kept = ms_settled_kept [OF st free]
  show ?case
  proof (cases b)
    case False
    with kept r "2.prems"(4) show ?thesis by simp
  next
    case True
    have closed: "\<forall>j < length (ms_slots p2). i + 1 \<le> j \<longrightarrow> hdbc (ms_slots p2 ! j) = None"
      using "2.prems"(3) ms_settledD(6) [OF st] ms_settledD(3) [OF st] by simp
    have "ms_open_minimum now (i + 1) n p2 = (ok, q)" using "2.prems"(4) r True by simp
    have "ms_kept A p2 q \<and> (ok \<longrightarrow> ms_slots_open q = ms_slots_open p2 + int n)"
      by (rule "2.IH" [OF r [symmetric] _ ms_settledD(1) [OF st] _ closed])
        (use True "2.prems"(2,4) ms_settledD(3) [OF st] r in simp_all)
    with ms_kept_trans [OF kept] ms_settledD(7) [OF st] True i(2) show ?thesis by simp
  qed
qed

lemma ms_connect_spec:
  assumes wf: "odbc_wf o1" "env_ok o1"
  shows "case MSSQL_Connect_pool ini a s sl now o1 of
      Inl o2 \<Rightarrow> balanced o1 o2
    | Inr p \<Rightarrow> ms_live (dbcs o1) (env_refs o1 + 1) p \<and> ms_lent p = {} \<and> ms_slots_open p = int (ms_min ini) \<and>
        length (ms_slots p) = ms_size ini"
proof -
  obtain ok o2 where e: "mssql_env_acquire o1 = (ok, o2)" by (cases "mssql_env_acquire o1")
  note es = env_acquire_spec [OF e wf(2)]
  have wf2: "odbc_wf o2" using es wf(1) by (simp add: odbc_wf_def)
  have bal: "balanced o1 oo" if "dbcs oo = dbcs o1 \<and> env_ok oo \<and> env_refs oo = env_refs o1" for oo
    using that wf(2) by (auto simp: balanced_def env_ok_def)
  consider "\<not> a \<or> \<not> s" | (nosl) "a" "s" "\<not> sl" | (noenv) "a" "s" "sl" "\<not> ok" | (go) "a" "s" "sl" "ok" by blast
  then show ?thesis
  proof cases
    case 1
    then have "MSSQL_Connect_pool ini a s sl now o1 = Inl o1" by (auto simp: MSSQL_Connect_pool_def)
    then show ?thesis by (simp add: balanced_def)
  next
    case nosl
    have "balanced o1 (ms_free_pool ((ms_new_pool ini False o1)\<lparr>ms_slots := []\<rparr>))"
      by (simp add: ms_free_pool_def ms_new_pool_def balanced_def)
    with nosl show ?thesis by (simp add: MSSQL_Connect_pool_def)
  next
    case noenv
    have "ms_henv (ms_new_pool ini False o2) = False" "ms_lib (ms_new_pool ini False o2) = o2"
      by (simp_all add: ms_new_pool_def)
    with ms_free_pool_spec [OF ms_acc_inv [OF ms_new_pool_inv [OF wf2, of ini False]]] es noenv(4)
    have "balanced o1 (ms_free_pool (ms_new_pool ini False o2))" by (intro bal) simp
    with noenv e show ?thesis by (simp add: MSSQL_Connect_pool_def)
  next
    case go
    let ?p = "ms_new_pool ini True o2"
    have p: "ms_henv ?p" "ms_lib ?p = o2" "length (ms_slots ?p) = ms_size ini" "ms_slots_open ?p = 0"
        "\<And>j. j < ms_size ini \<Longrightarrow> ms_slots ?p ! j = ms_slot_zero"
      by (simp_all add: ms_new_pool_def)
    obtain b q where m: "ms_open_minimum now 0 (ms_min ini) ?p = (b, q)"
      by (cases "ms_open_minimum now 0 (ms_min ini) ?p")
    have sp: "ms_kept (dbcs o2) ?p q \<and> (b \<longrightarrow> ms_slots_open q = ms_slots_open ?p + int (ms_min ini))"
      by (rule ms_open_minimum_spec [OF ms_new_pool_inv [OF wf2] _ _ m])
        (use p in \<open>simp_all add: ms_min_def ms_slot_zero_def\<close>)
    then have q: "ms_inv (dbcs o1) q" "ms_henv q" "env_refs (ms_lib q) = env_refs o1 + 1" "env_ok (ms_lib q)"
      using es p go(4) by (auto simp: ms_kept_def env_ok_def)
    show ?thesis
    proof (cases b)
      case False
      from ms_free_pool_spec [OF ms_acc_inv [OF q(1)] q(4)] q(2,3) have "balanced o1 (ms_free_pool q)" by (intro bal) simp
      with go e m False show ?thesis by (simp add: MSSQL_Connect_pool_def)
    next
      case True
      have "ms_lent ?p = {}" using p(3,5) by (auto simp: ms_lent_def busy_slots_def ms_slot_zero_def)
      with sp have "ms_lent q = {}" using ms_kept_lent_set [of "dbcs o2" ?p q] by simp
      moreover have "length (ms_slots q) = ms_size ini" using ms_kept_length [of "dbcs o2" ?p q] sp p(3) by simp
      ultimately show ?thesis using go e m True sp p(4) q by (simp add: MSSQL_Connect_pool_def ms_live_def env_ok_def)
    qed
  qed
qed

lemma ms_disconnect_spec:
  assumes live: "ms_live (dbcs o1) (env_refs o1 + 1) p" and env: "env_ok o1"
  shows "\<exists>o2. MSSQL_Disconnect_pool (Some p) = Some o2 \<and> balanced o1 o2"
proof -
  let ?q = "(ms_rollback_all (length (ms_slots p)) p)\<lparr>ms_slots_open := 0\<rparr>"
  have p: "ms_inv (dbcs o1) p" "ms_henv p" "env_live (ms_lib p)" "env_refs (ms_lib p) = env_refs o1 + 1"
    using live by (simp_all add: ms_live_def)
  have "ms_acc (dbcs o1) p ?q"
    using ms_rollback_all_acc [OF ms_acc_inv [OF p(1)] order_refl] by (simp add: ms_acc_def)
  moreover from this p have "env_ok (ms_lib ?q)" "ms_henv ?q" "env_refs (ms_lib ?q) = env_refs o1 + 1"
    by (simp_all add: ms_acc_def env_ok_def)
  ultimately have "dbcs (ms_free_pool ?q) = dbcs o1 \<and> env_ok (ms_free_pool ?q) \<and> env_refs (ms_free_pool ?q) = env_refs o1"
    using ms_free_pool_spec [of "dbcs o1" p ?q] by simp
  with env show ?thesis by (auto simp: MSSQL_Disconnect_pool_def balanced_def env_ok_def)
qed

subsection \<open>Properties\<close>


text \<open>C34. What the SQL Server pool takes of ODBC it gives back: if it cannot connect, connections and the
  environment are as before; if it can, the configured minimum of slots, clamped to the maximum, is open, and
  after any run of borrowing, returning, giving up and health checks, disconnecting closes every
  connection and drops exactly the pool's reference to the environment, which is freed with the last.\<close>

theorem ms_pool_balanced:
  assumes "odbc_wf o1" "env_ok o1"
  shows "case MSSQL_Connect_pool ini a s sl now o1 of
      Inl o2 \<Rightarrow> balanced o1 o2
    | Inr p \<Rightarrow> ms_slots_open p = int (ms_min ini) \<and> ms_min ini \<le> length (ms_slots p) \<and>
        (\<exists>o2. MSSQL_Disconnect_pool
           (Some (fst (fold (pool_step ms_conn ms_borrow ms_return ms_maintain) evs (p, \<lambda>_. None)))) = Some o2 \<and>
           balanced o1 o2)"
proof (cases "MSSQL_Connect_pool ini a s sl now o1")
  case (Inl o2)
  with ms_connect_spec [OF assms, of ini a s sl now] show ?thesis by simp
next
  case (Inr p)
  with ms_connect_spec [OF assms, of ini a s sl now]
  have p: "ms_live (dbcs o1) (env_refs o1 + 1) p" "ms_lent p = {}" "ms_slots_open p = int (ms_min ini)"
      "ms_min ini \<le> length (ms_slots p)" by (simp_all add: ms_min_def)
  obtain q hold where run: "fold (pool_step ms_conn ms_borrow ms_return ms_maintain) evs (p, \<lambda>_. None) = (q, hold)"
    by (cases "fold (pool_step ms_conn ms_borrow ms_return ms_maintain) evs (p, \<lambda>_. None)")
  from ms_disconnect_spec [OF mssql_pool.run_ok [OF p(1,2) run] assms(2)] Inr p run show ?thesis by simp
qed

text \<open>ODBC with one foreign connection, whose fourth call, a login, fails.\<close>

definition test_odbc :: odbc where
  "test_odbc = \<lparr>next_dbc = 1, dbcs = {0}, manual = {}, ended = [], env_live = False, env_refs = 0, calls_done = 0,
     answer = (\<lambda>n. n \<noteq> 4)\<rparr>"

definition test_ms_ini :: ms_ini where
  "test_ms_ini = \<lparr>ini_min_size = 5, ini_max_size = 2, ini_retries = 2, ini_max_lifetime = 0, ini_validation = True,
     ini_rollback = True, ini_autocommit = False, ini_fits = True\<rparr>"

definition test_ms_pool :: ms_pool where
  "test_ms_pool = (case MSSQL_Connect_pool test_ms_ini True True True 5 test_odbc of Inr p \<Rightarrow> p)"

definition test_ms_run :: "ms_pool \<times> nat holders" where
  "test_ms_run = fold (pool_step ms_conn ms_borrow ms_return ms_maintain)
     [Borrow (6, False) 0, Borrow (6, False) 1, Return (7, True) 0, Borrow (8, False) 0] (test_ms_pool, \<lambda>_. None)"

lemma test_odbc_ok: "odbc_wf test_odbc" "env_ok test_odbc"
  by (simp_all add: odbc_wf_def env_ok_def test_odbc_def)

lemma test_ms_pool_connected: "MSSQL_Connect_pool test_ms_ini True True True 5 test_odbc = Inr test_ms_pool"
proof -
  have "case MSSQL_Connect_pool test_ms_ini True True True 5 test_odbc of Inr p \<Rightarrow> True | _ \<Rightarrow> False"
    by code_simp
  then show ?thesis by (auto simp: test_ms_pool_def split: sum.splits)
qed

lemma test_ms_run_holds: "snd test_ms_run 0 = Some (0, 4)" "snd test_ms_run 1 = Some (1, 3)"
  by code_simp+


lemma ms_pool_balanced_witness:
  "ms_slots_open test_ms_pool = 2 \<and>
   map_option dbcs (MSSQL_Disconnect_pool (Some (fst test_ms_run))) = Some {0} \<and>
   map_option env_live (MSSQL_Disconnect_pool (Some (fst test_ms_run))) = Some False"
proof -
  have m: "ms_min test_ms_ini = 2" by code_simp
  obtain o2 where "ms_slots_open test_ms_pool = int (ms_min test_ms_ini)"
      "MSSQL_Disconnect_pool (Some (fst test_ms_run)) = Some o2" "balanced test_odbc o2"
    using ms_pool_balanced [OF test_odbc_ok, where ini = test_ms_ini and a = True and s = True and sl = True and now = 5 and
        evs = "[Borrow (6, False) 0, Borrow (6, False) 1, Return (7, True) 0, Borrow (8, False) 0]"] test_ms_pool_connected
    unfolding test_ms_run_def by auto
  with m show ?thesis by (simp add: balanced_def test_odbc_def)
qed

end
