(* ===== verification/Mssql_Diag.thy ===== *)
theory Mssql_Diag
  imports Mssql_Text Mssql_Dialect
begin

text \<open>
  The text routines of \<^verbatim>\<open>src/infra/MSSQL_Pool.c\<close>: server diagnostics from UTF-16 to UTF-8, the
  collection of diagnostic records in a buffer of fixed size, and the connection string. Bytes and units
  are \<open>nat\<close> as in \<open>Mssql_Text\<close>, whose converter goes the other way.
\<close>

unbundle bit_operations_syntax

subsection \<open>UTF-16 to UTF-8\<close>

definition diag_bytes :: "nat \<Rightarrow> nat list" where
  "diag_bytes cp =
     (if cp < 0x80 then [cp]
      else if cp < 0x800 then [0xC0 OR drop_bit 6 cp, 0x80 OR (cp AND 0x3F)]
      else if cp < 0x10000 then [0xE0 OR drop_bit 12 cp, 0x80 OR (drop_bit 6 cp AND 0x3F), 0x80 OR (cp AND 0x3F)]
      else [0xF0 OR drop_bit 18 cp, 0x80 OR (drop_bit 12 cp AND 0x3F), 0x80 OR (drop_bit 6 cp AND 0x3F), 0x80 OR (cp AND 0x3F)])"

definition is_high :: "nat \<Rightarrow> bool" where
  "is_high u \<longleftrightarrow> 0xD800 \<le> u \<and> u \<le> 0xDBFF"

definition is_low :: "nat \<Rightarrow> bool" where
  "is_low u \<longleftrightarrow> 0xDC00 \<le> u \<and> u \<le> 0xDFFF"

text \<open>One character from the front of the units that are left: its code point and how many units it took.\<close>

definition next_cp :: "nat \<Rightarrow> nat list \<Rightarrow> nat \<times> nat" where
  "next_cp u us =
     (if is_high u \<and> us \<noteq> [] \<and> is_low (hd us)
      then (0x10000 + push_bit 10 (u - 0xD800) + (hd us - 0xDC00), 2)
      else if 0xD800 \<le> u \<and> u \<le> 0xDFFF then (0xFFFD, 1)
      else (u, 1))"

function diag_loop :: "nat \<Rightarrow> nat \<Rightarrow> nat list \<Rightarrow> nat list" where
  "diag_loop out_size o1 [] = []"
| "diag_loop out_size o1 (u # us) =
     (if u = 0 then []
      else case next_cp u us of
        (cp, k) \<Rightarrow>
          let b = diag_bytes cp in
          if o1 + length b \<ge> out_size then []
          else b @ diag_loop out_size (o1 + length b) (drop (k - 1) us))"
  by pat_completeness auto
termination by (relation "measure (\<lambda>(n, o1, us). length us)") auto

definition diag_utf16_to_utf8 :: "nat list \<Rightarrow> nat \<Rightarrow> cstring" where
  "diag_utf16_to_utf8 w out_size = map char_of (diag_loop out_size 0 w)"

subsection \<open>Collecting the records\<close>

text \<open>What \<^verbatim>\<open>SQLGetDiagRecW\<close> returns for one record: state, native code, the message buffer, its length.\<close>

record diag_rec =
  rec_state :: "nat list"
  rec_native :: int
  rec_msg :: "nat list"
  rec_len :: int

definition state_text :: "nat list \<Rightarrow> cstring" where
  "state_text us = map char_of (takeWhile (\<lambda>u. u \<noteq> 0) (map (\<lambda>u. u AND 0x7F) (take 5 us)))"

function skip_groups :: "cstring \<Rightarrow> cstring" where
  "skip_groups text =
     (if starts (CHR ''['') text
      then (case c_strchr text (CHR '']'') of None \<Rightarrow> text | Some i \<Rightarrow> skip_groups (drop (i + 1) text))
      else text)"
  by pat_completeness auto
termination by (relation "measure length") (auto dest: c_strchr_Some)

declare skip_groups.simps [simp del]

definition rec_text :: "diag_rec \<Rightarrow> cstring" where
  "rec_text r =
     (let wlen = min (nat (rec_len r)) 1023
      in dropWhile (\<lambda>c. c = CHR '' '') (skip_groups (diag_utf16_to_utf8 (take wlen (rec_msg r)) 3072)))"

text \<open>A text cut short ends on a whole character.\<close>

definition utf8_need :: "nat \<Rightarrow> nat" where
  "utf8_need b = (if b \<ge> 0xF0 then 4 else if b \<ge> 0xE0 then 3 else if b \<ge> 0xC0 then 2 else 1)"

definition cut_incomplete :: "cstring \<Rightarrow> cstring" where
  "cut_incomplete out =
     (let e = length out; i = e - length (takeWhile (\<lambda>c. byte c AND 0xC0 = 0x80) (rev out)) in
      if i > 0 \<and> (i - 1) + utf8_need (byte (out ! (i - 1))) > e then take (i - 1) out else out)"

fun diag_records :: "nat \<Rightarrow> cstring \<Rightarrow> diag_rec list \<Rightarrow> cstring" where
  "diag_records n out [] = out"
| "diag_records n out (r # rs) =
     (let piece = (if out \<noteq> [] then '' | '' else []) @ ''SQLSTATE '' @ state_text (rec_state r) @ '' [native '' @
                  dec_int (rec_native r) @ '']: '' @ rec_text r
      in if length piece \<ge> n - length out then cut_incomplete (take (n - 1) (out @ piece))
         else diag_records n (out @ piece) rs)"

definition mssql_diag :: "nat \<Rightarrow> diag_rec list \<Rightarrow> cstring option" where
  "mssql_diag out_size recs = (if out_size = 0 then None else Some (diag_records out_size [] (take 19 recs)))"

subsection \<open>The connection string\<close>

fun brace_loop :: "nat \<Rightarrow> cstring \<Rightarrow> cstring \<Rightarrow> cstring option" where
  "brace_loop n out [] = Some out"
| "brace_loop n out (c # p) =
     (if length out + (if c = CHR ''}'' then 2 else 1) + 1 \<ge> n then None
      else brace_loop n (out @ (if c = CHR ''}'' then [c, c] else [c])) p)"

definition put_braced :: "nat \<Rightarrow> cstring \<Rightarrow> cstring option \<Rightarrow> cstring option" where
  "put_braced n value out =
     (case out of
        None \<Rightarrow> None
      | Some o1 \<Rightarrow>
          if length o1 + 1 \<ge> n then None
          else (case brace_loop n (o1 @ ''{'') value of
                  None \<Rightarrow> None
                | Some o2 \<Rightarrow> if length o2 + 1 \<ge> n then None else Some (o2 @ ''}'')))"

definition put_text :: "nat \<Rightarrow> cstring \<Rightarrow> cstring option \<Rightarrow> cstring option" where
  "put_text n s out =
     (case out of None \<Rightarrow> None | Some o1 \<Rightarrow> if length s \<ge> n - length o1 then None else Some (o1 @ s))"

record conn_cfg =
  cs_server :: cstring
  cs_port :: int
  cs_dbname :: cstring
  cs_username :: cstring
  cs_password :: cstring
  cs_trust :: bool

definition MSSQL_ODBC_DRIVER :: cstring where
  "MSSQL_ODBC_DRIVER = ''ODBC Driver 18 for SQL Server''"

definition conn_head :: "conn_cfg \<Rightarrow> cstring" where
  "conn_head ini =
     ''Driver={'' @ MSSQL_ODBC_DRIVER @ ''};Server=tcp:'' @ cs_server ini @ '','' @
     dec_int (if cs_port ini > 0 then cs_port ini else 1433) @ '';Database=''"

definition conn_tail :: "conn_cfg \<Rightarrow> cstring" where
  "conn_tail ini = '';Encrypt=yes;TrustServerCertificate='' @ (if cs_trust ini then ''yes'' else ''no'') @
     '';APP=DataSol_Gateway;''"

definition mssql_connection_string :: "conn_cfg \<Rightarrow> bool \<Rightarrow> nat \<Rightarrow> cstring option" where
  "mssql_connection_string ini mask_password n =
     (if n = 0 then None
      else
        let o1 = put_text n (conn_head ini) (Some []);
            o2 = put_braced n (cs_dbname ini) o1;
            o3 = put_braced n (cs_username ini) (put_text n '';UID='' o2);
            o4 = put_text n '';PWD='' o3;
            o5 = (if mask_password then put_text n ''***'' o4 else put_braced n (cs_password ini) o4)
        in put_text n (conn_tail ini) o5)"

subsection \<open>The bytes of a character\<close>

lemma or_lead:
  "x < 32 \<Longrightarrow> 0xC0 OR x = 192 + x" "x < 16 \<Longrightarrow> 0xE0 OR x = 224 + x" "x < 8 \<Longrightarrow> 0xF0 OR x = 240 + x"
  "x < 64 \<Longrightarrow> 0x80 OR x = 128 + x" for x :: nat
proof -
  have "\<forall>x \<in> set [0..<32]. 0xC0 OR x = 192 + (x :: nat)" "\<forall>x \<in> set [0..<16]. 0xE0 OR x = 224 + (x :: nat)"
    "\<forall>x \<in> set [0..<8]. 0xF0 OR x = 240 + (x :: nat)" "\<forall>x \<in> set [0..<64]. 0x80 OR x = 128 + (x :: nat)"
    by code_simp+
  then show "x < 32 \<Longrightarrow> 0xC0 OR x = 192 + x" "x < 16 \<Longrightarrow> 0xE0 OR x = 224 + x" "x < 8 \<Longrightarrow> 0xF0 OR x = 240 + x"
    "x < 64 \<Longrightarrow> 0x80 OR x = 128 + x" by auto
qed

lemma and_63: "x AND 0x3F = x mod 64" for x :: nat
  using take_bit_eq_mask [of 6 x] by (simp add: take_bit_eq_mod mask_eq_exp_minus_1)

lemma diag_bytes_utf8: "cp \<le> 0x10FFFF \<Longrightarrow> diag_bytes cp = utf8_bytes cp"
proof -
  assume cp: "cp \<le> 0x10FFFF"
  consider "cp < 0x80" | "0x80 \<le> cp" "cp < 0x800" | "0x800 \<le> cp" "cp < 0x10000" | "0x10000 \<le> cp" by linarith
  then show ?thesis
  proof cases
    case 2
    then have "cp div 64 < 32" by (intro less_mult_imp_div_less) simp
    with 2 show ?thesis by (simp add: diag_bytes_def utf8_bytes_def and_63 or_lead drop_bit_eq_div)
  next
    case 3
    then have "cp div 4096 < 16" by (intro less_mult_imp_div_less) simp
    with 3 show ?thesis by (simp add: diag_bytes_def utf8_bytes_def and_63 or_lead drop_bit_eq_div)
  next
    case 4
    have "cp div 262144 < 8" using cp by (intro less_mult_imp_div_less) simp
    with 4 show ?thesis by (simp add: diag_bytes_def utf8_bytes_def and_63 or_lead drop_bit_eq_div)
  qed (simp add: diag_bytes_def utf8_bytes_def)
qed

subsection \<open>Well-formed text\<close>

definition utf8_text :: "cstring \<Rightarrow> bool" where
  "utf8_text s \<longleftrightarrow> (\<exists>cps. list_all (\<lambda>c. scalar c \<and> c \<noteq> 0) cps \<and> map byte s = concat (map utf8_bytes cps))"

lemma scalar_le: "scalar cp \<Longrightarrow> cp \<le> 0x10FFFF"
  by (simp add: scalar_def)

lemma utf8_bytes_lt: "scalar cp \<Longrightarrow> b \<in> set (utf8_bytes cp) \<Longrightarrow> b < 256"
proof -
  assume cp: "scalar cp" and b: "b \<in> set (utf8_bytes cp)"
  have "x mod 64 < 64" for x :: nat by simp
  moreover have "cp < 2048 \<Longrightarrow> cp div 64 < 32" "cp < 65536 \<Longrightarrow> cp div 4096 < 16" "cp div 262144 < 8"
    using cp by (simp_all add: scalar_def less_mult_imp_div_less)
  ultimately show ?thesis using b by (force simp: utf8_bytes_def split: if_splits)
qed

lemma map_byte_char_of: "\<forall>b \<in> set bs. b < 256 \<Longrightarrow> map byte (map char_of bs) = bs"
  by (induction bs) auto

lemma bytes_back:
  "list_all scalar cps \<Longrightarrow> map byte (map char_of (concat (map utf8_bytes cps))) = concat (map utf8_bytes cps)"
  by (intro map_byte_char_of) (auto simp: list_all_iff dest: utf8_bytes_lt)

text \<open>The first byte of a character is not a continuation, the others are.\<close>

definition cont :: "nat \<Rightarrow> bool" where
  "cont b \<longleftrightarrow> b div 64 = 2"

lemma utf8_bytes_shape:
  assumes "scalar cp"
  shows "\<exists>c bs. utf8_bytes cp = c # bs \<and> \<not> cont c \<and> (\<forall>b \<in> set bs. cont b) \<and> utf8_need c = Suc (length bs)"
proof -
  consider "cp < 128" | "128 \<le> cp" "cp < 2048" | "2048 \<le> cp" "cp < 65536" | "65536 \<le> cp" by linarith
  then show ?thesis
  proof cases
    case 1
    then have "cp div 64 < 2" by (simp add: less_mult_imp_div_less)
    with 1 show ?thesis by (simp add: utf8_bytes_def cont_def utf8_need_def)
  next
    case 2
    then have "cp div 64 < 32" "2 \<le> cp div 64" by (simp_all add: less_mult_imp_div_less)
    with 2 show ?thesis by (simp add: utf8_bytes_def cont_def utf8_need_def)
  next
    case 3
    then have "cp div 4096 < 16" by (simp add: less_mult_imp_div_less)
    with 3 show ?thesis by (simp add: utf8_bytes_def cont_def utf8_need_def)
  next
    case 4
    then have "cp div 262144 < 8" using assms by (simp add: less_mult_imp_div_less scalar_def)
    with 4 show ?thesis by (simp add: utf8_bytes_def cont_def utf8_need_def)
  qed
qed

subsection \<open>Conversion\<close>

lemma next_cp_scalar:
  "\<lbrakk>u < 65536; next_cp u us = (cp, k)\<rbrakk> \<Longrightarrow> u \<noteq> 0 \<Longrightarrow> scalar cp \<and> cp \<noteq> 0 \<and> 0 < k"
  by (auto simp: next_cp_def is_high_def is_low_def scalar_def push_bit_eq_mult split: if_splits)

lemma diag_loop_valid:
  "\<forall>u \<in> set us. u < 65536 \<Longrightarrow>
     (\<exists>cps. list_all (\<lambda>c. scalar c \<and> c \<noteq> 0) cps \<and> diag_loop n o1 us = concat (map utf8_bytes cps)) \<and>
     (o1 < n \<longrightarrow> o1 + length (diag_loop n o1 us) < n)"
proof (induction n o1 us rule: diag_loop.induct)
  case (1 n o1)
  have "list_all (\<lambda>c. scalar c \<and> c \<noteq> 0) [] \<and> diag_loop n o1 [] = concat (map utf8_bytes [])" by simp
  then show ?case by (metis add.right_neutral diag_loop.simps(1) list.size(3))
next
  case (2 n o1 u us)
  obtain cp k where nc: "next_cp u us = (cp, k)" by (cases "next_cp u us")
  have nil: "\<exists>cps. list_all (\<lambda>c. scalar c \<and> c \<noteq> 0) cps \<and> [] = concat (map utf8_bytes cps)"
    by (intro exI [of _ "[]"]) simp
  show ?case
  proof (cases "u = 0 \<or> o1 + length (diag_bytes cp) \<ge> n")
    case True
    then have "diag_loop n o1 (u # us) = []" using nc by (auto simp: Let_def)
    with nil show ?thesis by simp
  next
    case False
    let ?rest = "diag_loop n (o1 + length (diag_bytes cp)) (drop (k - 1) us)"
    have step: "diag_loop n o1 (u # us) = diag_bytes cp @ ?rest" using False nc by (simp add: Let_def)
    have cp: "scalar cp" "cp \<noteq> 0" using next_cp_scalar [OF _ nc] "2.prems" False by auto
    have "\<forall>x \<in> set (drop (k - 1) us). x < 65536" using "2.prems" by (auto dest: in_set_dropD)
    from "2.IH" [OF _ nc [symmetric] refl _ this] False obtain cps where
      IH: "list_all (\<lambda>c. scalar c \<and> c \<noteq> 0) cps" "?rest = concat (map utf8_bytes cps)"
        "o1 + length (diag_bytes cp) + length ?rest < n" by auto
    have "list_all (\<lambda>c. scalar c \<and> c \<noteq> 0) (cp # cps)" using IH(1) cp by simp
    moreover have "diag_loop n o1 (u # us) = concat (map utf8_bytes (cp # cps))"
      unfolding step using IH(2) diag_bytes_utf8 [OF scalar_le [OF cp(1)]] by simp
    ultimately show ?thesis using IH(3) unfolding step by (metis add.assoc length_append)
  qed
qed

lemma next_cp_units:
  assumes "scalar cp"
  shows "\<exists>u us. utf16_units cp = u # us \<and> next_cp u (us @ rest) = (cp, Suc (length us)) \<and> (cp \<noteq> 0 \<longrightarrow> u \<noteq> 0)"
proof (cases "cp \<ge> 65536")
  case True
  define d where "d = cp - 65536"
  have d: "cp = 65536 + d" "d < 1048576" using True assms by (simp_all add: d_def scalar_def)
  then have "d div 1024 < 1024" by (simp add: less_mult_imp_div_less)
  then have "is_high (55296 + d div 1024)" "is_low (56320 + d mod 1024)"
    by (simp_all add: is_high_def is_low_def less_Suc_eq_le [symmetric])
  moreover have "65536 + d div 1024 * 1024 + d mod 1024 = cp" using d by simp
  ultimately show ?thesis using True by (simp add: utf16_units_def next_cp_def push_bit_eq_mult d_def [symmetric])
next
  case False
  then show ?thesis using assms by (auto simp: utf16_units_def next_cp_def is_high_def scalar_def)
qed

lemma diag_loop_exact:
  "list_all (\<lambda>c. scalar c \<and> c \<noteq> 0) cps \<Longrightarrow> o1 < n \<Longrightarrow>
     \<exists>k \<le> length cps. diag_loop n o1 (concat (map utf16_units cps)) = concat (map utf8_bytes (take k cps)) \<and>
       (k < length cps \<longrightarrow> n \<le> o1 + length (concat (map utf8_bytes (take (Suc k) cps))))"
proof (induction cps arbitrary: o1)
  case Nil
  then show ?case by simp
next
  case (Cons cp cps)
  have cp: "scalar cp" "cp \<noteq> 0" using Cons.prems by simp_all
  obtain u us where u: "utf16_units cp = u # us" "next_cp u (us @ concat (map utf16_units cps)) = (cp, Suc (length us))" "u \<noteq> 0"
    using next_cp_units [OF cp(1), of "concat (map utf16_units cps)"] cp(2) by blast
  note b = diag_bytes_utf8 [OF scalar_le [OF cp(1)]]
  show ?case
  proof (cases "o1 + length (utf8_bytes cp) \<ge> n")
    case True
    then have "diag_loop n o1 (concat (map utf16_units (cp # cps))) = []" using u b by (simp add: Let_def)
    with True show ?thesis by (intro exI [of _ 0]) simp
  next
    case False
    then have "diag_loop n o1 (concat (map utf16_units (cp # cps))) =
        utf8_bytes cp @ diag_loop n (o1 + length (utf8_bytes cp)) (concat (map utf16_units cps))"
      using u b by (simp add: Let_def)
    moreover obtain k where "k \<le> length cps"
        "diag_loop n (o1 + length (utf8_bytes cp)) (concat (map utf16_units cps)) = concat (map utf8_bytes (take k cps))"
        "k < length cps \<longrightarrow> n \<le> o1 + length (utf8_bytes cp) + length (concat (map utf8_bytes (take (Suc k) cps)))"
      using Cons.IH [of "o1 + length (utf8_bytes cp)"] Cons.prems(1) False by auto
    ultimately show ?thesis by (intro exI [of _ "Suc k"]) (simp add: add.assoc)
  qed
qed

subsection \<open>Cutting and joining well-formed text\<close>

lemma utf8_text_Nil [simp]: "utf8_text []"
  unfolding utf8_text_def by (intro exI [of _ "[]"]) simp

lemma utf8_text_append: "utf8_text a \<Longrightarrow> utf8_text b \<Longrightarrow> utf8_text (a @ b)"
proof -
  assume "utf8_text a" "utf8_text b"
  then obtain as bs where "list_all (\<lambda>c. scalar c \<and> c \<noteq> 0) (as @ bs)" "map byte a = concat (map utf8_bytes as)"
      "map byte b = concat (map utf8_bytes bs)" unfolding utf8_text_def by auto
  then show ?thesis unfolding utf8_text_def by (intro exI [of _ "as @ bs"]) simp
qed

lemma utf8_text_ascii: "\<forall>c \<in> set s. 0 < byte c \<and> byte c < 128 \<Longrightarrow> utf8_text s"
proof -
  assume s: "\<forall>c \<in> set s. 0 < byte c \<and> byte c < 128"
  then have "concat (map utf8_bytes (map byte s)) = map byte s"
    by (induction s) (auto simp: utf8_bytes_def)
  with s show ?thesis unfolding utf8_text_def
    by (intro exI [of _ "map byte s"]) (auto simp: list_all_iff scalar_def)
qed

text \<open>What follows an ASCII character is well-formed again.\<close>

lemma utf8_bytes_low: "scalar cp \<Longrightarrow> utf8_bytes cp = c # bs \<Longrightarrow> c < 128 \<Longrightarrow> bs = []"
  by (auto simp: utf8_bytes_def split: if_splits)

lemma utf8_suffix:
  "concat (map utf8_bytes cps) = xs @ c # ys \<Longrightarrow> list_all scalar cps \<Longrightarrow> c < 128 \<Longrightarrow>
     \<exists>k. ys = concat (map utf8_bytes (drop k cps))"
proof (induction cps arbitrary: xs)
  case (Cons cp cps)
  obtain d bs where d: "utf8_bytes cp = d # bs" "\<forall>b \<in> set bs. cont b" using utf8_bytes_shape [of cp] Cons.prems(2) by auto
  have notc: "\<not> cont c"
  proof -
    have "c div 64 < 2" using Cons.prems(3) by (simp add: less_mult_imp_div_less)
    then show ?thesis by (simp add: cont_def)
  qed
  show ?case
  proof (cases xs)
    case Nil
    then have "d = c" "bs @ concat (map utf8_bytes cps) = ys" using Cons.prems(1) d(1) by simp_all
    moreover have "bs = []" using utf8_bytes_low [OF _ d(1)] Cons.prems(2,3) \<open>d = c\<close> by simp
    ultimately show ?thesis by (intro exI [of _ 1]) simp
  next
    case (Cons x xs')
    then have eq: "bs @ concat (map utf8_bytes cps) = xs' @ c # ys" using Cons.prems(1) d(1) by simp
    then consider us where "bs = xs' @ us" "us @ concat (map utf8_bytes cps) = c # ys"
      | us where "xs' = bs @ us" "concat (map utf8_bytes cps) = us @ c # ys"
      by (auto simp: append_eq_append_conv2)
    then show ?thesis
    proof cases
      case 1
      then show ?thesis
      proof (cases us)
        case Nil
        with 1 Cons.IH [of "[]"] Cons.prems(2,3) obtain k where "ys = concat (map utf8_bytes (drop k cps))" by auto
        then show ?thesis by (intro exI [of _ "Suc k"]) simp
      next
        case (Cons u us')
        with 1 d(2) notc show ?thesis by simp
      qed
    next
      case 2
      with Cons.IH [of us] Cons.prems(2,3) obtain k where "ys = concat (map utf8_bytes (drop k cps))" by auto
      then show ?thesis by (intro exI [of _ "Suc k"]) simp
    qed
  qed
qed simp

lemma utf8_text_after: "utf8_text (a @ c # b) \<Longrightarrow> byte c < 128 \<Longrightarrow> utf8_text b"
proof -
  assume t: "utf8_text (a @ c # b)" and c: "byte c < 128"
  then obtain cps where cps: "list_all (\<lambda>c. scalar c \<and> c \<noteq> 0) cps"
      "concat (map utf8_bytes cps) = map byte a @ byte c # map byte b" unfolding utf8_text_def by auto
  then have "list_all scalar cps" by (simp add: list_all_iff)
  from utf8_suffix [OF cps(2) this c] obtain k where "map byte b = concat (map utf8_bytes (drop k cps))" by blast
  moreover have "list_all (\<lambda>c. scalar c \<and> c \<noteq> 0) (drop k cps)"
    using cps(1) by (auto simp: list_all_iff dest: in_set_dropD)
  ultimately show ?thesis unfolding utf8_text_def by blast
qed

lemma skip_groups_valid: "utf8_text s \<Longrightarrow> utf8_text (skip_groups s)"
proof (induction s rule: skip_groups.induct)
  case (1 s)
  show ?case
  proof (cases "starts (CHR ''['') s")
    case False
    then show ?thesis using "1.prems" by (simp add: skip_groups.simps)
  next
    case st: True
    show ?thesis
    proof (cases "c_strchr s (CHR '']'')")
      case None
      then show ?thesis using st "1.prems" by (simp add: skip_groups.simps)
    next
      case (Some i)
      then have i: "i < length s" "s ! i = CHR '']''" using c_strchr_Some [OF Some] by simp_all
      then have "s = take i s @ CHR '']'' # drop (i + 1) s" using id_take_nth_drop [OF i(1)] by simp
      then have "utf8_text (drop (i + 1) s)"
        using "1.prems" utf8_text_after [of "take i s" "CHR '']''" "drop (i + 1) s"] by (simp add: byte_def)
      from "1.IH" [OF st Some this] st Some show ?thesis by (simp add: skip_groups.simps [of s])
    qed
  qed
qed

lemma dropWhile_space_valid: "utf8_text s \<Longrightarrow> utf8_text (dropWhile (\<lambda>c. c = CHR '' '') s)"
proof (induction s)
  case (Cons c s)
  then show ?case using utf8_text_after [of "[]" "CHR '' ''" s] by (auto simp: byte_def)
qed simp

text \<open>The clean-up of a text cut anywhere.\<close>

lemma and_192: "byte c AND 0xC0 = 0x80 \<longleftrightarrow> cont (byte c)"
proof -
  have "\<forall>b \<in> set [0..255]. (b AND 0xC0 = 0x80) = (b div 64 = (2 :: int))" by code_simp
  moreover have "int (byte c) \<in> set [0..255]" using byte_lt [of c] by (simp add: less_Suc_eq_le [symmetric] del: byte_lt)
  ultimately have "(int (byte c) AND 0xC0 = 0x80) = (int (byte c) div 64 = 2)" by blast
  moreover have "int (byte c AND 0xC0) = int (byte c) AND 0xC0" by (simp add: of_nat_and_eq)
  ultimately show ?thesis unfolding cont_def by linarith
qed

lemma cut_at:
  assumes "\<not> cont (byte c)" "\<forall>b \<in> set bs. cont (byte b)"
  shows "cut_incomplete (xs @ c # bs) = (if utf8_need (byte c) > Suc (length bs) then xs else xs @ c # bs)"
proof -
  have "takeWhile (\<lambda>c. byte c AND 0xC0 = 0x80) (rev (xs @ c # bs)) = rev bs"
    using assms by (simp add: and_192 takeWhile_append)
  then show ?thesis by (simp add: cut_incomplete_def Let_def nth_append)
qed

lemma take_concat_bytes:
  "list_all scalar cps \<Longrightarrow> \<exists>k p. take m (concat (map utf8_bytes cps)) = concat (map utf8_bytes (take k cps)) @ p \<and>
     (p = [] \<or> (\<exists>c bs. p = c # bs \<and> \<not> cont c \<and> (\<forall>b \<in> set bs. cont b) \<and> Suc (length bs) < utf8_need c))"
proof (induction cps arbitrary: m)
  case Nil
  then show ?case by simp
next
  case (Cons cp cps)
  obtain c bs where c: "utf8_bytes cp = c # bs" "\<not> cont c" "\<forall>b \<in> set bs. cont b" "utf8_need c = Suc (length bs)"
    using utf8_bytes_shape [of cp] Cons.prems by auto
  show ?case
  proof (cases "m < Suc (length bs)")
    case True
    show ?thesis
    proof (cases m)
      case 0
      then show ?thesis by (intro exI [of _ 0] exI [of _ "[]"]) simp
    next
      case (Suc m')
      with True c have "take m (concat (map utf8_bytes (cp # cps))) = c # take m' bs" by simp
      moreover have "\<forall>b \<in> set (take m' bs). cont b" "Suc (length (take m' bs)) < utf8_need c"
        using c True Suc by (auto dest: in_set_takeD)
      ultimately show ?thesis using c(2) by (intro exI [of _ 0] exI [of _ "c # take m' bs"]) simp
    qed
  next
    case False
    obtain k p where kp: "take (m - Suc (length bs)) (concat (map utf8_bytes cps)) = concat (map utf8_bytes (take k cps)) @ p"
        "p = [] \<or> (\<exists>c bs. p = c # bs \<and> \<not> cont c \<and> (\<forall>b \<in> set bs. cont b) \<and> Suc (length bs) < utf8_need c)"
      using Cons.IH [of "m - Suc (length bs)"] Cons.prems by auto
    have "take m (concat (map utf8_bytes (cp # cps))) = concat (map utf8_bytes (take (Suc k) (cp # cps))) @ p"
      using False kp(1) c(1) by (simp add: take_Cons')
    with kp(2) show ?thesis by blast
  qed
qed

lemma map_byte_eqD: "map byte s = xs @ ys \<Longrightarrow> \<exists>a b. s = a @ b \<and> map byte a = xs \<and> map byte b = ys"
  by (auto simp: map_eq_append_conv)

lemma cut_valid:
  assumes "utf8_text s"
  shows "utf8_text (cut_incomplete (take m s)) \<and> length (cut_incomplete (take m s)) \<le> m"
proof -
  obtain cps where cps: "list_all (\<lambda>c. scalar c \<and> c \<noteq> 0) cps" "map byte s = concat (map utf8_bytes cps)"
    using assms unfolding utf8_text_def by blast
  have sc: "list_all scalar cps" using cps(1) by (simp add: list_all_iff)
  obtain k p where kp: "take m (concat (map utf8_bytes cps)) = concat (map utf8_bytes (take k cps)) @ p"
      "p = [] \<or> (\<exists>c bs. p = c # bs \<and> \<not> cont c \<and> (\<forall>b \<in> set bs. cont b) \<and> Suc (length bs) < utf8_need c)"
    using take_concat_bytes [OF sc, of m] by blast
  have "map byte (take m s) = concat (map utf8_bytes (take k cps)) @ p" using kp(1) cps(2) by (simp add: take_map [symmetric])
  then obtain a b where ab: "take m s = a @ b" "map byte a = concat (map utf8_bytes (take k cps))" "map byte b = p"
    using map_byte_eqD by blast
  have ok: "list_all (\<lambda>c. scalar c \<and> c \<noteq> 0) (take k cps)" using cps(1) by (auto simp: list_all_iff dest: in_set_takeD)
  then have va: "utf8_text a" using ab(2) unfolding utf8_text_def by blast
  have la: "length a \<le> m" using arg_cong [OF ab(1), of length] by simp
  have "cut_incomplete (take m s) = a"
  proof (cases "p = []")
    case True
    with ab have t: "take m s = a" by simp
    show ?thesis
    proof (cases "take k cps" rule: rev_cases)
      case Nil
      with ab(2) have a: "a = []" by simp
      have "cut_incomplete [] = []" by (simp add: cut_incomplete_def)
      then show ?thesis unfolding t a .
    next
      case (snoc ds d)
      obtain c bs where c: "utf8_bytes d = c # bs" "\<not> cont c" "\<forall>b \<in> set bs. cont b" "utf8_need c = Suc (length bs)"
        using utf8_bytes_shape [of d] ok snoc by auto
      obtain x y where xy: "a = x @ y" "map byte y = c # bs" using ab(2) snoc c(1) map_byte_eqD [of a "concat (map utf8_bytes ds)" "c # bs"] by auto
      then obtain c' bs' where "y = c' # bs'" "byte c' = c" "map byte bs' = bs" by (auto simp: map_eq_Cons_conv)
      with cut_at [of c' bs' x] c xy t show ?thesis by auto
    qed
  next
    case False
    with kp(2) obtain c bs where c: "p = c # bs" "\<not> cont c" "\<forall>b \<in> set bs. cont b" "Suc (length bs) < utf8_need c" by blast
    then obtain c' bs' where "b = c' # bs'" "byte c' = c" "map byte bs' = bs" using ab(3) by (auto simp: map_eq_Cons_conv)
    with cut_at [of c' bs' a] c ab(1) show ?thesis by auto
  qed
  with va la show ?thesis by simp
qed

subsection \<open>The buffer of diagnostics\<close>

definition ascii :: "cstring \<Rightarrow> bool" where
  "ascii s \<longleftrightarrow> (\<forall>c \<in> set s. 0 < byte c \<and> byte c < 128)"

lemma ascii_append [simp]: "ascii (a @ b) \<longleftrightarrow> ascii a \<and> ascii b"
  by (auto simp: ascii_def)

lemma ascii_valid: "ascii s \<Longrightarrow> utf8_text s"
  by (simp add: ascii_def utf8_text_ascii)

lemma digit_ascii: "c_isdigit c \<Longrightarrow> 0 < byte c \<and> byte c < 128"
  by (auto simp: c_isdigit_def)

lemma dec_int_ascii: "ascii (dec_int i)"
  using dec_all_digits digit_ascii by (auto simp: ascii_def dec_int_def byte_def)

lemma state_ascii: "ascii (state_text us)"
proof -
  have "u AND 0x7F < 128" for u :: nat
    using take_bit_eq_mask [of 7 u] by (simp add: take_bit_eq_mod mask_eq_exp_minus_1)
  then have "\<forall>u \<in> set (takeWhile (\<lambda>u. u \<noteq> 0) (map (\<lambda>u. u AND 0x7F) (take 5 us))). 0 < u \<and> u < 128"
    by (auto dest!: set_takeWhileD)
  then show ?thesis by (auto simp: state_text_def ascii_def)
qed

text \<open>Units are 16 bits wide.\<close>

definition rec_ok :: "diag_rec \<Rightarrow> bool" where
  "rec_ok r \<longleftrightarrow> (\<forall>u \<in> set (rec_msg r). u < 65536)"

lemma convert_valid:
  assumes "\<forall>u \<in> set us. u < 65536" "0 < n"
  shows "utf8_text (diag_utf16_to_utf8 us n) \<and> length (diag_utf16_to_utf8 us n) < n"
proof -
  obtain cps where cps: "list_all (\<lambda>c. scalar c \<and> c \<noteq> 0) cps" "diag_loop n 0 us = concat (map utf8_bytes cps)"
      and len: "length (diag_loop n 0 us) < n"
    using diag_loop_valid [OF assms(1), of n 0] assms(2) by auto
  from cps(1) have "list_all scalar cps" by (simp add: list_all_iff)
  from bytes_back [OF this] cps len show ?thesis
    unfolding utf8_text_def diag_utf16_to_utf8_def by (metis length_map)
qed

lemma rec_text_valid: "rec_ok r \<Longrightarrow> utf8_text (rec_text r)"
proof -
  assume "rec_ok r"
  then have "\<forall>u \<in> set (take (min (nat (rec_len r)) 1023) (rec_msg r)). u < 65536"
    by (auto simp: rec_ok_def dest: in_set_takeD)
  from convert_valid [OF this, of 3072] show ?thesis
    unfolding rec_text_def Let_def by (intro dropWhile_space_valid skip_groups_valid) simp
qed

lemma diag_records_valid:
  "utf8_text out \<Longrightarrow> length out < n \<Longrightarrow> \<forall>r \<in> set rs. rec_ok r \<Longrightarrow>
     utf8_text (diag_records n out rs) \<and> length (diag_records n out rs) < n"
proof (induction n out rs rule: diag_records.induct)
  case (2 n out r rs)
  define piece where "piece = (if out \<noteq> [] then '' | '' else []) @ ''SQLSTATE '' @ state_text (rec_state r) @ '' [native '' @
      dec_int (rec_native r) @ '']: '' @ rec_text r"
  define front where "front = (if out \<noteq> [] then '' | '' else []) @ ''SQLSTATE '' @ state_text (rec_state r) @ '' [native '' @
      dec_int (rec_native r) @ '']: ''"
  have "ascii front" using state_ascii dec_int_ascii by (auto simp: front_def ascii_def byte_def)
  moreover have "piece = front @ rec_text r" by (simp add: piece_def front_def)
  ultimately have "utf8_text piece"
    using utf8_text_append [OF ascii_valid rec_text_valid] "2.prems"(3) by simp
  then have v: "utf8_text (out @ piece)" by (rule utf8_text_append [OF "2.prems"(1)])
  show ?case
  proof (cases "length piece \<ge> n - length out")
    case True
    then have "diag_records n out (r # rs) = cut_incomplete (take (n - 1) (out @ piece))"
      by (simp add: piece_def Let_def)
    then show ?thesis
      using conjunct1 [OF cut_valid [OF v, of "n - 1"]] conjunct2 [OF cut_valid [OF v, of "n - 1"]] "2.prems"(2)
      by (simp only: simp_thms)
  next
    case False
    then have "diag_records n out (r # rs) = diag_records n (out @ piece) rs"
      by (simp add: piece_def Let_def)
    with "2.IH" [OF piece_def _ v] False "2.prems" show ?thesis by simp
  qed
qed simp

subsection \<open>Reading a connection string\<close>

fun read_braced :: "cstring \<Rightarrow> (cstring \<times> cstring) option" where
  "read_braced [] = None"
| "read_braced [c] = (if c = CHR ''}'' then Some ([], []) else None)"
| "read_braced (c # d # p) =
     (if c = CHR ''}'' then
        (if d = CHR ''}'' then map_option (\<lambda>(n, r). (CHR ''}'' # n, r)) (read_braced p) else Some ([], d # p))
      else map_option (\<lambda>(n, r). (c # n, r)) (read_braced (d # p)))"

lemma read_braced_escape:
  "\<not> starts (CHR ''}'') rest \<Longrightarrow> read_braced (escape_close (CHR ''}'') k @ CHR ''}'' # rest) = Some (k, rest)"
proof (induction k)
  case Nil
  then show ?case by (cases rest) auto
next
  case (Cons c k)
  show ?case
  proof (cases "c = CHR ''}''")
    case True
    with Cons show ?thesis by simp
  next
    case False
    obtain d p where "escape_close (CHR ''}'') k @ CHR ''}'' # rest = d # p"
      by (cases "escape_close (CHR ''}'') k @ CHR ''}'' # rest") auto
    with Cons False show ?thesis by simp
  qed
qed

lemma brace_loop_exact:
  "brace_loop n out k = (if k \<noteq> [] \<and> length out + length (escape_close (CHR ''}'') k) + 1 \<ge> n then None
     else Some (out @ escape_close (CHR ''}'') k))"
  by (induction n out k rule: brace_loop.induct) (auto simp: Let_def)

definition braced :: "cstring \<Rightarrow> cstring" where
  "braced v = ''{'' @ escape_close (CHR ''}'') v @ ''}''"

lemma put_braced_exact:
  "put_braced n v (Some o1) = (if length (o1 @ braced v) < n then Some (o1 @ braced v) else None)"
  by (auto simp: put_braced_def brace_loop_exact braced_def)

lemma put_text_exact: "length o1 < n \<Longrightarrow> put_text n s (Some o1) = (if length (o1 @ s) < n then Some (o1 @ s) else None)"
  by (auto simp: put_text_def)

lemma put_None [simp]: "put_text n s None = None" "put_braced n s None = None"
  by (simp_all add: put_text_def put_braced_def)

lemma connection_string_exact:
  "mssql_connection_string ini b n =
     (let s = conn_head ini @ braced (cs_dbname ini) @ '';UID='' @ braced (cs_username ini) @ '';PWD='' @
              (if b then ''***'' else braced (cs_password ini)) @ conn_tail ini
      in if length s < n then Some s else None)"
  unfolding mssql_connection_string_def Let_def
  by (auto simp: put_braced_exact put_text_exact split: if_splits)

subsection \<open>Properties\<close>

text \<open>
  \<^verbatim>\<open>diag_utf16_to_utf8\<close> agrees with the reference encoder: for the UTF-16 text of any
  characters it writes their UTF-8 text, as many whole characters as fit the buffer and no part of another;
  and \<^verbatim>\<open>utf8_to_wide\<close>, which carries the text the other way, gives the same units back.
\<close>

theorem diag_text_exact:
  assumes "list_all (\<lambda>c. scalar c \<and> c \<noteq> 0) cps" "0 < n"
  shows "\<exists>k \<le> length cps.
    map byte (diag_utf16_to_utf8 (concat (map utf16_units cps)) n) = concat (map utf8_bytes (take k cps)) \<and>
    length (diag_utf16_to_utf8 (concat (map utf16_units cps)) n) < n \<and>
    (k < length cps \<longrightarrow> n \<le> length (concat (map utf8_bytes (take (Suc k) cps)))) \<and>
    utf8_to_wide (diag_utf16_to_utf8 (concat (map utf16_units cps)) n) = concat (map utf16_units (take k cps))"
proof -
  obtain k where k: "k \<le> length cps" "diag_loop n 0 (concat (map utf16_units cps)) = concat (map utf8_bytes (take k cps))"
      "k < length cps \<longrightarrow> n \<le> length (concat (map utf8_bytes (take (Suc k) cps)))"
    using diag_loop_exact [OF assms] by auto
  have ok: "list_all scalar (take k cps)" using assms(1) by (auto simp: list_all_iff dest: in_set_takeD)
  have b: "map byte (diag_utf16_to_utf8 (concat (map utf16_units cps)) n) = concat (map utf8_bytes (take k cps))"
    using bytes_back [OF ok] k(2) by (simp add: diag_utf16_to_utf8_def)
  have "list_all scalar xs \<Longrightarrow> wide_loop (concat (map utf8_bytes xs)) = concat (map utf16_units xs)" for xs
    by (induction xs) (auto simp: wide_loop_char)
  note w = this [OF ok]
  have u: "\<forall>u \<in> set (concat (map utf16_units cps)). u < 65536"
    using assms(1) by (auto simp: list_all_iff utf16_units_def scalar_def less_mult_imp_div_less split: if_splits)
  show ?thesis
    using k(1,3) b w convert_valid [OF u assms(2)] by (auto simp: utf8_to_wide_def)
qed

lemma diag_text_exact_witness:
  "\<exists>k \<le> length [0x53, 0xE9, 0x1F600 :: nat].
     map byte (diag_utf16_to_utf8 [0x53, 0xE9, 0xD83D, 0xDE00] 7) = concat (map utf8_bytes (take k [0x53, 0xE9, 0x1F600])) \<and>
     length (diag_utf16_to_utf8 [0x53, 0xE9, 0xD83D, 0xDE00] 7) < 7 \<and>
     (k < length [0x53, 0xE9, 0x1F600 :: nat] \<longrightarrow> 7 \<le> length (concat (map utf8_bytes (take (Suc k) [0x53, 0xE9, 0x1F600])))) \<and>
     utf8_to_wide (diag_utf16_to_utf8 [0x53, 0xE9, 0xD83D, 0xDE00] 7) = concat (map utf16_units (take k [0x53, 0xE9, 0x1F600]))"
proof -
  have u: "concat (map utf16_units [0x53, 0xE9, 0x1F600]) = [0x53, 0xE9, 0xD83D, 0xDE00]" by (simp add: utf16_units_def)
  have "list_all (\<lambda>c. scalar c \<and> c \<noteq> 0) [0x53, 0xE9, 0x1F600]" "0 < (7 :: nat)" by (simp_all add: scalar_def)
  from diag_text_exact [OF this, unfolded u] show ?thesis .
qed

text \<open>C40. The diagnostic text the gateway logs and returns is always well-formed UTF-8 without a NUL and
  fits its buffer, whatever units the server sent (lone surrogates included), however many records there
  are and wherever the buffer cuts the last of them.\<close>

theorem mssql_diag_well_formed:
  assumes "0 < n" "\<forall>r \<in> set recs. rec_ok r"
  shows "\<exists>s. mssql_diag n recs = Some s \<and> utf8_text s \<and> length s < n"
proof -
  have "\<forall>r \<in> set (take 19 recs). rec_ok r" using assms(2) by (auto dest: in_set_takeD)
  from diag_records_valid [OF utf8_text_Nil _ this, of n] assms(1) show ?thesis by (simp add: mssql_diag_def)
qed

lemma mssql_diag_well_formed_witness:
  "\<exists>s. mssql_diag 40 [\<lparr>rec_state = [52, 50, 83, 48, 50], rec_native = 208, rec_msg = [91, 77, 93, 78, 0x20AC, 0xD800, 0x20AC],
     rec_len = 7\<rparr>] = Some s \<and> utf8_text s \<and> length s < 40"
  by (rule mssql_diag_well_formed) (simp_all add: rec_ok_def)

text \<open>C39. Reading the connection string the way the driver does, braces included, gives back exactly the
  configured database, user and password, whatever characters they contain, with nothing in between that
  was not written by the code; and the masked string that is logged does not depend on the password.\<close>

theorem connection_string_reads_back:
  assumes "mssql_connection_string ini False n = Some s"
  shows "length s < n \<and>
    (\<exists>r1 r2 r3. s = conn_head ini @ ''{'' @ r1 \<and> read_braced r1 = Some (cs_dbname ini, '';UID={'' @ r2) \<and>
       read_braced r2 = Some (cs_username ini, '';PWD={'' @ r3) \<and> read_braced r3 = Some (cs_password ini, conn_tail ini)) \<and>
    mssql_connection_string (ini\<lparr>cs_password := x\<rparr>) True m = mssql_connection_string ini True m"
proof -
  let ?e = "\<lambda>v. escape_close (CHR ''}'') v @ ''}''"
  define r3 where "r3 = ?e (cs_password ini) @ conn_tail ini"
  define r2 where "r2 = ?e (cs_username ini) @ '';PWD={'' @ r3"
  define r1 where "r1 = ?e (cs_dbname ini) @ '';UID={'' @ r2"
  have s: "s = conn_head ini @ ''{'' @ r1" "length s < n"
    using assms by (auto simp: connection_string_exact Let_def braced_def r1_def r2_def r3_def split: if_splits)
  have "read_braced r1 = Some (cs_dbname ini, '';UID={'' @ r2)"
    using read_braced_escape [of "'';UID={'' @ r2" "cs_dbname ini"] by (simp add: r1_def)
  moreover have "read_braced r2 = Some (cs_username ini, '';PWD={'' @ r3)"
    using read_braced_escape [of "'';PWD={'' @ r3" "cs_username ini"] by (simp add: r2_def)
  moreover have "read_braced r3 = Some (cs_password ini, conn_tail ini)"
    using read_braced_escape [of "conn_tail ini" "cs_password ini"] by (simp add: r3_def conn_tail_def)
  moreover have "mssql_connection_string (ini\<lparr>cs_password := x\<rparr>) True m = mssql_connection_string ini True m"
    by (simp add: connection_string_exact conn_head_def conn_tail_def)
  ultimately show ?thesis using s by blast
qed

definition test_conn :: conn_cfg where
  "test_conn = \<lparr>cs_server = ''db'', cs_port = 0, cs_dbname = ''d'', cs_username = ''u};PWD={x'', cs_password = ''p'',
     cs_trust = False\<rparr>"

lemma connection_string_reads_back_witness:
  "\<exists>s r1 r2 r3. mssql_connection_string test_conn False 1024 = Some s \<and> s = conn_head test_conn @ ''{'' @ r1 \<and>
     read_braced r1 = Some (''d'', '';UID={'' @ r2) \<and> read_braced r2 = Some (''u};PWD={x'', '';PWD={'' @ r3)"
proof -
  have "case mssql_connection_string test_conn False 1024 of Some s \<Rightarrow> True | None \<Rightarrow> False" by code_simp
  then obtain s where s: "mssql_connection_string test_conn False 1024 = Some s" by (auto split: option.splits)
  have d: "cs_dbname test_conn = ''d''" "cs_username test_conn = ''u};PWD={x''" by (simp_all add: test_conn_def)
  note r = conjunct1 [OF conjunct2 [OF connection_string_reads_back [OF s, unfolded d]]]
  from r s show ?thesis by (elim exE conjE) (intro exI conjI)
qed

end
