(* ===== verification/C_Parsing.thy ===== *)
theory C_Parsing
  imports C_Prelude
begin

text \<open>
  The C library's parsers that the sessions, the authorization and the configuration use: \<^verbatim>\<open>strtol\<close>
  in base 10 with \<^verbatim>\<open>atol\<close> and \<^verbatim>\<open>atoi\<close>, and \<^verbatim>\<open>strtok\<close> with one delimiter. \<^verbatim>\<open>long\<close> has 64
  bits, \<^verbatim>\<open>int\<close> has 32.
\<close>

subsection \<open>strtol\<close>

definition LONG_MAX :: int where "LONG_MAX = 2 ^ 63 - 1"

definition LONG_MIN :: int where "LONG_MIN = - (2 ^ 63)"

definition clamp_long :: "int \<Rightarrow> int" where
  "clamp_long i = max LONG_MIN (min LONG_MAX i)"

definition dec_value :: "cstring \<Rightarrow> int" where
  "dec_value ds = foldl (\<lambda>v c. 10 * v + (int (byte c) - 48)) 0 ds"

definition sign_of :: "cstring \<Rightarrow> bool \<times> cstring" where
  "sign_of s =
     (case s of
        [] \<Rightarrow> (False, s)
      | c # t \<Rightarrow> if c = CHR ''-'' then (True, t) else if c = CHR ''+'' then (False, t) else (False, s))"

text \<open>The value and the end pointer; without a digit the end pointer is the start.\<close>

definition c_strtol :: "cstring \<Rightarrow> int \<times> cstring" where
  "c_strtol s =
     (case sign_of (dropWhile c_isspace s) of
        (neg, u) \<Rightarrow>
          let ds = takeWhile c_isdigit u in
          if ds = [] then (0, s)
          else (clamp_long (if neg then - dec_value ds else dec_value ds), dropWhile c_isdigit u))"

definition to_int :: "int \<Rightarrow> int" where
  "to_int v = sint (word_of_int v :: 32 word)"

definition c_atol :: "cstring \<Rightarrow> int" where
  "c_atol s = fst (c_strtol s)"

definition c_atoi :: "cstring \<Rightarrow> int" where
  "c_atoi s = to_int (c_atol s)"

lemma clamp_long_id: "LONG_MIN \<le> i \<Longrightarrow> i \<le> LONG_MAX \<Longrightarrow> clamp_long i = i"
  by (simp add: clamp_long_def)

lemma to_int_id: "- (2 ^ 31) \<le> v \<Longrightarrow> v < 2 ^ 31 \<Longrightarrow> to_int v = v"
  by (simp add: to_int_def sint_sbintrunc' signed_take_bit_int_eq_self_iff)

lemma to_int_range: "- (2 ^ 31) \<le> to_int v \<and> to_int v < 2 ^ 31"
  using sint_range_size [of "word_of_int v :: 32 word"] by (simp add: to_int_def word_size)

lemma dec_value_snoc: "dec_value (ds @ [c]) = 10 * dec_value ds + (int (byte c) - 48)"
  by (simp add: dec_value_def)

lemma dec_value_dec: "dec_value (dec n) = int n"
proof (induction n rule: dec.induct)
  case (1 n)
  show ?case
  proof (cases "n < 10")
    case True
    then show ?thesis by (simp add: dec.simps [of n] dec_value_def)
  next
    case False
    then have "dec_value (dec n) = 10 * int (n div 10) + int (n mod 10)"
      using 1 by (simp add: dec.simps [of n] dec_value_snoc)
    also have "\<dots> = int (10 * (n div 10) + n mod 10)" by (simp only: of_nat_add of_nat_mult of_nat_numeral)
    finally show ?thesis by simp
  qed
qed

lemma digits_span:
  "\<forall>c \<in> set ds. c_isdigit c \<Longrightarrow> rest = [] \<or> \<not> c_isdigit (hd rest) \<Longrightarrow>
     takeWhile c_isdigit (ds @ rest) = ds \<and> dropWhile c_isdigit (ds @ rest) = rest"
  by (induction ds) (cases rest; auto)+

lemma dec_hd: "\<exists>c t. dec n = c # t \<and> c_isdigit c"
  using dec_all_digits [of "hd (dec n)" n] dec_nonempty [of n] by (cases "dec n") auto

lemma digit_not_sep: "c_isdigit c \<Longrightarrow> c \<noteq> CHR ''-'' \<and> c \<noteq> CHR ''+'' \<and> c \<noteq> CHR ''|''"
  by (auto simp: c_isdigit_def byte_def)

text \<open>Reading back what \<^verbatim>\<open>%ld\<close> and \<^verbatim>\<open>%d\<close> print.\<close>

lemma c_strtol_dec_int:
  assumes "rest = [] \<or> \<not> c_isdigit (hd rest)"
  shows "c_strtol (dec_int i @ rest) = (clamp_long i, rest)"
proof -
  have span: "takeWhile c_isdigit (dec n @ rest) = dec n" "dropWhile c_isdigit (dec n @ rest) = rest" for n
    using digits_span [of "dec n" rest] dec_all_digits assms by blast+
  show ?thesis
  proof (cases "i < 0")
    case True
    have "sign_of (CHR ''-'' # dec (nat (- i)) @ rest) = (True, dec (nat (- i)) @ rest)" by (simp add: sign_of_def)
    with True span show ?thesis by (simp add: c_strtol_def dec_int_def dec_value_dec Let_def)
  next
    case False
    obtain c t where c: "dec (nat i) = c # t" "c_isdigit c" using dec_hd by blast
    then have "sign_of (dec (nat i) @ rest) = (False, dec (nat i) @ rest)" "dropWhile c_isspace (dec (nat i) @ rest) = dec (nat i) @ rest"
      using digit_not_sep [OF c(2)] by (simp_all add: sign_of_def)
    with False span show ?thesis by (simp add: c_strtol_def dec_int_def dec_value_dec Let_def)
  qed
qed

lemma c_atol_dec_int: "LONG_MIN \<le> i \<Longrightarrow> i \<le> LONG_MAX \<Longrightarrow> c_atol (dec_int i) = i"
  using c_strtol_dec_int [of "[]" i] by (simp add: c_atol_def clamp_long_id)

lemma c_atoi_dec_int: "- (2 ^ 31) \<le> i \<Longrightarrow> i < 2 ^ 31 \<Longrightarrow> c_atoi (dec_int i) = i"
  using c_atol_dec_int [of i] by (simp add: c_atoi_def to_int_id LONG_MIN_def LONG_MAX_def)

lemma dec_int_chars: "c \<in> set (dec_int i) \<Longrightarrow> c_isdigit c \<or> c = CHR ''-''"
  by (auto simp: dec_int_def dec_all_digits split: if_splits)

lemma dec_int_nonempty [simp]: "dec_int i \<noteq> []"
  by (simp add: dec_int_def)

lemma length_dec_int_long: "LONG_MIN \<le> i \<Longrightarrow> i \<le> LONG_MAX \<Longrightarrow> length (dec_int i) \<le> 20"
  using length_dec_le [of "nat i" 19] length_dec_le [of "nat (- i)" 19]
  by (auto simp: dec_int_def LONG_MIN_def LONG_MAX_def nat_less_iff)

lemma length_dec_int_int: "- (2 ^ 31) \<le> i \<Longrightarrow> i < 2 ^ 31 \<Longrightarrow> length (dec_int i) \<le> 11"
  using length_dec_le [of "nat i" 10] length_dec_le [of "nat (- i)" 10]
  by (auto simp: dec_int_def nat_less_iff)

subsection \<open>strtok\<close>

text \<open>One call of \<^verbatim>\<open>strtok\<close>: the token and where the next call continues.\<close>

definition c_strtok :: "char \<Rightarrow> cstring \<Rightarrow> (cstring \<times> cstring) option" where
  "c_strtok d s =
     (let t = dropWhile (\<lambda>c. c = d) s in
      if t = [] then None
      else Some (takeWhile (\<lambda>c. c \<noteq> d) t, drop 1 (dropWhile (\<lambda>c. c \<noteq> d) t)))"

text \<open>All the tokens that repeated calls return.\<close>

function c_tokens :: "char \<Rightarrow> cstring \<Rightarrow> cstring list" where
  "c_tokens d s = (case c_strtok d s of None \<Rightarrow> [] | Some (t, rest) \<Rightarrow> t # c_tokens d rest)"
  by pat_completeness auto

lemma length_dropWhile_le: "length (dropWhile P xs) \<le> length xs"
  by (induction xs) auto

lemma c_strtok_shrinks: "c_strtok d s = Some (t, rest) \<Longrightarrow> length rest < length s"
proof -
  assume "c_strtok d s = Some (t, rest)"
  then have r: "dropWhile (\<lambda>c. c = d) s \<noteq> []" "rest = drop 1 (dropWhile (\<lambda>c. c \<noteq> d) (dropWhile (\<lambda>c. c = d) s))"
    by (auto simp: c_strtok_def Let_def split: if_splits)
  from r(2) have "length rest \<le> length (dropWhile (\<lambda>c. c = d) s) - 1"
    using length_dropWhile_le [of "\<lambda>c. c \<noteq> d" "dropWhile (\<lambda>c. c = d) s"] by simp
  moreover have "0 < length (dropWhile (\<lambda>c. c = d) s)" using r(1) by simp
  ultimately show ?thesis using length_dropWhile_le [of "\<lambda>c. c = d" s] by linarith
qed

termination c_tokens by (relation "measure (\<lambda>(d, s). length s)") (auto dest: c_strtok_shrinks)

declare c_tokens.simps [simp del]

lemma c_tokens_Nil [simp]: "c_tokens d [] = []"
  by (simp add: c_tokens.simps c_strtok_def)

lemma strtok_first:
  assumes "a \<noteq> []" "d \<notin> set a"
  shows "c_strtok d (a @ d # rest) = Some (a, rest)" "c_strtok d a = Some (a, [])"
proof -
  have "hd a \<noteq> d" using assms by (metis hd_in_set)
  then have k: "dropWhile (\<lambda>c. c = d) (a @ ys) = a @ ys" for ys using assms(1) by (cases a) auto
  have t: "takeWhile (\<lambda>c. c \<noteq> d) (a @ d # rest) = a" "dropWhile (\<lambda>c. c \<noteq> d) (a @ d # rest) = d # rest"
    using assms(2) by (induction a) auto
  show "c_strtok d (a @ d # rest) = Some (a, rest)" using k [of "d # rest"] t assms(1) by (simp add: c_strtok_def Let_def)
  have "takeWhile (\<lambda>c. c \<noteq> d) a = a" "dropWhile (\<lambda>c. c \<noteq> d) a = []" using assms(2) by (induction a) auto
  then show "c_strtok d a = Some (a, [])"
    using k [of "[]"] assms(1) unfolding c_strtok_def Let_def by (simp only: append_Nil2) simp
qed

lemma c_tokens_first:
  assumes "a \<noteq> []" "d \<notin> set a"
  shows "c_tokens d (a @ d # rest) = a # c_tokens d rest" "c_tokens d a = [a]"
  using strtok_first [OF assms] by (simp_all add: c_tokens.simps [of d "a @ d # rest"] c_tokens.simps [of d a])

text \<open>The fields of a record joined by the delimiter are the tokens, when none is empty or holds it.\<close>

fun join_with :: "char \<Rightarrow> cstring list \<Rightarrow> cstring" where
  "join_with d [] = []"
| "join_with d [a] = a"
| "join_with d (a # b # r) = a @ d # join_with d (b # r)"

lemma c_tokens_join: "\<forall>a \<in> set as. a \<noteq> [] \<and> d \<notin> set a \<Longrightarrow> c_tokens d (join_with d as) = as"
  by (induction d as rule: join_with.induct) (simp_all add: c_tokens_first)

lemma join_with_Cons: "as \<noteq> [] \<Longrightarrow> join_with d (a # as) = a @ d # join_with d as"
  by (cases as) auto

lemma join_with_snoc: "as \<noteq> [] \<Longrightarrow> join_with d (as @ [a]) = join_with d as @ d # a"
  by (induction d as rule: join_with.induct) (auto simp: join_with_Cons)

lemma join_with_eq_Nil: "\<forall>a \<in> set as. a \<noteq> [] \<Longrightarrow> join_with d as = [] \<longleftrightarrow> as = []"
  by (cases as; cases "tl as") (auto simp: join_with_Cons)

end
