(* ===== verification/Cache_Store.thy ===== *)
theory Cache_Store
  imports Cache_Runs
begin

text \<open>
  What the modules that keep their records in a cache (\<^verbatim>\<open>session_cache.c\<close>, \<^verbatim>\<open>authz_cache.c\<close>) rely on,
  as a locale: a store of documents with an expiry time, whose entries are borrowed and given back. The
  abstract state of a store is its view: for every key the document, its expiry time and whether it is
  borrowed. \<open>cache.c\<close> provides it.
\<close>

subsection \<open>Views\<close>

type_synonym slot_view = "(cstring \<times> int \<times> bool) option"

text \<open>What a lookup at a given time finds.\<close>

definition live :: "int \<Rightarrow> slot_view \<Rightarrow> cstring option" where
  "live now v =
     (case v of None \<Rightarrow> None | Some (doc, ex, b) \<Rightarrow> if ex > 0 \<and> now \<ge> ex then None else Some doc)"

definition mark :: "bool \<Rightarrow> slot_view \<Rightarrow> slot_view" where
  "mark b v = map_option (\<lambda>(doc, ex, _). (doc, ex, b)) v"

definition lapse :: "int \<Rightarrow> slot_view \<Rightarrow> slot_view" where
  "lapse now v = map_option (\<lambda>(doc, ex, b). (doc, past_ts now, b)) v"

definition lent :: "slot_view \<Rightarrow> bool" where
  "lent v \<longleftrightarrow> (case v of None \<Rightarrow> False | Some (_, _, b) \<Rightarrow> b)"

text \<open>From time \<open>t\<close> on no lookup finds anything.\<close>

definition gone :: "int \<Rightarrow> slot_view \<Rightarrow> bool" where
  "gone t v \<longleftrightarrow> (case v of None \<Rightarrow> True | Some (_, ex, _) \<Rightarrow> 0 < ex \<and> ex \<le> t)"

lemma live_mark [simp]: "live now (mark b v) = live now v"
  by (auto simp: live_def mark_def split: option.splits)

lemma gone_mark [simp]: "gone t (mark b v) = gone t v"
  by (auto simp: gone_def mark_def split: option.splits)

lemma lent_mark: "lent (mark b v) \<longleftrightarrow> b \<and> v \<noteq> None"
  by (auto simp: lent_def mark_def split: option.splits)

lemma gone_lapse: "2 \<le> t \<Longrightarrow> gone t (lapse t v)"
  by (auto simp: gone_def lapse_def past_ts_def split: option.splits)

lemma gone_live: "gone t v \<Longrightarrow> t \<le> now \<Longrightarrow> live now v = None"
  by (auto simp: gone_def live_def split: option.splits)

lemma gone_None [simp]: "gone t None"
  by (simp add: gone_def)

lemma gone_mono: "gone t v \<Longrightarrow> t \<le> u \<Longrightarrow> gone u v"
  by (auto simp: gone_def split: option.splits)

lemma live_fresh: "live now (Some (doc, if l > 0 then t + l else 0, b)) = (if 0 < l \<and> 0 < t + l \<and> t + l \<le> now then None else Some doc)"
  by (auto simp: live_def)

subsection \<open>The contract\<close>

locale expiring_store =
  fixes ok :: "'s \<Rightarrow> bool"
    and view :: "'s \<Rightarrow> cstring \<Rightarrow> slot_view"
    and look :: "'s \<Rightarrow> cstring \<Rightarrow> int \<Rightarrow> nat \<Rightarrow> 's \<times> (nat \<times> cstring) option"
    and give_back :: "'s \<Rightarrow> nat \<Rightarrow> 's option"
    and put :: "'s \<Rightarrow> cstring \<Rightarrow> cstring \<Rightarrow> 'o \<Rightarrow> int \<Rightarrow> nat option \<Rightarrow> int \<times> 's"
    and life :: "'s \<Rightarrow> 'o \<Rightarrow> int"
    and expire :: "'s \<Rightarrow> cstring \<Rightarrow> int \<Rightarrow> 's"
    and sweep :: "'s \<Rightarrow> int \<Rightarrow> 's"
    and fresh :: "'s \<Rightarrow> nat option \<Rightarrow> bool"
  assumes look_law: "ok s \<Longrightarrow> look s k now us = (t, r) \<Longrightarrow>
      (case live now (view s k) of
         None \<Rightarrow> r = None \<and> ok t \<and> view t = view s
       | Some doc \<Rightarrow> \<exists>h u. r = Some (h, doc) \<and> ok t \<and> view t = (view s)(k := mark True (view s k)) \<and>
           give_back t h = Some u \<and> ok u \<and> view u = (view s)(k := mark False (view s k)))"
    and put_law: "ok s \<Longrightarrow> fresh s mem \<Longrightarrow> put s k doc opts now mem = (rc, t) \<Longrightarrow>
      ok t \<and> (\<forall>k'. k' \<noteq> k \<longrightarrow> view t k' = view s k' \<or> view t k' = None) \<and>
      (if lent (view s k) then rc = 0 \<and> view t = view s
       else if mem = None then rc = -1 \<and> view t k = None
       else rc = 0 \<and> view t k = Some (doc, if life s opts > 0 then now + life s opts else 0, False))"
    and expire_law: "ok s \<Longrightarrow> ok (expire s k now) \<and> view (expire s k now) = (view s)(k := lapse now (view s k))"
    and sweep_law: "ok s \<Longrightarrow> ok (sweep s now) \<and> (view (sweep s now) k = view s k \<or> view (sweep s now) k = None)"
begin

text \<open>A client reads a record by looking it up, copying it and giving it back.\<close>

lemma read_none:
  assumes "ok s" "live now (view s k) = None" "look s k now us = (t, r)"
  shows "r = None \<and> ok t \<and> view t = view s"
  using look_law [OF assms(1,3)] assms(2) by simp

lemma read_some:
  assumes "ok s" "live now (view s k) = Some doc" "look s k now us = (t, r)"
  shows "\<exists>h u. r = Some (h, doc) \<and> give_back t h = Some u \<and> ok u \<and> view u = (view s)(k := mark False (view s k))"
  using look_law [OF assms(1,3)] assms(2) by auto

text \<open>A document that was stored is read until its time has passed, and from then on never.\<close>

lemma put_then_live:
  assumes "ok s" "fresh s (Some a)" "\<not> lent (view s k)" "0 < life s opts" "0 < now + life s opts"
    and "put s k doc opts now (Some a) = (rc, t)"
  shows "rc = 0 \<and> ok t \<and> live later (view t k) = (if later < now + life s opts then Some doc else None)"
proof -
  note law = put_law [OF assms(1,2,6)]
  have "ok t" by (rule conjunct1 [OF law])
  note v = conjunct2 [OF conjunct2 [OF law], unfolded if_not_P [OF assms(3)], simplified]
  from v assms(4) have "rc = 0" "view t k = Some (doc, now + life s opts, False)" by simp_all
  with \<open>ok t\<close> assms(5) show ?thesis by (simp add: live_def)
qed

lemma put_other:
  assumes "ok s" "fresh s mem" "put s k doc opts now mem = (rc, t)" "k' \<noteq> k"
  shows "ok t \<and> (view t k' = view s k' \<or> view t k' = None)"
proof -
  note law = put_law [OF assms(1-3)]
  from conjunct1 [OF law] mp [OF spec [OF conjunct1 [OF conjunct2 [OF law]]] assms(4)]
  show ?thesis by (rule conjI)
qed

lemma gone_put_other:
  assumes "ok s" "fresh s mem" "put s k doc opts now mem = (rc, t)" "k' \<noteq> k" "gone x (view s k')"
  shows "gone x (view t k')"
  using put_other [OF assms(1-4)] assms(5) by auto

lemma expire_gone: "ok s \<Longrightarrow> 2 \<le> now \<Longrightarrow> gone now (view (expire s k now) k)"
  using expire_law [of s k now] by (simp add: gone_lapse)

lemma gone_expire: "ok s \<Longrightarrow> 2 \<le> now \<Longrightarrow> now \<le> x \<Longrightarrow> gone x (view s k') \<Longrightarrow> gone x (view (expire s k now) k')"
  using expire_law [of s k now] gone_mono [OF gone_lapse [of now "view s k"]] by (auto split: if_splits)

lemma gone_sweep: "ok s \<Longrightarrow> gone x (view s k) \<Longrightarrow> gone x (view (sweep s now) k)"
  using sweep_law [of s now k] by auto

end

subsection \<open>The cache is such a store\<close>

definition cache_view :: "cache \<Rightarrow> cstring \<Rightarrow> slot_view" where
  "cache_view c k = map_option (\<lambda>e. (output_document e, expiry_ts e, in_use e)) (stored c k)"

definition cache_ok :: "cache \<Rightarrow> bool" where
  "cache_ok c \<longleftrightarrow> cache_wf c \<and> enabled c"

definition cache_look :: "cache \<Rightarrow> cstring \<Rightarrow> int \<Rightarrow> nat \<Rightarrow> cache \<times> (nat \<times> cstring) option" where
  "cache_look c k now us =
     (case cache_lookup c (Some k) now us of (d, r) \<Rightarrow> (d, map_option (\<lambda>e. (addr e, output_document e)) r))"

definition cache_put :: "cache \<Rightarrow> cstring \<Rightarrow> cstring \<Rightarrow> cache_opts option \<Rightarrow> int \<Rightarrow> nat option \<Rightarrow> int \<times> cache" where
  "cache_put c k doc opts now mem =
     (case cache_insert c (Some k) (Some (doc, length doc)) opts now mem of (rc, d, _) \<Rightarrow> (rc, d))"

lemma live_cache_view: "live now (cache_view c k) =
    (case stored c k of None \<Rightarrow> None | Some e \<Rightarrow> if expired now e then None else Some (output_document e))"
  by (auto simp: live_def cache_view_def expired_def split: option.splits)

lemma view_update:
  assumes "cache_wf c" "stored c k = Some e" "\<And>x. normalized_sql (f x) = normalized_sql x"
  shows "cache_view (update_entry (addr e) f c) = (cache_view c)(k := Some (output_document (f e), expiry_ts (f e), in_use (f e)))"
proof
  fix k'
  let ?f = "\<lambda>x. if addr x = addr e then f x else x"
  have b: "buckets (update_entry (addr e) f c) = map (map ?f) (buckets c)" by (simp add: update_entry_def)
  have s: "stored (update_entry (addr e) f c) k' = map_option ?f (stored c k')"
    by (rule stored_map [OF b]) (simp add: assms(3))
  have "addr x \<noteq> addr e" if "stored c k' = Some x" "k' \<noteq> k" for x
  proof
    assume "addr x = addr e"
    moreover have "x \<in> set (all_entries c)" "e \<in> set (all_entries c)" "normalized_sql x = k'" "normalized_sql e = k"
      using stored_Some that(1) assms(2) by blast+
    ultimately show False using assms(1) that(2) by (auto simp: cache_wf_def table_wf_def distinct_map dest: inj_onD)
  qed
  with s assms(2) show "cache_view (update_entry (addr e) f c) k' =
      ((cache_view c)(k := Some (output_document (f e), expiry_ts (f e), in_use (f e)))) k'"
    by (auto simp: cache_view_def split: option.splits) (cases "stored c k'"; simp)
qed

lemma view_stats [simp]:
  "cache_view (count_miss c) = cache_view c" "cache_view (count_hit us c) = cache_view c"
  "cache_view (count_eviction n c) = cache_view c"
  by (simp_all add: cache_view_def fun_eq_iff stored_def all_entries_def count_miss_def count_hit_def count_eviction_def Let_def)

lemma enabled_stats [simp]:
  "enabled (count_miss c) = enabled c" "enabled (count_eviction n c) = enabled c"
  by (simp_all add: count_miss_def count_eviction_def)

lemma release_view:
  assumes "cache_wf c" "stored c k = Some e"
  shows "\<exists>d. cache_release c (Some (addr e)) = Some d \<and> cache_wf d \<and> enabled d = enabled c \<and>
    cache_view d = (cache_view c)(k := mark False (cache_view c k))"
proof -
  have "addr e \<in> addr ` set (all_entries c)" using stored_Some [OF assms(2)] by blast
  then have r: "cache_release c (Some (addr e)) = Some (update_entry (addr e) (\<lambda>e. e\<lparr>in_use := False\<rparr>) c)"
    by (simp add: cache_release_def)
  moreover have "cache_view (update_entry (addr e) (\<lambda>e. e\<lparr>in_use := False\<rparr>) c) =
      (cache_view c)(k := mark False (cache_view c k))"
    using view_update [OF assms, of "\<lambda>e. e\<lparr>in_use := False\<rparr>"] assms(2) by (simp add: cache_view_def [of c k] mark_def)
  ultimately show ?thesis using cache_release_wf [OF assms(1) r] by simp
qed

lemma cache_look_law:
  assumes "cache_ok c" "cache_look c k now us = (d, r)"
  shows "case live now (cache_view c k) of
      None \<Rightarrow> r = None \<and> cache_ok d \<and> cache_view d = cache_view c
    | Some doc \<Rightarrow> \<exists>h u. r = Some (h, doc) \<and> cache_ok d \<and> cache_view d = (cache_view c)(k := mark True (cache_view c k)) \<and>
        cache_release d (Some h) = Some u \<and> cache_ok u \<and> cache_view u = (cache_view c)(k := mark False (cache_view c k))"
proof -
  have wf: "cache_wf c" "enabled c" using assms(1) by (simp_all add: cache_ok_def)
  note look = assms(2) [unfolded cache_look_def cache_lookup_def, simplified, unfolded find_stored [OF wf(1)] Let_def]
  show ?thesis
  proof (cases "live now (cache_view c k)")
    case None
    then show ?thesis using look wf
      by (auto simp: live_cache_view cache_ok_def split: option.splits if_splits)
  next
    case (Some doc)
    then obtain e where e: "stored c k = Some e" "\<not> expired now e" "output_document e = doc"
      by (auto simp: live_cache_view split: option.splits if_splits)
    let ?f = "\<lambda>e. e\<lparr>in_use := True, last_access_ts := now, hit_count := hit_count e + 1\<rparr>"
    have d: "d = count_hit us (update_entry (addr e) ?f c)" "r = Some (addr e, doc)"
      using look wf e by auto
    have wfd: "cache_wf d" "enabled d" unfolding d by (simp_all add: update_entry_wf wf)
    have v: "cache_view d = (cache_view c)(k := mark True (cache_view c k))"
      unfolding d using view_update [OF wf(1) e(1), of ?f] e(1) by (simp add: cache_view_def [of c k] mark_def)
    have s: "stored d k = Some (?f e)" unfolding d using stored_update_entry [OF wf(1) e(1), of ?f] by simp
    from release_view [OF wfd(1) s] obtain u where u: "cache_release d (Some (addr e)) = Some u" "cache_wf u" "enabled u"
      "cache_view u = (cache_view d)(k := mark False (cache_view d k))" using wfd(2) by auto
    have "mark False (mark True w) = mark False w" for w by (auto simp: mark_def option.map_comp comp_def split_def)
    with u v have "cache_view u = (cache_view c)(k := mark False (cache_view c k))" by simp
    with Some d v u wfd show ?thesis by (auto simp: cache_ok_def)
  qed
qed

lemma view_of_subset:
  assumes "cache_wf c" "cache_wf d" "set (all_entries d) \<subseteq> insert e (set (all_entries c))" "k' \<noteq> normalized_sql e"
  shows "cache_view d k' = cache_view c k' \<or> cache_view d k' = None"
proof (cases "stored d k'")
  case (Some x)
  from stored_Some [OF Some] have x: "x \<in> set (all_entries d)" "normalized_sql x = k'" by auto
  with assms(3,4) have "x \<in> set (all_entries c)" by auto
  with stored_SomeI [of c x] assms(1) x(2) have "stored c k' = Some x" by (simp add: cache_wf_def)
  with Some show ?thesis by (simp add: cache_view_def)
qed (simp add: cache_view_def)

lemma insert_new_view:
  assumes "cache_wf c" "stored c k = None" "fresh_mem c mem"
    and "insert_new c k doc dlen opts now mem = (rc, d, fate)"
  shows "cache_wf d \<and> enabled d = enabled c \<and>
    (\<forall>k'. k' \<noteq> k \<longrightarrow> cache_view d k' = cache_view c k' \<or> cache_view d k' = None) \<and>
    (if mem = None then rc = -1 \<and> cache_view d k = None
     else rc = 0 \<and> cache_view d k = Some (doc, if effective_ttl c opts > 0 then now + effective_ttl c opts else 0, False))"
proof -
  define c1 where "c1 = fst (evict_while (\<lambda>c. entry_count c \<ge> max_entries c) c)"
  define c2 where "c2 = fst (evict_while (\<lambda>c. current_memory_bytes c + insert_memory_estimate k dlen
      > max_memory_bytes c) c1)"
  have wf: "cache_wf c1" "cache_wf c2" unfolding c1_def c2_def using assms(1) evict_while_wf by blast+
  have ev: "evolves c c2" unfolding c1_def c2_def
    using evolves_trans evict_while_evolves evict_while_wf assms(1) by blast
  have wfd: "cache_wf d" using insert_new_wf [OF assms(1,2,3), of doc dlen opts now] assms(4) by simp
  have sub2: "set (all_entries c2) \<subseteq> set (all_entries c)" "enabled c2 = enabled c" using ev by (simp_all add: evolves_def)
  show ?thesis
  proof (cases mem)
    case None
    then have d: "d = c2" "rc = -1" using assms(4)
      unfolding insert_new_def c1_def [symmetric] c2_def [symmetric] Let_def by auto
    have "cache_view c2 k = None" using stored_None_evolves [OF assms(2) ev] by (simp add: cache_view_def)
    moreover have "cache_view c2 k' = cache_view c k' \<or> cache_view c2 k' = None" for k'
    proof (cases "stored c2 k'")
      case (Some x)
      from stored_Some [OF Some] sub2 have "x \<in> set (all_entries c)" "normalized_sql x = k'" by auto
      with stored_SomeI [of c x] assms(1) Some show ?thesis by (simp add: cache_wf_def cache_view_def)
    qed (simp add: cache_view_def)
    ultimately show ?thesis using d wfd sub2 None by simp
  next
    case (Some a)
    let ?e = "alloc_entry a k doc dlen (compute_hash (algorithm c) k) (effective_ttl c opts) opts now"
    from assms(3) Some have fr: "a \<notin> addr ` set (all_entries c)" by (simp add: fresh_mem_def)
    have d: "buckets d = (buckets c2)[bucket_of c k := ?e # buckets c2 ! bucket_of c k]"
      using assms(4) unfolding insert_new_def c1_def [symmetric] c2_def [symmetric] Let_def Some by auto
    have "table_wf c2" using wf by (simp add: cache_wf_def)
    then have lt: "bucket_of c k < length (buckets c2)"
      using bucket_in_range [of c2 k] ev by (simp add: evolves_def bucket_of_def)
    have "set (all_entries d) = insert ?e (set (all_entries c2))"
      using all_prepend [OF lt d] by (metis set_mset_add_mset_insert set_mset_mset)
    then have sub: "set (all_entries d) \<subseteq> insert ?e (set (all_entries c))" using sub2 by auto
    have "cache_view d k' = cache_view c k' \<or> cache_view d k' = None" if "k' \<noteq> k" for k'
      by (rule view_of_subset [OF assms(1) wfd sub]) (simp add: that)
    moreover have "rc = 0" "enabled d = enabled c" "stored d k = Some ?e"
      using insert_new_result [OF assms(1,2) fr assms(4) [unfolded Some]] by auto
    ultimately show ?thesis using wfd Some by (simp add: cache_view_def)
  qed
qed

lemma cache_put_law:
  assumes "cache_ok c" "fresh_mem c mem" "cache_put c k doc opts now mem = (rc, d)"
  shows "cache_ok d \<and> (\<forall>k'. k' \<noteq> k \<longrightarrow> cache_view d k' = cache_view c k' \<or> cache_view d k' = None) \<and>
    (if lent (cache_view c k) then rc = 0 \<and> cache_view d = cache_view c
     else if mem = None then rc = -1 \<and> cache_view d k = None
     else rc = 0 \<and> cache_view d k = Some (doc, if effective_ttl c opts > 0 then now + effective_ttl c opts else 0, False))"
proof -
  have wf: "cache_wf c" "enabled c" using assms(1) by (simp_all add: cache_ok_def)
  obtain fate where i: "cache_insert c (Some k) (Some (doc, length doc)) opts now mem = (rc, d, fate)"
    using assms(3) by (auto simp: cache_put_def split: prod.splits)
  show ?thesis
  proof (cases "stored c k")
    case None
    then have "insert_new c k doc (length doc) opts now mem = (rc, d, fate)"
      using i wf by (simp add: cache_insert_def find_stored)
    from insert_new_view [OF wf(1) None assms(2) this] None wf(2) show ?thesis
      by (simp add: cache_ok_def lent_def cache_view_def [of c k])
  next
    case (Some e)
    from stored_Some [OF Some] have e: "e \<in> set (all_entries c)" "normalized_sql e = k" by auto
    show ?thesis
    proof (cases "in_use e")
      case True
      then have "rc = 0" "d = c" using i Some wf by (simp_all add: cache_insert_def find_stored Let_def)
      then show ?thesis using assms(1) Some True by (simp add: lent_def cache_view_def)
    next
      case False
      let ?c' = "c\<lparr>buckets := unlink (addr e) (buckets c),
                   current_memory_bytes := current_memory_bytes c - entry_memory_bytes e,
                   entry_count := entry_count c - 1\<rparr>"
      have wf': "cache_wf ?c'" by (rule cache_wf_unlink [OF wf(1) e(1)]) simp_all
      have none: "stored ?c' k = None" using stored_unlink [OF wf(1) e(1), of ?c'] e(2) by simp
      have all: "set (all_entries ?c') \<subseteq> set (all_entries c)"
        by (auto simp: all_entries_def unlink_def)
      have fr: "fresh_mem ?c' mem" using assms(2) all by (auto simp: fresh_mem_def split: option.splits)
      have "insert_new ?c' k doc (length doc) opts now mem = (rc, d, fate)"
        using i Some wf False by (simp add: cache_insert_def find_stored Let_def)
      note new = insert_new_view [OF wf' none fr this]
      have ttl: "effective_ttl ?c' opts = effective_ttl c opts" by (cases opts) (simp_all add: effective_ttl_def)
      have oth: "cache_view ?c' k' = cache_view c k' \<or> cache_view ?c' k' = None" if "k' \<noteq> k" for k'
        by (rule view_of_subset [OF wf(1) wf', of e]) (use all e that in auto)
      have "cache_view d k' = cache_view c k' \<or> cache_view d k' = None" if "k' \<noteq> k" for k'
        using conjunct1 [OF conjunct2 [OF conjunct2 [OF new]]] oth [OF that] that by metis
      moreover have "\<not> lent (cache_view c k)" using Some False by (simp add: lent_def cache_view_def)
      moreover have "cache_ok d" using new wf(2) by (simp add: cache_ok_def)
      moreover note conjunct2 [OF conjunct2 [OF conjunct2 [OF new]], unfolded ttl]
      ultimately show ?thesis by simp
    qed
  qed
qed

lemma cache_expire_law:
  assumes "cache_ok c"
  shows "cache_ok (snd (cache_expire_entry c (Some k) now)) \<and>
    cache_view (snd (cache_expire_entry c (Some k) now)) = (cache_view c)(k := lapse now (cache_view c k))"
proof -
  have wf: "cache_wf c" "enabled c" using assms by (simp_all add: cache_ok_def)
  show ?thesis
  proof (cases "stored c k")
    case None
    then show ?thesis using assms
      by (auto simp: cache_expire_entry_def find_stored [OF wf(1)] cache_view_def lapse_def fun_eq_iff)
  next
    case (Some e)
    then show ?thesis
      using view_update [OF wf(1) Some, of "\<lambda>e. e\<lparr>expiry_ts := past_ts now\<rparr>"] wf
      by (simp add: cache_expire_entry_def find_stored [OF wf(1)] cache_ok_def update_entry_wf
          cache_view_def [of c k] lapse_def)
  qed
qed

lemma cache_sweep_law:
  assumes "cache_ok c"
  shows "cache_ok (snd (cache_evict_expired c now)) \<and>
    (cache_view (snd (cache_evict_expired c now)) k = cache_view c k \<or> cache_view (snd (cache_evict_expired c now)) k = None)"
proof -
  have wf: "cache_wf c" "enabled c" using assms by (simp_all add: cache_ok_def)
  let ?d = "snd (cache_evict_expired c now)"
  let ?gone = "filter (sweepable now) (all_entries c)"
  let ?c0 = "c\<lparr>buckets := map (filter (\<lambda>e. \<not> sweepable now e)) (buckets c),
      current_memory_bytes := current_memory_bytes c - sum_list (map entry_memory_bytes ?gone),
      entry_count := entry_count c - length ?gone\<rparr>"
  let ?c1 = "count_eviction (length ?gone) ?c0"
  have wfd: "cache_wf ?d" by (rule cache_evict_wf [OF wf(1)])
  have d: "?d = fst (evict_while (\<lambda>c. current_memory_bytes c > max_memory_bytes c) ?c1)"
    by (simp add: cache_evict_expired_def Let_def case_prod_beta)
  have "cache_wf ?c0" by (rule cache_wf_remove [OF wf(1), where P = "\<lambda>e. \<not> sweepable now e"]) simp_all
  then have "evolves ?c1 ?d" unfolding d by (intro evict_while_evolves) simp
  moreover have "set (all_entries ?c1) \<subseteq> set (all_entries c)" by (auto simp: all_entries_def count_eviction_def)
  ultimately have sub: "set (all_entries ?d) \<subseteq> set (all_entries c)" "enabled ?d"
    using wf(2) by (auto simp: evolves_def)
  have "cache_view ?d k = cache_view c k \<or> cache_view ?d k = None"
  proof (cases "stored ?d k")
    case (Some x)
    from stored_Some [OF Some] sub have "x \<in> set (all_entries c)" "normalized_sql x = k" by auto
    with stored_SomeI [of c x] wf Some show ?thesis by (simp add: cache_wf_def cache_view_def)
  qed (simp add: cache_view_def)
  with wfd sub show ?thesis by (simp add: cache_ok_def)
qed

interpretation cst: expiring_store cache_ok cache_view cache_look "\<lambda>c a. cache_release c (Some a)" cache_put effective_ttl
    "\<lambda>c k now. snd (cache_expire_entry c (Some k) now)" "\<lambda>c now. snd (cache_evict_expired c now)" fresh_mem
proof (unfold_locales, goal_cases)
  case (1 s k now us t r)
  then show ?case by (rule cache_look_law)
next
  case (2 s mem k doc opts now rc t)
  then show ?case by (rule cache_put_law)
next
  case (3 s k now)
  then show ?case by (rule cache_expire_law)
next
  case (4 s now k)
  then show ?case by (rule cache_sweep_law)
qed

end
