(* ===== verification/Session_Cache.thy ===== *)
theory Session_Cache
  imports C_Parsing Cache_Store
begin

text \<open>
  \<^verbatim>\<open>src/infra/session_cache.c\<close>: the records of the live sessions, kept as pipe-delimited text in an
  instance of the cache. A NULL cache is \<open>None\<close>. The fields of a record are C strings that fit their
  arrays (\<open>record_ok\<close>); the timestamps are \<^verbatim>\<open>time_t\<close>.
\<close>

subsection \<open>Records\<close>

datatype session_status_t =
  SESSION_STATUS_CREATED | SESSION_STATUS_ACTIVE | SESSION_STATUS_EXPIRED | SESSION_STATUS_LOGGED_OUT |
  SESSION_STATUS_EXPIRED_ORPHAN

fun session_status_str :: "session_status_t \<Rightarrow> cstring" where
  "session_status_str SESSION_STATUS_CREATED = ''CREATED''"
| "session_status_str SESSION_STATUS_ACTIVE = ''ACTIVE''"
| "session_status_str SESSION_STATUS_EXPIRED = ''EXPIRED''"
| "session_status_str SESSION_STATUS_LOGGED_OUT = ''LOGGED_OUT''"
| "session_status_str SESSION_STATUS_EXPIRED_ORPHAN = ''EXPIRED_ORPHAN''"

definition session_status_from_str :: "cstring option \<Rightarrow> session_status_t" where
  "session_status_from_str s =
     (case s of
        None \<Rightarrow> SESSION_STATUS_CREATED
      | Some t \<Rightarrow>
          if ci_eq t ''ACTIVE'' then SESSION_STATUS_ACTIVE
          else if ci_eq t ''EXPIRED'' then SESSION_STATUS_EXPIRED
          else if ci_eq t ''LOGGED_OUT'' then SESSION_STATUS_LOGGED_OUT
          else if ci_eq t ''EXPIRED_ORPHAN'' then SESSION_STATUS_EXPIRED_ORPHAN
          else SESSION_STATUS_CREATED)"

record session_record =
  sess_id :: cstring
  sess_status :: session_status_t
  sess_created :: int
  sess_last_activity :: int
  sess_ttl :: int
  sess_client_id :: cstring
  sess_client_ip :: cstring
  sess_client_host :: cstring
  sess_application_name :: cstring

definition SESSION_UUID_LEN :: nat where
  "SESSION_UUID_LEN = 37"

subsection \<open>Encoding\<close>

definition SESSION_CACHE_ENCODING_VERSION :: cstring where
  "SESSION_CACHE_ENCODING_VERSION = ''SC1''"

definition dash_if_empty :: "cstring \<Rightarrow> cstring" where
  "dash_if_empty s = (if s \<noteq> [] then s else ''-'')"

definition session_text :: "session_record \<Rightarrow> cstring" where
  "session_text rec =
     SESSION_CACHE_ENCODING_VERSION @ ''|'' @ sess_id rec @ ''|'' @ session_status_str (sess_status rec) @ ''|'' @
     dec_int (sess_created rec) @ ''|'' @ dec_int (sess_last_activity rec) @ ''|'' @ dec_int (sess_ttl rec) @ ''|'' @
     dash_if_empty (sess_client_id rec) @ ''|'' @ dash_if_empty (sess_client_ip rec) @ ''|'' @ dash_if_empty (sess_client_host rec) @ ''|'' @
     dash_if_empty (sess_application_name rec)"

definition session_cache_encode :: "session_record \<Rightarrow> cstring option" where
  "session_cache_encode rec = (if length (session_text rec) \<ge> 1024 then None else Some (session_text rec))"

text \<open>An optional field: absent or a dash leaves the zeroed buffer.\<close>

definition opt_field :: "nat \<Rightarrow> cstring option \<Rightarrow> cstring" where
  "opt_field n f = (case f of None \<Rightarrow> [] | Some s \<Rightarrow> if s \<noteq> ''-'' then c_strncpy n s else [])"

definition nth_token :: "cstring list \<Rightarrow> nat \<Rightarrow> cstring option" where
  "nth_token ts i = (if i < length ts then Some (ts ! i) else None)"

definition session_cache_decode :: "cstring \<Rightarrow> session_record option" where
  "session_cache_decode encoded =
     (let tok = nth_token (c_tokens (CHR ''|'') (c_strncpy 1024 encoded)) in
      if tok 0 \<noteq> Some SESSION_CACHE_ENCODING_VERSION then None
      else
        (case (tok 1, tok 2, tok 3, tok 4, tok 5) of
           (Some sid, Some st, Some cr, Some la, Some tt) \<Rightarrow>
             Some \<lparr>sess_id = c_strncpy SESSION_UUID_LEN sid, sess_status = session_status_from_str (Some st),
                   sess_created = c_atol cr, sess_last_activity = c_atol la, sess_ttl = c_atoi tt,
                   sess_client_id = opt_field 128 (tok 6), sess_client_ip = opt_field 64 (tok 7),
                   sess_client_host = opt_field 128 (tok 8), sess_application_name = opt_field 128 (tok 9)\<rparr>
         | _ \<Rightarrow> None))"

subsection \<open>The cache instance\<close>

definition parse_hash_algorithm :: "cstring option \<Rightarrow> cache_hash_algorithm_t" where
  "parse_hash_algorithm s =
     (case s of
        None \<Rightarrow> CACHE_HASH_FNV1A
      | Some t \<Rightarrow>
          if ci_eq t ''djb2'' then CACHE_HASH_DJB2
          else if ci_eq t ''murmur3'' then CACHE_HASH_MURMUR3
          else CACHE_HASH_FNV1A)"

text \<open>The keys of one cache in the configuration; the integers are \<^verbatim>\<open>int\<close>s.\<close>

record cache_ini =
  ini_enabled :: bool
  ini_ttl_seconds :: int
  ini_max_entries :: int
  ini_max_memory_mb :: int
  ini_bucket_count :: int
  ini_hash_algorithm :: cstring

text \<open>The \<^verbatim>\<open>cache_config_t\<close> filled from them, with the defaults for entries, megabytes and buckets.\<close>

definition ini_config :: "cache_ini \<Rightarrow> int \<Rightarrow> int \<Rightarrow> int \<Rightarrow> cache_config" where
  "ini_config ini entries mb bucket_no =
     \<lparr>cfg_bucket_count = word_of_int (if ini_bucket_count ini > 0 then ini_bucket_count ini else bucket_no),
      cfg_max_entries = nat (if ini_max_entries ini > 0 then ini_max_entries ini else entries),
      cfg_max_memory_bytes = nat (if ini_max_memory_mb ini > 0 then ini_max_memory_mb ini else mb) * 1024 * 1024,
      cfg_ttl_seconds = (if ini_ttl_seconds ini > 0 then ini_ttl_seconds ini else 1800),
      cfg_hash_algorithm = parse_hash_algorithm (Some (ini_hash_algorithm ini)),
      cfg_enabled = ini_enabled ini\<rparr>"

text \<open>\<open>None\<close> is NULL; the outer \<open>None\<close> a creation that does not return, as for \<open>cache_create\<close>.\<close>

definition session_cache_init :: "cache_ini \<Rightarrow> cache option option" where
  "session_cache_init ini =
     (let cfg = ini_config ini 5000 128 4096
      in if \<not> cfg_enabled cfg then Some None else map_option Some (cache_create cfg))"

definition session_cache_lookup ::
    "cache option \<Rightarrow> cstring \<Rightarrow> int \<Rightarrow> nat \<Rightarrow> cache option \<times> cache_entry option" where
  "session_cache_lookup c sid now us =
     (case c of None \<Rightarrow> (None, None) | Some s \<Rightarrow> (case cache_lookup s (Some sid) now us of (d, r) \<Rightarrow> (Some d, r)))"

text \<open>\<open>None\<close>: the entry is not one of the cache, a write to freed memory.\<close>

definition session_cache_release :: "cache option \<Rightarrow> cache_entry \<Rightarrow> cache option option" where
  "session_cache_release c entry =
     (case c of None \<Rightarrow> Some None | Some s \<Rightarrow> map_option Some (cache_release s (Some (addr entry))))"

text \<open>\<^verbatim>\<open>rec->client_ip[0] ? rec->client_ip : NULL\<close>; the order of the trace is that of \<open>alloc_entry\<close>.\<close>

definition or_null :: "cstring \<Rightarrow> cstring option" where
  "or_null s = (if s \<noteq> [] then Some s else None)"

definition session_opts :: "session_record \<Rightarrow> cache_opts" where
  "session_opts rec =
     \<lparr>opt_ttl_seconds = sess_ttl rec, opt_pinned = False, opt_row_count = 0, opt_json = None,
      opt_trace = [or_null (sess_client_ip rec), or_null (sess_client_host rec), or_null (sess_client_id rec), None, None, None, None],
      opt_tag = None\<rparr>"

definition session_cache_store ::
    "cache option \<Rightarrow> session_record \<Rightarrow> int \<Rightarrow> nat option \<Rightarrow> int \<times> cache option" where
  "session_cache_store c rec now mem =
     (case c of
        None \<Rightarrow> (-1, None)
      | Some s \<Rightarrow>
          if sess_id rec = [] then (-1, c)
          else
            (case session_cache_encode rec of
               None \<Rightarrow> (-1, c)
             | Some doc \<Rightarrow>
                 (case cache_insert s (Some (sess_id rec)) (Some (doc, length doc)) (Some (session_opts rec)) now mem of
                    (rc, d, _) \<Rightarrow> (rc, Some d))))"

definition session_cache_invalidate :: "cache option \<Rightarrow> cstring \<Rightarrow> int \<Rightarrow> int \<times> cache option" where
  "session_cache_invalidate c sid now =
     (case c of
        None \<Rightarrow> (-1, None)
      | Some s \<Rightarrow> (case cache_expire_entry s (Some sid) now of (rc, d) \<Rightarrow> (rc, Some d)))"

definition session_cache_evict :: "cache option \<Rightarrow> int \<Rightarrow> int \<times> cache option" where
  "session_cache_evict c now =
     (case c of
        None \<Rightarrow> (-1, None)
      | Some s \<Rightarrow> (case cache_evict_expired s now of (n, d) \<Rightarrow> (n, Some d)))"

subsection \<open>Encoding and decoding\<close>

text \<open>What the C types of the struct guarantee, and the condition on the text fields that the encoding needs.\<close>

definition record_fits :: "session_record \<Rightarrow> bool" where
  "record_fits r \<longleftrightarrow>
     length (sess_id r) < SESSION_UUID_LEN \<and> LONG_MIN \<le> sess_created r \<and> sess_created r \<le> LONG_MAX \<and>
     LONG_MIN \<le> sess_last_activity r \<and> sess_last_activity r \<le> LONG_MAX \<and> - (2 ^ 31) \<le> sess_ttl r \<and> sess_ttl r < 2 ^ 31 \<and>
     length (sess_client_id r) < 128 \<and> length (sess_client_ip r) < 64 \<and> length (sess_client_host r) < 128 \<and>
     length (sess_application_name r) < 128"

definition plain :: "cstring \<Rightarrow> bool" where
  "plain s \<longleftrightarrow> CHR ''|'' \<notin> set s \<and> s \<noteq> ''-''"

definition record_plain :: "session_record \<Rightarrow> bool" where
  "record_plain r \<longleftrightarrow> sess_id r \<noteq> [] \<and> CHR ''|'' \<notin> set (sess_id r) \<and> plain (sess_client_id r) \<and> plain (sess_client_ip r) \<and>
     plain (sess_client_host r) \<and> plain (sess_application_name r)"

definition session_fields :: "session_record \<Rightarrow> cstring list" where
  "session_fields r =
     [SESSION_CACHE_ENCODING_VERSION, sess_id r, session_status_str (sess_status r), dec_int (sess_created r),
      dec_int (sess_last_activity r), dec_int (sess_ttl r), dash_if_empty (sess_client_id r), dash_if_empty (sess_client_ip r),
      dash_if_empty (sess_client_host r), dash_if_empty (sess_application_name r)]"

lemma session_text_join: "session_text r = join_with (CHR ''|'') (session_fields r)"
  by (simp add: session_text_def session_fields_def)

lemma status_text: "session_status_str s \<noteq> [] \<and> CHR ''|'' \<notin> set (session_status_str s) \<and> length (session_status_str s) \<le> 14"
  by (cases s) auto

lemma status_back: "session_status_from_str (Some (session_status_str s)) = s"
  by (cases s) (simp_all add: session_status_from_str_def ci_eq_def c_tolower_def c_isupper_def byte_def)

lemma dec_int_no_bar: "CHR ''|'' \<notin> set (dec_int i)"
  using dec_int_chars [of "CHR ''|''" i] digit_not_sep by auto

lemma dash_if_empty_facts [simp]:
  "dash_if_empty s \<noteq> []" "plain s \<Longrightarrow> CHR ''|'' \<notin> set (dash_if_empty s)" "length (dash_if_empty s) \<le> max 1 (length s)"
  by (auto simp: dash_if_empty_def plain_def)

lemma opt_field_dash: "plain s \<Longrightarrow> length s < n \<Longrightarrow> opt_field n (Some (dash_if_empty s)) = s"
  by (auto simp: opt_field_def dash_if_empty_def plain_def)

text \<open>Every record the struct can hold is encoded: 1024 bytes are enough.\<close>

lemma encode_fits:
  assumes "record_fits r"
  shows "length (session_text r) < 600" "session_cache_encode r = Some (session_text r)"
proof -
  have "length (dec_int (sess_created r)) \<le> 20" "length (dec_int (sess_last_activity r)) \<le> 20" "length (dec_int (sess_ttl r)) \<le> 11"
    using assms by (simp_all add: record_fits_def length_dec_int_long length_dec_int_int)
  moreover have "length (dash_if_empty (sess_client_id r)) \<le> 128" "length (dash_if_empty (sess_client_ip r)) \<le> 64"
    "length (dash_if_empty (sess_client_host r)) \<le> 128" "length (dash_if_empty (sess_application_name r)) \<le> 128"
    using assms by (simp_all add: record_fits_def dash_if_empty_def)
  moreover have "length (sess_id r) < 37" using assms by (simp add: record_fits_def SESSION_UUID_LEN_def)
  moreover note status_text [of "sess_status r"]
  ultimately show l: "length (session_text r) < 600"
    by (simp add: session_text_def SESSION_CACHE_ENCODING_VERSION_def)
  then show "session_cache_encode r = Some (session_text r)" by (simp add: session_cache_encode_def)
qed

lemma session_tokens:
  assumes "record_plain r"
  shows "c_tokens (CHR ''|'') (session_text r) = session_fields r"
  unfolding session_text_join
  by (rule c_tokens_join)
     (use assms status_text [of "sess_status r"] in
       \<open>auto simp: session_fields_def record_plain_def SESSION_CACHE_ENCODING_VERSION_def dec_int_no_bar\<close>)

lemma session_decode_text:
  assumes "record_fits r" "record_plain r"
  shows "session_cache_decode (session_text r) = Some r"
proof -
  note enc = encode_fits [OF assms(1)]
  have "c_strncpy 1024 (session_text r) = session_text r" using enc(1) by simp
  then have tok: "nth_token (c_tokens (CHR ''|'') (c_strncpy 1024 (session_text r))) = nth_token (session_fields r)"
    using session_tokens [OF assms(2)] by simp
  have sid: "c_strncpy SESSION_UUID_LEN (sess_id r) = sess_id r"
    using assms(1) by (intro c_strncpy_id) (simp add: record_fits_def)
  have opt: "opt_field 128 (Some (dash_if_empty (sess_client_id r))) = sess_client_id r" "opt_field 64 (Some (dash_if_empty (sess_client_ip r))) = sess_client_ip r"
    "opt_field 128 (Some (dash_if_empty (sess_client_host r))) = sess_client_host r"
    "opt_field 128 (Some (dash_if_empty (sess_application_name r))) = sess_application_name r"
    using assms by (simp_all add: record_fits_def record_plain_def opt_field_dash)
  have num: "c_atol (dec_int (sess_created r)) = sess_created r" "c_atol (dec_int (sess_last_activity r)) = sess_last_activity r"
    "c_atoi (dec_int (sess_ttl r)) = sess_ttl r"
    using assms(1) by (simp_all add: record_fits_def c_atol_dec_int c_atoi_dec_int)
  show ?thesis
    unfolding session_cache_decode_def tok Let_def
    by (simp add: nth_token_def session_fields_def status_back sid opt num)
qed

text \<open>
  Encoding and decoding are inverse: every session record is written in full, and when no text field
  holds a pipe or is a single dash, what is read back is exactly the record.
\<close>

theorem session_roundtrip:
  assumes "record_fits r" "record_plain r"
  shows "\<exists>doc. session_cache_encode r = Some doc \<and> session_cache_decode doc = Some r"
  using encode_fits(2) [OF assms(1)] session_decode_text [OF assms] by blast

definition test_record :: session_record where
  "test_record = \<lparr>sess_id = ''1f'', sess_status = SESSION_STATUS_ACTIVE, sess_created = 1700000000, sess_last_activity = 1700000005,
     sess_ttl = 900, sess_client_id = ''ann'', sess_client_ip = [], sess_client_host = ''h-1'', sess_application_name = ''web''\<rparr>"

lemma session_roundtrip_witness:
  "\<exists>doc. session_cache_encode test_record = Some doc \<and> session_cache_decode doc = Some test_record"
  by (rule session_roundtrip)
     (simp_all add: record_fits_def record_plain_def plain_def test_record_def SESSION_UUID_LEN_def LONG_MIN_def LONG_MAX_def)

text \<open>A pipe in the client's name shifts the fields: it chooses its own address.\<close>

lemma pipe_shifts_fields:
  "map_option (\<lambda>r. (sess_client_id r, sess_client_ip r)) (session_cache_decode (session_text (test_record\<lparr>sess_client_id := ''eve|10.0.0.1''\<rparr>))) =
     Some (''eve'', ''10.0.0.1'')"
proof -
  let ?r = "test_record\<lparr>sess_client_id := ''eve|10.0.0.1''\<rparr>"
  let ?ts = "[''SC1'', ''1f'', ''ACTIVE'', dec_int 1700000000, dec_int 1700000005, dec_int 900, ''eve'', ''10.0.0.1'', ''-'',
    ''h-1'', ''web'']"
  have "record_fits ?r" by (simp add: record_fits_def test_record_def SESSION_UUID_LEN_def LONG_MIN_def LONG_MAX_def)
  from encode_fits(1) [OF this] have "c_strncpy 1024 (session_text ?r) = session_text ?r" by simp
  moreover have "session_text ?r = join_with (CHR ''|'') ?ts"
    by (simp add: session_text_def test_record_def SESSION_CACHE_ENCODING_VERSION_def dash_if_empty_def)
  moreover have "c_tokens (CHR ''|'') (join_with (CHR ''|'') ?ts) = ?ts"
    by (rule c_tokens_join) (simp add: dec_int_no_bar)
  ultimately show ?thesis
    by (simp add: session_cache_decode_def Let_def nth_token_def SESSION_CACHE_ENCODING_VERSION_def opt_field_def)
qed

subsection \<open>Creation\<close>

lemma small_count_rounds: "0 < n \<Longrightarrow> n < 2 ^ 31 \<Longrightarrow> \<exists>m. bucket_count_of (word_of_int n) = Some m"
proof -
  assume n: "0 < n" "n < 2 ^ 31"
  then have u: "unat (word_of_int n :: 64 word) = nat n"
    by (simp add: unat_eq_nat_uint uint_word_of_int)
  then have "(word_of_int n :: 64 word) \<noteq> 0" using n by (metis unat_0 zero_less_nat_eq less_numeral_extra(3))
  moreover have "nat n \<le> 2 ^ 63" using n(2) by simp
  ultimately show ?thesis using round_pow2_up [of 0 "word_of_int n"] u by (auto simp: bucket_count_of_def)
qed

lemma ini_config_creates:
  assumes "ini_bucket_count ini < 2 ^ 31" "0 < b" "b < 2 ^ 31" "ini_enabled ini"
  shows "\<exists>c. cache_create (ini_config ini n mb b) = Some c \<and> cache_ok c \<and> all_entries c = [] \<and> 0 < ttl_seconds c"
proof -
  obtain m where "bucket_count_of (cfg_bucket_count (ini_config ini n mb b)) = Some m"
  proof -
    let ?n = "if ini_bucket_count ini > 0 then ini_bucket_count ini else b"
    have "0 < ?n" "?n < 2 ^ 31" using assms(1-3) by auto
    from small_count_rounds [OF this] show thesis using that by (auto simp: ini_config_def)
  qed
  then obtain c where c: "cache_create (ini_config ini n mb b) = Some c" by (simp add: cache_create_def)
  then have "enabled c" "all_entries c = []" "0 < ttl_seconds c"
    using assms(4) by (auto simp: cache_create_def ini_config_def all_entries_def)
  with cache_create_wf [OF c] c show ?thesis by (simp add: cache_ok_def)
qed

text \<open>The session cache is created whenever it is enabled, and NULL exactly when it is not.\<close>

lemma session_cache_init_returns:
  assumes "ini_bucket_count ini < 2 ^ 31"
  shows "if ini_enabled ini then \<exists>c. session_cache_init ini = Some (Some c) \<and> cache_ok c \<and> all_entries c = [] \<and> 0 < ttl_seconds c
    else session_cache_init ini = Some None"
proof (cases "ini_enabled ini")
  case True
  then obtain c where "cache_create (ini_config ini 5000 128 4096) = Some c \<and> cache_ok c \<and> all_entries c = [] \<and> 0 < ttl_seconds c"
    using ini_config_creates [OF assms, of 4096 5000 128] by auto
  with True show ?thesis by (simp add: session_cache_init_def Let_def ini_config_def)
qed (simp add: session_cache_init_def Let_def ini_config_def)

end
