(* ===== verification/Authz.thy ===== *)
theory Authz
  imports Session_Cache Oracle_Dialect
begin

text \<open>
  Authorization: \<^verbatim>\<open>src/infra/authz_cache.c\<close> keeps the permission codes of a session as one
  comma-separated text, \<^verbatim>\<open>src/infra/Authz_Manager.c\<close> builds that text from the database when the session
  is created and checks requests against it. The driver's cursor is an argument: \<open>select_open\<close> gets the
  statement and its binds and answers \<open>None\<close> (failure) or the number of columns and what the successive
  fetches return (\<open>None\<close> a failure, otherwise the codes of one batch); after the answers listed the
  cursor is at its end.
\<close>

definition AUTHZ_OK :: int where "AUTHZ_OK = 0"

definition AUTHZ_ERR_INVALID_ARG :: int where "AUTHZ_ERR_INVALID_ARG = -1"

definition AUTHZ_ERR_DENIED :: int where "AUTHZ_ERR_DENIED = -2"

definition AUTHZ_ERR_DB_FAILURE :: int where "AUTHZ_ERR_DB_FAILURE = -4"

lemmas authz_codes = AUTHZ_OK_def AUTHZ_ERR_INVALID_ARG_def AUTHZ_ERR_DENIED_def AUTHZ_ERR_DB_FAILURE_def

subsection \<open>The cache of permissions\<close>

definition AUTHZ_CACHE_ENCODING_VERSION :: cstring where
  "AUTHZ_CACHE_ENCODING_VERSION = ''AZ1''"

definition authz_cache_encode :: "cstring option \<Rightarrow> cstring" where
  "authz_cache_encode csv =
     (let codes = (case csv of Some (c # cs) \<Rightarrow> c # cs | _ \<Rightarrow> ''-'')
      in AUTHZ_CACHE_ENCODING_VERSION @ ''|'' @ codes)"

definition authz_cache_decode :: "cstring \<Rightarrow> nat \<Rightarrow> cstring option" where
  "authz_cache_decode encoded out_size =
     (if out_size = 0 then None
      else
        (case c_strchr encoded (CHR ''|'') of
           None \<Rightarrow> None
         | Some i \<Rightarrow>
             if i \<noteq> length AUTHZ_CACHE_ENCODING_VERSION \<or> take i encoded \<noteq> AUTHZ_CACHE_ENCODING_VERSION then None
             else
               let codes = drop (i + 1) encoded in
               if codes = ''-'' then Some [] else Some (c_strncpy out_size codes)))"

definition authz_cache_init :: "cache_ini \<Rightarrow> cache option option" where
  "authz_cache_init ini =
     (let cfg = ini_config ini 5000 32 1024
      in if \<not> cfg_enabled cfg then Some None else map_option Some (cache_create cfg))"

definition authz_opts :: cache_opts where
  "authz_opts = \<lparr>opt_ttl_seconds = 0, opt_pinned = False, opt_row_count = 0, opt_json = None,
     opt_trace = replicate 7 None, opt_tag = None\<rparr>"

definition authz_cache_store :: "cache option \<Rightarrow> cstring \<Rightarrow> cstring \<Rightarrow> int \<Rightarrow> nat option \<Rightarrow> int \<times> cache option" where
  "authz_cache_store c sid csv now mem =
     (case c of
        None \<Rightarrow> (-1, None)
      | Some s \<Rightarrow>
          if sid = [] then (-1, c)
          else
            let doc = authz_cache_encode (Some csv) in
            (case cache_insert s (Some sid) (Some (doc, length doc)) (Some authz_opts) now mem of
               (rc, d, _) \<Rightarrow> (rc, Some d)))"

definition authz_cache_lookup ::
    "cache option \<Rightarrow> cstring \<Rightarrow> int \<Rightarrow> nat \<Rightarrow> cache option \<times> cache_entry option" where
  "authz_cache_lookup c sid now us =
     (case c of None \<Rightarrow> (None, None) | Some s \<Rightarrow> (case cache_lookup s (Some sid) now us of (d, r) \<Rightarrow> (Some d, r)))"

definition authz_cache_release :: "cache option \<Rightarrow> cache_entry \<Rightarrow> cache option option" where
  "authz_cache_release c entry =
     (case c of None \<Rightarrow> Some None | Some s \<Rightarrow> map_option Some (cache_release s (Some (addr entry))))"

definition authz_cache_invalidate :: "cache option \<Rightarrow> cstring \<Rightarrow> int \<Rightarrow> int \<times> cache option" where
  "authz_cache_invalidate c sid now =
     (case c of
        None \<Rightarrow> (-1, None)
      | Some s \<Rightarrow> (case cache_expire_entry s (Some sid) now of (rc, d) \<Rightarrow> (rc, Some d)))"

definition authz_cache_evict :: "cache option \<Rightarrow> int \<Rightarrow> int \<times> cache option" where
  "authz_cache_evict c now =
     (case c of
        None \<Rightarrow> (-1, None)
      | Some s \<Rightarrow> (case cache_evict_expired s now of (n, d) \<Rightarrow> (n, Some d)))"

subsection \<open>Building the list\<close>

definition AUTHZ_PERMISSION_LIST_BUF_SIZE :: nat where
  "AUTHZ_PERMISSION_LIST_BUF_SIZE = 8192"

text \<open>The codes of one batch; \<open>True\<close> when the next one does not fit.\<close>

fun add_codes :: "cstring \<Rightarrow> cstring list \<Rightarrow> cstring \<times> bool" where
  "add_codes l [] = (l, False)"
| "add_codes l (c # cs) =
     (let needed = length c + (if length l > 0 then 1 else 0) in
      if length l + needed \<ge> AUTHZ_PERMISSION_LIST_BUF_SIZE then (l, True)
      else add_codes (l @ (if length l > 0 then '','' else []) @ c) cs)"

fun fetch_codes :: "cstring \<Rightarrow> cstring list option list \<Rightarrow> (cstring \<times> bool) option" where
  "fetch_codes l [] = Some (l, False)"
| "fetch_codes l (None # bs) = None"
| "fetch_codes l (Some rows # bs) =
     (if rows = [] then Some (l, False)
      else case add_codes l rows of (m, truncated) \<Rightarrow> if truncated then Some (m, True) else fetch_codes m bs)"

definition permission_sql :: "cstring \<Rightarrow> cstring" where
  "permission_sql ph = c_snprintf 512
     (''SELECT p.PERMISSION_CODE FROM   USER_ROLE ur JOIN   ROLE_PERMISSION rp ON rp.ROLE_ID = ur.ROLE_ID '' @
      ''JOIN   PERMISSION p ON p.PERMISSION_ID = rp.PERMISSION_ID WHERE  ur.USER_ID = '' @ ph @
      '' ORDER BY p.PERMISSION_CODE'')"

definition authz_build_permission_cache ::
    "db_dialect \<Rightarrow> (cstring \<Rightarrow> cstring list \<Rightarrow> (int \<times> cstring list option list) option) \<Rightarrow>
     cache option \<Rightarrow> cstring \<Rightarrow> int \<Rightarrow> int \<Rightarrow> nat option \<Rightarrow> int \<times> cache option" where
  "authz_build_permission_cache dl select_open c sid user_id now mem =
     (if sid = [] \<or> user_id \<le> 0 then (AUTHZ_ERR_INVALID_ARG, c)
      else
        (case bind_placeholder dl 1 16 of
           None \<Rightarrow> (AUTHZ_ERR_DB_FAILURE, c)
         | Some ph \<Rightarrow>
             (case select_open (permission_sql ph) [dec_int user_id] of
                None \<Rightarrow> (AUTHZ_ERR_DB_FAILURE, c)
              | Some (col_count, answers) \<Rightarrow>
                  (case fetch_codes [] answers of
                     None \<Rightarrow> (AUTHZ_ERR_DB_FAILURE, c)
                   | Some (permission_list, truncated) \<Rightarrow>
                       if col_count \<noteq> 1 then (AUTHZ_ERR_DB_FAILURE, c)
                       else (AUTHZ_OK, snd (authz_cache_store c sid permission_list now mem))))))"

subsection \<open>Checking a permission\<close>

text \<open>\<open>None\<close> would be the use of a freed entry.\<close>

definition authz_has_permission ::
    "cache option \<Rightarrow> cstring \<Rightarrow> cstring \<Rightarrow> int \<Rightarrow> nat \<Rightarrow> (int \<times> cache option) option" where
  "authz_has_permission c sid code now us =
     (if sid = [] \<or> code = [] then Some (AUTHZ_ERR_INVALID_ARG, c)
      else if c = None then Some (AUTHZ_ERR_DENIED, c)
      else
        (case authz_cache_lookup c sid now us of
           (c1, None) \<Rightarrow> Some (AUTHZ_ERR_DENIED, c1)
         | (c1, Some entry) \<Rightarrow>
             (case authz_cache_release c1 entry of
                None \<Rightarrow> None
              | Some c2 \<Rightarrow>
                  (case authz_cache_decode (output_document entry) AUTHZ_PERMISSION_LIST_BUF_SIZE of
                     None \<Rightarrow> Some (AUTHZ_ERR_DENIED, c2)
                   | Some permission_list \<Rightarrow>
                       if list_ex (\<lambda>token. token = code) (c_tokens (CHR '','') permission_list)
                       then Some (AUTHZ_OK, c2) else Some (AUTHZ_ERR_DENIED, c2)))))"

subsection \<open>What the list holds\<close>

definition code_ok :: "cstring \<Rightarrow> bool" where
  "code_ok p \<longleftrightarrow> p \<noteq> [] \<and> CHR '','' \<notin> set p \<and> p \<noteq> ''-''"

definition csv :: "cstring list \<Rightarrow> cstring" where
  "csv ps = join_with (CHR '','') ps"

lemma csv_snoc: "csv (ps @ [p]) = (if ps = [] then p else csv ps @ '','' @ p)"
  by (simp add: csv_def join_with_snoc)

lemma csv_Nil: "\<forall>p \<in> set ps. code_ok p \<Longrightarrow> csv ps = [] \<longleftrightarrow> ps = []"
  unfolding csv_def by (rule join_with_eq_Nil) (simp add: code_ok_def)

lemma csv_tokens: "\<forall>p \<in> set ps. code_ok p \<Longrightarrow> c_tokens (CHR '','') (csv ps) = ps"
  unfolding csv_def by (rule c_tokens_join) (simp add: code_ok_def)

lemma csv_not_dash: "\<forall>p \<in> set ps. code_ok p \<Longrightarrow> csv ps \<noteq> ''-''"
proof
  assume ok: "\<forall>p \<in> set ps. code_ok p" and "csv ps = ''-''"
  then have "c_tokens (CHR '','') ''-'' = ps" using csv_tokens by metis
  then have "''-'' \<in> set ps" using c_tokens_first(2) [of "''-''" "CHR '',''"] by auto
  with ok show False by (auto simp: code_ok_def)
qed

lemma length_csv_take: "length (csv (take k ps)) \<le> length (csv ps)"
  unfolding csv_def
proof (induction "CHR '',''" ps arbitrary: k rule: join_with.induct)
  case (3 a b r)
  show ?case
  proof (cases k)
    case (Suc j)
    with 3 [of j] show ?thesis by (cases j) simp_all
  qed simp
qed (simp_all add: take_Cons')

text \<open>The list built is that of a longest prefix of the codes that fits.\<close>

definition fitting :: "cstring list \<Rightarrow> cstring list \<Rightarrow> bool \<Rightarrow> bool" where
  "fitting all kept truncated \<longleftrightarrow>
     (\<exists>k \<le> length all. kept = take k all \<and> length (csv kept) < AUTHZ_PERMISSION_LIST_BUF_SIZE \<and>
        (truncated \<longleftrightarrow> k < length all) \<and>
        (k < length all \<longrightarrow> AUTHZ_PERMISSION_LIST_BUF_SIZE \<le> length (csv (take (Suc k) all))))"

lemma add_codes_fitting:
  assumes "\<forall>p \<in> set (ps @ cs). code_ok p" "length (csv ps) < AUTHZ_PERMISSION_LIST_BUF_SIZE"
  shows "\<exists>kept t. add_codes (csv ps) cs = (csv kept, t) \<and> fitting (ps @ cs) kept t \<and> (\<not> t \<longrightarrow> kept = ps @ cs)"
  using assms
proof (induction cs arbitrary: ps)
  case Nil
  have "fitting ps ps False" using Nil.prems(2) by (auto simp: fitting_def intro!: exI [of _ "length ps"])
  then show ?case by auto
next
  case (Cons c cs)
  have nil: "csv ps = [] \<longleftrightarrow> ps = []" using csv_Nil Cons.prems(1) by simp
  have step: "csv ps @ (if length (csv ps) > 0 then '','' else []) @ c = csv (ps @ [c])"
    using nil csv_snoc [of ps c] by (cases "ps = []") (simp_all add: csv_def)
  show ?case
  proof (cases "length (csv (ps @ [c])) \<ge> AUTHZ_PERMISSION_LIST_BUF_SIZE")
    case True
    then have "add_codes (csv ps) (c # cs) = (csv ps, True)" using step [symmetric] by (auto simp: Let_def)
    moreover have "fitting (ps @ c # cs) ps True"
      unfolding fitting_def using Cons.prems(2) True by (intro exI [of _ "length ps"]) simp
    ultimately show ?thesis by auto
  next
    case False
    then have "add_codes (csv ps) (c # cs) = add_codes (csv (ps @ [c])) cs"
      using step [symmetric] by (auto simp: Let_def)
    moreover have "\<exists>kept t. add_codes (csv (ps @ [c])) cs = (csv kept, t) \<and> fitting ((ps @ [c]) @ cs) kept t \<and>
        (\<not> t \<longrightarrow> kept = (ps @ [c]) @ cs)"
      using Cons.prems(1) False by (intro Cons.IH) simp_all
    ultimately show ?thesis by simp
  qed
qed

text \<open>Answers without a failure and without an empty batch before the end.\<close>

definition all_rows :: "cstring list option list \<Rightarrow> cstring list option" where
  "all_rows bs = (if \<forall>b \<in> set bs. b \<noteq> None \<and> b \<noteq> Some [] then Some (concat (map the bs)) else None)"

lemma all_rows_Cons: "all_rows (b # bs) = Some cs \<Longrightarrow> \<exists>r rs. b = Some r \<and> r \<noteq> [] \<and> all_rows bs = Some rs \<and> cs = r @ rs"
  by (auto simp: all_rows_def split: if_splits)

lemma fitting_more: "fitting (ps @ r) kept True \<Longrightarrow> fitting (ps @ r @ rs) kept True"
proof -
  assume "fitting (ps @ r) kept True"
  then obtain k where k: "k < length (ps @ r)" "kept = take k (ps @ r)" "length (csv kept) < AUTHZ_PERMISSION_LIST_BUF_SIZE"
    "AUTHZ_PERMISSION_LIST_BUF_SIZE \<le> length (csv (take (Suc k) (ps @ r)))" by (auto simp: fitting_def)
  from k(1) have "take k (ps @ r @ rs) = take k (ps @ r)" "take (Suc k) (ps @ r @ rs) = take (Suc k) (ps @ r)" by simp_all
  with k show ?thesis unfolding fitting_def by (intro exI [of _ k]) (simp del: take_append)
qed

lemma fetch_codes_fitting:
  assumes "all_rows bs = Some cs" "\<forall>p \<in> set (ps @ cs). code_ok p" "length (csv ps) < AUTHZ_PERMISSION_LIST_BUF_SIZE"
  shows "\<exists>kept t. fetch_codes (csv ps) bs = Some (csv kept, t) \<and> fitting (ps @ cs) kept t"
  using assms
proof (induction bs arbitrary: ps cs)
  case Nil
  then have "fitting ps ps False" "cs = []" by (auto simp: fitting_def all_rows_def intro!: exI [of _ "length ps"])
  then show ?case by auto
next
  case (Cons b bs)
  from all_rows_Cons [OF Cons.prems(1)] obtain r rs where
    b: "b = Some r" "r \<noteq> []" "all_rows bs = Some rs" "cs = r @ rs" by blast
  have "\<forall>p \<in> set (ps @ r). code_ok p" using Cons.prems(2) [unfolded b(4) set_append ball_Un] unfolding set_append ball_Un
    by (elim conjE, intro conjI)
  from add_codes_fitting [OF this Cons.prems(3)] obtain kept t where
    k: "add_codes (csv ps) r = (csv kept, t)" "fitting (ps @ r) kept t" "\<not> t \<longrightarrow> kept = ps @ r" by blast
  show ?case
  proof (cases t)
    case True
    with k fitting_more [of ps r kept rs] b show ?thesis by auto
  next
    case False
    then have kept: "kept = ps @ r" "length (csv (ps @ r)) < AUTHZ_PERMISSION_LIST_BUF_SIZE"
      using k(2,3) by (auto simp: fitting_def)
    have "\<exists>kept t. fetch_codes (csv (ps @ r)) bs = Some (csv kept, t) \<and> fitting ((ps @ r) @ rs) kept t"
      using Cons.prems(2) b(4) kept(2) by (intro Cons.IH [OF b(3)]) simp_all
    with False b k(1) kept(1) show ?thesis by simp
  qed
qed

subsection \<open>Encoding\<close>

lemma authz_decode_encode:
  assumes "l \<noteq> ''-''" "length l < n"
  shows "authz_cache_decode (authz_cache_encode (Some l)) n = Some l"
proof -
  have e: "authz_cache_encode (Some l) = AUTHZ_CACHE_ENCODING_VERSION @ CHR ''|'' # (if l = [] then ''-'' else l)"
    by (cases l) (simp_all add: authz_cache_encode_def Let_def)
  have s: "c_strchr (AUTHZ_CACHE_ENCODING_VERSION @ CHR ''|'' # r) (CHR ''|'') = Some (length AUTHZ_CACHE_ENCODING_VERSION)" for r
    by (rule c_strchr_append) (simp add: AUTHZ_CACHE_ENCODING_VERSION_def)
  show ?thesis using assms unfolding authz_cache_decode_def e s by (cases "l = []") (simp_all add: Let_def)
qed

subsection \<open>The two operations together\<close>

lemma authz_store_put:
  "sid \<noteq> [] \<Longrightarrow> authz_cache_store (Some s) sid l now mem =
     (case cache_put s sid (authz_cache_encode (Some l)) (Some authz_opts) now mem of (rc, d) \<Rightarrow> (rc, Some d))"
  by (simp add: authz_cache_store_def cache_put_def Let_def split: prod.splits)

text \<open>Checking a permission on a consistent cache never touches a freed entry; it grants exactly the codes of the
  unexpired list, and leaves the view as it was but for the borrowed mark it clears.\<close>

definition granted :: "cstring option \<Rightarrow> cstring list" where
  "granted doc =
     (case doc of
        None \<Rightarrow> []
      | Some d \<Rightarrow>
          (case authz_cache_decode d AUTHZ_PERMISSION_LIST_BUF_SIZE of
             None \<Rightarrow> [] | Some l \<Rightarrow> c_tokens (CHR '','') l))"

lemma has_permission_view:
  assumes "cache_ok s" "sid \<noteq> []" "code \<noteq> []"
  shows "\<exists>u. authz_has_permission (Some s) sid code now us =
      Some (if code \<in> set (granted (live now (cache_view s sid))) then AUTHZ_OK else AUTHZ_ERR_DENIED, Some u) \<and>
    cache_ok u \<and> (\<forall>k. cache_view u k = cache_view s k \<or> cache_view u k = mark False (cache_view s k))"
proof -
  obtain t r where l: "cache_look s sid now us = (t, r)" by (cases "cache_look s sid now us")
  have lk: "authz_cache_lookup (Some s) sid now us = (Some t, snd (cache_lookup s (Some sid) now us))"
    "r = map_option (\<lambda>e. (addr e, output_document e)) (snd (cache_lookup s (Some sid) now us))"
    using l by (auto simp: cache_look_def authz_cache_lookup_def split: prod.splits)
  show ?thesis
  proof (cases "live now (cache_view s sid)")
    case None
    note n = cst.read_none [OF assms(1) None l]
    with lk have "snd (cache_lookup s (Some sid) now us) = None" by simp
    with n lk None assms(2,3) show ?thesis by (simp add: authz_has_permission_def granted_def)
  next
    case (Some doc)
    from cst.read_some [OF assms(1) Some l] obtain h u where
      r: "r = Some (h, doc)" "cache_release t (Some h) = Some u" "cache_ok u"
        "cache_view u = (cache_view s)(sid := mark False (cache_view s sid))" by blast
    from lk(2) r(1) obtain e where e: "snd (cache_lookup s (Some sid) now us) = Some e" "addr e = h" "output_document e = doc"
      by (cases "snd (cache_lookup s (Some sid) now us)") auto
    have rel: "authz_cache_release (Some t) e = Some (Some u)" using r(2) e(2) by (simp add: authz_cache_release_def)
    have "authz_has_permission (Some s) sid code now us =
        Some (if code \<in> set (granted (live now (cache_view s sid))) then AUTHZ_OK else AUTHZ_ERR_DENIED, Some u)"
      using assms(2,3) by (simp add: authz_has_permission_def lk(1) e rel Some granted_def list_ex_iff split: option.splits)
    with r(3,4) show ?thesis by simp
  qed
qed

text \<open>Fail closed. A check never touches freed memory, grants a code exactly when it is a whole entry of the
  unexpired list cached for the session, and denies in every other case: no cache, no list, an expired list, an
  entry that does not decode.\<close>

theorem permission_fails_closed:
  assumes "cache_ok s" "sid \<noteq> []" "code \<noteq> []"
  shows "\<exists>u. authz_has_permission (Some s) sid code now us =
      Some (if \<exists>doc l. live now (cache_view s sid) = Some doc \<and> authz_cache_decode doc AUTHZ_PERMISSION_LIST_BUF_SIZE = Some l \<and>
               code \<in> set (c_tokens (CHR '','') l) then AUTHZ_OK else AUTHZ_ERR_DENIED, Some u) \<and> cache_ok u \<and>
    authz_has_permission None sid code now us = Some (AUTHZ_ERR_DENIED, None)"
proof -
  have "code \<in> set (granted (live now (cache_view s sid))) \<longleftrightarrow>
      (\<exists>doc l. live now (cache_view s sid) = Some doc \<and> authz_cache_decode doc AUTHZ_PERMISSION_LIST_BUF_SIZE = Some l \<and>
        code \<in> set (c_tokens (CHR '','') l))"
    by (cases "live now (cache_view s sid)"; cases "authz_cache_decode (the (live now (cache_view s sid))) AUTHZ_PERMISSION_LIST_BUF_SIZE")
       (simp_all add: granted_def)
  moreover have "authz_has_permission None sid code now us = Some (AUTHZ_ERR_DENIED, None)"
    using assms(2,3) by (simp add: authz_has_permission_def)
  ultimately show ?thesis using has_permission_view [OF assms, of now us] by auto
qed

lemma tiny_ok: "cache_ok tiny" "ttl_seconds tiny = 60" "cache_view tiny k = None" "fresh_mem tiny mem"
  using cache_reachable_wf [OF tiny_reachable]
  by (simp_all add: cache_ok_def tiny_def cache_view_def stored_def all_entries_def fresh_mem_def split: option.splits)

lemma permission_fails_closed_witness:
  "\<exists>u. authz_has_permission (Some tiny) ''S'' ''A.READ'' 100 0 = Some (AUTHZ_ERR_DENIED, Some u) \<and> cache_ok u"
  using permission_fails_closed [OF tiny_ok(1), of "''S''" "''A.READ''" 100 0] by (auto simp: tiny_ok live_def)

text \<open>C8. Authorization decides membership. After the permission list of a session has been built from the
  rows of the query, a check grants a code until the list expires exactly when the code is among the rows that
  fit the buffer, all of them unless the list is cut, and then the longest prefix of whole codes; afterwards it
  denies. (Codes must be non-empty, without a comma, and not a single dash.)\<close>

theorem permission_check_exact:
  assumes "cache_ok s" "fresh_mem s (Some a)" "\<not> lent (cache_view s sid)" "0 < ttl_seconds s" "0 \<le> now"
    and "sid \<noteq> []" "0 < user_id" "bind_placeholder dl 1 16 = Some ph"
    and "select_open (permission_sql ph) [dec_int user_id] = Some (1, answers)" "all_rows answers = Some codes"
    and "\<forall>p \<in> set codes. code_ok p" "code \<noteq> []"
  shows "\<exists>t k u. authz_build_permission_cache dl select_open (Some s) sid user_id now (Some a) = (AUTHZ_OK, Some t) \<and>
    k \<le> length codes \<and> (length (csv codes) < AUTHZ_PERMISSION_LIST_BUF_SIZE \<longrightarrow> k = length codes) \<and>
    (k < length codes \<longrightarrow> AUTHZ_PERMISSION_LIST_BUF_SIZE \<le> length (csv (take (Suc k) codes))) \<and>
    authz_has_permission (Some t) sid code later us =
      Some (if later < now + ttl_seconds s \<and> code \<in> set (take k codes) then AUTHZ_OK else AUTHZ_ERR_DENIED, u)"
proof -
  have "\<exists>kept tr. fetch_codes (csv []) answers = Some (csv kept, tr) \<and> fitting ([] @ codes) kept tr"
    by (rule fetch_codes_fitting [OF assms(10)])
      (use assms(11) in \<open>simp_all add: csv_def AUTHZ_PERMISSION_LIST_BUF_SIZE_def\<close>)
  then obtain kept tr where f: "fetch_codes [] answers = Some (csv kept, tr)" "fitting codes kept tr"
    by (auto simp: csv_def)
  then obtain k where k: "k \<le> length codes" "kept = take k codes" "length (csv kept) < AUTHZ_PERMISSION_LIST_BUF_SIZE"
    "k < length codes \<longrightarrow> AUTHZ_PERMISSION_LIST_BUF_SIZE \<le> length (csv (take (Suc k) codes))" by (auto simp: fitting_def)
  obtain rc t where p: "cache_put s sid (authz_cache_encode (Some (csv kept))) (Some authz_opts) now (Some a) = (rc, t)"
    by (cases "cache_put s sid (authz_cache_encode (Some (csv kept))) (Some authz_opts) now (Some a)")
  have ttl: "effective_ttl s (Some authz_opts) = ttl_seconds s" by (simp add: effective_ttl_def authz_opts_def)
  note put = cst.put_then_live [OF assms(1-3) _ _ p, unfolded ttl, OF assms(4)]
  have b: "authz_build_permission_cache dl select_open (Some s) sid user_id now (Some a) = (AUTHZ_OK, Some t)"
    using assms(6-9) f(1) by (simp add: authz_build_permission_cache_def authz_store_put p)
  have ok: "cache_ok t" "live later (cache_view t sid) =
      (if later < now + ttl_seconds s then Some (authz_cache_encode (Some (csv kept))) else None)"
    using put [of later] assms(4,5) by auto
  have kok: "\<forall>p \<in> set kept. code_ok p" using assms(11) k(2) by (auto dest: in_set_takeD)
  have "granted (live later (cache_view t sid)) = (if later < now + ttl_seconds s then take k codes else [])"
    using authz_decode_encode [OF csv_not_dash [OF kok] k(3)] csv_tokens [OF kok] ok(2) k(2)
    by (simp add: granted_def)
  with has_permission_view [OF ok(1) assms(6,12), of later us] obtain u where
    h: "authz_has_permission (Some t) sid code later us =
      Some (if later < now + ttl_seconds s \<and> code \<in> set (take k codes) then AUTHZ_OK else AUTHZ_ERR_DENIED, Some u)"
    by (auto split: if_splits)
  have "length (csv codes) < AUTHZ_PERMISSION_LIST_BUF_SIZE \<longrightarrow> k = length codes"
    using k(1,4) length_csv_take [of "Suc k" codes] by (cases "k < length codes") auto
  with b h k(1,4) show ?thesis by blast
qed

lemma permission_check_exact_witness:
  "\<exists>t u. authz_build_permission_cache oracle_dialect (\<lambda>_ _. Some (1, [Some [''A.READ'', ''A.READALL'']])) (Some tiny) ''S'' 5 100 (Some 7) =
      (AUTHZ_OK, Some t) \<and>
    authz_has_permission (Some t) ''S'' ''A.READ'' 159 0 = Some (AUTHZ_OK, u)"
proof -
  let ?open = "\<lambda>_ _. Some (1, [Some [''A.READ'', ''A.READALL'']])"
  have ph: "bind_placeholder oracle_dialect 1 16 = Some '':1''" by code_simp
  have rows: "all_rows [Some [''A.READ'', ''A.READALL'']] = Some [''A.READ'', ''A.READALL'']" by (simp add: all_rows_def)
  have ok: "\<forall>p \<in> set [''A.READ'', ''A.READALL'']. code_ok p" by (simp add: code_ok_def)
  have fit: "length (csv [''A.READ'', ''A.READALL'']) < AUTHZ_PERMISSION_LIST_BUF_SIZE"
    by (simp add: csv_def AUTHZ_PERMISSION_LIST_BUF_SIZE_def)
  have "\<not> lent (cache_view tiny ''S'')" "0 < ttl_seconds tiny" by (simp_all add: tiny_ok lent_def)
  note e = permission_check_exact [OF tiny_ok(1) tiny_ok(4) this, where now = 100 and user_id = 5 and code = "''A.READ''" and later = 159
      and select_open = ?open and us = 0 and a = 7, OF _ _ _ ph _ rows ok]
  from e fit show ?thesis by (auto simp: tiny_ok)
qed

end
