(* ===== verification/Xml_Helper.thy ===== *)
theory Xml_Helper
  imports C_Parsing "HOL-Library.Monad_Syntax"
begin

text \<open>
  The XML builder of \<^verbatim>\<open>src/core/XML_Helper.c\<close>, the writers of \<^verbatim>\<open>src/core/Response_Writer.c\<close> that use
  it, and the scanner by which \<^verbatim>\<open>session/Session_Manager.c\<close> reads such a document back.

  \<^verbatim>\<open>xml_append\<close> formats into 8192 bytes of stack and then copies as many bytes as the whole text would
  have had: \<open>None\<close> is the case in which that reads past the formatted text. A format string is
  given already expanded. \<open>malloc\<close> and \<open>realloc\<close> are taken to succeed.
\<close>

subsection \<open>The builder\<close>

record xml_builder =
  xb_capacity :: nat
  xb_text :: cstring

partial_function (option) grow :: "nat \<Rightarrow> nat \<Rightarrow> nat option" where
  "grow need cap = (if need > cap then grow need (cap * 2) else Some cap)"

definition ensure_capacity :: "nat \<Rightarrow> xml_builder \<Rightarrow> xml_builder option" where
  "ensure_capacity extra xml =
     map_option (\<lambda>c. xml\<lparr>xb_capacity := c\<rparr>) (grow (length (xb_text xml) + extra + 1) (xb_capacity xml))"

definition xml_create :: "nat \<Rightarrow> xml_builder" where
  "xml_create n = \<lparr>xb_capacity = n, xb_text = []\<rparr>"

definition XML_TEMP :: nat where "XML_TEMP = 8192"

definition xml_append :: "cstring \<Rightarrow> xml_builder \<Rightarrow> xml_builder option" where
  "xml_append piece xml =
     (if piece = [] then Some xml
      else if length piece \<ge> XML_TEMP then None
      else do { x \<leftarrow> ensure_capacity (length piece) xml; Some (x\<lparr>xb_text := xb_text x @ piece\<rparr>) })"

definition xml_append_raw :: "cstring option \<Rightarrow> xml_builder \<Rightarrow> xml_builder option" where
  "xml_append_raw str xml =
     (case str of
        None \<Rightarrow> Some xml
      | Some s \<Rightarrow>
          if s = [] then Some xml
          else do { x \<leftarrow> ensure_capacity (length s) xml; Some (x\<lparr>xb_text := xb_text x @ s\<rparr>) })"

definition escape_char :: "char \<Rightarrow> cstring" where
  "escape_char c =
     (if c = CHR ''&'' then ''&amp;''
      else if c = CHR ''<'' then ''&lt;''
      else if c = CHR ''>'' then ''&gt;''
      else if c = CHR 0x22 then ''&quot;''
      else if c = CHR 0x27 then ''&apos;''
      else [c])"

fun escape_loop :: "cstring \<Rightarrow> xml_builder \<Rightarrow> xml_builder option" where
  "escape_loop [] tmp = Some tmp"
| "escape_loop (c # p) tmp = do { t \<leftarrow> xml_append (escape_char c) tmp; escape_loop p t }"

definition xml_escape :: "cstring option \<Rightarrow> cstring option" where
  "xml_escape input =
     (case input of None \<Rightarrow> Some [] | Some s \<Rightarrow> map_option xb_text (escape_loop s (xml_create 256)))"

definition xml_start_resultset :: "xml_builder \<Rightarrow> xml_builder option" where
  "xml_start_resultset = xml_append (''<resultset>'' @ [CHR 0x0A])"

definition xml_end_resultset :: "xml_builder \<Rightarrow> xml_builder option" where
  "xml_end_resultset = xml_append (''</resultset>'' @ [CHR 0x0A])"

definition xml_add_row_start :: "nat \<Rightarrow> xml_builder \<Rightarrow> xml_builder option" where
  "xml_add_row_start rownum = xml_append (''<row number='' @ [CHR 0x22] @ dec rownum @ [CHR 0x22] @ ''>'' @ [CHR 0x0A])"

definition xml_add_row_end :: "xml_builder \<Rightarrow> xml_builder option" where
  "xml_add_row_end = xml_append (''</row>'' @ [CHR 0x0A])"

definition xml_add_field :: "cstring \<Rightarrow> cstring \<Rightarrow> cstring \<Rightarrow> xml_builder \<Rightarrow> xml_builder option" where
  "xml_add_field name type value xml = do {
     e_name \<leftarrow> xml_escape (Some name);
     e_type \<leftarrow> xml_escape (Some type);
     e_value \<leftarrow> xml_escape (Some value);
     xml_append (''<field><field_name>'' @ e_name @ ''</field_name><field_type>'' @ e_type @
       ''</field_type><field_value>'' @ e_value @ ''</field_value></field>'' @ [CHR 0x0A]) xml }"

text \<open>\<^verbatim>\<open>lob_item_t\<close>, as far as it is read here.\<close>

record lob_item =
  column_name :: "cstring option"
  file_name :: "cstring option"
  output_file_destination :: "cstring option"
  output_file_url :: "cstring option"
  blob_size :: nat
  mime_type :: "cstring option"

definition or_text :: "cstring \<Rightarrow> cstring option \<Rightarrow> cstring" where
  "or_text d s = (case s of None \<Rightarrow> d | Some t \<Rightarrow> t)"

definition xml_add_blob_field_1 :: "lob_item \<Rightarrow> xml_builder \<Rightarrow> xml_builder option" where
  "xml_add_blob_field_1 item xml = do {
     e_name \<leftarrow> xml_escape (Some (or_text ''UNKNOWN'' (column_name item)));
     e_file \<leftarrow> xml_escape (Some (or_text ''N/A'' (file_name item)));
     e_path \<leftarrow> xml_escape (Some (or_text ''N/A'' (output_file_destination item)));
     x1 \<leftarrow> xml_append (''<field><field_name>'' @ e_name @ ''</field_name><field_type>BLOB</field_type><field_value/><blob><file_name>'' @
             e_file @ ''</file_name><file_path>'' @ e_path @ ''</file_path>'') xml;
     x2 \<leftarrow> (case output_file_url item of
              None \<Rightarrow> Some x1
            | Some u \<Rightarrow> do { e_url \<leftarrow> xml_escape (Some u); xml_append (''<file_url>'' @ e_url @ ''</file_url>'') x1 });
     xml_append (''<file_size>'' @ dec (blob_size item) @ ''</file_size><mime_type>'' @
       or_text ''application/octet-stream'' (mime_type item) @ ''</mime_type></blob></field>'' @ [CHR 0x0A]) x2 }"

subsection \<open>The result set writer\<close>

record resultset_field =
  fld_name :: cstring
  fld_type :: cstring
  fld_value :: cstring
  fld_blob :: "lob_item option"

record resultset_row =
  record_number :: nat
  row_fields :: "resultset_field list"

definition write_field :: "resultset_field \<Rightarrow> xml_builder \<Rightarrow> xml_builder option" where
  "write_field fld xml =
     (case fld_blob fld of
        Some item \<Rightarrow> xml_add_blob_field_1 (item\<lparr>column_name := Some (fld_name fld)\<rparr>) xml
      | None \<Rightarrow> xml_add_field (fld_name fld) (fld_type fld) (fld_value fld) xml)"

fun write_fields :: "resultset_field list \<Rightarrow> xml_builder \<Rightarrow> xml_builder option" where
  "write_fields [] xml = Some xml"
| "write_fields (f # fs) xml = do { x \<leftarrow> write_field f xml; write_fields fs x }"

fun write_rows :: "resultset_row list \<Rightarrow> xml_builder \<Rightarrow> xml_builder option" where
  "write_rows [] xml = Some xml"
| "write_rows (r # rs) xml = do {
     x1 \<leftarrow> xml_add_row_start (record_number r) xml;
     x2 \<leftarrow> write_fields (row_fields r) x1;
     x3 \<leftarrow> xml_add_row_end x2;
     write_rows rs x3 }"

definition response_write_xml :: "resultset_row list option \<Rightarrow> cstring option option" where
  "response_write_xml rs =
     (case rs of
        None \<Rightarrow> Some None
      | Some rows \<Rightarrow> do {
          x1 \<leftarrow> xml_start_resultset (xml_create 16384);
          x2 \<leftarrow> write_rows rows x1;
          x3 \<leftarrow> xml_end_resultset x2;
          Some (Some (xb_text x3)) })"

subsection \<open>Scanning a document for its rows\<close>

text \<open>
  \<^verbatim>\<open>next_row\<close> and \<^verbatim>\<open>row_field_value\<close>. A row is the text from \<open><row\<close> to its closing tag; the
  second component is where the next search starts.
\<close>

definition next_row :: "cstring \<Rightarrow> (cstring \<times> cstring) option" where
  "next_row cursor =
     (case c_strstr cursor ''<row '' of
        None \<Rightarrow> None
      | Some i \<Rightarrow>
          let s = drop i cursor in
          (case c_strstr s ''</row>'' of
             None \<Rightarrow> None
           | Some j \<Rightarrow> Some (take (j + 6) s, drop (j + 6) s)))"

definition row_field_value :: "cstring \<Rightarrow> cstring \<Rightarrow> nat \<Rightarrow> cstring option" where
  "row_field_value row field_name dest_max =
     (let name_tag = c_snprintf 160 (''<field_name>'' @ field_name @ ''</field_name>'') in
      case c_strstr row name_tag of
        None \<Rightarrow> None
      | Some i \<Rightarrow>
          (case c_strstr (drop i row) ''<field_value>'' of
             None \<Rightarrow> None
           | Some j \<Rightarrow>
               let v = drop (i + j + 13) row in
               (case c_strstr v ''</field_value>'' of
                  None \<Rightarrow> None
                | Some n \<Rightarrow> Some (take (if n \<ge> dest_max then dest_max - 1 else n) v))))"

lemma next_row_shorter: "next_row s = Some (row, rest) \<Longrightarrow> length rest < length s"
proof -
  assume "next_row s = Some (row, rest)"
  then obtain i j where i: "c_strstr s ''<row '' = Some i" and j: "c_strstr (drop i s) ''</row>'' = Some j"
    "rest = drop (j + 6) (drop i s)" by (auto simp: next_row_def Let_def split: option.splits)
  from c_strstr_Some [OF i] have "drop i s \<noteq> []" by (auto simp: cs_prefix_def)
  then have "i < length s" by simp
  with j(2) show ?thesis by simp
qed

text \<open>The ids the reconciliation collects: the named field of every row that has it.\<close>

function scan_rows :: "cstring \<Rightarrow> nat \<Rightarrow> cstring \<Rightarrow> cstring list" where
  "scan_rows field n cursor =
     (case next_row cursor of
        None \<Rightarrow> []
      | Some (row, rest) \<Rightarrow>
          (case row_field_value row field n of None \<Rightarrow> scan_rows field n rest | Some v \<Rightarrow> v # scan_rows field n rest))"
  by pat_completeness auto
termination by (relation "measure (\<lambda>(f, n, s). length s)") (auto dest: next_row_shorter)

declare scan_rows.simps [simp del]

subsection \<open>What is built\<close>

lemma grow_returns: "0 < cap \<Longrightarrow> \<exists>c. grow need cap = Some c \<and> need \<le> c \<and> 0 < c"
proof (induction "need - cap" arbitrary: cap rule: less_induct)
  case less
  show ?case
  proof (cases "need > cap")
    case True
    with less.prems have "need - cap * 2 < need - cap" "0 < cap * 2" by auto
    from less.hyps [OF this] True show ?thesis by (subst grow.simps) simp
  next
    case False
    with less.prems show ?thesis by (subst grow.simps) simp
  qed
qed

text \<open>A capacity of 0 would never grow; every builder of the code is created with a positive one.\<close>

definition xb_ok :: "xml_builder \<Rightarrow> bool" where
  "xb_ok x \<longleftrightarrow> 0 < xb_capacity x \<and> length (xb_text x) < xb_capacity x"

lemma xml_create_ok: "0 < n \<Longrightarrow> xb_ok (xml_create n)"
  by (simp add: xb_ok_def xml_create_def)

lemma ensure_capacity_ok:
  assumes "xb_ok x"
  shows "\<exists>y. ensure_capacity n x = Some y \<and> xb_text y = xb_text x \<and> length (xb_text x) + n < xb_capacity y"
proof -
  from assms obtain c where "grow (length (xb_text x) + n + 1) (xb_capacity x) = Some c" "length (xb_text x) + n + 1 \<le> c"
    using grow_returns [of "xb_capacity x"] by (auto simp: xb_ok_def)
  then show ?thesis by (simp add: ensure_capacity_def)
qed

lemma xml_append_ok:
  assumes "xb_ok x" "length piece < XML_TEMP"
  shows "\<exists>y. xml_append piece x = Some y \<and> xb_ok y \<and> xb_text y = xb_text x @ piece"
proof (cases "piece = []")
  case True
  with assms show ?thesis by (simp add: xml_append_def)
next
  case False
  obtain y where "ensure_capacity (length piece) x = Some y" "xb_text y = xb_text x" "length (xb_text x) + length piece < xb_capacity y"
    using ensure_capacity_ok [OF assms(1)] by blast
  with False assms(2) show ?thesis by (simp add: xml_append_def xb_ok_def)
qed

lemma xml_append_over: "XML_TEMP \<le> length piece \<Longrightarrow> xml_append piece x = None"
  by (auto simp: xml_append_def XML_TEMP_def)

lemma xml_append_raw_ok: "xb_ok x \<Longrightarrow> \<exists>y. xml_append_raw (Some s) x = Some y \<and> xb_ok y \<and> xb_text y = xb_text x @ s"
  using ensure_capacity_ok [of x "length s"] by (auto simp: xml_append_raw_def xb_ok_def)

definition esc :: "cstring \<Rightarrow> cstring" where
  "esc s = concat (map escape_char s)"

lemma length_escape_char: "1 \<le> length (escape_char c) \<and> length (escape_char c) \<le> 6"
  by (simp add: escape_char_def)

lemma xml_escape_text: "xml_escape (Some s) = Some (esc s)"
proof -
  have "xb_ok x \<Longrightarrow> \<exists>y. escape_loop s x = Some y \<and> xb_text y = xb_text x @ esc s" for x
  proof (induction s arbitrary: x)
    case Nil
    then show ?case by (simp add: esc_def)
  next
    case (Cons c s)
    have "length (escape_char c) < XML_TEMP" using length_escape_char [of c] by (simp add: XML_TEMP_def)
    from xml_append_ok [OF Cons.prems this] obtain y where
      y: "xml_append (escape_char c) x = Some y" "xb_ok y" "xb_text y = xb_text x @ escape_char c" by blast
    from Cons.IH [OF y(2)] y(1,3) show ?case by (auto simp: esc_def)
  qed
  from this [OF xml_create_ok [of 256]] show ?thesis by (auto simp: xml_escape_def xml_create_def)
qed

text \<open>Escaping removes the characters that would start or end a tag or an attribute, and can be undone.\<close>

lemma esc_no_tag: "CHR ''<'' \<notin> set (esc s) \<and> CHR ''>'' \<notin> set (esc s)"
  by (auto simp: esc_def escape_char_def split: if_splits)

fun unescape :: "cstring \<Rightarrow> cstring" where
  "unescape [] = []"
| "unescape (c # t) =
     (if cs_prefix ''&amp;'' (c # t) then CHR ''&'' # unescape (drop 4 t)
      else if cs_prefix ''&lt;'' (c # t) then CHR ''<'' # unescape (drop 3 t)
      else if cs_prefix ''&gt;'' (c # t) then CHR ''>'' # unescape (drop 3 t)
      else if cs_prefix ''&quot;'' (c # t) then CHR 0x22 # unescape (drop 5 t)
      else if cs_prefix ''&apos;'' (c # t) then CHR 0x27 # unescape (drop 5 t)
      else c # unescape t)"

lemma unescape_char: "unescape (escape_char c @ r) = c # unescape r"
  by (auto simp: escape_char_def cs_prefix_def)

lemma unescape_esc: "unescape (esc s) = s"
proof (induction s)
  case Nil
  show ?case by (simp add: esc_def)
next
  case (Cons c s)
  then show ?case using unescape_char [of c "esc s"] by (simp add: esc_def)
qed

subsection \<open>The document of a result set\<close>

definition field_text :: "resultset_field \<Rightarrow> cstring" where
  "field_text f = ''<field>'' @ ''<field_name>'' @ esc (fld_name f) @ ''</field_name>'' @ ''<field_type>'' @ esc (fld_type f) @
     ''</field_type>'' @ ''<field_value>'' @ esc (fld_value f) @ ''</field_value>'' @ ''</field>'' @ [CHR 0x0A]"

definition row_text :: "resultset_row \<Rightarrow> cstring" where
  "row_text r = ''<row '' @ (''number='' @ [CHR 0x22] @ dec (record_number r) @ [CHR 0x22] @ ''>'' @ [CHR 0x0A]) @
     concat (map field_text (row_fields r)) @ ''</row>'' @ [CHR 0x0A]"

text \<open>Rows without BLOBs whose fields each fit the formatting buffer.\<close>

definition row_short :: "resultset_row \<Rightarrow> bool" where
  "row_short r \<longleftrightarrow> record_number r < 2 ^ 32 \<and> (\<forall>f \<in> set (row_fields r). fld_blob f = None \<and> length (field_text f) < XML_TEMP)"

lemma write_field_ok:
  assumes "xb_ok x" "fld_blob f = None" "length (field_text f) < XML_TEMP"
  shows "\<exists>y. write_field f x = Some y \<and> xb_ok y \<and> xb_text y = xb_text x @ field_text f"
  using xml_append_ok [OF assms(1,3)] assms(2)
  by (simp add: write_field_def xml_add_field_def xml_escape_text field_text_def)

lemma write_field_over:
  assumes "fld_blob f = None" "XML_TEMP \<le> length (field_text f)"
  shows "write_field f x = None"
  using xml_append_over [OF assms(2), of x] assms(1)
  by (simp add: write_field_def xml_add_field_def xml_escape_text field_text_def)

lemma write_fields_ok:
  "xb_ok x \<Longrightarrow> \<forall>f \<in> set fs. fld_blob f = None \<and> length (field_text f) < XML_TEMP \<Longrightarrow>
     \<exists>y. write_fields fs x = Some y \<and> xb_ok y \<and> xb_text y = xb_text x @ concat (map field_text fs)"
proof (induction fs arbitrary: x)
  case (Cons f fs)
  then obtain y where y: "write_field f x = Some y" "xb_ok y" "xb_text y = xb_text x @ field_text f"
    using write_field_ok [of x f] by auto
  with Cons.IH [OF y(2)] Cons.prems show ?case by auto
qed simp

lemma write_rows_ok:
  "xb_ok x \<Longrightarrow> \<forall>r \<in> set rs. row_short r \<Longrightarrow>
     \<exists>y. write_rows rs x = Some y \<and> xb_ok y \<and> xb_text y = xb_text x @ concat (map row_text rs)"
proof (induction rs arbitrary: x)
  case (Cons r rs)
  let ?open = "''<row number='' @ [CHR 0x22] @ dec (record_number r) @ [CHR 0x22] @ ''>'' @ [CHR 0x0A]"
  have "record_number r < 10 ^ 10" using Cons.prems(2) by (simp add: row_short_def)
  then have "length (dec (record_number r)) \<le> 10" using length_dec_le [of "record_number r" 10] by simp
  then have "length ?open < XML_TEMP" "length (''</row>'' @ [CHR 0x0A]) < XML_TEMP" by (simp_all add: XML_TEMP_def)
  note len = this
  from xml_append_ok [OF Cons.prems(1) len(1)] obtain x1 where
    x1: "xml_add_row_start (record_number r) x = Some x1" "xb_ok x1" "xb_text x1 = xb_text x @ ?open"
    by (auto simp: xml_add_row_start_def)
  from write_fields_ok [OF x1(2), of "row_fields r"] Cons.prems(2) obtain x2 where
    x2: "write_fields (row_fields r) x1 = Some x2" "xb_ok x2" "xb_text x2 = xb_text x1 @ concat (map field_text (row_fields r))"
    by (auto simp: row_short_def)
  from xml_append_ok [OF x2(2) len(2)] obtain x3 where
    x3: "xml_add_row_end x2 = Some x3" "xb_ok x3" "xb_text x3 = xb_text x2 @ ''</row>'' @ [CHR 0x0A]"
    by (auto simp: xml_add_row_end_def)
  have "xb_text x3 = xb_text x @ row_text r" by (simp add: x1(3) x2(3) x3(3) row_text_def)
  with Cons.IH [OF x3(2)] Cons.prems(2) x1(1) x2(1) x3(1) show ?case by auto
qed simp

lemma response_write_xml_text:
  assumes "\<forall>r \<in> set rows. row_short r"
  shows "response_write_xml (Some rows) =
    Some (Some (''<resultset>'' @ [CHR 0x0A] @ concat (map row_text rows) @ ''</resultset>'' @ [CHR 0x0A]))"
proof -
  have len: "length (''<resultset>'' @ [CHR 0x0A]) < XML_TEMP" "length (''</resultset>'' @ [CHR 0x0A]) < XML_TEMP"
    by (simp_all add: XML_TEMP_def)
  have "xb_ok (xml_create 16384)" by (rule xml_create_ok) simp
  from xml_append_ok [OF this len(1)] obtain x1 where
    x1: "xml_start_resultset (xml_create 16384) = Some x1" "xb_ok x1" "xb_text x1 = ''<resultset>'' @ [CHR 0x0A]"
    by (auto simp: xml_start_resultset_def xml_create_def)
  from write_rows_ok [OF x1(2) assms] obtain x2 where
    x2: "write_rows rows x1 = Some x2" "xb_ok x2" "xb_text x2 = xb_text x1 @ concat (map row_text rows)" by blast
  from xml_append_ok [OF x2(2) len(2)] obtain x3 where
    x3: "xml_end_resultset x2 = Some x3" "xb_text x3 = xb_text x2 @ ''</resultset>'' @ [CHR 0x0A]"
    by (auto simp: xml_end_resultset_def)
  show ?thesis using x1(1,3) x2(1,3) x3 by (simp add: response_write_xml_def)
qed

subsection \<open>The scanner reads it back\<close>

text \<open>A piece of text in which the pattern does not begin.\<close>

definition passes :: "cstring \<Rightarrow> cstring \<Rightarrow> bool" where
  "passes w a \<longleftrightarrow> (\<forall>s. c_strstr (a @ s) w = map_option (\<lambda>i. i + length a) (c_strstr s w))"

lemma passes_Nil: "passes w []"
  by (simp add: passes_def option.map_ident)

lemma passes_append: "passes w a \<Longrightarrow> passes w b \<Longrightarrow> passes w (a @ b)"
  by (simp add: passes_def option.map_comp comp_def add_ac)

lemma passes_concat: "\<forall>a \<in> set as. passes w a \<Longrightarrow> passes w (concat as)"
  by (induction as) (simp_all add: passes_Nil passes_append)

lemma passes_Cons:
  assumes "\<And>s. \<not> cs_prefix w (c # a @ s)" "passes w a"
  shows "passes w (c # a)"
  using assms by (simp add: passes_def option.map_comp comp_def)

lemma passes_text: "w = CHR ''<'' # w' \<Longrightarrow> CHR ''<'' \<notin> set a \<Longrightarrow> passes w a"
proof (induction a)
  case Nil
  show ?case by (rule passes_Nil)
next
  case (Cons c a)
  then have "c \<noteq> CHR ''<''" "passes w a" by auto
  then show ?case using Cons.prems(1) by (intro passes_Cons) (auto simp: cs_prefix_def)
qed

lemma passes_tag:
  assumes "w = CHR ''<'' # w'" "CHR ''<'' \<notin> set a" "\<And>s. \<not> cs_prefix w (CHR ''<'' # a @ s)"
  shows "passes w (CHR ''<'' # a)"
  using passes_text [OF assms(1,2)] assms(3) by (intro passes_Cons)

lemma strstr_hit: "cs_prefix w s \<Longrightarrow> c_strstr s w = Some 0"
  by (cases s) (auto simp: cs_prefix_def)

lemma passes_hit: "passes w a \<Longrightarrow> c_strstr (a @ w @ s) w = Some (length a)"
  using strstr_hit [of w "w @ s"] by (simp add: passes_def)

lemmas xml_tag = passes_tag [OF refl] passes_text [OF refl]

lemma esc_plain: "CHR ''<'' \<notin> set (esc s)"
  using esc_no_tag by blast

lemma passes_field_close: "passes ''</row>'' (field_text f)"
  unfolding field_text_def
  by (intro passes_append xml_tag(1)) (simp_all add: cs_prefix_def xml_tag(2) esc_plain)

lemma dec_no_tag: "CHR ''<'' \<notin> set (dec n)"
  using dec_all_digits [of "CHR ''<''" n] by (auto simp: c_isdigit_def byte_def)

lemma passes_head: "w = CHR ''<'' # w' \<Longrightarrow> passes w (''number='' @ [CHR 0x22] @ dec n @ [CHR 0x22] @ ''>'' @ [CHR 0x0A])"
  by (rule passes_text) (simp_all add: dec_no_tag)

lemma next_row_gen:
  assumes "passes ''<row '' pre" "passes ''</row>'' (''<row '' @ body)"
  shows "next_row (pre @ (''<row '' @ body @ ''</row>'') @ s) = Some (''<row '' @ body @ ''</row>'', s)"
proof -
  define w1 where "w1 = ''<row ''"
  define w2 where "w2 = ''</row>''"
  have l: "length w2 = 6" by (simp add: w2_def)
  have "c_strstr (pre @ w1 @ body @ w2 @ s) w1 = Some (length pre)"
    using passes_hit [of w1 pre] assms(1) by (simp add: w1_def)
  moreover have "c_strstr (w1 @ body @ w2 @ s) w2 = Some (length (w1 @ body))"
    using passes_hit [of w2 "w1 @ body" s] assms(2) by (simp add: w1_def w2_def)
  ultimately show ?thesis
    unfolding next_row_def w1_def [symmetric] w2_def [symmetric] Let_def by (simp add: l)
qed

lemma next_row_first:
  assumes "passes ''<row '' pre"
  shows "\<exists>row. next_row (pre @ row_text r @ s) = Some (row, CHR 0x0A # s) \<and>
    row = ''<row '' @ (''number='' @ [CHR 0x22] @ dec (record_number r) @ [CHR 0x22] @ ''>'' @ [CHR 0x0A]) @
      concat (map field_text (row_fields r)) @ ''</row>''"
proof -
  let ?body = "(''number='' @ [CHR 0x22] @ dec (record_number r) @ [CHR 0x22] @ ''>'' @ [CHR 0x0A]) @ concat (map field_text (row_fields r))"
  have "passes ''</row>'' (''<row '' @ ?body)"
    by (intro passes_append passes_concat ballI passes_head [OF refl] xml_tag(1))
       (auto simp: cs_prefix_def passes_field_close)
  from next_row_gen [OF assms this, of "CHR 0x0A # s"]
  show ?thesis unfolding row_text_def append_assoc by simp
qed

lemma esc_inj: "esc a = esc b \<longleftrightarrow> a = b"
  using unescape_esc by metis

lemma prefix_bar:
  "CHR ''<'' \<notin> set a \<Longrightarrow> CHR ''<'' \<notin> set b \<Longrightarrow> cs_prefix (a @ CHR ''<'' # x) (b @ CHR ''<'' # y) \<Longrightarrow> a = b"
proof (induction a arbitrary: b)
  case Nil
  then show ?case by (cases b) (auto simp: cs_prefix_def)
next
  case (Cons c a)
  then obtain d b' where b: "b = d # b'" by (cases b) (auto simp: cs_prefix_def)
  with Cons.prems have "c = d" "cs_prefix (a @ CHR ''<'' # x) (b' @ CHR ''<'' # y)" by (auto simp: cs_prefix_def)
  with Cons b show ?case by simp
qed

definition name_tag :: "cstring \<Rightarrow> cstring" where
  "name_tag n = ''<field_name>'' @ n @ ''</field_name>''"

text \<open>A name written as it is, short enough for the buffer of the tag.\<close>

definition plain_name :: "cstring \<Rightarrow> bool" where
  "plain_name n \<longleftrightarrow> esc n = n \<and> length n \<le> 128"

lemma passes_other_name:
  assumes "plain_name n" "fld_name f \<noteq> n"
  shows "passes (name_tag n) (field_text f)"
proof -
  have n: "esc n = n" "CHR ''<'' \<notin> set n" using assms(1) esc_plain [of n] by (simp_all add: plain_name_def)
  have w: "name_tag n = CHR ''<'' # (''field_name>'' @ n @ ''</field_name>'')" by (simp add: name_tag_def)
  have "\<not> cs_prefix (name_tag n) (''<field_name>'' @ esc (fld_name f) @ ''</field_name>'' @ s)" for s
  proof
    assume "cs_prefix (name_tag n) (''<field_name>'' @ esc (fld_name f) @ ''</field_name>'' @ s)"
    then have "cs_prefix (n @ CHR ''<'' # ''/field_name>'') (esc (fld_name f) @ CHR ''<'' # (''/field_name>'' @ s))"
      by (simp add: name_tag_def cs_prefix_def)
    from prefix_bar [OF n(2) esc_plain this] have "fld_name f = n" using n(1) esc_inj [of n "fld_name f"] by simp
    with assms(2) show False by simp
  qed
  note head = this
  have tail: "passes (name_tag n) ''</field_name>''"
    unfolding w by (rule xml_tag(1)) (simp_all add: cs_prefix_def)
  have "passes (name_tag n) (''<field_name>'' @ esc (fld_name f) @ ''</field_name>'')"
  proof -
    have "passes (name_tag n) (''field_name>'' @ esc (fld_name f) @ ''</field_name>'')"
      by (intro passes_append tail passes_text [OF w]) (simp_all add: esc_plain)
    from passes_Cons [OF _ this, of "CHR ''<''"] head show ?thesis by simp
  qed
  moreover have "passes (name_tag n) ''<field>''" "passes (name_tag n) ''<field_type>''" "passes (name_tag n) ''</field_type>''"
    "passes (name_tag n) ''<field_value>''" "passes (name_tag n) ''</field_value>''" "passes (name_tag n) ''</field>''"
    unfolding w by ((rule xml_tag(1); simp add: cs_prefix_def))+
  moreover have "passes (name_tag n) (esc s)" "passes (name_tag n) [CHR 0x0A]" for s
    by (rule passes_text [OF w]; simp add: esc_plain)+
  ultimately show ?thesis
    unfolding field_text_def
    using passes_append [of "name_tag n" "''<field_name>'' @ esc (fld_name f) @ ''</field_name>''"
        "''<field_type>'' @ esc (fld_type f) @ ''</field_type>'' @ ''<field_value>'' @ esc (fld_value f) @ ''</field_value>'' @
         ''</field>'' @ [CHR 0x0A]"]
    by (simp only: append_assoc) (blast intro: passes_append)
qed

text \<open>What the scanner should see: the field of that name, as it was escaped, cut to the caller's buffer.\<close>

definition row_value :: "cstring \<Rightarrow> nat \<Rightarrow> resultset_row \<Rightarrow> cstring option" where
  "row_value n d r = map_option (\<lambda>f. take (d - 1) (esc (fld_value f))) (find (\<lambda>f. fld_name f = n) (row_fields r))"

lemma name_tag_bar: "name_tag n = CHR ''<'' # (''field_name>'' @ n @ ''</field_name>'')"
  by (simp add: name_tag_def)

lemma name_tag_fits: "plain_name n \<Longrightarrow> c_snprintf 160 (''<field_name>'' @ n @ ''</field_name>'') = name_tag n"
  by (simp add: name_tag_def plain_name_def)

lemma passes_row_start:
  "passes (name_tag n) (''<row '' @ (''number='' @ [CHR 0x22] @ dec k @ [CHR 0x22] @ ''>'' @ [CHR 0x0A]))"
  by (intro passes_append [of _ "''<row ''"] passes_head [OF name_tag_bar])
     (unfold name_tag_bar, rule xml_tag(1), simp_all add: cs_prefix_def)

lemma row_field_value_some:
  assumes n: "plain_name n" and fs: "row_fields r = fs @ f # gs" "\<forall>g \<in> set fs. fld_name g \<noteq> n" "fld_name f = n" and "0 < d"
    and row: "row = ''<row '' @ (''number='' @ [CHR 0x22] @ dec (record_number r) @ [CHR 0x22] @ ''>'' @ [CHR 0x0A]) @
      concat (map field_text (row_fields r)) @ ''</row>''"
  shows "row_field_value row n d = Some (take (d - 1) (esc (fld_value f)))"
proof -
  define open_v where "open_v = ''<field_value>''"
  define close_v where "close_v = ''</field_value>''"
  define A where "A = (''<row '' @ (''number='' @ [CHR 0x22] @ dec (record_number r) @ [CHR 0x22] @ ''>'' @ [CHR 0x0A])) @
    concat (map field_text fs) @ ''<field>''"
  define T where "T = ''<field_type>'' @ esc (fld_type f) @ ''</field_type>''"
  define B where "B = ''</field>'' @ [CHR 0x0A] @ concat (map field_text gs) @ ''</row>''"
  have e: "esc n = n" using n by (simp add: plain_name_def)
  have row': "row = A @ name_tag n @ T @ open_v @ esc (fld_value f) @ close_v @ B"
    unfolding row fs(1) A_def T_def B_def open_v_def close_v_def name_tag_def
    by (simp only: map_append concat_append list.map concat.simps field_text_def fs(3) e append_assoc)
  have "passes (name_tag n) ''<field>''" unfolding name_tag_bar by (rule xml_tag(1)) (simp_all add: cs_prefix_def)
  moreover have "passes (name_tag n) (concat (map field_text fs))"
    by (rule passes_concat) (use passes_other_name [OF n] fs(2) in auto)
  ultimately have "passes (name_tag n) A" unfolding A_def by (intro passes_append [OF passes_row_start] passes_append)
  from passes_hit [OF this] have i: "c_strstr row (name_tag n) = Some (length A)" by (simp add: row')
  have "passes open_v (name_tag n @ T)"
  proof -
    have "passes open_v ''<field_name>''" "passes open_v ''</field_name>''" "passes open_v ''<field_type>''" "passes open_v ''</field_type>''"
      unfolding open_v_def by ((rule xml_tag(1); simp add: cs_prefix_def))+
    moreover have "passes open_v n" "passes open_v (esc (fld_type f))"
      unfolding open_v_def using esc_plain [of n] e by (auto intro!: xml_tag(2) simp: esc_plain)
    ultimately show ?thesis unfolding name_tag_def T_def by (intro passes_append)
  qed
  from passes_hit [OF this] have j: "c_strstr (name_tag n @ T @ open_v @ esc (fld_value f) @ close_v @ B) open_v = Some (length (name_tag n @ T))"
    by simp
  have "passes close_v (esc (fld_value f))" unfolding close_v_def by (rule xml_tag(2)) (rule esc_plain)
  from passes_hit [OF this] have k: "c_strstr (esc (fld_value f) @ close_v @ B) close_v = Some (length (esc (fld_value f)))" .
  have lo: "length open_v = 13" by (simp add: open_v_def)
  have "drop (length A + length (name_tag n @ T) + 13) row = esc (fld_value f) @ close_v @ B"
    by (simp add: row' lo)
  moreover have "drop (length A) row = name_tag n @ T @ open_v @ esc (fld_value f) @ close_v @ B" by (simp add: row')
  moreover have "take (if d \<le> length (esc (fld_value f)) then d - 1 else length (esc (fld_value f))) (esc (fld_value f)) =
      take (d - 1) (esc (fld_value f))" using assms(5) by auto
  ultimately show ?thesis
    unfolding row_field_value_def name_tag_fits [OF n] Let_def open_v_def [symmetric] close_v_def [symmetric]
    by (simp only: i option.case j k) auto
qed

lemma row_field_value_none:
  assumes n: "plain_name n" and fs: "\<forall>g \<in> set (row_fields r). fld_name g \<noteq> n"
    and row: "row = ''<row '' @ (''number='' @ [CHR 0x22] @ dec (record_number r) @ [CHR 0x22] @ ''>'' @ [CHR 0x0A]) @
      concat (map field_text (row_fields r)) @ ''</row>''"
  shows "row_field_value row n d = None"
proof -
  have "passes (name_tag n) ''</row>''" unfolding name_tag_bar by (rule xml_tag(1)) (simp_all add: cs_prefix_def)
  moreover have "passes (name_tag n) (concat (map field_text (row_fields r)))"
    by (rule passes_concat) (use passes_other_name [OF n] fs in auto)
  ultimately have "passes (name_tag n) ((''<row '' @ (''number='' @ [CHR 0x22] @ dec (record_number r) @ [CHR 0x22] @ ''>'' @ [CHR 0x0A])) @
      concat (map field_text (row_fields r)) @ ''</row>'')"
    by (intro passes_append [OF passes_row_start] passes_append)
  then have "passes (name_tag n) row" by (simp only: row append_assoc)
  then have "c_strstr (row @ []) (name_tag n) = map_option (\<lambda>i. i + length row) (c_strstr [] (name_tag n))"
    unfolding passes_def by (rule spec)
  moreover have "c_strstr [] (name_tag n) = None" by (simp add: name_tag_def)
  ultimately have "c_strstr row (name_tag n) = None" by simp
  then show ?thesis unfolding row_field_value_def name_tag_fits [OF n] Let_def by simp
qed

lemma row_field_value_row:
  assumes n: "plain_name n" "0 < d"
    and row: "row = ''<row '' @ (''number='' @ [CHR 0x22] @ dec (record_number r) @ [CHR 0x22] @ ''>'' @ [CHR 0x0A]) @
      concat (map field_text (row_fields r)) @ ''</row>''"
  shows "row_field_value row n d = row_value n d r"
proof (cases "find (\<lambda>f. fld_name f = n) (row_fields r)")
  case None
  then have "\<forall>g \<in> set (row_fields r). fld_name g \<noteq> n" by (simp add: find_None_iff)
  with row_field_value_none [OF n(1) _ row] None show ?thesis by (simp add: row_value_def)
next
  case (Some f)
  then obtain i where i: "i < length (row_fields r)" "row_fields r ! i = f" "fld_name f = n" "\<forall>j < i. fld_name (row_fields r ! j) \<noteq> n"
    by (auto simp: find_Some_iff)
  have "row_fields r = take i (row_fields r) @ f # drop (Suc i) (row_fields r)" using id_take_nth_drop [OF i(1)] i(2) by simp
  moreover have "\<forall>g \<in> set (take i (row_fields r)). fld_name g \<noteq> n"
  proof
    fix g assume "g \<in> set (take i (row_fields r))"
    then obtain j where "j < i" "g = row_fields r ! j" using i(1) by (auto simp: in_set_conv_nth)
    with i(4) show "fld_name g \<noteq> n" by blast
  qed
  ultimately show ?thesis using row_field_value_some [OF n(1) _ _ i(3) n(2) row] Some by (simp add: row_value_def)
qed

lemma scan_rows_text:
  assumes "plain_name n" "0 < d" "passes ''<row '' pre" "next_row (CHR 0x0A # post) = None" "next_row (pre @ post) = None"
  shows "scan_rows n d (pre @ concat (map row_text rs) @ post) = List.map_filter (row_value n d) rs"
  using assms(3,5)
proof (induction rs arbitrary: pre)
  case Nil
  then show ?case by (subst scan_rows.simps) simp
next
  case (Cons r rs)
  from next_row_first [OF Cons.prems(1), of r "concat (map row_text rs) @ post"] obtain row where
    row: "next_row (pre @ row_text r @ concat (map row_text rs) @ post) = Some (row, CHR 0x0A # concat (map row_text rs) @ post)"
    "row = ''<row '' @ (''number='' @ [CHR 0x22] @ dec (record_number r) @ [CHR 0x22] @ ''>'' @ [CHR 0x0A]) @
      concat (map field_text (row_fields r)) @ ''</row>''" by blast
  have "scan_rows n d ([CHR 0x0A] @ concat (map row_text rs) @ post) = List.map_filter (row_value n d) rs"
    by (rule Cons.IH) (use assms(4) in \<open>simp_all add: passes_text [OF refl]\<close>)
  then show ?case
    using row_field_value_row [OF assms(1,2) row(2)] row(1)
    by (subst scan_rows.simps) (simp add: map_filter_simps split: option.splits)
qed

text \<open>C17. The document of a result set is complete and is read back: the writer produces it, without leaving its
  formatting buffer, whenever every field fits, and the scanner of the session manager then finds exactly the
  values of the column it looks for, row by row, whatever the other columns contain; the escaping itself loses
  nothing.\<close>

theorem rows_read_back:
  assumes "\<forall>r \<in> set rows. row_short r" "plain_name n" "0 < d"
  shows "\<exists>doc. response_write_xml (Some rows) = Some (Some doc) \<and> scan_rows n d doc = List.map_filter (row_value n d) rows \<and>
    xml_escape (Some s) = Some (esc s) \<and> unescape (esc s) = s"
proof -
  have n: "next_row (CHR 0x0A # ''</resultset>'' @ [CHR 0x0A]) = None"
    "next_row ((''<resultset>'' @ [CHR 0x0A]) @ ''</resultset>'' @ [CHR 0x0A]) = None" by code_simp+
  have "passes ''<row '' (''<resultset>'' @ [CHR 0x0A])"
    by (intro passes_append xml_tag) (simp_all add: cs_prefix_def)
  from scan_rows_text [OF assms(2,3) this n] have
    "scan_rows n d (''<resultset>'' @ [CHR 0x0A] @ concat (map row_text rows) @ ''</resultset>'' @ [CHR 0x0A]) =
      List.map_filter (row_value n d) rows" by (simp only: append_assoc)
  with response_write_xml_text [OF assms(1)] xml_escape_text unescape_esc show ?thesis by simp
qed

definition test_rows :: "resultset_row list" where
  "test_rows = [\<lparr>record_number = 1, row_fields = [\<lparr>fld_name = ''NOTE'', fld_type = ''VARCHAR2'', fld_value = ''</row><row '', fld_blob = None\<rparr>,
     \<lparr>fld_name = ''SESSION_ID'', fld_type = ''VARCHAR2'', fld_value = ''1f-2'', fld_blob = None\<rparr>]\<rparr>]"

lemma rows_read_back_witness:
  "\<exists>doc. response_write_xml (Some test_rows) = Some (Some doc) \<and> scan_rows ''SESSION_ID'' 37 doc = [''1f-2'']"
proof -
  have e: "esc ''SESSION_ID'' = ''SESSION_ID''" "esc ''1f-2'' = ''1f-2''" by code_simp+
  have "\<forall>r \<in> set test_rows. row_short r"
    by (simp add: test_rows_def row_short_def field_text_def esc_def escape_char_def XML_TEMP_def)
  moreover have "plain_name ''SESSION_ID''" by (simp add: plain_name_def e)
  ultimately obtain doc where "response_write_xml (Some test_rows) = Some (Some doc)"
    "scan_rows ''SESSION_ID'' 37 doc = List.map_filter (row_value ''SESSION_ID'' 37) test_rows"
    using rows_read_back [of test_rows "''SESSION_ID''" 37] by auto
  moreover have "List.map_filter (row_value ''SESSION_ID'' 37) test_rows = [''1f-2'']"
    by (simp add: test_rows_def row_value_def map_filter_simps e)
  ultimately show ?thesis by simp
qed

text \<open>A value of 4000 quotes is a legal column value, and its field does not fit: the writer reads past the end
  of its formatting buffer.\<close>

lemma quotes_overrun:
  assumes "fld_blob f = None" "fld_value f = replicate 4000 (CHR 0x22)"
  shows "write_field f x = None"
proof -
  have "length (esc (replicate n (CHR 0x22))) = 6 * n" for n by (induction n) (simp_all add: esc_def escape_char_def)
  then have "24000 \<le> length (field_text f)" using assms(2) by (simp add: field_text_def)
  with write_field_over [OF assms(1)] show ?thesis by (simp add: XML_TEMP_def)
qed

end
