(* ===== verification/Session_Manager.thy ===== *)
theory Session_Manager
  imports Authz Xml_Helper Transaction_Runs
begin

text \<open>
  \<^verbatim>\<open>src/session/Session_Manager.c\<close>: the life of a session over the session cache and the table
  \<^verbatim>\<open>OCI_SESSION\<close>. The statements go through the insert, update and query modules: these are arguments
  that take the request and the state of the database, and return the code and the new state. Other
  arguments are the clock, the text \<^verbatim>\<open>localtime_r\<close>/\<^verbatim>\<open>strftime\<close> make of a time (\<open>fmt\<close>), the 16 random
  bytes of the identifier and the address the cache's \<^verbatim>\<open>calloc\<close> returns. The result texts' \<^verbatim>\<open>malloc\<close>
  is taken to succeed; logging is left out.
\<close>

definition SESSION_OK :: int where "SESSION_OK = 0"

definition SESSION_ERR_INVALID_ARG :: int where "SESSION_ERR_INVALID_ARG = -1"

definition SESSION_ERR_NOT_FOUND :: int where "SESSION_ERR_NOT_FOUND = -2"

definition SESSION_ERR_DB_FAILURE :: int where "SESSION_ERR_DB_FAILURE = -4"

definition SESSION_ERR_PARSE :: int where "SESSION_ERR_PARSE = -6"

lemmas session_codes = SESSION_OK_def SESSION_ERR_INVALID_ARG_def SESSION_ERR_NOT_FOUND_def
  SESSION_ERR_DB_FAILURE_def SESSION_ERR_PARSE_def

definition SESSION_TABLE_NAME :: cstring where "SESSION_TABLE_NAME = ''OCI_SESSION''"

subsection \<open>Requests\<close>

record session_request =
  rq_operation :: cstring
  rq_client_id :: cstring
  rq_client_ip :: cstring
  rq_client_host :: cstring
  rq_application_name :: cstring
  rq_ttl_seconds :: int

definition trim :: "cstring \<Rightarrow> cstring" where
  "trim s = rev (dropWhile c_isspace (rev (dropWhile c_isspace s)))"

definition extract_tag :: "cstring \<Rightarrow> cstring \<Rightarrow> nat \<Rightarrow> cstring option" where
  "extract_tag src tag dest_max =
     (let op = c_snprintf 64 (''<'' @ tag @ ''>''); cl = c_snprintf 64 (''</'' @ tag @ ''>'') in
      case c_strstr src op of
        None \<Rightarrow> None
      | Some i \<Rightarrow>
          let s = drop (i + length op) src in
          (case c_strstr s cl of
             None \<Rightarrow> None
           | Some n \<Rightarrow> Some (trim (take (if n \<ge> dest_max then dest_max - 1 else n) s))))"

text \<open>A tag that is missing leaves the zeroed field.\<close>

definition tag_or_empty :: "cstring \<Rightarrow> cstring \<Rightarrow> nat \<Rightarrow> cstring" where
  "tag_or_empty src tag n = (case extract_tag src tag n of None \<Rightarrow> [] | Some s \<Rightarrow> s)"

definition parse_session_request :: "cstring option \<Rightarrow> int + session_request" where
  "parse_session_request input_xml =
     (case input_xml of
        None \<Rightarrow> Inl SESSION_ERR_INVALID_ARG
      | Some xml \<Rightarrow>
          (case extract_tag xml ''operation'' 32 of
             None \<Rightarrow> Inl SESSION_ERR_PARSE
           | Some op \<Rightarrow>
               Inr \<lparr>rq_operation = op, rq_client_id = tag_or_empty xml ''client_id'' 128,
                    rq_client_ip = tag_or_empty xml ''client_ip'' 64,
                    rq_client_host = tag_or_empty xml ''client_host'' 128,
                    rq_application_name = tag_or_empty xml ''application_name'' 128,
                    rq_ttl_seconds = (case extract_tag xml ''requested_ttl_seconds'' 16 of
                                        None \<Rightarrow> 0 | Some t \<Rightarrow> c_atoi t)\<rparr>))"

subsection \<open>State\<close>

record session_ctx =
  cx_cache :: "cache option"
  cx_active_session_id :: cstring
  cx_active_client_ip :: cstring

record session_ini =
  si_default_ttl :: int
  si_username :: cstring

text \<open>The requests handed to the insert and update modules: table, owner, keys and fields.\<close>

record dml_request =
  dr_table :: cstring
  dr_owner :: cstring
  dr_keys :: "(cstring \<times> cstring) list"
  dr_fields :: "(cstring \<times> cstring) list"

text \<open>\<^verbatim>\<open>SESSION_SET\<close>: a name of 128 bytes and a value of 4096.\<close>

definition field_of :: "cstring \<Rightarrow> cstring \<Rightarrow> cstring \<times> cstring" where
  "field_of name val = (c_strncpy 128 name, c_strncpy 4096 val)"

definition field_if :: "cstring \<Rightarrow> cstring \<Rightarrow> (cstring \<times> cstring) list" where
  "field_if name val = (if val \<noteq> [] then [field_of name val] else [])"

subsection \<open>Creation\<close>

definition new_session :: "session_ini \<Rightarrow> session_request \<Rightarrow> 8 word list \<Rightarrow> int \<Rightarrow> session_record" where
  "new_session ini req rnd now =
     \<lparr>sess_id = tx_generate_uuid rnd, sess_status = SESSION_STATUS_ACTIVE, sess_created = now,
      sess_last_activity = now,
      sess_ttl = (if rq_ttl_seconds req > 0 then rq_ttl_seconds req
                  else if si_default_ttl ini > 0 then si_default_ttl ini else 1800),
      sess_client_id = c_strncpy 128 (rq_client_id req), sess_client_ip = c_strncpy 64 (rq_client_ip req),
      sess_client_host = c_strncpy 128 (rq_client_host req),
      sess_application_name = c_strncpy 128 (rq_application_name req)\<rparr>"

definition session_insert_request :: "session_ini \<Rightarrow> (int \<Rightarrow> cstring) \<Rightarrow> session_record \<Rightarrow> dml_request" where
  "session_insert_request ini fmt rec =
     \<lparr>dr_table = c_strncpy 128 SESSION_TABLE_NAME, dr_owner = c_strncpy 128 (si_username ini), dr_keys = [],
      dr_fields =
        [field_of ''SESSION_ID'' (sess_id rec), field_of ''STATUS'' (session_status_str (sess_status rec)),
         field_of ''TTL_SECONDS'' (dec_int (sess_ttl rec))] @
        field_if ''CLIENT_ID'' (sess_client_id rec) @ field_if ''CLIENT_IP'' (sess_client_ip rec) @
        field_if ''CLIENT_HOST'' (sess_client_host rec) @ field_if ''APPLICATION_NAME'' (sess_application_name rec) @
        [field_of ''CREATED_TS'' (c_snprintf 32 (fmt (sess_created rec))),
         field_of ''LAST_ACTIVITY_TS'' (c_snprintf 32 (fmt (sess_last_activity rec)))]\<rparr>"

definition NLs :: cstring where "NLs = [CHR 0x0A]"

definition create_xml :: "(int \<Rightarrow> cstring) \<Rightarrow> session_record \<Rightarrow> cstring" where
  "create_xml fmt rec = c_snprintf 512
     (''<session>'' @ NLs @ ''  <operation>CREATE_SESSION</operation>'' @ NLs @
      ''  <session_id>'' @ sess_id rec @ ''</session_id>'' @ NLs @
      ''  <status>'' @ session_status_str (sess_status rec) @ ''</status>'' @ NLs @
      ''  <created_ts>'' @ c_snprintf 32 (fmt (sess_created rec)) @ ''</created_ts>'' @ NLs @
      ''  <ttl_seconds>'' @ dec_int (sess_ttl rec) @ ''</ttl_seconds>'' @ NLs @ ''</session>'' @ NLs)"

definition session_create ::
    "session_ini \<Rightarrow> ('d \<Rightarrow> dml_request \<Rightarrow> int \<times> 'd) \<Rightarrow> (int \<Rightarrow> cstring) \<Rightarrow> 8 word list \<Rightarrow> int \<Rightarrow> nat option \<Rightarrow>
     session_request option \<Rightarrow> session_ctx \<Rightarrow> 'd \<Rightarrow> int \<times> cstring option \<times> session_ctx \<times> 'd" where
  "session_create ini exec_insert fmt rnd now mem req ctx db =
     (case req of
        None \<Rightarrow> (SESSION_ERR_INVALID_ARG, None, ctx, db)
      | Some rq \<Rightarrow>
          let rec = new_session ini rq rnd now in
          (case exec_insert db (session_insert_request ini fmt rec) of
             (rc, db') \<Rightarrow>
               if rc \<noteq> 0 then (SESSION_ERR_DB_FAILURE, None, ctx, db')
               else (SESSION_OK, Some (create_xml fmt rec),
                     ctx\<lparr>cx_cache := snd (session_cache_store (cx_cache ctx) rec now mem),
                         cx_active_session_id := c_strncpy 64 (sess_id rec),
                         cx_active_client_ip := c_strncpy 64 (sess_client_ip rec)\<rparr>, db')))"

subsection \<open>Validation and touch\<close>

text \<open>\<open>None\<close> would be the use of a freed cache entry. \<open>want\<close>: the caller passed \<open>out\<close>.\<close>

definition session_validate ::
    "session_ctx \<Rightarrow> cstring \<Rightarrow> bool \<Rightarrow> int \<Rightarrow> nat \<Rightarrow> (int \<times> session_record option \<times> session_ctx) option" where
  "session_validate ctx sid want now us =
     (if sid = [] then Some (SESSION_ERR_INVALID_ARG, None, ctx)
      else
        (case session_cache_lookup (cx_cache ctx) sid now us of
           (c1, None) \<Rightarrow> Some (SESSION_ERR_NOT_FOUND, None, ctx\<lparr>cx_cache := c1\<rparr>)
         | (c1, Some entry) \<Rightarrow>
             let dec = (if want then map_option Some (session_cache_decode (output_document entry)) else Some None) in
             map_option (\<lambda>c2. (case dec of
                 None \<Rightarrow> (SESSION_ERR_NOT_FOUND, None, ctx\<lparr>cx_cache := c2\<rparr>)
               | Some out \<Rightarrow> (SESSION_OK, out, ctx\<lparr>cx_cache := c2\<rparr>)))
               (session_cache_release c1 entry)))"

text \<open>
  \<^verbatim>\<open>session_touch\<close> in its two critical sections: it reads the record, and later writes it back. Other
  threads may run in between.
\<close>

definition touch_read :: "session_ctx \<Rightarrow> cstring \<Rightarrow> int \<Rightarrow> nat \<Rightarrow> ((int + session_record) \<times> session_ctx) option" where
  "touch_read ctx sid now us =
     (if sid = [] then Some (Inl SESSION_ERR_INVALID_ARG, ctx)
      else
        (case session_cache_lookup (cx_cache ctx) sid now us of
           (c1, None) \<Rightarrow> Some (Inl SESSION_ERR_NOT_FOUND, ctx\<lparr>cx_cache := c1\<rparr>)
         | (c1, Some entry) \<Rightarrow>
             map_option (\<lambda>c2. (case session_cache_decode (output_document entry) of
                 None \<Rightarrow> (Inl SESSION_ERR_NOT_FOUND, ctx\<lparr>cx_cache := c2\<rparr>)
               | Some rec \<Rightarrow> (Inr rec, ctx\<lparr>cx_cache := c2\<rparr>)))
               (session_cache_release c1 entry)))"

definition touch_write :: "session_ctx \<Rightarrow> session_record \<Rightarrow> int \<Rightarrow> nat option \<Rightarrow> int \<times> session_ctx" where
  "touch_write ctx rec now mem =
     (case session_cache_store (cx_cache ctx) (rec\<lparr>sess_last_activity := now\<rparr>) now mem of
        (rc, c) \<Rightarrow> (if rc \<noteq> 0 then SESSION_ERR_DB_FAILURE else SESSION_OK, ctx\<lparr>cx_cache := c\<rparr>))"

definition session_touch :: "session_ctx \<Rightarrow> cstring \<Rightarrow> int \<Rightarrow> nat \<Rightarrow> nat option \<Rightarrow> (int \<times> session_ctx) option" where
  "session_touch ctx sid now us mem =
     (case touch_read ctx sid now us of
        None \<Rightarrow> None
      | Some (Inl e, ctx1) \<Rightarrow> Some (e, ctx1)
      | Some (Inr rec, ctx1) \<Rightarrow> Some (touch_write ctx1 rec now mem))"

definition touch_update_request :: "session_ini \<Rightarrow> (int \<Rightarrow> cstring) \<Rightarrow> cstring \<Rightarrow> int \<Rightarrow> dml_request" where
  "touch_update_request ini fmt sid now =
     \<lparr>dr_table = c_strncpy 128 SESSION_TABLE_NAME, dr_owner = c_strncpy 128 (si_username ini),
      dr_keys = [field_of ''SESSION_ID'' sid],
      dr_fields = [field_of ''LAST_ACTIVITY_TS'' (c_snprintf 32 (fmt now))]\<rparr>"

definition session_touch_db ::
    "session_ini \<Rightarrow> ('d \<Rightarrow> dml_request \<Rightarrow> int \<times> 'd) \<Rightarrow> (int \<Rightarrow> cstring) \<Rightarrow> cstring \<Rightarrow> int \<Rightarrow> 'd \<Rightarrow> int \<times> 'd" where
  "session_touch_db ini exec_update fmt sid now db =
     (if sid = [] then (SESSION_ERR_INVALID_ARG, db)
      else
        (case exec_update db (touch_update_request ini fmt sid now) of
           (rc, db') \<Rightarrow> (if rc \<noteq> 0 then SESSION_ERR_DB_FAILURE else SESSION_OK, db')))"

subsection \<open>End\<close>

definition end_update_request ::
    "session_ini \<Rightarrow> (int \<Rightarrow> cstring) \<Rightarrow> cstring \<Rightarrow> session_status_t \<Rightarrow> cstring option \<Rightarrow> int \<Rightarrow> dml_request" where
  "end_update_request ini fmt sid st reason now =
     (let now_str = c_snprintf 32 (fmt now) in
      \<lparr>dr_table = c_strncpy 128 SESSION_TABLE_NAME, dr_owner = c_strncpy 128 (si_username ini),
       dr_keys = [field_of ''SESSION_ID'' sid],
       dr_fields = [field_of ''STATUS'' (session_status_str st), field_of ''CLOSED_TS'' now_str,
                    field_of ''CLOSE_REASON'' (case reason of None \<Rightarrow> ''-'' | Some r \<Rightarrow> r),
                    field_of ''LAST_ACTIVITY_TS'' now_str]\<rparr>)"

definition end_xml :: "(int \<Rightarrow> cstring) \<Rightarrow> cstring \<Rightarrow> session_status_t \<Rightarrow> int \<Rightarrow> cstring" where
  "end_xml fmt sid st now = c_snprintf 512
     (''<session>'' @ NLs @ ''  <operation>END_SESSION</operation>'' @ NLs @
      ''  <session_id>'' @ sid @ ''</session_id>'' @ NLs @ ''  <status>'' @ session_status_str st @ ''</status>'' @ NLs @
      ''  <closed_ts>'' @ c_snprintf 32 (fmt now) @ ''</closed_ts>'' @ NLs @ ''</session>'' @ NLs)"

definition session_end ::
    "session_ini \<Rightarrow> ('d \<Rightarrow> dml_request \<Rightarrow> int \<times> 'd) \<Rightarrow> (int \<Rightarrow> cstring) \<Rightarrow> int \<Rightarrow> cstring \<Rightarrow> session_status_t \<Rightarrow>
     cstring option \<Rightarrow> session_ctx \<Rightarrow> 'd \<Rightarrow> int \<times> cstring option \<times> session_ctx \<times> 'd" where
  "session_end ini exec_update fmt now sid st reason ctx db =
     (if sid = [] then (SESSION_ERR_INVALID_ARG, None, ctx, db)
      else if st \<noteq> SESSION_STATUS_EXPIRED \<and> st \<noteq> SESSION_STATUS_LOGGED_OUT \<and> st \<noteq> SESSION_STATUS_EXPIRED_ORPHAN
      then (SESSION_ERR_INVALID_ARG, None, ctx, db)
      else
        (case exec_update db (end_update_request ini fmt sid st reason now) of
           (rc, db') \<Rightarrow>
             if rc \<noteq> 0 then (SESSION_ERR_DB_FAILURE, None, ctx, db')
             else
               let ctx1 = ctx\<lparr>cx_cache := snd (session_cache_invalidate (cx_cache ctx) sid now)\<rparr>;
                   ctx2 = (if cx_active_session_id ctx1 = sid
                           then ctx1\<lparr>cx_active_session_id := [], cx_active_client_ip := []\<rparr> else ctx1)
               in (SESSION_OK, Some (end_xml fmt sid st now), ctx2, db')))"

subsection \<open>Reconciliation at start-up\<close>

definition ORPHAN_REASON :: cstring where
  "ORPHAN_REASON = ''Startup reconciliation - session left ACTIVE past TTL, likely due to an unclean process shutdown''"

definition orphan_sql :: "cstring \<Rightarrow> cstring \<Rightarrow> cstring" where
  "orphan_sql expiry_expr now_e = c_snprintf 512
     (''SELECT SESSION_ID, TTL_SECONDS FROM OCI_SESSION WHERE STATUS = '' @ [CHR 0x27] @ ''ACTIVE'' @ [CHR 0x27] @
      '' AND CLOSED_TS IS NULL AND '' @ expiry_expr @ '' < '' @ now_e)"

fun close_orphans ::
    "session_ini \<Rightarrow> ('d \<Rightarrow> dml_request \<Rightarrow> int \<times> 'd) \<Rightarrow> (int \<Rightarrow> cstring) \<Rightarrow> int \<Rightarrow> cstring list \<Rightarrow>
     session_ctx \<Rightarrow> 'd \<Rightarrow> nat \<times> session_ctx \<times> 'd" where
  "close_orphans ini exec_update fmt now [] ctx db = (0, ctx, db)"
| "close_orphans ini exec_update fmt now (sid # sids) ctx db =
     (case session_end ini exec_update fmt now sid SESSION_STATUS_EXPIRED_ORPHAN (Some ORPHAN_REASON) ctx db of
        (rc, _, ctx1, db1) \<Rightarrow>
          (case close_orphans ini exec_update fmt now sids ctx1 db1 of
             (closed, ctx2, db2) \<Rightarrow> (if rc = SESSION_OK then closed + 1 else closed, ctx2, db2)))"

text \<open>The query module answers its code and, with code 0, the document of the rows (or none).\<close>

definition session_reconcile_orphans ::
    "db_dialect \<Rightarrow> session_ini \<Rightarrow> ('d \<Rightarrow> cstring \<Rightarrow> int \<times> cstring option \<times> 'd) \<Rightarrow> ('d \<Rightarrow> dml_request \<Rightarrow> int \<times> 'd) \<Rightarrow>
     (int \<Rightarrow> cstring) \<Rightarrow> int \<Rightarrow> session_ctx \<Rightarrow> 'd \<Rightarrow> int \<times> nat \<times> session_ctx \<times> 'd" where
  "session_reconcile_orphans dl ini exec_query exec_update fmt now ctx db =
     (case add_seconds_expr dl (Some ''CREATED_TS'') (Some ''TTL_SECONDS'') 160 of
        None \<Rightarrow> (SESSION_OK, 0, ctx, db)
      | Some expiry_expr \<Rightarrow>
          (case exec_query db (orphan_sql expiry_expr (now_expr dl)) of
             (rc, xml, db1) \<Rightarrow>
               if rc \<noteq> 0 then (SESSION_OK, 0, ctx, db1)
               else
                 (case xml of
                    None \<Rightarrow> (SESSION_OK, 0, ctx, db1)
                  | Some doc \<Rightarrow>
                      (case close_orphans ini exec_update fmt now (scan_rows ''SESSION_ID'' SESSION_UUID_LEN doc) ctx db1 of
                         (closed, ctx2, db2) \<Rightarrow> (SESSION_OK, closed, ctx2, db2)))))"

end
