(* ===== verification/Session_Life.thy ===== *)
theory Session_Life
  imports Session_Manager
begin

text \<open>
  What holds of sessions over their life: a session created is valid until its time has passed, a touch moves
  that time, and a session that was ended stays ended whatever the other operations do, as long as each
  touch runs undisturbed; the interleaving that breaks this is shown as well. All rest on the contract of
  the store (\<open>Cache_Store\<close>), which \<open>cst\<close> gives for the cache.
\<close>

subsection \<open>The session cache as a store\<close>

lemma session_read:
  assumes "cache_ok s"
  shows "case live now (cache_view s sid) of
      None \<Rightarrow> \<exists>t. session_cache_lookup (Some s) sid now us = (Some t, None) \<and> cache_ok t \<and> cache_view t = cache_view s
    | Some doc \<Rightarrow> \<exists>t e u. session_cache_lookup (Some s) sid now us = (Some t, Some e) \<and> output_document e = doc \<and>
        session_cache_release (Some t) e = Some (Some u) \<and> cache_ok u \<and>
        cache_view u = (cache_view s)(sid := mark False (cache_view s sid))"
proof -
  obtain t r where l: "cache_look s sid now us = (t, r)" by (cases "cache_look s sid now us")
  have lk: "session_cache_lookup (Some s) sid now us = (Some t, snd (cache_lookup s (Some sid) now us))"
    "r = map_option (\<lambda>e. (addr e, output_document e)) (snd (cache_lookup s (Some sid) now us))"
    using l by (auto simp: cache_look_def session_cache_lookup_def split: prod.splits)
  show ?thesis
  proof (cases "live now (cache_view s sid)")
    case None
    from cst.read_none [OF assms None l] lk None show ?thesis by simp
  next
    case (Some doc)
    from cst.read_some [OF assms Some l] obtain h u where
      r: "r = Some (h, doc)" "cache_release t (Some h) = Some u" "cache_ok u"
        "cache_view u = (cache_view s)(sid := mark False (cache_view s sid))" by blast
    from lk(2) r(1) obtain e where e: "snd (cache_lookup s (Some sid) now us) = Some e" "addr e = h" "output_document e = doc"
      by (cases "snd (cache_lookup s (Some sid) now us)") auto
    have "session_cache_release (Some t) e = Some (Some u)" using r(2) e(2) by (simp add: session_cache_release_def)
    with lk(1) e r(3,4) Some show ?thesis by auto
  qed
qed

lemma session_read_none:
  assumes "cache_ok s" "live now (cache_view s sid) = None"
  obtains t where "session_cache_lookup (Some s) sid now us = (Some t, None)" "cache_ok t" "cache_view t = cache_view s"
  using session_read [OF assms(1), where now = now and sid = sid and us = us] assms(2) that by auto

lemma session_read_some:
  assumes "cache_ok s" "live now (cache_view s sid) = Some doc"
  obtains t e u where "session_cache_lookup (Some s) sid now us = (Some t, Some e)" "output_document e = doc"
    "session_cache_release (Some t) e = Some (Some u)" "cache_ok u"
    "cache_view u = (cache_view s)(sid := mark False (cache_view s sid))"
  using session_read [OF assms(1), where now = now and sid = sid and us = us] assms(2) that by auto

lemma session_store_put:
  assumes "sess_id rec \<noteq> []" "record_fits rec"
  shows "session_cache_store (Some s) rec now mem =
    (case cache_put s (sess_id rec) (session_text rec) (Some (session_opts rec)) now mem of (rc, d) \<Rightarrow> (rc, Some d))"
  using assms(1) encode_fits(2) [OF assms(2)] by (simp add: session_cache_store_def cache_put_def split: prod.splits)

lemma session_ttl: "0 < sess_ttl rec \<Longrightarrow> effective_ttl s (Some (session_opts rec)) = sess_ttl rec"
  by (simp add: effective_ttl_def session_opts_def)

subsection \<open>Identifiers\<close>

lemma hex_no_bar: "CHR ''|'' \<notin> set (hex2 b)"
  using concat_hex2(2) [of "[b]"] by auto

lemma uuid_plain:
  assumes "length rnd = 16"
  shows "length (tx_generate_uuid rnd) = 36" "CHR ''|'' \<notin> set (tx_generate_uuid rnd)"
proof -
  have "length (uuid_bytes rnd) = 16" using assms by (simp add: uuid_bytes_def)
  then show "length (tx_generate_uuid rnd) = 36" "CHR ''|'' \<notin> set (tx_generate_uuid rnd)"
    by (simp_all only: uuid_text [OF assms] length_append concat_hex2(1) length_take length_drop set_append) (simp_all add: hex_no_bar)
qed

definition id_ok :: "cstring \<Rightarrow> bool" where
  "id_ok sid \<longleftrightarrow> sid \<noteq> [] \<and> length sid < SESSION_UUID_LEN \<and> CHR ''|'' \<notin> set sid"

lemma uuid_ok: "length rnd = 16 \<Longrightarrow> id_ok (tx_generate_uuid rnd)"
  using uuid_plain [of rnd] by (auto simp: id_ok_def SESSION_UUID_LEN_def)

text \<open>Whatever the other fields hold, decoding gives back the identifier, and a record that fits.\<close>

lemma decode_id:
  assumes "record_fits r" "id_ok (sess_id r)" "session_cache_decode (session_text r) = Some r'"
  shows "sess_id r' = sess_id r"
proof -
  let ?rest = "session_status_str (sess_status r) @ ''|'' @ dec_int (sess_created r) @ ''|'' @ dec_int (sess_last_activity r) @
     ''|'' @ dec_int (sess_ttl r) @ ''|'' @ dash_if_empty (sess_client_id r) @ ''|'' @ dash_if_empty (sess_client_ip r) @ ''|'' @
     dash_if_empty (sess_client_host r) @ ''|'' @ dash_if_empty (sess_application_name r)"
  have "session_text r = ''SC1'' @ CHR ''|'' # sess_id r @ CHR ''|'' # ?rest"
    by (simp add: session_text_def SESSION_CACHE_ENCODING_VERSION_def)
  then have "c_tokens (CHR ''|'') (session_text r) = ''SC1'' # sess_id r # c_tokens (CHR ''|'') ?rest"
    using c_tokens_first(1) [of "''SC1''" "CHR ''|''" "sess_id r @ CHR ''|'' # ?rest"]
      c_tokens_first(1) [of "sess_id r" "CHR ''|''" ?rest] assms(2) by (simp add: id_ok_def)
  moreover have "c_strncpy 1024 (session_text r) = session_text r" using encode_fits(1) [OF assms(1)] by simp
  ultimately show ?thesis using assms(2,3)
    by (auto simp: session_cache_decode_def Let_def nth_token_def id_ok_def split: option.splits if_splits)
qed

lemma c_atol_range: "LONG_MIN \<le> c_atol s \<and> c_atol s \<le> LONG_MAX"
proof -
  have "LONG_MIN \<le> clamp_long v \<and> clamp_long v \<le> LONG_MAX" "LONG_MIN \<le> 0" "0 \<le> LONG_MAX" for v
    by (simp_all add: clamp_long_def LONG_MIN_def LONG_MAX_def)
  then show ?thesis by (simp add: c_atol_def c_strtol_def Let_def split: prod.split)
qed

lemma opt_field_length: "0 < n \<Longrightarrow> length (opt_field n f) < n"
  by (auto simp: opt_field_def split: option.splits)

lemma decode_fits: "session_cache_decode doc = Some r \<Longrightarrow> record_fits r"
  using c_atol_range to_int_range opt_field_length
  by (auto simp: session_cache_decode_def Let_def record_fits_def c_atoi_def SESSION_UUID_LEN_def
      split: option.splits if_splits)

subsection \<open>The operations on the view\<close>

lemma validate_none:
  assumes "cx_cache ctx = Some s" "cache_ok s" "sid \<noteq> []" "live now (cache_view s sid) = None"
  shows "\<exists>t. session_validate ctx sid want now us = Some (SESSION_ERR_NOT_FOUND, None, ctx\<lparr>cx_cache := Some t\<rparr>) \<and>
    cache_ok t \<and> cache_view t = cache_view s"
proof -
  from session_read_none [OF assms(2,4), of us] obtain t where
    "session_cache_lookup (Some s) sid now us = (Some t, None)" "cache_ok t" "cache_view t = cache_view s" .
  then show ?thesis using assms(1,3) by (intro exI [of _ t]) (simp add: session_validate_def)
qed

lemma validate_some:
  assumes "cx_cache ctx = Some s" "cache_ok s" "sid \<noteq> []" "live now (cache_view s sid) = Some doc"
  shows "\<exists>u. session_validate ctx sid want now us =
      Some (if want then (case session_cache_decode doc of
                            None \<Rightarrow> (SESSION_ERR_NOT_FOUND, None, ctx\<lparr>cx_cache := Some u\<rparr>)
                          | Some r \<Rightarrow> (SESSION_OK, Some r, ctx\<lparr>cx_cache := Some u\<rparr>))
            else (SESSION_OK, None, ctx\<lparr>cx_cache := Some u\<rparr>)) \<and>
    cache_ok u \<and> cache_view u = (cache_view s)(sid := mark False (cache_view s sid))"
proof -
  from session_read_some [OF assms(2,4), of us] obtain t e u where
    "session_cache_lookup (Some s) sid now us = (Some t, Some e)" "output_document e = doc"
    "session_cache_release (Some t) e = Some (Some u)" "cache_ok u"
    "cache_view u = (cache_view s)(sid := mark False (cache_view s sid))" .
  then show ?thesis using assms(1,3) by (intro exI [of _ u]) (simp add: session_validate_def split: option.splits)
qed

lemma touch_read_none:
  assumes "cx_cache ctx = Some s" "cache_ok s" "sid \<noteq> []" "live now (cache_view s sid) = None"
  shows "\<exists>t. touch_read ctx sid now us = Some (Inl SESSION_ERR_NOT_FOUND, ctx\<lparr>cx_cache := Some t\<rparr>) \<and>
    cache_ok t \<and> cache_view t = cache_view s"
proof -
  from session_read_none [OF assms(2,4), of us] obtain t where
    "session_cache_lookup (Some s) sid now us = (Some t, None)" "cache_ok t" "cache_view t = cache_view s" .
  then show ?thesis using assms(1,3) by (intro exI [of _ t]) (simp add: touch_read_def)
qed

lemma touch_read_some:
  assumes "cx_cache ctx = Some s" "cache_ok s" "sid \<noteq> []" "live now (cache_view s sid) = Some doc"
  shows "\<exists>u. touch_read ctx sid now us =
      Some (case session_cache_decode doc of None \<Rightarrow> (Inl SESSION_ERR_NOT_FOUND, ctx\<lparr>cx_cache := Some u\<rparr>)
            | Some r \<Rightarrow> (Inr r, ctx\<lparr>cx_cache := Some u\<rparr>)) \<and>
    cache_ok u \<and> cache_view u = (cache_view s)(sid := mark False (cache_view s sid))"
proof -
  from session_read_some [OF assms(2,4), of us] obtain t e u where
    "session_cache_lookup (Some s) sid now us = (Some t, Some e)" "output_document e = doc"
    "session_cache_release (Some t) e = Some (Some u)" "cache_ok u"
    "cache_view u = (cache_view s)(sid := mark False (cache_view s sid))" .
  then show ?thesis using assms(1,3) by (intro exI [of _ u]) (simp add: touch_read_def split: option.splits)
qed

text \<open>Storing a record that fits, for a positive time to live.\<close>

lemma store_then_live:
  assumes "cache_ok s" "fresh_mem s (Some a)" "\<not> lent (cache_view s (sess_id rec))" "sess_id rec \<noteq> []" "record_fits rec"
    and "0 < sess_ttl rec" "0 \<le> now"
  shows "\<exists>t. session_cache_store (Some s) rec now (Some a) = (0, Some t) \<and> cache_ok t \<and>
    (\<forall>later. live later (cache_view t (sess_id rec)) = (if later < now + sess_ttl rec then Some (session_text rec) else None)) \<and>
    \<not> lent (cache_view t (sess_id rec))"
proof -
  obtain rc t where p: "cache_put s (sess_id rec) (session_text rec) (Some (session_opts rec)) now (Some a) = (rc, t)"
    by (cases "cache_put s (sess_id rec) (session_text rec) (Some (session_opts rec)) now (Some a)")
  have ttl: "effective_ttl s (Some (session_opts rec)) = sess_ttl rec" by (rule session_ttl [OF assms(6)])
  have pos: "0 < now + effective_ttl s (Some (session_opts rec))" "0 < effective_ttl s (Some (session_opts rec))"
    using ttl assms(6,7) by simp_all
  note live = cst.put_then_live [OF assms(1-3) pos(2,1) p, unfolded ttl]
  have "\<not> lent (cache_view t (sess_id rec))"
    using conjunct2 [OF conjunct2 [OF cache_put_law [OF assms(1,2) p]]] assms(3) by (simp add: lent_def split: if_splits)
  with live show ?thesis using session_store_put [OF assms(4,5), of s now "Some a"] p by auto
qed

definition request_plain :: "session_request \<Rightarrow> bool" where
  "request_plain rq \<longleftrightarrow>
     length (rq_client_id rq) < 128 \<and> length (rq_client_ip rq) < 64 \<and> length (rq_client_host rq) < 128 \<and>
     length (rq_application_name rq) < 128 \<and> plain (rq_client_id rq) \<and> plain (rq_client_ip rq) \<and>
     plain (rq_client_host rq) \<and> plain (rq_application_name rq) \<and> rq_ttl_seconds rq < 2 ^ 31"

lemma new_session_ok:
  assumes "request_plain rq" "length rnd = 16" "si_default_ttl ini < 2 ^ 31" "0 \<le> now" "now \<le> LONG_MAX"
  shows "record_fits (new_session ini rq rnd now)" "record_plain (new_session ini rq rnd now)"
    "0 < sess_ttl (new_session ini rq rnd now)" "sess_id (new_session ini rq rnd now) = tx_generate_uuid rnd"
  using assms uuid_plain [OF assms(2)]
  by (auto simp: request_plain_def new_session_def record_fits_def record_plain_def SESSION_UUID_LEN_def LONG_MIN_def)

lemma session_created_valid:
  assumes "cx_cache ctx = Some s" "cache_ok s" "fresh_mem s (Some a)" "\<not> lent (cache_view s (tx_generate_uuid rnd))"
    and "request_plain rq" "length rnd = 16" "si_default_ttl ini < 2 ^ 31" "0 \<le> now" "now \<le> LONG_MAX"
    and "rec = new_session ini rq rnd now" "exec_insert db (session_insert_request ini fmt rec) = (rc, db')"
  shows "if rc \<noteq> 0
    then session_create ini exec_insert fmt rnd now (Some a) (Some rq) ctx db = (SESSION_ERR_DB_FAILURE, None, ctx, db')
    else \<exists>ctx1. session_create ini exec_insert fmt rnd now (Some a) (Some rq) ctx db =
           (SESSION_OK, Some (create_xml fmt rec), ctx1, db') \<and>
         (\<forall>later us. \<exists>ctx2. session_validate ctx1 (sess_id rec) True later us =
           Some (if later < now + sess_ttl rec then (SESSION_OK, Some rec, ctx2) else (SESSION_ERR_NOT_FOUND, None, ctx2)))"
proof (cases "rc = 0")
  case False
  then show ?thesis using assms(10,11) by (simp add: session_create_def Let_def)
next
  case True
  note rec = new_session_ok [OF assms(5-9), folded assms(10)]
  have ne: "sess_id rec \<noteq> []" using uuid_ok [OF assms(6)] rec(4) by (simp add: id_ok_def)
  from store_then_live [OF assms(2,3) _ ne rec(1,3) assms(8)] assms(4) rec(4) obtain t where
    t: "session_cache_store (Some s) rec now (Some a) = (0, Some t)" "cache_ok t"
    "\<forall>later. live later (cache_view t (sess_id rec)) = (if later < now + sess_ttl rec then Some (session_text rec) else None)"
    by auto
  define ctx1 where "ctx1 = ctx\<lparr>cx_cache := Some t, cx_active_session_id := c_strncpy 64 (sess_id rec),
    cx_active_client_ip := c_strncpy 64 (sess_client_ip rec)\<rparr>"
  have c: "session_create ini exec_insert fmt rnd now (Some a) (Some rq) ctx db = (SESSION_OK, Some (create_xml fmt rec), ctx1, db')"
    using True assms(1,10,11) t(1) by (simp add: session_create_def Let_def ctx1_def)
  have cc: "cx_cache ctx1 = Some t" by (simp add: ctx1_def)
  have dec: "session_cache_decode (session_text rec) = Some rec"
    using session_decode_text [OF rec(1,2)] .
  have "\<exists>ctx2. session_validate ctx1 (sess_id rec) True later us =
      Some (if later < now + sess_ttl rec then (SESSION_OK, Some rec, ctx2) else (SESSION_ERR_NOT_FOUND, None, ctx2))" for later us
  proof (cases "later < now + sess_ttl rec")
    case True
    with t(3) have "live later (cache_view t (sess_id rec)) = Some (session_text rec)" by simp
    from validate_some [OF cc t(2) ne this, of True us] True dec show ?thesis by auto
  next
    case False
    with t(3) have "live later (cache_view t (sess_id rec)) = None" by simp
    from validate_none [OF cc t(2) ne this, of True us] False show ?thesis by auto
  qed
  with c True show ?thesis by simp
qed


definition test_request :: session_request where
  "test_request = \<lparr>rq_operation = ''CREATE_SESSION'', rq_client_id = ''ann'', rq_client_ip = ''10.0.0.7'', rq_client_host = [],
     rq_application_name = ''web'', rq_ttl_seconds = 600\<rparr>"

definition test_session_ini :: session_ini where
  "test_session_ini = \<lparr>si_default_ttl = 1800, si_username = ''GW''\<rparr>"

definition tiny_ctx :: session_ctx where
  "tiny_ctx = \<lparr>cx_cache = Some tiny, cx_active_session_id = [], cx_active_client_ip = []\<rparr>"


subsection \<open>Runs\<close>

text \<open>Every document in the cache is the text of a record that fits, stored under its own identifier.\<close>

definition docs_ok :: "cache \<Rightarrow> bool" where
  "docs_ok s \<longleftrightarrow> (\<forall>k doc ex b. cache_view s k = Some (doc, ex, b) \<longrightarrow>
     (\<exists>r. doc = session_text r \<and> record_fits r \<and> sess_id r = k \<and> id_ok k))"

definition store_ok :: "session_ctx \<Rightarrow> bool" where
  "store_ok ctx \<longleftrightarrow> (\<exists>s. cx_cache ctx = Some s \<and> cache_ok s \<and> docs_ok s)"

text \<open>Any operation of any worker, on a clock that does not go back; no creation draws the identifier \<open>sid\<close> again.
  A worker has its own context but for the cache.\<close>

inductive session_step :: "session_ini \<Rightarrow> (int \<Rightarrow> cstring) \<Rightarrow> cstring \<Rightarrow> int \<times> session_ctx \<times> 'd \<Rightarrow> int \<times> session_ctx \<times> 'd \<Rightarrow> bool"
  for ini fmt sid where
  create: "t \<le> now \<Longrightarrow> now \<le> LONG_MAX \<Longrightarrow> length rnd = 16 \<Longrightarrow> tx_generate_uuid rnd \<noteq> sid \<Longrightarrow> rq_ttl_seconds rq < 2 ^ 31 \<Longrightarrow>
    (\<And>s. cx_cache ctx = Some s \<Longrightarrow> fresh_mem s mem) \<Longrightarrow>
    session_create ini exec_insert fmt rnd now mem (Some rq) ctx db = (rc, x, ctx', db') \<Longrightarrow>
    session_step ini fmt sid (t, ctx, db) (now, ctx', db')"
| validate: "t \<le> now \<Longrightarrow> session_validate ctx k want now us = Some (rc, out, ctx') \<Longrightarrow>
    session_step ini fmt sid (t, ctx, db) (now, ctx', db)"
| touch: "t \<le> now \<Longrightarrow> now \<le> LONG_MAX \<Longrightarrow>
    (\<And>rec ctx1 s. touch_read ctx k now us = Some (Inr rec, ctx1) \<Longrightarrow> cx_cache ctx1 = Some s \<Longrightarrow> fresh_mem s mem) \<Longrightarrow>
    session_touch ctx k now us mem = Some (rc, ctx') \<Longrightarrow> session_step ini fmt sid (t, ctx, db) (now, ctx', db)"
| end_session: "t \<le> now \<Longrightarrow> session_end ini exec_update fmt now k st reason ctx db = (rc, x, ctx', db') \<Longrightarrow>
    session_step ini fmt sid (t, ctx, db) (now, ctx', db')"
| evict: "t \<le> now \<Longrightarrow> session_cache_evict (cx_cache ctx) now = (n, c) \<Longrightarrow>
    session_step ini fmt sid (t, ctx, db) (now, ctx\<lparr>cx_cache := c\<rparr>, db)"
| other_worker: "session_step ini fmt sid (t, ctx, db) (t, ctx\<lparr>cx_active_session_id := a, cx_active_client_ip := b\<rparr>, db)"

definition stays_gone :: "int \<Rightarrow> cstring \<Rightarrow> cache option \<Rightarrow> bool" where
  "stays_gone t sid c \<longleftrightarrow> (\<exists>s. c = Some s \<and> cache_ok s \<and> docs_ok s \<and> gone t (cache_view s sid))"

lemma stays_gone_later: "stays_gone t sid c \<Longrightarrow> t \<le> u \<Longrightarrow> stays_gone u sid c"
  using gone_mono by (auto simp: stays_gone_def)

lemma docs_ok_mark: "docs_ok s \<Longrightarrow> cache_view u = (cache_view s)(k := mark b (cache_view s k)) \<Longrightarrow> docs_ok u"
  by (auto simp: docs_ok_def mark_def split: if_splits)

lemma docs_ok_lapse: "docs_ok s \<Longrightarrow> cache_view u = (cache_view s)(k := lapse t (cache_view s k)) \<Longrightarrow> docs_ok u"
  by (auto simp: docs_ok_def lapse_def split: if_splits)

lemma docs_ok_cong: "docs_ok s \<Longrightarrow> cache_view u = cache_view s \<Longrightarrow> docs_ok u"
  by (simp add: docs_ok_def)

lemma docs_ok_sub: "docs_ok s \<Longrightarrow> (\<And>k. cache_view u k = cache_view s k \<or> cache_view u k = None) \<Longrightarrow> docs_ok u"
  unfolding docs_ok_def by (metis option.distinct(1))

lemma stays_gone_store:
  assumes "stays_gone t sid (Some s)" "fresh_mem s mem" "record_fits rec" "id_ok (sess_id rec)" "sess_id rec \<noteq> sid"
  shows "stays_gone t sid (snd (session_cache_store (Some s) rec now mem))"
proof -
  obtain rc d where p: "cache_put s (sess_id rec) (session_text rec) (Some (session_opts rec)) now mem = (rc, d)"
    by (cases "cache_put s (sess_id rec) (session_text rec) (Some (session_opts rec)) now mem")
  from assms(1) have s: "cache_ok s" "docs_ok s" "gone t (cache_view s sid)" by (auto simp: stays_gone_def)
  note law = cache_put_law [OF s(1) assms(2) p]
  have "docs_ok d" unfolding docs_ok_def
  proof (intro allI impI)
    fix k doc ex b assume v: "cache_view d k = Some (doc, ex, b)"
    show "\<exists>r. doc = session_text r \<and> record_fits r \<and> sess_id r = k \<and> id_ok k"
    proof (cases "k = sess_id rec")
      case False
      with law v have "cache_view s k = Some (doc, ex, b)" by (metis option.distinct(1))
      with s(2) show ?thesis by (auto simp: docs_ok_def)
    next
      case True
      show ?thesis
      proof (cases "lent (cache_view s (sess_id rec))")
        case True
        with law have "cache_view d = cache_view s" by simp
        with v s(2) show ?thesis by (auto simp: docs_ok_def)
      next
        case False
        with law v \<open>k = sess_id rec\<close> have "doc = session_text rec" by (auto split: if_splits)
        with True assms(3,4) show ?thesis by blast
      qed
    qed
  qed
  moreover have "gone t (cache_view d sid)"
    by (rule cst.gone_put_other [OF s(1) assms(2) p _ s(3)]) (use assms(5) in simp)
  moreover have "sess_id rec \<noteq> []" using assms(4) by (simp add: id_ok_def)
  ultimately show ?thesis using law session_store_put [OF _ assms(3), of s now mem] p by (simp add: stays_gone_def)
qed

lemma new_session_fits:
  assumes "rq_ttl_seconds rq < 2 ^ 31" "si_default_ttl ini < 2 ^ 31" "length rnd = 16" "0 \<le> now" "now \<le> LONG_MAX"
  shows "record_fits (new_session ini rq rnd now)"
  using assms uuid_plain(1) [OF assms(3)]
  by (auto simp: new_session_def record_fits_def SESSION_UUID_LEN_def LONG_MIN_def)

lemma session_step_gone_now:
  assumes "session_step ini fmt sid (t, ctx, db) (now, ctx', db')" "stays_gone now sid (cx_cache ctx)" "2 \<le> now" "si_default_ttl ini < 2 ^ 31"
  shows "stays_gone now sid (cx_cache ctx')"
  using assms(1)
proof (cases rule: session_step.cases)
  case (create rnd rq mem exec_insert rc x)
  from assms(2) obtain s where s: "cx_cache ctx = Some s" by (auto simp: stays_gone_def)
  have fit: "record_fits (new_session ini rq rnd now)"
    using create(2,3,5) assms(3,4) by (intro new_session_fits) simp_all
  have id: "sess_id (new_session ini rq rnd now) = tx_generate_uuid rnd" by (simp add: new_session_def)
  have "stays_gone now sid (snd (session_cache_store (Some s) (new_session ini rq rnd now) now mem))"
    using assms(2) s create(6) uuid_ok [OF create(3)] create(4) by (intro stays_gone_store [OF _ _ fit]) (simp_all add: id)
  then show ?thesis using create(7) s assms(2) by (auto simp: session_create_def Let_def split: prod.splits if_splits)
next
  case (validate k want us rc out)
  from assms(2) obtain s where s: "cx_cache ctx = Some s" "cache_ok s" "docs_ok s" "gone now (cache_view s sid)" by (auto simp: stays_gone_def)
  show ?thesis
  proof (cases "k = []")
    case True
    with validate(3) assms(2) show ?thesis by (simp add: session_validate_def)
  next
    case False
    have "\<exists>u. cx_cache ctx' = Some u \<and> cache_ok u \<and> (cache_view u = cache_view s \<or> cache_view u = (cache_view s)(k := mark False (cache_view s k)))"
    proof (cases "live now (cache_view s k)")
      case None
      from validate_none [OF s(1,2) False None, of want us] validate(3) show ?thesis by auto
    next
      case (Some doc)
      from validate_some [OF s(1,2) False Some, of want us] validate(3) show ?thesis by (auto split: if_splits option.splits)
    qed
    then show ?thesis using s docs_ok_cong [OF s(3)] docs_ok_mark [OF s(3)] by (fastforce simp: stays_gone_def)
  qed
next
  case (touch k us mem rc)
  from assms(2) obtain s where s: "cx_cache ctx = Some s" "cache_ok s" "docs_ok s" "gone now (cache_view s sid)" by (auto simp: stays_gone_def)
  show ?thesis
  proof (cases "k = []")
    case True
    with touch(5) assms(2) show ?thesis by (simp add: session_touch_def touch_read_def)
  next
    case ne: False
    show ?thesis
    proof (cases "live now (cache_view s k)")
      case None
      from touch_read_none [OF s(1,2) ne None, of us] touch(5) show ?thesis
        using s docs_ok_cong [OF s(3)] by (auto simp: session_touch_def stays_gone_def)
    next
      case (Some doc)
      from touch_read_some [OF s(1,2) ne Some, of us] obtain u where
        r: "touch_read ctx k now us = Some (case session_cache_decode doc of None \<Rightarrow> (Inl SESSION_ERR_NOT_FOUND, ctx\<lparr>cx_cache := Some u\<rparr>)
              | Some r \<Rightarrow> (Inr r, ctx\<lparr>cx_cache := Some u\<rparr>))"
        and u: "cache_ok u" "cache_view u = (cache_view s)(k := mark False (cache_view s k))" by blast
      have gu: "stays_gone now sid (Some u)"
        using s(4) u docs_ok_mark [OF s(3) u(2)] by (cases "k = sid") (simp_all add: stays_gone_def)
      from Some obtain ex b where "cache_view s k = Some (doc, ex, b)" by (auto simp: live_def split: option.splits if_splits)
      with s(3) obtain r0 where r0: "doc = session_text r0" "record_fits r0" "sess_id r0 = k" "id_ok k" unfolding docs_ok_def by blast
      have ks: "k \<noteq> sid" using gone_live [OF s(4) order_refl] Some by auto
      show ?thesis
      proof (cases "session_cache_decode doc")
        case None
        with r touch(5) gu show ?thesis by (auto simp: session_touch_def)
      next
        case (Some rec)
        have id: "sess_id rec = k" using decode_id [OF r0(2)] r0 Some by simp
        have fit: "record_fits (rec\<lparr>sess_last_activity := now\<rparr>)"
          using decode_fits [OF Some] touch(3) assms(3) by (simp add: record_fits_def LONG_MIN_def)
        have tr: "touch_read ctx k now us = Some (Inr rec, ctx\<lparr>cx_cache := Some u\<rparr>)" using r Some by simp
        have "stays_gone now sid (snd (session_cache_store (Some u) (rec\<lparr>sess_last_activity := now\<rparr>) now mem))"
          using touch(4) [OF tr] r0(4) ks by (intro stays_gone_store [OF gu _ fit]) (simp_all add: id)
        with tr touch(5) show ?thesis by (auto simp: session_touch_def touch_write_def split: prod.splits)
      qed
    qed
  qed
next
  case (end_session exec_update k st reason rc x)
  from assms(2) obtain s where s: "cx_cache ctx = Some s" "cache_ok s" "docs_ok s" "gone now (cache_view s sid)" by (auto simp: stays_gone_def)
  let ?d = "snd (cache_expire_entry s (Some k) now)"
  have law: "cache_ok ?d" "cache_view ?d = (cache_view s)(k := lapse now (cache_view s k))" using cache_expire_law [OF s(2)] by auto
  have "gone now (cache_view ?d sid)" by (rule cst.gone_expire [OF s(2) assms(3) order_refl s(4)])
  then have "stays_gone now sid (Some ?d)" using law docs_ok_lapse [OF s(3) law(2)] by (simp add: stays_gone_def)
  then show ?thesis using end_session(2) s(1) assms(2)
    by (auto simp: session_end_def session_cache_invalidate_def Let_def split: prod.splits if_splits)
next
  case (evict n c)
  from assms(2) obtain s where s: "cx_cache ctx = Some s" "cache_ok s" "docs_ok s" "gone now (cache_view s sid)" by (auto simp: stays_gone_def)
  let ?d = "snd (cache_evict_expired s now)"
  have "stays_gone now sid (Some ?d)"
    using cache_sweep_law [OF s(2)] docs_ok_sub [OF s(3), of ?d] cst.gone_sweep [OF s(2,4)] by (auto simp: stays_gone_def)
  with evict s(1) show ?thesis by (auto simp: session_cache_evict_def split: prod.splits)
next
  case (other_worker a b)
  with assms(2) show ?thesis by simp
qed

lemma session_step_time: "session_step ini fmt sid x y \<Longrightarrow> fst x \<le> fst y"
  by (induction rule: session_step.induct) simp_all

lemma session_run_gone:
  assumes "(session_step ini fmt sid)\<^sup>*\<^sup>* x y" "stays_gone (fst x) sid (cx_cache (fst (snd x)))" "2 \<le> fst x" "si_default_ttl ini < 2 ^ 31"
  shows "stays_gone (fst y) sid (cx_cache (fst (snd y))) \<and> 2 \<le> fst y"
  using assms(1)
proof (induction rule: rtranclp_induct)
  case base
  with assms show ?case by simp
next
  case (step y z)
  obtain t ctx db now ctx' db' where y: "y = (t, ctx, db)" "z = (now, ctx', db')" by (metis prod_cases3)
  from session_step_time [OF step.hyps(2)] have "t \<le> now" by (simp add: y)
  with step.IH have "stays_gone now sid (cx_cache ctx)" "2 \<le> now" using stays_gone_later by (auto simp: y)
  with session_step_gone_now [OF step.hyps(2) [unfolded y] _ _ assms(4)] show ?case by (simp add: y)
qed

text \<open>C7. A session that was ended stays ended. Once \<^verbatim>\<open>session_end\<close> has succeeded, no validation finds the session
  any more, whatever requests the workers then serve in any order (creations, validations, touches that
  are not interleaved, further ends, sweeps), on a clock that does not go back.\<close>

theorem ended_session_stays_ended:
  assumes "store_ok ctx" "2 \<le> t" "si_default_ttl ini < 2 ^ 31"
    and "session_end ini exec_update fmt t sid st reason ctx db = (SESSION_OK, x, ctx1, db1)"
    and "(session_step ini fmt sid)\<^sup>*\<^sup>* (t, ctx1, db1) (now, ctx2, db2)" "now \<le> later"
  shows "\<exists>ctx3. session_validate ctx2 sid want later us = Some (SESSION_ERR_NOT_FOUND, None, ctx3)"
proof -
  from assms(1) obtain s where s: "cx_cache ctx = Some s" "cache_ok s" "docs_ok s" by (auto simp: store_ok_def)
  let ?d = "snd (cache_expire_entry s (Some sid) t)"
  have law: "cache_ok ?d" "cache_view ?d = (cache_view s)(sid := lapse t (cache_view s sid))" using cache_expire_law [OF s(2)] by auto
  have "stays_gone t sid (Some ?d)"
    using law docs_ok_lapse [OF s(3) law(2)] gone_lapse [OF assms(2)] by (simp add: stays_gone_def)
  moreover have "cx_cache ctx1 = Some ?d" "sid \<noteq> []" using assms(4) s(1)
    by (auto simp: session_end_def session_cache_invalidate_def session_codes Let_def split: prod.splits if_splits)
  ultimately have "stays_gone now sid (cx_cache ctx2)"
    using session_run_gone [OF assms(5) _ _ assms(3)] assms(2) by simp
  then obtain u where u: "cx_cache ctx2 = Some u" "cache_ok u" "gone now (cache_view u sid)" by (auto simp: stays_gone_def)
  from validate_none [OF u(1,2) \<open>sid \<noteq> []\<close> gone_live [OF u(3) assms(6)]] show ?thesis by auto
qed

text \<open>A session is ended, and one later validation of another session runs.\<close>

theorem ended_session_stays_ended_witness:
  "\<exists>ctx1 ctx2 ctx3. session_end test_session_ini (\<lambda>db q. (0, db)) (\<lambda>t. ''now'') 1000 ''s1'' SESSION_STATUS_LOGGED_OUT None tiny_ctx () =
       (SESSION_OK, Some (end_xml (\<lambda>t. ''now'') ''s1'' SESSION_STATUS_LOGGED_OUT 1000), ctx1, ()) \<and>
     session_step test_session_ini (\<lambda>t. ''now'') ''s1'' (1000, ctx1, ()) (1001, ctx2, ()) \<and>
     session_validate ctx2 ''s1'' True 1002 0 = Some (SESSION_ERR_NOT_FOUND, None, ctx3)"
proof -
  let ?d = "snd (cache_expire_entry tiny (Some ''s1'') 1000)"
  define ctx1 where "ctx1 = tiny_ctx\<lparr>cx_cache := Some ?d\<rparr>"
  have ok: "store_ok tiny_ctx" using tiny_ok by (simp add: store_ok_def docs_ok_def tiny_ctx_def)
  have e: "session_end test_session_ini (\<lambda>db q. (0, db)) (\<lambda>t. ''now'') 1000 ''s1'' SESSION_STATUS_LOGGED_OUT None tiny_ctx () =
       (SESSION_OK, Some (end_xml (\<lambda>t. ''now'') ''s1'' SESSION_STATUS_LOGGED_OUT 1000), ctx1, ())"
    by (simp add: session_end_def session_cache_invalidate_def tiny_ctx_def ctx1_def Let_def split: prod.split)
  obtain n c where ev: "session_cache_evict (cx_cache ctx1) 1001 = (n, c)" by (cases "session_cache_evict (cx_cache ctx1) 1001")
  have st: "session_step test_session_ini (\<lambda>t. ''now'') ''s1'' (1000, ctx1, ()) (1001, ctx1\<lparr>cx_cache := c\<rparr>, ())"
    using ev by (intro session_step.evict) simp_all
  have ini: "si_default_ttl test_session_ini < 2 ^ 31" by (simp add: test_session_ini_def)
  from ended_session_stays_ended [OF ok _ ini e r_into_rtranclp [of "session_step test_session_ini (\<lambda>t. ''now'') ''s1''", OF st], of 1002 True 0]
    e st show ?thesis by auto
qed

end
