(* ===== verification/Auth_Manager.thy ===== *)
theory Auth_Manager
  imports Session_Life
begin

text \<open>
  Authentication: \<^verbatim>\<open>src/infra/Auth_Manager.c\<close>, with the password check of \<^verbatim>\<open>crypt_helper.c\<close> and the two
  ends of the directory bind, \<^verbatim>\<open>ldap_auth_helper.c\<close> (the caller) and \<^verbatim>\<open>ldap_bind_helper.c\<close> (the
  process it starts). The libraries are arguments, collected in \<open>auth_env\<close>: libsodium's verification,
  the JSON parser, libldap's simple bind, \<^verbatim>\<open>snprintf\<close> with the configured pattern as its format, the
  driver's cursor, update, commit and rollback, the audit trail, and whether each \<^verbatim>\<open>strdup\<close> succeeds.
  \<open>'d\<close> is the state of the database. Logging and metrics are left out.
\<close>

definition AUTH_OK :: int where "AUTH_OK = 0"

definition AUTH_ERR_INVALID_ARG :: int where "AUTH_ERR_INVALID_ARG = -1"

definition AUTH_ERR_DENIED :: int where "AUTH_ERR_DENIED = -2"

definition AUTH_ERR_DB_FAILURE :: int where "AUTH_ERR_DB_FAILURE = -4"

definition AUTH_ERR_ALLOC :: int where "AUTH_ERR_ALLOC = -5"

lemmas auth_codes = AUTH_OK_def AUTH_ERR_INVALID_ARG_def AUTH_ERR_DENIED_def AUTH_ERR_DB_FAILURE_def AUTH_ERR_ALLOC_def

subsection \<open>The environment\<close>

text \<open>A member of the JSON object of \<^verbatim>\<open>AUTH_SOURCE.CONFIGURATION\<close>.\<close>

datatype json_value = JString cstring | JNumber int | JTrue | JOther

text \<open>The part of \<^verbatim>\<open>audit_trail_request_t\<close> that is filled; the columns as (name, old, new).\<close>

record audit_request =
  au_table :: cstring
  au_action :: cstring
  au_record_id :: cstring
  au_changed_by :: cstring
  au_module :: cstring
  au_reason :: cstring
  au_cols :: "(cstring \<times> cstring \<times> cstring) list"

text \<open>
  The select hook answers \<open>None\<close> when the cursor cannot be opened, otherwise the number of columns and what
  the first fetch returns: \<open>None\<close> a failure, or the rows, each of that many fields.
\<close>

record 'd auth_env =
  ae_dialect :: db_dialect
  ae_ini :: session_ini
  ae_max_failed :: int
  ae_tx_retries :: int
  ae_select :: "'d \<Rightarrow> cstring \<Rightarrow> cstring list \<Rightarrow> (int \<times> cstring list list option) option"
  ae_dml :: "'d \<Rightarrow> cstring \<Rightarrow> cstring list \<Rightarrow> int \<times> 'd"
  ae_driver :: "'d tx_driver"
  ae_audit :: "audit_request \<Rightarrow> 'd \<Rightarrow> int \<times> 'd"
  ae_insert :: "'d \<Rightarrow> dml_request \<Rightarrow> int \<times> 'd"
  ae_permissions :: "'d \<Rightarrow> cstring \<Rightarrow> cstring list \<Rightarrow> (int \<times> cstring list option list) option"
  ae_pwhash_verify :: "cstring \<Rightarrow> cstring \<Rightarrow> int"
  ae_json_parse :: "cstring \<Rightarrow> (cstring \<times> json_value) list option"
  ae_format :: "cstring \<Rightarrow> cstring \<Rightarrow> cstring"
  ae_ldap_bind :: "cstring \<Rightarrow> cstring \<Rightarrow> cstring \<Rightarrow> bool"
  ae_helper_runs :: bool
  ae_dup :: "nat \<Rightarrow> bool"
  ae_fmt_time :: "int \<Rightarrow> cstring"

subsection \<open>Small helpers\<close>

definition auth_placeholder :: "'d auth_env \<Rightarrow> int \<Rightarrow> cstring option" where
  "auth_placeholder env pos = bind_placeholder (ae_dialect env) pos 16"

definition auth_parse_int :: "cstring \<Rightarrow> int option" where
  "auth_parse_int text =
     (if text = [] then None
      else
        (case c_strtol text of
           (v, end_ptr) \<Rightarrow>
             let e = dropWhile (\<lambda>c. c = CHR '' '') end_ptr in
             if e = text \<or> e \<noteq> [] then None else Some (to_int v)))"

definition auth_copy :: "nat \<Rightarrow> cstring \<Rightarrow> cstring option" where
  "auth_copy dst_size src = (if length src \<ge> dst_size then None else Some src)"

text \<open>0 committed, -1 the update failed, -2 the commit failed.\<close>

definition auth_update_and_commit :: "'d auth_env \<Rightarrow> cstring \<Rightarrow> cstring list \<Rightarrow> 'd \<Rightarrow> int \<times> 'd" where
  "auth_update_and_commit env sql binds db =
     (case ae_dml env db sql binds of
        (rc, db1) \<Rightarrow>
          if rc \<noteq> 0 then (-1, db1)
          else
            (case tx_commit_with_retry (Some (ae_driver env)) (ae_tx_retries env) db1 of
               (rc2, _, db2) \<Rightarrow>
                 if rc2 \<noteq> 0
                 then (-2, case drv_rollback (ae_driver env) of None \<Rightarrow> db2 | Some f \<Rightarrow> snd (f db2))
                 else (0, db2)))"

subsection \<open>Looking the user up\<close>

record auth_user_row =
  u_id :: int
  u_display_name :: cstring
  u_password_hash :: cstring
  u_enabled :: cstring
  u_locked :: cstring
  u_failed_attempts :: int
  u_source_type :: cstring
  u_ldap_configuration :: "cstring option"

definition user_sql :: "cstring \<Rightarrow> cstring" where
  "user_sql ph = c_snprintf 512
     (''SELECT u.USER_ID, u.DISPLAY_NAME, u.PASSWORD_HASH,        u.ENABLED, u.LOCKED, u.FAILED_ATTEMPTS, s.SOURCE_TYPE, '' @
      ''       s.CONFIGURATION FROM   APP_USER u JOIN   AUTH_SOURCE s ON s.AUTH_SOURCE_ID = u.AUTH_SOURCE_ID '' @
      ''WHERE  UPPER(u.USERNAME) = UPPER('' @ ph @ '')'')"

definition user_row :: "bool \<Rightarrow> cstring list \<Rightarrow> auth_user_row option" where
  "user_row dup f =
     (case (auth_parse_int (f ! 0), auth_parse_int (f ! 5)) of
        (Some uid, Some failed) \<Rightarrow>
          (case (auth_copy 256 (f ! 1), auth_copy 256 (f ! 2), auth_copy 2 (f ! 3), auth_copy 2 (f ! 4), auth_copy 21 (f ! 6)) of
             (Some display_name, Some password_hash, Some en, Some lk, Some source_type) \<Rightarrow>
               if f ! 7 \<noteq> [] \<and> \<not> dup then None
               else Some \<lparr>u_id = uid, u_display_name = display_name, u_password_hash = password_hash, u_enabled = en,
                          u_locked = lk, u_failed_attempts = failed, u_source_type = source_type,
                          u_ldap_configuration = (if f ! 7 = [] then None else Some (f ! 7))\<rparr>
           | _ \<Rightarrow> None)
      | _ \<Rightarrow> None)"

text \<open>\<open>None\<close>: a failure of the database. \<open>Some None\<close>: no such user.\<close>

definition lookup_user :: "'d auth_env \<Rightarrow> 'd \<Rightarrow> cstring \<Rightarrow> auth_user_row option option" where
  "lookup_user env db username =
     (case auth_placeholder env 1 of
        None \<Rightarrow> None
      | Some ph \<Rightarrow>
          (case ae_select env db (user_sql ph) [username] of
             None \<Rightarrow> None
           | Some (col_count, fetched) \<Rightarrow>
               if col_count \<noteq> 8 then None
               else
                 (case fetched of
                    None \<Rightarrow> None
                  | Some [] \<Rightarrow> Some None
                  | Some (f # _) \<Rightarrow> map_option Some (user_row (ae_dup env 0) f))))"

subsection \<open>Bookkeeping of attempts\<close>

definition failure_sql :: "bool \<Rightarrow> cstring \<Rightarrow> cstring \<Rightarrow> cstring \<Rightarrow> cstring" where
  "failure_sql should_lock p1 p2 now_e = c_snprintf 512
     (if should_lock
      then ''UPDATE APP_USER SET    FAILED_ATTEMPTS = '' @ p1 @ '',        LOCKED = '' @ [CHR 0x27] @ ''Y'' @ [CHR 0x27] @
           '', LOCKED_TS = '' @ now_e @ '',        MODIFIED_TS = '' @ now_e @ '' WHERE  USER_ID = '' @ p2
      else ''UPDATE APP_USER SET    FAILED_ATTEMPTS = '' @ p1 @ '',        MODIFIED_TS = '' @ now_e @
           '' WHERE  USER_ID = '' @ p2)"

definition success_sql :: "cstring \<Rightarrow> cstring \<Rightarrow> cstring" where
  "success_sql p1 now_e = c_snprintf 512
     (''UPDATE APP_USER SET    FAILED_ATTEMPTS = 0, LAST_LOGIN_TS = '' @ now_e @ '',        MODIFIED_TS = '' @ now_e @
      '' WHERE  USER_ID = '' @ p1)"

definition failure_audit :: "int \<Rightarrow> cstring \<Rightarrow> int \<Rightarrow> int \<Rightarrow> bool \<Rightarrow> audit_request" where
  "failure_audit user_id username old new should_lock =
     \<lparr>au_table = ''APP_USER'', au_action = ''UPDATE'', au_record_id = dec_int user_id, au_changed_by = c_strncpy 100 username,
      au_module = ''OCI_Auth_Manager'',
      au_reason = (if should_lock
                   then c_snprintf 500 (''Account locked after '' @ dec_int new @ '' failed login attempts (manual unlock only)'')
                   else ''Failed login attempt''),
      au_cols = (''FAILED_ATTEMPTS'', dec_int old, dec_int new) #
                (if should_lock then [(''LOCKED'', ''N'', ''Y'')] else [])\<rparr>"

definition record_auth_failure :: "'d auth_env \<Rightarrow> int \<Rightarrow> cstring \<Rightarrow> int \<Rightarrow> 'd \<Rightarrow> 'd" where
  "record_auth_failure env user_id username current_failed db =
     (let new_failed = current_failed + 1; should_lock = (new_failed \<ge> ae_max_failed env) in
      case (auth_placeholder env 1, auth_placeholder env 2) of
        (Some p1, Some p2) \<Rightarrow>
          (case auth_update_and_commit env (failure_sql should_lock p1 p2 (now_expr (ae_dialect env)))
                  [c_snprintf 16 (dec_int new_failed), c_snprintf 16 (dec_int user_id)] db of
             (rc, db1) \<Rightarrow>
               if rc \<noteq> 0 then db1
               else snd (ae_audit env (failure_audit user_id username current_failed new_failed should_lock) db1))
      | _ \<Rightarrow> db)"

definition success_audit :: "int \<Rightarrow> cstring \<Rightarrow> int \<Rightarrow> audit_request" where
  "success_audit user_id username previous =
     \<lparr>au_table = ''APP_USER'', au_action = ''UPDATE'', au_record_id = dec_int user_id, au_changed_by = c_strncpy 100 username,
      au_module = ''OCI_Auth_Manager'', au_reason = ''Successful login - failed attempt counter reset'',
      au_cols = [(''FAILED_ATTEMPTS'', dec_int previous, ''0'')]\<rparr>"

definition record_auth_success :: "'d auth_env \<Rightarrow> int \<Rightarrow> cstring \<Rightarrow> int \<Rightarrow> 'd \<Rightarrow> 'd" where
  "record_auth_success env user_id username previous db =
     (case auth_placeholder env 1 of
        None \<Rightarrow> db
      | Some p1 \<Rightarrow>
          (case auth_update_and_commit env (success_sql p1 (now_expr (ae_dialect env))) [c_snprintf 16 (dec_int user_id)] db of
             (rc, db1) \<Rightarrow>
               if rc \<noteq> 0 then db1
               else if previous > 0 then snd (ae_audit env (success_audit user_id username previous) db1)
               else db1))"

subsection \<open>Checking a credential\<close>

text \<open>\<^verbatim>\<open>CRYPT_OK\<close>.\<close>

definition crypt_verify_password :: "'d auth_env \<Rightarrow> cstring \<Rightarrow> cstring \<Rightarrow> bool" where
  "crypt_verify_password env password hash =
     (password \<noteq> [] \<and> hash \<noteq> [] \<and> ae_pwhash_verify env hash password = 0)"

text \<open>\<^verbatim>\<open>fgets\<close> of at most \<open>n - 1\<close> bytes; \<open>None\<close> at the end of the input.\<close>

definition c_fgets :: "nat \<Rightarrow> cstring \<Rightarrow> cstring option" where
  "c_fgets n s =
     (if s = [] then None
      else Some (take (n - 1) (takeWhile (\<lambda>c. c \<noteq> CHR 0x0A) s @ (if CHR 0x0A \<in> set s then [CHR 0x0A] else []))))"

text \<open>The helper process: its exit code on the two arguments and its standard input.\<close>

definition ldap_bind_helper_main :: "'d auth_env \<Rightarrow> cstring \<Rightarrow> cstring \<Rightarrow> cstring \<Rightarrow> int" where
  "ldap_bind_helper_main env url dn stdin =
     (case c_fgets 512 stdin of
        None \<Rightarrow> 2
      | Some line \<Rightarrow>
          let password = (if line \<noteq> [] \<and> last line = CHR 0x0A then butlast line else line) in
          if ae_ldap_bind env url dn password then 0 else 1)"

text \<open>\<^verbatim>\<open>LDAP_AUTH_BIND_OK\<close>. The helper is started, the pipes work and it ends in time: \<open>ae_helper_runs\<close>.\<close>

definition ldap_auth_bind_check :: "'d auth_env \<Rightarrow> cstring \<Rightarrow> cstring \<Rightarrow> cstring \<Rightarrow> bool" where
  "ldap_auth_bind_check env url dn password =
     (url \<noteq> [] \<and> dn \<noteq> [] \<and> password \<noteq> [] \<and> ae_helper_runs env \<and>
      ldap_bind_helper_main env url dn (password @ [CHR 0x0A]) = 0)"

definition ldap_credential_ok :: "'d auth_env \<Rightarrow> cstring option \<Rightarrow> cstring \<Rightarrow> cstring \<Rightarrow> bool" where
  "ldap_credential_ok env configuration username credential =
     (case configuration of
        None \<Rightarrow> False
      | Some text \<Rightarrow>
          (case ae_json_parse env text of
             None \<Rightarrow> False
           | Some obj \<Rightarrow>
               (case (map_of obj ''host'', map_of obj ''port'', map_of obj ''bind_dn_pattern'') of
                  (Some (JString host), Some (JNumber port), Some (JString pat)) \<Rightarrow>
                    let use_tls = (map_of obj ''use_tls'' = Some JTrue);
                        url = c_snprintf 256 ((if use_tls then ''ldaps'' else ''ldap'') @ ''://'' @ host @ '':'' @ dec_int port);
                        bind_dn = c_snprintf 384 (ae_format env pat username)
                    in ldap_auth_bind_check env url bind_dn credential
                | _ \<Rightarrow> False)))"

text \<open>Whether the credential is accepted, and the database afterwards: failures count only for local users.\<close>

definition check_credential :: "'d auth_env \<Rightarrow> auth_user_row \<Rightarrow> cstring \<Rightarrow> cstring \<Rightarrow> 'd \<Rightarrow> bool \<times> 'd" where
  "check_credential env user username credential db =
     (if ci_eq (u_source_type user) ''LOCAL''
      then if crypt_verify_password env credential (u_password_hash user) then (True, db)
           else (False, record_auth_failure env (u_id user) username (u_failed_attempts user) db)
      else if ci_eq (u_source_type user) ''LDAP'' \<or> ci_eq (u_source_type user) ''AD''
      then (ldap_credential_ok env (u_ldap_configuration user) username credential, db)
      else (False, db))"

subsection \<open>Authentication\<close>

definition extract_session_field :: "cstring \<Rightarrow> cstring \<Rightarrow> nat \<Rightarrow> cstring option" where
  "extract_session_field xml tag out_size =
     (let open_tag = c_snprintf 64 (''<'' @ tag @ ''>''); close_tag = c_snprintf 64 (''</'' @ tag @ ''>'') in
      case c_strstr xml open_tag of
        None \<Rightarrow> None
      | Some i \<Rightarrow>
          let start = drop (i + length open_tag) xml in
          (case c_strstr start close_tag of
             None \<Rightarrow> None
           | Some n \<Rightarrow> Some (take (if n \<ge> out_size then out_size - 1 else n) start)))"

text \<open>The buffers are zeroed before the extraction.\<close>

definition field_or_empty :: "cstring \<Rightarrow> cstring \<Rightarrow> nat \<Rightarrow> cstring" where
  "field_or_empty xml tag n = (case extract_session_field xml tag n of None \<Rightarrow> [] | Some s \<Rightarrow> s)"

definition auth_session_request :: "cstring \<Rightarrow> session_request" where
  "auth_session_request username =
     \<lparr>rq_operation = ''CREATE_SESSION'', rq_client_id = c_strncpy 128 username, rq_client_ip = [], rq_client_host = [],
      rq_application_name = [], rq_ttl_seconds = 0\<rparr>"

text \<open>
  What happens on each branch once the credential is verified. The result: the code, on success the session
  identifier, display name and time to live, the session context, the permission cache and the database.
\<close>

definition open_session ::
    "'d auth_env \<Rightarrow> 8 word list \<Rightarrow> int \<Rightarrow> nat option \<Rightarrow> nat option \<Rightarrow> auth_user_row \<Rightarrow> cstring \<Rightarrow>
     session_ctx \<Rightarrow> cache option \<Rightarrow> 'd \<Rightarrow> int \<times> (cstring \<times> cstring \<times> int) option \<times> session_ctx \<times> cache option \<times> 'd" where
  "open_session env rnd now mem mem2 user username ctx az db =
     (case session_create (ae_ini env) (ae_insert env) (ae_fmt_time env) rnd now mem (Some (auth_session_request username)) ctx db of
        (rc, xml, ctx1, db1) \<Rightarrow>
          (case (rc = SESSION_OK, xml) of
             (True, Some doc) \<Rightarrow>
               let session_id = field_or_empty doc ''session_id'' 64; ttl_str = field_or_empty doc ''ttl_seconds'' 16 in
               if session_id = [] then (AUTH_ERR_DB_FAILURE, None, ctx1, az, db1)
               else if \<not> (ae_dup env 1 \<and> ae_dup env 2) then (AUTH_ERR_ALLOC, None, ctx1, az, db1)
               else
                 let display_name = (if u_display_name user \<noteq> [] then u_display_name user else username);
                     ttl = (if ttl_str \<noteq> [] then c_atoi ttl_str else 0);
                     db2 = record_auth_success env (u_id user) username (u_failed_attempts user) db1;
                     az2 = snd (authz_build_permission_cache (ae_dialect env) (ae_permissions env db2) az session_id (u_id user) now mem2)
                 in (AUTH_OK, Some (session_id, display_name, ttl), ctx1, az2, db2)
           | _ \<Rightarrow> (AUTH_ERR_DB_FAILURE, None, ctx1, az, db1)))"

definition auth_authenticate ::
    "'d auth_env \<Rightarrow> 8 word list \<Rightarrow> int \<Rightarrow> nat option \<Rightarrow> nat option \<Rightarrow> cstring \<Rightarrow> cstring \<Rightarrow>
     session_ctx \<Rightarrow> cache option \<Rightarrow> 'd \<Rightarrow> int \<times> (cstring \<times> cstring \<times> int) option \<times> session_ctx \<times> cache option \<times> 'd" where
  "auth_authenticate env rnd now mem mem2 username credential ctx az db =
     (if username = [] \<or> credential = [] then (AUTH_ERR_INVALID_ARG, None, ctx, az, db)
      else
        (case lookup_user env db username of
           None \<Rightarrow> (AUTH_ERR_DB_FAILURE, None, ctx, az, db)
         | Some None \<Rightarrow> (AUTH_ERR_DENIED, None, ctx, az, db)
         | Some (Some user) \<Rightarrow>
             if u_enabled user \<noteq> ''Y'' then (AUTH_ERR_DENIED, None, ctx, az, db)
             else if u_locked user = ''Y'' then (AUTH_ERR_DENIED, None, ctx, az, db)
             else
               (case check_credential env user username credential db of
                  (credential_ok, db1) \<Rightarrow>
                    if \<not> credential_ok then (AUTH_ERR_DENIED, None, ctx, az, db1)
                    else open_session env rnd now mem mem2 user username ctx az db1)))"

end
