(* ===== verification/Auth_Life.thy ===== *)
theory Auth_Life
  imports Auth_Manager
begin

text \<open>
  What authentication guarantees: who gets a session, what that session is worth, which password the
  directory sees, and that an account locks after the configured number of failures.
\<close>

subsection \<open>The answer of session creation\<close>

lemma uuid_no_tag: "length rnd = 16 \<Longrightarrow> CHR ''<'' \<notin> set (tx_generate_uuid rnd)"
proof -
  assume a: "length rnd = 16"
  have h: "CHR ''<'' \<notin> set (hex2 b)" for b
    using concat_hex2(2) [of "[b]"] by auto
  have "length (uuid_bytes rnd) = 16" using a by (simp add: uuid_bytes_def)
  then show ?thesis by (simp_all only: uuid_text [OF a] set_append) (simp_all add: h)
qed

lemma dec_int_no_tag: "CHR ''<'' \<notin> set (dec_int i)"
  using dec_no_tag by (simp add: dec_int_def)

lemma field_found:
  assumes "passes (''<'' @ tag @ ''>'') a" "CHR ''<'' \<notin> set v" "length tag < 60" "length v < n"
  shows "extract_session_field (a @ ''<'' @ tag @ ''>'' @ v @ ''</'' @ tag @ ''>'' @ s) tag n = Some v"
proof -
  have b: "c_snprintf 64 (''<'' @ tag @ ''>'') = ''<'' @ tag @ ''>''" "c_snprintf 64 (''</'' @ tag @ ''>'') = ''</'' @ tag @ ''>''"
    using assms(3) by simp_all
  have o: "c_strstr (a @ ''<'' @ tag @ ''>'' @ v @ ''</'' @ tag @ ''>'' @ s) (''<'' @ tag @ ''>'') = Some (length a)"
    using passes_hit [OF assms(1), of "v @ ''</'' @ tag @ ''>'' @ s"] by simp
  have "passes (''</'' @ tag @ ''>'') v" by (rule passes_text [OF _ assms(2)]) simp
  then have c: "c_strstr (v @ ''</'' @ tag @ ''>'' @ s) (''</'' @ tag @ ''>'') = Some (length v)"
    using passes_hit [of "''</'' @ tag @ ''>''" v s] by simp
  have "drop (length a + length (''<'' @ tag @ ''>'')) (a @ ''<'' @ tag @ ''>'' @ v @ ''</'' @ tag @ ''>'' @ s) =
      v @ ''</'' @ tag @ ''>'' @ s" by simp
  with o c assms(4) show ?thesis by (simp only: extract_session_field_def b Let_def option.case) simp
qed

lemma length_dec_int32: "- (2 ^ 31) \<le> i \<Longrightarrow> i < 2 ^ 31 \<Longrightarrow> length (dec_int i) \<le> 11"
proof -
  assume a: "- (2 ^ 31) \<le> i" "i < 2 ^ 31"
  then have "nat i < 10 ^ 10" "nat (- i) < 10 ^ 10" by simp_all
  then show ?thesis using length_dec_le [of "nat i" 10] length_dec_le [of "nat (- i)" 10] by (simp add: dec_int_def)
qed

lemma create_xml_fields:
  assumes "length (sess_id rec) = 36" "CHR ''<'' \<notin> set (sess_id rec)" "CHR ''<'' \<notin> set (fmt (sess_created rec))"
    and "- (2 ^ 31) \<le> sess_ttl rec" "sess_ttl rec < 2 ^ 31" "sess_status rec = SESSION_STATUS_ACTIVE"
  shows "field_or_empty (create_xml fmt rec) ''session_id'' 64 = sess_id rec"
    "field_or_empty (create_xml fmt rec) ''ttl_seconds'' 16 = dec_int (sess_ttl rec)"
proof -
  let ?t = "c_snprintf 32 (fmt (sess_created rec))"
  let ?a = "''<session>'' @ NLs @ ''  <operation>CREATE_SESSION</operation>'' @ NLs @ ''  ''"
  let ?b = "''</session_id>'' @ NLs @ ''  <status>ACTIVE</status>'' @ NLs @ ''  <created_ts>''"
  let ?c = "''</created_ts>'' @ NLs @ ''  ''"
  have l: "length (dec_int (sess_ttl rec)) \<le> 11" using length_dec_int32 [OF assms(4,5)] .
  have t: "length ?t \<le> 31" "CHR ''<'' \<notin> set ?t" using assms(3) by (auto simp: c_snprintf_def dest: in_set_takeD)
  have x: "create_xml fmt rec = ?a @ ''<session_id>'' @ sess_id rec @ ?b @ ?t @ ?c @ ''<ttl_seconds>'' @
      dec_int (sess_ttl rec) @ ''</ttl_seconds>'' @ NLs @ ''</session>'' @ NLs"
    unfolding create_xml_def using assms(1,6) l t(1)
    by (subst c_snprintf_id) (simp_all add: NLs_def)
  have a: "passes ''<session_id>'' ?a" "passes ''<ttl_seconds>'' ?a"
    by (simp_all add: passes_def NLs_def cs_prefix_def option.map_comp comp_def)
  have b: "passes ''<ttl_seconds>'' (''<session_id>'' @ sess_id rec @ ?b @ ?t @ ?c)"
  proof (intro passes_append)
    show "passes ''<ttl_seconds>'' (sess_id rec)" "passes ''<ttl_seconds>'' ?t" using assms(2) t(2) by (auto intro!: xml_tag)
  qed (simp_all add: passes_def NLs_def cs_prefix_def option.map_comp comp_def)
  have "extract_session_field (create_xml fmt rec) ''session_id'' 64 = Some (sess_id rec)"
    using field_found [of "''session_id''" ?a "sess_id rec" 64] a(1) assms(1,2) by (simp add: x)
  then show "field_or_empty (create_xml fmt rec) ''session_id'' 64 = sess_id rec" by (simp add: field_or_empty_def)
  have "extract_session_field (create_xml fmt rec) ''ttl_seconds'' 16 = Some (dec_int (sess_ttl rec))"
    using field_found [where tag = "''ttl_seconds''" and n = 16 and a = "?a @ ''<session_id>'' @ sess_id rec @ ?b @ ?t @ ?c",
        OF _ dec_int_no_tag [of "sess_ttl rec"]] passes_append [OF a(2) b] l
    by (simp add: x)
  then show "field_or_empty (create_xml fmt rec) ''ttl_seconds'' 16 = dec_int (sess_ttl rec)" by (simp add: field_or_empty_def)
qed

subsection \<open>The account store\<close>

text \<open>
  One local user in the database: \<open>view\<close> is its failed attempts and whether it is locked. The select returns its
  row, the update of a failure stores what it says, committing succeeds and keeps it, auditing leaves it alone.
\<close>

definition account_store :: "'d auth_env \<Rightarrow> cstring \<Rightarrow> int \<Rightarrow> cstring \<Rightarrow> ('d \<Rightarrow> int \<times> bool) \<Rightarrow> bool" where
  "account_store env username uid hash view \<longleftrightarrow>
     (\<exists>p1 p2. auth_placeholder env 1 = Some p1 \<and> auth_placeholder env 2 = Some p2 \<and>
       (\<forall>db. ae_select env db (user_sql p1) [username] =
          Some (8, Some [[dec_int uid, [], hash, ''Y'', if snd (view db) then ''Y'' else ''N'', dec_int (fst (view db)), ''LOCAL'', []]])) \<and>
       (\<forall>db lock n. 0 \<le> n \<and> n < 2 ^ 31 \<longrightarrow> (\<exists>db1. ae_dml env db (failure_sql lock p1 p2 (now_expr (ae_dialect env))) [dec_int n, dec_int uid] = (0, db1) \<and>
          view db1 = (n, lock \<or> snd (view db))))) \<and>
     (\<exists>commit. drv_commit (ae_driver env) = Some commit \<and> (\<forall>db. \<exists>db1. commit db = (0, db1) \<and> view db1 = view db)) \<and>
     (\<forall>db r. view (snd (ae_audit env r db)) = view db)"

lemma auth_parse_int_dec: "- (2 ^ 31) \<le> i \<Longrightarrow> i < 2 ^ 31 \<Longrightarrow> auth_parse_int (dec_int i) = Some i"
  using c_strtol_dec_int [of "[]" i] not_sym [OF dec_int_nonempty [of i]] by (simp add: auth_parse_int_def clamp_long_id LONG_MIN_def LONG_MAX_def to_int_id)

definition account_row :: "int \<Rightarrow> cstring \<Rightarrow> int \<times> bool \<Rightarrow> auth_user_row" where
  "account_row uid hash v =
     \<lparr>u_id = uid, u_display_name = [], u_password_hash = hash, u_enabled = ''Y'',
      u_locked = (if snd v then ''Y'' else ''N''), u_failed_attempts = fst v, u_source_type = ''LOCAL'', u_ldap_configuration = None\<rparr>"

lemma account_lookup:
  assumes "account_store env username uid hash view" "length hash < 256" "- (2 ^ 31) \<le> uid" "uid < 2 ^ 31"
    and "0 \<le> fst (view db)" "fst (view db) < 2 ^ 31"
  shows "lookup_user env db username = Some (Some (account_row uid hash (view db)))"
proof -
  from assms(1) obtain p1 where p: "auth_placeholder env 1 = Some p1"
    "\<And>db. ae_select env db (user_sql p1) [username] =
          Some (8, Some [[dec_int uid, [], hash, ''Y'', if snd (view db) then ''Y'' else ''N'', dec_int (fst (view db)), ''LOCAL'', []]])"
    unfolding account_store_def by blast
  have "user_row dup [dec_int uid, [], hash, ''Y'', if snd (view db) then ''Y'' else ''N'', dec_int (fst (view db)), ''LOCAL'', []] =
      Some (account_row uid hash (view db))" for dup
    using assms(2-6) by (simp add: user_row_def auth_parse_int_dec auth_copy_def account_row_def)
  then show ?thesis using p(1) by (simp add: lookup_user_def p(2))
qed

text \<open>A database of one local user with the password \<^verbatim>\<open>pw\<close>, and a directory that knows \<^verbatim>\<open>secret\<close>.\<close>

definition test_auth_env :: "(int \<times> bool) auth_env" where
  "test_auth_env =
     \<lparr>ae_dialect = oracle_dialect, ae_ini = test_session_ini, ae_max_failed = 3, ae_tx_retries = 0,
      ae_select = (\<lambda>db sql b. Some (8, Some [[dec_int 7, [], ''H'', ''Y'', if snd db then ''Y'' else ''N'', dec_int (fst db), ''LOCAL'', []]])),
      ae_dml = (\<lambda>db sql b. (0, if length b = 2 then (c_atoi (b ! 0), snd db \<or> sql = failure_sql True '':1'' '':2'' (now_expr oracle_dialect))
                               else (0, snd db))),
      ae_driver = \<lparr>drv_commit = Some (\<lambda>d. (0, d)), drv_rollback = Some (\<lambda>d. (0, d))\<rparr>,
      ae_audit = (\<lambda>r d. (0, d)), ae_insert = (\<lambda>d q. (0, d)), ae_permissions = (\<lambda>d sql b. Some (1, [])),
      ae_pwhash_verify = (\<lambda>h p. if p = ''pw'' then 0 else -1), ae_json_parse = (\<lambda>s. None), ae_format = (\<lambda>f s. s),
      ae_ldap_bind = (\<lambda>url dn p. p = ''secret''), ae_helper_runs = True, ae_dup = (\<lambda>n. True), ae_fmt_time = (\<lambda>t. ''now'')\<rparr>"

lemma test_account: "account_store test_auth_env ''ann'' 7 ''H'' (\<lambda>db. db)"
proof -
  have ph: "auth_placeholder test_auth_env 1 = Some '':1''" "auth_placeholder test_auth_env 2 = Some '':2''" by code_simp+
  have lock: "failure_sql False '':1'' '':2'' (now_expr oracle_dialect) \<noteq> failure_sql True '':1'' '':2'' (now_expr oracle_dialect)"
    by code_simp
  have dml: "ae_dml test_auth_env db (failure_sql lk '':1'' '':2'' (now_expr (ae_dialect test_auth_env))) [dec_int n, dec_int 7] =
      (0, (n, lk \<or> snd db))" if "0 \<le> n \<and> n < 2 ^ 31" for db lk n
    using that lock c_atoi_dec_int [of n] by (cases lk) (simp_all add: test_auth_env_def)
  have c: "\<exists>commit. drv_commit (ae_driver test_auth_env) = Some commit \<and> (\<forall>db. \<exists>db1. commit db = (0, db1) \<and> db1 = db)"
    by (intro exI [of _ "\<lambda>d. (0, d)"]) (simp add: test_auth_env_def)
  have a: "\<forall>db r. snd (ae_audit test_auth_env r db) = db" by (simp add: test_auth_env_def)
  have s: "\<forall>db. ae_select test_auth_env db (user_sql '':1'') [''ann''] =
      Some (8, Some [[dec_int 7, [], ''H'', ''Y'', if snd db then ''Y'' else ''N'', dec_int (fst db), ''LOCAL'', []]])"
    by (simp add: test_auth_env_def)
  from dml have d: "\<forall>db lock n. 0 \<le> n \<and> n < 2 ^ 31 \<longrightarrow> (\<exists>db1. ae_dml test_auth_env db
      (failure_sql lock '':1'' '':2'' (now_expr (ae_dialect test_auth_env))) [dec_int n, dec_int 7] = (0, db1) \<and> db1 = (n, lock \<or> snd db))"
    by simp
  show ?thesis unfolding account_store_def using ph s d c a by blast
qed

subsection \<open>Who gets in\<close>

text \<open>The user's own source vouches for the credential.\<close>

definition vouched :: "'d auth_env \<Rightarrow> auth_user_row \<Rightarrow> cstring \<Rightarrow> cstring \<Rightarrow> bool" where
  "vouched env user username credential \<longleftrightarrow>
     (if ci_eq (u_source_type user) ''LOCAL''
      then u_password_hash user \<noteq> [] \<and> ae_pwhash_verify env (u_password_hash user) credential = 0
      else (ci_eq (u_source_type user) ''LDAP'' \<or> ci_eq (u_source_type user) ''AD'') \<and>
           ldap_credential_ok env (u_ldap_configuration user) username credential)"

definition admits :: "'d auth_env \<Rightarrow> auth_user_row \<Rightarrow> cstring \<Rightarrow> cstring \<Rightarrow> bool" where
  "admits env user username credential \<longleftrightarrow>
     u_enabled user = ''Y'' \<and> u_locked user \<noteq> ''Y'' \<and> vouched env user username credential"

lemma check_credential_vouched:
  "credential \<noteq> [] \<Longrightarrow> fst (check_credential env user username credential db) = vouched env user username credential"
  by (simp add: check_credential_def vouched_def crypt_verify_password_def)

lemma check_credential_pure: "fst (check_credential env user username credential db) \<Longrightarrow>
    snd (check_credential env user username credential db) = db"
  by (simp add: check_credential_def split: if_splits)

lemma authenticate_cases:
  assumes "username \<noteq> []" "credential \<noteq> []"
  shows "auth_authenticate env rnd now mem mem2 username credential ctx az db =
    (case lookup_user env db username of
       None \<Rightarrow> (AUTH_ERR_DB_FAILURE, None, ctx, az, db)
     | Some None \<Rightarrow> (AUTH_ERR_DENIED, None, ctx, az, db)
     | Some (Some user) \<Rightarrow>
         if admits env user username credential then open_session env rnd now mem mem2 user username ctx az db
         else (AUTH_ERR_DENIED, None, ctx, az,
               if u_enabled user = ''Y'' \<and> u_locked user \<noteq> ''Y'' then snd (check_credential env user username credential db) else db))"
proof (cases "lookup_user env db username")
  case None
  with assms show ?thesis by (simp add: auth_authenticate_def)
next
  case (Some r)
  show ?thesis
  proof (cases r)
    case None
    with Some assms show ?thesis by (simp add: auth_authenticate_def)
  next
    case (Some user)
    obtain ok db1 where c: "check_credential env user username credential db = (ok, db1)"
      by (cases "check_credential env user username credential db")
    then have "ok = vouched env user username credential" "ok \<longrightarrow> db1 = db"
      using check_credential_vouched [OF assms(2), of env user username db] check_credential_pure [of env user username credential db] by auto
    with c Some \<open>lookup_user env db username = Some r\<close> assms show ?thesis
      by (auto simp: auth_authenticate_def admits_def)
  qed
qed


lemma test_lookup: "lookup_user test_auth_env (0, False) ''ann'' = Some (Some (account_row 7 ''H'' (0, False)))"
  using account_lookup [OF test_account, of "(0, False)"] by simp


subsection \<open>The password the directory sees\<close>

lemma takeWhile_line: "takeWhile (\<lambda>c. c \<noteq> x) (s @ x # r) = takeWhile (\<lambda>c. c \<noteq> x) s"
  by (induction s) simp_all

text \<open>C6. The directory is asked about the credential up to its first line break, and the answer is the directory's.
  So for a credential without a line break it is the credential that is checked; one that begins with a line break is
  checked as the empty password, which a simple bind takes as anonymous.
\<close>

theorem ldap_bind_password:
  assumes "url \<noteq> []" "dn \<noteq> []" "password \<noteq> []" "length password < 511" "ae_helper_runs env"
  shows "ldap_auth_bind_check env url dn password = ae_ldap_bind env url dn (takeWhile (\<lambda>c. c \<noteq> CHR 0x0A) password)"
proof -
  let ?w = "takeWhile (\<lambda>c. c \<noteq> CHR 0x0A) password"
  have w: "takeWhile (\<lambda>c. c \<noteq> CHR 0x0A) (password @ [CHR 0x0A]) = ?w"
    by (rule takeWhile_line)
  have "length ?w < 511" using assms(4) length_takeWhile_le [of "\<lambda>c. c \<noteq> CHR 0x0A" password] by linarith
  then have "c_fgets 512 (password @ [CHR 0x0A]) = Some (?w @ [CHR 0x0A])" by (simp add: c_fgets_def w)
  with assms show ?thesis by (simp add: ldap_auth_bind_check_def ldap_bind_helper_main_def Let_def)
qed

lemma ldap_bind_password_witness:
  "ldap_auth_bind_check test_auth_env ''ldap://d:389'' ''uid=ann'' ''secret'' \<and>
   \<not> ldap_auth_bind_check test_auth_env ''ldap://d:389'' ''uid=ann'' ''wrong'' \<and>
   ldap_auth_bind_check test_auth_env ''ldap://d:389'' ''uid=ann'' (''secret'' @ [CHR 0x0A] @ ''junk'')"
proof -
  have e: "ae_helper_runs test_auth_env" "ae_ldap_bind test_auth_env = (\<lambda>url dn p. p = ''secret'')"
    by (simp_all add: test_auth_env_def)
  show ?thesis
    using ldap_bind_password [OF _ _ _ _ e(1), of "''ldap://d:389''" "''uid=ann''" "''secret''"]
      ldap_bind_password [OF _ _ _ _ e(1), of "''ldap://d:389''" "''uid=ann''" "''wrong''"]
      ldap_bind_password [OF _ _ _ _ e(1), of "''ldap://d:389''" "''uid=ann''" "''secret'' @ [CHR 0x0A] @ ''junk''"] e(2)
    by simp
qed

text \<open>A credential that begins with a line break is accepted wherever the directory accepts an empty password.\<close>

lemma line_break_binds_empty:
  assumes "url \<noteq> []" "dn \<noteq> []" "length rest < 510" "ae_helper_runs env"
  shows "ldap_auth_bind_check env url dn (CHR 0x0A # rest) = ae_ldap_bind env url dn []"
proof -
  have "c_fgets 512 ((CHR 0x0A # rest) @ [CHR 0x0A]) = Some [CHR 0x0A]" by (simp add: c_fgets_def)
  with assms show ?thesis by (simp add: ldap_auth_bind_check_def ldap_bind_helper_main_def Let_def)
qed

subsection \<open>Lockout\<close>

fun attempts ::
    "'d auth_env \<Rightarrow> 8 word list \<Rightarrow> int \<Rightarrow> nat option \<Rightarrow> nat option \<Rightarrow> cstring \<Rightarrow> cstring list \<Rightarrow>
     session_ctx \<Rightarrow> cache option \<Rightarrow> 'd \<Rightarrow> int list \<times> session_ctx \<times> cache option \<times> 'd" where
  "attempts env rnd now mem mem2 username [] ctx az db = ([], ctx, az, db)"
| "attempts env rnd now mem mem2 username (c # cs) ctx az db =
     (case auth_authenticate env rnd now mem mem2 username c ctx az db of
        (rc, _, ctx1, az1, db1) \<Rightarrow>
          (case attempts env rnd now mem mem2 username cs ctx1 az1 db1 of (rcs, r) \<Rightarrow> (rc # rcs, r)))"

lemma account_failure:
  assumes "account_store env username uid hash view" "- (2 ^ 31) \<le> uid" "uid < 2 ^ 31" "0 \<le> n" "n + 1 < 2 ^ 31"
  shows "view (record_auth_failure env uid username n db) = (n + 1, ae_max_failed env \<le> n + 1 \<or> snd (view db))"
proof -
  let ?lock = "ae_max_failed env \<le> n + 1"
  from assms(1) obtain p1 p2 where p: "auth_placeholder env 1 = Some p1" "auth_placeholder env 2 = Some p2"
    "\<And>db lock n. 0 \<le> n \<and> n < 2 ^ 31 \<Longrightarrow> \<exists>db1. ae_dml env db (failure_sql lock p1 p2 (now_expr (ae_dialect env))) [dec_int n, dec_int uid] = (0, db1) \<and>
          view db1 = (n, lock \<or> snd (view db))" unfolding account_store_def by blast
  from assms(1) obtain commit where c: "drv_commit (ae_driver env) = Some commit"
    "\<And>db. \<exists>db1. commit db = (0, db1) \<and> view db1 = view db" unfolding account_store_def by blast
  have au: "view (snd (ae_audit env r d)) = view d" for r d using assms(1) unfolding account_store_def by blast
  have "0 \<le> n + 1 \<and> n + 1 < 2 ^ 31" using assms(4,5) by simp
  from p(3) [OF this, of db ?lock] obtain db1 where
    d: "ae_dml env db (failure_sql ?lock p1 p2 (now_expr (ae_dialect env))) [dec_int (n + 1), dec_int uid] = (0, db1)"
      "view db1 = (n + 1, ?lock \<or> snd (view db))" by blast
  from c(2) [of db1] obtain db2 where k: "commit db1 = (0, db2)" "view db2 = view db1" by blast
  have "tx_commit_with_retry (Some (ae_driver env)) (ae_tx_retries env) db1 = (0, 1, db2)"
    using c(1) k(1) by (simp add: tx_commit_with_retry_def commit_loop.simps DB_TX_RETRYABLE_def)
  then have u: "auth_update_and_commit env (failure_sql ?lock p1 p2 (now_expr (ae_dialect env))) [dec_int (n + 1), dec_int uid] db = (0, db2)"
    using d(1) by (simp add: auth_update_and_commit_def)
  have s: "c_snprintf 16 (dec_int (n + 1)) = dec_int (n + 1)" "c_snprintf 16 (dec_int uid) = dec_int uid"
    using length_dec_int32 [of "n + 1"] length_dec_int32 [OF assms(2,3)] assms(4,5) by simp_all
  show ?thesis using p(1,2) u d(2) k(2) by (simp add: record_auth_failure_def Let_def s au)
qed

lemma account_attempt:
  assumes "account_store env username uid hash view" "username \<noteq> []" "hash \<noteq> []" "length hash < 256" "- (2 ^ 31) \<le> uid" "uid < 2 ^ 31"
    and "view db = (n, lk)" "0 \<le> n" "n + 1 < 2 ^ 31" "c \<noteq> []" "lk \<or> ae_pwhash_verify env hash c \<noteq> 0"
  shows "\<exists>db'. auth_authenticate env rnd now mem mem2 username c ctx az db = (AUTH_ERR_DENIED, None, ctx, az, db') \<and>
    (if lk then db' = db else view db' = (n + 1, ae_max_failed env \<le> n + 1))"
proof -
  have r: "lookup_user env db username = Some (Some (account_row uid hash (n, lk)))"
    using account_lookup [OF assms(1,4-6), of db] assms(7-9) by simp
  show ?thesis
  proof (cases lk)
    case True
    with r assms(2,10) show ?thesis by (simp add: authenticate_cases admits_def account_row_def)
  next
    case False
    have "\<not> admits env (account_row uid hash (n, lk)) username c"
      using assms(11) False by (simp add: admits_def vouched_def account_row_def ci_eq_def)
    moreover have "snd (check_credential env (account_row uid hash (n, lk)) username c db) = record_auth_failure env uid username n db"
      using assms(11) False by (simp add: check_credential_def account_row_def ci_eq_def crypt_verify_password_def)
    moreover have "view (record_auth_failure env uid username n db) = (n + 1, ae_max_failed env \<le> n + 1)"
      using account_failure [OF assms(1,5,6,8,9), of db] False assms(7) by simp
    ultimately show ?thesis using r assms(2,10) False by (simp add: authenticate_cases account_row_def)
  qed
qed

text \<open>C5. Lockout. For a local user, wrong credentials in a row are all denied, counted while the account is open, and lock
  it when the count reaches the configured maximum; the count stops there, and from then on every credential is denied,
  the right one included, without a change of anything.
\<close>

theorem lockout_after_failures:
  assumes "account_store env username uid hash view" "username \<noteq> []" "hash \<noteq> []" "length hash < 256" "- (2 ^ 31) \<le> uid" "uid < 2 ^ 31"
    and "view db = (n, False)" "0 \<le> n" "n + int (length cs) + 1 < 2 ^ 31"
    and "\<forall>c \<in> set cs. c \<noteq> [] \<and> ae_pwhash_verify env hash c \<noteq> 0"
    and "attempts env rnd now mem mem2 username cs ctx az db = (rcs, ctx', az', db')"
  shows "rcs = replicate (length cs) AUTH_ERR_DENIED \<and> ctx' = ctx \<and> az' = az \<and>
    (if cs = [] \<or> n + int (length cs) < ae_max_failed env then view db' = (n + int (length cs), False)
     else view db' = (max (n + 1) (ae_max_failed env), True) \<and>
       (\<forall>c. c \<noteq> [] \<longrightarrow> auth_authenticate env rnd now mem mem2 username c ctx az db' = (AUTH_ERR_DENIED, None, ctx, az, db')))"
proof -
  note one = account_attempt [OF assms(1-6), of _ _ _ _ rnd now mem mem2 ctx az]
  have locked: "attempts env rnd now mem mem2 username cs ctx az d = (replicate (length cs) AUTH_ERR_DENIED, ctx, az, d)"
    if "view d = (m, True)" "0 \<le> m" "m + 1 < 2 ^ 31" "\<forall>c \<in> set cs. c \<noteq> []" for d m cs
    using that(4)
  proof (induction cs)
    case (Cons c cs)
    with one [OF that(1-3), of c] show ?case by simp
  qed simp
  have "\<exists>d. attempts env rnd now mem mem2 username cs ctx az db = (replicate (length cs) AUTH_ERR_DENIED, ctx, az, d) \<and>
     view d = (if cs = [] \<or> n + int (length cs) < ae_max_failed env then (n + int (length cs), False) else (max (n + 1) (ae_max_failed env), True))"
    using assms(7-10)
  proof (induction cs arbitrary: n db)
    case (Cons c cs)
    have "n + 1 < 2 ^ 31" "c \<noteq> []" "False \<or> ae_pwhash_verify env hash c \<noteq> 0" using Cons.prems(3,4) by simp_all
    from one [OF Cons.prems(1,2) this] obtain d1 where
      d1: "auth_authenticate env rnd now mem mem2 username c ctx az db = (AUTH_ERR_DENIED, None, ctx, az, d1)"
        "view d1 = (n + 1, ae_max_failed env \<le> n + 1)" by auto
    show ?case
    proof (cases "ae_max_failed env \<le> n + 1")
      case True
      with d1(2) have v: "view d1 = (n + 1, True)" by simp
      have "attempts env rnd now mem mem2 username cs ctx az d1 = (replicate (length cs) AUTH_ERR_DENIED, ctx, az, d1)"
        by (rule locked [OF v]) (use Cons.prems(2-4) in auto)
      with d1(1) v True show ?thesis by (simp add: max_def)
    next
      case False
      with d1(2) have v: "view d1 = (n + 1, False)" by simp
      have "\<exists>d. attempts env rnd now mem mem2 username cs ctx az d1 = (replicate (length cs) AUTH_ERR_DENIED, ctx, az, d) \<and>
          view d = (if cs = [] \<or> n + 1 + int (length cs) < ae_max_failed env then (n + 1 + int (length cs), False)
                    else (max (n + 1 + 1) (ae_max_failed env), True))"
        by (rule Cons.IH [OF v]) (use Cons.prems(2-4) in auto)
      with d1(1) False show ?thesis by (cases cs) (auto simp: max_def)
    qed
  qed simp
  then obtain d where d: "attempts env rnd now mem mem2 username cs ctx az db = (replicate (length cs) AUTH_ERR_DENIED, ctx, az, d)"
    "view d = (if cs = [] \<or> n + int (length cs) < ae_max_failed env then (n + int (length cs), False) else (max (n + 1) (ae_max_failed env), True))"
    by blast
  show ?thesis
  proof (cases "cs = [] \<or> n + int (length cs) < ae_max_failed env")
    case True
    with d assms(11) show ?thesis by auto
  next
    case False
    then have v: "view d = (max (n + 1) (ae_max_failed env), True)" using d(2) by simp
    have "1 \<le> int (length cs)" using False by (cases cs) simp_all
    then have "max (n + 1) (ae_max_failed env) + 1 < 2 ^ 31" "0 \<le> max (n + 1) (ae_max_failed env)" using False assms(8,9) by auto
    from one [OF v this(2,1)] have "\<forall>c. c \<noteq> [] \<longrightarrow> auth_authenticate env rnd now mem mem2 username c ctx az d = (AUTH_ERR_DENIED, None, ctx, az, d)"
      by simp
    with d(1) v False assms(11) show ?thesis by auto
  qed
qed

lemma lockout_after_failures_witness:
  "\<exists>db'. attempts test_auth_env [] 1000 None None ''ann'' [''a'', ''b'', ''c'', ''d''] tiny_ctx None (0, False) =
      ([AUTH_ERR_DENIED, AUTH_ERR_DENIED, AUTH_ERR_DENIED, AUTH_ERR_DENIED], tiny_ctx, None, db') \<and> db' = (3, True) \<and>
    auth_authenticate test_auth_env [] 1000 None None ''ann'' ''pw'' tiny_ctx None db' = (AUTH_ERR_DENIED, None, tiny_ctx, None, db')"
proof -
  obtain rcs ctx' az' db' where a: "attempts test_auth_env [] 1000 None None ''ann'' [''a'', ''b'', ''c'', ''d''] tiny_ctx None (0, False) =
      (rcs, ctx', az', db')" by (metis prod_cases4)
  have bad: "\<forall>c \<in> set [''a'', ''b'', ''c'', ''d'']. c \<noteq> [] \<and> ae_pwhash_verify test_auth_env ''H'' c \<noteq> 0"
    by (simp add: test_auth_env_def)
  have m: "ae_max_failed test_auth_env = 3" by (simp add: test_auth_env_def)
  from lockout_after_failures [OF test_account _ _ _ _ _ _ _ _ bad a, of 0] m a show ?thesis by (auto simp del: attempts.simps)
qed

end
