(* ===== verification/Sql_Dependencies.thy ===== *)
theory Sql_Dependencies
  imports C_Prelude
begin

text \<open>
  \<^verbatim>\<open>src/core/level 2/sql_dependency_extractor.c\<close>: which tables and columns a SELECT refers to. The
  parser works on an upper-cased copy with single blanks, finds the clauses by searching for keywords as
  whole words, and splits lists at commas. A \<^verbatim>\<open>size_t\<close> length that cannot be exceeded (texts cut from a
  buffer of the same size) is not checked again. Logging is left out; a failure is \<open>None\<close>.
\<close>

subsection \<open>Limits and data\<close>

definition NORM_SQL_MAX :: nat where "NORM_SQL_MAX = 8192"

definition SQL_DEP_MAX_OBJECTS :: nat where "SQL_DEP_MAX_OBJECTS = 64"

definition SQL_DEP_MAX_FIELDS :: nat where "SQL_DEP_MAX_FIELDS = 256"

definition SQL_OBJ_TYPE_TABLE :: int where "SQL_OBJ_TYPE_TABLE = 1"

definition SQL_FIELD_NORMAL :: int where "SQL_FIELD_NORMAL = 0"

definition SQL_FIELD_WILDCARD_ALL :: int where "SQL_FIELD_WILDCARD_ALL = 1"

definition SQL_FIELD_WILDCARD_TBL :: int where "SQL_FIELD_WILDCARD_TBL = 2"

definition SQL_FIELD_UNQUALIFIED :: int where "SQL_FIELD_UNQUALIFIED = 3"

lemmas dep_limits = NORM_SQL_MAX_def SQL_DEP_MAX_OBJECTS_def SQL_DEP_MAX_FIELDS_def

lemmas dep_codes = SQL_OBJ_TYPE_TABLE_def SQL_FIELD_NORMAL_def SQL_FIELD_WILDCARD_ALL_def SQL_FIELD_WILDCARD_TBL_def
  SQL_FIELD_UNQUALIFIED_def

record object_ref =
  obj_owner :: cstring
  obj_name :: cstring
  obj_alias :: cstring
  obj_type :: int
  obj_field_pos :: nat

record field_ref =
  fr_table_ref :: cstring
  fr_name :: cstring
  fr_alias :: cstring
  fr_pos :: nat
  fr_expansion :: int

record dependency_list =
  dep_objects :: "object_ref list"
  dep_fields :: "field_ref list"
  dep_needs_expansion :: bool

subsection \<open>Normalisation and words\<close>

text \<open>\<open>room\<close> is \<^verbatim>\<open>out_max - 1 - wi\<close>.\<close>

fun norm_loop :: "nat \<Rightarrow> bool \<Rightarrow> cstring \<Rightarrow> cstring" where
  "norm_loop room in_space [] = []"
| "norm_loop 0 in_space (c # s) = []"
| "norm_loop (Suc room) in_space (c # s) =
     (if c_isspace c
      then if \<not> in_space then CHR '' '' # norm_loop room True s else norm_loop (Suc room) True s
      else c_toupper c # norm_loop room False s)"

definition strip_right :: "cstring \<Rightarrow> cstring" where
  "strip_right s = rev (dropWhile (\<lambda>c. c = CHR '' '') (rev s))"

definition skip_blanks :: "cstring \<Rightarrow> cstring" where
  "skip_blanks s = dropWhile (\<lambda>c. c = CHR '' '') s"

definition normalise_sql :: "cstring \<Rightarrow> nat \<Rightarrow> cstring option" where
  "normalise_sql sql out_max =
     (if out_max < 2 then None
      else
        let a = strip_right (norm_loop (out_max - 1) True sql);
            b = (if a \<noteq> [] \<and> last a = CHR '';'' then butlast a else a)
        in Some (strip_right b))"

definition trim_token :: "cstring \<Rightarrow> cstring" where
  "trim_token s = strip_right (skip_blanks s)"

definition is_word :: "char \<Rightarrow> bool" where
  "is_word c \<longleftrightarrow> c_isalnum c \<or> c = CHR ''_''"

definition starts_word :: "cstring \<Rightarrow> bool" where
  "starts_word s \<longleftrightarrow> (case s of [] \<Rightarrow> False | c # _ \<Rightarrow> is_word c)"

text \<open>The positions \<^verbatim>\<open>strstr\<close> finds, in order; \<open>prev\<close>: the character before is part of a word.\<close>

fun find_kw_at :: "bool \<Rightarrow> cstring \<Rightarrow> cstring \<Rightarrow> nat option" where
  "find_kw_at prev [] kw = None"
| "find_kw_at prev (c # s) kw =
     (if cs_prefix kw (c # s) \<and> \<not> prev \<and> \<not> starts_word (drop (length kw) (c # s)) then Some 0
      else map_option Suc (find_kw_at (is_word c) s kw))"

definition find_keyword :: "cstring \<Rightarrow> cstring \<Rightarrow> nat option" where
  "find_keyword src kw = find_kw_at False src kw"

fun split_loop :: "nat \<Rightarrow> cstring \<Rightarrow> cstring list" where
  "split_loop 0 p = []"
| "split_loop (Suc left) p =
     (let q = skip_blanks p in
      if q = [] then []
      else case c_strchr q (CHR '','') of
             None \<Rightarrow> [q]
           | Some i \<Rightarrow> take i q # split_loop left (drop (i + 1) q))"

definition split_on_comma :: "cstring \<Rightarrow> nat \<Rightarrow> cstring list" where
  "split_on_comma buf max_tokens = map trim_token (split_loop max_tokens buf)"

subsection \<open>One field\<close>

text \<open>
  \<^verbatim>\<open>NAME\<close>, \<^verbatim>\<open>NAME AS ALIAS\<close> or \<^verbatim>\<open>NAME ALIAS\<close>; the code has this twice, for the text behind the dot and for a
  token without a dot.
\<close>

definition name_and_alias :: "cstring \<Rightarrow> (cstring \<times> cstring) option" where
  "name_and_alias text =
     (let cut = (case find_keyword text ''AS'' of
                   Some i \<Rightarrow> Some (strip_right (take i text), skip_blanks (drop (i + 2) text))
                 | None \<Rightarrow>
                     (case c_strchr text (CHR '' '') of
                        Some i \<Rightarrow> Some (take i text, skip_blanks (drop (i + 1) text))
                      | None \<Rightarrow> None));
          found = (case cut of
                     Some (n, al) \<Rightarrow> if n = [] \<or> length n \<ge> 128 then None else Some (n, c_strncpy 128 al)
                   | None \<Rightarrow> Some (c_strncpy 128 text, []))
      in case found of
           None \<Rightarrow> None
         | Some (n, al) \<Rightarrow> if trim_token n = [] then None else Some (trim_token n, al))"

definition parse_field_token :: "cstring \<Rightarrow> nat \<Rightarrow> cstring option \<Rightarrow> field_ref option" where
  "parse_field_token token pos single_table_ref =
     (if token = ''*''
      then Some \<lparr>fr_table_ref = [], fr_name = ''*'', fr_alias = [], fr_pos = pos, fr_expansion = SQL_FIELD_WILDCARD_ALL\<rparr>
      else if CHR ''('' \<in> set token \<or> CHR '')'' \<in> set token then None
      else
        (case c_strchr token (CHR ''.'') of
           None \<Rightarrow>
             (case single_table_ref of
                None \<Rightarrow> None
              | Some r \<Rightarrow>
                  (case name_and_alias token of
                     None \<Rightarrow> None
                   | Some (n, al) \<Rightarrow>
                       Some \<lparr>fr_table_ref = c_strncpy 64 r, fr_name = n, fr_alias = al, fr_pos = pos,
                             fr_expansion = SQL_FIELD_UNQUALIFIED\<rparr>))
         | Some ref_len \<Rightarrow>
             if ref_len = 0 \<or> ref_len \<ge> 64 then None
             else
               let r = take ref_len token; after_dot = drop (ref_len + 1) token in
               if after_dot = ''*'' \<or> cs_prefix ''* '' after_dot
               then Some \<lparr>fr_table_ref = r, fr_name = ''*'', fr_alias = [], fr_pos = pos,
                          fr_expansion = SQL_FIELD_WILDCARD_TBL\<rparr>
               else if after_dot = [] then None
               else
                 (case name_and_alias after_dot of
                    None \<Rightarrow> None
                  | Some (n, al) \<Rightarrow>
                      Some \<lparr>fr_table_ref = r, fr_name = n, fr_alias = al, fr_pos = pos, fr_expansion = SQL_FIELD_NORMAL\<rparr>)))"

subsection \<open>One table\<close>

definition parse_table_token :: "cstring \<Rightarrow> object_ref option" where
  "parse_table_token token =
     (if token = [] then None
      else if CHR ''('' \<in> set token \<or> CHR '')'' \<in> set token then None
      else
        let w0 = c_strncpy 512 token;
            (work, al) =
              (case find_keyword w0 ''AS'' of
                 Some i \<Rightarrow> (trim_token (take i w0), skip_blanks (drop (i + 2) w0))
               | None \<Rightarrow>
                   (case c_strchr w0 (CHR '' '') of
                      Some i \<Rightarrow> (trim_token (take i w0), skip_blanks (drop (i + 1) w0))
                    | None \<Rightarrow> (w0, [])));
            named = (case c_strchr work (CHR ''.'') of
                       Some owner_len \<Rightarrow>
                         if owner_len = 0 \<or> owner_len \<ge> 64 then None
                         else Some (take owner_len work, c_strncpy 128 (drop (owner_len + 1) work))
                     | None \<Rightarrow> Some ([], c_strncpy 128 work))
        in case named of
             None \<Rightarrow> None
           | Some (owner, name) \<Rightarrow>
               if trim_token name = [] then None
               else Some \<lparr>obj_owner = owner, obj_name = trim_token name, obj_alias = c_strncpy 64 al,
                          obj_type = SQL_OBJ_TYPE_TABLE, obj_field_pos = 0\<rparr>)"

subsection \<open>The FROM clause\<close>

definition join_kws :: "cstring list" where
  "join_kws = [''INNER JOIN'', ''LEFT OUTER JOIN'', ''RIGHT OUTER JOIN'', ''FULL OUTER JOIN'', ''CROSS JOIN'', ''LEFT JOIN'',
     ''RIGHT JOIN'', ''FULL JOIN'', ''JOIN'']"

definition join_stop_kws :: "cstring list" where
  "join_stop_kws = [''INNER JOIN'', ''LEFT OUTER JOIN'', ''RIGHT OUTER JOIN'', ''FULL OUTER JOIN'', ''CROSS JOIN'', ''LEFT JOIN'',
     ''RIGHT JOIN'', ''FULL JOIN'', ''JOIN'', ''ON'', ''USING'', ''WHERE'', ''GROUP'', ''ORDER'', ''HAVING'']"

text \<open>The earliest position of any of the keywords.\<close>

fun earliest :: "cstring list \<Rightarrow> cstring \<Rightarrow> nat option" where
  "earliest [] s = None"
| "earliest (k # ks) s =
     (case (find_keyword s k, earliest ks s) of
        (None, e) \<Rightarrow> e
      | (Some i, None) \<Rightarrow> Some i
      | (Some i, Some j) \<Rightarrow> Some (min i j))"

text \<open>A token that does not parse is dropped; so is one when the array is full.\<close>

definition add_table :: "object_ref list \<Rightarrow> cstring \<Rightarrow> object_ref list" where
  "add_table objs tok =
     (if length objs < SQL_DEP_MAX_OBJECTS \<and> tok \<noteq> []
      then (case parse_table_token tok of None \<Rightarrow> objs | Some obj \<Rightarrow> objs @ [obj]) else objs)"

definition add_tables :: "cstring \<Rightarrow> object_ref list \<Rightarrow> object_ref list" where
  "add_tables part objs = foldl add_table objs (split_on_comma part SQL_DEP_MAX_OBJECTS)"

text \<open>The keyword the cursor is at, and its length.\<close>

fun match_join :: "cstring list \<Rightarrow> cstring \<Rightarrow> nat option" where
  "match_join [] cursor = None"
| "match_join (k # ks) cursor =
     (if cs_prefix k cursor \<and> (case drop (length k) cursor of [] \<Rightarrow> True | c # _ \<Rightarrow> c = CHR '' '')
      then Some (length k) else match_join ks cursor)"

text \<open>One JOIN: the table token, and the cursor after it (empty at the end).\<close>

definition join_step :: "cstring \<Rightarrow> cstring \<times> cstring" where
  "join_step cur =
     (case earliest join_stop_kws cur of
        None \<Rightarrow> (trim_token (c_strncpy 512 cur), [])
      | Some tlen \<Rightarrow>
          (trim_token (if 0 < tlen \<and> tlen < 512 then take tlen cur else []),
           let rest = drop tlen cur in
           if cs_prefix ''ON'' rest \<or> cs_prefix ''USING'' rest
           then (case earliest join_kws rest of None \<Rightarrow> [] | Some j \<Rightarrow> drop j rest)
           else rest))"

lemma join_step_le: "length (snd (join_step cur)) \<le> length cur"
  by (auto simp: join_step_def Let_def split: option.splits)

lemma match_join_pos: "match_join ks cursor = Some n \<Longrightarrow> [] \<notin> set ks \<Longrightarrow> 0 < n \<and> n \<le> length cursor"
  by (induction ks) (auto simp: cs_prefix_def split: if_splits dest!: arg_cong [of "take _ _" _ length])

lemma skip_blanks_le: "length (skip_blanks s) \<le> length s"
  by (simp add: skip_blanks_def length_dropWhile_le)

function join_loop :: "cstring \<Rightarrow> object_ref list \<Rightarrow> object_ref list" where
  "join_loop cursor objs =
     (if cursor = [] then objs
      else
        (case match_join join_kws cursor of
           None \<Rightarrow> objs
         | Some n \<Rightarrow>
             (case join_step (skip_blanks (drop n cursor)) of (tok, rest) \<Rightarrow> join_loop rest (add_table objs tok))))"
  by pat_completeness auto

termination
proof (relation "measure (\<lambda>(cursor, objs). length cursor)")
  fix cursor :: cstring and objs :: "object_ref list" and n tok rest
  assume a: "cursor \<noteq> []" "match_join join_kws cursor = Some n" "(tok, rest) = join_step (skip_blanks (drop n cursor))"
  have "0 < n" using match_join_pos [OF a(2)] by (simp add: join_kws_def)
  then have "length (skip_blanks (drop n cursor)) < length cursor"
    using a(1) skip_blanks_le [of "drop n cursor"] by (cases cursor) auto
  with join_step_le [of "skip_blanks (drop n cursor)"] show "((rest, add_table objs tok), cursor, objs) \<in> measure (\<lambda>(cursor, objs). length cursor)"
    by (simp flip: a(3))
qed simp

declare join_loop.simps [simp del]

definition extract_join_tables :: "cstring \<Rightarrow> object_ref list" where
  "extract_join_tables from_seg =
     (let work = c_strncpy NORM_SQL_MAX from_seg in
      case earliest join_kws work of
        None \<Rightarrow> add_tables work []
      | Some base_len \<Rightarrow>
          join_loop (drop base_len work)
            (if base_len > 0 then add_tables (trim_token (take base_len work)) [] else []))"

text \<open>\<^verbatim>\<open>resolve_field_owners\<close>, which the extraction no longer calls.\<close>

definition resolves :: "object_ref list \<Rightarrow> field_ref \<Rightarrow> bool" where
  "resolves objs f \<longleftrightarrow>
     fr_expansion f = SQL_FIELD_WILDCARD_ALL \<or> fr_expansion f = SQL_FIELD_UNQUALIFIED \<or>
     list_ex (\<lambda>obj. (obj_alias obj \<noteq> [] \<and> ci_eq (fr_table_ref f) (obj_alias obj)) \<or> ci_eq (fr_table_ref f) (obj_name obj)) objs"

definition resolve_field_owners :: "dependency_list \<Rightarrow> bool" where
  "resolve_field_owners deps \<longleftrightarrow> list_all (resolves (dep_objects deps)) (dep_fields deps)"

subsection \<open>The entry point\<close>

definition from_stop_kws :: "cstring list" where
  "from_stop_kws = [''WHERE'', ''GROUP BY'', ''ORDER BY'', ''HAVING'']"

definition from_clause_of :: "cstring \<Rightarrow> cstring" where
  "from_clause_of body =
     (case earliest from_stop_kws body of
        Some from_len \<Rightarrow> strip_right (take from_len body)
      | None \<Rightarrow> trim_token (c_strncpy NORM_SQL_MAX body))"

fun parse_fields :: "cstring option \<Rightarrow> nat \<Rightarrow> cstring list \<Rightarrow> field_ref list option" where
  "parse_fields single pos [] = Some []"
| "parse_fields single pos (tok # toks) =
     (if tok = [] then parse_fields single (pos + 1) toks
      else
        (case parse_field_token tok pos single of
           None \<Rightarrow> None
         | Some f \<Rightarrow> map_option (\<lambda>fs. f # fs) (parse_fields single (pos + 1) toks)))"

definition extract_sql_dependencies :: "cstring option \<Rightarrow> dependency_list option" where
  "extract_sql_dependencies sql =
     (case sql of
        None \<Rightarrow> None
      | Some text \<Rightarrow>
          (case normalise_sql text NORM_SQL_MAX of
             None \<Rightarrow> None
           | Some norm \<Rightarrow>
               if \<not> cs_prefix ''SELECT '' norm then None
               else
                 (case find_keyword norm ''FROM'' of
                    None \<Rightarrow> None
                  | Some from_ptr \<Rightarrow>
                      if find_keyword norm ''UNION'' \<noteq> None \<or> find_keyword norm ''INTERSECT'' \<noteq> None \<or>
                         find_keyword norm ''EXCEPT'' \<noteq> None then None
                      else
                        let select_clause = strip_right (take (from_ptr - 7) (drop 7 norm));
                            from_clause = from_clause_of (skip_blanks (drop (from_ptr + 4) norm))
                        in
                        if select_clause = [] \<or> from_clause = [] then None
                        else
                          let objs = extract_join_tables from_clause in
                          if objs = [] then None
                          else
                            let single = (if length objs = 1
                                          then Some (if obj_alias (hd objs) \<noteq> [] then obj_alias (hd objs) else obj_name (hd objs))
                                          else None);
                                toks = split_on_comma (c_strncpy NORM_SQL_MAX select_clause) SQL_DEP_MAX_FIELDS
                            in
                            if toks = [] then None
                            else
                              map_option (\<lambda>fs. \<lparr>dep_objects = objs, dep_fields = fs,
                                  dep_needs_expansion = list_ex (\<lambda>f. fr_expansion f \<noteq> SQL_FIELD_NORMAL) fs\<rparr>)
                                (parse_fields single 1 toks))))"

end
