(* ===== verification/Sql_Words.thy ===== *)
theory Sql_Words
  imports Sql_Dependencies
begin

text \<open>
  How keywords are found: \<open>words_of\<close> splits a text into its words, and a text that does not have the first word
  of a keyword among its words is passed over by the search.
\<close>

fun words_from :: "cstring \<Rightarrow> cstring \<Rightarrow> cstring list" where
  "words_from w [] = [w]"
| "words_from w (c # s) = (if is_word c then words_from (w @ [c]) s else w # words_from [] s)"

definition words_of :: "cstring \<Rightarrow> cstring list" where
  "words_of s = words_from [] s"

definition head_word :: "cstring \<Rightarrow> cstring" where
  "head_word kw = takeWhile is_word kw"

definition lacks :: "cstring \<Rightarrow> cstring \<Rightarrow> bool" where
  "lacks k s \<longleftrightarrow> k \<notin> set (words_of s)"

lemma words_from_sep: "\<not> is_word c \<Longrightarrow> words_from w (a @ c # b) = words_from w a @ words_of b"
  by (induction a arbitrary: w) (simp_all add: words_of_def)

lemma lacks_sep [simp]: "\<not> is_word c \<Longrightarrow> lacks k (a @ c # b) \<longleftrightarrow> lacks k a \<and> lacks k b"
  by (simp add: lacks_def words_from_sep words_of_def)

lemma lacks_sep_first [simp]: "\<not> is_word c \<Longrightarrow> lacks k (c # b) \<longleftrightarrow> k \<noteq> [] \<and> lacks k b"
  using lacks_sep [of c k "[]" b] by (auto simp: lacks_def words_of_def)

lemma hd_words: "hd (words_from w s) = w @ takeWhile is_word s"
  by (induction s arbitrary: w) simp_all

lemma words_from_ne: "words_from w s \<noteq> []"
  by (induction s arbitrary: w) simp_all

lemma first_word_in: "takeWhile is_word s \<in> set (words_from [] s)"
  using hd_in_set [OF words_from_ne [of "[]" s]] hd_words [of "[]" s] by simp

text \<open>A keyword found at the start of a text is the text's first word, as far as its own first word goes.\<close>

lemma match_first_word:
  assumes "cs_prefix kw s" "\<not> starts_word (drop (length kw) s)"
  shows "takeWhile is_word s = head_word kw"
proof -
  have s: "s = kw @ drop (length kw) s" using assms(1) by (metis append_take_drop_id cs_prefix_def)
  show ?thesis
  proof (cases "\<forall>c \<in> set kw. is_word c")
    case True
    then have "takeWhile is_word (kw @ drop (length kw) s) = kw @ takeWhile is_word (drop (length kw) s)"
      by (simp add: takeWhile_append)
    moreover have "takeWhile is_word (drop (length kw) s) = []"
      using assms(2) by (auto simp: starts_word_def takeWhile_eq_Nil_iff split: list.splits)
    moreover have "head_word kw = kw" unfolding head_word_def using True takeWhile_eq_all_conv [of is_word kw] by blast
    ultimately show ?thesis using s by simp
  next
    case False
    then have "takeWhile is_word (kw @ drop (length kw) s) = takeWhile is_word kw" by (auto simp: takeWhile_append)
    with s show ?thesis by (simp add: head_word_def)
  qed
qed

lemma no_match_nonword: "head_word kw \<noteq> [] \<Longrightarrow> \<not> is_word c \<Longrightarrow> \<not> cs_prefix kw (c # s)"
  by (cases kw) (auto simp: head_word_def cs_prefix_def split: if_splits)

lemma takeWhile_stop: "\<not> P c \<Longrightarrow> takeWhile P (s @ c # r) = takeWhile P s"
  by (induction s) simp_all

lemma scan_past:
  assumes "head_word kw \<noteq> []" "\<not> is_word c" "head_word kw \<notin> set (words_from w a)"
  shows "find_kw_at (w \<noteq> []) (a @ c # r) kw = map_option (\<lambda>i. i + length a + 1) (find_kw_at False r kw)"
  using assms(3)
proof (induction a arbitrary: w)
  case Nil
  with no_match_nonword [OF assms(1,2)] assms(2) show ?case by simp
next
  case (Cons x a)
  have m: "\<not> (cs_prefix kw ((x # a) @ c # r) \<and> w = [] \<and> \<not> starts_word (drop (length kw) ((x # a) @ c # r)))"
  proof
    assume p: "cs_prefix kw ((x # a) @ c # r) \<and> w = [] \<and> \<not> starts_word (drop (length kw) ((x # a) @ c # r))"
    then have "takeWhile is_word ((x # a) @ c # r) = head_word kw" using match_first_word by blast
    moreover have "takeWhile is_word ((x # a) @ c # r) = takeWhile is_word (x # a)"
      using takeWhile_stop [where P = is_word, OF assms(2), of "x # a"] by simp
    ultimately show False using first_word_in [of "x # a"] Cons.prems p by simp
  qed
  show ?case
  proof (cases "is_word x")
    case True
    with Cons.prems have "head_word kw \<notin> set (words_from (w @ [x]) a)" by simp
    from Cons.IH [OF this] True m show ?thesis by (auto simp: option.map_comp comp_def)
  next
    case False
    with Cons.prems have "head_word kw \<notin> set (words_from [] a)" by simp
    from Cons.IH [OF this] False m show ?thesis by (auto simp: option.map_comp comp_def)
  qed
qed

lemma find_past:
  "head_word kw \<noteq> [] \<Longrightarrow> \<not> is_word c \<Longrightarrow> lacks (head_word kw) a \<Longrightarrow>
     find_keyword (a @ c # r) kw = map_option (\<lambda>i. i + length a + 1) (find_keyword r kw)"
  using scan_past [of kw c "[]" a r] by (simp add: lacks_def words_of_def find_keyword_def)

lemma find_none: 
  assumes "head_word kw \<noteq> []" "lacks (head_word kw) a"
  shows "find_keyword a kw = None"
proof -
  have "find_kw_at (w \<noteq> []) a kw = None" if "head_word kw \<notin> set (words_from w a)" for w
    using that
  proof (induction a arbitrary: w)
    case (Cons x a)
    have m: "\<not> (cs_prefix kw (x # a) \<and> w = [] \<and> \<not> starts_word (drop (length kw) (x # a)))"
      using match_first_word [of kw "x # a"] first_word_in [of "x # a"] Cons.prems by metis
    show ?case
    proof (cases "is_word x")
      case True
      with Cons.prems Cons.IH [of "w @ [x]"] m show ?thesis by auto
    next
      case False
      with Cons.prems Cons.IH [of "[]"] m show ?thesis by auto
    qed
  qed simp
  from this [of "[]"] assms(2) show ?thesis by (simp add: lacks_def words_of_def find_keyword_def)
qed

lemma find_hit: "kw \<noteq> [] \<Longrightarrow> \<not> starts_word r \<Longrightarrow> find_keyword (kw @ r) kw = Some 0"
  by (cases kw) (simp_all add: find_keyword_def cs_prefix_def)

lemma earliest_past:
  "\<forall>k \<in> set ks. head_word k \<noteq> [] \<and> lacks (head_word k) a \<Longrightarrow> \<not> is_word c \<Longrightarrow>
     earliest ks (a @ c # r) = map_option (\<lambda>i. i + length a + 1) (earliest ks r)"
  by (induction ks) (auto simp: find_past split: option.splits)

lemma earliest_none: "\<forall>k \<in> set ks. head_word k \<noteq> [] \<and> lacks (head_word k) a \<Longrightarrow> earliest ks a = None"
  by (induction ks) (auto simp: find_none)

lemma earliest_hit: "k \<in> set ks \<Longrightarrow> k \<noteq> [] \<Longrightarrow> \<not> starts_word r \<Longrightarrow> earliest ks (k @ r) = Some 0"
  by (induction ks) (auto simp: find_hit split: option.splits)

text \<open>Blanks at the ends.\<close>

definition tight :: "cstring \<Rightarrow> bool" where
  "tight s \<longleftrightarrow> s \<noteq> [] \<and> hd s \<noteq> CHR '' '' \<and> last s \<noteq> CHR '' ''"

lemma strip_right_tight: "tight s \<Longrightarrow> strip_right s = s" "tight s \<Longrightarrow> strip_right (s @ '' '') = s"
proof -
  assume "tight s"
  then obtain t c where "s = t @ [c]" "c \<noteq> CHR '' ''" by (cases s rule: rev_cases) (auto simp: tight_def)
  then show "strip_right s = s" "strip_right (s @ '' '') = s" by (simp_all add: strip_right_def)
qed

lemma skip_blanks_tight: "tight s \<Longrightarrow> skip_blanks (s @ r) = s @ r" "tight s \<Longrightarrow> skip_blanks (CHR '' '' # s @ r) = s @ r"
  by (cases s; simp add: tight_def skip_blanks_def)+

lemma trim_token_tight: "tight s \<Longrightarrow> trim_token s = s" "tight s \<Longrightarrow> trim_token (s @ '' '') = s"
  using skip_blanks_tight(1) [of s "[]"] skip_blanks_tight(1) [of s "'' ''"] strip_right_tight [of s] by (simp_all add: trim_token_def)

lemma tight_append: "tight a \<Longrightarrow> tight b \<Longrightarrow> tight (a @ s @ b)"
  by (simp add: tight_def)

lemma tight_ends: "tight a \<Longrightarrow> b \<noteq> [] \<Longrightarrow> last b \<noteq> CHR '' '' \<Longrightarrow> tight (a @ b)"
  by (simp add: tight_def)

subsection \<open>Lists separated by commas\<close>

fun comma_list :: "cstring \<Rightarrow> cstring list \<Rightarrow> cstring" where
  "comma_list cm [] = []"
| "comma_list cm [x] = x"
| "comma_list cm (x # y # r) = x @ cm @ comma_list cm (y # r)"

definition comma_sep :: "cstring \<Rightarrow> bool" where
  "comma_sep cm \<longleftrightarrow> cm = '','' \<or> cm = '', ''"

lemma comma_list_tight:
  "xs \<noteq> [] \<Longrightarrow> \<forall>x \<in> set xs. tight x \<Longrightarrow> tight (comma_list cm xs)"
  by (induction cm xs rule: comma_list.induct) (auto simp: tight_append)

lemma split_comma_list:
  assumes "comma_sep cm" "\<forall>x \<in> set xs. tight x \<and> CHR '','' \<notin> set x" "b = [] \<or> b = '' ''" "length xs \<le> n"
  shows "split_loop n (b @ comma_list cm xs) = xs"
  using assms
proof (induction cm xs arbitrary: b n rule: comma_list.induct)
  case (1 cm)
  then show ?case by (cases n) (auto simp: skip_blanks_def)
next
  case (2 cm x)
  then obtain m where n: "n = Suc m" by (cases n) auto
  have s: "skip_blanks (b @ x) = x" using 2 skip_blanks_tight [of x "[]"] by auto
  have "x \<noteq> []" "c_strchr x (CHR '','') = None" using 2 by (simp_all add: tight_def c_strchr_None)
  with s n show ?case by (simp add: Let_def)
next
  case (3 cm x y r)
  then obtain m where n: "n = Suc m" "length (y # r) \<le> m" by (cases n) auto
  have tx: "tight x" "CHR '','' \<notin> set x" using 3 by simp_all
  obtain d where d: "cm = CHR '','' # d" "d = [] \<or> d = '' ''" using 3 by (auto simp: comma_sep_def)
  have s: "skip_blanks (b @ x @ cm @ comma_list cm (y # r)) = x @ cm @ comma_list cm (y # r)"
    using 3 skip_blanks_tight [OF tx(1)] by auto
  have c: "c_strchr (x @ cm @ comma_list cm (y # r)) (CHR '','') = Some (length x)"
    using c_strchr_append [OF tx(2)] d(1) by simp
  have "split_loop m (d @ comma_list cm (y # r)) = y # r" using 3 n d by (intro "3.IH") auto
  with s c n d(1) show ?case by (simp add: Let_def)
qed

end
