(* ===== verification/Sql_Deps_Exact.thy ===== *)
theory Sql_Deps_Exact
  imports Sql_Words
begin

text \<open>
  What the dependency extractor finds in the queries its header describes: \<open>query\<close> is their abstract syntax,
  \<open>query_text\<close> their text, and the theorem says that the extraction gives back exactly the tables and columns.
\<close>

subsection \<open>Queries\<close>

datatype column_alias = No_Alias | As_Alias cstring | Blank_Alias cstring

datatype query_field = All_Columns | Table_Columns cstring | Column cstring cstring column_alias | Bare_Column cstring column_alias

record query_table =
  qt_owner :: "cstring option"
  qt_name :: cstring
  qt_alias :: column_alias

datatype join_cond = No_Cond | On_Cond cstring | Using_Cond cstring

record query =
  q_comma :: cstring
  q_fields :: "query_field list"
  q_base :: "query_table list"
  q_joins :: "(cstring \<times> query_table \<times> join_cond) list"
  q_tail :: "(cstring \<times> cstring) option"

fun alias_text :: "column_alias \<Rightarrow> cstring" where
  "alias_text No_Alias = []"
| "alias_text (As_Alias a) = '' AS '' @ a"
| "alias_text (Blank_Alias a) = '' '' @ a"

fun alias_name :: "column_alias \<Rightarrow> cstring" where
  "alias_name No_Alias = []"
| "alias_name (As_Alias a) = a"
| "alias_name (Blank_Alias a) = a"

fun sel_text :: "query_field \<Rightarrow> cstring" where
  "sel_text All_Columns = ''*''"
| "sel_text (Table_Columns r) = r @ ''.*''"
| "sel_text (Column r n al) = r @ ''.'' @ n @ alias_text al"
| "sel_text (Bare_Column n al) = n @ alias_text al"

definition tab_text :: "query_table \<Rightarrow> cstring" where
  "tab_text t = (case qt_owner t of None \<Rightarrow> [] | Some ow \<Rightarrow> ow @ ''.'') @ qt_name t @ alias_text (qt_alias t)"

fun cond_text :: "join_cond \<Rightarrow> cstring" where
  "cond_text No_Cond = []"
| "cond_text (On_Cond c) = '' ON '' @ c"
| "cond_text (Using_Cond c) = '' USING '' @ c"

fun joins_text :: "(cstring \<times> query_table \<times> join_cond) list \<Rightarrow> cstring" where
  "joins_text [] = []"
| "joins_text ((k, t, c) # js) = '' '' @ k @ '' '' @ tab_text t @ cond_text c @ joins_text js"

definition from_text :: "query \<Rightarrow> cstring" where
  "from_text q = comma_list (q_comma q) (map tab_text (q_base q)) @ joins_text (q_joins q)"

definition tail_text :: "query \<Rightarrow> cstring" where
  "tail_text q = (case q_tail q of None \<Rightarrow> [] | Some (k, t) \<Rightarrow> '' '' @ k @ '' '' @ t)"

definition query_text :: "query \<Rightarrow> cstring" where
  "query_text q = ''SELECT '' @ comma_list (q_comma q) (map sel_text (q_fields q)) @ '' FROM '' @ from_text q @ tail_text q"

subsection \<open>Well-formed queries\<close>

text \<open>The first words of the keywords the parser looks for; a name or a condition has none of them as a word.\<close>

definition reserved :: "cstring list" where
  "reserved = [''FROM'', ''UNION'', ''INTERSECT'', ''EXCEPT'', ''WHERE'', ''GROUP'', ''ORDER'', ''HAVING'', ''INNER'', ''LEFT'',
     ''RIGHT'', ''FULL'', ''CROSS'', ''JOIN'', ''ON'', ''USING'']"

definition calm :: "cstring \<Rightarrow> bool" where
  "calm s \<longleftrightarrow> list_all (\<lambda>k. lacks k s) reserved"

definition sql_name :: "nat \<Rightarrow> cstring \<Rightarrow> bool" where
  "sql_name n i \<longleftrightarrow> i \<noteq> [] \<and> length i < n \<and> calm i \<and> lacks ''AS'' i \<and> list_all (\<lambda>c. c \<notin> set ''*,.() '') i"

fun alias_ok :: "nat \<Rightarrow> column_alias \<Rightarrow> bool" where
  "alias_ok n No_Alias \<longleftrightarrow> True"
| "alias_ok n (As_Alias a) \<longleftrightarrow> sql_name n a"
| "alias_ok n (Blank_Alias a) \<longleftrightarrow> sql_name n a"

fun field_ok :: "bool \<Rightarrow> query_field \<Rightarrow> bool" where
  "field_ok single All_Columns \<longleftrightarrow> True"
| "field_ok single (Table_Columns r) \<longleftrightarrow> sql_name 64 r"
| "field_ok single (Column r n al) \<longleftrightarrow> sql_name 64 r \<and> sql_name 128 n \<and> alias_ok 128 al"
| "field_ok single (Bare_Column n al) \<longleftrightarrow> single \<and> sql_name 128 n \<and> alias_ok 128 al"

definition table_ok :: "query_table \<Rightarrow> bool" where
  "table_ok t \<longleftrightarrow> (case qt_owner t of None \<Rightarrow> True | Some ow \<Rightarrow> sql_name 64 ow) \<and> sql_name 128 (qt_name t) \<and> alias_ok 64 (qt_alias t)"

fun cond_ok :: "join_cond \<Rightarrow> bool" where
  "cond_ok No_Cond \<longleftrightarrow> True"
| "cond_ok (On_Cond c) \<longleftrightarrow> calm c \<and> c \<noteq> [] \<and> last c \<noteq> CHR '' ''"
| "cond_ok (Using_Cond c) \<longleftrightarrow> calm c \<and> c \<noteq> [] \<and> last c \<noteq> CHR '' ''"

definition query_tables :: "query \<Rightarrow> query_table list" where
  "query_tables q = q_base q @ map (\<lambda>(k, t, c). t) (q_joins q)"

definition query_ok :: "query \<Rightarrow> bool" where
  "query_ok q \<longleftrightarrow>
     (q_comma q = '','' \<or> q_comma q = '', '') \<and> q_fields q \<noteq> [] \<and> length (q_fields q) \<le> SQL_DEP_MAX_FIELDS \<and>
     list_all (field_ok (length (query_tables q) = 1)) (q_fields q) \<and>
     q_base q \<noteq> [] \<and> length (query_tables q) \<le> SQL_DEP_MAX_OBJECTS \<and> list_all table_ok (query_tables q) \<and>
     list_all (\<lambda>(k, t, c). k \<in> set join_kws \<and> cond_ok c) (q_joins q) \<and>
     (case q_tail q of None \<Rightarrow> True
      | Some (k, t) \<Rightarrow> k \<in> set from_stop_kws \<and> lacks ''UNION'' t \<and> lacks ''INTERSECT'' t \<and> lacks ''EXCEPT'' t)"

subsection \<open>What should be found\<close>

definition table_ref :: "query_table \<Rightarrow> object_ref" where
  "table_ref t = \<lparr>obj_owner = (case qt_owner t of None \<Rightarrow> [] | Some ow \<Rightarrow> ow), obj_name = qt_name t,
     obj_alias = alias_name (qt_alias t), obj_type = SQL_OBJ_TYPE_TABLE, obj_field_pos = 0\<rparr>"

definition only_ref :: "query \<Rightarrow> cstring" where
  "only_ref q = (let t = hd (query_tables q) in if qt_alias t = No_Alias then qt_name t else alias_name (qt_alias t))"

fun column_ref :: "cstring \<Rightarrow> nat \<Rightarrow> query_field \<Rightarrow> field_ref" where
  "column_ref only pos All_Columns =
     \<lparr>fr_table_ref = [], fr_name = ''*'', fr_alias = [], fr_pos = pos, fr_expansion = SQL_FIELD_WILDCARD_ALL\<rparr>"
| "column_ref only pos (Table_Columns r) =
     \<lparr>fr_table_ref = r, fr_name = ''*'', fr_alias = [], fr_pos = pos, fr_expansion = SQL_FIELD_WILDCARD_TBL\<rparr>"
| "column_ref only pos (Column r n al) =
     \<lparr>fr_table_ref = r, fr_name = n, fr_alias = alias_name al, fr_pos = pos, fr_expansion = SQL_FIELD_NORMAL\<rparr>"
| "column_ref only pos (Bare_Column n al) =
     \<lparr>fr_table_ref = c_strncpy 64 only, fr_name = n, fr_alias = alias_name al, fr_pos = pos, fr_expansion = SQL_FIELD_UNQUALIFIED\<rparr>"

fun column_refs :: "cstring \<Rightarrow> nat \<Rightarrow> query_field list \<Rightarrow> field_ref list" where
  "column_refs only pos [] = []"
| "column_refs only pos (f # fs) = column_ref only pos f # column_refs only (pos + 1) fs"

definition query_deps :: "query \<Rightarrow> dependency_list" where
  "query_deps q = \<lparr>dep_objects = map table_ref (query_tables q), dep_fields = column_refs (only_ref q) 1 (q_fields q),
     dep_needs_expansion = list_ex (\<lambda>f. case f of Column _ _ _ \<Rightarrow> False | _ \<Rightarrow> True) (q_fields q)\<rparr>"

subsection \<open>Names\<close>

lemma head_words [simp]:
  "head_word ''AS'' = ''AS''" "head_word ''FROM'' = ''FROM''" "head_word ''UNION'' = ''UNION''"
  "head_word ''INTERSECT'' = ''INTERSECT''" "head_word ''EXCEPT'' = ''EXCEPT''"
  by code_simp+

lemma separators [simp]: "\<not> is_word (CHR '' '')" "\<not> is_word (CHR ''.'')" "\<not> is_word (CHR '','')" "\<not> is_word (CHR ''*'')"
  by code_simp+

lemma name_chars:
  assumes "sql_name n i"
  shows "tight i" "CHR '','' \<notin> set i" "CHR ''.'' \<notin> set i" "CHR ''('' \<notin> set i" "CHR '')'' \<notin> set i" "CHR '' '' \<notin> set i"
    "CHR ''*'' \<notin> set i" "i \<noteq> []" "length i < n" "lacks ''AS'' i" "calm i"
proof -
  from assms have i: "i \<noteq> []" "length i < n" "calm i" "lacks ''AS'' i" "\<forall>c \<in> set i. c \<notin> set ''*,.() ''"
    by (simp_all add: sql_name_def list_all_iff)
  then show "CHR '','' \<notin> set i" "CHR ''.'' \<notin> set i" "CHR ''('' \<notin> set i" "CHR '')'' \<notin> set i" "CHR '' '' \<notin> set i"
    "CHR ''*'' \<notin> set i" "i \<noteq> []" "length i < n" "lacks ''AS'' i" "calm i" by auto
  with i(1) hd_in_set [of i] last_in_set [of i] show "tight i" by (metis tight_def)
qed

lemma lacks_AS: "lacks ''AS'' s \<longleftrightarrow> lacks (head_word ''AS'') s" by simp

lemma name_and_alias_text:
  assumes "sql_name 128 n" "alias_ok 128 al"
  shows "name_and_alias (n @ alias_text al) = Some (n, alias_name al)"
proof (cases al)
  case No_Alias
  note n = name_chars [OF assms(1)]
  have "find_keyword n ''AS'' = None" using n(10) by (intro find_none) simp_all
  moreover have "c_strchr n (CHR '' '') = None" using n(6) by (simp add: c_strchr_None)
  ultimately show ?thesis using n(9) trim_token_tight(1) [OF n(1)] n(8) No_Alias by (simp add: name_and_alias_def)
next
  case (As_Alias a)
  note n = name_chars [OF assms(1)]
  have a: "sql_name 128 a" using assms(2) As_Alias by simp
  note an = name_chars [OF a]
  have t: "n @ alias_text al = n @ CHR '' '' # ''AS'' @ CHR '' '' # a" using As_Alias by simp
  have "find_keyword (''AS'' @ CHR '' '' # a) ''AS'' = Some 0" by (rule find_hit) (simp_all add: starts_word_def)
  then have f: "find_keyword (n @ CHR '' '' # ''AS'' @ CHR '' '' # a) ''AS'' = Some (length n + 1)"
    using n(10) by (subst find_past) simp_all
  have "strip_right (n @ '' '') = n" "skip_blanks ('' '' @ a) = a"
    using strip_right_tight(2) [OF n(1)] skip_blanks_tight(2) [OF an(1), of "[]"] by simp_all
  with f n(8,9) an(9) trim_token_tight(1) [OF n(1)] As_Alias show ?thesis
    unfolding t by (simp add: name_and_alias_def Let_def)
next
  case (Blank_Alias a)
  note n = name_chars [OF assms(1)]
  have a: "sql_name 128 a" using assms(2) Blank_Alias by simp
  note an = name_chars [OF a]
  have t: "n @ alias_text al = n @ CHR '' '' # a" using Blank_Alias by simp
  have f: "find_keyword (n @ CHR '' '' # a) ''AS'' = None" using n(10) an(10) by (intro find_none) simp_all
  have "skip_blanks a = a" using skip_blanks_tight(1) [OF an(1), of "[]"] by simp
  with f n(8,9) an(9) c_strchr_append [OF n(6)] trim_token_tight(1) [OF n(1)] Blank_Alias show ?thesis
    unfolding t by (simp add: name_and_alias_def Let_def)
qed

lemma alias_chars:
  assumes "alias_ok n al" "c \<in> {CHR '','', CHR ''.'', CHR ''('', CHR '')''}"
  shows "c \<notin> set (alias_text al)"
  using assms by (cases al) (auto dest: name_chars)

lemma alias_tight: "sql_name m i \<Longrightarrow> alias_ok n al \<Longrightarrow> tight (i @ alias_text al)"
  using name_chars(1) [of m i] by (cases al) (auto dest!: name_chars(1) simp: tight_def)

subsection \<open>Fields\<close>

lemma parse_field_exact:
  assumes "field_ok single f"
  shows "parse_field_token (sel_text f) pos (if single then Some only else None) = Some (column_ref only pos f)"
proof (cases f)
  case All_Columns
  then show ?thesis by (simp add: parse_field_token_def)
next
  case (Table_Columns r)
  note r = name_chars [of 64 r]
  from Table_Columns assms have "sql_name 64 r" by simp
  note r = name_chars [OF this]
  have "c_strchr (r @ CHR ''.'' # ''*'') (CHR ''.'') = Some (length r)" by (rule c_strchr_append [OF r(3)])
  with r Table_Columns show ?thesis by (simp add: parse_field_token_def)
next
  case (Column r n al)
  with assms have ok: "sql_name 64 r" "sql_name 128 n" "alias_ok 128 al" by simp_all
  note r = name_chars [OF ok(1)] and n = name_chars [OF ok(2)]
  have s: "c_strchr (r @ CHR ''.'' # n @ alias_text al) (CHR ''.'') = Some (length r)" by (rule c_strchr_append [OF r(3)])
  have h: "n @ alias_text al \<noteq> ''*''" "\<not> cs_prefix ''* '' (n @ alias_text al)" "n @ alias_text al \<noteq> []"
    using n(7,8) by (cases n; auto simp: cs_prefix_def)+
  have "CHR ''('' \<notin> set (r @ ''.'' @ n @ alias_text al)" "CHR '')'' \<notin> set (r @ ''.'' @ n @ alias_text al)"
    using r(4,5) n(4,5) alias_chars [OF ok(3)] by auto
  moreover have "r @ ''.'' @ n @ alias_text al \<noteq> ''*''" using n(8) by (cases r) auto
  ultimately show ?thesis
    using s h r(8,9) name_and_alias_text [OF ok(2,3)] Column by (simp add: parse_field_token_def)
next
  case (Bare_Column n al)
  with assms have ok: "single" "sql_name 128 n" "alias_ok 128 al" by simp_all
  note n = name_chars [OF ok(2)]
  have "CHR ''('' \<notin> set (n @ alias_text al)" "CHR '')'' \<notin> set (n @ alias_text al)" "CHR ''.'' \<notin> set (n @ alias_text al)"
    using n(3-5) alias_chars [OF ok(3)] by auto
  moreover have "n @ alias_text al \<noteq> ''*''" using n(7,8) by (cases n) auto
  ultimately show ?thesis
    using ok(1) name_and_alias_text [OF ok(2,3)] Bare_Column c_strchr_None [of "n @ alias_text al" "CHR ''.''"]
    by (simp add: parse_field_token_def)
qed

lemma sel_text_ok: "field_ok single f \<Longrightarrow> tight (sel_text f) \<and> CHR '','' \<notin> set (sel_text f)"
proof (cases f)
  case (Column r n al)
  assume "field_ok single f"
  with Column have ok: "sql_name 64 r" "sql_name 128 n" "alias_ok 128 al" by simp_all
  show ?thesis using Column tight_append [OF name_chars(1) [OF ok(1)] alias_tight [OF ok(2,3)], of "''.''"]
      name_chars(2) [OF ok(1)] name_chars(2) [OF ok(2)] alias_chars [OF ok(3)] by simp
next
  case (Table_Columns r)
  assume "field_ok single f"
  with Table_Columns have ok: "sql_name 64 r" by simp
  show ?thesis using Table_Columns name_chars [OF ok] by (simp add: tight_ends)
next
  case (Bare_Column n al)
  assume "field_ok single f"
  with Bare_Column have ok: "sql_name 128 n" "alias_ok 128 al" by simp_all
  show ?thesis using Bare_Column alias_tight [OF ok] name_chars(2) [OF ok(1)] alias_chars [OF ok(2)] by simp
qed (simp add: tight_def)

lemma parse_fields_exact:
  "\<forall>f \<in> set fs. field_ok single f \<Longrightarrow>
     parse_fields (if single then Some only else None) pos (map sel_text fs) = Some (column_refs only pos fs)"
proof (induction fs arbitrary: pos)
  case (Cons f fs)
  have "sel_text f \<noteq> []" using sel_text_ok [of single f] Cons.prems by (auto simp: tight_def)
  with Cons parse_field_exact [of single f pos only] show ?case by simp
qed simp

subsection \<open>Tables\<close>

lemma table_chars:
  assumes "table_ok t"
  shows "tight (tab_text t)" "CHR '','' \<notin> set (tab_text t)" "CHR ''('' \<notin> set (tab_text t)" "CHR '')'' \<notin> set (tab_text t)"
    "length (tab_text t) < 300"
proof -
  from assms have n: "sql_name 128 (qt_name t)" "alias_ok 64 (qt_alias t)" by (simp_all add: table_ok_def)
  have o: "sql_name 64 ow" if "qt_owner t = Some ow" for ow using assms that by (simp add: table_ok_def)
  have a: "length (alias_text (qt_alias t)) < 70" using n(2) by (cases "qt_alias t") (auto dest: name_chars(9))
  have tn: "tight (qt_name t @ alias_text (qt_alias t))" by (rule alias_tight [OF n])
  show "tight (tab_text t)"
  proof (cases "qt_owner t")
    case (Some ow)
    then show ?thesis using tight_append [OF name_chars(1) [OF o [OF Some]] tn, of "''.''"] by (simp add: tab_text_def)
  qed (simp add: tab_text_def tn)
  have free: "c \<notin> set (tab_text t)" if c: "c \<in> {CHR '','', CHR ''('', CHR '')''}" for c
  proof -
    have nm: "c \<notin> set i" if "sql_name m i" for m i using name_chars(2,4,5) [OF that] c by blast
    have al: "c \<notin> set (alias_text (qt_alias t))" using alias_chars [OF n(2)] c by blast
    have "c \<noteq> CHR ''.''" using c by auto
    with nm [OF n(1)] al show ?thesis
      by (cases "qt_owner t") (use nm [OF o] in \<open>simp_all add: tab_text_def\<close>)
  qed
  show "CHR '','' \<notin> set (tab_text t)" "CHR ''('' \<notin> set (tab_text t)" "CHR '')'' \<notin> set (tab_text t)"
    by (rule free; simp)+
  show "length (tab_text t) < 300"
  proof (cases "qt_owner t")
    case None
    then show ?thesis using name_chars(9) [OF n(1)] a by (simp add: tab_text_def)
  next
    case (Some ow)
    then show ?thesis using name_chars(9) [OF n(1)] name_chars(9) [OF o [OF Some]] a by (simp add: tab_text_def)
  qed
qed

lemma named_exact:
  assumes "sql_name 128 n" "case ow of None \<Rightarrow> True | Some w \<Rightarrow> sql_name 64 w"
  shows "(case c_strchr ((case ow of None \<Rightarrow> [] | Some w \<Rightarrow> w @ ''.'') @ n) (CHR ''.'') of
      Some owner_len \<Rightarrow> if owner_len = 0 \<or> owner_len \<ge> 64 then None
        else Some (take owner_len ((case ow of None \<Rightarrow> [] | Some w \<Rightarrow> w @ ''.'') @ n),
                   c_strncpy 128 (drop (owner_len + 1) ((case ow of None \<Rightarrow> [] | Some w \<Rightarrow> w @ ''.'') @ n)))
    | None \<Rightarrow> Some ([], c_strncpy 128 ((case ow of None \<Rightarrow> [] | Some w \<Rightarrow> w @ ''.'') @ n))) =
    Some (case ow of None \<Rightarrow> [] | Some w \<Rightarrow> w, n)"
proof (cases ow)
  case None
  with name_chars(3,9) [OF assms(1)] show ?thesis by (simp add: c_strchr_None [THEN iffD2])
next
  case (Some w)
  with assms(2) have "sql_name 64 w" by simp
  note w = name_chars [OF this]
  show ?thesis using Some c_strchr_append [OF w(3), of n] w(8,9) name_chars(9) [OF assms(1)] by simp
qed

lemma parse_table_exact:
  assumes "table_ok t"
  shows "parse_table_token (tab_text t) = Some (table_ref t)"
proof -
  define w where "w = (case qt_owner t of None \<Rightarrow> [] | Some ow \<Rightarrow> ow @ ''.'') @ qt_name t"
  from assms have n: "sql_name 128 (qt_name t)" "alias_ok 64 (qt_alias t)" "case qt_owner t of None \<Rightarrow> True | Some w \<Rightarrow> sql_name 64 w"
    by (simp_all add: table_ok_def)
  note tc = table_chars [OF assms]
  have w0: "c_strncpy 512 (tab_text t) = tab_text t" using tc(5) by simp
  have tt: "tab_text t = w @ alias_text (qt_alias t)" by (simp add: w_def tab_text_def)
  have w: "tight w" "lacks ''AS'' w" "CHR '' '' \<notin> set w"
    using n(3) name_chars(1,6,10) [OF n(1)] tight_append [OF name_chars(1) name_chars(1) [OF n(1)], of 64 _ "''.''"]
    by (auto simp: w_def split: option.splits dest: name_chars)
  have cut: "(case find_keyword (tab_text t) ''AS'' of
      Some i \<Rightarrow> (trim_token (take i (tab_text t)), skip_blanks (drop (i + 2) (tab_text t)))
    | None \<Rightarrow> (case c_strchr (tab_text t) (CHR '' '') of
        Some i \<Rightarrow> (trim_token (take i (tab_text t)), skip_blanks (drop (i + 1) (tab_text t)))
      | None \<Rightarrow> (tab_text t, []))) = (w, alias_name (qt_alias t))"
  proof (cases "qt_alias t")
    case No_Alias
    then have x: "tab_text t = w" using tt by simp
    have "find_keyword w ''AS'' = None" using w(2) by (intro find_none) simp_all
    with w(3) No_Alias show ?thesis unfolding x by (simp add: c_strchr_None [THEN iffD2])
  next
    case (As_Alias a)
    with n(2) have a: "sql_name 64 a" by simp
    have x: "tab_text t = w @ CHR '' '' # ''AS'' @ CHR '' '' # a" using As_Alias tt by simp
    have "find_keyword (''AS'' @ CHR '' '' # a) ''AS'' = Some 0" by (rule find_hit) (simp_all add: starts_word_def)
    then have f: "find_keyword (w @ CHR '' '' # ''AS'' @ CHR '' '' # a) ''AS'' = Some (length w + 1)"
      using w(2) by (subst find_past) simp_all
    have "trim_token (w @ '' '') = w" "skip_blanks ('' '' @ a) = a"
      using trim_token_tight(2) [OF w(1)] skip_blanks_tight(2) [OF name_chars(1) [OF a], of "[]"] by simp_all
    with f As_Alias show ?thesis unfolding x by simp
  next
    case (Blank_Alias a)
    with n(2) have a: "sql_name 64 a" by simp
    have x: "tab_text t = w @ CHR '' '' # a" using Blank_Alias tt by simp
    have f: "find_keyword (w @ CHR '' '' # a) ''AS'' = None" using w(2) name_chars(10) [OF a] by (intro find_none) simp_all
    have "skip_blanks a = a" using skip_blanks_tight(1) [OF name_chars(1) [OF a], of "[]"] by simp
    with f c_strchr_append [OF w(3)] trim_token_tight(1) [OF w(1)] Blank_Alias show ?thesis unfolding x by simp
  qed
  have al: "c_strncpy 64 (alias_name (qt_alias t)) = alias_name (qt_alias t)"
    using n(2) by (cases "qt_alias t") (auto dest: name_chars(9))
  have ne: "tab_text t \<noteq> []" using tc(1) by (simp add: tight_def)
  show ?thesis unfolding parse_table_token_def Let_def w0 cut
    using ne tc(3,4) named_exact [OF n(1,3), folded w_def] trim_token_tight(1) [OF name_chars(1) [OF n(1)]] name_chars(8) [OF n(1)] al
    by (simp add: table_ref_def)
qed

lemma add_table_exact:
  "table_ok t \<Longrightarrow> length objs < SQL_DEP_MAX_OBJECTS \<Longrightarrow> add_table objs (tab_text t) = objs @ [table_ref t]"
  using parse_table_exact [of t] table_chars(1) [of t] by (simp add: add_table_def tight_def)

lemma fold_tables_exact:
  "\<forall>t \<in> set ts. table_ok t \<Longrightarrow> length objs + length ts \<le> SQL_DEP_MAX_OBJECTS \<Longrightarrow>
     foldl add_table objs (map tab_text ts) = objs @ map table_ref ts"
proof (induction ts arbitrary: objs)
  case (Cons t ts)
  then have "add_table objs (tab_text t) = objs @ [table_ref t]" by (intro add_table_exact) simp_all
  with Cons show ?case by simp
qed simp

lemma add_tables_exact:
  assumes "comma_sep cm" "\<forall>t \<in> set ts. table_ok t" "length ts \<le> SQL_DEP_MAX_OBJECTS"
  shows "add_tables (comma_list cm (map tab_text ts)) [] = map table_ref ts"
proof -
  have "split_on_comma (comma_list cm (map tab_text ts)) SQL_DEP_MAX_OBJECTS = map tab_text ts"
    unfolding split_on_comma_def using split_comma_list [of cm "map tab_text ts" "[]"] assms table_chars(1,2)
    by (simp add: trim_token_tight(1))
  with fold_tables_exact [of ts "[]"] assms show ?thesis by (simp add: add_tables_def)
qed

subsection \<open>Words of the clauses\<close>

lemma calm_lacks: "calm s \<Longrightarrow> k \<in> set reserved \<Longrightarrow> lacks k s"
  by (simp add: calm_def list_all_iff)

lemma lacks_first_word: "\<forall>c \<in> set w. is_word c \<Longrightarrow> lacks k w \<longleftrightarrow> k \<noteq> w"
proof -
  have "words_from v w = [v @ w]" if "\<forall>c \<in> set w. is_word c" for v using that by (induction w arbitrary: v) simp_all
  then show "\<forall>c \<in> set w. is_word c \<Longrightarrow> ?thesis" by (simp add: lacks_def words_of_def)
qed

lemma lacks_AS_word: "lacks k ''AS'' \<longleftrightarrow> k \<noteq> ''AS''"
  by (rule lacks_first_word) code_simp

lemma alias_lacks: "alias_ok n al \<Longrightarrow> k \<in> set reserved \<Longrightarrow> lacks k i \<Longrightarrow> lacks k (i @ alias_text al)"
proof (cases al)
  case (As_Alias a)
  assume a: "alias_ok n al" "k \<in> set reserved" "lacks k i"
  have "k \<noteq> ''AS''" using a(2) by (auto simp: reserved_def)
  moreover have "lacks k a" using a As_Alias by (auto dest!: name_chars(11) calm_lacks)
  ultimately have "lacks k (i @ CHR '' '' # (''AS'' @ CHR '' '' # a))"
    using a(3) by (simp only: lacks_sep [OF separators(1)] lacks_AS_word) simp
  with As_Alias show ?thesis by simp
next
  case (Blank_Alias a)
  assume "alias_ok n al" "k \<in> set reserved" "lacks k i"
  with Blank_Alias show ?thesis by (auto dest!: name_chars(11) calm_lacks)
qed simp

lemma sel_lacks: "field_ok single f \<Longrightarrow> k \<in> set reserved \<Longrightarrow> lacks k (sel_text f)"
proof -
  assume a: "field_ok single f" "k \<in> set reserved"
  then have k: "k \<noteq> []" by (auto simp: reserved_def)
  have nil: "lacks k []" using k by (simp add: lacks_def words_of_def)
  have n: "lacks k i" if "sql_name m i" for m i using calm_lacks [OF name_chars(11) [OF that] a(2)] .
  show ?thesis
  proof (cases f)
    case All_Columns
    with k nil show ?thesis by simp
  next
    case (Table_Columns r)
    with a(1) k nil n [of 64 r] show ?thesis by simp
  next
    case (Column r m al)
    with a n [of 64 r] alias_lacks [of 128 al k m] n [of 128 m] show ?thesis by simp
  next
    case (Bare_Column m al)
    with a alias_lacks [of 128 al k m] n [of 128 m] show ?thesis by simp
  qed
qed

lemma tab_lacks: "table_ok t \<Longrightarrow> k \<in> set reserved \<Longrightarrow> lacks k (tab_text t)"
proof -
  assume a: "table_ok t" "k \<in> set reserved"
  have n: "lacks k i" if "sql_name m i" for m i using calm_lacks [OF name_chars(11) [OF that] a(2)] .
  have "lacks k (qt_name t @ alias_text (qt_alias t))"
    using a n by (intro alias_lacks [of 64]) (auto simp: table_ok_def)
  then show ?thesis using a n by (auto simp: table_ok_def tab_text_def split: option.splits)
qed

lemma comma_list_lacks:
  assumes "comma_sep cm" "k \<noteq> []" "\<forall>x \<in> set xs. lacks k x"
  shows "lacks k (comma_list cm xs)"
  using assms
proof (induction cm xs rule: comma_list.induct)
  case (3 cm x y r)
  then have "lacks k (comma_list cm (y # r))" "lacks k x" by simp_all
  with 3 show ?case by (auto simp: comma_sep_def lacks_sep_first)
qed (auto simp: lacks_def words_of_def)

subsection \<open>Joins\<close>

text \<open>No keyword begins another one.\<close>

definition apart :: "cstring list \<Rightarrow> cstring \<Rightarrow> bool" where
  "apart ks k \<longleftrightarrow> list_all (\<lambda>k'. k' = k \<or> take (min (length k) (length k')) k' \<noteq> take (min (length k) (length k')) k) ks"

lemma apart_prefix: "cs_prefix k' (k @ s) \<Longrightarrow> take (min (length k) (length k')) k' = take (min (length k) (length k')) k"
  unfolding cs_prefix_def by (metis append_take_drop_id length_append min.commute take_all_iff take_append take_take
      append_eq_append_conv_if min_def nat_le_linear)

lemma match_join_apart: "k \<in> set ks \<Longrightarrow> apart ks k \<Longrightarrow> match_join ks (k @ CHR '' '' # s) = Some (length k)"
  by (induction ks) (auto simp: apart_def dest: apart_prefix)

lemma match_join_exact: "k \<in> set join_kws \<Longrightarrow> match_join join_kws (k @ CHR '' '' # s) = Some (length k)"
proof -
  have "list_all (apart join_kws) join_kws" by code_simp
  then show "k \<in> set join_kws \<Longrightarrow> ?thesis" by (simp add: list_all_iff match_join_apart)
qed

lemma join_heads: "k \<in> set join_kws \<Longrightarrow> k \<noteq> [] \<and> head_word k \<noteq> [] \<and> head_word k \<in> set reserved"
proof -
  have "list_all (\<lambda>k. k \<noteq> [] \<and> head_word k \<noteq> [] \<and> head_word k \<in> set reserved) join_kws" by code_simp
  then show "k \<in> set join_kws \<Longrightarrow> ?thesis" by (simp add: list_all_iff)
qed

lemma stop_heads: "k \<in> set join_stop_kws \<Longrightarrow> k \<noteq> [] \<and> head_word k \<noteq> [] \<and> head_word k \<in> set reserved"
proof -
  have "list_all (\<lambda>k. k \<noteq> [] \<and> head_word k \<noteq> [] \<and> head_word k \<in> set reserved) join_stop_kws" by code_simp
  then show "k \<in> set join_stop_kws \<Longrightarrow> ?thesis" by (simp add: list_all_iff)
qed

lemma from_heads: "k \<in> set from_stop_kws \<Longrightarrow> k \<noteq> [] \<and> head_word k \<noteq> [] \<and> head_word k \<in> set reserved"
proof -
  have "list_all (\<lambda>k. k \<noteq> [] \<and> head_word k \<noteq> [] \<and> head_word k \<in> set reserved) from_stop_kws" by code_simp
  then show "k \<in> set from_stop_kws \<Longrightarrow> ?thesis" by (simp add: list_all_iff)
qed

lemma join_is_stop: "k \<in> set join_kws \<Longrightarrow> k \<in> set join_stop_kws"
proof -
  have "list_all (\<lambda>k. k \<in> set join_stop_kws) join_kws" by code_simp
  then show "k \<in> set join_kws \<Longrightarrow> ?thesis" by (simp add: list_all_iff)
qed

lemma join_not_on: "k \<in> set join_kws \<Longrightarrow> \<not> cs_prefix ''ON'' (k @ s) \<and> \<not> cs_prefix ''USING'' (k @ s)"
proof -
  have a: "list_all (\<lambda>k. k \<noteq> w \<and> apart [w] k) join_kws" if "w = ''ON'' \<or> w = ''USING''" for w
  proof -
    have "list_all (\<lambda>k. k \<noteq> ''ON'' \<and> apart [''ON''] k) join_kws" "list_all (\<lambda>k. k \<noteq> ''USING'' \<and> apart [''USING''] k) join_kws"
      by code_simp+
    with that show ?thesis by blast
  qed
  have n: "\<not> cs_prefix w (k @ s)" if k: "k \<in> set join_kws" and w: "w = ''ON'' \<or> w = ''USING''" for w
    using a [OF w] k apart_prefix [of w k s] unfolding list_all_iff apart_def by auto
  show "k \<in> set join_kws \<Longrightarrow> ?thesis" using n by blast
qed

lemma blank_start: "\<not> starts_word (CHR '' '' # s)"
  by (simp add: starts_word_def)

text \<open>Texts that lack every keyword are passed over up to the next blank.\<close>

lemma join_past:
  assumes "\<forall>k \<in> set reserved. lacks k a" "k \<in> set join_kws"
  shows "earliest join_kws (a @ CHR '' '' # k @ CHR '' '' # s) = Some (length a + 1)"
proof -
  have "earliest join_kws (a @ CHR '' '' # k @ CHR '' '' # s) =
      map_option (\<lambda>i. i + length a + 1) (earliest join_kws (k @ CHR '' '' # s))"
    using assms join_heads by (intro earliest_past) auto
  with earliest_hit [OF assms(2) _ blank_start] join_heads [OF assms(2)] show ?thesis by simp
qed

lemma stop_past:
  assumes "\<forall>k \<in> set reserved. lacks k a" "k \<in> set join_stop_kws"
  shows "earliest join_stop_kws (a @ CHR '' '' # k @ CHR '' '' # s) = Some (length a + 1)"
proof -
  have "earliest join_stop_kws (a @ CHR '' '' # k @ CHR '' '' # s) =
      map_option (\<lambda>i. i + length a + 1) (earliest join_stop_kws (k @ CHR '' '' # s))"
    using assms stop_heads by (intro earliest_past) auto
  with earliest_hit [OF assms(2) _ blank_start] stop_heads [OF assms(2)] show ?thesis by simp
qed

definition joins_ok :: "(cstring \<times> query_table \<times> join_cond) list \<Rightarrow> bool" where
  "joins_ok js \<longleftrightarrow> list_all (\<lambda>(k, t, c). k \<in> set join_kws \<and> table_ok t \<and> cond_ok c) js"

lemma joins_text_shape:
  assumes "joins_ok js"
  obtains "js = []" "joins_text js = []"
    | k s where "k \<in> set join_kws" "joins_text js = CHR '' '' # k @ CHR '' '' # s"
  using assms that by (cases js) (auto simp: joins_ok_def)

text \<open>The condition of a join is skipped, up to the next join.\<close>

lemma cond_step:
  assumes w: "w = ''ON'' \<or> w = ''USING''" and c: "calm c" and t: "table_ok t" and js: "joins_ok js"
  shows "join_step (tab_text t @ CHR '' '' # w @ CHR '' '' # c @ joins_text js) = (tab_text t, drop 1 (joins_text js))"
proof -
  note tc = table_chars [OF t]
  have ws: "w \<in> set join_stop_kws" using w by (auto simp: join_stop_kws_def)
  have e: "earliest join_stop_kws (tab_text t @ CHR '' '' # w @ CHR '' '' # c @ joins_text js) = Some (length (tab_text t) + 1)"
    by (rule stop_past [OF _ ws]) (simp add: tab_lacks [OF t])
  have p: "cs_prefix ''ON'' (w @ CHR '' '' # c @ joins_text js) \<or> cs_prefix ''USING'' (w @ CHR '' '' # c @ joins_text js)"
    using w by (auto simp: cs_prefix_def)
  have ww: "\<forall>x \<in> set w. is_word x"
  proof -
    have "list_all is_word ''ON''" "list_all is_word ''USING''" by code_simp+
    with w show ?thesis by (auto simp: list_all_iff)
  qed
  have kw: "k \<noteq> w" if k: "k \<in> set join_kws" for k
    using join_not_on [OF k, of "[]"] w by (auto simp: cs_prefix_def)
  have hw: "head_word k \<noteq> w" if k: "k \<in> set join_kws" for k
  proof -
    have "list_all (\<lambda>k. head_word k \<noteq> ''ON'' \<and> head_word k \<noteq> ''USING'') join_kws" by code_simp
    with k w show ?thesis by (auto simp: list_all_iff)
  qed
  define a where "a = w @ CHR '' '' # c"
  have la: "head_word k \<noteq> [] \<and> lacks (head_word k) a" if k: "k \<in> set join_kws" for k
    using join_heads [OF k] hw [OF k] calm_lacks [OF c] lacks_first_word [OF ww, of "head_word k"]
    by (simp add: a_def lacks_sep [OF separators(1)])
  have r: "(case earliest join_kws (w @ CHR '' '' # c @ joins_text js) of None \<Rightarrow> [] | Some j \<Rightarrow> drop j (w @ CHR '' '' # c @ joins_text js)) =
      drop 1 (joins_text js)"
    using js
  proof (cases rule: joins_text_shape)
    case 1
    have "earliest join_kws a = None" using la by (intro earliest_none) blast
    with 1 show ?thesis by (simp add: a_def)
  next
    case (2 k s)
    have "earliest join_kws (a @ CHR '' '' # k @ CHR '' '' # s) =
        map_option (\<lambda>i. i + length a + 1) (earliest join_kws (k @ CHR '' '' # s))"
      using la by (intro earliest_past) auto
    then have "earliest join_kws (a @ CHR '' '' # k @ CHR '' '' # s) = Some (length a + 1)"
      using earliest_hit [OF 2(1) _ blank_start] join_heads [OF 2(1)] by simp
    moreover have "w @ CHR '' '' # c @ joins_text js = a @ CHR '' '' # k @ CHR '' '' # s" using 2(2) by (simp add: a_def)
    ultimately have "earliest join_kws (w @ CHR '' '' # c @ joins_text js) = Some (length a + 1)" by (simp only:)
    moreover have "drop (length a + 1) (w @ CHR '' '' # c @ joins_text js) = drop 1 (joins_text js)" by (simp add: a_def 2(2))
    ultimately show ?thesis by (simp only: option.case)
  qed
  have tr: "trim_token (tab_text t @ '' '') = tab_text t" by (rule trim_token_tight(2) [OF tc(1)])
  show ?thesis unfolding join_step_def e using p r tr tc(5) by (simp add: Let_def)
qed

lemma join_step_exact:
  assumes "table_ok t" "cond_ok c" "joins_ok js"
  shows "join_step (tab_text t @ cond_text c @ joins_text js) = (tab_text t, drop 1 (joins_text js))"
proof (cases c)
  case No_Cond
  note tc = table_chars [OF assms(1)]
  show ?thesis using assms(3)
  proof (cases rule: joins_text_shape)
    case 1
    have "earliest join_stop_kws (tab_text t) = None"
      using stop_heads tab_lacks [OF assms(1)] by (intro earliest_none) blast
    with 1 No_Cond trim_token_tight(1) [OF tc(1)] tc(5) show ?thesis by (simp add: join_step_def)
  next
    case (2 k s)
    have e: "earliest join_stop_kws (tab_text t @ CHR '' '' # k @ CHR '' '' # s) = Some (length (tab_text t) + 1)"
      by (rule stop_past [OF _ join_is_stop [OF 2(1)]]) (simp add: tab_lacks [OF assms(1)])
    have x: "tab_text t @ cond_text c @ joins_text js = tab_text t @ CHR '' '' # k @ CHR '' '' # s" using 2(2) No_Cond by simp
    have tr: "trim_token (tab_text t @ '' '') = tab_text t" by (rule trim_token_tight(2) [OF tc(1)])
    show ?thesis unfolding x join_step_def e using join_not_on [OF 2(1)] 2(2) tr tc(5) by (simp add: Let_def)
  qed
next
  case (On_Cond s)
  with assms cond_step [of "''ON''" s t js] show ?thesis by simp
next
  case (Using_Cond s)
  with assms cond_step [of "''USING''" s t js] show ?thesis by simp
qed

lemma join_loop_exact:
  "joins_ok js \<Longrightarrow> length objs + length js \<le> SQL_DEP_MAX_OBJECTS \<Longrightarrow>
     join_loop (drop 1 (joins_text js)) objs = objs @ map (\<lambda>(k, t, c). table_ref t) js"
proof (induction js arbitrary: objs)
  case Nil
  then show ?case by (simp add: join_loop.simps)
next
  case (Cons j js)
  obtain k t c where j: "j = (k, t, c)" by (cases j)
  with Cons.prems have ok: "k \<in> set join_kws" "table_ok t" "cond_ok c" "joins_ok js" by (simp_all add: joins_ok_def)
  define r where "r = tab_text t @ cond_text c @ joins_text js"
  have cur: "drop 1 (joins_text (j # js)) = k @ CHR '' '' # r" by (simp add: j r_def)
  have sb: "skip_blanks (CHR '' '' # r) = r" unfolding r_def by (rule skip_blanks_tight(2) [OF table_chars(1) [OF ok(2)]])
  have st: "join_step r = (tab_text t, drop 1 (joins_text js))" unfolding r_def by (rule join_step_exact [OF ok(2-4)])
  have ne: "k @ CHR '' '' # r \<noteq> []" by simp
  have ad: "add_table objs (tab_text t) = objs @ [table_ref t]" using Cons.prems ok(2) by (intro add_table_exact) simp_all
  have "join_loop (k @ CHR '' '' # r) objs = join_loop (drop 1 (joins_text js)) (add_table objs (tab_text t))"
    by (subst join_loop.simps) (simp add: match_join_exact [OF ok(1)] sb st)
  with Cons.IH [OF ok(4), of "objs @ [table_ref t]"] Cons.prems show ?case unfolding cur by (simp add: ad j)
qed

end
