(* ===== verification/Sql_Deps_Query.thy ===== *)
theory Sql_Deps_Query
  imports Sql_Deps_Exact
begin

text \<open>
  The clauses of a query put together: the extraction finds exactly the tables and columns the query is built
  from, and what it does outside these queries.
\<close>

subsection \<open>The clauses\<close>

definition clause_words :: "cstring list" where
  "clause_words = [''FROM'', ''UNION'', ''INTERSECT'', ''EXCEPT'', ''WHERE'', ''GROUP'', ''ORDER'', ''HAVING'']"

lemma clause_reserved: "k \<in> set clause_words \<Longrightarrow> k \<in> set reserved \<and> k \<noteq> []"
proof -
  have "list_all (\<lambda>k. k \<in> set reserved \<and> k \<noteq> []) clause_words" by code_simp
  then show "k \<in> set clause_words \<Longrightarrow> ?thesis" by (simp add: list_all_iff)
qed

lemma keyword_lacks:
  assumes "k \<in> set clause_words" "w \<in> set (''SELECT'' # ''ON'' # ''USING'' # join_kws)"
  shows "lacks k w"
proof -
  have "list_all (\<lambda>k. list_all (lacks k) (''SELECT'' # ''ON'' # ''USING'' # join_kws)) clause_words" by code_simp
  with assms show ?thesis unfolding list_all_iff by blast
qed

lemma cond_lacks:
  assumes "k \<in> set clause_words" "cond_ok c" "lacks k a" "lacks k b" "b = [] \<or> hd b = CHR '' ''"
  shows "lacks k (a @ cond_text c @ b)"
proof -
  have b: "lacks k (s @ b)" if "lacks k s" for s
  proof (cases b)
    case (Cons x r)
    with assms(5) have x: "x = CHR '' ''" by simp
    with assms(4) Cons have "lacks k r" using lacks_sep [of x k "[]" r] by simp
    with Cons x that show ?thesis by simp
  qed (use that in simp)
  have k: "k \<in> set reserved" using clause_reserved [OF assms(1)] by simp
  show ?thesis
  proof (cases c)
    case No_Cond
    with b [OF assms(3)] show ?thesis by simp
  next
    case (On_Cond s)
    with assms(2) have "lacks k s" using calm_lacks k by simp
    with On_Cond b assms(3) keyword_lacks [OF assms(1), of "''ON''"]
    have "lacks k (a @ CHR '' '' # (''ON'' @ CHR '' '' # (s @ b)))" by (simp only: lacks_sep [OF separators(1)]) simp
    with On_Cond show ?thesis by simp
  next
    case (Using_Cond s)
    with assms(2) have "lacks k s" using calm_lacks k by simp
    with Using_Cond b assms(3) keyword_lacks [OF assms(1), of "''USING''"]
    have "lacks k (a @ CHR '' '' # (''USING'' @ CHR '' '' # (s @ b)))" by (simp only: lacks_sep [OF separators(1)]) simp
    with Using_Cond show ?thesis by simp
  qed
qed

lemma joins_hd: "joins_text js = [] \<or> hd (joins_text js) = CHR '' ''"
  by (cases js) auto

lemma joins_lacks:
  assumes "k \<in> set clause_words" "joins_ok js"
  shows "lacks k (joins_text js)"
  using assms(2)
proof (induction js)
  case Nil
  show ?case using clause_reserved [OF assms(1)] by (simp add: lacks_def words_of_def)
next
  case (Cons j js)
  obtain w t c where j: "j = (w, t, c)" by (cases j)
  with Cons have ok: "w \<in> set join_kws" "table_ok t" "cond_ok c" "lacks k (joins_text js)" by (simp_all add: joins_ok_def)
  have k: "k \<in> set reserved" "k \<noteq> []" using clause_reserved [OF assms(1)] by simp_all
  have w: "lacks k w" using keyword_lacks [OF assms(1)] ok(1) by simp
  have r: "lacks k (tab_text t @ cond_text c @ joins_text js)"
    by (rule cond_lacks [OF assms(1) ok(3) tab_lacks [OF ok(2) k(1)] ok(4) joins_hd])
  have "lacks k (CHR '' '' # w @ CHR '' '' # (tab_text t @ cond_text c @ joins_text js))"
    using k(2) w r by (simp only: lacks_sep [OF separators(1)] lacks_sep_first [OF separators(1)]) simp
  with j show ?case by simp
qed

lemma joins_end: "joins_ok js \<Longrightarrow> js \<noteq> [] \<Longrightarrow> joins_text js \<noteq> [] \<and> last (joins_text js) \<noteq> CHR '' ''"
proof (induction js)
  case (Cons j js)
  obtain w t c where j: "j = (w, t, c)" by (cases j)
  with Cons.prems have ok: "table_ok t" "cond_ok c" "joins_ok js" by (simp_all add: joins_ok_def)
  have t: "tab_text t \<noteq> []" "last (tab_text t) \<noteq> CHR '' ''" using table_chars(1) [OF ok(1)] by (simp_all add: tight_def)
  show ?case
  proof (cases "js = []")
    case True
    with j t ok(2) show ?thesis by (cases c) auto
  next
    case False
    with Cons.IH ok(3) j show ?thesis by simp
  qed
qed simp

definition base_text :: "query \<Rightarrow> cstring" where
  "base_text q = comma_list (q_comma q) (map tab_text (q_base q))"

lemma query_parts:
  assumes "query_ok q"
  shows "comma_sep (q_comma q)" "q_base q \<noteq> []" "\<forall>t \<in> set (q_base q). table_ok t" "joins_ok (q_joins q)"
    "length (q_base q) + length (q_joins q) \<le> SQL_DEP_MAX_OBJECTS"
proof -
  show "comma_sep (q_comma q)" "q_base q \<noteq> []" "\<forall>t \<in> set (q_base q). table_ok t"
    "length (q_base q) + length (q_joins q) \<le> SQL_DEP_MAX_OBJECTS"
    using assms by (simp_all add: query_ok_def comma_sep_def query_tables_def list_all_iff)
  have "\<forall>(k, t, c) \<in> set (q_joins q). table_ok t" "\<forall>(k, t, c) \<in> set (q_joins q). k \<in> set join_kws \<and> cond_ok c"
    using assms by (simp_all add: query_ok_def query_tables_def list_all_iff split_beta)
  then show "joins_ok (q_joins q)" unfolding joins_ok_def list_all_iff by blast
qed

lemma base_facts:
  assumes "query_ok q"
  shows "tight (base_text q)" "k \<in> set reserved \<Longrightarrow> lacks k (base_text q)"
proof -
  note p = query_parts [OF assms]
  show "tight (base_text q)" unfolding base_text_def using p table_chars(1) by (intro comma_list_tight) auto
  assume k: "k \<in> set reserved"
  have ne: "k \<noteq> []" using k by (auto simp: reserved_def)
  show "lacks k (base_text q)" unfolding base_text_def
    by (rule comma_list_lacks [OF p(1) ne]) (use p(3) tab_lacks [OF _ k] in auto)
qed

lemma lacks_glue: "lacks k a \<Longrightarrow> lacks k b \<Longrightarrow> b = [] \<or> hd b = CHR '' '' \<Longrightarrow> lacks k (a @ b)"
proof (cases b)
  case (Cons x r)
  assume "lacks k a" "lacks k b" "b = [] \<or> hd b = CHR '' ''"
  with Cons show ?thesis by simp
qed simp

lemma from_facts:
  assumes "query_ok q"
  shows "tight (from_text q)" "k \<in> set clause_words \<Longrightarrow> lacks k (from_text q)"
proof -
  note p = query_parts [OF assms] and b = base_facts [OF assms]
  have f: "from_text q = base_text q @ joins_text (q_joins q)" by (simp add: from_text_def base_text_def)
  show "tight (from_text q)" unfolding f using b(1) joins_end [OF p(4)] by (cases "q_joins q = []") (auto simp: tight_ends)
  assume k: "k \<in> set clause_words"
  show "lacks k (from_text q)" unfolding f
    using clause_reserved [OF k] by (intro lacks_glue b(2) joins_lacks [OF k p(4)] joins_hd) simp
qed

lemma tables_exact:
  assumes "query_ok q" "length (from_text q) < NORM_SQL_MAX"
  shows "extract_join_tables (from_text q) = map table_ref (query_tables q)"
proof -
  note p = query_parts [OF assms(1)] and b = base_facts [OF assms(1)]
  have f: "from_text q = base_text q @ joins_text (q_joins q)" by (simp add: from_text_def base_text_def)
  have w: "c_strncpy NORM_SQL_MAX (from_text q) = from_text q" using assms(2) by simp
  have base: "add_tables (base_text q) [] = map table_ref (q_base q)"
    unfolding base_text_def using p by (intro add_tables_exact) simp_all
  show ?thesis using p(4)
  proof (cases rule: joins_text_shape)
    case 1
    have "earliest join_kws (base_text q) = None" using join_heads b(2) by (intro earliest_none) blast
    with 1 w f base show ?thesis by (simp add: extract_join_tables_def query_tables_def)
  next
    case (2 k s)
    have e: "earliest join_kws (from_text q) = Some (length (base_text q) + 1)"
      unfolding f 2(2) by (rule join_past [OF _ 2(1)]) (simp add: b(2))
    have t: "take (length (base_text q) + 1) (from_text q) = base_text q @ '' ''"
      "drop (length (base_text q) + 1) (from_text q) = drop 1 (joins_text (q_joins q))" unfolding f 2(2) by simp_all
    have l: "join_loop (drop 1 (joins_text (q_joins q))) (map table_ref (q_base q)) =
        map table_ref (q_base q) @ map (\<lambda>(k, t, c). table_ref t) (q_joins q)"
      using p(5) by (intro join_loop_exact [OF p(4)]) simp
    show ?thesis unfolding extract_join_tables_def Let_def w e option.case t trim_token_tight(2) [OF b(1)] base l
      by (simp add: query_tables_def comp_def split_beta l [simplified split_beta, simplified])
  qed
qed

lemma from_clause_exact:
  assumes "query_ok q" "length (from_text q) < NORM_SQL_MAX"
  shows "from_clause_of (from_text q @ tail_text q) = from_text q"
proof (cases "q_tail q")
  case None
  have h: "list_all (\<lambda>k. head_word k \<noteq> [] \<and> head_word k \<in> set clause_words) from_stop_kws" by code_simp
  have "earliest from_stop_kws (from_text q) = None"
    using h from_facts(2) [OF assms(1)] unfolding list_all_iff by (intro earliest_none) blast
  with None assms(2) trim_token_tight(1) [OF from_facts(1) [OF assms(1)]] show ?thesis
    by (simp add: tail_text_def from_clause_of_def)
next
  case (Some kt)
  obtain k t where kt: "kt = (k, t)" by (cases kt)
  with Some assms(1) have k: "k \<in> set from_stop_kws" by (simp add: query_ok_def)
  have h: "list_all (\<lambda>k. head_word k \<noteq> [] \<and> head_word k \<in> set clause_words) from_stop_kws" by code_simp
  have "earliest from_stop_kws (from_text q @ CHR '' '' # k @ CHR '' '' # t) =
      map_option (\<lambda>i. i + length (from_text q) + 1) (earliest from_stop_kws (k @ CHR '' '' # t))"
    using h from_facts(2) [OF assms(1)] unfolding list_all_iff by (intro earliest_past) auto
  also have "earliest from_stop_kws (k @ CHR '' '' # t) = Some 0"
    using from_heads [OF k] by (intro earliest_hit [OF k _ blank_start]) simp
  finally have e: "earliest from_stop_kws (from_text q @ CHR '' '' # k @ CHR '' '' # t) = Some (length (from_text q) + 1)" by simp
  have x: "from_text q @ tail_text q = from_text q @ CHR '' '' # k @ CHR '' '' # t" by (simp add: tail_text_def Some kt)
  show ?thesis unfolding x from_clause_of_def e option.case using strip_right_tight(2) [OF from_facts(1) [OF assms(1)]] by simp
qed

subsection \<open>The fields\<close>

definition select_text :: "query \<Rightarrow> cstring" where
  "select_text q = comma_list (q_comma q) (map sel_text (q_fields q))"

lemma select_facts:
  assumes "query_ok q"
  shows "tight (select_text q)" "k \<in> set reserved \<Longrightarrow> lacks k (select_text q)"
    "split_on_comma (select_text q) SQL_DEP_MAX_FIELDS = map sel_text (q_fields q)"
proof -
  from assms have ok: "q_fields q \<noteq> []" "comma_sep (q_comma q)" "length (q_fields q) \<le> SQL_DEP_MAX_FIELDS"
    "\<forall>f \<in> set (q_fields q). field_ok (length (query_tables q) = 1) f"
    by (auto simp: query_ok_def comma_sep_def list_all_iff)
  then have s: "\<forall>x \<in> set (map sel_text (q_fields q)). tight x \<and> CHR '','' \<notin> set x" using sel_text_ok by auto
  show "tight (select_text q)" unfolding select_text_def using ok(1) s by (intro comma_list_tight) auto
  show "lacks k (select_text q)" if k: "k \<in> set reserved"
  proof -
    have ne: "k \<noteq> []" using k by (auto simp: reserved_def)
    show ?thesis unfolding select_text_def by (rule comma_list_lacks [OF ok(2) ne]) (use ok(4) sel_lacks [OF _ k] in auto)
  qed
  show "split_on_comma (select_text q) SQL_DEP_MAX_FIELDS = map sel_text (q_fields q)"
    unfolding select_text_def split_on_comma_def using split_comma_list [OF ok(2) s, of "[]"] ok(3) s
    by (simp add: trim_token_tight(1) comp_def)
qed

lemma expansion_exact:
  "list_ex (\<lambda>f. fr_expansion f \<noteq> SQL_FIELD_NORMAL) (column_refs only pos fs) =
     list_ex (\<lambda>f. case f of Column _ _ _ \<Rightarrow> False | _ \<Rightarrow> True) fs"
proof (induction fs arbitrary: pos)
  case (Cons f fs)
  then show ?case by (cases f) (simp_all add: dep_codes)
qed simp

lemma only_ref_exact:
  assumes "query_ok q"
  shows "(if length (map table_ref (query_tables q)) = 1
      then Some (if obj_alias (hd (map table_ref (query_tables q))) \<noteq> [] then obj_alias (hd (map table_ref (query_tables q)))
                 else obj_name (hd (map table_ref (query_tables q)))) else None) =
    (if length (query_tables q) = 1 then Some (only_ref q) else None)"
proof -
  have ne: "query_tables q \<noteq> []" using query_parts(2) [OF assms] by (simp add: query_tables_def)
  then obtain t ts where ts: "query_tables q = t # ts" by (cases "query_tables q") auto
  have "table_ok t" using assms ts by (simp add: query_ok_def)
  then have a: "alias_ok 64 (qt_alias t)" by (simp add: table_ok_def)
  have "alias_name (qt_alias t) \<noteq> [] \<longleftrightarrow> qt_alias t \<noteq> No_Alias"
    using a by (cases "qt_alias t") (auto dest: name_chars(8))
  then show ?thesis using ts by (simp add: table_ref_def only_ref_def Let_def)
qed

subsection \<open>The whole query\<close>

lemma norm_loop_length: "length (norm_loop room sp s) \<le> room"
  by (induction room sp s rule: norm_loop.induct) auto

lemma strip_right_le: "length (strip_right s) \<le> length s"
  using length_dropWhile_le [of "\<lambda>c. c = CHR '' ''" "rev s"] by (simp add: strip_right_def)

lemma normalise_length: "normalise_sql sql m = Some t \<Longrightarrow> length t < m"
proof -
  assume n: "normalise_sql sql m = Some t"
  define a where "a = strip_right (norm_loop (m - 1) True sql)"
  define b where "b = (if a \<noteq> [] \<and> last a = CHR '';'' then butlast a else a)"
  from n have m: "2 \<le> m" and t: "t = strip_right b" by (auto simp: normalise_sql_def a_def b_def Let_def split: if_splits)
  have "length t \<le> length b" unfolding t by (rule strip_right_le)
  also have "length b \<le> length a" by (simp add: b_def)
  also have "length a \<le> length (norm_loop (m - 1) True sql)" unfolding a_def by (rule strip_right_le)
  also have "\<dots> \<le> m - 1" by (rule norm_loop_length)
  finally show ?thesis using m by simp
qed

lemma query_text_split:
  "query_text q = ''SELECT'' @ CHR '' '' # (select_text q @ CHR '' '' # (''FROM'' @ CHR '' '' # (from_text q @ tail_text q)))"
  by (simp add: query_text_def select_text_def)

lemma from_found:
  assumes "query_ok q"
  shows "find_keyword (query_text q) ''FROM'' = Some (length (select_text q) + 8)"
proof -
  have "''FROM'' \<in> set clause_words" by (simp add: clause_words_def)
  note k = this and r = clause_reserved [OF this]
  have l: "lacks ''FROM'' ''SELECT''" by (rule keyword_lacks [OF k]) simp
  have "find_keyword (''FROM'' @ CHR '' '' # (from_text q @ tail_text q)) ''FROM'' = Some 0"
    by (rule find_hit [OF _ blank_start]) simp
  moreover have "find_keyword (select_text q @ CHR '' '' # (''FROM'' @ CHR '' '' # (from_text q @ tail_text q))) ''FROM'' =
      map_option (\<lambda>i. i + length (select_text q) + 1) (find_keyword (''FROM'' @ CHR '' '' # (from_text q @ tail_text q)) ''FROM'')"
    using select_facts(2) [OF assms] r by (intro find_past) simp_all
  moreover have "find_keyword (query_text q) ''FROM'' = map_option (\<lambda>i. i + length ''SELECT'' + 1)
      (find_keyword (select_text q @ CHR '' '' # (''FROM'' @ CHR '' '' # (from_text q @ tail_text q))) ''FROM'')"
    unfolding query_text_split by (rule find_past) (use l in simp_all)
  ultimately show ?thesis by (simp only: option.map) simp
qed

lemma set_word_absent:
  assumes "query_ok q" "k \<in> {''UNION'', ''INTERSECT'', ''EXCEPT''}"
  shows "find_keyword (query_text q) k = None"
proof (rule find_none)
  have h: "head_word k = k" "k \<in> set clause_words" using assms(2) by (auto simp: clause_words_def)
  note r = clause_reserved [OF h(2)]
  show "head_word k \<noteq> []" using h r by simp
  have tail: "lacks k (tail_text q)"
  proof (cases "q_tail q")
    case None
    with r show ?thesis by (simp add: tail_text_def lacks_def words_of_def)
  next
    case (Some kt)
    obtain w t where kt: "kt = (w, t)" by (cases kt)
    with Some assms have t: "lacks k t" "w \<in> set from_stop_kws" by (auto simp: query_ok_def)
    have "list_all (\<lambda>w. lacks ''UNION'' w \<and> lacks ''INTERSECT'' w \<and> lacks ''EXCEPT'' w) from_stop_kws" by code_simp
    with t(2) assms(2) have "lacks k w" unfolding list_all_iff by blast
    with t(1) r have "lacks k (CHR '' '' # w @ CHR '' '' # t)"
      by (simp only: lacks_sep [OF separators(1)] lacks_sep_first [OF separators(1)]) simp
    with Some kt show ?thesis by (simp add: tail_text_def)
  qed
  have th: "tail_text q = [] \<or> hd (tail_text q) = CHR '' ''" by (auto simp: tail_text_def split: option.splits)
  have "lacks k (from_text q @ tail_text q)" by (rule lacks_glue [OF from_facts(2) [OF assms(1) h(2)] tail th])
  moreover have "lacks k ''SELECT''" by (rule keyword_lacks [OF h(2)]) simp
  moreover have "lacks k ''FROM''"
  proof -
    have "lacks ''UNION'' ''FROM''" "lacks ''INTERSECT'' ''FROM''" "lacks ''EXCEPT'' ''FROM''" by code_simp+
    with assms(2) show ?thesis by blast
  qed
  ultimately show "lacks (head_word k) (query_text q)"
    unfolding query_text_split h(1) using select_facts(2) [OF assms(1), of k] r
    by (simp only: lacks_sep [OF separators(1)])
qed

lemma dependencies_found:
  assumes "query_ok q" "normalise_sql sql NORM_SQL_MAX = Some (query_text q)"
  shows "extract_sql_dependencies (Some sql) = Some (query_deps q)"
proof -
  have len: "length (query_text q) < NORM_SQL_MAX" by (rule normalise_length [OF assms(2)])
  then have lf: "length (from_text q) < NORM_SQL_MAX" "length (from_text q @ tail_text q) < NORM_SQL_MAX"
    "length (select_text q) < NORM_SQL_MAX" by (simp_all add: query_text_split)
  note f = from_facts [OF assms(1)] and s = select_facts [OF assms(1)]
  have sel: "cs_prefix ''SELECT '' (query_text q)" by (simp add: query_text_split cs_prefix_def)
  have abs: "find_keyword (query_text q) ''UNION'' = None" "find_keyword (query_text q) ''INTERSECT'' = None"
    "find_keyword (query_text q) ''EXCEPT'' = None" by (simp_all add: set_word_absent [OF assms(1)])
  have cut: "strip_right (take (length (select_text q) + 8 - 7) (drop 7 (query_text q))) = select_text q"
    using strip_right_tight(2) [OF s(1)] by (simp add: query_text_split)
  have body: "skip_blanks (drop (length (select_text q) + 8 + 4) (query_text q)) = from_text q @ tail_text q"
  proof -
    have "drop (length (''SELECT '' @ select_text q @ '' FROM''))
        ((''SELECT '' @ select_text q @ '' FROM'') @ CHR '' '' # from_text q @ tail_text q) = CHR '' '' # from_text q @ tail_text q"
      by (rule append_eq_conv_conj [THEN iffD1, THEN conjunct2, symmetric]) simp
    moreover have "length (''SELECT '' @ select_text q @ '' FROM'') = length (select_text q) + 8 + 4" by simp
    moreover have "query_text q = (''SELECT '' @ select_text q @ '' FROM'') @ CHR '' '' # from_text q @ tail_text q"
      by (simp add: query_text_split)
    ultimately have "drop (length (select_text q) + 8 + 4) (query_text q) = CHR '' '' # from_text q @ tail_text q" by metis
    with skip_blanks_tight(2) [OF f(1), of "tail_text q"] show ?thesis by simp
  qed
  have ne: "select_text q \<noteq> []" "from_text q \<noteq> []" using s(1) f(1) by (simp_all add: tight_def)
  have fields: "parse_fields (if length (query_tables q) = 1 then Some (only_ref q) else None) 1 (map sel_text (q_fields q)) =
      Some (column_refs (only_ref q) 1 (q_fields q))"
    using assms(1) by (intro parse_fields_exact) (simp add: query_ok_def list_all_iff)
  have tabs: "map table_ref (query_tables q) \<noteq> []" "map sel_text (q_fields q) \<noteq> []"
    using query_parts(2) [OF assms(1)] assms(1) by (simp_all add: query_tables_def query_ok_def)
  show ?thesis
    unfolding extract_sql_dependencies_def option.case assms(2) from_found [OF assms(1)] Let_def cut body
      from_clause_exact [OF assms(1) lf(1)] tables_exact [OF assms(1) lf(1)] only_ref_exact [OF assms(1)] c_strncpy_id [OF lf(3)] s(3)
    using sel abs ne tabs fields by (simp add: query_deps_def expansion_exact)
qed


definition sample_query :: query where
  "sample_query = \<lparr>q_comma = '', '', q_fields = [Column ''E'' ''NAME'' (As_Alias ''WHO''), Table_Columns ''D''],
     q_base = [\<lparr>qt_owner = Some ''HR'', qt_name = ''EMP'', qt_alias = Blank_Alias ''E''\<rparr>],
     q_joins = [(''LEFT JOIN'', \<lparr>qt_owner = None, qt_name = ''DEPT'', qt_alias = As_Alias ''D''\<rparr>, On_Cond ''E.ID = D.ID'')],
     q_tail = Some (''WHERE'', ''E.AGE > 3'')\<rparr>"


subsection \<open>Outside these queries\<close>

lemma norm_loop_full: "length (norm_loop room sp s) = room \<Longrightarrow> norm_loop room sp (s @ x) = norm_loop room sp s"
proof (induction room sp s rule: norm_loop.induct)
  case (1 room sp)
  then show ?case by (cases x) auto
next
  case (3 room sp c s)
  then show ?case by (auto split: if_splits)
qed simp

lemma norm_loop_word: "\<forall>c \<in> set s. \<not> c_isspace c \<Longrightarrow> length (norm_loop room sp s) = min room (length s)"
  by (induction room sp s rule: norm_loop.induct) auto

text \<open>What comes after the first 8191 bytes of the normalised text is ignored, so a table named only there is
  not a dependency.\<close>

lemma long_text_ignored:
  assumes "length (norm_loop (NORM_SQL_MAX - 1) True s) = NORM_SQL_MAX - 1"
  shows "extract_sql_dependencies (Some (s @ x)) = extract_sql_dependencies (Some s)"
proof -
  have "normalise_sql (s @ x) NORM_SQL_MAX = normalise_sql s NORM_SQL_MAX"
    unfolding normalise_sql_def norm_loop_full [OF assms] ..
  then show ?thesis by (simp add: extract_sql_dependencies_def)
qed

lemma long_text_ignored_witness:
  "extract_sql_dependencies (Some (replicate 9000 (CHR ''X'') @ '' UNION SELECT * FROM B'')) =
     extract_sql_dependencies (Some (replicate 9000 (CHR ''X'')))"
proof -
  have "\<not> c_isspace (CHR ''X'')" by code_simp
  then have "length (norm_loop (NORM_SQL_MAX - 1) True (replicate 9000 (CHR ''X''))) = NORM_SQL_MAX - 1"
    by (subst norm_loop_word) (simp_all add: NORM_SQL_MAX_def)
  from long_text_ignored [OF this] show ?thesis .
qed

text \<open>A table after a comma behind a condition is not found.\<close>

lemma table_after_condition_lost: "map obj_name (extract_join_tables ''A JOIN B ON I = J, C'') = [''A'', ''B'']"
  by code_simp

text \<open>A comma behind a join without a condition is taken into the name of its table.\<close>

lemma comma_after_cross_join:
  "map_option (\<lambda>d. map (\<lambda>t. (obj_name t, obj_alias t)) (dep_objects d))
     (extract_sql_dependencies (Some ''select * from a cross join b, c'')) = Some [(''A'', []), (''B,'', ''C'')]"
  by code_simp

text \<open>A joined subquery is left out without an error.\<close>

lemma joined_subquery_dropped: "map obj_name (extract_join_tables ''A JOIN (B) S ON I = J'') = [''A'']"
  by code_simp

text \<open>A keyword inside a literal is taken for a keyword.\<close>

lemma keyword_in_literal:
  "extract_sql_dependencies (Some (''select a.x from a where a.y = '' @ [CHR 0x27] @ ''union'' @ [CHR 0x27])) = None"
  by code_simp

end
