(* ===== verification/Resultset_Cache.thy ===== *)
theory Resultset_Cache
  imports Session_Cache Sql_Deps_Query
begin

text \<open>
  \<^verbatim>\<open>src/infra/resultset_cache.c\<close> and the code of the SELECT path that uses it (Stage 0, the cache lookup and
  the store of \<^verbatim>\<open>execute_query_batch\<close>, \<^verbatim>\<open>response_writer_cache_store\<close>): results kept under the normalised text
  of their query and tagged with its tables. A NULL cache is \<open>None\<close>; the outer \<open>None\<close> of an initialisation is a
  creation that does not return, that of a release a write to freed memory. \<open>dup\<close>: \<^verbatim>\<open>strdup\<close> succeeds.
\<close>

subsection \<open>The wrapper\<close>

definition resultset_cache_config :: "cache_ini \<Rightarrow> cache_config" where
  "resultset_cache_config ini =
     \<lparr>cfg_bucket_count = word_of_int (if ini_bucket_count ini > 0 then ini_bucket_count ini else 2048),
      cfg_max_entries = nat (if ini_max_entries ini > 0 then ini_max_entries ini else 1000),
      cfg_max_memory_bytes = nat (if ini_max_memory_mb ini > 0 then ini_max_memory_mb ini else 256) * 1024 * 1024,
      cfg_ttl_seconds = (if ini_ttl_seconds ini > 0 then ini_ttl_seconds ini else 300),
      cfg_hash_algorithm = parse_hash_algorithm (Some (ini_hash_algorithm ini)),
      cfg_enabled = ini_enabled ini\<rparr>"

definition resultset_cache_init :: "cache_ini \<Rightarrow> cache option option" where
  "resultset_cache_init ini =
     (let cfg = resultset_cache_config ini
      in if \<not> cfg_enabled cfg then Some None else map_option Some (cache_create cfg))"

definition resultset_cache_make_key :: "cstring option \<Rightarrow> nat \<Rightarrow> cstring option" where
  "resultset_cache_make_key sql dest_max =
     (if sql = None \<or> dest_max < 2 then None else cache_normalize_sql sql dest_max)"

definition resultset_cache_lookup ::
    "cache option \<Rightarrow> cstring option \<Rightarrow> int \<Rightarrow> nat \<Rightarrow> cache option \<times> cache_entry option" where
  "resultset_cache_lookup c key now us =
     (case (c, key) of
        (Some s, Some k) \<Rightarrow> (case cache_lookup s (Some k) now us of (d, r) \<Rightarrow> (Some d, r))
      | _ \<Rightarrow> (c, None))"

definition resultset_cache_release :: "cache option \<Rightarrow> nat option \<Rightarrow> cache option option" where
  "resultset_cache_release c entry =
     (case c of None \<Rightarrow> Some None | Some s \<Rightarrow> map_option Some (cache_release s entry))"

definition no_opts :: cache_opts where
  "no_opts = \<lparr>opt_ttl_seconds = 0, opt_pinned = False, opt_row_count = 0, opt_json = None,
     opt_trace = replicate 7 None, opt_tag = None\<rparr>"

definition resultset_cache_store ::
    "cache option \<Rightarrow> cstring option \<Rightarrow> cstring option \<Rightarrow> cstring option \<Rightarrow> nat \<Rightarrow> cache_opts option \<Rightarrow> bool \<Rightarrow> int \<Rightarrow>
     nat option \<Rightarrow> int \<times> cache option" where
  "resultset_cache_store c key xml json rows opts dup now mem =
     (case (c, key, xml) of
        (Some s, Some k, Some doc) \<Rightarrow>
          if \<not> dup then (-1, c)
          else
            let o1 = (case opts of None \<Rightarrow> no_opts | Some o0 \<Rightarrow> o0)\<lparr>opt_row_count := rows\<rparr>;
                o2 = (case json of None \<Rightarrow> o1 | Some j \<Rightarrow> o1\<lparr>opt_json := Some (j, length j)\<rparr>)
            in (case cache_insert s (Some k) (Some (doc, length doc)) (Some o2) now mem of (rc, d, _) \<Rightarrow> (rc, Some d))
      | _ \<Rightarrow> (-1, c))"

definition resultset_cache_invalidate :: "cache option \<Rightarrow> cstring option \<Rightarrow> int \<Rightarrow> int \<times> cache option" where
  "resultset_cache_invalidate c sql now =
     (case (c, sql) of
        (Some s, Some _) \<Rightarrow>
          (case cache_normalize_sql sql 8192 of
             None \<Rightarrow> (-1, c)
           | Some key \<Rightarrow> (case cache_expire_entry s (Some key) now of (rc, d) \<Rightarrow> (rc, Some d)))
      | _ \<Rightarrow> (-1, c))"

definition resultset_cache_invalidate_by_table :: "cache option \<Rightarrow> cstring option \<Rightarrow> int \<Rightarrow> int \<times> cache option" where
  "resultset_cache_invalidate_by_table c table_name now =
     (case (c, table_name) of
        (Some s, Some t) \<Rightarrow> (case cache_invalidate_by_tag s (Some t) now of (n, d) \<Rightarrow> (n, Some d))
      | _ \<Rightarrow> (-1, c))"

definition resultset_cache_evict :: "cache option \<Rightarrow> int \<Rightarrow> int \<times> cache option" where
  "resultset_cache_evict c now =
     (case c of None \<Rightarrow> (-1, None) | Some s \<Rightarrow> (case cache_evict_expired s now of (n, d) \<Rightarrow> (n, Some d)))"

subsection \<open>The SELECT path\<close>

text \<open>
  The names of the tables, comma-separated, in a buffer of 512 bytes; \<^verbatim>\<open>strncat\<close> appends what fits.
\<close>

definition add_tag :: "cstring \<Rightarrow> object_ref \<Rightarrow> cstring" where
  "add_tag tag obj =
     (if obj_name obj = [] then tag
      else
        let t = (if 0 < length tag \<and> length tag < 512 - 1 then tag @ '','' else tag)
        in t @ take (512 - length t - 1) (obj_name obj))"

definition table_tag :: "dependency_list \<Rightarrow> cstring" where
  "table_tag deps = foldl add_tag [] (dep_objects deps)"

text \<open>
  The lookup: a request served asynchronously never uses the cache, and an entry without a JSON form does not serve a
  JSON request. The answer is the copied document and the row count.
\<close>

definition serve_from_cache ::
    "cache option \<Rightarrow> cstring \<Rightarrow> bool \<Rightarrow> bool \<Rightarrow> int \<Rightarrow> nat \<Rightarrow> (cache option \<times> (cstring \<times> nat) option) option" where
  "serve_from_cache c sql is_async want_json now us =
     (if c = None \<or> is_async then Some (c, None)
      else
        (case resultset_cache_make_key (Some sql) 8192 of
           None \<Rightarrow> Some (c, None)
         | Some key \<Rightarrow>
             (case resultset_cache_lookup c (Some key) now us of
                (d, None) \<Rightarrow> Some (d, None)
              | (d, Some hit) \<Rightarrow>
                  let doc = (if want_json then map_option fst (output_json hit) else Some (output_document hit))
                  in map_option (\<lambda>e. (e, map_option (\<lambda>t. (t, row_count hit)) doc))
                       (resultset_cache_release d (Some (addr hit))))))"

text \<open>\<open>json\<close> is the text rendered from the result set, \<open>None\<close> when that failed; the answer is what the caller gets of it.\<close>

definition response_writer_cache_store ::
    "cache option \<Rightarrow> cstring option \<Rightarrow> cstring option \<Rightarrow> cstring option \<Rightarrow> nat \<Rightarrow> cache_opts option \<Rightarrow> bool \<Rightarrow> int \<Rightarrow>
     nat option \<Rightarrow> int \<times> cache option \<times> cstring option" where
  "response_writer_cache_store c key xml json rows opts dup now mem =
     (case json of
        None \<Rightarrow> (-1, c, None)
      | Some j \<Rightarrow>
          (0, if c \<noteq> None \<and> key \<noteq> None \<and> xml \<noteq> None
              then snd (resultset_cache_store c key xml (Some j) rows opts dup now mem) else c, Some j))"

text \<open>
  \<open>cache_key\<close> stays the empty string when the cache is off, the request asynchronous or no key can be made. The result
  of the call is the JSON code and the cache.
\<close>

definition store_result ::
    "cache option \<Rightarrow> cstring \<Rightarrow> dependency_list \<Rightarrow> bool \<Rightarrow> cstring \<Rightarrow> cstring option \<Rightarrow> nat \<Rightarrow> bool \<Rightarrow> int \<Rightarrow> nat option \<Rightarrow>
     int \<times> cache option" where
  "store_result c sql deps is_async xml json rows dup now mem =
     (let cache_key = (if c \<noteq> None \<and> \<not> is_async
                       then (case resultset_cache_make_key (Some sql) 8192 of None \<Rightarrow> [] | Some k \<Rightarrow> k) else []);
          tag = table_tag deps;
          opts = (if tag \<noteq> [] then Some (no_opts\<lparr>opt_tag := Some tag\<rparr>) else None);
          use = (if c \<noteq> None \<and> cache_key \<noteq> [] \<and> \<not> is_async then c else None)
      in (case response_writer_cache_store use (Some cache_key) (Some xml) json rows opts dup now mem of
            (rc, d, _) \<Rightarrow> (rc, if use = None then c else d)))"

end
