(* ===== verification/Resultset_Runs.thy ===== *)
theory Resultset_Runs
  imports Resultset_Cache
begin

text \<open>
  Runs of the result set cache: the workers look results up, store them, and invalidate them when they have written
  to a table. What a lookup serves was stored for a query with the same key, and after a write to one of its tables
  the results of a query are no longer served.
\<close>

subsection \<open>Keys and dependencies\<close>

lemma loops_agree: "length s < room \<Longrightarrow> normalize_loop room sp s = norm_loop room sp s"
  by (induction room sp s rule: normalize_loop.induct) auto

lemma strip_right_trim: "strip_right (trim_trailing d) = strip_right d"
proof (cases d rule: rev_cases)
  case (snoc t c)
  then show ?thesis by (simp add: trim_trailing_def strip_right_def)
qed (simp add: trim_trailing_def)

text \<open>Texts with the same key, if nothing was cut off, have the same dependencies.\<close>

lemma same_key_same_deps:
  assumes "cache_normalize_sql (Some s) 8192 = cache_normalize_sql (Some t) 8192" "length s < 8191" "length t < 8191"
  shows "normalise_sql s NORM_SQL_MAX = normalise_sql t NORM_SQL_MAX"
    "extract_sql_dependencies (Some s) = extract_sql_dependencies (Some t)"
proof -
  have "strip_right (norm_loop 8191 True u) = strip_right (trim_trailing (normalize_loop 8191 True u))" if "length u < 8191" for u
    using loops_agree [OF that, of True] by (simp add: strip_right_trim)
  with assms have "strip_right (norm_loop 8191 True s) = strip_right (norm_loop 8191 True t)"
    by (simp add: cache_normalize_sql_def)
  then show "normalise_sql s NORM_SQL_MAX = normalise_sql t NORM_SQL_MAX" by (simp add: normalise_sql_def NORM_SQL_MAX_def)
  then show "extract_sql_dependencies (Some s) = extract_sql_dependencies (Some t)" by (simp add: extract_sql_dependencies_def)
qed

subsection \<open>What the operations leave in the cache\<close>

definition same_payload :: "cache_entry \<Rightarrow> cache_entry \<Rightarrow> bool" where
  "same_payload e e' \<longleftrightarrow> normalized_sql e' = normalized_sql e \<and> output_document e' = output_document e \<and>
     output_json e' = output_json e \<and> row_count e' = row_count e \<and> table_dependency_tag e' = table_dependency_tag e"

definition kept :: "cache \<Rightarrow> cache \<Rightarrow> bool" where
  "kept c d \<longleftrightarrow> (\<forall>e' \<in> set (all_entries d). \<exists>e \<in> set (all_entries c). same_payload e e')"

named_theorems kept

lemma same_payload_refl [simp]: "same_payload e e"
  by (simp add: same_payload_def)

lemma kept_subset: "set (all_entries d) \<subseteq> set (all_entries c) \<Longrightarrow> kept c d"
  by (force simp: kept_def)

lemma kept_stats [simp]: "kept c (count_miss d) = kept c d" "kept c (count_hit us d) = kept c d" "kept c (count_eviction n d) = kept c d"
  by (simp_all add: kept_def all_entries_def count_miss_def count_hit_def count_eviction_def Let_def)

lemma kept_map:
  assumes "buckets d = map (map f) (buckets c)" "\<And>e. same_payload e (f e)"
  shows "kept c d"
  using assms(2) by (auto simp: kept_def all_map [OF assms(1)])

lemma kept_update: "(\<And>e. same_payload e (f e)) \<Longrightarrow> kept c (update_entry a f c)"
  by (rule kept_map [where f = "\<lambda>e. if addr e = a then f e else e"]) (simp_all add: update_entry_def)

lemma kept_lookup [kept]: "kept c (fst (cache_lookup c key now us))"
  by (auto simp: cache_lookup_def Let_def kept_subset same_payload_def intro!: kept_update split: option.splits)

lemma kept_release [kept]: "cache_release c a = Some d \<Longrightarrow> kept c d"
  by (auto simp: cache_release_def kept_subset same_payload_def intro!: kept_update split: option.splits if_splits)

lemma kept_expire [kept]: "kept c (snd (cache_expire_entry c key now))"
  by (auto simp: cache_expire_entry_def kept_subset same_payload_def intro!: kept_update split: option.splits)

lemma kept_invalidate [kept]: "kept c (snd (cache_invalidate_by_tag c tag now))"
proof (cases "tag = None \<or> tag = Some []")
  case False
  then obtain x xs where "tag = Some (x # xs)" by (cases tag) (auto simp: neq_Nil_conv)
  then show ?thesis
    by (auto simp: cache_invalidate_by_tag_def Let_def same_payload_def
        intro!: kept_map [where f = "\<lambda>e. if tag_hit now (x # xs) e then e\<lparr>expiry_ts := past_ts now\<rparr> else e"])
qed (auto simp: cache_invalidate_by_tag_def kept_subset)

lemma kept_evict [kept]:
  assumes "cache_wf c"
  shows "kept c (snd (cache_evict_expired c now))"
proof -
  let ?gone = "filter (sweepable now) (all_entries c)"
  let ?c1 = "c\<lparr>buckets := map (filter (\<lambda>e. \<not> sweepable now e)) (buckets c),
      current_memory_bytes := current_memory_bytes c - sum_list (map entry_memory_bytes ?gone),
      entry_count := entry_count c - length ?gone\<rparr>"
  have wf: "cache_wf (count_eviction (length ?gone) ?c1)"
    using cache_wf_remove [OF assms, where P = "\<lambda>e. \<not> sweepable now e" and d = ?c1] by simp
  have all: "all_entries ?c1 = filter (\<lambda>e. \<not> sweepable now e) (all_entries c)"
    by (simp add: all_entries_def filter_concat)
  have "set (all_entries (fst (evict_while over (count_eviction (length ?gone) ?c1)))) \<subseteq> set (all_entries (count_eviction (length ?gone) ?c1))" for over
    using evict_while_evolves [OF wf, of over] by (simp add: evolves_def)
  moreover have "all_entries (count_eviction (length ?gone) ?c1) = all_entries ?c1"
    by (simp add: all_entries_def count_eviction_def)
  ultimately have "set (all_entries (fst (evict_while over (count_eviction (length ?gone) ?c1)))) \<subseteq> set (all_entries c)" for over
    using all by fastforce
  then show ?thesis by (intro kept_subset) (simp add: cache_evict_expired_def Let_def split_beta)
qed

text \<open>An insert adds at most the entry it was asked to store.\<close>

definition made_of :: "cstring \<Rightarrow> cstring \<Rightarrow> cache_opts \<Rightarrow> cache_entry \<Rightarrow> bool" where
  "made_of k doc opts e \<longleftrightarrow> normalized_sql e = k \<and> output_document e = doc \<and> output_json e = opt_json opts \<and>
     row_count e = opt_row_count opts \<and> table_dependency_tag e = opt_tag opts"

lemma alloc_made_of: "made_of k doc opts (alloc_entry a k doc dlen h ttl (Some opts) now)"
  by (simp add: made_of_def alloc_entry_def Let_def)

lemma insert_new_entries:
  assumes "cache_wf c" "insert_new c k doc dlen (Some opts) now mem = (rc, d, fate)" "e \<in> set (all_entries d)"
  shows "e \<in> set (all_entries c) \<or> made_of k doc opts e"
proof -
  define c1 where "c1 = fst (evict_while (\<lambda>c. entry_count c \<ge> max_entries c) c)"
  define c2 where "c2 = fst (evict_while (\<lambda>c. current_memory_bytes c + insert_memory_estimate k dlen
      > max_memory_bytes c) c1)"
  have wf: "cache_wf c1" "cache_wf c2" unfolding c1_def c2_def using assms(1) evict_while_wf by blast+
  have ev: "evolves c c2" unfolding c1_def c2_def
    using evolves_trans evict_while_evolves evict_while_wf assms(1) by blast
  then have sub: "set (all_entries c2) \<subseteq> set (all_entries c)" by (simp add: evolves_def)
  show ?thesis
  proof (cases mem)
    case None
    then have "d = c2" using assms(2) unfolding insert_new_def c1_def [symmetric] c2_def [symmetric] Let_def by simp
    with sub assms(3) show ?thesis by auto
  next
    case (Some a)
    let ?e = "alloc_entry a k doc dlen (compute_hash (algorithm c) k) (effective_ttl c (Some opts)) (Some opts) now"
    have d: "buckets d = (buckets c2)[bucket_of c k := ?e # buckets c2 ! bucket_of c k]"
      using assms(2) Some unfolding insert_new_def c1_def [symmetric] c2_def [symmetric] Let_def by auto
    have "table_wf c2" using wf by (simp add: cache_wf_def)
    then have lt: "bucket_of c k < length (buckets c2)"
      using bucket_in_range [of c2 k] ev by (simp add: evolves_def bucket_of_def)
    have "set (all_entries d) = insert ?e (set (all_entries c2))"
      using all_prepend [OF lt d] by (metis set_mset_add_mset_insert set_mset_mset)
    with sub assms(3) alloc_made_of show ?thesis by auto
  qed
qed

lemma cache_insert_entries:
  assumes "cache_wf c" "cache_insert c (Some k) (Some (doc, dlen)) (Some opts) now mem = (rc, d, fate)" "e \<in> set (all_entries d)"
  shows "e \<in> set (all_entries c) \<or> made_of k doc opts e"
proof (cases "enabled c")
  case False
  with assms(2,3) show ?thesis by (simp add: cache_insert_def)
next
  case True
  show ?thesis
  proof (cases "stored c k")
    case None
    with assms True have "insert_new c k doc dlen (Some opts) now mem = (rc, d, fate)"
      by (simp add: cache_insert_def find_stored)
    from insert_new_entries [OF assms(1) this assms(3)] show ?thesis .
  next
    case (Some x)
    from stored_Some [OF this] have x: "x \<in> set (all_entries c)" by blast
    let ?c' = "c\<lparr>buckets := unlink (addr x) (buckets c),
               current_memory_bytes := current_memory_bytes c - entry_memory_bytes x,
               entry_count := entry_count c - 1\<rparr>"
    have wf': "cache_wf ?c'" by (rule cache_wf_unlink [OF assms(1) x]) simp_all
    have all: "all_entries ?c' = filter (\<lambda>y. addr y \<noteq> addr x) (all_entries c)"
      by (simp add: all_entries_def unlink_def filter_concat)
    show ?thesis
    proof (cases "in_use x")
      case True
      with assms \<open>enabled c\<close> Some show ?thesis by (simp add: cache_insert_def find_stored [OF assms(1)] Let_def)
    next
      case False
      with assms(2) \<open>enabled c\<close> Some have "insert_new ?c' k doc dlen (Some opts) now mem = (rc, d, fate)"
        by (simp add: cache_insert_def find_stored [OF assms(1)] Let_def)
      from insert_new_entries [OF wf' this assms(3)] all show ?thesis by auto
    qed
  qed
qed

subsection \<open>Runs\<close>

record stored_answer =
  sa_sql :: cstring
  sa_xml :: cstring
  sa_json :: cstring
  sa_rows :: nat

text \<open>
  The history lists what was handed to the store, latest first. A lookup and its release are steps of their own too,
  since other workers run between them. The
  buffer of a SELECT request holds 4096 bytes; longer texts are left out since \<open>long_keys_collide\<close>.
\<close>

inductive query_cache_run :: "cache_ini \<Rightarrow> stored_answer list \<Rightarrow> cache \<Rightarrow> bool" for ini :: cache_ini where
  start: "resultset_cache_init ini = Some (Some c) \<Longrightarrow> query_cache_run ini [] c"
| serve: "query_cache_run ini h c \<Longrightarrow> serve_from_cache (Some c) sql is_async want_json now us = Some (Some d, r) \<Longrightarrow>
    query_cache_run ini h d"
| lookup: "query_cache_run ini h c \<Longrightarrow> resultset_cache_lookup (Some c) key now us = (Some d, r) \<Longrightarrow> query_cache_run ini h d"
| release: "query_cache_run ini h c \<Longrightarrow> resultset_cache_release (Some c) b = Some (Some d) \<Longrightarrow> query_cache_run ini h d"
| store: "query_cache_run ini h c \<Longrightarrow> length sql < 8191 \<Longrightarrow> extract_sql_dependencies (Some sql) = Some deps \<Longrightarrow> fresh_mem c mem \<Longrightarrow>
    store_result (Some c) sql deps is_async xml json rows dup now mem = (rc, Some d) \<Longrightarrow>
    query_cache_run ini (\<lparr>sa_sql = sql, sa_xml = xml, sa_json = (case json of None \<Rightarrow> [] | Some j \<Rightarrow> j), sa_rows = rows\<rparr> # h) d"
| invalidate: "query_cache_run ini h c \<Longrightarrow> resultset_cache_invalidate (Some c) sql' now = (rc, Some d) \<Longrightarrow> query_cache_run ini h d"
| modify: "query_cache_run ini h c \<Longrightarrow> resultset_cache_invalidate_by_table (Some c) table_name now = (n, Some d) \<Longrightarrow>
    query_cache_run ini h d"
| evict: "query_cache_run ini h c \<Longrightarrow> resultset_cache_evict (Some c) now = (n, Some d) \<Longrightarrow> query_cache_run ini h d"

definition answer_of :: "stored_answer \<Rightarrow> cache_entry \<Rightarrow> bool" where
  "answer_of x e \<longleftrightarrow>
     length (sa_sql x) < 8191 \<and> cache_normalize_sql (Some (sa_sql x)) 8192 = Some (normalized_sql e) \<and>
     output_document e = sa_xml x \<and> output_json e = Some (sa_json x, length (sa_json x)) \<and> row_count e = sa_rows x \<and>
     (\<exists>deps. extract_sql_dependencies (Some (sa_sql x)) = Some deps \<and>
        table_dependency_tag e = (if table_tag deps = [] then None else Some (table_tag deps)))"

definition run_inv :: "stored_answer list \<Rightarrow> cache \<Rightarrow> bool" where
  "run_inv h c \<longleftrightarrow> (\<forall>e \<in> set (all_entries c). \<exists>x \<in> set h. answer_of x e)"

lemma answer_of_payload: "same_payload e e' \<Longrightarrow> answer_of x e \<Longrightarrow> answer_of x e'"
  by (simp add: same_payload_def answer_of_def)

lemma run_inv_kept: "run_inv h c \<Longrightarrow> kept c d \<Longrightarrow> run_inv h d"
  unfolding run_inv_def kept_def by (meson answer_of_payload)

lemma store_result_cases:
  assumes "store_result (Some c) sql deps is_async xml json rows dup now mem = (rc, Some d)"
  obtains "d = c"
    | k j opts r f where "cache_normalize_sql (Some sql) 8192 = Some k" "json = Some j"
      "cache_insert c (Some k) (Some (xml, length xml)) (Some opts) now mem = (r, d, f)"
      "opt_json opts = Some (j, length j)" "opt_row_count opts = rows"
      "opt_tag opts = (if table_tag deps = [] then None else Some (table_tag deps))"
proof -
  define opts where "opts = (if table_tag deps \<noteq> [] then Some (no_opts\<lparr>opt_tag := Some (table_tag deps)\<rparr>) else None)"
  define key where "key = (case resultset_cache_make_key (Some sql) 8192 of None \<Rightarrow> [] | Some k \<Rightarrow> k)"
  show ?thesis
  proof (cases "is_async \<or> key = [] \<or> json = None \<or> \<not> dup")
    case True
    then have "d = c" using assms
      by (auto simp: store_result_def response_writer_cache_store_def resultset_cache_store_def key_def Let_def
          split: option.splits if_splits)
    then show ?thesis by (rule that(1))
  next
    case False
    then obtain j where j: "json = Some j" by auto
    obtain k where k: "resultset_cache_make_key (Some sql) 8192 = Some k" "k = key"
      using False by (auto simp: key_def split: option.splits)
    then have n: "cache_normalize_sql (Some sql) 8192 = Some k" by (simp add: resultset_cache_make_key_def)
    define o2 where "o2 = (case opts of None \<Rightarrow> no_opts | Some o0 \<Rightarrow> o0)\<lparr>opt_row_count := rows, opt_json := Some (j, length j)\<rparr>"
    obtain r e f where i: "cache_insert c (Some k) (Some (xml, length xml)) (Some o2) now mem = (r, e, f)"
      by (cases "cache_insert c (Some k) (Some (xml, length xml)) (Some o2) now mem")
    have "d = e" using assms False j k i
      by (simp add: store_result_def response_writer_cache_store_def resultset_cache_store_def Let_def
          flip: opts_def o2_def)
    moreover have "opt_json o2 = Some (j, length j)" "opt_row_count o2 = rows"
      "opt_tag o2 = (if table_tag deps = [] then None else Some (table_tag deps))"
      by (simp_all add: o2_def opts_def no_opts_def)
    ultimately show ?thesis using that(2) [OF n j] i by blast
  qed
qed

lemma serve_result:
  assumes "cache_wf c"
  shows "\<exists>d r. serve_from_cache (Some c) sql is_async want_json now us = Some (Some d, r) \<and> kept c d \<and> cache_wf d \<and>
    (\<forall>doc rows. r = Some (doc, rows) \<longrightarrow> \<not> is_async \<and>
       (\<exists>k e. cache_normalize_sql (Some sql) 8192 = Some k \<and> enabled c \<and> stored c k = Some e \<and> \<not> expired now e \<and>
          rows = row_count e \<and> (if want_json then map_option fst (output_json e) else Some (output_document e)) = Some doc))"
proof -
  obtain k where k: "cache_normalize_sql (Some sql) 8192 = Some k" by (simp add: cache_normalize_sql_def)
  then have key: "resultset_cache_make_key (Some sql) 8192 = Some k" by (simp add: resultset_cache_make_key_def)
  obtain d r where l: "cache_lookup c (Some k) now us = (d, r)" by (cases "cache_lookup c (Some k) now us")
  have wfd: "cache_wf d" and kd: "kept c d"
    using cache_lookup_wf [OF assms, of "Some k" now us] kept_lookup [of c "Some k" now us] l by simp_all
  show ?thesis
  proof (cases "is_async")
    case True
    then have "serve_from_cache (Some c) sql is_async want_json now us = Some (Some c, None)" by (simp add: serve_from_cache_def)
    then show ?thesis using assms kept_subset [of c c] by blast
  next
    case False
    show ?thesis
    proof (cases r)
      case None
      then have "serve_from_cache (Some c) sql is_async want_json now us = Some (Some d, None)"
        using l key False by (simp add: serve_from_cache_def resultset_cache_lookup_def)
      with wfd kd show ?thesis by blast
    next
      case (Some hit)
      define f :: "cache_entry \<Rightarrow> cache_entry" where "f = (\<lambda>e. e\<lparr>in_use := True, last_access_ts := now, hit_count := hit_count e + 1\<rparr>)"
      obtain e where e: "stored c k = Some e" "enabled c" "\<not> expired now e" "hit = f e" "d = count_hit us (update_entry (addr e) f c)"
        using l Some by (auto simp: cache_lookup_def find_stored [OF assms] Let_def f_def split: option.splits if_splits)
      have "all_entries d = map (\<lambda>x. if addr x = addr e then f x else x) (all_entries c)"
        unfolding e(5) by (simp add: all_entries_def count_hit_def update_entry_def Let_def map_concat)
      then have "addr hit \<in> set (map addr (all_entries d))" using stored_Some [OF e(1)] e(4) by (force simp: f_def)
      then obtain d' where rel: "cache_release d (Some (addr hit)) = Some d'" by (simp add: cache_release_def)
      have wf': "cache_wf d'" by (rule cache_release_wf [OF wfd rel])
      have k': "kept c d'" using kd kept_release [OF rel] unfolding kept_def
        by (metis (no_types, lifting) same_payload_def)
      define doc where "doc = (if want_json then map_option fst (output_json hit) else Some (output_document hit))"
      have "serve_from_cache (Some c) sql is_async want_json now us = Some (Some d', map_option (\<lambda>t. (t, row_count hit)) doc)"
        using l key False Some rel
        by (simp add: serve_from_cache_def resultset_cache_lookup_def resultset_cache_release_def Let_def flip: doc_def)
      moreover have "row_count hit = row_count e" "doc = (if want_json then map_option fst (output_json e) else Some (output_document e))"
        by (simp_all add: doc_def e(4) f_def)
      ultimately show ?thesis using wf' k' False k e(1-3) by fastforce
    qed
  qed
qed

lemma init_create: "resultset_cache_init ini = Some (Some c) \<Longrightarrow> cache_create (resultset_cache_config ini) = Some c"
  by (auto simp: resultset_cache_init_def Let_def split: if_splits)

lemma create_empty: "cache_create cfg = Some c \<Longrightarrow> all_entries c = []"
  by (auto simp: cache_create_def all_entries_def)

lemma run_sound: "query_cache_run ini h c \<Longrightarrow> cache_wf c \<and> run_inv h c"
proof (induction rule: query_cache_run.induct)
  case (start c)
  from init_create [OF this] create_empty have "all_entries c = []" "cache_wf c" by (auto intro: cache_create_wf)
  then show ?case by (simp add: run_inv_def)
next
  case (serve h c sql is_async want_json now us d r)
  from serve.IH have wf: "cache_wf c" and inv: "run_inv h c" by simp_all
  from serve_result [OF wf, of sql is_async want_json now us] serve.hyps(2) have "kept c d" "cache_wf d" by auto
  with run_inv_kept [OF inv] show ?case by blast
next
  case (lookup h c key now us d r)
  then have "cache_wf c" "run_inv h c" by simp_all
  then show ?case using lookup.hyps(2) cache_lookup_wf [of c key now us] kept_lookup [of c key now us] run_inv_kept
    by (auto simp: resultset_cache_lookup_def split: option.splits prod.splits)
next
  case (release h c b d)
  then have wf: "cache_wf c" and inv: "run_inv h c" and r: "cache_release c b = Some d"
    by (auto simp: resultset_cache_release_def)
  from cache_release_wf [OF wf r] run_inv_kept [OF inv kept_release [OF r]] show ?case by simp
next
  case (store h c sql deps mem is_async xml json rows dup now rc d)
  from store.IH have wf: "cache_wf c" and inv: "run_inv h c" by simp_all
  define x where "x = \<lparr>sa_sql = sql, sa_xml = xml, sa_json = (case json of None \<Rightarrow> [] | Some j \<Rightarrow> j), sa_rows = rows\<rparr>"
  from store.hyps(5) have "cache_wf d \<and> run_inv (x # h) d"
  proof (cases rule: store_result_cases)
    case 1
    with wf inv show ?thesis by (auto simp: run_inv_def)
  next
    case (2 k j opts r f)
    have wfd: "cache_wf d" using cache_insert_wf [OF wf store.hyps(4), of "Some k" "Some (xml, length xml)" "Some opts" now] 2(3) by simp
    have "\<exists>y \<in> set (x # h). answer_of y e" if e: "e \<in> set (all_entries d)" for e
    proof -
      from cache_insert_entries [OF wf 2(3) e] show ?thesis
      proof
        assume "e \<in> set (all_entries c)"
        with inv show ?thesis by (auto simp: run_inv_def)
      next
        assume m: "made_of k xml opts e"
        then have "answer_of x e" using store.hyps(2,3) 2 by (simp add: answer_of_def x_def made_of_def)
        then show ?thesis by simp
      qed
    qed
    with wfd show ?thesis by (simp add: run_inv_def)
  qed
  then show ?case by (simp add: x_def)
next
  case (invalidate h c sql' now rc d)
  then have wf: "cache_wf c" and inv: "run_inv h c" by simp_all
  have "d = c \<or> (\<exists>k r. cache_expire_entry c (Some k) now = (r, d))"
    using invalidate.hyps(2) by (auto simp: resultset_cache_invalidate_def split: option.splits prod.splits)
  then have "d = c \<or> (\<exists>k. d = snd (cache_expire_entry c (Some k) now))" by (metis snd_conv)
  with wf inv cache_expire_wf kept_expire run_inv_kept show ?case by metis
next
  case (modify h c table_name now n d)
  then have wf: "cache_wf c" and inv: "run_inv h c" by simp_all
  have "d = c \<or> (\<exists>k r. cache_invalidate_by_tag c (Some k) now = (r, d))"
    using modify.hyps(2) by (auto simp: resultset_cache_invalidate_by_table_def split: option.splits prod.splits)
  then have "d = c \<or> (\<exists>k. d = snd (cache_invalidate_by_tag c (Some k) now))" by (metis snd_conv)
  with wf inv cache_invalidate_wf kept_invalidate run_inv_kept show ?case by metis
next
  case (evict h c now n d)
  then have wf: "cache_wf c" and inv: "run_inv h c" by simp_all
  have "d = snd (cache_evict_expired c now)" using evict.hyps(2) by (auto simp: resultset_cache_evict_def split: prod.splits)
  with wf inv cache_evict_wf kept_evict [OF wf] run_inv_kept show ?case by metis
qed

text \<open>A run is a run of the cache.\<close>

lemma insert_reachable:
  "cache_reachable cfg c \<Longrightarrow> fresh_mem c mem \<Longrightarrow> cache_insert c key doc opts now mem = (r, d, f) \<Longrightarrow> cache_reachable cfg d"
  by (blast intro: cache_reachable.step cache_step.insert)

lemma serve_shape:
  assumes "serve_from_cache (Some c) sql is_async want_json now us = Some (Some d, r)"
  shows "d = c \<or> (\<exists>k r'. cache_lookup c (Some k) now us = (d, r')) \<or>
    (\<exists>k m r' a. cache_lookup c (Some k) now us = (m, r') \<and> cache_release m a = Some d)"
proof (cases "is_async")
  case True
  with assms show ?thesis by (simp add: serve_from_cache_def)
next
  case False
  obtain k where k: "resultset_cache_make_key (Some sql) 8192 = Some k"
    by (simp add: cache_normalize_sql_def resultset_cache_make_key_def)
  obtain m r' where l: "cache_lookup c (Some k) now us = (m, r')" by (cases "cache_lookup c (Some k) now us")
  show ?thesis
  proof (cases r')
    case None
    with assms False k l show ?thesis by (auto simp: serve_from_cache_def resultset_cache_lookup_def)
  next
    case (Some hit)
    with assms False k l have "cache_release m (Some (addr hit)) = Some d"
      by (auto simp: serve_from_cache_def resultset_cache_lookup_def resultset_cache_release_def Let_def)
    with l show ?thesis by blast
  qed
qed

lemma run_reachable: "query_cache_run ini h c \<Longrightarrow> cache_reachable (resultset_cache_config ini) c"
proof (induction rule: query_cache_run.induct)
  case (start c)
  from cache_reachable.create [OF init_create [OF this]] show ?case .
next
  case (serve h c sql is_async want_json now us d r)
  from serve_shape [OF serve.hyps(2)] serve.IH show ?case
    by (blast intro: cache_reachable.step cache_reachable.release_own cache_step.lookup)
next
  case (lookup h c key now us d r)
  have "d = c \<or> (\<exists>k r'. cache_lookup c (Some k) now us = (d, r'))"
    using lookup.hyps(2) by (auto simp: resultset_cache_lookup_def split: option.splits prod.splits)
  with lookup.IH show ?case by (blast intro: cache_reachable.step cache_step.lookup)
next
  case (release h c b d)
  then have "cache_release c b = Some d" by (auto simp: resultset_cache_release_def)
  with release.IH show ?case by (blast intro: cache_reachable.release_own)
next
  case (store h c sql deps mem is_async xml json rows dup now rc d)
  from store.hyps(5) show ?case
  proof (cases rule: store_result_cases)
    case 1
    with store.IH show ?thesis by simp
  next
    case (2 k j opts r f)
    from insert_reachable [OF store.IH store.hyps(4) 2(3)] show ?thesis .
  qed
next
  case (invalidate h c sql' now rc d)
  have "d = c \<or> (\<exists>k r. cache_expire_entry c (Some k) now = (r, d))"
    using invalidate.hyps(2) by (auto simp: resultset_cache_invalidate_def split: option.splits prod.splits)
  with invalidate.IH show ?case by (blast intro: cache_reachable.step cache_step.expire)
next
  case (modify h c table_name now n d)
  have "d = c \<or> (\<exists>k r. cache_invalidate_by_tag c (Some k) now = (r, d))"
    using modify.hyps(2) by (auto simp: resultset_cache_invalidate_by_table_def split: option.splits prod.splits)
  with modify.IH show ?case by (blast intro: cache_reachable.step cache_step.invalidate)
next
  case (evict h c now n d)
  have "\<exists>r. cache_evict_expired c now = (r, d)" using evict.hyps(2) by (auto simp: resultset_cache_evict_def split: prod.splits)
  with evict.IH show ?case by (blast intro: cache_reachable.step cache_step.evict)
qed

subsection \<open>What is served\<close>

text \<open>
  In every state the workers reach, a lookup touches live entries only, and what it serves, document and row
  count in the format asked for, was handed to the store for a query with the same key; an asynchronous request is never
  served from the cache.
\<close>

theorem served_answer_stored:
  assumes "query_cache_run ini h c"
  shows "\<exists>d r. serve_from_cache (Some c) sql is_async want_json now us = Some (Some d, r) \<and>
    (\<forall>doc rows. r = Some (doc, rows) \<longrightarrow> \<not> is_async \<and>
       (\<exists>x \<in> set h. cache_normalize_sql (Some (sa_sql x)) 8192 = cache_normalize_sql (Some sql) 8192 \<and> rows = sa_rows x \<and>
          doc = (if want_json then sa_json x else sa_xml x)))"
proof -
  from run_sound [OF assms] have wf: "cache_wf c" and inv: "run_inv h c" by simp_all
  from serve_result [OF wf, of sql is_async want_json now us]
  obtain d r where s: "serve_from_cache (Some c) sql is_async want_json now us = Some (Some d, r)" and
    a: "\<And>doc rows. r = Some (doc, rows) \<Longrightarrow> \<not> is_async \<and>
       (\<exists>k e. cache_normalize_sql (Some sql) 8192 = Some k \<and> enabled c \<and> stored c k = Some e \<and> \<not> expired now e \<and>
          rows = row_count e \<and> (if want_json then map_option fst (output_json e) else Some (output_document e)) = Some doc)"
    by blast
  have "\<not> is_async \<and> (\<exists>x \<in> set h. cache_normalize_sql (Some (sa_sql x)) 8192 = cache_normalize_sql (Some sql) 8192 \<and>
      rows = sa_rows x \<and> doc = (if want_json then sa_json x else sa_xml x))" if r: "r = Some (doc, rows)" for doc rows
  proof -
    from a [OF r] obtain k e where e: "\<not> is_async" "cache_normalize_sql (Some sql) 8192 = Some k" "stored c k = Some e"
      "rows = row_count e" "(if want_json then map_option fst (output_json e) else Some (output_document e)) = Some doc" by blast
    from stored_Some [OF e(3)] inv obtain x where x: "x \<in> set h" "answer_of x e" "normalized_sql e = k"
      by (auto simp: run_inv_def)
    then have "cache_normalize_sql (Some (sa_sql x)) 8192 = cache_normalize_sql (Some sql) 8192" "rows = sa_rows x"
      "doc = (if want_json then sa_json x else sa_xml x)"
      using e by (auto simp: answer_of_def split: if_splits)
    with x(1) e(1) show ?thesis by blast
  qed
  with s show ?thesis by blast
qed

subsection \<open>Writes\<close>

definition tag_room :: "object_ref list \<Rightarrow> nat" where
  "tag_room objs = sum_list (map (\<lambda>t. length (obj_name t) + 1) objs)"

lemma add_tag_fits:
  assumes "obj_name t \<noteq> []" "length tag + length (obj_name t) + 1 \<le> 511 \<or> tag = [] \<and> length (obj_name t) \<le> 511"
  shows "add_tag tag t = (if tag = [] then obj_name t else tag @ '','' @ obj_name t)"
  using assms by (auto simp: add_tag_def Let_def)

lemma add_tag_extends: "\<exists>s. add_tag tag t = tag @ s"
  by (auto simp: add_tag_def Let_def)

lemma fold_tag_extends: "\<exists>s. foldl add_tag tag objs = tag @ s"
proof (induction objs arbitrary: tag)
  case (Cons t ts)
  obtain s where s: "add_tag tag t = tag @ s" using add_tag_extends by blast
  from Cons [of "tag @ s"] s show ?case by auto
qed simp

lemma tag_names:
  assumes "t \<in> set objs" "\<forall>t \<in> set objs. obj_name t \<noteq> []" "(if tag = [] then 0 else length tag + 1) + tag_room objs \<le> 512"
  shows "\<exists>a b. foldl add_tag tag objs = a @ obj_name t @ b"
  using assms
proof (induction objs arbitrary: tag)
  case (Cons u us)
  have ne: "obj_name u \<noteq> []" using Cons.prems(2) by simp
  have at: "add_tag tag u = (if tag = [] then obj_name u else tag @ '','' @ obj_name u)"
    using Cons.prems(3) by (intro add_tag_fits [OF ne]) (auto simp: tag_room_def split: if_splits)
  show ?case
  proof (cases "t = u")
    case True
    obtain s where "foldl add_tag (add_tag tag u) us = add_tag tag u @ s" using fold_tag_extends by blast
    then have "foldl add_tag tag (u # us) = (if tag = [] then [] else tag @ '','') @ obj_name t @ s"
      using at True by simp
    then show ?thesis by blast
  next
    case False
    have "(if add_tag tag u = [] then 0 else length (add_tag tag u) + 1) + tag_room us \<le> 512"
      using Cons.prems(3) ne by (auto simp: at tag_room_def split: if_splits)
    with Cons.IH [of "add_tag tag u"] Cons.prems(1,2) False show ?thesis by simp
  qed
qed simp


subsection \<open>A small run\<close>

definition small_ini :: cache_ini where
  "small_ini = \<lparr>ini_enabled = True, ini_ttl_seconds = 60, ini_max_entries = 10, ini_max_memory_mb = 1, ini_bucket_count = 1,
     ini_hash_algorithm = ''djb2''\<rparr>"

definition small_query :: query where
  "small_query = \<lparr>q_comma = '','', q_fields = [All_Columns], q_base = [\<lparr>qt_owner = None, qt_name = ''T'', qt_alias = No_Alias\<rparr>],
     q_joins = [], q_tail = None\<rparr>"

definition small_start :: cache where
  "small_start = \<lparr>buckets = [[]], bucket_count = 1, entry_count = 0, cache_hits = 0, cache_misses = 0,
     cache_evictions = 0, cache_inserts = 0, collision_count = 0, max_entries = 10, max_memory_bytes = 1048576,
     ttl_seconds = 60, enabled = True, current_memory_bytes = 0, algorithm = CACHE_HASH_DJB2, stats = stats_zero\<rparr>"

definition small_opts :: cache_opts where
  "small_opts = no_opts\<lparr>opt_tag := Some ''T'', opt_row_count := 2, opt_json := Some (''J'', 1)\<rparr>"

definition small_stored :: cache where
  "small_stored = fst (snd (cache_insert small_start (Some ''SELECT * FROM T'') (Some (''X'', 1)) (Some small_opts) 100 (Some 7)))"

lemma small_created: "resultset_cache_init small_ini = Some (Some small_start)"
proof -
  have "bucket_count_of 1 = Some 1" by (simp add: bucket_count_of_def round_pow2.simps)
  moreover have "parse_hash_algorithm (Some ''djb2'') = CACHE_HASH_DJB2" by code_simp
  ultimately show ?thesis
    by (simp add: resultset_cache_init_def resultset_cache_config_def small_ini_def small_start_def cache_create_def)
qed

lemma small_key: "cache_normalize_sql (Some ''select * from t'') 8192 = Some ''SELECT * FROM T''"
  "cache_normalize_sql (Some ''SELECT  * from T'') 8192 = Some ''SELECT * FROM T''"
  by code_simp+

lemma small_ok: "query_ok small_query" "normalise_sql ''select * from t'' NORM_SQL_MAX = Some (query_text small_query)"
  "table_tag (query_deps small_query) = ''T''" "tag_room (map table_ref (query_tables small_query)) \<le> 512"
  by code_simp+

lemma small_store:
  "\<exists>rc. store_result (Some small_start) ''select * from t'' (query_deps small_query) False ''X'' (Some ''J'') 2 True 100 (Some 7) =
     (rc, Some small_stored)"
  by (simp add: store_result_def resultset_cache_make_key_def small_key small_ok response_writer_cache_store_def
      resultset_cache_store_def small_stored_def small_opts_def Let_def split: prod.splits)

lemma small_run:
  "query_cache_run small_ini [\<lparr>sa_sql = ''select * from t'', sa_xml = ''X'', sa_json = ''J'', sa_rows = 2\<rparr>] small_stored"
proof -
  obtain rc where s: "store_result (Some small_start) ''select * from t'' (query_deps small_query) False ''X'' (Some ''J'') 2 True 100 (Some 7) =
     (rc, Some small_stored)" using small_store by blast
  have f: "fresh_mem small_start (Some 7)" using create_empty [OF init_create [OF small_created]] by (simp add: fresh_mem_def)
  from query_cache_run.store [OF query_cache_run.start [OF small_created] _ dependencies_found [OF small_ok(1,2)] f s]
  show ?thesis by simp
qed

lemma small_served:
  "\<exists>d. serve_from_cache (Some small_stored) ''SELECT  * from T'' False True 120 5 = Some (Some d, Some (''J'', 2))"
proof -
  obtain rc d f where i: "cache_insert small_start (Some ''SELECT * FROM T'') (Some (''X'', 1)) (Some small_opts) 100 (Some 7) = (rc, d, f)"
    by (metis prod_cases3)
  have wf: "cache_wf small_start" by (rule cache_create_wf [OF init_create [OF small_created]])
  have e: "all_entries small_start = []" "enabled small_start" "stored small_start k = None" for k
    by (simp_all add: small_start_def all_entries_def stored_def)
  have d: "d = small_stored" using i by (simp add: small_stored_def)
  define x where "x = alloc_entry 7 ''SELECT * FROM T'' ''X'' 1 (compute_hash (algorithm small_start) ''SELECT * FROM T'')
      (effective_ttl small_start (Some small_opts)) (Some small_opts) 100"
  have st: "enabled small_stored" "stored small_stored ''SELECT * FROM T'' = Some x"
    using cache_insert_result [OF wf e(2) _ _ i] e unfolding d x_def by auto
  have x: "expiry_ts x = 160" "output_json x = Some (''J'', 1)" "row_count x = 2"
    by (simp_all add: x_def alloc_entry_def Let_def effective_ttl_def small_opts_def no_opts_def small_start_def)
  have wfs: "cache_wf small_stored" using run_sound [OF small_run] by simp
  obtain m r where l: "cache_lookup small_stored (Some ''SELECT * FROM T'') 120 5 = (m, r)"
    by (cases "cache_lookup small_stored (Some ''SELECT * FROM T'') 120 5")
  then have r: "r = Some (x\<lparr>in_use := True, last_access_ts := 120, hit_count := hit_count x + 1\<rparr>)"
    using lookup_stored [OF wfs st(1), of "''SELECT * FROM T''" 120 5] st(2) x(1) by (simp add: expired_def)
  from serve_result [OF wfs, of "''SELECT  * from T''" False True 120 5] obtain d a where
    "serve_from_cache (Some small_stored) ''SELECT  * from T'' False True 120 5 = Some (Some d, a)" by blast
  with l r x(2,3) show ?thesis
    by (auto simp: serve_from_cache_def resultset_cache_make_key_def small_key resultset_cache_lookup_def Let_def)
qed

lemma served_answer_stored_witness:
  "\<exists>d. serve_from_cache (Some small_stored) ''SELECT  * from T'' False True 120 5 = Some (Some d, Some (''J'', 2))"
  using served_answer_stored [OF small_run, of "''SELECT  * from T''" False True 120 5] small_served by auto


subsection \<open>Limits\<close>

text \<open>The name of the table must be given as the extraction writes it: in capitals.\<close>

lemma lower_case_write_misses:
  assumes "cache_invalidate_by_tag c (Some ''emp'') now = (n, d)" "stored c k = Some e" "table_dependency_tag e = Some ''EMP''"
  shows "stored d k = Some e"
proof -
  have b: "buckets d = map (map (\<lambda>e. if tag_hit now ''emp'' e then e\<lparr>expiry_ts := past_ts now\<rparr> else e)) (buckets c)"
    using assms(1) by (auto simp: cache_invalidate_by_tag_def Let_def count_eviction_def)
  have "\<not> tag_hit now ''emp'' e" using assms(3) by (simp add: tag_hit_def cs_prefix_def)
  with stored_map [OF b] assms(2) show ?thesis by simp
qed

text \<open>Texts that agree on the first 8191 bytes of the normalised form share a key, whatever follows.\<close>

lemma long_keys_collide:
  assumes "\<forall>c \<in> set s. \<not> c_isspace c" "length s = 8191"
  shows "cache_normalize_sql (Some (s @ x)) 8192 = cache_normalize_sql (Some (s @ y)) 8192"
proof -
  have "normalize_loop (length s) sp (s @ u) = map c_toupper s" for sp u
    using assms(1)
  proof (induction s arbitrary: sp)
    case Nil
    then show ?case by (cases u) simp_all
  qed simp
  with assms(2) show ?thesis by (simp add: cache_normalize_sql_def)
qed

end
