(* ===== verification/Field_Validate.thy ===== *)
theory Field_Validate
  imports Db_Type_Class C_Parsing
begin

text \<open>
  \<^verbatim>\<open>src/execute/Insert_Validate_Module.c\<close>: one value checked against the metadata of its column. A validator
  returns the kind of failure and the message it writes; the texts of the fields fit their arrays, and no count can
  leave the range of \<^verbatim>\<open>int\<close> since a value has at most 1023 bytes. Logging is left out.
\<close>

datatype field_validation_result_t =
  FIELD_VALID | FIELD_NULL_VIOLATION | FIELD_TYPE_MISMATCH | FIELD_LENGTH_EXCEEDED | FIELD_PRECISION_EXCEEDED |
  FIELD_SCALE_EXCEEDED | FIELD_FORMAT_INVALID | FIELD_ROWID_INVALID | FIELD_HEX_INVALID | FIELD_UNKNOWN_COLUMN |
  FIELD_MISSING_REQUIRED_COLUMN

record parsed_field =
  pf_number :: int
  pf_name :: cstring
  pf_type :: cstring
  pf_length :: int
  pf_precision :: int
  pf_scale :: int
  pf_nullable :: cstring
  pf_default :: cstring
  pf_value :: cstring

type_synonym verdict = "field_validation_result_t \<times> cstring"

definition valid_field :: verdict where "valid_field = (FIELD_VALID, [])"

text \<open>\<^verbatim>\<open>"Field '%s'"\<close> and a text in quotes.\<close>

definition quoted :: "cstring \<Rightarrow> cstring" where
  "quoted s = CHR 0x27 # s @ [CHR 0x27]"

definition field_msg :: "nat \<Rightarrow> parsed_field \<Rightarrow> cstring \<Rightarrow> cstring" where
  "field_msg msg_max f s = c_snprintf msg_max (''Field '' @ quoted (pf_name f) @ s)"

subsection \<open>Type families\<close>

definition is_numeric_type :: "cstring \<Rightarrow> bool" where
  "is_numeric_type t \<longleftrightarrow> db_type_class (Some t) = DB_TYPE_CLASS_NUMERIC"

definition is_string_type :: "cstring \<Rightarrow> bool" where
  "is_string_type t \<longleftrightarrow> db_type_class (Some t) = DB_TYPE_CLASS_STRING"

definition is_lob_type :: "cstring \<Rightarrow> bool" where
  "is_lob_type t \<longleftrightarrow> db_type_lob_kind (Some t) \<noteq> DB_LOB_NONE"

definition is_date_type :: "cstring \<Rightarrow> bool" where
  "is_date_type t \<longleftrightarrow> db_type_class (Some t) = DB_TYPE_CLASS_DATE"

definition is_timestamp_type :: "cstring \<Rightarrow> bool" where
  "is_timestamp_type t \<longleftrightarrow> db_type_class (Some t) = DB_TYPE_CLASS_TIMESTAMP"

definition is_interval_ym_type :: "cstring \<Rightarrow> bool" where
  "is_interval_ym_type t \<longleftrightarrow> db_type_class (Some t) = DB_TYPE_CLASS_INTERVAL_YM"

definition is_interval_ds_type :: "cstring \<Rightarrow> bool" where
  "is_interval_ds_type t \<longleftrightarrow> db_type_class (Some t) = DB_TYPE_CLASS_INTERVAL_DS"

definition is_raw_type :: "cstring \<Rightarrow> bool" where
  "is_raw_type t \<longleftrightarrow> db_type_class (Some t) = DB_TYPE_CLASS_BINARY"

definition is_rowid_type :: "cstring \<Rightarrow> bool" where
  "is_rowid_type t \<longleftrightarrow> db_type_class (Some t) = DB_TYPE_CLASS_ROWID"

subsection \<open>Numbers\<close>

definition is_exp :: "char \<Rightarrow> bool" where
  "is_exp c \<longleftrightarrow> c = CHR ''e'' \<or> c = CHR ''E''"

definition is_sign :: "char \<Rightarrow> bool" where
  "is_sign c \<longleftrightarrow> c = CHR ''+'' \<or> c = CHR ''-''"

definition skip_sign :: "cstring \<Rightarrow> cstring" where
  "skip_sign v = (case v of [] \<Rightarrow> [] | c # s \<Rightarrow> if is_sign c then s else v)"

text \<open>The two digit loops: the offending character, or the digits counted and the rest.\<close>

fun int_digit_loop :: "cstring \<Rightarrow> nat \<Rightarrow> char + nat \<times> cstring" where
  "int_digit_loop [] n = Inr (n, [])"
| "int_digit_loop (c # p) n =
     (if c = CHR ''.'' \<or> is_exp c then Inr (n, c # p)
      else if \<not> c_isdigit c then Inl c else int_digit_loop p (n + 1))"

fun frac_digit_loop :: "cstring \<Rightarrow> nat \<Rightarrow> char + nat \<times> cstring" where
  "frac_digit_loop [] n = Inr (n, [])"
| "frac_digit_loop (c # p) n =
     (if is_exp c then Inr (n, c # p)
      else if \<not> c_isdigit c then Inl c else frac_digit_loop p (n + 1))"

text \<open>The optional exponent: \<open>None\<close> when it is malformed, else the rest behind it.\<close>

definition exponent_rest :: "cstring \<Rightarrow> cstring option" where
  "exponent_rest p =
     (case p of
        [] \<Rightarrow> Some []
      | c # s \<Rightarrow>
          if is_exp c
          then (case skip_sign s of
                  [] \<Rightarrow> None
                | d # t \<Rightarrow> if c_isdigit d then Some (dropWhile c_isdigit (d # t)) else None)
          else Some p)"

definition precision_check :: "nat \<Rightarrow> parsed_field \<Rightarrow> nat \<Rightarrow> nat \<Rightarrow> verdict" where
  "precision_check msg_max f int_digits frac_digits =
     (let prec = pf_precision f; scale = pf_scale f;
          num = ''NUMBER('' @ dec_int prec @ '','' @ dec_int scale @ '')''
      in if prec > 0 \<and> scale \<ge> 0
         then if int int_digits > prec - scale
              then (FIELD_PRECISION_EXCEEDED,
                    field_msg msg_max f ('': integer part ('' @ dec int_digits @ '' digits) exceeds '' @ num @ '' precision''))
              else if int frac_digits > scale
              then (FIELD_SCALE_EXCEEDED,
                    field_msg msg_max f ('': fractional part ('' @ dec frac_digits @ '' digits) exceeds scale '' @ dec_int scale @
                      '' of '' @ num))
              else valid_field
         else valid_field)"

definition validate_numeric :: "nat \<Rightarrow> parsed_field \<Rightarrow> verdict" where
  "validate_numeric msg_max f =
     (let p = skip_sign (pf_value f) in
      if p = []
      then (FIELD_TYPE_MISMATCH, field_msg msg_max f ('': empty value for numeric type '' @ quoted (pf_type f)))
      else
        (case int_digit_loop p 0 of
           Inl c \<Rightarrow>
             (FIELD_TYPE_MISMATCH, field_msg msg_max f ('': invalid character '' @ quoted [c] @ '' in numeric value''))
         | Inr (int_digits, q) \<Rightarrow>
             (case (case q of
                      [] \<Rightarrow> Inr (0, [])
                    | c # s \<Rightarrow> if c = CHR ''.'' then frac_digit_loop s 0 else Inr (0, q)) of
                Inl c \<Rightarrow>
                  (FIELD_TYPE_MISMATCH, field_msg msg_max f ('': invalid character '' @ quoted [c] @ '' in fractional part''))
              | Inr (frac_digits, r) \<Rightarrow>
                  (case exponent_rest r of
                     None \<Rightarrow> (FIELD_TYPE_MISMATCH, field_msg msg_max f '': malformed exponent in numeric value'')
                   | Some e \<Rightarrow>
                       if e \<noteq> []
                       then (FIELD_TYPE_MISMATCH,
                             field_msg msg_max f ('': trailing garbage '' @ quoted e @ '' in numeric value''))
                       else precision_check msg_max f int_digits frac_digits))))"

subsection \<open>Strings, dates and intervals\<close>

definition validate_string :: "nat \<Rightarrow> parsed_field \<Rightarrow> verdict" where
  "validate_string msg_max f =
     (let len = int (length (pf_value f)) in
      if pf_length f > 0 \<and> len > pf_length f
      then (FIELD_LENGTH_EXCEEDED,
            field_msg msg_max f ('': value length '' @ dec_int len @ '' exceeds '' @ pf_type f @ ''('' @ dec_int (pf_length f) @ '')''))
      else valid_field)"

definition validate_date :: "nat \<Rightarrow> parsed_field \<Rightarrow> verdict" where
  "validate_date msg_max f = valid_field"

definition validate_timestamp :: "nat \<Rightarrow> parsed_field \<Rightarrow> verdict" where
  "validate_timestamp msg_max f = valid_field"

text \<open>\<^verbatim>\<open>sscanf\<close> with \<^verbatim>\<open>%d\<close>: leading space, an optional sign, digits; and with a literal character.\<close>

definition scan_int :: "cstring \<Rightarrow> (int \<times> cstring) option" where
  "scan_int s =
     (case c_strtol s of (v, r) \<Rightarrow>
        if takeWhile c_isdigit (snd (sign_of (dropWhile c_isspace s))) = [] then None else Some (to_int v, r))"

definition scan_lit :: "char \<Rightarrow> cstring \<Rightarrow> cstring option" where
  "scan_lit c s = (case s of [] \<Rightarrow> None | x # t \<Rightarrow> if x = c then Some t else None)"

text \<open>\<^verbatim>\<open>sscanf(v, "%d-%d", ..)\<close> and \<^verbatim>\<open>sscanf(v, "%d %d:%d:%d", ..)\<close>, when all conversions succeed.\<close>

definition scan_ym :: "cstring \<Rightarrow> (int \<times> int) option" where
  "scan_ym s =
     Option.bind (scan_int s) (\<lambda>(yy, s1). Option.bind (scan_lit (CHR ''-'') s1) (\<lambda>s2.
       map_option (\<lambda>(mm, _). (yy, mm)) (scan_int s2)))"

definition scan_ds :: "cstring \<Rightarrow> (int \<times> int \<times> int \<times> int) option" where
  "scan_ds s =
     Option.bind (scan_int s) (\<lambda>(dd, s1). Option.bind (scan_int s1) (\<lambda>(hh, s2).
       Option.bind (scan_lit (CHR '':'') s2) (\<lambda>s3. Option.bind (scan_int s3) (\<lambda>(mi, s4).
         Option.bind (scan_lit (CHR '':'') s4) (\<lambda>s5. map_option (\<lambda>(ss, _). (dd, hh, mi, ss)) (scan_int s5))))))"

definition validate_interval_ym :: "nat \<Rightarrow> parsed_field \<Rightarrow> verdict" where
  "validate_interval_ym msg_max f =
     (let bad = (FIELD_FORMAT_INVALID,
                 field_msg msg_max f ('': INTERVAL YEAR TO MONTH value '' @ quoted (pf_value f) @
                   '' does not match [+/-]YY-MM (months 0-11)''))
      in case scan_ym (skip_sign (pf_value f)) of
           None \<Rightarrow> bad
         | Some (yy, mm) \<Rightarrow> if mm < 0 \<or> mm > 11 then bad else valid_field)"

definition validate_interval_ds :: "nat \<Rightarrow> parsed_field \<Rightarrow> verdict" where
  "validate_interval_ds msg_max f =
     (let bad = (FIELD_FORMAT_INVALID,
                 field_msg msg_max f ('': INTERVAL DAY TO SECOND value '' @ quoted (pf_value f) @
                   '' does not match [+/-]DD HH:MI:SS[.ffffff]''))
      in case scan_ds (skip_sign (pf_value f)) of
           None \<Rightarrow> bad
         | Some (dd, hh, mi, ss) \<Rightarrow>
             if hh < 0 \<or> hh > 23 \<or> mi < 0 \<or> mi > 59 \<or> ss < 0 \<or> ss > 59 then bad else valid_field)"

subsection \<open>RAW and ROWID\<close>

definition c_isxdigit :: "char \<Rightarrow> bool" where
  "c_isxdigit c \<longleftrightarrow> c_isdigit c \<or> (65 \<le> byte c \<and> byte c \<le> 70) \<or> (97 \<le> byte c \<and> byte c \<le> 102)"

text \<open>The first character that is not allowed, with its position.\<close>

fun first_bad :: "(char \<Rightarrow> bool) \<Rightarrow> nat \<Rightarrow> cstring \<Rightarrow> (char \<times> nat) option" where
  "first_bad ok i [] = None"
| "first_bad ok i (c # s) = (if ok c then first_bad ok (i + 1) s else Some (c, i))"

definition validate_raw :: "nat \<Rightarrow> parsed_field \<Rightarrow> verdict" where
  "validate_raw msg_max f =
     (let v = pf_value f; len = length v in
      case first_bad c_isxdigit 0 v of
        Some (c, i) \<Rightarrow>
          (FIELD_HEX_INVALID,
           field_msg msg_max f ('': RAW value contains non-hex character '' @ quoted [c] @ '' at position '' @ dec (i + 1)))
      | None \<Rightarrow>
          if pf_length f > 0 \<and> int len > pf_length f * 2
          then (FIELD_LENGTH_EXCEEDED,
                field_msg msg_max f ('': RAW hex string ('' @ dec len @ '' hex chars = '' @ dec (len div 2) @
                  '' bytes) exceeds RAW('' @ dec_int (pf_length f) @ '' BYTE)''))
          else valid_field)"

definition is_oracle_b64_char :: "char \<Rightarrow> bool" where
  "is_oracle_b64_char c \<longleftrightarrow> c_isalpha c \<or> c_isdigit c \<or> c = CHR ''+'' \<or> c = CHR ''/''"

definition validate_rowid :: "nat \<Rightarrow> parsed_field \<Rightarrow> verdict" where
  "validate_rowid msg_max f =
     (let v = pf_value f; len = length v in
      if pf_type f = ''ROWID'' \<and> len \<noteq> 18
      then (FIELD_ROWID_INVALID, field_msg msg_max f ('': ROWID must be exactly 18 characters (got '' @ dec len @ '')''))
      else
        (case first_bad is_oracle_b64_char 0 v of
           Some (c, i) \<Rightarrow>
             (FIELD_ROWID_INVALID,
              field_msg msg_max f ('': ROWID/UROWID value contains invalid character '' @ quoted [c] @ '' at position '' @
                dec (i + 1)))
         | None \<Rightarrow> valid_field))"

subsection \<open>The dispatch\<close>

definition validate_field :: "nat \<Rightarrow> parsed_field \<Rightarrow> verdict" where
  "validate_field msg_max f =
     (if pf_value f = []
      then if cs_prefix ''N'' (pf_nullable f) \<and> pf_default f = []
           then (FIELD_NULL_VIOLATION,
                 c_snprintf msg_max (''Field '' @ quoted (pf_name f) @ '' ('' @ pf_type f @
                   ''): NOT NULL column has empty insert_value and no column default''))
           else valid_field
      else if is_numeric_type (pf_type f) then validate_numeric msg_max f
      else if is_string_type (pf_type f) then validate_string msg_max f
      else if is_date_type (pf_type f) then validate_date msg_max f
      else if is_timestamp_type (pf_type f) then validate_timestamp msg_max f
      else if is_interval_ym_type (pf_type f) then validate_interval_ym msg_max f
      else if is_interval_ds_type (pf_type f) then validate_interval_ds msg_max f
      else if is_raw_type (pf_type f) then validate_raw msg_max f
      else if is_rowid_type (pf_type f) then validate_rowid msg_max f
      else valid_field)"

subsection \<open>What a number is\<close>

text \<open>The reference: sign, integer digits, optional fraction, optional exponent.\<close>

definition digits :: "cstring \<Rightarrow> bool" where
  "digits ds \<longleftrightarrow> list_all c_isdigit ds"

definition exp_text :: "(char \<times> cstring \<times> cstring) option \<Rightarrow> cstring" where
  "exp_text ex = (case ex of None \<Rightarrow> [] | Some (e, sg, ds) \<Rightarrow> e # sg @ ds)"

definition numeric_text :: "cstring \<Rightarrow> cstring \<Rightarrow> cstring option \<Rightarrow> (char \<times> cstring \<times> cstring) option \<Rightarrow> cstring" where
  "numeric_text sg ip fp ex = sg @ ip @ (case fp of None \<Rightarrow> [] | Some ds \<Rightarrow> CHR ''.'' # ds) @ exp_text ex"

definition sign_ok :: "cstring \<Rightarrow> bool" where
  "sign_ok sg \<longleftrightarrow> sg = [] \<or> (\<exists>c. sg = [c] \<and> is_sign c)"

definition exp_ok :: "(char \<times> cstring \<times> cstring) option \<Rightarrow> bool" where
  "exp_ok ex \<longleftrightarrow> (case ex of None \<Rightarrow> True | Some (e, s, ds) \<Rightarrow> is_exp e \<and> sign_ok s \<and> digits ds \<and> ds \<noteq> [])"

definition numeric_parts :: "cstring \<Rightarrow> cstring \<Rightarrow> cstring option \<Rightarrow> (char \<times> cstring \<times> cstring) option \<Rightarrow> bool" where
  "numeric_parts sg ip fp ex \<longleftrightarrow>
     sign_ok sg \<and> digits ip \<and> (case fp of None \<Rightarrow> True | Some ds \<Rightarrow> digits ds) \<and>
     exp_ok ex \<and> numeric_text [] ip fp ex \<noteq> []"

definition frac_digits_of :: "cstring option \<Rightarrow> cstring" where
  "frac_digits_of fp = (case fp of None \<Rightarrow> [] | Some ds \<Rightarrow> ds)"

lemma digit_plain: "c_isdigit c \<Longrightarrow> c \<noteq> CHR ''.'' \<and> \<not> is_exp c \<and> \<not> is_sign c"
  by (auto simp: c_isdigit_def byte_def is_exp_def is_sign_def)

lemma sign_plain: "is_sign c \<Longrightarrow> \<not> is_exp c \<and> c \<noteq> CHR ''.'' \<and> \<not> c_isdigit c"
  by (auto simp: c_isdigit_def byte_def is_exp_def is_sign_def)

lemma exp_plain: "is_exp c \<Longrightarrow> c \<noteq> CHR ''.'' \<and> \<not> c_isdigit c \<and> \<not> is_sign c"
  by (auto simp: c_isdigit_def byte_def is_exp_def is_sign_def)

lemma int_loop_digits:
  "digits ds \<Longrightarrow> r = [] \<or> hd r = CHR ''.'' \<or> is_exp (hd r) \<Longrightarrow> int_digit_loop (ds @ r) n = Inr (n + length ds, r)"
proof (induction ds arbitrary: n)
  case Nil
  then show ?case by (cases r) auto
qed (auto simp: digits_def dest: digit_plain)

lemma frac_loop_digits:
  "digits ds \<Longrightarrow> r = [] \<or> is_exp (hd r) \<Longrightarrow> frac_digit_loop (ds @ r) n = Inr (n + length ds, r)"
proof (induction ds arbitrary: n)
  case Nil
  then show ?case by (cases r) auto
qed (auto simp: digits_def dest: digit_plain)

lemma int_loop_Inr:
  "int_digit_loop p n = Inr (m, r) \<Longrightarrow>
     \<exists>ds. p = ds @ r \<and> digits ds \<and> m = n + length ds \<and> (r = [] \<or> hd r = CHR ''.'' \<or> is_exp (hd r))"
proof (induction p arbitrary: n)
  case (Cons c p)
  show ?case
  proof (cases "c = CHR ''.'' \<or> is_exp c")
    case True
    with Cons.prems show ?thesis by (intro exI [of _ "[]"]) (auto simp: digits_def)
  next
    case False
    with Cons.prems have c: "c_isdigit c" "int_digit_loop p (n + 1) = Inr (m, r)" by (auto split: if_splits)
    from Cons.IH [OF c(2)] obtain ds where "p = ds @ r" "digits ds" "m = n + 1 + length ds"
      "r = [] \<or> hd r = CHR ''.'' \<or> is_exp (hd r)" by blast
    with c(1) show ?thesis by (intro exI [of _ "c # ds"]) (simp add: digits_def)
  qed
qed (simp add: digits_def)

lemma frac_loop_Inr:
  "frac_digit_loop p n = Inr (m, r) \<Longrightarrow>
     \<exists>ds. p = ds @ r \<and> digits ds \<and> m = n + length ds \<and> (r = [] \<or> is_exp (hd r))"
proof (induction p arbitrary: n)
  case (Cons c p)
  show ?case
  proof (cases "is_exp c")
    case True
    with Cons.prems show ?thesis by (intro exI [of _ "[]"]) (auto simp: digits_def)
  next
    case False
    with Cons.prems have c: "c_isdigit c" "frac_digit_loop p (n + 1) = Inr (m, r)" by (auto split: if_splits)
    from Cons.IH [OF c(2)] obtain ds where "p = ds @ r" "digits ds" "m = n + 1 + length ds" "r = [] \<or> is_exp (hd r)" by blast
    with c(1) show ?thesis by (intro exI [of _ "c # ds"]) (simp add: digits_def)
  qed
qed (simp add: digits_def)

lemma skip_sign_text: "sign_ok sg \<Longrightarrow> r = [] \<or> \<not> is_sign (hd r) \<Longrightarrow> skip_sign (sg @ r) = r"
  by (cases r) (auto simp: sign_ok_def skip_sign_def)

lemma skip_sign_cut: "\<exists>sg. sign_ok sg \<and> v = sg @ skip_sign v"
  by (cases v) (auto simp: sign_ok_def skip_sign_def)

lemma digits_hd: "digits ds \<Longrightarrow> ds \<noteq> [] \<Longrightarrow> c_isdigit (hd ds)"
  by (cases ds) (simp_all add: digits_def)

lemma digits_drop: "digits ds \<Longrightarrow> dropWhile c_isdigit ds = []"
  by (simp add: digits_def list_all_iff)

lemma exponent_text: "exp_ok ex \<Longrightarrow> exponent_rest (exp_text ex) = Some []"
proof (cases ex)
  case (Some x)
  assume ok: "exp_ok ex"
  obtain e s ds where x: "x = (e, s, ds)" by (cases x)
  with Some ok have ok: "is_exp e" "sign_ok s" "digits ds" "ds \<noteq> []" by (simp_all add: exp_ok_def)
  have "skip_sign (s @ ds) = ds" using digits_hd [OF ok(3,4)] digit_plain by (intro skip_sign_text [OF ok(2)]) blast
  moreover obtain d t where "ds = d # t" "c_isdigit d" using ok(3,4) by (cases ds) (auto simp: digits_def)
  ultimately show ?thesis using Some x ok(1) digits_drop [OF ok(3)] by (simp add: exp_text_def exponent_rest_def)
qed (simp add: exp_text_def exponent_rest_def)

lemma exponent_inv:
  assumes "exponent_rest r = Some []" "r = [] \<or> is_exp (hd r)"
  shows "\<exists>ex. exp_ok ex \<and> r = exp_text ex"
proof (cases r)
  case Nil
  then show ?thesis by (intro exI [of _ None]) (simp add: exp_ok_def exp_text_def)
next
  case (Cons e s)
  with assms(2) have e: "is_exp e" by simp
  from Cons e assms(1) obtain d t where d: "skip_sign s = d # t" "c_isdigit d" "dropWhile c_isdigit (d # t) = []"
    by (auto simp: exponent_rest_def split: list.splits if_splits)
  obtain sg where sg: "sign_ok sg" "s = sg @ skip_sign s" using skip_sign_cut by blast
  have "digits (d # t)" using d(3) by (simp only: dropWhile_eq_Nil_conv digits_def list_all_iff)
  with e sg d Cons show ?thesis by (intro exI [of _ "Some (e, sg, d # t)"]) (simp add: exp_ok_def exp_text_def)
qed

lemma exp_text_hd: "exp_ok ex \<Longrightarrow> exp_text ex = [] \<or> is_exp (hd (exp_text ex))"
  by (cases ex) (auto simp: exp_ok_def exp_text_def)

text \<open>A numeric literal reaches the precision check with its digit counts.\<close>

lemma numeric_accepts:
  assumes "numeric_parts sg ip fp ex" "pf_value f = numeric_text sg ip fp ex"
  shows "validate_numeric msg_max f = precision_check msg_max f (length ip) (length (frac_digits_of fp))"
proof -
  from assms(1) have ok: "sign_ok sg" "digits ip" "exp_ok ex" "digits (frac_digits_of fp)"
    and ne: "numeric_text [] ip fp ex \<noteq> []"
    by (auto simp: numeric_parts_def frac_digits_of_def digits_def split: option.splits)
  define tl where "tl = (case fp of None \<Rightarrow> [] | Some ds \<Rightarrow> CHR ''.'' # ds) @ exp_text ex"
  have tl: "tl = [] \<or> hd tl = CHR ''.'' \<or> is_exp (hd tl)"
    using exp_text_hd [OF ok(3)] by (cases fp) (auto simp: tl_def)
  have t: "numeric_text [] ip fp ex = ip @ tl" by (simp add: numeric_text_def tl_def)
  have "\<not> is_sign (hd (ip @ tl))"
  proof (cases ip)
    case Nil
    with ne t tl show ?thesis by (auto dest: exp_plain simp: is_sign_def)
  next
    case (Cons d ds)
    with ok(2) show ?thesis by (auto simp: digits_def dest: digit_plain)
  qed
  then have sk: "skip_sign (pf_value f) = ip @ tl"
    using skip_sign_text [OF ok(1), of "ip @ tl"] assms(2) t by (simp add: numeric_text_def tl_def)
  have il: "int_digit_loop (ip @ tl) 0 = Inr (length ip, tl)" using int_loop_digits [OF ok(2) tl, of 0] by simp
  have fl: "(case tl of [] \<Rightarrow> Inr (0, []) | c # s \<Rightarrow> if c = CHR ''.'' then frac_digit_loop s 0 else Inr (0, tl)) =
      Inr (length (frac_digits_of fp), exp_text ex)"
  proof (cases fp)
    case None
    with exp_text_hd [OF ok(3)] show ?thesis
      by (cases "exp_text ex") (auto simp: tl_def frac_digits_of_def dest: exp_plain)
  next
    case (Some ds)
    with frac_loop_digits [OF ok(4) exp_text_hd [OF ok(3)], of 0] show ?thesis by (simp add: tl_def frac_digits_of_def)
  qed
  have ne2: "ip @ tl \<noteq> []" using ne t by simp
  show ?thesis unfolding validate_numeric_def Let_def sk if_not_P [OF ne2] il sum.case prod.case fl exponent_text [OF ok(3)] option.case
    by simp
qed

lemma numeric_rejects:
  assumes "fst (validate_numeric msg_max f) \<noteq> FIELD_TYPE_MISMATCH"
  shows "\<exists>sg ip fp ex. numeric_parts sg ip fp ex \<and> pf_value f = numeric_text sg ip fp ex"
proof -
  obtain sg where sg: "sign_ok sg" "pf_value f = sg @ skip_sign (pf_value f)" using skip_sign_cut by blast
  define p where "p = skip_sign (pf_value f)"
  note v = assms [unfolded validate_numeric_def Let_def, folded p_def]
  from v have ne: "p \<noteq> []" by (auto split: if_splits)
  with v obtain n q where i: "int_digit_loop p 0 = Inr (n, q)" by (auto split: sum.splits)
  from int_loop_Inr [OF i] obtain ip where ip: "p = ip @ q" "digits ip" "q = [] \<or> hd q = CHR ''.'' \<or> is_exp (hd q)" by blast
  obtain m r where fr: "(case q of [] \<Rightarrow> Inr (0, []) | c # s \<Rightarrow> if c = CHR ''.'' then frac_digit_loop s 0 else Inr (0, q)) =
      Inr (m, r)"
  proof (cases "(case q of [] \<Rightarrow> Inr (0, []) | c # s \<Rightarrow> if c = CHR ''.'' then frac_digit_loop s 0 else Inr (0, q))")
    case (Inl c)
    with v ne i show ?thesis by simp
  next
    case (Inr a)
    then show ?thesis using that by (cases a) blast
  qed
  from v ne have e: "exponent_rest r = Some []"
    unfolding i sum.case prod.case fr by (auto split: option.splits if_splits)
  have "\<exists>fp. q = (case fp of None \<Rightarrow> [] | Some ds \<Rightarrow> CHR ''.'' # ds) @ r \<and> (case fp of None \<Rightarrow> True | Some ds \<Rightarrow> digits ds) \<and>
      (r = [] \<or> is_exp (hd r))"
  proof (cases q)
    case Nil
    with fr show ?thesis by (intro exI [of _ None]) auto
  next
    case (Cons c s)
    show ?thesis
    proof (cases "c = CHR ''.''")
      case True
      with fr Cons have "frac_digit_loop s 0 = Inr (m, r)" by simp
      from frac_loop_Inr [OF this] obtain ds where "s = ds @ r" "digits ds" "r = [] \<or> is_exp (hd r)" by blast
      with Cons True show ?thesis by (intro exI [of _ "Some ds"]) simp
    next
      case False
      with fr Cons ip(3) show ?thesis by (intro exI [of _ None]) auto
    qed
  qed
  then obtain fp where fp: "q = (case fp of None \<Rightarrow> [] | Some ds \<Rightarrow> CHR ''.'' # ds) @ r" "case fp of None \<Rightarrow> True | Some ds \<Rightarrow> digits ds"
    "r = [] \<or> is_exp (hd r)" by blast
  from exponent_inv [OF e fp(3)] obtain ex where ex: "exp_ok ex" "r = exp_text ex" by blast
  have t: "p = numeric_text [] ip fp ex" using ip(1) fp(1) ex(2) by (simp add: numeric_text_def)
  have "numeric_parts sg ip fp ex" using sg(1) ip(2) fp(2) ex(1) ne t by (simp add: numeric_parts_def)
  moreover have "pf_value f = numeric_text sg ip fp ex" using sg(2) t by (simp add: p_def numeric_text_def)
  ultimately show ?thesis by blast
qed

lemma precision_verdict:
  "fst (precision_check msg_max f i k) =
     (if pf_precision f > 0 \<and> pf_scale f \<ge> 0 \<and> int i > pf_precision f - pf_scale f then FIELD_PRECISION_EXCEEDED
      else if pf_precision f > 0 \<and> pf_scale f \<ge> 0 \<and> int k > pf_scale f then FIELD_SCALE_EXCEEDED else FIELD_VALID)"
  by (auto simp: precision_check_def Let_def valid_field_def)

text \<open>The value of digits, and a bound on it.\<close>

lemma dec_value_append: "dec_value (a @ b) = dec_value a * 10 ^ length b + dec_value b"
proof (induction b rule: rev_induct)
  case (snoc c b)
  have "dec_value (a @ b @ [c]) = 10 * dec_value (a @ b) + (int (byte c) - 48)" by (metis append_assoc dec_value_snoc)
  with snoc show ?case by (simp add: dec_value_snoc algebra_simps)
qed (simp add: dec_value_def)

lemma dec_value_bound: "digits ds \<Longrightarrow> 0 \<le> dec_value ds \<and> dec_value ds < 10 ^ length ds"
proof (induction ds rule: rev_induct)
  case (snoc c ds)
  then have "c_isdigit c" "0 \<le> dec_value ds" "dec_value ds < 10 ^ length ds" by (simp_all add: digits_def)
  then show ?case by (simp add: dec_value_snoc c_isdigit_def)
qed (simp add: dec_value_def)

text \<open>C25. A value for a numeric column is judged by what it denotes. It is a type mismatch exactly when it is not a
  numeric literal; a literal is refused for its integer digits, else for its fraction digits, exactly when they exceed
  what NUMBER(p,s) leaves; and an accepted literal without an exponent fits the column: scaled by 10^s it is below 10^p.\<close>

theorem numeric_field_exact:
  assumes "is_numeric_type (pf_type f)" "pf_value f \<noteq> []"
  shows "(fst (validate_field n f) = FIELD_TYPE_MISMATCH \<longleftrightarrow>
      (\<nexists>sg ip fp ex. numeric_parts sg ip fp ex \<and> pf_value f = numeric_text sg ip fp ex)) \<and>
    (\<forall>sg ip fp ex. numeric_parts sg ip fp ex \<and> pf_value f = numeric_text sg ip fp ex \<longrightarrow>
       fst (validate_field n f) =
         (if pf_precision f > 0 \<and> pf_scale f \<ge> 0 \<and> int (length ip) > pf_precision f - pf_scale f then FIELD_PRECISION_EXCEEDED
          else if pf_precision f > 0 \<and> pf_scale f \<ge> 0 \<and> int (length (frac_digits_of fp)) > pf_scale f then FIELD_SCALE_EXCEEDED
          else FIELD_VALID) \<and>
       (fst (validate_field n f) = FIELD_VALID \<and> ex = None \<and> pf_precision f > 0 \<and> pf_scale f \<ge> 0 \<longrightarrow>
          dec_value (ip @ frac_digits_of fp) * 10 ^ (nat (pf_scale f) - length (frac_digits_of fp)) < 10 ^ nat (pf_precision f)))"
proof -
  have v: "validate_field n f = validate_numeric n f" using assms by (simp add: validate_field_def)
  have p: "fst (validate_field n f) =
      (if pf_precision f > 0 \<and> pf_scale f \<ge> 0 \<and> int (length ip) > pf_precision f - pf_scale f then FIELD_PRECISION_EXCEEDED
       else if pf_precision f > 0 \<and> pf_scale f \<ge> 0 \<and> int (length (frac_digits_of fp)) > pf_scale f then FIELD_SCALE_EXCEEDED
       else FIELD_VALID)"
    if "numeric_parts sg ip fp ex" "pf_value f = numeric_text sg ip fp ex" for sg ip fp ex
    unfolding v numeric_accepts [OF that] precision_verdict ..
  have b: "dec_value (ip @ frac_digits_of fp) * 10 ^ (nat (pf_scale f) - length (frac_digits_of fp)) < 10 ^ nat (pf_precision f)"
    if "numeric_parts sg ip fp ex" "pf_value f = numeric_text sg ip fp ex" "fst (validate_field n f) = FIELD_VALID"
      "pf_precision f > 0" "pf_scale f \<ge> 0" for sg ip fp ex
  proof -
    define i k where "i = length ip" and "k = length (frac_digits_of fp)"
    from p [OF that(1,2)] that(3-5) have le: "int i \<le> pf_precision f - pf_scale f" "int k \<le> pf_scale f"
      by (auto simp: i_def k_def split: if_splits)
    have "digits (ip @ frac_digits_of fp)"
      using that(1) by (auto simp: numeric_parts_def digits_def frac_digits_of_def split: option.splits)
    from dec_value_bound [OF this] have "dec_value (ip @ frac_digits_of fp) < 10 ^ (i + k)" by (simp add: i_def k_def)
    then have "dec_value (ip @ frac_digits_of fp) * 10 ^ (nat (pf_scale f) - k) < 10 ^ (i + k) * 10 ^ (nat (pf_scale f) - k)"
      by (intro mult_strict_right_mono) simp_all
    also have "\<dots> = 10 ^ (i + nat (pf_scale f))" using le(2) by (simp flip: power_add)
    also have "\<dots> \<le> (10 :: int) ^ nat (pf_precision f)" using le that(5) by (intro power_increasing) linarith+
    finally show ?thesis by (simp add: k_def)
  qed
  have m: "fst (validate_field n f) \<noteq> FIELD_TYPE_MISMATCH"
    if "numeric_parts sg ip fp ex" "pf_value f = numeric_text sg ip fp ex" for sg ip fp ex
    using p [OF that] by (simp split: if_splits)
  have r: "\<exists>sg ip fp ex. numeric_parts sg ip fp ex \<and> pf_value f = numeric_text sg ip fp ex"
    if "fst (validate_field n f) \<noteq> FIELD_TYPE_MISMATCH"
    using numeric_rejects [of n f] that unfolding v by blast
  show ?thesis using p b m r by blast
qed

definition number_field :: "cstring \<Rightarrow> parsed_field" where
  "number_field v = \<lparr>pf_number = 1, pf_name = ''AMOUNT'', pf_type = ''NUMBER'', pf_length = 22, pf_precision = 5, pf_scale = 2,
     pf_nullable = ''N'', pf_default = [], pf_value = v\<rparr>"

lemma numeric_field_exact_witness:
  "fst (validate_field 512 (number_field ''-123.45'')) = FIELD_VALID \<and>
   dec_value ''12345'' * 10 ^ (nat 2 - length ''45'') < 10 ^ nat 5"
proof -
  have t: "is_numeric_type (pf_type (number_field v))" for v by (simp add: number_field_def) code_simp
  have p: "numeric_parts ''-'' ''123'' (Some ''45'') None" by code_simp
  show ?thesis
    using numeric_field_exact [of "number_field ''-123.45''" 512, OF t] p
    by (force simp: number_field_def numeric_text_def exp_text_def frac_digits_of_def)
qed

text \<open>What the literals leave open: a lone point, and an exponent that the precision check does not count.\<close>

lemma point_accepted: "fst (validate_field 512 (number_field ''.'')) = FIELD_VALID"
  by code_simp

lemma exponent_not_counted: "fst (validate_field 512 (number_field ''1e9'')) = FIELD_VALID"
  by code_simp

text \<open>Whatever follows the numbers of an interval is ignored.\<close>

lemma interval_garbage_accepted: "scan_ym (skip_sign ''+1-2 weeks'') = Some (1, 2)"
  by (simp add: scan_ym_def scan_int_def scan_lit_def c_strtol_def skip_sign_def is_sign_def sign_of_def c_isspace_def c_isdigit_def
      byte_def dec_value_def clamp_long_def LONG_MAX_def LONG_MIN_def to_int_id)

end
