(* ===== verification/Metadata_Cache.thy ===== *)
theory Metadata_Cache
  imports Session_Cache Dml_Builder
begin

text \<open>
  \<^verbatim>\<open>src/infra/metadata_cache.c\<close>: the column metadata of a table, kept in a cache under \<^verbatim>\<open>OWNER.TABLE\<close> as a byte
  copy of the array of structs. The question to the database (\<^verbatim>\<open>get_request_metadata\<close>) is an argument: from the state
  of the database, the request and the size of the array to the code, the request as the driver leaves it, the columns
  written, and the new state. A NULL cache is \<open>None\<close>; an outer \<open>None\<close> is a write to freed memory. \<open>dup\<close>: \<^verbatim>\<open>malloc\<close>
  succeeds.
\<close>

subsection \<open>Data\<close>

record col_info = col_metadata +
  ci_length :: int
  ci_precision :: int
  ci_scale :: int
  ci_nullable :: cstring
  ci_default :: cstring
  ci_source :: cstring

record metadata_request =
  mr_table :: cstring
  mr_owner :: cstring

record metadata_result =
  was_cache_hit :: bool
  cache_lookup_us :: nat
  cache_key_hash :: "64 word"
  cache_key :: cstring

definition MAX_TABLE_COLUMNS :: nat where "MAX_TABLE_COLUMNS = 1024"

definition META_PAYLOAD_HDR_SIZE :: nat where "META_PAYLOAD_HDR_SIZE = 4"

text \<open>The bytes of an \<^verbatim>\<open>int\<close> and of a \<^verbatim>\<open>char\<close> array: little endian, and padded with NUL.\<close>

definition int_bytes :: "int \<Rightarrow> char list" where
  "int_bytes v = (let n = nat (v mod 2 ^ 32) in
     map char_of [n mod 256, n div 256 mod 256, n div 65536 mod 256, n div 16777216 mod 256])"

definition bytes_int :: "char list \<Rightarrow> int" where
  "bytes_int bs = to_int (int (byte (bs ! 0) + 256 * byte (bs ! 1) + 65536 * byte (bs ! 2) + 16777216 * byte (bs ! 3)))"

definition array_bytes :: "nat \<Rightarrow> cstring \<Rightarrow> char list" where
  "array_bytes n s = s @ replicate (n - length s) (char_of (0 :: nat))"

definition bytes_array :: "char list \<Rightarrow> cstring" where
  "bytes_array bs = takeWhile (\<lambda>c. c \<noteq> char_of (0 :: nat)) bs"

text \<open>\<^verbatim>\<open>col_metadata_t\<close> has no padding: 128 + 128 + 3 * 4 + 4 + 512 + 128 bytes.\<close>

definition SIZEOF_COL_METADATA :: nat where "SIZEOF_COL_METADATA = 912"

definition col_bytes :: "col_info \<Rightarrow> char list" where
  "col_bytes c =
     array_bytes 128 (col_name c) @ array_bytes 128 (data_type c) @ int_bytes (ci_length c) @ int_bytes (ci_precision c) @
     int_bytes (ci_scale c) @ array_bytes 4 (ci_nullable c) @ array_bytes 512 (ci_default c) @ array_bytes 128 (ci_source c)"

definition bytes_col :: "char list \<Rightarrow> col_info" where
  "bytes_col bs =
     \<lparr>col_name = bytes_array (take 128 bs), data_type = bytes_array (take 128 (drop 128 bs)),
      ci_length = bytes_int (take 4 (drop 256 bs)), ci_precision = bytes_int (take 4 (drop 260 bs)),
      ci_scale = bytes_int (take 4 (drop 264 bs)), ci_nullable = bytes_array (take 4 (drop 268 bs)),
      ci_default = bytes_array (take 512 (drop 272 bs)), ci_source = bytes_array (take 128 (drop 784 bs))\<rparr>"

subsection \<open>The wrapper\<close>

definition metadata_cache_config :: "cache_ini \<Rightarrow> cache_config" where
  "metadata_cache_config ini =
     \<lparr>cfg_bucket_count = word_of_int (if ini_bucket_count ini > 0 then ini_bucket_count ini else 512),
      cfg_max_entries = nat (if ini_max_entries ini > 0 then ini_max_entries ini else 500),
      cfg_max_memory_bytes = nat (if ini_max_memory_mb ini > 0 then ini_max_memory_mb ini else 64) * 1024 * 1024,
      cfg_ttl_seconds = (if ini_ttl_seconds ini > 0 then ini_ttl_seconds ini else 3600),
      cfg_hash_algorithm = parse_hash_algorithm (Some (ini_hash_algorithm ini)),
      cfg_enabled = ini_enabled ini\<rparr>"

definition metadata_cache_init :: "cache_ini \<Rightarrow> cache option option" where
  "metadata_cache_init ini =
     (let cfg = metadata_cache_config ini
      in if \<not> cfg_enabled cfg then Some None else map_option Some (cache_create cfg))"

definition meta_upper_copy :: "cstring \<Rightarrow> nat \<Rightarrow> cstring" where
  "meta_upper_copy src dst_max = map c_toupper (take (dst_max - 1) src)"

definition metadata_cache_make_key :: "cstring option \<Rightarrow> cstring option \<Rightarrow> nat \<Rightarrow> cstring option" where
  "metadata_cache_make_key owner table dest_max =
     (case table of
        None \<Rightarrow> None
      | Some t \<Rightarrow>
          if dest_max < 4 then None
          else
            let u_table = meta_upper_copy t 128 in
            (case owner of
               Some (c # cs) \<Rightarrow> Some (c_snprintf dest_max (meta_upper_copy (c # cs) 128 @ ''.'' @ u_table))
             | _ \<Rightarrow> Some (c_snprintf dest_max u_table)))"

definition metadata_cache_lookup ::
    "cache option \<Rightarrow> cstring option \<Rightarrow> int \<Rightarrow> nat \<Rightarrow> cache option \<times> cache_entry option" where
  "metadata_cache_lookup c key now us =
     (case (c, key) of
        (Some s, Some k) \<Rightarrow> (case cache_lookup s (Some k) now us of (d, r) \<Rightarrow> (Some d, r))
      | _ \<Rightarrow> (c, None))"

definition metadata_cache_release :: "cache option \<Rightarrow> nat option \<Rightarrow> cache option option" where
  "metadata_cache_release c entry =
     (case c of None \<Rightarrow> Some None | Some s \<Rightarrow> map_option Some (cache_release s entry))"

definition metadata_cache_invalidate :: "cache option \<Rightarrow> cstring option \<Rightarrow> cstring option \<Rightarrow> int \<Rightarrow> int \<times> cache option" where
  "metadata_cache_invalidate c owner table now =
     (case (c, table) of
        (Some s, Some _) \<Rightarrow>
          (case metadata_cache_make_key owner table 260 of
             None \<Rightarrow> (-1, c)
           | Some key \<Rightarrow> (case cache_expire_entry s (Some key) now of (rc, d) \<Rightarrow> (rc, Some d)))
      | _ \<Rightarrow> (-1, c))"

definition metadata_cache_evict :: "cache option \<Rightarrow> int \<Rightarrow> int \<times> cache option" where
  "metadata_cache_evict c now =
     (case c of None \<Rightarrow> (-1, None) | Some s \<Rightarrow> (case cache_evict_expired s now of (n, d) \<Rightarrow> (n, Some d)))"

definition metadata_payload :: "col_info list \<Rightarrow> char list" where
  "metadata_payload cols = int_bytes (int (length cols)) @ concat (map col_bytes cols)"

definition metadata_cache_store ::
    "cache option \<Rightarrow> cstring option \<Rightarrow> col_info list \<Rightarrow> bool \<Rightarrow> int \<Rightarrow> nat option \<Rightarrow> int \<times> cache option" where
  "metadata_cache_store c key cols dup now mem =
     (case (c, key) of
        (Some s, Some k) \<Rightarrow>
          if cols = [] \<or> \<not> dup then (-1, c)
          else
            (case cache_insert s (Some k)
                (Some (metadata_payload cols, META_PAYLOAD_HDR_SIZE + length cols * SIZEOF_COL_METADATA)) None now mem of
               (rc, d, _) \<Rightarrow> (rc, Some d))
      | _ \<Rightarrow> (-1, c))"

fun read_cols :: "nat \<Rightarrow> char list \<Rightarrow> col_info list" where
  "read_cols 0 bs = []"
| "read_cols (Suc n) bs = bytes_col (take SIZEOF_COL_METADATA bs) # read_cols n (drop SIZEOF_COL_METADATA bs)"

definition metadata_cache_deserialise :: "cache_entry \<Rightarrow> nat \<Rightarrow> col_info list option" where
  "metadata_cache_deserialise entry max_cols =
     (let payload = output_document entry; payload_len = output_length entry in
      if max_cols = 0 \<or> payload_len < META_PAYLOAD_HDR_SIZE then None
      else
        let stored_count = bytes_int (take META_PAYLOAD_HDR_SIZE payload) in
        if stored_count \<le> 0 \<or> stored_count > int max_cols then None
        else if payload_len < META_PAYLOAD_HDR_SIZE + nat stored_count * SIZEOF_COL_METADATA then None
        else Some (read_cols (nat stored_count) (drop META_PAYLOAD_HDR_SIZE payload)))"

text \<open>The columns are those the caller finds in its array when the code is 0.\<close>

type_synonym 'd fetcher = "'d \<Rightarrow> metadata_request \<Rightarrow> nat \<Rightarrow> (int \<times> metadata_request \<times> col_info list) \<times> 'd"

type_synonym 'd fetch_answer = "(int \<times> metadata_request \<times> col_info list \<times> metadata_result) \<times> cache option \<times> 'd"

definition metadata_cache_get_or_fetch ::
    "'d fetcher \<Rightarrow> cache option \<Rightarrow> 'd \<Rightarrow> metadata_request \<Rightarrow> nat \<Rightarrow> int \<Rightarrow> nat \<Rightarrow> int \<Rightarrow> bool \<Rightarrow> nat option \<Rightarrow>
     'd fetch_answer option" where
  "metadata_cache_get_or_fetch fetch cache db req max_cols now us now' dup mem =
     (let res = \<lparr>was_cache_hit = False, cache_lookup_us = 0, cache_key_hash = 0, cache_key = []\<rparr>;
          ask = (\<lambda>res c. case fetch db req max_cols of ((rc, req', cols), db') \<Rightarrow> ((rc, req', cols, res), c, db'))
      in if max_cols = 0 then Some ((-1, req, [], res), cache, db)
         else
           (case (cache, metadata_cache_make_key (Some (mr_owner req)) (Some (mr_table req)) 260) of
              (Some c, Some key) \<Rightarrow>
                let res1 = res\<lparr>cache_key_hash := cache_hash_string c (Some key), cache_key := c_strncpy 260 key,
                               cache_lookup_us := us\<rparr> in
                (case metadata_cache_lookup (Some c) (Some key) now us of
                   (d, Some hit) \<Rightarrow>
                     (case metadata_cache_release d (Some (addr hit)) of
                        None \<Rightarrow> None
                      | Some e \<Rightarrow>
                          (case metadata_cache_deserialise hit max_cols of
                             Some cols \<Rightarrow> Some ((0, req, cols, res1\<lparr>was_cache_hit := True\<rparr>), e, db)
                           | None \<Rightarrow> Some (ask res1 (snd (metadata_cache_invalidate e (Some (mr_owner req)) (Some (mr_table req)) now')))))
                 | (d, None) \<Rightarrow>
                     (case ask res1 d of
                        ((rc, req', cols, r), d', db') \<Rightarrow>
                          if rc \<noteq> 0 then Some ((rc, req', cols, r), d', db')
                          else Some ((0, req', cols, r), snd (metadata_cache_store d' (Some key) cols dup now' mem), db')))
            | _ \<Rightarrow> Some (ask res cache)))"

subsection \<open>The copy is exact\<close>

text \<open>What the C types guarantee.\<close>

definition text_fits :: "nat \<Rightarrow> cstring \<Rightarrow> bool" where
  "text_fits n s \<longleftrightarrow> length s < n \<and> char_of (0 :: nat) \<notin> set s"

definition int_fits :: "int \<Rightarrow> bool" where
  "int_fits v \<longleftrightarrow> - (2 ^ 31) \<le> v \<and> v < 2 ^ 31"

definition col_fits :: "col_info \<Rightarrow> bool" where
  "col_fits c \<longleftrightarrow> text_fits 128 (col_name c) \<and> text_fits 128 (data_type c) \<and> int_fits (ci_length c) \<and> int_fits (ci_precision c) \<and>
     int_fits (ci_scale c) \<and> text_fits 4 (ci_nullable c) \<and> text_fits 512 (ci_default c) \<and> text_fits 128 (ci_source c)"

lemma int_bytes_length [simp]: "length (int_bytes v) = 4"
  by (simp add: int_bytes_def Let_def)

lemma array_bytes_length: "text_fits n s \<Longrightarrow> length (array_bytes n s) = n"
  by (simp add: array_bytes_def text_fits_def)

lemma bytes_int_bytes: "int_fits v \<Longrightarrow> bytes_int (int_bytes v) = v"
proof -
  assume v: "int_fits v"
  define n where "n = nat (v mod 2 ^ 32)"
  have n: "n < 2 ^ 32" by (simp add: n_def nat_less_iff)
  have "n mod 256 + 256 * (n div 256 mod 256) + 65536 * (n div 65536 mod 256) + 16777216 * (n div 16777216 mod 256) = n"
  proof -
    have a: "n div 65536 = n div 256 div 256" "n div 16777216 = n div 256 div 256 div 256" by (simp_all flip: div_mult2_eq)
    have "n div 256 div 256 div 256 < 256" using n by (simp flip: div_mult2_eq)
    then have "n div 256 div 256 div 256 mod 256 = n div 256 div 256 div 256" by simp
    then show ?thesis unfolding a using mod_mult_div_eq [of n 256] mod_mult_div_eq [of "n div 256" 256]
        mod_mult_div_eq [of "n div 256 div 256" 256] by linarith
  qed
  moreover have "bytes_int (int_bytes v) = to_int (int (n mod 256 + 256 * (n div 256 mod 256) + 65536 * (n div 65536 mod 256) +
      16777216 * (n div 16777216 mod 256)))"
    unfolding bytes_int_def int_bytes_def Let_def n_def [symmetric] by simp
  ultimately have "bytes_int (int_bytes v) = to_int (int n)" by (simp only:)
  also have "\<dots> = to_int v"
  proof -
    have "(word_of_int (int n) :: 32 word) = word_of_int v"
      by (simp add: n_def word_of_int_eq_iff take_bit_eq_mod)
    then show ?thesis by (simp add: to_int_def)
  qed
  finally show ?thesis using v by (simp add: to_int_id int_fits_def)
qed

lemma bytes_array_bytes: "text_fits n s \<Longrightarrow> bytes_array (array_bytes n s) = s"
proof -
  assume f: "text_fits n s"
  then obtain k where "n - length s = Suc k" by (cases "n - length s") (auto simp: text_fits_def)
  with f show ?thesis by (simp add: bytes_array_def array_bytes_def text_fits_def takeWhile_append takeWhile_eq_Nil_iff)
qed

lemma drop_array: "text_fits n s \<Longrightarrow> take n (array_bytes n s @ r) = array_bytes n s \<and> drop n (array_bytes n s @ r) = r"
  by (simp add: array_bytes_length)

lemma col_bytes_length: "col_fits c \<Longrightarrow> length (col_bytes c) = SIZEOF_COL_METADATA"
  by (simp add: col_bytes_def col_fits_def array_bytes_length SIZEOF_COL_METADATA_def)

lemma take_part: "length a = n \<Longrightarrow> length b = m \<Longrightarrow> take m (drop n (a @ b @ r)) = b"
  by simp

lemma bytes_col_bytes: "col_fits c \<Longrightarrow> bytes_col (col_bytes c) = c"
proof -
  assume f: "col_fits c"
  note len = array_bytes_length int_bytes_length
  let ?a = "array_bytes 128 (col_name c)" and ?b = "array_bytes 128 (data_type c)" and ?l = "int_bytes (ci_length c)"
  let ?p = "int_bytes (ci_precision c)" and ?s = "int_bytes (ci_scale c)" and ?n = "array_bytes 4 (ci_nullable c)"
  let ?d = "array_bytes 512 (ci_default c)" and ?t = "array_bytes 128 (ci_source c)"
  have l: "length ?a = 128" "length ?b = 128" "length ?l = 4" "length ?p = 4" "length ?s = 4" "length ?n = 4" "length ?d = 512"
    "length ?t = 128" using f by (simp_all add: col_fits_def len)
  have parts: "take 128 (col_bytes c) = ?a" "take 128 (drop 128 (col_bytes c)) = ?b" "take 4 (drop 256 (col_bytes c)) = ?l"
    "take 4 (drop 260 (col_bytes c)) = ?p" "take 4 (drop 264 (col_bytes c)) = ?s" "take 4 (drop 268 (col_bytes c)) = ?n"
    "take 512 (drop 272 (col_bytes c)) = ?d" "take 128 (drop 784 (col_bytes c)) = ?t"
    using l by (simp_all add: col_bytes_def)
  show ?thesis unfolding bytes_col_def parts using f
    by (simp add: col_fits_def bytes_array_bytes [where n = 128] bytes_array_bytes [where n = 4] bytes_array_bytes [where n = 512]
        bytes_int_bytes)
qed

lemma read_cols_bytes: "\<forall>c \<in> set cols. col_fits c \<Longrightarrow> read_cols (length cols) (concat (map col_bytes cols)) = cols"
  by (induction cols) (simp_all add: col_bytes_length bytes_col_bytes)

lemma payload_length:
  "\<forall>c \<in> set cols. col_fits c \<Longrightarrow> length (metadata_payload cols) = META_PAYLOAD_HDR_SIZE + length cols * SIZEOF_COL_METADATA"
proof -
  have "\<forall>c \<in> set cols. col_fits c \<Longrightarrow> length (concat (map col_bytes cols)) = length cols * SIZEOF_COL_METADATA"
    by (induction cols) (simp_all add: col_bytes_length)
  then show "\<forall>c \<in> set cols. col_fits c \<Longrightarrow> ?thesis" by (simp add: metadata_payload_def META_PAYLOAD_HDR_SIZE_def)
qed

lemma deserialise_payload:
  assumes "\<forall>c \<in> set cols. col_fits c" "cols \<noteq> []" "length cols < 2 ^ 31"
    and "output_document e = metadata_payload cols" "output_length e = META_PAYLOAD_HDR_SIZE + length cols * SIZEOF_COL_METADATA"
  shows "metadata_cache_deserialise e max_cols = (if length cols \<le> max_cols then Some cols else None)"
proof -
  have c: "bytes_int (take META_PAYLOAD_HDR_SIZE (metadata_payload cols)) = int (length cols)"
    using bytes_int_bytes [of "int (length cols)"] assms(3)
    by (simp add: metadata_payload_def META_PAYLOAD_HDR_SIZE_def int_fits_def)
  have d: "drop META_PAYLOAD_HDR_SIZE (metadata_payload cols) = concat (map col_bytes cols)"
    by (simp add: metadata_payload_def META_PAYLOAD_HDR_SIZE_def)
  show ?thesis unfolding metadata_cache_deserialise_def Let_def assms(4,5) c d
    using read_cols_bytes [OF assms(1)] assms(2) by auto
qed

subsection \<open>The second question is answered from the cache\<close>

lemma meta_key: "\<exists>k. metadata_cache_make_key (Some ow) (Some t) 260 = Some k"
  by (simp add: metadata_cache_make_key_def Let_def split: list.splits)

text \<open>C24. The second question is answered from the cache. When no live entry is stored, the driver is asked once and the
  caller gets its answer; from then on, until the time to live has passed, a caller whose array is as large gets exactly the
  same columns, every field of them, without the database being asked (and without the owner being filled in), and no
  call touches a freed entry.\<close>

theorem metadata_answered_from_cache:
  assumes "cache_reachable cfg c" "enabled c" "0 < ttl_seconds c"
    and "metadata_cache_make_key (Some (mr_owner req)) (Some (mr_table req)) 260 = Some k"
    and "\<forall>e. stored c k = Some e \<longrightarrow> expired now e \<and> \<not> in_use e" "a \<notin> addr ` set (all_entries c)"
    and "fetch db req max_cols = ((0, req', cols), db')" "cols \<noteq> []" "length cols \<le> max_cols" "max_cols < 2 ^ 31"
    and "\<forall>col \<in> set cols. col_fits col"
  shows "\<exists>d res. metadata_cache_get_or_fetch fetch (Some c) db req max_cols now us now' True (Some a) =
      Some ((0, req', cols, res), Some d, db') \<and> \<not> was_cache_hit res \<and>
    (\<forall>later fetch' db2 t u dup mem. later < now' + ttl_seconds c \<longrightarrow>
      (\<exists>e res2. metadata_cache_get_or_fetch fetch' (Some d) db2 req max_cols later t u dup mem =
         Some ((0, req, cols, res2), Some e, db2) \<and> was_cache_hit res2))"
proof -
  note wf = cache_reachable_wf [OF assms(1)]
  have m: "0 < max_cols" using assms(8,9) by (cases cols) auto
  obtain d0 r where l: "cache_lookup c (Some k) now us = (d0, r)" by (cases "cache_lookup c (Some k) now us")
  have look: "r = None" "d0 = count_miss c"
    using l assms(2,5) by (auto simp: cache_lookup_def find_stored [OF wf] Let_def split: option.splits if_splits)
  have wf0: "cache_wf d0" using wf look(2) by simp
  have same: "stored d0 k = stored c k" "enabled d0 = enabled c" "all_entries d0 = all_entries c" "ttl_seconds d0 = ttl_seconds c"
    "algorithm d0 = algorithm c" using look(2) by (simp_all add: count_miss_def stored_def all_entries_def)
  define n where "n = META_PAYLOAD_HDR_SIZE + length cols * SIZEOF_COL_METADATA"
  obtain rc d f where i: "cache_insert d0 (Some k) (Some (metadata_payload cols, n)) None now' (Some a) = (rc, d, f)"
    by (metis prod_cases3)
  have ins: "rc = 0 \<and> f = Doc_Owned \<and> enabled d \<and>
      stored d k = Some (alloc_entry a k (metadata_payload cols) n (compute_hash (algorithm d0) k) (effective_ttl d0 None) None now') \<and>
      (\<forall>e \<in> set (all_entries d0). normalized_sql e \<noteq> k \<and> (pinned e \<or> in_use e) \<longrightarrow> e \<in> set (all_entries d))"
    using assms(2,5,6) same by (intro cache_insert_result [OF wf0 _ _ _ i]) auto
  have wfd: "cache_wf d" using cache_insert_wf [OF wf0, of "Some a" "Some k" "Some (metadata_payload cols, n)" None now'] assms(6) same i
    by (simp add: fresh_mem_def)
  define x where "x = alloc_entry a k (metadata_payload cols) n (compute_hash (algorithm d0) k) (effective_ttl d0 None) None now'"
  have st: "enabled d" "stored d k = Some x" using ins by (simp_all add: x_def)
  have ttl: "effective_ttl d0 None = ttl_seconds c" using same by (simp add: effective_ttl_def)
  have first: "\<exists>res. metadata_cache_get_or_fetch fetch (Some c) db req max_cols now us now' True (Some a) =
      Some ((0, req', cols, res), Some d, db') \<and> \<not> was_cache_hit res"
    using m assms(4,7,8) l look i
    by (simp add: metadata_cache_get_or_fetch_def Let_def metadata_cache_lookup_def metadata_cache_store_def flip: n_def)
  have "\<exists>e res2. metadata_cache_get_or_fetch fetch' (Some d) db2 req max_cols later t u dup mem =
         Some ((0, req, cols, res2), Some e, db2) \<and> was_cache_hit res2" if later: "later < now' + ttl_seconds c" for later fetch' db2 t u dup mem
  proof -
    define g :: "cache_entry \<Rightarrow> cache_entry" where "g = (\<lambda>e. e\<lparr>in_use := True, last_access_ts := later, hit_count := hit_count e + 1\<rparr>)"
    have ex: "\<not> expired later x" using later assms(3) by (simp add: x_def ttl expired_def)
    have lk: "cache_lookup d (Some k) later t = (count_hit t (update_entry (addr x) g d), Some (g x))"
      using st ex by (simp add: cache_lookup_def find_stored [OF wfd] Let_def g_def)
    have mem: "addr (g x) \<in> set (map addr (all_entries (count_hit t (update_entry (addr x) g d))))"
      using stored_Some [OF st(2)]
      by (force simp: all_entries_def count_hit_def update_entry_def Let_def map_concat g_def)
    have de: "metadata_cache_deserialise (g x) max_cols = Some cols"
      using deserialise_payload [OF assms(11,8), of "g x" max_cols] assms(9,10) by (simp add: g_def x_def n_def)
    show ?thesis using m assms(4) lk mem de
      by (simp add: metadata_cache_get_or_fetch_def Let_def metadata_cache_lookup_def metadata_cache_release_def cache_release_def)
  qed
  with first show ?thesis by blast
qed

definition test_column :: col_info where
  "test_column = \<lparr>col_name = ''ID'', data_type = ''NUMBER'', ci_length = 22, ci_precision = 10, ci_scale = -1,
     ci_nullable = ''N'', ci_default = [], ci_source = []\<rparr>"

definition test_fetch :: "nat fetcher" where
  "test_fetch db req n = ((0, req\<lparr>mr_owner := ''HR''\<rparr>, [test_column]), db + 1)"

lemma metadata_answered_from_cache_witness:
  "\<exists>d res res2 e. metadata_cache_get_or_fetch test_fetch (Some tiny) 0 \<lparr>mr_table = ''emp'', mr_owner = []\<rparr> 8 100 3 101 True (Some 7) =
      Some ((0, \<lparr>mr_table = ''emp'', mr_owner = ''HR''\<rparr>, [test_column], res), Some d, 1) \<and>
    metadata_cache_get_or_fetch test_fetch (Some d) 1 \<lparr>mr_table = ''emp'', mr_owner = []\<rparr> 8 160 3 160 True None =
      Some ((0, \<lparr>mr_table = ''emp'', mr_owner = []\<rparr>, [test_column], res2), Some e, 1)"
proof -
  have k: "metadata_cache_make_key (Some (mr_owner \<lparr>mr_table = ''emp'', mr_owner = []\<rparr>))
      (Some (mr_table \<lparr>mr_table = ''emp'', mr_owner = []\<rparr>)) 260 = Some ''EMP''" by code_simp
  have t: "enabled tiny" "ttl_seconds tiny = 60" "stored tiny kk = None" "all_entries tiny = []" for kk
    by (simp_all add: tiny_def stored_def all_entries_def)
  have f: "test_fetch 0 \<lparr>mr_table = ''emp'', mr_owner = []\<rparr> 8 = ((0, \<lparr>mr_table = ''emp'', mr_owner = ''HR''\<rparr>, [test_column]), 1)"
    by (simp add: test_fetch_def)
  have "col_fits test_column" by code_simp
  then have c: "\<forall>col \<in> set [test_column]. col_fits col" by simp
  have h: "0 < ttl_seconds tiny" "\<forall>e. stored tiny ''EMP'' = Some e \<longrightarrow> expired 100 e \<and> \<not> in_use e"
    "7 \<notin> addr ` set (all_entries tiny)" "[test_column] \<noteq> []" "length [test_column] \<le> 8" "(8 :: nat) < 2 ^ 31"
    using t by simp_all
  have l: "160 < 101 + ttl_seconds tiny" using t(2) by simp
  note T = metadata_answered_from_cache [where cfg = tiny_config and c = tiny and fetch = test_fetch and db = 0 and db' = 1
      and req = "\<lparr>mr_table = ''emp'', mr_owner = []\<rparr>" and req' = "\<lparr>mr_table = ''emp'', mr_owner = ''HR''\<rparr>"
      and cols = "[test_column]" and max_cols = 8 and k = "''EMP''" and a = 7 and now = 100 and us = 3 and now' = 101]
  have "\<exists>d res. metadata_cache_get_or_fetch test_fetch (Some tiny) 0 \<lparr>mr_table = ''emp'', mr_owner = []\<rparr> 8 100 3 101 True (Some 7) =
        Some ((0, \<lparr>mr_table = ''emp'', mr_owner = ''HR''\<rparr>, [test_column], res), Some d, 1) \<and> \<not> was_cache_hit res \<and>
      (\<forall>later (fetch' :: nat fetcher) db2 t u dup mem. later < 101 + ttl_seconds tiny \<longrightarrow>
      (\<exists>e res2. metadata_cache_get_or_fetch fetch' (Some d) db2 \<lparr>mr_table = ''emp'', mr_owner = []\<rparr> 8 later t u dup mem =
         Some ((0, \<lparr>mr_table = ''emp'', mr_owner = []\<rparr>, [test_column], res2), Some e, db2) \<and> was_cache_hit res2))"
    by (rule T [OF tiny_reachable t(1) h(1) k h(2,3) f h(4-6) c])
  with l show ?thesis by blast
qed

end
