(* ===== verification/Level2_Dml.thy ===== *)
theory Level2_Dml
  imports Field_Validate Metadata_Cache Date_Normalize
begin

text \<open>
  The second level of validation for INSERT, UPDATE and DELETE (\<^verbatim>\<open>src/core/level 2/Level2_Parser.c\<close>) and the requests it
  works on (\<^verbatim>\<open>Request_Response_Types.h\<close> and the headers of the three modules). The columns come from the metadata cache.
  Values are rewritten in place, so a validator returns the request with its answer. The counts of the arrays are the
  lengths of the lists; every \<^verbatim>\<open>char\<close> array is a text that fits it. Logging is left out.
\<close>

subsection \<open>Requests\<close>

record field_value =
  fv_name :: cstring
  fv_value :: cstring
  fv_large :: "cstring option"
  fv_format :: cstring

record where_key =
  wk_name :: cstring
  wk_value :: cstring
  wk_format :: cstring

type_synonym insert_row = "field_value list"

record insert_request =
  ir_table :: cstring
  ir_owner :: cstring
  ir_rows :: "insert_row list"

record update_request =
  ur_table :: cstring
  ur_owner :: cstring
  ur_keys :: "where_key list"
  ur_fields :: "field_value list"

record delete_request =
  dr_table :: cstring
  dr_owner :: cstring
  dr_keys :: "where_key list"

record operation_status =
  status_code :: int
  error_code :: cstring
  error_text :: cstring

definition field_value_get :: "field_value \<Rightarrow> cstring" where
  "field_value_get fv = (case fv_large fv of None \<Rightarrow> fv_value fv | Some s \<Rightarrow> s)"

definition LEVEL2_OK :: int where "LEVEL2_OK = 0"
definition LEVEL2_ERR_INVALID_ARG :: int where "LEVEL2_ERR_INVALID_ARG = -1"
definition LEVEL2_ERR_ROW_COUNT_EXCEEDED :: int where "LEVEL2_ERR_ROW_COUNT_EXCEEDED = -6"
definition LEVEL2_ERR_METADATA_LOOKUP :: int where "LEVEL2_ERR_METADATA_LOOKUP = -7"
definition LEVEL2_ERR_FIELD_INVALID :: int where "LEVEL2_ERR_FIELD_INVALID = -8"

lemmas level2_codes = LEVEL2_OK_def LEVEL2_ERR_INVALID_ARG_def LEVEL2_ERR_ROW_COUNT_EXCEEDED_def LEVEL2_ERR_METADATA_LOOKUP_def
  LEVEL2_ERR_FIELD_INVALID_def

definition set_error :: "int \<Rightarrow> cstring \<Rightarrow> cstring \<Rightarrow> operation_status" where
  "set_error code err_code err_text =
     \<lparr>status_code = code, error_code = c_strncpy 64 err_code, error_text = c_strncpy 256 err_text\<rparr>"

definition set_ok :: operation_status where
  "set_ok = \<lparr>status_code = 0, error_code = c_strncpy 64 ''-'', error_text = c_strncpy 256 ''-''\<rparr>"

text \<open>\<^verbatim>\<open>set_error(..); return ..;\<close>: the code returned and the status set.\<close>

definition refuse :: "int \<Rightarrow> cstring \<Rightarrow> cstring \<Rightarrow> int \<times> operation_status" where
  "refuse code err_code why =
     (code, set_error code err_code (''Request aborted. Level 2 validation failed - '' @ why))"

subsection \<open>Columns and fields\<close>

fun find_column :: "col_info list \<Rightarrow> cstring \<Rightarrow> col_info option" where
  "find_column [] name = None"
| "find_column (c # cols) name = (if ci_eq (col_name c) name then Some c else find_column cols name)"

definition row_has_field :: "insert_row \<Rightarrow> cstring \<Rightarrow> bool" where
  "row_has_field row name \<longleftrightarrow> (\<exists>fv \<in> set row. ci_eq (fv_name fv) name)"

definition row_field_sets_match :: "insert_row \<Rightarrow> insert_row \<Rightarrow> bool" where
  "row_field_sets_match reference row \<longleftrightarrow>
     length reference = length row \<and>
     (\<forall>r \<in> set reference. \<exists>fv \<in> set row. ci_eq (fv_name r) (fv_name fv))"

text \<open>
  The date check: the message when it fails, else the value and the mask as they are afterwards. \<open>today\<close> is the year and
  the month that \<open>date_normalize\<close> reads from the clock.
\<close>

definition normalize_client_date_value ::
    "cstring \<Rightarrow> cstring \<Rightarrow> cstring \<Rightarrow> nat \<Rightarrow> nat \<Rightarrow> int \<times> nat \<Rightarrow> cstring + cstring \<times> cstring" where
  "normalize_client_date_value real_type fmt v value_max err_max today =
     (let cls = db_type_class (Some real_type);
          is_timestamp = cls = DB_TYPE_CLASS_TIMESTAMP;
          is_date = cls = DB_TYPE_CLASS_DATE
      in if \<not> is_date \<and> \<not> is_timestamp then Inr (v, fmt)
         else if v = [] then Inr (v, fmt)
         else
           let has_fmt = fmt \<noteq> [];
               source_fmt = (if has_fmt then fmt else if is_timestamp then DATE_CANONICAL_MASK_TS else DATE_CANONICAL_MASK)
           in (case date_normalize (Some v) (if has_fmt then Some fmt else None) is_timestamp True DATE_NORMALIZE_OUT_MAX 256
                     (fst today) (snd today) of
                 (rc, normalized, reason) \<Rightarrow>
                   if rc = DATE_NORM_BAD_MASK
                   then Inl (c_snprintf err_max (''Invalid date: unsupported client_date_format='' @ quoted source_fmt @
                          '' ('' @ reason @ '')''))
                   else if rc \<noteq> DATE_NORM_OK
                   then Inl (c_snprintf err_max (''Invalid date: value='' @ quoted (take 80 v) @ '' does not match '' @
                          (if has_fmt then ''client_date_format'' else ''nls_date_format'') @ ''='' @ quoted source_fmt @
                          '' ('' @ reason @ '')''))
                   else Inr (c_strncpy value_max (the normalized), [])))"

text \<open>The value and its column as \<open>validate_field\<close> sees them, each text cut to its array.\<close>

definition parsed_field_of :: "nat \<Rightarrow> field_value \<Rightarrow> col_info \<Rightarrow> parsed_field" where
  "parsed_field_of n fv col =
     \<lparr>pf_number = int n, pf_name = take 127 (fv_name fv), pf_type = take 127 (data_type col), pf_length = ci_length col,
      pf_precision = ci_precision col, pf_scale = ci_scale col, pf_nullable = take 3 (ci_nullable col),
      pf_default = take 511 (ci_default col), pf_value = take 1023 (field_value_get fv)\<rparr>"

text \<open>
  One field of an INSERT row or of a SET clause; \<open>lead\<close> is what the caller puts before the name, \<open>wrap\<close> what it makes of
  the message of \<open>validate_field\<close>. Answer: the field as it is afterwards, and the message when it fails.
\<close>

definition check_field ::
    "cstring \<Rightarrow> (cstring \<Rightarrow> cstring) \<Rightarrow> cstring \<Rightarrow> cstring \<Rightarrow> col_info list \<Rightarrow> int \<times> nat \<Rightarrow> nat \<Rightarrow> field_value \<Rightarrow>
     field_value \<times> cstring option" where
  "check_field lead wrap owner table cols today n fv =
     (case find_column cols (fv_name fv) of
        None \<Rightarrow> (fv, Some (c_snprintf 512 (lead @ quoted (fv_name fv) @ '': no such column on '' @ owner @ ''.'' @ table)))
      | Some col \<Rightarrow>
          (case normalize_client_date_value (data_type col) (fv_format fv) (fv_value fv) 4096 512 today of
             Inl e \<Rightarrow> (fv, Some (c_snprintf 512 (lead @ quoted (fv_name fv) @ '': '' @ e)))
           | Inr (v, fmt) \<Rightarrow>
               let fv' = fv\<lparr>fv_value := v, fv_format := fmt\<rparr> in
               (case validate_field 512 (parsed_field_of n fv' col) of
                  (res, msg) \<Rightarrow> (fv', if res = FIELD_VALID then None else Some (wrap msg)))))"

text \<open>One key of a WHERE clause.\<close>

definition check_key :: "cstring \<Rightarrow> cstring \<Rightarrow> col_info list \<Rightarrow> int \<times> nat \<Rightarrow> where_key \<Rightarrow> where_key \<times> cstring option" where
  "check_key owner table cols today wk =
     (let lead = ''WHERE key '' @ quoted (wk_name wk) in
      case find_column cols (wk_name wk) of
        None \<Rightarrow> (wk, Some (c_snprintf 512 (lead @ '': no such column on '' @ owner @ ''.'' @ table)))
      | Some col \<Rightarrow>
          (case normalize_client_date_value (data_type col) (wk_format wk) (wk_value wk) 4096 512 today of
             Inl e \<Rightarrow> (wk, Some (c_snprintf 512 (lead @ '': '' @ e)))
           | Inr (v, fmt) \<Rightarrow>
               (wk\<lparr>wk_value := v, wk_format := fmt\<rparr>,
                if v = [] then Some (c_snprintf 512 (lead @ '': key_value is empty'')) else None)))"

text \<open>A loop over an array that may rewrite its elements and collects the messages.\<close>

fun check_all :: "(nat \<Rightarrow> 'a \<Rightarrow> 'a \<times> cstring list) \<Rightarrow> nat \<Rightarrow> 'a list \<Rightarrow> 'a list \<times> cstring list" where
  "check_all f i [] = ([], [])"
| "check_all f i (x # xs) =
     (case f i x of (y, ms) \<Rightarrow> case check_all f (i + 1) xs of (ys, rest) \<Rightarrow> (y # ys, ms @ rest))"

definition msgs :: "'a \<times> cstring option \<Rightarrow> 'a \<times> cstring list" where
  "msgs r = (fst r, case snd r of None \<Rightarrow> [] | Some m \<Rightarrow> [m])"

subsection \<open>INSERT\<close>

definition insert_field ::
    "cstring \<Rightarrow> cstring \<Rightarrow> col_info list \<Rightarrow> nat \<Rightarrow> int \<times> nat \<Rightarrow> nat \<Rightarrow> field_value \<Rightarrow> field_value \<times> cstring option" where
  "insert_field owner table cols r today f fv =
     check_field (''Row '' @ dec (r + 1) @ '', field '') (\<lambda>m. c_snprintf 512 (''Row '' @ dec (r + 1) @ '': '' @ m))
       owner table cols today (f + 1) fv"

text \<open>Columns that may be neither NULL nor left out.\<close>

definition required_column :: "col_info \<Rightarrow> bool" where
  "required_column c \<longleftrightarrow> cs_prefix ''N'' (ci_nullable c) \<and> ci_default c = []"

definition missing_columns :: "col_info list \<Rightarrow> nat \<Rightarrow> insert_row \<Rightarrow> cstring list" where
  "missing_columns cols r row =
     map (\<lambda>c. c_snprintf 512 (''Row '' @ dec (r + 1) @ '': NOT NULL column '' @ quoted (col_name c) @
            '' (no default) was not supplied''))
       (filter (\<lambda>c. required_column c \<and> \<not> row_has_field row (col_name c)) cols)"

definition insert_row_check ::
    "cstring \<Rightarrow> cstring \<Rightarrow> col_info list \<Rightarrow> (nat \<Rightarrow> nat \<Rightarrow> int \<times> nat) \<Rightarrow> nat \<Rightarrow> insert_row \<Rightarrow> insert_row \<times> cstring list" where
  "insert_row_check owner table cols today r row =
     (case check_all (\<lambda>f fv. msgs (insert_field owner table cols r (today r f) f fv)) 0 row of
        (row', ms) \<Rightarrow> (row', ms @ missing_columns cols r row'))"

text \<open>When and with what the metadata cache answers: clock readings, duplication, the address of a new entry.\<close>

record lookup_env =
  asked_at :: int
  lookup_us :: nat
  answered_at :: int
  dup_ok :: bool
  fresh_addr :: "nat option"

definition table_columns ::
    "'d fetcher \<Rightarrow> lookup_env \<Rightarrow> cache option \<Rightarrow> 'd \<Rightarrow> cstring \<Rightarrow> cstring \<Rightarrow>
     (col_info list option \<times> cache option \<times> 'd) option" where
  "table_columns fetch en cache db table owner =
     map_option (\<lambda>((rc, _, cols, _), cache', db'). (if rc = 0 then Some cols else None, cache', db'))
       (metadata_cache_get_or_fetch fetch cache db \<lparr>mr_table = take 127 table, mr_owner = take 127 owner\<rparr> MAX_TABLE_COLUMNS
          (asked_at en) (lookup_us en) (answered_at en) (dup_ok en) (fresh_addr en))"

definition no_metadata :: "int \<times> operation_status" where
  "no_metadata = refuse LEVEL2_ERR_METADATA_LOOKUP ''LEVEL2_METADATA_LOOKUP''
     ''could not resolve column metadata for the target table.''"

text \<open>The end of the three validators: the first message, or OK.\<close>

definition verdict_of :: "cstring list \<Rightarrow> int \<times> operation_status" where
  "verdict_of ms =
     (case ms of
        [] \<Rightarrow> (LEVEL2_OK, set_ok)
      | m # _ \<Rightarrow> (LEVEL2_ERR_FIELD_INVALID, set_error LEVEL2_ERR_FIELD_INVALID ''LEVEL2_FIELD_INVALID'' m))"

text \<open>
  \<open>None\<close>: a freed cache entry is touched. Else the code, the status, the request as it is afterwards, the cache and the
  database. \<open>max_bulk_inserts\<close> is \<open>None\<close> without a configuration; \<open>today r f\<close> is the date on which field \<open>f\<close> of row \<open>r\<close>
  is looked at.
\<close>

type_synonym ('r, 'd) level2_answer = "((int \<times> operation_status) \<times> 'r option \<times> cache option \<times> 'd) option"

definition level2_validate_insert ::
    "'d fetcher \<Rightarrow> int option \<Rightarrow> lookup_env \<Rightarrow> (nat \<Rightarrow> nat \<Rightarrow> int \<times> nat) \<Rightarrow> cache option \<Rightarrow> 'd \<Rightarrow>
     insert_request option \<Rightarrow> (insert_request, 'd) level2_answer" where
  "level2_validate_insert fetch max_bulk_inserts en today cache db payload =
     (case payload of
        None \<Rightarrow> Some (refuse LEVEL2_ERR_INVALID_ARG ''LEVEL2_INVALID_ARG'' ''missing INSERT payload.'', None, cache, db)
      | Some req \<Rightarrow>
          let max_batch = (case max_bulk_inserts of None \<Rightarrow> 0 | Some m \<Rightarrow> m);
              row_count = int (length (ir_rows req));
              stop = (\<lambda>answer. Some (answer, Some req, cache, db))
          in if row_count \<le> 0
             then stop (refuse LEVEL2_ERR_ROW_COUNT_EXCEEDED ''LEVEL2_ROW_COUNT'' ''at least one row is required.'')
             else if max_batch > 0 \<and> row_count > max_batch
             then stop (refuse LEVEL2_ERR_ROW_COUNT_EXCEEDED ''LEVEL2_ROW_COUNT'' ''row_count exceeds max_bulk_inserts.'')
             else if ir_table req = []
             then stop (refuse LEVEL2_ERR_INVALID_ARG ''LEVEL2_INVALID_ARG'' ''table_name is empty.'')
             else if \<exists>row \<in> set (tl (ir_rows req)). \<not> row_field_sets_match (hd (ir_rows req)) row
             then stop (refuse LEVEL2_ERR_FIELD_INVALID ''LEVEL2_FIELD_INVALID''
                    ''all rows in one INSERT must set the same columns (row column set mismatch).'')
             else
               (case table_columns fetch en cache db (ir_table req) (ir_owner req) of
                  None \<Rightarrow> None
                | Some (None, cache', db') \<Rightarrow> Some (no_metadata, Some req, cache', db')
                | Some (Some cols, cache', db') \<Rightarrow>
                    (case check_all (insert_row_check (ir_owner req) (ir_table req) cols today) 0 (ir_rows req) of
                       (rows, ms) \<Rightarrow> Some (verdict_of ms, Some (req\<lparr>ir_rows := rows\<rparr>), cache', db'))))"

subsection \<open>UPDATE and DELETE\<close>

definition set_field ::
    "cstring \<Rightarrow> cstring \<Rightarrow> col_info list \<Rightarrow> int \<times> nat \<Rightarrow> nat \<Rightarrow> field_value \<Rightarrow> field_value \<times> cstring option" where
  "set_field owner table cols today f fv =
     check_field ''SET field '' (\<lambda>m. c_snprintf 512 m) owner table cols today (f + 1) fv"

definition level2_validate_update ::
    "'d fetcher \<Rightarrow> lookup_env \<Rightarrow> (nat \<Rightarrow> int \<times> nat) \<Rightarrow> (nat \<Rightarrow> int \<times> nat) \<Rightarrow> cache option \<Rightarrow> 'd \<Rightarrow>
     update_request option \<Rightarrow> (update_request, 'd) level2_answer" where
  "level2_validate_update fetch en key_day field_day cache db payload =
     (case payload of
        None \<Rightarrow> Some (refuse LEVEL2_ERR_INVALID_ARG ''LEVEL2_INVALID_ARG'' ''missing UPDATE payload.'', None, cache, db)
      | Some req \<Rightarrow>
          let stop = (\<lambda>why. Some (refuse LEVEL2_ERR_INVALID_ARG ''LEVEL2_INVALID_ARG'' why, Some req, cache, db))
          in if ur_table req = [] then stop ''table_name is empty.''
             else if ur_keys req = [] then stop ''at least one WHERE key is required.''
             else if ur_fields req = [] then stop ''at least one SET field is required.''
             else
               (case table_columns fetch en cache db (ur_table req) (ur_owner req) of
                  None \<Rightarrow> None
                | Some (None, cache', db') \<Rightarrow> Some (no_metadata, Some req, cache', db')
                | Some (Some cols, cache', db') \<Rightarrow>
                    (case check_all (\<lambda>k wk. msgs (check_key (ur_owner req) (ur_table req) cols (key_day k) wk)) 0 (ur_keys req) of
                       (keys, ms) \<Rightarrow>
                         (case check_all (\<lambda>f fv. msgs (set_field (ur_owner req) (ur_table req) cols (field_day f) f fv)) 0
                                 (ur_fields req) of
                            (sets, ms') \<Rightarrow>
                              Some (verdict_of (ms @ ms'), Some (req\<lparr>ur_keys := keys, ur_fields := sets\<rparr>), cache', db')))))"

definition level2_validate_delete ::
    "'d fetcher \<Rightarrow> lookup_env \<Rightarrow> (nat \<Rightarrow> int \<times> nat) \<Rightarrow> cache option \<Rightarrow> 'd \<Rightarrow>
     delete_request option \<Rightarrow> (delete_request, 'd) level2_answer" where
  "level2_validate_delete fetch en key_day cache db payload =
     (case payload of
        None \<Rightarrow> Some (refuse LEVEL2_ERR_INVALID_ARG ''LEVEL2_INVALID_ARG'' ''missing DELETE payload.'', None, cache, db)
      | Some req \<Rightarrow>
          let stop = (\<lambda>why. Some (refuse LEVEL2_ERR_INVALID_ARG ''LEVEL2_INVALID_ARG'' why, Some req, cache, db))
          in if dr_table req = [] then stop ''table_name is empty.''
             else if dr_keys req = [] then stop ''at least one WHERE key is required.''
             else
               (case table_columns fetch en cache db (dr_table req) (dr_owner req) of
                  None \<Rightarrow> None
                | Some (None, cache', db') \<Rightarrow> Some (no_metadata, Some req, cache', db')
                | Some (Some cols, cache', db') \<Rightarrow>
                    (case check_all (\<lambda>k wk. msgs (check_key (dr_owner req) (dr_table req) cols (key_day k) wk)) 0 (dr_keys req) of
                       (keys, ms) \<Rightarrow> Some (verdict_of ms, Some (req\<lparr>dr_keys := keys\<rparr>), cache', db'))))"

end
