(* ===== verification/Level2_Twice.thy ===== *)
theory Level2_Twice
  imports Level2_Dml
begin

text \<open>
  What LEVEL2_OK means. The dispatcher validates a request, and the execute module validates it again: the second pass
  must not undo the first, though the first rewrites dates in place. And what a validated request guarantees.
\<close>

subsection \<open>Loops over arrays\<close>

lemma check_all_msgs: "check_all f i xs = (ys, ms) \<Longrightarrow> length ys = length xs"
  by (induction f i xs arbitrary: ys ms rule: check_all.induct) (auto split: prod.splits)

lemma check_all_ok:
  "check_all f i xs = (ys, []) \<longleftrightarrow> length ys = length xs \<and> (\<forall>j < length xs. f (i + j) (xs ! j) = (ys ! j, []))"
proof (induction f i xs arbitrary: ys rule: check_all.induct)
  case (2 f i x xs)
  show ?case
  proof (cases ys)
    case (Cons y zs)
    have "check_all f i (x # xs) = (ys, []) \<longleftrightarrow> f i x = (y, []) \<and> check_all f (i + 1) xs = (zs, [])"
      using Cons by (auto split: prod.splits)
    also have "\<dots> \<longleftrightarrow> length ys = length (x # xs) \<and> (\<forall>j < length (x # xs). f (i + j) ((x # xs) ! j) = (ys ! j, []))"
      using Cons 2 by (cases "f i x") (auto simp: All_less_Suc2)
    finally show ?thesis .
  qed (auto split: prod.splits)
qed auto

lemma check_all_again:
  assumes "check_all f i xs = (ys, [])" "\<And>j x y. f j x = (y, []) \<Longrightarrow> g j y = (y, [])"
  shows "check_all g i ys = (ys, [])"
  using assms(1) by (auto simp: check_all_ok intro: assms(2))

lemma msgs_ok: "msgs r = (y, []) \<longleftrightarrow> r = (y, None)"
  by (cases r) (auto simp: msgs_def split: option.splits)

lemma verdict_ok: "verdict_of ms = (LEVEL2_OK, st) \<longleftrightarrow> ms = [] \<and> st = set_ok"
  by (cases ms) (auto simp: verdict_of_def level2_codes)

lemma refusals [simp]:
  "refuse LEVEL2_ERR_INVALID_ARG e w \<noteq> (LEVEL2_OK, st)" "refuse LEVEL2_ERR_ROW_COUNT_EXCEEDED e w \<noteq> (LEVEL2_OK, st)"
  "refuse LEVEL2_ERR_FIELD_INVALID e w \<noteq> (LEVEL2_OK, st)" "no_metadata \<noteq> (LEVEL2_OK, st)"
  unfolding no_metadata_def refuse_def prod.inject level2_codes by simp_all

subsection \<open>A date that was accepted is canonical\<close>

definition date_class :: "cstring \<Rightarrow> bool" where
  "date_class t \<longleftrightarrow> db_type_class (Some t) = DB_TYPE_CLASS_DATE \<or> db_type_class (Some t) = DB_TYPE_CLASS_TIMESTAMP"

lemma normalize_Inr:
  assumes "normalize_client_date_value t fmt v 4096 512 today = Inr (v', fmt')"
  shows "v' = [] \<longleftrightarrow> v = []" "\<not> date_class t \<Longrightarrow> v' = v"
    "date_class t \<Longrightarrow> v' \<noteq> [] \<Longrightarrow>
       fmt' = [] \<and> (\<exists>dt. valid_parts dt \<and> v' = canonical_text (db_type_class (Some t) = DB_TYPE_CLASS_TIMESTAMP) dt)"
    "normalize_client_date_value t fmt' v' 4096 512 today' = Inr (v', fmt')"
proof -
  define ts where "ts = (db_type_class (Some t) = DB_TYPE_CLASS_TIMESTAMP)"
  have "(v' = [] \<longleftrightarrow> v = []) \<and> (\<not> date_class t \<longrightarrow> v' = v) \<and>
    (date_class t \<and> v' \<noteq> [] \<longrightarrow> fmt' = [] \<and> (\<exists>dt. valid_parts dt \<and> v' = canonical_text ts dt)) \<and>
    normalize_client_date_value t fmt' v' 4096 512 today' = Inr (v', fmt')"
  proof (cases "date_class t \<and> v \<noteq> []")
    case False
    with assms show ?thesis by (auto simp: normalize_client_date_value_def date_class_def Let_def)
  next
    case True
    obtain rc out why where d: "date_normalize (Some v) (if fmt \<noteq> [] then Some fmt else None) ts True
        DATE_NORMALIZE_OUT_MAX 256 (fst today) (snd today) = (rc, out, why)" by (metis prod_cases3)
    from assms True d have r: "rc = DATE_NORM_OK" "v' = c_strncpy 4096 (the out)" "fmt' = []"
      by (auto simp: normalize_client_date_value_def date_class_def Let_def ts_def split: if_splits)
    from d r(1) have "out \<noteq> None"
      by (auto simp: date_normalize_def Let_def DATE_NORM_OK_def DATE_NORM_BAD_ARG_def DATE_NORM_BAD_MASK_def
          DATE_NORM_BAD_VALUE_def split: if_splits sum.splits dest: tokenize_mask_code parse_value_code finish_code [OF _ parse_value_ok])
    then obtain s where s: "out = Some s" by blast
    from date_normalize_Some [OF d [unfolded s]] obtain dt where dt: "valid_parts dt" "s = canonical_text ts dt" by blast
    from length_canonical_text [OF dt(1), of ts] r s dt have v': "v' = canonical_text ts dt" "v' \<noteq> []"
      by (auto split: if_splits)
    have "date_normalize (Some v') None ts True DATE_NORMALIZE_OUT_MAX 256 (fst today') (snd today') = (0, Some v', [])"
      unfolding v'(1) DATE_NORMALIZE_OUT_MAX_def by (rule date_normalize_canonical [OF dt(1)])
    with v' True r(3) have "normalize_client_date_value t fmt' v' 4096 512 today' = Inr (c_strncpy 4096 v', fmt')"
      by (auto simp: normalize_client_date_value_def date_class_def Let_def DATE_NORM_OK_def DATE_NORM_BAD_MASK_def
          simp flip: ts_def)
    with v' length_canonical_text [OF dt(1), of ts] True r(3) dt(1) show ?thesis by (auto split: if_splits)
  qed
  then show "v' = [] \<longleftrightarrow> v = []" "\<not> date_class t \<Longrightarrow> v' = v"
    "date_class t \<Longrightarrow> v' \<noteq> [] \<Longrightarrow>
       fmt' = [] \<and> (\<exists>dt. valid_parts dt \<and> v' = canonical_text (db_type_class (Some t) = DB_TYPE_CLASS_TIMESTAMP) dt)"
    "normalize_client_date_value t fmt' v' 4096 512 today' = Inr (v', fmt')" by (auto simp: ts_def)
qed

text \<open>What an accepted field is, and that it is accepted again, whatever the date and the wording of the messages.\<close>

lemma check_field_ok:
  "check_field lead wrap ow t cols today n fv = (fv', None) \<longleftrightarrow>
     (\<exists>col v fmt. find_column cols (fv_name fv) = Some col \<and>
        normalize_client_date_value (data_type col) (fv_format fv) (fv_value fv) 4096 512 today = Inr (v, fmt) \<and>
        fv' = fv\<lparr>fv_value := v, fv_format := fmt\<rparr> \<and>
        fst (validate_field 512 (parsed_field_of n fv' col)) = FIELD_VALID)"
  by (auto simp: check_field_def Let_def split: option.splits sum.splits prod.splits)

lemma check_field_again:
  assumes "check_field lead wrap ow t cols today n fv = (fv', None)"
  shows "check_field lead' wrap' ow' t' cols today' n fv' = (fv', None)"
proof -
  from assms obtain col v fmt where c: "find_column cols (fv_name fv) = Some col"
    and nz: "normalize_client_date_value (data_type col) (fv_format fv) (fv_value fv) 4096 512 today = Inr (v, fmt)"
    and fv': "fv' = fv\<lparr>fv_value := v, fv_format := fmt\<rparr>"
    and ok: "fst (validate_field 512 (parsed_field_of n fv' col)) = FIELD_VALID" by (auto simp: check_field_ok)
  have "normalize_client_date_value (data_type col) (fv_format fv') (fv_value fv') 4096 512 today' =
      Inr (fv_value fv', fv_format fv')"
    using normalize_Inr(4) [OF nz] by (simp add: fv')
  with c ok show ?thesis by (auto simp: check_field_ok fv')
qed

lemma check_key_ok:
  "check_key ow t cols today wk = (wk', None) \<longleftrightarrow>
     (\<exists>col v fmt. find_column cols (wk_name wk) = Some col \<and>
        normalize_client_date_value (data_type col) (wk_format wk) (wk_value wk) 4096 512 today = Inr (v, fmt) \<and>
        wk' = wk\<lparr>wk_value := v, wk_format := fmt\<rparr> \<and> v \<noteq> [])"
  by (auto simp: check_key_def Let_def split: option.splits sum.splits prod.splits if_splits)

lemma check_key_again:
  assumes "check_key ow t cols today wk = (wk', None)"
  shows "check_key ow' t' cols today' wk' = (wk', None)"
proof -
  from assms obtain col v fmt where c: "find_column cols (wk_name wk) = Some col"
    and nz: "normalize_client_date_value (data_type col) (wk_format wk) (wk_value wk) 4096 512 today = Inr (v, fmt)"
    and wk': "wk' = wk\<lparr>wk_value := v, wk_format := fmt\<rparr>" "v \<noteq> []" by (auto simp: check_key_ok)
  with normalize_Inr(4) [OF nz, of today'] show ?thesis by (auto simp: check_key_ok)
qed

lemma check_field_name: "check_field lead wrap ow t cols today n fv = (fv', m) \<Longrightarrow> fv_name fv' = fv_name fv"
  by (auto simp: check_field_def Let_def split: option.splits sum.splits prod.splits)

subsection \<open>INSERT rows\<close>

lemma row_check_ok:
  "insert_row_check ow t cols today r row = (row', []) \<longleftrightarrow>
     check_all (\<lambda>f fv. msgs (insert_field ow t cols r (today r f) f fv)) 0 row = (row', []) \<and>
     (\<forall>c \<in> set cols. required_column c \<longrightarrow> row_has_field row' (col_name c))"
  by (auto simp: insert_row_check_def missing_columns_def filter_empty_conv split: prod.splits)

lemma row_check_again:
  assumes "insert_row_check ow t cols today r row = (row', [])"
  shows "insert_row_check ow t cols today' r row' = (row', [])"
proof -
  from assms have a: "check_all (\<lambda>f fv. msgs (insert_field ow t cols r (today r f) f fv)) 0 row = (row', [])"
    and m: "\<forall>c \<in> set cols. required_column c \<longrightarrow> row_has_field row' (col_name c)" by (simp_all add: row_check_ok)
  have "check_all (\<lambda>f fv. msgs (insert_field ow t cols r (today' r f) f fv)) 0 row' = (row', [])"
    by (rule check_all_again [OF a]) (simp only: msgs_ok insert_field_def, erule check_field_again)
  with m show ?thesis by (simp add: row_check_ok)
qed

lemma row_check_names:
  assumes "insert_row_check ow t cols today r row = (row', [])"
  shows "map fv_name row' = map fv_name row"
proof -
  from assms have "length row' = length row"
    "\<forall>j < length row. insert_field ow t cols r (today r j) j (row ! j) = (row' ! j, None)"
    by (simp_all add: row_check_ok check_all_ok msgs_ok)
  then show ?thesis unfolding insert_field_def by (auto simp: list_eq_iff_nth_eq [where xs = "map _ _"] dest!: check_field_name)
qed

lemma rows_check_names:
  assumes "check_all (insert_row_check ow t cols today) 0 rows = (rows', [])"
  shows "map (map fv_name) rows' = map (map fv_name) rows"
proof -
  from assms have "length rows' = length rows" "\<forall>r < length rows. insert_row_check ow t cols today r (rows ! r) = (rows' ! r, [])"
    by (simp_all add: check_all_ok)
  then show ?thesis by (auto simp: list_eq_iff_nth_eq [where xs = "map _ _"] dest!: row_check_names)
qed

text \<open>The names decide whether two rows set the same columns.\<close>

definition names_match :: "cstring list \<Rightarrow> cstring list \<Rightarrow> bool" where
  "names_match a b \<longleftrightarrow> length a = length b \<and> (\<forall>n \<in> set a. \<exists>k \<in> set b. ci_eq n k)"

lemma row_match_names: "row_field_sets_match a b \<longleftrightarrow> names_match (map fv_name a) (map fv_name b)"
  by (simp add: row_field_sets_match_def names_match_def)

lemma rows_match_names:
  assumes "map (map fv_name) rows' = map (map fv_name) rows" "rows \<noteq> []"
  shows "(\<exists>row \<in> set (tl rows'). \<not> row_field_sets_match (hd rows') row) \<longleftrightarrow>
    (\<exists>row \<in> set (tl rows). \<not> row_field_sets_match (hd rows) row)"
proof -
  have h: "map fv_name (hd rows') = map fv_name (hd rows)" "map (map fv_name) (tl rows') = map (map fv_name) (tl rows)"
    using assms by (cases rows; cases rows'; simp)+
  have *: "(\<exists>row \<in> set (tl rs). \<not> row_field_sets_match (hd rs) row) \<longleftrightarrow>
      (\<exists>ns \<in> set (map (map fv_name) (tl rs)). \<not> names_match (map fv_name (hd rs)) ns)" for rs :: "insert_row list"
    by (simp add: row_match_names)
  show ?thesis unfolding * h ..
qed

lemma insert_ok:
  "level2_validate_insert fetch mx en today cache db (Some req) = Some ((LEVEL2_OK, st), Some req', cache', db') \<longleftrightarrow>
     st = set_ok \<and> ir_rows req \<noteq> [] \<and> ir_table req \<noteq> [] \<and>
     (case mx of None \<Rightarrow> True | Some m \<Rightarrow> m > 0 \<longrightarrow> int (length (ir_rows req)) \<le> m) \<and>
     (\<forall>row \<in> set (tl (ir_rows req)). row_field_sets_match (hd (ir_rows req)) row) \<and>
     (\<exists>cols rows. table_columns fetch en cache db (ir_table req) (ir_owner req) = Some (Some cols, cache', db') \<and>
        check_all (insert_row_check (ir_owner req) (ir_table req) cols today) 0 (ir_rows req) = (rows, []) \<and>
        req' = req\<lparr>ir_rows := rows\<rparr>)"
proof (cases "table_columns fetch en cache db (ir_table req) (ir_owner req)")
  case None
  then show ?thesis unfolding level2_validate_insert_def option.case Let_def by (auto split del: list.splits)
next
  case (Some t)
  obtain c c1 d1 where t: "t = (c, c1, d1)" by (cases t)
  show ?thesis
  proof (cases c)
    case None
    with Some t show ?thesis unfolding level2_validate_insert_def option.case Let_def by auto
  next
    case (Some cols)
    obtain rows ms where r: "check_all (insert_row_check (ir_owner req) (ir_table req) cols today) 0 (ir_rows req) = (rows, ms)"
      by (cases "check_all (insert_row_check (ir_owner req) (ir_table req) cols today) 0 (ir_rows req)")
    from \<open>table_columns _ _ _ _ _ _ = _\<close> t Some r show ?thesis
      unfolding level2_validate_insert_def option.case Let_def by (cases mx) (auto simp: verdict_ok not_less)
  qed
qed

lemma update_ok:
  "level2_validate_update fetch en kd fd cache db (Some req) = Some ((LEVEL2_OK, st), Some req', cache', db') \<longleftrightarrow>
     st = set_ok \<and> ur_table req \<noteq> [] \<and> ur_keys req \<noteq> [] \<and> ur_fields req \<noteq> [] \<and>
     (\<exists>cols keys sets. table_columns fetch en cache db (ur_table req) (ur_owner req) = Some (Some cols, cache', db') \<and>
        check_all (\<lambda>k wk. msgs (check_key (ur_owner req) (ur_table req) cols (kd k) wk)) 0 (ur_keys req) = (keys, []) \<and>
        check_all (\<lambda>f fv. msgs (set_field (ur_owner req) (ur_table req) cols (fd f) f fv)) 0 (ur_fields req) = (sets, []) \<and>
        req' = req\<lparr>ur_keys := keys, ur_fields := sets\<rparr>)"
proof (cases "table_columns fetch en cache db (ur_table req) (ur_owner req)")
  case None
  then show ?thesis unfolding level2_validate_update_def option.case Let_def by auto
next
  case (Some t)
  obtain c c1 d1 where t: "t = (c, c1, d1)" by (cases t)
  show ?thesis
  proof (cases c)
    case None
    with Some t show ?thesis unfolding level2_validate_update_def option.case Let_def by auto
  next
    case (Some cols)
    obtain keys ms where k: "check_all (\<lambda>k wk. msgs (check_key (ur_owner req) (ur_table req) cols (kd k) wk)) 0 (ur_keys req) = (keys, ms)"
      by (cases "check_all (\<lambda>k wk. msgs (check_key (ur_owner req) (ur_table req) cols (kd k) wk)) 0 (ur_keys req)")
    obtain sets ms' where f: "check_all (\<lambda>f fv. msgs (set_field (ur_owner req) (ur_table req) cols (fd f) f fv)) 0 (ur_fields req) = (sets, ms')"
      by (cases "check_all (\<lambda>f fv. msgs (set_field (ur_owner req) (ur_table req) cols (fd f) f fv)) 0 (ur_fields req)")
    from \<open>table_columns _ _ _ _ _ _ = _\<close> t Some k f show ?thesis
      unfolding level2_validate_update_def option.case Let_def by (auto simp: verdict_ok)
  qed
qed

lemma delete_ok:
  "level2_validate_delete fetch en kd cache db (Some req) = Some ((LEVEL2_OK, st), Some req', cache', db') \<longleftrightarrow>
     st = set_ok \<and> dr_table req \<noteq> [] \<and> dr_keys req \<noteq> [] \<and>
     (\<exists>cols keys. table_columns fetch en cache db (dr_table req) (dr_owner req) = Some (Some cols, cache', db') \<and>
        check_all (\<lambda>k wk. msgs (check_key (dr_owner req) (dr_table req) cols (kd k) wk)) 0 (dr_keys req) = (keys, []) \<and>
        req' = req\<lparr>dr_keys := keys\<rparr>)"
proof (cases "table_columns fetch en cache db (dr_table req) (dr_owner req)")
  case None
  then show ?thesis unfolding level2_validate_delete_def option.case Let_def by auto
next
  case (Some t)
  obtain c c1 d1 where t: "t = (c, c1, d1)" by (cases t)
  show ?thesis
  proof (cases c)
    case None
    with Some t show ?thesis unfolding level2_validate_delete_def option.case Let_def by auto
  next
    case (Some cols)
    obtain keys ms where k: "check_all (\<lambda>k wk. msgs (check_key (dr_owner req) (dr_table req) cols (kd k) wk)) 0 (dr_keys req) = (keys, ms)"
      by (cases "check_all (\<lambda>k wk. msgs (check_key (dr_owner req) (dr_table req) cols (kd k) wk)) 0 (dr_keys req)")
    from \<open>table_columns _ _ _ _ _ _ = _\<close> t Some k show ?thesis
      unfolding level2_validate_delete_def option.case Let_def by (auto simp: verdict_ok)
  qed
qed

subsection \<open>What an accepted value is\<close>

lemma find_column_Some: "find_column cols n = Some c \<Longrightarrow> c \<in> set cols \<and> ci_eq (col_name c) n"
  by (induction cols) (auto split: if_splits)

definition distinct_names :: "cstring list \<Rightarrow> bool" where
  "distinct_names ns \<longleftrightarrow> distinct (map (map c_tolower) ns)"

lemma find_column_distinct:
  "distinct_names (map col_name cols) \<Longrightarrow> c \<in> set cols \<Longrightarrow> ci_eq (col_name c) n \<Longrightarrow> find_column cols n = Some c"
  by (induction cols) (auto simp: distinct_names_def ci_eq_def image_iff)

text \<open>What a column can hold, as far as \<open>validate_field\<close> looks: not empty where a value is required, a number with the
  digits of NUMBER(p,s), a text or a RAW not too long.\<close>

definition storable :: "col_info \<Rightarrow> cstring \<Rightarrow> bool" where
  "storable c v \<longleftrightarrow>
     (v = [] \<longrightarrow> \<not> required_column c) \<and>
     (is_numeric_type (data_type c) \<and> v \<noteq> [] \<longrightarrow>
        (\<exists>sg ip fp ex. numeric_parts sg ip fp ex \<and> v = numeric_text sg ip fp ex \<and>
           (0 < ci_precision c \<and> 0 \<le> ci_scale c \<longrightarrow>
              int (length ip) \<le> ci_precision c - ci_scale c \<and> int (length (frac_digits_of fp)) \<le> ci_scale c))) \<and>
     (is_string_type (data_type c) \<and> 0 < ci_length c \<longrightarrow> int (length v) \<le> ci_length c) \<and>
     (is_raw_type (data_type c) \<longrightarrow> list_all c_isxdigit v \<and> (0 < ci_length c \<longrightarrow> int (length v) \<le> 2 * ci_length c))"

lemma first_bad_None: "first_bad ok i v = None \<longleftrightarrow> list_all ok v"
  by (induction v arbitrary: i) auto

lemma numeric_valid:
  assumes "fst (validate_numeric n f) = FIELD_VALID"
  shows "\<exists>sg ip fp ex. numeric_parts sg ip fp ex \<and> pf_value f = numeric_text sg ip fp ex \<and>
    (0 < pf_precision f \<and> 0 \<le> pf_scale f \<longrightarrow>
       int (length ip) \<le> pf_precision f - pf_scale f \<and> int (length (frac_digits_of fp)) \<le> pf_scale f)"
proof -
  from numeric_rejects [of n f] assms obtain sg ip fp ex
    where p: "numeric_parts sg ip fp ex" "pf_value f = numeric_text sg ip fp ex" by auto
  from numeric_accepts [OF p, of n] assms
  have "fst (precision_check n f (length ip) (length (frac_digits_of fp))) = FIELD_VALID" by simp
  then have "0 < pf_precision f \<and> 0 \<le> pf_scale f \<longrightarrow>
       int (length ip) \<le> pf_precision f - pf_scale f \<and> int (length (frac_digits_of fp)) \<le> pf_scale f"
    by (auto simp: precision_verdict split: if_splits)
  with p show ?thesis by blast
qed

lemma field_storable:
  assumes ok: "fst (validate_field 512 (parsed_field_of n fv col)) = FIELD_VALID"
    and fits: "col_fits col" "length (field_value_get fv) < 1024"
  shows "storable col (field_value_get fv)"
proof -
  define v where "v = field_value_get fv"
  define f where "f = parsed_field_of n fv col"
  have f: "pf_value f = v" "pf_type f = data_type col" "pf_length f = ci_length col" "pf_precision f = ci_precision col"
    "pf_scale f = ci_scale col" "pf_nullable f = ci_nullable col" "pf_default f = ci_default col"
    using fits by (auto simp: f_def parsed_field_of_def v_def col_fits_def text_fits_def)
  note ok = ok [folded f_def]
  show ?thesis
  proof (cases "v = []")
    case True
    with ok f show ?thesis by (auto simp: validate_field_def storable_def required_column_def simp flip: v_def split: if_splits)
  next
    case False
    note types = is_numeric_type_def is_string_type_def is_raw_type_def is_date_type_def is_timestamp_type_def
      is_interval_ym_type_def is_interval_ds_type_def
    have n: "is_numeric_type (data_type col) \<Longrightarrow> fst (validate_numeric 512 f) = FIELD_VALID"
      and s: "is_string_type (data_type col) \<Longrightarrow> fst (validate_string 512 f) = FIELD_VALID"
      and r: "is_raw_type (data_type col) \<Longrightarrow> fst (validate_raw 512 f) = FIELD_VALID"
      using ok False f by (simp_all add: validate_field_def types)
    from s have s': "is_string_type (data_type col) \<and> 0 < ci_length col \<longrightarrow> int (length v) \<le> ci_length col"
      using f by (auto simp: validate_string_def Let_def split: if_splits)
    from r have r': "is_raw_type (data_type col) \<longrightarrow> list_all c_isxdigit v \<and> (0 < ci_length col \<longrightarrow> int (length v) \<le> 2 * ci_length col)"
      using f by (auto simp: validate_raw_def Let_def first_bad_None [of _ 0, symmetric] split: if_splits option.splits)
    from numeric_valid [OF n] s' r' False f show ?thesis by (simp add: storable_def flip: v_def)
  qed
qed

text \<open>A required column is not given an empty value, however long the value is.\<close>

lemma required_nonempty:
  assumes "fst (validate_field 512 (parsed_field_of n fv col)) = FIELD_VALID" "col_fits col" "required_column col"
  shows "field_value_get fv \<noteq> []"
  using assms field_storable [of n fv col] by (auto simp: storable_def)

subsection \<open>Properties\<close>

text \<open>C23. A validated INSERT survives its second validation. The execute module validates the request again, on the struct
  the first pass rewrote. If the table has the same columns then, the second pass accepts the request and changes nothing
  in it, on whatever day it runs and whatever mask the client had named.\<close>

theorem insert_validated_twice:
  assumes "level2_validate_insert fetch mx en today cache db (Some req) = Some ((LEVEL2_OK, st), Some req', cache', db')"
    and "table_columns fetch en cache db (ir_table req) (ir_owner req) = Some (Some cols, cache', db')"
    and "table_columns fetch2 en2 cache2 db2 (ir_table req) (ir_owner req) = Some (Some cols, cache2', db2')"
  shows "level2_validate_insert fetch2 mx en2 today2 cache2 db2 (Some req') =
    Some ((LEVEL2_OK, set_ok), Some req', cache2', db2')"
proof -
  from assms(1) [unfolded insert_ok] assms(2) obtain rows where
    r: "check_all (insert_row_check (ir_owner req) (ir_table req) cols today) 0 (ir_rows req) = (rows, [])"
      "req' = req\<lparr>ir_rows := rows\<rparr>" and ne: "ir_rows req \<noteq> []" by auto
  have again: "check_all (insert_row_check (ir_owner req) (ir_table req) cols today2) 0 rows = (rows, [])"
    by (rule check_all_again [OF r(1)]) (rule row_check_again)
  note names = rows_check_names [OF r(1)]
  have len: "length rows = length (ir_rows req)" using names by (metis length_map)
  have "\<not> (\<exists>row \<in> set (tl rows). \<not> row_field_sets_match (hd rows) row)"
    unfolding rows_match_names [OF names ne] using assms(1) [unfolded insert_ok] by blast
  then have "\<forall>row \<in> set (tl rows). row_field_sets_match (hd rows) row" by blast
  moreover have "case mx of None \<Rightarrow> True | Some m \<Rightarrow> 0 < m \<longrightarrow> int (length rows) \<le> m" "ir_table req \<noteq> []" "rows \<noteq> []"
    using assms(1) [unfolded insert_ok] len by (cases mx; auto)+
  ultimately show ?thesis unfolding insert_ok using assms(3) again r(2) by (cases mx) simp_all
qed

definition sample_columns :: "col_info list" where
  "sample_columns = [test_column, test_column\<lparr>col_name := ''BORN'', data_type := ''DATE''\<rparr>]"

definition sample_fetch :: "nat fetcher" where
  "sample_fetch db req n = ((0, req, sample_columns), db + 1)"

definition sample_env :: lookup_env where
  "sample_env = \<lparr>asked_at = 100, lookup_us = 1, answered_at = 101, dup_ok = True, fresh_addr = Some 7\<rparr>"

definition sample_field :: "cstring \<Rightarrow> cstring \<Rightarrow> cstring \<Rightarrow> field_value" where
  "sample_field n v fmt = \<lparr>fv_name = n, fv_value = v, fv_large = None, fv_format = fmt\<rparr>"

definition sample_insert :: insert_request where
  "sample_insert = \<lparr>ir_table = ''EMP'', ir_owner = ''HR'',
     ir_rows = [[sample_field ''id'' ''7'' [], sample_field ''Born'' ''29/02/1500'' ''DD/MM/YYYY'']]\<rparr>"

definition sample_inserted :: insert_request where
  "sample_inserted = sample_insert\<lparr>ir_rows := [[sample_field ''id'' ''7'' [],
     sample_field ''Born'' ''1500-02-29 00:00:00'' []]]\<rparr>"

lemma sample_table: "table_columns sample_fetch sample_env None db t ow = Some (Some sample_columns, None, db + 1)"
  by (simp add: table_columns_def metadata_cache_get_or_fetch_def sample_fetch_def MAX_TABLE_COLUMNS_def Let_def)

lemma sample_day: "normalize_client_date_value ''DATE'' ''DD/MM/YYYY'' ''29/02/1500'' 4096 512 (2026, 11) =
    Inr (''1500-02-29 00:00:00'', [])"
proof -
  have "db_type_class (Some ''DATE'') = DB_TYPE_CLASS_DATE" by code_simp
  moreover have "date_normalize (Some ''29/02/1500'') (Some ''DD/MM/YYYY'') False True 32 256 2026 11 =
      (0, Some ''1500-02-29 00:00:00'', [])"
    using sample_1500 by (auto simp: date_normalize_def DATE_NORMALIZE_OUT_MAX_def split: sum.splits prod.splits)
  ultimately show ?thesis
    by (simp add: normalize_client_date_value_def DATE_NORMALIZE_OUT_MAX_def DATE_NORM_OK_def DATE_NORM_BAD_MASK_def)
qed

lemma sample_fields:
  "check_field lead wrap ow t sample_columns (2026, 11) 1 (sample_field ''id'' ''7'' []) = (sample_field ''id'' ''7'' [], None)"
  "check_field lead wrap ow t sample_columns (2026, 11) 2 (sample_field ''Born'' ''29/02/1500'' ''DD/MM/YYYY'') =
     (sample_field ''Born'' ''1500-02-29 00:00:00'' [], None)"
proof -
  have c: "find_column sample_columns ''id'' = Some test_column"
    "find_column sample_columns ''Born'' = Some (test_column\<lparr>col_name := ''BORN'', data_type := ''DATE''\<rparr>)" by code_simp+
  have v: "fst (validate_field 512 (parsed_field_of 1 (sample_field ''id'' ''7'' []) test_column)) = FIELD_VALID"
    "fst (validate_field 512 (parsed_field_of 2 (sample_field ''Born'' ''1500-02-29 00:00:00'' [])
       (test_column\<lparr>col_name := ''BORN'', data_type := ''DATE''\<rparr>))) = FIELD_VALID" by code_simp+
  have "normalize_client_date_value ''NUMBER'' [] ''7'' 4096 512 (2026, 11) = Inr (''7'', [])" by code_simp
  with c v sample_day show
    "check_field lead wrap ow t sample_columns (2026, 11) 1 (sample_field ''id'' ''7'' []) = (sample_field ''id'' ''7'' [], None)"
    "check_field lead wrap ow t sample_columns (2026, 11) 2 (sample_field ''Born'' ''29/02/1500'' ''DD/MM/YYYY'') =
     (sample_field ''Born'' ''1500-02-29 00:00:00'' [], None)"
    unfolding check_field_ok by (simp_all add: sample_field_def test_column_def)
qed

lemma sample_required: "filter required_column sample_columns = sample_columns"
  by code_simp

lemma sample_checked:
  "check_all (insert_row_check ''HR'' ''EMP'' sample_columns (\<lambda>_ _. (2026, 11))) 0 (ir_rows sample_insert) =
     (ir_rows sample_inserted, [])"
proof -
  have p: "row_has_field [sample_field ''id'' ''7'' [], sample_field ''Born'' ''1500-02-29 00:00:00'' []] (col_name c)"
    if "c \<in> set sample_columns" for c
  proof -
    have "list_all (\<lambda>c. row_has_field [sample_field ''id'' ''7'' [], sample_field ''Born'' ''1500-02-29 00:00:00'' []] (col_name c))
        sample_columns" by code_simp
    with that show ?thesis by (auto simp: list_all_iff)
  qed
  show ?thesis unfolding check_all_ok
    using sample_fields p
    by (auto simp: sample_insert_def sample_inserted_def row_check_ok msgs_def insert_field_def numeral_2_eq_2)
qed

lemma sample_validated:
  "level2_validate_insert sample_fetch (Some 500) sample_env (\<lambda>_ _. (2026, 11)) None 0 (Some sample_insert) =
     Some ((LEVEL2_OK, set_ok), Some sample_inserted, None, 1)"
  unfolding insert_ok using sample_checked by (simp add: sample_table) (simp add: sample_insert_def sample_inserted_def)

lemma insert_validated_twice_witness:
  "level2_validate_insert sample_fetch (Some 500) sample_env (\<lambda>_ _. (2027, 1)) None 5 (Some sample_inserted) =
     Some ((LEVEL2_OK, set_ok), Some sample_inserted, None, 6)"
  by (rule insert_validated_twice [OF sample_validated, of sample_columns]) (simp_all add: sample_table)

lemma keys_again:
  assumes "check_all (\<lambda>k wk. msgs (check_key ow t cols (kd k) wk)) 0 ks = (ks', [])"
  shows "check_all (\<lambda>k wk. msgs (check_key ow t cols (kd2 k) wk)) 0 ks' = (ks', []) \<and> length ks' = length ks"
proof (intro conjI)
  show "check_all (\<lambda>k wk. msgs (check_key ow t cols (kd2 k) wk)) 0 ks' = (ks', [])"
    by (rule check_all_again [OF assms]) (simp only: msgs_ok, erule check_key_again)
qed (rule check_all_msgs [OF assms])

lemma sets_again:
  assumes "check_all (\<lambda>f fv. msgs (set_field ow t cols (fd f) f fv)) 0 fs = (fs', [])"
  shows "check_all (\<lambda>f fv. msgs (set_field ow t cols (fd2 f) f fv)) 0 fs' = (fs', []) \<and> length fs' = length fs"
proof (intro conjI)
  show "check_all (\<lambda>f fv. msgs (set_field ow t cols (fd2 f) f fv)) 0 fs' = (fs', [])"
    by (rule check_all_again [OF assms]) (simp only: msgs_ok set_field_def, erule check_field_again)
qed (rule check_all_msgs [OF assms])

text \<open>
  A validated UPDATE survives its second validation, WHERE keys included: a key that was a date in the client's
  format is canonical after the first pass, and its format is gone.
\<close>

theorem update_validated_twice:
  assumes "level2_validate_update fetch en kd fd cache db (Some req) = Some ((LEVEL2_OK, st), Some req', cache', db')"
    and "table_columns fetch en cache db (ur_table req) (ur_owner req) = Some (Some cols, cache', db')"
    and "table_columns fetch2 en2 cache2 db2 (ur_table req) (ur_owner req) = Some (Some cols, cache2', db2')"
  shows "level2_validate_update fetch2 en2 kd2 fd2 cache2 db2 (Some req') =
      Some ((LEVEL2_OK, set_ok), Some req', cache2', db2')"
proof -
  from assms(1) [unfolded update_ok] assms(2) obtain ks fs where ne: "ur_table req \<noteq> []" "ur_keys req \<noteq> []" "ur_fields req \<noteq> []"
    and k: "check_all (\<lambda>k wk. msgs (check_key (ur_owner req) (ur_table req) cols (kd k) wk)) 0 (ur_keys req) = (ks, [])"
    and f: "check_all (\<lambda>f fv. msgs (set_field (ur_owner req) (ur_table req) cols (fd f) f fv)) 0 (ur_fields req) = (fs, [])"
    and req': "req' = req\<lparr>ur_keys := ks, ur_fields := fs\<rparr>" by auto
  from ne keys_again [OF k, of kd2] sets_again [OF f, of fd2] assms(3) show ?thesis
    unfolding update_ok by (auto simp: req')
qed

lemma delete_validated_twice:
  assumes "level2_validate_delete fetch en kd cache db (Some req) = Some ((LEVEL2_OK, st), Some req', cache', db')"
    and "table_columns fetch en cache db (dr_table req) (dr_owner req) = Some (Some cols, cache', db')"
    and "table_columns fetch2 en2 cache2 db2 (dr_table req) (dr_owner req) = Some (Some cols, cache2', db2')"
  shows "level2_validate_delete fetch2 en2 kd2 cache2 db2 (Some req') = Some ((LEVEL2_OK, set_ok), Some req', cache2', db2')"
proof -
  from assms(1) [unfolded delete_ok] assms(2) obtain ks where ne: "dr_table req \<noteq> []" "dr_keys req \<noteq> []"
    and k: "check_all (\<lambda>k wk. msgs (check_key (dr_owner req) (dr_table req) cols (kd k) wk)) 0 (dr_keys req) = (ks, [])"
    and req': "req' = req\<lparr>dr_keys := ks\<rparr>" by auto
  from ne keys_again [OF k, of kd2] assms(3) show ?thesis unfolding delete_ok by (auto simp: req')
qed

definition sample_update :: update_request where
  "sample_update = \<lparr>ur_table = ''EMP'', ur_owner = ''HR'',
     ur_keys = [\<lparr>wk_name = ''Born'', wk_value = ''29/02/1500'', wk_format = ''DD/MM/YYYY''\<rparr>],
     ur_fields = [sample_field ''id'' ''7'' []]\<rparr>"

definition sample_updated :: update_request where
  "sample_updated = sample_update\<lparr>ur_keys := [\<lparr>wk_name = ''Born'', wk_value = ''1500-02-29 00:00:00'', wk_format = []\<rparr>]\<rparr>"

lemma sample_update_validated:
  "level2_validate_update sample_fetch sample_env (\<lambda>_. (2026, 11)) (\<lambda>_. (2026, 11)) None 0 (Some sample_update) =
     Some ((LEVEL2_OK, set_ok), Some sample_updated, None, 1)"
proof -
  have c: "find_column sample_columns ''Born'' = Some (test_column\<lparr>col_name := ''BORN'', data_type := ''DATE''\<rparr>)" by code_simp
  have "check_key ''HR'' ''EMP'' sample_columns (2026, 11) \<lparr>wk_name = ''Born'', wk_value = ''29/02/1500'', wk_format = ''DD/MM/YYYY''\<rparr> =
      (\<lparr>wk_name = ''Born'', wk_value = ''1500-02-29 00:00:00'', wk_format = []\<rparr>, None)"
    using c sample_day by (simp add: check_key_ok test_column_def)
  with sample_fields(1) show ?thesis
    unfolding update_ok by (simp add: sample_table sample_update_def sample_updated_def msgs_def set_field_def)
qed

lemma update_validated_twice_witness:
  "level2_validate_update sample_fetch sample_env (\<lambda>_. (2027, 1)) (\<lambda>_. (2027, 1)) None 5 (Some sample_updated) =
     Some ((LEVEL2_OK, set_ok), Some sample_updated, None, 6)"
  by (rule update_validated_twice [OF sample_update_validated, of sample_columns]) (simp_all add: sample_table)



subsection \<open>What gets through\<close>

text \<open>A value longer than 1023 bytes is judged by its first 1023: a column of 1500 takes a value of any length.\<close>

lemma oversize_value_accepted:
  assumes "is_string_type (data_type col)" "ci_length col \<ge> 1023" "length (data_type col) < 128"
  shows "fst (validate_field 512 (parsed_field_of n fv col)) = FIELD_VALID \<or> field_value_get fv = []"
  using assms
  by (auto simp: validate_field_def parsed_field_of_def validate_string_def valid_field_def Let_def is_numeric_type_def
      is_string_type_def)

text \<open>A large value of a date column is not looked at: the check reads the preview.\<close>

lemma large_date_unchecked:
  "check_field lead wrap ow t sample_columns (2026, 11) 2
     \<lparr>fv_name = ''Born'', fv_value = ''29/02/1500'', fv_large = Some ''tomorrow'', fv_format = ''DD/MM/YYYY''\<rparr> =
   (\<lparr>fv_name = ''Born'', fv_value = ''1500-02-29 00:00:00'', fv_large = Some ''tomorrow'', fv_format = []\<rparr>, None)"
proof -
  have "find_column sample_columns ''Born'' = Some (test_column\<lparr>col_name := ''BORN'', data_type := ''DATE''\<rparr>)"
    "fst (validate_field 512 (parsed_field_of 2 \<lparr>fv_name = ''Born'', fv_value = ''1500-02-29 00:00:00'',
        fv_large = Some ''tomorrow'', fv_format = []\<rparr> (test_column\<lparr>col_name := ''BORN'', data_type := ''DATE''\<rparr>))) = FIELD_VALID"
    by code_simp+
  with sample_day show ?thesis unfolding check_field_ok by (simp add: test_column_def)
qed

text \<open>Rows with a repeated name count as setting the same columns.\<close>

lemma repeated_names_match:
  "row_field_sets_match [sample_field ''A'' v [], sample_field ''A'' w []] [sample_field ''A'' v [], sample_field ''B'' w []]"
  by (simp add: row_field_sets_match_def sample_field_def ci_eq_def)

end
