(* ===== verification/Dml_Requests.thy ===== *)
theory Dml_Requests
  imports Level2_Twice
begin

text \<open>
  From a validated request to the statement and its values: \<open>build_insert_ctx_from_request\<close>,
  \<open>build_update_ctx_from_request\<close> and \<open>build_delete_ctx_from_request\<close> of the three execute modules. A context is
  returned with the values bound to it: one row of values per row of an INSERT, one for the SET clause, the key values.
  Logging is left out.
\<close>

subsection \<open>Values\<close>

definition MAX_COL_VALUE_SIZE :: nat where "MAX_COL_VALUE_SIZE = 32768"
definition MAX_INSERT_ROWS :: nat where "MAX_INSERT_ROWS = 5000"

record col_value =
  cv_value :: cstring
  cv_large :: "cstring option"
  cv_empty :: bool

text \<open>\<open>mem\<close>: whether the copy of a long value could be allocated.\<close>

definition store_value :: "bool \<Rightarrow> cstring \<Rightarrow> col_value" where
  "store_value mem s =
     (if length s < MAX_COL_VALUE_SIZE then \<lparr>cv_value = c_strncpy MAX_COL_VALUE_SIZE s, cv_large = None, cv_empty = s = []\<rparr>
      else \<lparr>cv_value = c_strncpy MAX_COL_VALUE_SIZE s, cv_large = (if mem then Some s else None), cv_empty = s = []\<rparr>)"

definition col_value_get :: "col_value \<Rightarrow> cstring" where
  "col_value_get v = (case cv_large v of None \<Rightarrow> cv_value v | Some s \<Rightarrow> s)"

lemma col_value_get_store: "mem \<or> length s < MAX_COL_VALUE_SIZE \<Longrightarrow> col_value_get (store_value mem s) = s"
  by (auto simp: store_value_def col_value_get_def MAX_COL_VALUE_SIZE_def c_strncpy_def)

subsection \<open>INSERT\<close>

fun find_field :: "insert_row \<Rightarrow> cstring \<Rightarrow> field_value option" where
  "find_field [] name = None"
| "find_field (fv # row) name = (if ci_eq (fv_name fv) name then Some fv else find_field row name)"

fun row_values :: "(nat \<Rightarrow> bool) \<Rightarrow> insert_row \<Rightarrow> nat \<Rightarrow> cstring list \<Rightarrow> col_value list option" where
  "row_values mem row c [] = Some []"
| "row_values mem row c (name # names) =
     (case find_field row name of
        None \<Rightarrow> None
      | Some fv \<Rightarrow>
          map_option (\<lambda>vs. store_value (mem c) (field_value_get fv) # vs) (row_values mem row (c + 1) names))"

fun all_row_values :: "(nat \<Rightarrow> nat \<Rightarrow> bool) \<Rightarrow> cstring list \<Rightarrow> nat \<Rightarrow> insert_row list \<Rightarrow> col_value list list option" where
  "all_row_values mem names r [] = Some []"
| "all_row_values mem names r (row # rows) =
     (if length row \<noteq> length names then None
      else (case row_values (mem r) row 0 names of
              None \<Rightarrow> None
            | Some vs \<Rightarrow> map_option (\<lambda>rest. vs # rest) (all_row_values mem names (r + 1) rows)))"

definition build_insert_ctx_from_request ::
    "bool \<Rightarrow> (nat \<Rightarrow> nat \<Rightarrow> bool) \<Rightarrow> insert_request \<Rightarrow> (insert_ctx \<times> col_value list list) option" where
  "build_insert_ctx_from_request calloc_ok mem req =
     (if ir_rows req = [] \<or> length (ir_rows req) > MAX_INSERT_ROWS then None
      else
        let row0 = hd (ir_rows req); names = map (\<lambda>fv. c_strncpy 128 (fv_name fv)) row0
        in if row0 = [] \<or> length row0 > MAX_INSERT_COLS \<or> \<not> calloc_ok then None
           else map_option
             (\<lambda>vals. (\<lparr>ins_table = c_strncpy 128 (ir_table req), ins_owner = c_strncpy 128 (ir_owner req), ins_cols = names\<rparr>, vals))
             (all_row_values mem names 0 (ir_rows req)))"

subsection \<open>UPDATE and DELETE\<close>

definition build_update_ctx_from_request ::
    "bool \<Rightarrow> (nat \<Rightarrow> bool) \<Rightarrow> update_request \<Rightarrow> (update_ctx \<times> col_value list \<times> cstring list) option" where
  "build_update_ctx_from_request calloc_ok mem req =
     (if ur_keys req = [] \<or> length (ur_keys req) > MAX_UPD_KEY_COLS then None
      else if ur_fields req = [] \<or> length (ur_fields req) > MAX_UPD_COLS then None
      else if \<not> calloc_ok then None
      else Some
        (\<lparr>upd_table = c_strncpy 128 (ur_table req), upd_owner = c_strncpy 128 (ur_owner req),
          upd_cols = map (\<lambda>fv. c_strncpy 128 (fv_name fv)) (ur_fields req),
          upd_keys = map (\<lambda>k. c_strncpy 128 (wk_name k)) (ur_keys req)\<rparr>,
         map (\<lambda>(c, fv). store_value (mem c) (field_value_get fv)) (enumerate 0 (ur_fields req)),
         map (\<lambda>k. c_strncpy MAX_COL_VALUE_SIZE (wk_value k)) (ur_keys req)))"

definition del_key_of :: "col_info list \<Rightarrow> where_key \<Rightarrow> del_key_field" where
  "del_key_of cols k =
     (let name = c_strncpy 128 (wk_name k)
      in \<lparr>field_name = name, field_type = c_strncpy 128 (find_type (map col_metadata.truncate cols) ''VARCHAR2'' name)\<rparr>)"

definition build_delete_ctx_from_request :: "col_info list \<Rightarrow> delete_request \<Rightarrow> (delete_ctx \<times> cstring list) option" where
  "build_delete_ctx_from_request cols req =
     (if dr_keys req = [] \<or> length (dr_keys req) > MAX_DEL_KEY_COLS then None
      else Some
        (\<lparr>del_table = c_strncpy 128 (dr_table req), del_owner = c_strncpy 128 (dr_owner req),
          del_keys = map (del_key_of cols) (dr_keys req)\<rparr>,
         map (\<lambda>k. c_strncpy MAX_COL_VALUE_SIZE (wk_value k)) (dr_keys req)))"

subsection \<open>Every value in its place\<close>

lemma find_field_Some: "find_field row n = Some fv \<Longrightarrow> fv \<in> set row \<and> ci_eq (fv_name fv) n"
  by (induction row) (auto split: if_splits)

lemma find_field_distinct:
  "distinct_names (map fv_name row) \<Longrightarrow> fv \<in> set row \<Longrightarrow> ci_eq (fv_name fv) n \<Longrightarrow> find_field row n = Some fv"
  by (induction row) (auto simp: distinct_names_def ci_eq_def image_iff)

lemma row_values_ok:
  assumes "\<forall>n \<in> set names. find_field row n \<noteq> None" "\<forall>c. mem c"
  shows "row_values mem row c names = Some (map (\<lambda>n. store_value True (field_value_get (the (find_field row n)))) names)"
  using assms(1) by (induction names arbitrary: c) (use assms(2) in auto)

lemma all_row_values_ok:
  assumes "\<forall>row \<in> set rows. length row = length names \<and> (\<forall>n \<in> set names. find_field row n \<noteq> None)" "\<forall>r c. mem r c"
  shows "all_row_values mem names r rows =
    Some (map (\<lambda>row. map (\<lambda>n. store_value True (field_value_get (the (find_field row n)))) names) rows)"
  using assms(1)
proof (induction rows arbitrary: r)
  case (Cons row rows)
  have "row_values (mem r) row 0 names = Some (map (\<lambda>n. store_value True (field_value_get (the (find_field row n)))) names)"
    by (rule row_values_ok) (use Cons.prems assms(2) in auto)
  with Cons show ?case by simp
qed simp

text \<open>Rows that match the first row, whose names are distinct, have the same names in some order.\<close>

lemma match_perm:
  assumes "names_match a b" "distinct_names a"
  shows "distinct_names b \<and> (\<forall>n \<in> set b. \<exists>k \<in> set a. ci_eq k n)"
proof -
  let ?A = "map (map c_tolower) a" and ?B = "map (map c_tolower) b"
  from assms have sub: "set ?A \<subseteq> set ?B" and len: "length ?A = length ?B" and d: "distinct ?A"
    by (fastforce simp: names_match_def ci_eq_def distinct_names_def)+
  have "card (set ?A) = length ?B" using distinct_card [OF d] len by simp
  moreover have "card (set ?B) \<le> length ?B" by (rule card_length)
  ultimately have eq: "set ?A = set ?B" and "card (set ?B) = length ?B"
    using sub by (metis List.finite_set card_mono card_seteq)+
  then have "distinct ?B" by (metis card_distinct)
  moreover have "\<forall>n \<in> set b. \<exists>k \<in> set a. map c_tolower k = map c_tolower n"
    using eq by (metis (no_types, lifting) image_iff set_map)
  ultimately show ?thesis by (simp add: distinct_names_def ci_eq_def)
qed

lemma names_match_refl: "names_match a a"
  by (auto simp: names_match_def ci_eq_def)



subsection \<open>A condition for every key\<close>

lemma find_type_column:
  "find_type (map col_metadata.truncate cols) dflt n = (case find_column cols n of None \<Rightarrow> dflt | Some c \<Rightarrow> data_type c)"
  by (induction cols) (auto simp: col_metadata.defs)

lemma keys_checked:
  assumes "check_all (\<lambda>k wk. msgs (check_key ow t cols (kd k) wk)) 0 ks = (ks', [])" "k \<in> set ks'"
  shows "wk_value k \<noteq> [] \<and> (\<exists>c. find_column cols (wk_name k) = Some c)"
proof -
  from assms obtain k0 day where "check_key ow t cols day k0 = (k, None)"
    unfolding check_all_ok msgs_ok by (metis in_set_conv_nth)
  then show ?thesis by (auto simp: check_key_ok)
qed

text \<open>C21. A validated DELETE never removes more than its keys say. It has at least one key, and with at most 32 of them the
  statement is the DELETE of that table with one condition for each key, none cut off, the placeholder converted as the
  real type of the column requires, and the values bound are the keys' values, whole and not empty. With more keys
  nothing is executed.\<close>

theorem delete_condition_per_key:
  assumes "level2_validate_delete fetch en kd cache db (Some req0) = Some ((LEVEL2_OK, st), Some req, cache', db')"
    and "table_columns fetch en cache db (dr_table req0) (dr_owner req0) = Some (Some cols, cache', db')"
    and "\<forall>c \<in> set cols. col_fits c" "driver_dialect dl rep"
    and "length (dr_table req0) < 128" "length (dr_owner req0) < 128"
    and "\<forall>k \<in> set (dr_keys req). length (wk_name k) < 128 \<and> length (wk_value k) < 4096"
  shows "dr_keys req \<noteq> [] \<and>
    (length (dr_keys req) \<le> MAX_DEL_KEY_COLS \<longrightarrow>
      (\<exists>dc. build_delete_ctx_from_request cols req = Some (dc, map wk_value (dr_keys req)) \<and>
        build_delete_sql dl dc n = fmt_out n (''DELETE FROM '' @
          (if dr_owner req \<noteq> [] then dr_owner req @ ''.'' else []) @ dr_table req @ '' WHERE '' @
          sep_by '' AND '' (where_exprs dl 1
            (map (\<lambda>k. (wk_name k, data_type (the (find_column cols (wk_name k))))) (dr_keys req)))))) \<and>
    (\<forall>k \<in> set (dr_keys req). wk_value k \<noteq> [] \<and> find_column cols (wk_name k) \<noteq> None) \<and>
    (MAX_DEL_KEY_COLS < length (dr_keys req) \<longrightarrow> build_delete_ctx_from_request cols req = None)"
proof -
  from assms(1) [unfolded delete_ok] assms(2) obtain ks where
    chk: "check_all (\<lambda>k wk. msgs (check_key (dr_owner req0) (dr_table req0) cols (kd k) wk)) 0 (dr_keys req0) = (ks, [])"
    and req: "req = req0\<lparr>dr_keys := ks\<rparr>" and ne: "dr_keys req0 \<noteq> []" by auto
  have ks: "ks \<noteq> []" using ne check_all_msgs [OF chk] by auto
  note ok = keys_checked [OF chk]
  define dc where "dc = \<lparr>del_table = dr_table req0, del_owner = dr_owner req0, del_keys = map (del_key_of cols) ks\<rparr>"
  have key: "field_name (del_key_of cols k) = wk_name k \<and> field_type (del_key_of cols k) = data_type (the (find_column cols (wk_name k)))"
    if k: "k \<in> set ks" for k
  proof -
    from ok [OF k] obtain c where c: "find_column cols (wk_name k) = Some c" by blast
    with find_column_Some [OF c] assms(3) have "length (data_type c) < 128" by (auto simp: col_fits_def text_fits_def)
    moreover have "length (wk_name k) < 128" using assms(7) k by (simp add: req)
    ultimately show ?thesis using c by (simp add: del_key_of_def Let_def find_type_column c_strncpy_def)
  qed
  have vals: "map (\<lambda>k. c_strncpy MAX_COL_VALUE_SIZE (wk_value k)) ks = map wk_value ks"
    using assms(7) by (auto simp: req c_strncpy_def MAX_COL_VALUE_SIZE_def)
  have keys: "map (\<lambda>k. (field_name k, field_type k)) (del_keys dc) = map (\<lambda>k. (wk_name k, data_type (the (find_column cols (wk_name k))))) ks"
    using key by (simp add: dc_def)
  have "build_delete_sql dl dc n = fmt_out n (''DELETE FROM '' @ (if del_owner dc \<noteq> [] then del_owner dc @ ''.'' else []) @
      del_table dc @ '' WHERE '' @ sep_by '' AND '' (where_exprs dl 1 (map (\<lambda>k. (field_name k, field_type k)) (del_keys dc))))"
    if "length ks \<le> MAX_DEL_KEY_COLS"
    by (rule dialect.build_delete_ok [OF driver_dialect_contract [OF assms(4)]])
       (use key assms(7) that in \<open>auto simp: dc_def req\<close>)
  moreover have "build_delete_ctx_from_request cols req =
      (if length ks \<le> MAX_DEL_KEY_COLS then Some (dc, map wk_value ks) else None)"
    using ks vals assms(5,6) by (auto simp: build_delete_ctx_from_request_def req dc_def c_strncpy_def)
  ultimately show ?thesis using ks ok by (auto simp: req keys) (simp_all add: dc_def)
qed

definition sample_delete :: delete_request where
  "sample_delete = \<lparr>dr_table = ''EMP'', dr_owner = ''HR'',
     dr_keys = [\<lparr>wk_name = ''Born'', wk_value = ''29/02/1500'', wk_format = ''DD/MM/YYYY''\<rparr>]\<rparr>"

definition sample_deleted :: delete_request where
  "sample_deleted = sample_delete\<lparr>dr_keys := [\<lparr>wk_name = ''Born'', wk_value = ''1500-02-29 00:00:00'', wk_format = []\<rparr>]\<rparr>"

lemma sample_delete_validated:
  "level2_validate_delete sample_fetch sample_env (\<lambda>_. (2026, 11)) None 0 (Some sample_delete) =
     Some ((LEVEL2_OK, set_ok), Some sample_deleted, None, 1)"
proof -
  have c: "find_column sample_columns ''Born'' = Some (test_column\<lparr>col_name := ''BORN'', data_type := ''DATE''\<rparr>)" by code_simp
  have "check_key ''HR'' ''EMP'' sample_columns (2026, 11) \<lparr>wk_name = ''Born'', wk_value = ''29/02/1500'', wk_format = ''DD/MM/YYYY''\<rparr> =
      (\<lparr>wk_name = ''Born'', wk_value = ''1500-02-29 00:00:00'', wk_format = []\<rparr>, None)"
    using c sample_day by (simp add: check_key_ok test_column_def)
  then show ?thesis unfolding delete_ok by (simp add: sample_table sample_delete_def sample_deleted_def msgs_def)
qed

lemma delete_condition_per_key_witness:
  "\<exists>dc. build_delete_ctx_from_request sample_columns sample_deleted = Some (dc, [''1500-02-29 00:00:00'']) \<and>
     build_delete_sql oracle_dialect dc 400 =
       fmt_out 400 (''DELETE FROM HR.EMP WHERE '' @ sep_by '' AND '' (where_exprs oracle_dialect 1 [(''Born'', ''DATE'')]))"
proof -
  have c: "find_column sample_columns ''Born'' = Some (test_column\<lparr>col_name := ''BORN'', data_type := ''DATE''\<rparr>)" by code_simp
  have "list_all col_fits sample_columns" by code_simp
  then have f: "\<forall>c \<in> set sample_columns. col_fits c" by (simp add: list_all_iff)
  have t: "table_columns sample_fetch sample_env None 0 (dr_table sample_delete) (dr_owner sample_delete) =
      Some (Some sample_columns, None, 1)" by (simp add: sample_table)
  have d: "driver_dialect oracle_dialect oracle_reports" by (simp add: driver_dialect_def)
  have s: "length (dr_table sample_delete) < 128" "length (dr_owner sample_delete) < 128"
    "\<forall>k \<in> set (dr_keys sample_deleted). length (wk_name k) < 128 \<and> length (wk_value k) < 4096"
    by (simp_all add: sample_delete_def sample_deleted_def)
  from delete_condition_per_key [OF sample_delete_validated t f d s, of 400] c show ?thesis
    by (simp add: sample_deleted_def sample_delete_def MAX_DEL_KEY_COLS_def del: where_exprs.simps)
qed

text \<open>The same for UPDATE: its keys are real columns with values that are not empty, and its context binds them whole.\<close>

lemma update_ctx_keys:
  assumes "level2_validate_update fetch en kd fd cache db (Some req0) = Some ((LEVEL2_OK, st), Some req, cache', db')"
    and "length (ur_keys req) \<le> MAX_UPD_KEY_COLS" "length (ur_fields req) \<le> MAX_UPD_COLS" "\<forall>c. mem c"
    and "\<forall>k \<in> set (ur_keys req). length (wk_name k) < 128 \<and> length (wk_value k) < 4096"
  shows "ur_keys req \<noteq> [] \<and> (\<exists>uc. build_update_ctx_from_request True mem req =
      Some (uc, map (\<lambda>fv. store_value True (field_value_get fv)) (ur_fields req), map wk_value (ur_keys req)) \<and>
    upd_keys uc = map wk_name (ur_keys req)) \<and> (\<forall>k \<in> set (ur_keys req). wk_value k \<noteq> [])"
proof -
  from assms(1) [unfolded update_ok] obtain cols ks fs where
    k: "check_all (\<lambda>k wk. msgs (check_key (ur_owner req0) (ur_table req0) cols (kd k) wk)) 0 (ur_keys req0) = (ks, [])"
    and f: "check_all (\<lambda>f fv. msgs (set_field (ur_owner req0) (ur_table req0) cols (fd f) f fv)) 0 (ur_fields req0) = (fs, [])"
    and r: "req = req0\<lparr>ur_keys := ks, ur_fields := fs\<rparr>" and ne: "ur_keys req0 \<noteq> []" "ur_fields req0 \<noteq> []" by auto
  have ne': "ks \<noteq> []" "fs \<noteq> []" using ne check_all_msgs [OF k] check_all_msgs [OF f] by auto
  have e: "map (\<lambda>(c, fv). store_value (mem c) (field_value_get fv)) (enumerate i gs) =
      map (\<lambda>fv. store_value True (field_value_get fv)) gs" for i and gs :: "field_value list"
    using assms(4) by (induction gs arbitrary: i) simp_all
  have "map (\<lambda>k. c_strncpy 128 (wk_name k)) ks = map wk_name ks" "map (\<lambda>k. c_strncpy MAX_COL_VALUE_SIZE (wk_value k)) ks = map wk_value ks"
    using assms(5) by (auto simp: r c_strncpy_def MAX_COL_VALUE_SIZE_def)
  with ne' assms(2,3) e keys_checked [OF k] show ?thesis by (simp add: build_update_ctx_from_request_def r)
qed

end
