(* ===== verification/Ddl_Modules.thy ===== *)
theory Ddl_Modules
  imports Field_Validate C_Parsing
begin

text \<open>
  The six operations that change the schema (\<^verbatim>\<open>src/execute/DDL_Modules.c\<close>, \<^verbatim>\<open>DDL_Modules.h\<close>): the requests, the
  checks and the statement texts. A check answers the message of the first rule that fails, cut to the caller's
  buffer, or \<open>None\<close>; a rule is a condition with its message, in the order of the code. The counts of the arrays are
  the lengths of the lists; every \<^verbatim>\<open>char\<close> array is a text. Logging is left out. The functions
  \<^verbatim>\<open>parse_*_request\<close> and \<^verbatim>\<open>get_*_template\<close> of the file have no callers and are not modelled.
\<close>

named_theorems accepted \<open>when the checks accept\<close>

subsection \<open>Rules and messages\<close>

type_synonym rule = "bool \<times> cstring"

fun first_error :: "rule list \<Rightarrow> cstring option" where
  "first_error [] = None"
| "first_error ((bad, msg) # rules) = (if bad then Some msg else first_error rules)"

definition verdict :: "nat \<Rightarrow> rule list \<Rightarrow> cstring option" where
  "verdict n rules = map_option (c_snprintf n) (first_error rules)"

lemma first_error_None [accepted]: "first_error rules = None \<longleftrightarrow> list_all (\<lambda>r. \<not> fst r) rules"
  by (induction rules rule: first_error.induct) auto

lemma verdict_None [accepted]: "verdict n rules = None \<longleftrightarrow> list_all (\<lambda>r. \<not> fst r) rules"
  by (simp add: verdict_def first_error_None)

definition invalid_name :: "cstring \<Rightarrow> cstring \<Rightarrow> cstring" where
  "invalid_name what s = ''Invalid '' @ what @ '' '' @ quoted s @ '': must start with a letter and contain only letters, digits, '' @
     quoted ''_'' @ '', '' @ quoted ''$'' @ '' or '' @ quoted ''#''"

definition invalid_of :: "cstring \<Rightarrow> cstring \<Rightarrow> cstring \<Rightarrow> cstring \<Rightarrow> cstring" where
  "invalid_of what s kind name = ''Invalid '' @ what @ '' '' @ quoted s @ '' for '' @ kind @ '' '' @ quoted name"

definition at_position :: "nat \<Rightarrow> cstring" where
  "at_position i = '' (position '' @ dec (i + 1) @ '')''"

definition too_many :: "cstring \<Rightarrow> cstring \<Rightarrow> cstring \<Rightarrow> nat \<Rightarrow> nat \<Rightarrow> cstring" where
  "too_many what kind name given limit = ''Too many '' @ what @ '' for '' @ kind @ '' '' @ quoted name @ '': '' @ dec given @
     '' given, max '' @ dec limit"

definition numbered :: "'a list \<Rightarrow> (nat \<times> 'a) list" where
  "numbered xs = enumerate 0 xs"

lemma list_all_numbered: "list_all P (concat (map f (numbered xs))) \<longleftrightarrow> (\<forall>i < length xs. list_all P (f (i, xs ! i)))"
  by (auto simp: numbered_def list_all_iff in_set_enumerate_eq)

subsection \<open>Names, passwords, quotas\<close>

definition identifier_char :: "char \<Rightarrow> bool" where
  "identifier_char c \<longleftrightarrow> c_isalnum c \<or> c = CHR ''_'' \<or> c = CHR ''$'' \<or> c = CHR ''#''"

definition is_valid_identifier :: "cstring \<Rightarrow> bool" where
  "is_valid_identifier s \<longleftrightarrow> s \<noteq> [] \<and> c_isalpha (hd s) \<and> list_all identifier_char s"

definition c_iscntrl :: "char \<Rightarrow> bool" where
  "c_iscntrl c \<longleftrightarrow> byte c < 32 \<or> byte c = 127"

definition is_safe_password :: "cstring \<Rightarrow> bool" where
  "is_safe_password s \<longleftrightarrow> s \<noteq> [] \<and>
     list_all (\<lambda>c. \<not> (c = CHR 0x27 \<or> c = CHR 0x22 \<or> c = CHR '';'' \<or> c = CHR 0x5C \<or> c_iscntrl c \<or> c_isspace c)) s"

definition is_valid_quota :: "cstring \<Rightarrow> bool" where
  "is_valid_quota s \<longleftrightarrow> s \<noteq> [] \<and>
     (s = ''UNLIMITED'' \<or>
      (takeWhile c_isdigit s \<noteq> [] \<and>
       (case dropWhile c_isdigit s of
          [] \<Rightarrow> False
        | c # rest \<Rightarrow> (c = CHR ''K'' \<or> c = CHR ''M'' \<or> c = CHR ''G'') \<and> rest = [])))"

subsection \<open>CREATE TABLE: request and check\<close>

definition DDL_MAX_TABLE_COLUMNS :: nat where "DDL_MAX_TABLE_COLUMNS = 64"
definition MAX_PRIMARY_KEY_COLUMNS :: nat where "MAX_PRIMARY_KEY_COLUMNS = 16"
definition MAX_COLUMN_LENGTH :: int where "MAX_COLUMN_LENGTH = 32767"
definition MAX_NUMBER_PRECISION :: int where "MAX_NUMBER_PRECISION = 38"

record column_def =
  cd_name :: cstring
  cd_type :: cstring
  cd_length :: int
  cd_precision :: int
  cd_scale :: int
  cd_nullable :: int
  cd_default :: cstring

record create_table_request =
  ct_table :: cstring
  ct_owner :: cstring
  ct_columns :: "column_def list"
  ct_key :: "cstring list"

definition is_recognised_data_type :: "cstring \<Rightarrow> bool" where
  "is_recognised_data_type t \<longleftrightarrow> t \<in> set [''VARCHAR2'', ''CHAR'', ''NUMBER'', ''DATE'', ''TIMESTAMP'', ''CLOB'', ''BLOB'']"

definition type_requires_length :: "cstring \<Rightarrow> bool" where
  "type_requires_length t \<longleftrightarrow> t = ''VARCHAR2'' \<or> t = ''CHAR''"

definition column_rules :: "cstring \<Rightarrow> column_def list \<Rightarrow> nat \<times> column_def \<Rightarrow> rule list" where
  "column_rules table cols = (\<lambda>(i, col).
     (\<not> is_valid_identifier (cd_name col),
        ''Invalid column name '' @ quoted (cd_name col) @ at_position i @ '' for table '' @ quoted table)
     # map (\<lambda>j. (cd_name (cols ! j) = cd_name col,
        ''Duplicate column name '' @ quoted (cd_name col) @ '' (positions '' @ dec (j + 1) @ '' and '' @ dec (i + 1) @
          '') for table '' @ quoted table)) [0..<i]
     @ [(\<not> is_recognised_data_type (cd_type col),
          ''Invalid data_type '' @ quoted (cd_type col) @ '' for column '' @ quoted (cd_name col) @ '' in table '' @ quoted table @
          '': expected one of VARCHAR2, CHAR, NUMBER, DATE, TIMESTAMP, CLOB, BLOB''),
        (type_requires_length (cd_type col) \<and> cd_length col \<le> 0,
          ''Column '' @ quoted (cd_name col) @ '' ('' @ cd_type col @ '') in table '' @ quoted table @
          '' requires a positive <length>''),
        (type_requires_length (cd_type col) \<and> cd_length col > MAX_COLUMN_LENGTH,
          ''Column '' @ quoted (cd_name col) @ '' ('' @ cd_type col @ '') in table '' @ quoted table @ '' has length '' @
          dec_int (cd_length col) @ '', exceeding the '' @ dec_int MAX_COLUMN_LENGTH @ '' limit''),
        (cd_type col = ''NUMBER'' \<and> cd_precision col > 0 \<and> cd_precision col > MAX_NUMBER_PRECISION,
          ''Column '' @ quoted (cd_name col) @ '' (NUMBER) in table '' @ quoted table @ '' has precision '' @
          dec_int (cd_precision col) @ '', exceeding the '' @ dec_int MAX_NUMBER_PRECISION @ '' limit''),
        (cd_type col = ''NUMBER'' \<and> cd_precision col > 0 \<and> (cd_scale col < 0 \<or> cd_scale col > cd_precision col),
          ''Column '' @ quoted (cd_name col) @ '' (NUMBER) in table '' @ quoted table @ '' has scale '' @
          dec_int (cd_scale col) @ '' incompatible with precision '' @ dec_int (cd_precision col))])"

definition key_rules :: "create_table_request \<Rightarrow> rule list" where
  "key_rules req = map (\<lambda>k. (k \<notin> set (map cd_name (ct_columns req)),
     ''Primary key references unknown column '' @ quoted k @ '' in table '' @ quoted (ct_table req))) (ct_key req)"

definition validate_create_table_request :: "nat \<Rightarrow> create_table_request \<Rightarrow> cstring option" where
  "validate_create_table_request n req = verdict n (
     [(\<not> is_valid_identifier (ct_table req), invalid_name ''table_name'' (ct_table req)),
      (ct_owner req \<noteq> [] \<and> \<not> is_valid_identifier (ct_owner req), invalid_of ''owner'' (ct_owner req) ''table'' (ct_table req)),
      (length (ct_columns req) = 0,
         ''No columns given for table '' @ quoted (ct_table req) @ '' - at least one <column> is required''),
      (length (ct_columns req) > DDL_MAX_TABLE_COLUMNS,
         too_many ''columns'' ''table'' (ct_table req) (length (ct_columns req)) DDL_MAX_TABLE_COLUMNS)]
     @ concat (map (column_rules (ct_table req) (ct_columns req)) (numbered (ct_columns req)))
     @ [(length (ct_key req) > MAX_PRIMARY_KEY_COLUMNS,
          too_many ''primary key columns'' ''table'' (ct_table req) (length (ct_key req)) MAX_PRIMARY_KEY_COLUMNS)]
     @ key_rules req)"

subsection \<open>CREATE VIEW: request and check\<close>

definition MAX_VIEW_COLUMNS :: nat where "MAX_VIEW_COLUMNS = 64"

record create_view_request =
  cv_name :: cstring
  cv_owner :: cstring
  cv_replace :: int
  cv_force :: int
  cv_columns :: "cstring list"
  cv_query :: cstring

definition alias_rules :: "create_view_request \<Rightarrow> nat \<times> cstring \<Rightarrow> rule list" where
  "alias_rules req = (\<lambda>(i, c). [(\<not> is_valid_identifier c,
     ''Invalid column alias '' @ quoted c @ at_position i @ '' for view '' @ quoted (cv_name req))])"

definition validate_create_view_request :: "nat \<Rightarrow> create_view_request \<Rightarrow> cstring option" where
  "validate_create_view_request n req = verdict n (
     [(\<not> is_valid_identifier (cv_name req), invalid_name ''view_name'' (cv_name req)),
      (cv_owner req \<noteq> [] \<and> \<not> is_valid_identifier (cv_owner req), invalid_of ''owner'' (cv_owner req) ''view'' (cv_name req)),
      (length (cv_columns req) > MAX_VIEW_COLUMNS,
         too_many ''column aliases'' ''view'' (cv_name req) (length (cv_columns req)) MAX_VIEW_COLUMNS)]
     @ concat (map (alias_rules req) (numbered (cv_columns req)))
     @ [(cv_query req = [], ''No <query> given for view '' @ quoted (cv_name req)),
        (\<not> ci_prefix ''SELECT'' (dropWhile c_isspace (cv_query req)),
          ''query for view '' @ quoted (cv_name req) @ '' must start with SELECT''),
        (c_strchr (cv_query req) (CHR '';'') \<noteq> None,
          ''query for view '' @ quoted (cv_name req) @ '' must not contain '' @ quoted '';'' @
          '' - a CREATE VIEW ... AS clause takes exactly one statement'')])"

subsection \<open>CREATE USER: request and check\<close>

definition MAX_CREATE_USER_ROLES :: nat where "MAX_CREATE_USER_ROLES = 16"

record create_user_request =
  cu_username :: cstring
  cu_identified_by :: cstring
  cu_default_tablespace :: cstring
  cu_temp_tablespace :: cstring
  cu_quota :: cstring
  cu_quota_tablespace :: cstring
  cu_profile :: cstring
  cu_roles :: "cstring list"

definition role_rules :: "create_user_request \<Rightarrow> nat \<times> cstring \<Rightarrow> rule list" where
  "role_rules req = (\<lambda>(i, r). [(\<not> is_valid_identifier r,
     ''Invalid role '' @ quoted r @ at_position i @ '' for user '' @ quoted (cu_username req))])"

definition validate_create_user_request :: "nat \<Rightarrow> create_user_request \<Rightarrow> cstring option" where
  "validate_create_user_request n req = verdict n (
     [(\<not> is_valid_identifier (cu_username req), invalid_name ''username'' (cu_username req)),
      (\<not> is_safe_password (cu_identified_by req),
         ''Invalid password for user '' @ quoted (cu_username req) @ '': must be non-empty and must not contain quotes, '' @
         quoted '';'' @ '', '' @ quoted [CHR 0x5C] @ '', or whitespace''),
      (cu_default_tablespace req \<noteq> [] \<and> \<not> is_valid_identifier (cu_default_tablespace req),
         invalid_of ''default_tablespace'' (cu_default_tablespace req) ''user'' (cu_username req)),
      (cu_temp_tablespace req \<noteq> [] \<and> \<not> is_valid_identifier (cu_temp_tablespace req),
         invalid_of ''temp_tablespace'' (cu_temp_tablespace req) ''user'' (cu_username req)),
      (cu_quota req \<noteq> [] \<and> \<not> is_valid_quota (cu_quota req),
         invalid_of ''quota'' (cu_quota req) ''user'' (cu_username req) @ '': expected UNLIMITED or <digits>[K|M|G]''),
      (cu_quota req \<noteq> [] \<and> cu_quota_tablespace req = [],
         ''quota '' @ quoted (cu_quota req) @ '' given for user '' @ quoted (cu_username req) @
         '' but no quota_tablespace (and no default_tablespace to fall back to)''),
      (cu_quota req \<noteq> [] \<and> \<not> is_valid_identifier (cu_quota_tablespace req),
         invalid_of ''quota_tablespace'' (cu_quota_tablespace req) ''user'' (cu_username req)),
      (cu_profile req \<noteq> [] \<and> \<not> is_valid_identifier (cu_profile req),
         invalid_of ''profile'' (cu_profile req) ''user'' (cu_username req)),
      (length (cu_roles req) > MAX_CREATE_USER_ROLES,
         too_many ''roles'' ''user'' (cu_username req) (length (cu_roles req)) MAX_CREATE_USER_ROLES)]
     @ concat (map (role_rules req) (numbered (cu_roles req))))"

subsection \<open>CREATE PROCEDURE: request and check\<close>

definition MAX_PROCEDURE_PARAMETERS :: nat where "MAX_PROCEDURE_PARAMETERS = 32"
definition PROCEDURE_BODY_LEN :: nat where "PROCEDURE_BODY_LEN = 8000"

record ddl_procedure_param =
  dp_name :: cstring
  dp_type :: cstring
  dp_mode :: cstring
  dp_default :: cstring

record create_procedure_request =
  cp_name :: cstring
  cp_owner :: cstring
  cp_replace :: int
  cp_params :: "ddl_procedure_param list"
  cp_body :: cstring

definition is_recognised_param_type :: "cstring \<Rightarrow> bool" where
  "is_recognised_param_type t \<longleftrightarrow>
     t \<in> set [''VARCHAR2'', ''NUMBER'', ''DATE'', ''TIMESTAMP'', ''BOOLEAN'', ''PLS_INTEGER'', ''CLOB'', ''BLOB'']"

definition is_valid_param_mode :: "cstring \<Rightarrow> bool" where
  "is_valid_param_mode m \<longleftrightarrow> m = ''IN'' \<or> m = ''OUT'' \<or> m = ''IN OUT''"

definition param_rules :: "cstring \<Rightarrow> ddl_procedure_param list \<Rightarrow> nat \<times> ddl_procedure_param \<Rightarrow> rule list" where
  "param_rules proc params = (\<lambda>(i, p).
     (\<not> is_valid_identifier (dp_name p),
        ''Invalid parameter name '' @ quoted (dp_name p) @ at_position i @ '' for procedure '' @ quoted proc)
     # map (\<lambda>j. (dp_name (params ! j) = dp_name p,
        ''Duplicate parameter name '' @ quoted (dp_name p) @ '' (positions '' @ dec (j + 1) @ '' and '' @ dec (i + 1) @
          '') for procedure '' @ quoted proc)) [0..<i]
     @ [(\<not> is_recognised_param_type (dp_type p),
          ''Invalid data_type '' @ quoted (dp_type p) @ '' for parameter '' @ quoted (dp_name p) @ '' in procedure '' @
          quoted proc @ '': expected one of VARCHAR2, NUMBER, DATE, TIMESTAMP, BOOLEAN, PLS_INTEGER, CLOB, BLOB''),
        (\<not> is_valid_param_mode (dp_mode p),
          ''Invalid mode '' @ quoted (dp_mode p) @ '' for parameter '' @ quoted (dp_name p) @ '' in procedure '' @ quoted proc @
          '': expected IN, OUT, or IN OUT''),
        (dp_default p \<noteq> [] \<and> dp_mode p \<noteq> ''IN'',
          ''Parameter '' @ quoted (dp_name p) @ '' in procedure '' @ quoted proc @ '' has a default_value but mode is '' @
          quoted (dp_mode p) @ '' - DEFAULT is only allowed on IN parameters'')])"

definition validate_create_procedure_request :: "nat \<Rightarrow> create_procedure_request \<Rightarrow> cstring option" where
  "validate_create_procedure_request n req = verdict n (
     [(\<not> is_valid_identifier (cp_name req), invalid_name ''procedure_name'' (cp_name req)),
      (cp_owner req \<noteq> [] \<and> \<not> is_valid_identifier (cp_owner req),
         invalid_of ''owner'' (cp_owner req) ''procedure'' (cp_name req)),
      (length (cp_params req) > MAX_PROCEDURE_PARAMETERS,
         too_many ''parameters'' ''procedure'' (cp_name req) (length (cp_params req)) MAX_PROCEDURE_PARAMETERS)]
     @ concat (map (param_rules (cp_name req) (cp_params req)) (numbered (cp_params req)))
     @ [(cp_body req = [], ''No <body> given for procedure '' @ quoted (cp_name req)),
        (length (cp_body req) \<ge> PROCEDURE_BODY_LEN - 1,
          ''<body> for procedure '' @ quoted (cp_name req) @ '' is at or over the '' @ dec PROCEDURE_BODY_LEN @
          '' character limit'')])"

subsection \<open>DROP TABLE: request and check\<close>

record drop_table_request =
  dt_table :: cstring
  dt_owner :: cstring
  dt_cascade_constraints :: int
  dt_purge :: int
  dt_confirm :: int

definition validate_drop_table_request :: "nat \<Rightarrow> drop_table_request \<Rightarrow> cstring option" where
  "validate_drop_table_request n req = verdict n
     [(\<not> is_valid_identifier (dt_table req), invalid_name ''table_name'' (dt_table req)),
      (dt_owner req \<noteq> [] \<and> \<not> is_valid_identifier (dt_owner req), invalid_of ''owner'' (dt_owner req) ''table'' (dt_table req))]"

subsection \<open>GRANT: request and check\<close>

definition MAX_GRANT_PRIVILEGES :: nat where "MAX_GRANT_PRIVILEGES = 16"

record grant_request =
  gr_grantee :: cstring
  gr_object_type :: cstring
  gr_object_name :: cstring
  gr_owner :: cstring
  gr_privileges :: "cstring list"
  gr_with_grant_option :: int

definition is_valid_object_type :: "cstring \<Rightarrow> bool" where
  "is_valid_object_type t \<longleftrightarrow> t = ''TABLE'' \<or> t = ''VIEW''"

definition is_recognised_privilege :: "cstring \<Rightarrow> bool" where
  "is_recognised_privilege p \<longleftrightarrow>
     p \<in> set [''SELECT'', ''INSERT'', ''UPDATE'', ''DELETE'', ''ALTER'', ''INDEX'', ''REFERENCES'', ''ALL'', ''ALL PRIVILEGES'']"

definition is_valid_for_view :: "cstring \<Rightarrow> bool" where
  "is_valid_for_view p \<longleftrightarrow> \<not> (p = ''ALTER'' \<or> p = ''INDEX'' \<or> p = ''REFERENCES'')"

definition privilege_rules :: "grant_request \<Rightarrow> nat \<times> cstring \<Rightarrow> rule list" where
  "privilege_rules req = (\<lambda>(i, p).
     [(\<not> is_recognised_privilege p,
        ''Invalid privilege '' @ quoted p @ at_position i @ '' for grantee '' @ quoted (gr_grantee req) @ '' on '' @
        quoted (gr_object_name req)),
      (gr_object_type req = ''VIEW'' \<and> \<not> is_valid_for_view p,
        ''Privilege '' @ quoted p @ '' is not valid on a VIEW (object '' @ quoted (gr_object_name req) @
        '') - ALTER/INDEX/REFERENCES are table-only'')])"

definition validate_grant_request :: "nat \<Rightarrow> grant_request \<Rightarrow> cstring option" where
  "validate_grant_request n req = verdict n (
     [(\<not> is_valid_identifier (gr_grantee req), invalid_name ''grantee'' (gr_grantee req)),
      (\<not> is_valid_object_type (gr_object_type req),
         invalid_of ''object_type'' (gr_object_type req) ''grantee'' (gr_grantee req) @ '': expected TABLE or VIEW''),
      (\<not> is_valid_identifier (gr_object_name req),
         invalid_of ''object_name'' (gr_object_name req) ''grantee'' (gr_grantee req)),
      (gr_owner req \<noteq> [] \<and> \<not> is_valid_identifier (gr_owner req),
         invalid_of ''owner'' (gr_owner req) ''object'' (gr_object_name req)),
      (length (gr_privileges req) = 0,
         ''No privileges given for grantee '' @ quoted (gr_grantee req) @ '' on '' @ quoted (gr_object_name req) @
         '' - at least one <privilege> is required''),
      (length (gr_privileges req) > MAX_GRANT_PRIVILEGES,
         too_many ''privileges'' ''grantee'' (gr_grantee req) (length (gr_privileges req)) MAX_GRANT_PRIVILEGES)]
     @ concat (map (privilege_rules req) (numbered (gr_privileges req))))"

subsection \<open>Writing a statement into a buffer\<close>

text \<open>
  The builders append with \<^verbatim>\<open>if (used < out_size) used += snprintf(out + used, out_size - used, ..)\<close>; \<^verbatim>\<open>used\<close> counts
  what would have been written. A loop that stops at \<^verbatim>\<open>used >= out_size\<close> would not have written either.
\<close>

fun ddl_write :: "nat \<Rightarrow> cstring list \<Rightarrow> cstring \<times> nat \<Rightarrow> cstring \<times> nat" where
  "ddl_write cap [] st = st"
| "ddl_write cap (p # ps) (out, used) =
     ddl_write cap ps (if used < cap then (out @ c_snprintf (cap - used) p, used + length p) else (out, used))"

definition ddl_text :: "nat \<Rightarrow> cstring list \<Rightarrow> cstring" where
  "ddl_text cap pieces = fst (ddl_write cap pieces ([], 0))"

lemma ddl_write_exact:
  "used < cap \<longrightarrow> out = done \<and> used = length done \<Longrightarrow> cap \<le> used \<longrightarrow> out = take (cap - 1) done \<and> cap \<le> length done \<Longrightarrow>
     fst (ddl_write cap ps (out, used)) = (if 0 < cap then take (cap - 1) (done @ concat ps) else out)"
proof (induction ps arbitrary: out used "done")
  case Nil
  then show ?case by (cases "used < cap") auto
next
  case (Cons p ps)
  show ?case
  proof (cases "used < cap")
    case True
    with Cons.prems have d: "out = done" "used = length done" by auto
    have "fst (ddl_write cap ps (out @ c_snprintf (cap - used) p, used + length p)) =
        (if 0 < cap then take (cap - 1) ((done @ p) @ concat ps) else out @ c_snprintf (cap - used) p)"
      by (rule Cons.IH) (use True d in \<open>auto simp: c_snprintf_def\<close>)
    with True show ?thesis by simp
  next
    case False
    with Cons.prems Cons.IH [of used out "done"] show ?thesis by simp
  qed
qed

lemma ddl_text_exact: "0 < cap \<Longrightarrow> ddl_text cap pieces = c_snprintf cap (concat pieces)"
  using ddl_write_exact [of 0 cap "[]" "[]" pieces] by (simp add: ddl_text_def c_snprintf_def)

lemma ddl_text_whole: "length (concat pieces) < cap \<Longrightarrow> ddl_text cap pieces = concat pieces"
  using ddl_text_exact [of cap pieces] by simp

subsection \<open>The statement texts\<close>

definition EOL :: cstring where "EOL = [CHR 0x0A]"

definition dotted :: "cstring \<Rightarrow> cstring \<Rightarrow> cstring" where
  "dotted owner name = (if owner \<noteq> [] then owner @ ''.'' @ name else name)"

text \<open>\<^verbatim>\<open>"%s%s", x[i], (i < n - 1) ? ", " : ""\<close> for all \<^verbatim>\<open>i\<close>.\<close>

fun comma_pieces :: "cstring list \<Rightarrow> cstring list" where
  "comma_pieces [] = []"
| "comma_pieces [x] = [x]"
| "comma_pieces (x # y # r) = (x @ '', '') # comma_pieces (y # r)"

definition column_pieces :: "column_def \<Rightarrow> cstring list" where
  "column_pieces col =
     [''  '' @ cd_name col @ '' '' @ cd_type col] @
     (if type_requires_length (cd_type col) \<and> cd_length col > 0 then [''('' @ dec_int (cd_length col) @ '')'']
      else if cd_type col = ''NUMBER'' \<and> cd_precision col > 0
      then (if cd_scale col > 0 then [''('' @ dec_int (cd_precision col) @ '','' @ dec_int (cd_scale col) @ '')'']
            else [''('' @ dec_int (cd_precision col) @ '')''])
      else []) @
     (if cd_default col \<noteq> [] then ['' DEFAULT '' @ cd_default col] else []) @
     (if cd_nullable col = 0 then ['' NOT NULL''] else [])"

fun columns_pieces :: "bool \<Rightarrow> column_def list \<Rightarrow> cstring list" where
  "columns_pieces has_key [] = []"
| "columns_pieces has_key (c # cs) =
     column_pieces c @ [(if cs \<noteq> [] \<or> has_key then '','' else []) @ EOL] @ columns_pieces has_key cs"

definition create_table_pieces :: "create_table_request \<Rightarrow> cstring list" where
  "create_table_pieces req =
     [''CREATE TABLE '' @ dotted (ct_owner req) (ct_table req) @ '' ('' @ EOL] @
     columns_pieces (ct_key req \<noteq> []) (ct_columns req) @
     (if ct_key req \<noteq> []
      then [''  CONSTRAINT '' @ ct_table req @ ''_PK PRIMARY KEY (''] @ comma_pieces (ct_key req) @ ['')'' @ EOL]
      else []) @
     ['');'']"

definition create_view_pieces :: "create_view_request \<Rightarrow> cstring list" where
  "create_view_pieces req =
     [''CREATE ''] @ (if cv_replace req \<noteq> 0 then [''OR REPLACE ''] else []) @
     (if cv_force req \<noteq> 0 then [''FORCE ''] else []) @
     [''VIEW '' @ dotted (cv_owner req) (cv_name req)] @
     (if cv_columns req \<noteq> [] then ['' (''] @ comma_pieces (cv_columns req) @ ['')''] else []) @
     [EOL @ ''AS'' @ EOL @ cv_query req @ '';'']"

definition create_user_pieces :: "create_user_request \<Rightarrow> cstring list" where
  "create_user_pieces req =
     [''CREATE USER '' @ cu_username req @ '' IDENTIFIED BY '' @ cu_identified_by req] @
     (if cu_default_tablespace req \<noteq> [] then [EOL @ ''  DEFAULT TABLESPACE '' @ cu_default_tablespace req] else []) @
     (if cu_temp_tablespace req \<noteq> [] then [EOL @ ''  TEMPORARY TABLESPACE '' @ cu_temp_tablespace req] else []) @
     (if cu_quota req \<noteq> [] then [EOL @ ''  QUOTA '' @ cu_quota req @ '' ON '' @ cu_quota_tablespace req] else []) @
     (if cu_profile req \<noteq> [] then [EOL @ ''  PROFILE '' @ cu_profile req] else []) @
     ['';''] @
     (if cu_roles req \<noteq> []
      then [EOL @ ''GRANT ''] @ comma_pieces (cu_roles req) @ ['' TO '' @ cu_username req @ '';''] else [])"

definition param_pieces :: "ddl_procedure_param \<Rightarrow> bool \<Rightarrow> cstring list" where
  "param_pieces p another =
     [''  '' @ dp_name p @ '' '' @ dp_mode p @ '' '' @ dp_type p] @
     (if dp_default p \<noteq> [] then ['' DEFAULT '' @ dp_default p] else []) @
     [(if another then '','' else []) @ EOL]"

fun params_pieces :: "ddl_procedure_param list \<Rightarrow> cstring list" where
  "params_pieces [] = []"
| "params_pieces (p # ps) = param_pieces p (ps \<noteq> []) @ params_pieces ps"

definition create_procedure_pieces :: "create_procedure_request \<Rightarrow> cstring list" where
  "create_procedure_pieces req =
     [''CREATE ''] @ (if cp_replace req \<noteq> 0 then [''OR REPLACE ''] else []) @
     [''PROCEDURE '' @ dotted (cp_owner req) (cp_name req)] @ ['' ('' @ EOL] @
     params_pieces (cp_params req) @
     ['')'' @ EOL @ ''AS'' @ EOL @ ''BEGIN'' @ EOL @ cp_body req @ EOL @ ''END '' @ cp_name req @ '';'']"

definition drop_table_pieces :: "drop_table_request \<Rightarrow> cstring list" where
  "drop_table_pieces req =
     [''DROP TABLE '' @ dotted (dt_owner req) (dt_table req)] @
     (if dt_cascade_constraints req \<noteq> 0 then ['' CASCADE CONSTRAINTS''] else []) @
     (if dt_purge req \<noteq> 0 then ['' PURGE''] else []) @ ['';'']"

definition grant_pieces :: "grant_request \<Rightarrow> cstring list" where
  "grant_pieces req =
     [''GRANT ''] @ comma_pieces (gr_privileges req) @ ['' ON '' @ dotted (gr_owner req) (gr_object_name req)] @
     ['' TO '' @ gr_grantee req] @ (if gr_with_grant_option req \<noteq> 0 then ['' WITH GRANT OPTION''] else []) @ ['';'']"

definition build_create_table_ddl_text :: "create_table_request \<Rightarrow> nat \<Rightarrow> cstring" where
  "build_create_table_ddl_text req out_size = ddl_text out_size (create_table_pieces req)"

definition build_create_view_ddl_text :: "create_view_request \<Rightarrow> nat \<Rightarrow> cstring" where
  "build_create_view_ddl_text req out_size = ddl_text out_size (create_view_pieces req)"

definition build_create_user_ddl_text :: "create_user_request \<Rightarrow> nat \<Rightarrow> cstring" where
  "build_create_user_ddl_text req out_size = ddl_text out_size (create_user_pieces req)"

definition build_create_procedure_ddl_text :: "create_procedure_request \<Rightarrow> nat \<Rightarrow> cstring" where
  "build_create_procedure_ddl_text req out_size = ddl_text out_size (create_procedure_pieces req)"

definition build_drop_table_ddl_text :: "drop_table_request \<Rightarrow> nat \<Rightarrow> cstring" where
  "build_drop_table_ddl_text req out_size = ddl_text out_size (drop_table_pieces req)"

definition build_grant_ddl_text :: "grant_request \<Rightarrow> nat \<Rightarrow> cstring" where
  "build_grant_ddl_text req out_size = ddl_text out_size (grant_pieces req)"

lemmas ddl_builders = build_create_table_ddl_text_def build_create_view_ddl_text_def build_create_user_ddl_text_def
  build_create_procedure_ddl_text_def build_drop_table_ddl_text_def build_grant_ddl_text_def

end
