(* ===== verification/Ddl_Text.thy ===== *)
theory Ddl_Text
  imports Ddl_Modules
begin

text \<open>
  What the checks of \<open>Ddl_Modules\<close> give for the statement texts: what an accepted request looks like, the bounds on the
  texts against the buffers of \<^verbatim>\<open>core/dispatcher.c\<close>, the alphabet of the texts of GRANT and DROP TABLE, and a reader
  of GRANT statements.
\<close>

subsection \<open>Accepted requests\<close>

lemma no_empty_identifier [simp]: "\<not> is_valid_identifier []"
  by (simp add: is_valid_identifier_def)

lemma optional_identifier: "(s \<noteq> [] \<longrightarrow> is_valid_identifier s) \<longleftrightarrow> s = [] \<or> is_valid_identifier s"
  by blast

lemmas rule_facts = verdict_None list_all_numbered all_set_conv_all_nth optional_identifier not_less

lemma grant_accepted [accepted]:
  "validate_grant_request n req = None \<longleftrightarrow>
     is_valid_identifier (gr_grantee req) \<and> is_valid_object_type (gr_object_type req) \<and> is_valid_identifier (gr_object_name req) \<and>
     (gr_owner req = [] \<or> is_valid_identifier (gr_owner req)) \<and>
     gr_privileges req \<noteq> [] \<and> length (gr_privileges req) \<le> MAX_GRANT_PRIVILEGES \<and>
     (\<forall>p \<in> set (gr_privileges req). is_recognised_privilege p \<and> (gr_object_type req = ''VIEW'' \<longrightarrow> is_valid_for_view p))"
  by (simp add: validate_grant_request_def privilege_rules_def rule_facts Suc_le_eq)

lemma drop_table_accepted [accepted]:
  "validate_drop_table_request n req = None \<longleftrightarrow>
     is_valid_identifier (dt_table req) \<and> (dt_owner req = [] \<or> is_valid_identifier (dt_owner req))"
  by (auto simp: validate_drop_table_request_def verdict_None)

lemma create_view_accepted [accepted]:
  "validate_create_view_request n req = None \<longleftrightarrow>
     is_valid_identifier (cv_name req) \<and> (cv_owner req = [] \<or> is_valid_identifier (cv_owner req)) \<and>
     length (cv_columns req) \<le> MAX_VIEW_COLUMNS \<and> (\<forall>c \<in> set (cv_columns req). is_valid_identifier c) \<and>
     cv_query req \<noteq> [] \<and> ci_prefix ''SELECT'' (dropWhile c_isspace (cv_query req)) \<and> CHR '';'' \<notin> set (cv_query req)"
  by (simp add: validate_create_view_request_def alias_rules_def rule_facts c_strchr_None [symmetric])

lemma create_user_accepted [accepted]:
  "validate_create_user_request n req = None \<longleftrightarrow>
     is_valid_identifier (cu_username req) \<and> is_safe_password (cu_identified_by req) \<and>
     (cu_default_tablespace req = [] \<or> is_valid_identifier (cu_default_tablespace req)) \<and>
     (cu_temp_tablespace req = [] \<or> is_valid_identifier (cu_temp_tablespace req)) \<and>
     (cu_quota req = [] \<or> is_valid_quota (cu_quota req) \<and> is_valid_identifier (cu_quota_tablespace req)) \<and>
     (cu_profile req = [] \<or> is_valid_identifier (cu_profile req)) \<and>
     length (cu_roles req) \<le> MAX_CREATE_USER_ROLES \<and> (\<forall>r \<in> set (cu_roles req). is_valid_identifier r)"
  by (cases "cu_quota_tablespace req") (auto simp: validate_create_user_request_def role_rules_def rule_facts)

definition column_ok :: "column_def \<Rightarrow> bool" where
  "column_ok col \<longleftrightarrow>
     is_valid_identifier (cd_name col) \<and> is_recognised_data_type (cd_type col) \<and>
     (type_requires_length (cd_type col) \<longrightarrow> 0 < cd_length col \<and> cd_length col \<le> MAX_COLUMN_LENGTH) \<and>
     (cd_type col = ''NUMBER'' \<and> 0 < cd_precision col \<longrightarrow>
        cd_precision col \<le> MAX_NUMBER_PRECISION \<and> 0 \<le> cd_scale col \<and> cd_scale col \<le> cd_precision col)"

definition param_ok :: "ddl_procedure_param \<Rightarrow> bool" where
  "param_ok p \<longleftrightarrow>
     is_valid_identifier (dp_name p) \<and> is_recognised_param_type (dp_type p) \<and> is_valid_param_mode (dp_mode p) \<and>
     (dp_default p = [] \<or> dp_mode p = ''IN'')"

lemma distinct_map_nth: "distinct (map f xs) \<longleftrightarrow> (\<forall>i < length xs. \<forall>j < i. f (xs ! j) \<noteq> f (xs ! i))"
proof
  assume d: "\<forall>i < length xs. \<forall>j < i. f (xs ! j) \<noteq> f (xs ! i)"
  show "distinct (map f xs)"
    unfolding distinct_conv_nth
  proof (intro allI impI)
    fix i j
    assume "i < length (map f xs)" "j < length (map f xs)" "i \<noteq> j"
    then show "map f xs ! i \<noteq> map f xs ! j" using d [rule_format, of i j] d [rule_format, of j i] by (cases "i < j") auto
  qed
qed (auto simp: distinct_conv_nth)

lemma column_rules_pass:
  "list_all (\<lambda>r. \<not> fst r) (column_rules table cols (i, col)) \<longleftrightarrow>
     column_ok col \<and> (\<forall>j < i. cd_name (cols ! j) \<noteq> cd_name col)"
  by (auto simp: column_rules_def column_ok_def list_all_iff)

lemma param_rules_pass:
  "list_all (\<lambda>r. \<not> fst r) (param_rules proc params (i, p)) \<longleftrightarrow>
     param_ok p \<and> (\<forall>j < i. dp_name (params ! j) \<noteq> dp_name p)"
  by (auto simp: param_rules_def param_ok_def list_all_iff)

lemma create_table_accepted [accepted]:
  "validate_create_table_request n req = None \<longleftrightarrow>
     is_valid_identifier (ct_table req) \<and> (ct_owner req = [] \<or> is_valid_identifier (ct_owner req)) \<and>
     ct_columns req \<noteq> [] \<and> length (ct_columns req) \<le> DDL_MAX_TABLE_COLUMNS \<and>
     (\<forall>c \<in> set (ct_columns req). column_ok c) \<and> distinct (map cd_name (ct_columns req)) \<and>
     length (ct_key req) \<le> MAX_PRIMARY_KEY_COLUMNS \<and> set (ct_key req) \<subseteq> set (map cd_name (ct_columns req))"
proof -
  have k: "list_all (\<lambda>r. \<not> fst r) (key_rules req) \<longleftrightarrow> set (ct_key req) \<subseteq> set (map cd_name (ct_columns req))"
    by (auto simp: key_rules_def list_all_iff)
  show ?thesis
    by (simp add: validate_create_table_request_def column_rules_pass k distinct_map_nth rule_facts del: set_map) blast
qed

lemma create_procedure_accepted [accepted]:
  "validate_create_procedure_request n req = None \<longleftrightarrow>
     is_valid_identifier (cp_name req) \<and> (cp_owner req = [] \<or> is_valid_identifier (cp_owner req)) \<and>
     length (cp_params req) \<le> MAX_PROCEDURE_PARAMETERS \<and> (\<forall>p \<in> set (cp_params req). param_ok p) \<and>
     distinct (map dp_name (cp_params req)) \<and> cp_body req \<noteq> [] \<and> length (cp_body req) < PROCEDURE_BODY_LEN - 1"
  by (simp add: validate_create_procedure_request_def param_rules_pass distinct_map_nth rule_facts not_le) blast

subsection \<open>Lengths\<close>

definition identifier_fits :: "cstring \<Rightarrow> bool" where
  "identifier_fits s \<longleftrightarrow> length s < 128"

lemma length_dotted: "length a < 128 \<Longrightarrow> length b < 128 \<Longrightarrow> length (dotted a b) \<le> 255"
  by (simp add: dotted_def)

lemma length_commas:
  "\<forall>x \<in> set xs. length x \<le> m \<Longrightarrow> length (concat (comma_pieces xs)) \<le> (m + 2) * length xs"
  by (induction xs rule: comma_pieces.induct) (auto simp: algebra_simps)

lemma length_pieces: "\<forall>x \<in> set xs. length (f x) \<le> m \<Longrightarrow> length (concat (map f xs)) \<le> m * length xs"
  by (induction xs) (auto simp: algebra_simps)

lemma privilege_length: "is_recognised_privilege p \<Longrightarrow> length p \<le> 14"
  by (auto simp: is_recognised_privilege_def)

lemma data_type_length: "is_recognised_data_type t \<Longrightarrow> length t \<le> 9"
  by (auto simp: is_recognised_data_type_def)

lemma param_type_length: "is_recognised_param_type t \<Longrightarrow> length t \<le> 11"
  by (auto simp: is_recognised_param_type_def)

lemma param_mode_length: "is_valid_param_mode m \<Longrightarrow> length m \<le> 6"
  by (auto simp: is_valid_param_mode_def)

lemma length_dec_int_le: "0 \<le> i \<Longrightarrow> i < 10 ^ k \<Longrightarrow> 0 < k \<Longrightarrow> length (dec_int i) \<le> k"
  using length_dec_le [of "nat i" k] by (simp add: dec_int_def nat_less_iff)

lemma length_column:
  assumes "column_ok col" "length (cd_name col) < 128" "length (cd_default col) < 128"
  shows "length (concat (column_pieces col)) \<le> 291"
proof -
  have t: "length (cd_type col) \<le> 9" using assms(1) data_type_length by (auto simp: column_ok_def)
  have l: "length (dec_int (cd_length col)) \<le> 5" if "type_requires_length (cd_type col)"
    using assms(1) that length_dec_int_le [of "cd_length col" 5] by (auto simp: column_ok_def MAX_COLUMN_LENGTH_def)
  have n: "length (dec_int (cd_precision col)) \<le> 2" "length (dec_int (cd_scale col)) \<le> 2"
    if "cd_type col = ''NUMBER''" "0 < cd_precision col"
    using assms(1) that length_dec_int_le [of "cd_precision col" 2] length_dec_int_le [of "cd_scale col" 2]
    by (auto simp: column_ok_def MAX_NUMBER_PRECISION_def)
  show ?thesis using assms(2,3) t l n by (fastforce simp: column_pieces_def)
qed

lemma length_columns:
  assumes "\<forall>c \<in> set cols. column_ok c \<and> length (cd_name c) < 128 \<and> length (cd_default c) < 128"
  shows "length (concat (columns_pieces k cols)) \<le> 293 * length cols"
  using assms
proof (induction cols)
  case (Cons c cols)
  then have "length (concat (column_pieces c)) \<le> 291" using length_column by simp
  moreover have "length (concat (columns_pieces k cols)) \<le> 293 * length cols" using Cons by simp
  ultimately show ?case by (simp add: EOL_def)
qed simp

lemma length_param:
  assumes "param_ok p" "length (dp_name p) < 128" "dp_default p = []"
  shows "length (concat (param_pieces p b)) \<le> 150"
  using assms param_type_length [of "dp_type p"] param_mode_length [of "dp_mode p"]
  by (auto simp: param_ok_def param_pieces_def EOL_def)

lemma length_params:
  assumes "\<forall>p \<in> set ps. param_ok p \<and> length (dp_name p) < 128 \<and> dp_default p = []"
  shows "length (concat (params_pieces ps)) \<le> 150 * length ps"
  using assms
proof (induction ps)
  case (Cons p ps)
  then have "length (concat (param_pieces p (ps \<noteq> []))) \<le> 150" using length_param by simp
  moreover have "length (concat (params_pieces ps)) \<le> 150 * length ps" using Cons by simp
  ultimately show ?case by simp
qed simp

subsection \<open>The buffers of the dispatcher\<close>

definition USER_TEXT :: nat where "USER_TEXT = 2048"
definition GRANT_TEXT :: nat where "GRANT_TEXT = 2048"
definition TABLE_TEXT :: nat where "TABLE_TEXT = 8192"
definition DROP_TEXT :: nat where "DROP_TEXT = 512"
definition VIEW_TEXT :: nat where "VIEW_TEXT = 8192"
definition PROCEDURE_TEXT :: nat where "PROCEDURE_TEXT = 8192 + PROCEDURE_BODY_LEN"

lemmas text_sizes = USER_TEXT_def GRANT_TEXT_def TABLE_TEXT_def DROP_TEXT_def VIEW_TEXT_def PROCEDURE_TEXT_def PROCEDURE_BODY_LEN_def

text \<open>The texts of a request fit the arrays of its struct.\<close>

definition grant_fits :: "grant_request \<Rightarrow> bool" where
  "grant_fits req \<longleftrightarrow> identifier_fits (gr_grantee req) \<and> identifier_fits (gr_object_name req) \<and> identifier_fits (gr_owner req)"

definition drop_fits :: "drop_table_request \<Rightarrow> bool" where
  "drop_fits req \<longleftrightarrow> identifier_fits (dt_table req) \<and> identifier_fits (dt_owner req)"

definition user_fits :: "create_user_request \<Rightarrow> bool" where
  "user_fits req \<longleftrightarrow>
     identifier_fits (cu_username req) \<and> identifier_fits (cu_identified_by req) \<and> identifier_fits (cu_default_tablespace req) \<and>
     identifier_fits (cu_temp_tablespace req) \<and> length (cu_quota req) < 32 \<and> identifier_fits (cu_quota_tablespace req) \<and>
     identifier_fits (cu_profile req) \<and> (\<forall>r \<in> set (cu_roles req). identifier_fits r)"

definition view_fits :: "create_view_request \<Rightarrow> bool" where
  "view_fits req \<longleftrightarrow>
     identifier_fits (cv_name req) \<and> identifier_fits (cv_owner req) \<and> (\<forall>c \<in> set (cv_columns req). identifier_fits c) \<and>
     length (cv_query req) < 4000"

definition table_fits :: "create_table_request \<Rightarrow> bool" where
  "table_fits req \<longleftrightarrow>
     identifier_fits (ct_table req) \<and> identifier_fits (ct_owner req) \<and>
     (\<forall>c \<in> set (ct_columns req). identifier_fits (cd_name c) \<and> identifier_fits (cd_default c)) \<and>
     (\<forall>k \<in> set (ct_key req). identifier_fits k)"

definition procedure_fits :: "create_procedure_request \<Rightarrow> bool" where
  "procedure_fits req \<longleftrightarrow>
     identifier_fits (cp_name req) \<and> identifier_fits (cp_owner req) \<and>
     (\<forall>p \<in> set (cp_params req). identifier_fits (dp_name p) \<and> identifier_fits (dp_default p))"

lemmas fits_defs = grant_fits_def drop_fits_def user_fits_def view_fits_def table_fits_def procedure_fits_def identifier_fits_def

lemma grant_length:
  assumes "validate_grant_request n req = None" "grant_fits req"
  shows "length (concat (grant_pieces req)) < GRANT_TEXT"
proof -
  have "length (concat (comma_pieces (gr_privileges req))) \<le> (14 + 2) * length (gr_privileges req)"
    using assms(1) by (intro length_commas) (auto simp: grant_accepted privilege_length)
  then have "length (concat (comma_pieces (gr_privileges req))) \<le> 256"
    using assms(1) by (simp add: grant_accepted MAX_GRANT_PRIVILEGES_def)
  moreover have "length (dotted (gr_owner req) (gr_object_name req)) \<le> 255"
    using assms(2) by (simp add: fits_defs length_dotted)
  ultimately show ?thesis using assms(2) by (simp add: grant_pieces_def fits_defs text_sizes)
qed

lemma drop_table_length:
  assumes "drop_fits req"
  shows "length (concat (drop_table_pieces req)) < DROP_TEXT"
proof -
  have "length (dotted (dt_owner req) (dt_table req)) \<le> 255"
    using assms by (simp add: fits_defs length_dotted)
  then show ?thesis by (simp add: drop_table_pieces_def text_sizes)
qed

lemma create_user_length:
  assumes "user_fits req"
  shows "length (concat (create_user_pieces (req\<lparr>cu_roles := []\<rparr>))) < USER_TEXT"
  using assms by (simp add: create_user_pieces_def fits_defs text_sizes EOL_def)

lemma create_view_length:
  assumes "view_fits req" "length (cv_columns req) \<le> 30"
  shows "length (concat (create_view_pieces req)) < VIEW_TEXT"
proof -
  have "length (concat (comma_pieces (cv_columns req))) \<le> (127 + 2) * length (cv_columns req)"
    using assms(1) by (intro length_commas) (auto simp: fits_defs less_Suc_eq_le [symmetric])
  then have "length (concat (comma_pieces (cv_columns req))) \<le> 3870" using assms(2) by simp
  moreover have "length (dotted (cv_owner req) (cv_name req)) \<le> 255"
    using assms(1) by (simp add: fits_defs length_dotted)
  ultimately show ?thesis using assms(1) by (simp add: create_view_pieces_def fits_defs text_sizes EOL_def)
qed

lemma create_table_length:
  assumes "validate_create_table_request n req = None" "table_fits req" "length (ct_columns req) \<le> 19"
  shows "length (concat (create_table_pieces req)) < TABLE_TEXT"
proof -
  have "length (concat (columns_pieces b (ct_columns req))) \<le> 5567" for b
    using length_columns [of "ct_columns req" b] assms
    by (auto simp: create_table_accepted fits_defs intro: order.trans)
  then have c: "length (concat (columns_pieces True (ct_columns req))) \<le> 5567"
      "length (concat (columns_pieces False (ct_columns req))) \<le> 5567" by simp_all
  have "length (concat (comma_pieces (ct_key req))) \<le> (127 + 2) * length (ct_key req)"
    using assms(2) by (intro length_commas) (auto simp: fits_defs less_Suc_eq_le [symmetric])
  then have "length (concat (comma_pieces (ct_key req))) \<le> 2064"
    using assms(1) by (simp add: create_table_accepted MAX_PRIMARY_KEY_COLUMNS_def)
  moreover have "length (dotted (ct_owner req) (ct_table req)) \<le> 255"
    using assms(2) by (simp add: fits_defs length_dotted)
  ultimately show ?thesis
    using assms(2) c
    by (simp add: create_table_pieces_def fits_defs text_sizes EOL_def)
qed

lemma create_procedure_length:
  assumes "validate_create_procedure_request n req = None" "procedure_fits req" "\<forall>p \<in> set (cp_params req). dp_default p = []"
  shows "length (concat (create_procedure_pieces req)) < PROCEDURE_TEXT"
proof -
  have "length (concat (params_pieces (cp_params req))) \<le> 150 * length (cp_params req)"
    using assms by (intro length_params) (auto simp: create_procedure_accepted fits_defs)
  then have "length (concat (params_pieces (cp_params req))) \<le> 4800"
    using assms(1) by (simp add: create_procedure_accepted MAX_PROCEDURE_PARAMETERS_def)
  moreover have "length (dotted (cp_owner req) (cp_name req)) \<le> 255"
    using assms(2) by (simp add: fits_defs length_dotted)
  moreover have "length (cp_body req) < 7999" using assms(1) by (simp add: create_procedure_accepted PROCEDURE_BODY_LEN_def)
  ultimately show ?thesis using assms(2) by (simp add: create_procedure_pieces_def fits_defs text_sizes EOL_def)
qed

subsection \<open>The alphabet of a statement\<close>

definition plain_char :: "char \<Rightarrow> bool" where
  "plain_char c \<longleftrightarrow> identifier_char c \<or> c = CHR '' '' \<or> c = CHR ''.'' \<or> c = CHR '',''"

lemma identifier_plain: "is_valid_identifier s \<Longrightarrow> \<forall>c \<in> set s. identifier_char c"
  by (simp add: is_valid_identifier_def list_all_iff)

lemma identifier_no_sep:
  "is_valid_identifier s \<Longrightarrow> CHR '' '' \<notin> set s \<and> CHR ''.'' \<notin> set s \<and> CHR '','' \<notin> set s \<and> CHR '';'' \<notin> set s"
  by (auto simp: is_valid_identifier_def list_all_iff identifier_char_def ctype_defs byte_def)

text \<open>The statements without the terminating semicolon.\<close>

definition grant_body :: "grant_request \<Rightarrow> cstring" where
  "grant_body req = ''GRANT '' @ concat (comma_pieces (gr_privileges req)) @ '' ON '' @
     dotted (gr_owner req) (gr_object_name req) @ '' TO '' @ gr_grantee req @
     (if gr_with_grant_option req \<noteq> 0 then '' WITH GRANT OPTION'' else [])"

definition drop_body :: "drop_table_request \<Rightarrow> cstring" where
  "drop_body req = ''DROP TABLE '' @ dotted (dt_owner req) (dt_table req) @
     (if dt_cascade_constraints req \<noteq> 0 then '' CASCADE CONSTRAINTS'' else []) @ (if dt_purge req \<noteq> 0 then '' PURGE'' else [])"

lemma grant_pieces_body: "concat (grant_pieces req) = grant_body req @ '';''"
  by (simp add: grant_pieces_def grant_body_def)

lemma drop_pieces_body: "concat (drop_table_pieces req) = drop_body req @ '';''"
  by (simp add: drop_table_pieces_def drop_body_def)

lemma set_commas: "set (concat (comma_pieces xs)) \<subseteq> \<Union> (set ` set xs) \<union> {CHR '','', CHR '' ''}"
  by (induction xs rule: comma_pieces.induct) auto

lemma set_dotted: "set (dotted a b) \<subseteq> set a \<union> set b \<union> {CHR ''.''}"
  by (auto simp: dotted_def)

lemma privilege_plain: "is_recognised_privilege p \<Longrightarrow> \<forall>c \<in> set p. plain_char c"
proof -
  have "\<forall>p \<in> set [''SELECT'', ''INSERT'', ''UPDATE'', ''DELETE'', ''ALTER'', ''INDEX'', ''REFERENCES'', ''ALL'', ''ALL PRIVILEGES''].
      \<forall>c \<in> set p. plain_char c"
    by code_simp
  then show "is_recognised_privilege p \<Longrightarrow> \<forall>c \<in> set p. plain_char c" unfolding is_recognised_privilege_def by blast
qed

lemma grant_body_plain:
  assumes "validate_grant_request n req = None"
  shows "\<forall>c \<in> set (grant_body req). plain_char c"
proof -
  have p: "\<forall>c \<in> set (concat (comma_pieces (gr_privileges req))). plain_char c"
    using set_commas [of "gr_privileges req"] assms privilege_plain by (auto simp: grant_accepted plain_char_def)
  have o: "\<forall>c \<in> set (dotted (gr_owner req) (gr_object_name req)). plain_char c"
    using set_dotted [of "gr_owner req" "gr_object_name req"] assms identifier_plain
    by (auto simp: grant_accepted plain_char_def)
  have g: "\<forall>c \<in> set (gr_grantee req). plain_char c"
    using assms identifier_plain by (auto simp: grant_accepted plain_char_def)
  have k: "\<forall>c \<in> set (''GRANT '' @ '' ON '' @ '' TO '' @ '' WITH GRANT OPTION''). plain_char c"
    by code_simp
  show ?thesis using p o g k by (auto simp: grant_body_def)
qed

lemma drop_body_plain:
  assumes "validate_drop_table_request n req = None"
  shows "\<forall>c \<in> set (drop_body req). plain_char c"
proof -
  have o: "\<forall>c \<in> set (dotted (dt_owner req) (dt_table req)). plain_char c"
    using set_dotted [of "dt_owner req" "dt_table req"] assms identifier_plain
    by (auto simp: drop_table_accepted plain_char_def)
  have k: "\<forall>c \<in> set (''DROP TABLE '' @ '' CASCADE CONSTRAINTS'' @ '' PURGE''). plain_char c"
    by code_simp
  show ?thesis using o k by (auto simp: drop_body_def)
qed

subsection \<open>Reading a GRANT statement\<close>

text \<open>
  The words of the statement; the privileges are what stands before \<open>ON\<close>, split at commas, the object is split at
  its dot.
\<close>

definition read_object :: "cstring \<Rightarrow> cstring \<times> cstring" where
  "read_object w = (case c_tokens (CHR ''.'') w of [a, b] \<Rightarrow> (a, b) | _ \<Rightarrow> ([], w))"

definition read_grant :: "cstring \<Rightarrow> (cstring list \<times> (cstring \<times> cstring) \<times> cstring \<times> bool) option" where
  "read_grant stmt =
     (case c_tokens (CHR '' '') stmt of
        [] \<Rightarrow> None
      | g # ws \<Rightarrow>
          (case dropWhile (\<lambda>w. w \<noteq> ''ON'') ws of
             on # obj # to # who # opt \<Rightarrow>
               if g = ''GRANT'' \<and> to = ''TO'' \<and> (opt = [] \<or> opt = [''WITH'', ''GRANT'', ''OPTION'']) then
                 Some (map (dropWhile (\<lambda>c. c = CHR '' '')) (c_tokens (CHR '','') (join_with (CHR '' '') (takeWhile (\<lambda>w. w \<noteq> ''ON'') ws))),
                       read_object obj, who, opt \<noteq> [])
               else None
           | _ \<Rightarrow> None))"

fun privilege_words :: "cstring \<Rightarrow> cstring list" where
  "privilege_words p = (if p = ''ALL PRIVILEGES'' then [''ALL'', ''PRIVILEGES''] else [p])"

lemma join_with_append:
  "as \<noteq> [] \<Longrightarrow> bs \<noteq> [] \<Longrightarrow> join_with d (as @ bs) = join_with d as @ d # join_with d bs"
  by (induction d as rule: join_with.induct) (auto simp: join_with_Cons)

definition word_ok :: "cstring \<Rightarrow> bool" where
  "word_ok w \<longleftrightarrow> w \<noteq> [] \<and> CHR '' '' \<notin> set w"

lemma privilege_split:
  "is_recognised_privilege p \<Longrightarrow> \<exists>W. p @ t = join_with (CHR '' '') W \<and> W \<noteq> [] \<and> (\<forall>w \<in> set W. word_ok w \<and> w \<noteq> ''ON'')"
  if "t = [] \<or> t = '',''"
proof -
  assume "is_recognised_privilege p"
  then consider "p = ''ALL PRIVILEGES''" | "p \<noteq> ''ALL PRIVILEGES''" "word_ok p" "p \<noteq> ''ON''" "length p \<noteq> 1"
    by (auto simp: is_recognised_privilege_def word_ok_def)
  then show ?thesis
  proof cases
    case 1
    then show ?thesis using that by (intro exI [of _ "[''ALL'', ''PRIVILEGES'' @ t]"]) (auto simp: word_ok_def)
  next
    case 2
    then show ?thesis using that by (intro exI [of _ "[p @ t]"]) (auto simp: word_ok_def)
  qed
qed

lemma privileges_words:
  "ps \<noteq> [] \<Longrightarrow> \<forall>p \<in> set ps. is_recognised_privilege p \<Longrightarrow>
     \<exists>W. concat (comma_pieces ps) = join_with (CHR '' '') W \<and> W \<noteq> [] \<and> (\<forall>w \<in> set W. word_ok w \<and> w \<noteq> ''ON'')"
proof (induction ps rule: comma_pieces.induct)
  case (2 x)
  then show ?case using privilege_split [of "[]" x] by simp
next
  case (3 x y r)
  obtain W where W: "concat (comma_pieces (y # r)) = join_with (CHR '' '') W" "W \<noteq> []" "\<forall>w \<in> set W. word_ok w \<and> w \<noteq> ''ON''"
    using 3 by auto
  obtain V where V: "x @ '','' = join_with (CHR '' '') V" "V \<noteq> []" "\<forall>w \<in> set V. word_ok w \<and> w \<noteq> ''ON''"
    using privilege_split [of "'',''" x] 3 by auto
  have "concat (comma_pieces (x # y # r)) = (x @ '','') @ CHR '' '' # concat (comma_pieces (y # r))" by simp
  also have "\<dots> = join_with (CHR '' '') (V @ W)" using V W by (simp add: join_with_append)
  finally show ?case using V W by (intro exI [of _ "V @ W"]) auto
qed simp

lemma join_with_push: "join_with d ((c # a) # bs) = c # join_with d (a # bs)"
  by (cases bs) simp_all

lemma privileges_joined:
  "concat (comma_pieces (p # ps)) = join_with (CHR '','') (p # map ((#) (CHR '' '')) ps)"
  by (induction ps arbitrary: p) (simp_all add: join_with_push)

lemma privilege_shape: "is_recognised_privilege p \<Longrightarrow> p \<noteq> [] \<and> CHR '','' \<notin> set p \<and> dropWhile (\<lambda>c. c = CHR '' '') p = p"
proof -
  have "\<forall>p \<in> set [''SELECT'', ''INSERT'', ''UPDATE'', ''DELETE'', ''ALTER'', ''INDEX'', ''REFERENCES'', ''ALL'', ''ALL PRIVILEGES''].
      p \<noteq> [] \<and> CHR '','' \<notin> set p \<and> dropWhile (\<lambda>c. c = CHR '' '') p = p"
    by code_simp
  then show "is_recognised_privilege p \<Longrightarrow> p \<noteq> [] \<and> CHR '','' \<notin> set p \<and> dropWhile (\<lambda>c. c = CHR '' '') p = p"
    unfolding is_recognised_privilege_def by blast
qed

lemma privileges_back:
  assumes "ps \<noteq> []" "\<forall>p \<in> set ps. is_recognised_privilege p"
  shows "map (dropWhile (\<lambda>c. c = CHR '' '')) (c_tokens (CHR '','') (concat (comma_pieces ps))) = ps"
proof -
  obtain p qs where ps: "ps = p # qs" using assms(1) by (cases ps) auto
  have "c_tokens (CHR '','') (concat (comma_pieces ps)) = p # map ((#) (CHR '' '')) qs"
    unfolding ps privileges_joined
    by (rule c_tokens_join) (use assms(2) ps privilege_shape in auto)
  moreover have "map (dropWhile (\<lambda>c. c = CHR '' '')) (map ((#) (CHR '' '')) qs) = qs"
    using assms(2) ps privilege_shape by (induction qs arbitrary: ps) auto
  ultimately show ?thesis using assms(2) ps privilege_shape by simp
qed

lemma read_object_back:
  assumes "is_valid_identifier b" "a = [] \<or> is_valid_identifier a"
  shows "read_object (dotted a b) = (a, b)" and "word_ok (dotted a b)"
proof -
  have b: "b \<noteq> []" "CHR ''.'' \<notin> set b" "CHR '' '' \<notin> set b" using assms(1) identifier_no_sep by auto
  have t: "c_tokens (CHR ''.'') b = [b]" using c_tokens_first(2) [OF b(1,2)] .
  have a: "a \<noteq> [] \<Longrightarrow> CHR ''.'' \<notin> set a \<and> CHR '' '' \<notin> set a" using assms(2) identifier_no_sep by auto
  show "read_object (dotted a b) = (a, b)"
    using t c_tokens_first(1) [of a "CHR ''.''" b] a by (cases "a = []") (simp_all add: read_object_def dotted_def)
  show "word_ok (dotted a b)" using a b by (cases "a = []") (auto simp: word_ok_def dotted_def)
qed

lemma read_grant_words:
  assumes "c_tokens (CHR '' '') stmt = ''GRANT'' # W @ ''ON'' # obj # ''TO'' # who # opt" "\<forall>w \<in> set W. w \<noteq> ''ON''"
    and "opt = [] \<or> opt = [''WITH'', ''GRANT'', ''OPTION'']"
  shows "read_grant stmt =
     Some (map (dropWhile (\<lambda>c. c = CHR '' '')) (c_tokens (CHR '','') (join_with (CHR '' '') W)), read_object obj, who, opt \<noteq> [])"
proof -
  have "takeWhile (\<lambda>w. w \<noteq> ''ON'') (W @ ''ON'' # x) = W" "dropWhile (\<lambda>w. w \<noteq> ''ON'') (W @ ''ON'' # x) = ''ON'' # x" for x
    using assms(2) by (induction W) auto
  then show ?thesis using assms(3) unfolding read_grant_def assms(1) list.case by (simp only: list.case) simp
qed

lemma read_grant_back:
  assumes "validate_grant_request n req = None"
  shows "read_grant (grant_body req) =
     Some (gr_privileges req, (gr_owner req, gr_object_name req), gr_grantee req, gr_with_grant_option req \<noteq> 0)"
proof -
  define obj where "obj = dotted (gr_owner req) (gr_object_name req)"
  define opt where "opt = (if gr_with_grant_option req \<noteq> 0 then [''WITH'', ''GRANT'', ''OPTION''] else [])"
  define tail where "tail = ''ON'' # obj # ''TO'' # gr_grantee req # opt"
  have ps: "gr_privileges req \<noteq> []" "\<forall>p \<in> set (gr_privileges req). is_recognised_privilege p"
    and ids: "is_valid_identifier (gr_grantee req)" "is_valid_identifier (gr_object_name req)"
      "gr_owner req = [] \<or> is_valid_identifier (gr_owner req)"
    using assms by (auto simp: grant_accepted)
  note o = read_object_back [OF ids(2,3), folded obj_def]
  obtain W where W: "concat (comma_pieces (gr_privileges req)) = join_with (CHR '' '') W" "W \<noteq> []"
      "\<forall>w \<in> set W. word_ok w \<and> w \<noteq> ''ON''"
    using privileges_words [OF ps] by blast
  have tl: "join_with (CHR '' '') tail =
      ''ON '' @ obj @ '' TO '' @ gr_grantee req @ (if gr_with_grant_option req \<noteq> 0 then '' WITH GRANT OPTION'' else [])"
    by (simp add: tail_def opt_def)
  have ne: "W @ tail \<noteq> []" "tail \<noteq> []" by (simp_all add: tail_def)
  have stmt: "join_with (CHR '' '') (''GRANT'' # W @ tail) = grant_body req"
    unfolding join_with_Cons [OF ne(1)] join_with_append [OF W(2) ne(2)] tl grant_body_def W(1) obj_def by simp
  have "word_ok (gr_grantee req)" using ids(1) identifier_no_sep by (auto simp: word_ok_def)
  moreover have "\<forall>w \<in> set [''GRANT'', ''ON'', ''TO'', ''WITH'', ''GRANT'', ''OPTION'']. word_ok w" by (simp add: word_ok_def)
  moreover have "set (''GRANT'' # W @ tail) \<subseteq>
      set W \<union> {obj, gr_grantee req} \<union> set [''GRANT'', ''ON'', ''TO'', ''WITH'', ''GRANT'', ''OPTION'']"
    by (simp add: tail_def opt_def) blast
  ultimately have "\<forall>w \<in> set (''GRANT'' # W @ tail). word_ok w" using W(3) o(2) by blast
  then have "\<forall>w \<in> set (''GRANT'' # W @ tail). w \<noteq> [] \<and> CHR '' '' \<notin> set w" unfolding word_ok_def .
  from c_tokens_join [OF this] have "c_tokens (CHR '' '') (grant_body req) = ''GRANT'' # W @ tail" unfolding stmt .
  from read_grant_words [OF this [unfolded tail_def]] show ?thesis
    using W o(1) privileges_back [OF ps] by (simp add: opt_def)
qed

end
