(* ===== verification/Response_Object.thy ===== *)
theory Response_Object
  imports C_Parsing
begin

text \<open>
  The answer to a request (\<^verbatim>\<open>response_object.h\<close>, \<^verbatim>\<open>core/response_object.c\<close>) and the error envelope of
  \<^verbatim>\<open>core/dispatcher.c\<close> with its two escaping functions. \<^verbatim>\<open>malloc\<close> is taken to succeed. A reader of JSON objects
  whose values are strings says what a client gets from the JSON envelope.
\<close>

subsection \<open>The response object\<close>

datatype response_status = RESPONSE_STATUS_PASS | RESPONSE_STATUS_ERROR

record response =
  rs_status :: response_status
  rs_audit_id :: cstring
  rs_operation :: cstring
  rs_error_code :: cstring
  rs_error_text :: cstring
  rs_body :: "cstring option"
  rs_is_json :: bool

definition response_object_init :: response where
  "response_object_init =
     \<lparr>rs_status = RESPONSE_STATUS_ERROR, rs_audit_id = ''-'', rs_operation = ''-'', rs_error_code = ''-'', rs_error_text = ''-'',
      rs_body = None, rs_is_json = False\<rparr>"

subsection \<open>Escaping\<close>

definition QUOTE :: char where "QUOTE = CHR 0x22"
definition BACKSLASH :: char where "BACKSLASH = CHR 0x5C"

definition xml_escape_byte :: "char \<Rightarrow> cstring" where
  "xml_escape_byte c =
     (if c = CHR ''&'' then ''&amp;''
      else if c = CHR ''<'' then ''&lt;''
      else if c = CHR ''>'' then ''&gt;''
      else if c = QUOTE then ''&quot;''
      else if c = CHR 0x27 then ''&apos;''
      else [c])"

definition xml_escape_alloc :: "cstring \<Rightarrow> cstring" where
  "xml_escape_alloc s = concat (map xml_escape_byte s)"

definition lower_hex :: "nat \<Rightarrow> char" where
  "lower_hex d = (if d < 10 then char_of (48 + d) else char_of (87 + d))"

text \<open>\<^verbatim>\<open>\u%04x\<close> of a byte below 32.\<close>

definition json_escape_byte :: "char \<Rightarrow> cstring" where
  "json_escape_byte c =
     (if c = QUOTE then [BACKSLASH, QUOTE]
      else if c = BACKSLASH then [BACKSLASH, BACKSLASH]
      else if byte c = 10 then BACKSLASH # ''n''
      else if byte c = 13 then BACKSLASH # ''r''
      else if byte c = 9 then BACKSLASH # ''t''
      else if byte c < 32 then BACKSLASH # ''u00'' @ [lower_hex (byte c div 16), lower_hex (byte c mod 16)]
      else [c])"

definition json_escape_alloc :: "cstring \<Rightarrow> cstring" where
  "json_escape_alloc s = concat (map json_escape_byte s)"

subsection \<open>The error envelope\<close>

text \<open>\<^verbatim>\<open>"key":"value"\<close> with the value given in its escaped form.\<close>

definition json_member :: "cstring \<Rightarrow> cstring \<Rightarrow> cstring" where
  "json_member k v = QUOTE # k @ [QUOTE, CHR '':'', QUOTE] @ v @ [QUOTE]"

definition tagged :: "cstring \<Rightarrow> cstring \<Rightarrow> cstring" where
  "tagged t v = ''<'' @ t @ ''>'' @ v @ ''</'' @ t @ ''>'' @ [CHR 0x0A]"

definition XML_HEADER :: cstring where
  "XML_HEADER = ''<?xml version='' @ [QUOTE] @ ''1.0'' @ [QUOTE] @ '' encoding='' @ [QUOTE] @ ''UTF-8'' @ [QUOTE] @ ''?>'' @ [CHR 0x0A]"

definition build_error_envelope :: "cstring \<Rightarrow> cstring \<Rightarrow> cstring \<Rightarrow> cstring \<Rightarrow> bool \<Rightarrow> response \<Rightarrow> response" where
  "build_error_envelope audit op code txt is_json resp =
     (let a = c_strncpy 128 audit; o' = c_strncpy 32 op; c = c_strncpy 64 code; t = c_strncpy 512 txt;
          body =
            (if is_json
             then ''{'' @ json_member ''status'' ''ERROR'' @ '','' @ json_member ''audit_id'' (json_escape_alloc a) @ '','' @
               json_member ''operation'' (json_escape_alloc o') @ '','' @ json_member ''error_code'' (json_escape_alloc c) @ '','' @
               json_member ''error_text'' (json_escape_alloc t) @ ''}''
             else XML_HEADER @ ''<output_xml>'' @ [CHR 0x0A] @ ''<execution_envelope>'' @ [CHR 0x0A] @ tagged ''status'' ''ERROR'' @
               tagged ''audit_id'' (xml_escape_alloc a) @ tagged ''operation'' (xml_escape_alloc o') @
               tagged ''error_code'' (xml_escape_alloc c) @ tagged ''error_text'' (xml_escape_alloc t) @
               ''</execution_envelope>'' @ [CHR 0x0A] @ ''</output_xml>'' @ [CHR 0x0A])
      in \<lparr>rs_status = RESPONSE_STATUS_ERROR, rs_audit_id = a, rs_operation = o', rs_error_code = c, rs_error_text = t,
          rs_body = Some body, rs_is_json = is_json\<rparr>)"

subsection \<open>Reading a JSON object of strings\<close>

definition hex_value :: "char \<Rightarrow> nat option" where
  "hex_value c =
     (if c_isdigit c then Some (byte c - 48)
      else if 97 \<le> byte c \<and> byte c \<le> 102 then Some (byte c - 87)
      else if 65 \<le> byte c \<and> byte c \<le> 70 then Some (byte c - 55) else None)"

definition json_simple :: "char \<Rightarrow> char option" where
  "json_simple e =
     (if e = QUOTE \<or> e = BACKSLASH \<or> e = CHR ''/'' then Some e
      else if e = CHR ''n'' then Some (CHR 0x0A) else if e = CHR ''r'' then Some (CHR 0x0D)
      else if e = CHR ''t'' then Some (CHR 0x09) else None)"

text \<open>
  The rest of a string after its opening quote: the value and what follows the closing quote. A raw control character
  is an error, as RFC 8259 has it; escapes above one byte and the unused \<^verbatim>\<open>\b\<close> and \<^verbatim>\<open>\f\<close> are left out.
\<close>

fun json_string :: "cstring \<Rightarrow> (cstring \<times> cstring) option" where
  "json_string [] = None"
| "json_string (c # r) =
     (if c = QUOTE then Some ([], r)
      else if byte c < 32 then None
      else if c \<noteq> BACKSLASH then map_option (\<lambda>(v, rest). (c # v, rest)) (json_string r)
      else (case r of
              [] \<Rightarrow> None
            | e # r1 \<Rightarrow>
                if e = CHR ''u'' then
                  (case r1 of
                     z1 # z2 # h # l # r2 \<Rightarrow>
                       (case (hex_value h, hex_value l) of
                          (Some a, Some b) \<Rightarrow>
                            if z1 = CHR ''0'' \<and> z2 = CHR ''0''
                            then map_option (\<lambda>(v, rest). (char_of (16 * a + b) # v, rest)) (json_string r2) else None
                        | _ \<Rightarrow> None)
                   | _ \<Rightarrow> None)
                else (case json_simple e of
                        None \<Rightarrow> None
                      | Some d \<Rightarrow> map_option (\<lambda>(v, rest). (d # v, rest)) (json_string r1))))"

definition json_pair :: "cstring \<Rightarrow> ((cstring \<times> cstring) \<times> cstring) option" where
  "json_pair s =
     (case s of
        q # r \<Rightarrow>
          if q \<noteq> QUOTE then None
          else (case json_string r of
                  Some (k, c # q' # r') \<Rightarrow>
                    if c = CHR '':'' \<and> q' = QUOTE then map_option (\<lambda>(v, rest). ((k, v), rest)) (json_string r') else None
                | _ \<Rightarrow> None)
      | [] \<Rightarrow> None)"

lemma json_string_shrinks: "json_string s = Some (v, rest) \<Longrightarrow> length rest < length s"
  by (induction s arbitrary: v rest rule: json_string.induct)
     (force split: if_splits list.splits option.splits)+

lemma json_pair_shrinks: "json_pair s = Some (p, rest) \<Longrightarrow> length rest < length s"
  by (auto simp: json_pair_def split: list.splits if_splits option.splits dest!: json_string_shrinks)

text \<open>The members up to the closing brace; nothing may follow it.\<close>

function json_members :: "cstring \<Rightarrow> (cstring \<times> cstring) list option" where
  "json_members s =
     (case json_pair s of
        Some (p, c # r) \<Rightarrow>
          if c = CHR ''}'' then (if r = [] then Some [p] else None)
          else if c = CHR '','' then map_option ((#) p) (json_members r) else None
      | _ \<Rightarrow> None)"
  by pat_completeness auto

termination json_members
  by (relation "measure length") (auto dest!: json_pair_shrinks)

declare json_members.simps [simp del]

definition json_object :: "cstring \<Rightarrow> (cstring \<times> cstring) list option" where
  "json_object s = (case s of c # r \<Rightarrow> if c = CHR ''{'' then json_members r else None | [] \<Rightarrow> None)"

subsection \<open>The escapes read back\<close>

lemma hex_value_digit: "d < 16 \<Longrightarrow> hex_value (lower_hex d) = Some d"
  by (simp add: hex_value_def lower_hex_def c_isdigit_def)

lemma byte_QUOTE [simp]: "byte QUOTE = 34" "byte BACKSLASH = 92"
  by (simp_all add: QUOTE_def BACKSLASH_def byte_def)

lemma QUOTE_BACKSLASH [simp]: "QUOTE \<noteq> BACKSLASH" "BACKSLASH \<noteq> QUOTE"
  by (simp_all add: QUOTE_def BACKSLASH_def)

lemma json_string_simple:
  "json_simple e = Some d \<Longrightarrow> json_string (BACKSLASH # e # r) = map_option (\<lambda>(v, rest). (d # v, rest)) (json_string r)"
  by (auto simp: json_simple_def QUOTE_def BACKSLASH_def byte_def split: if_splits)

lemma json_string_hex:
  assumes "byte c < 32"
  shows "json_string (BACKSLASH # ''u00'' @ [lower_hex (byte c div 16), lower_hex (byte c mod 16)] @ r) =
     map_option (\<lambda>(v, rest). (c # v, rest)) (json_string r)"
proof -
  have "byte c div 16 < 16" using assms by simp
  moreover have "byte c mod 16 < 16" by simp
  moreover have "char_of (byte c) = c" by (simp add: byte_def)
  ultimately show ?thesis by (simp add: hex_value_digit)
qed

lemma json_string_escape:
  "json_string (json_escape_byte c @ r) = map_option (\<lambda>(v, rest). (c # v, rest)) (json_string r)"
proof -
  have n: "byte c = 10 \<Longrightarrow> c = CHR 0x0A" "byte c = 13 \<Longrightarrow> c = CHR 0x0D" "byte c = 9 \<Longrightarrow> c = CHR 0x09"
    by (simp_all add: byte_inject [symmetric]) (simp_all add: byte_def)
  consider "c = QUOTE" | "c = BACKSLASH" | "byte c = 10" | "byte c = 13" | "byte c = 9"
    | "c \<noteq> QUOTE" "c \<noteq> BACKSLASH" "byte c \<noteq> 10" "byte c \<noteq> 13" "byte c \<noteq> 9" "byte c < 32"
    | "c \<noteq> QUOTE" "c \<noteq> BACKSLASH" "32 \<le> byte c"
    by fastforce
  then show ?thesis
  proof cases
    case 1
    then show ?thesis using json_string_simple [of QUOTE QUOTE r] by (simp add: json_escape_byte_def json_simple_def)
  next
    case 2
    then show ?thesis using json_string_simple [of BACKSLASH BACKSLASH r] by (simp add: json_escape_byte_def json_simple_def)
  next
    case 3
    with n(1) show ?thesis using json_string_simple [of "CHR ''n''" "CHR 0x0A" r]
      by (simp add: json_escape_byte_def json_simple_def QUOTE_def BACKSLASH_def byte_def)
  next
    case 4
    with n(2) show ?thesis using json_string_simple [of "CHR ''r''" "CHR 0x0D" r]
      by (simp add: json_escape_byte_def json_simple_def QUOTE_def BACKSLASH_def byte_def)
  next
    case 5
    with n(3) show ?thesis using json_string_simple [of "CHR ''t''" "CHR 0x09" r]
      by (simp add: json_escape_byte_def json_simple_def QUOTE_def BACKSLASH_def byte_def)
  next
    case 6
    then show ?thesis using json_string_hex [of c r] by (simp add: json_escape_byte_def)
  next
    case 7
    then show ?thesis by (auto simp: json_escape_byte_def)
  qed
qed

lemma json_string_back: "json_string (json_escape_alloc s @ QUOTE # r) = Some (s, r)"
  by (induction s) (simp_all add: json_escape_alloc_def json_string_escape)

lemma json_plain: "\<forall>c \<in> set s. 32 \<le> byte c \<and> c \<noteq> QUOTE \<and> c \<noteq> BACKSLASH \<Longrightarrow> json_escape_alloc s = s"
  by (induction s) (auto simp: json_escape_alloc_def json_escape_byte_def)

lemma json_pair_back:
  "\<forall>c \<in> set k. 32 \<le> byte c \<and> c \<noteq> QUOTE \<and> c \<noteq> BACKSLASH \<Longrightarrow>
     json_pair (json_member k (json_escape_alloc v) @ r) = Some ((k, v), r)"
  using json_string_back [of k] json_string_back [of v r] json_plain [of k]
  by (simp add: json_pair_def json_member_def)

definition plain_key :: "cstring \<Rightarrow> bool" where
  "plain_key k \<longleftrightarrow> (\<forall>c \<in> set k. 32 \<le> byte c \<and> c \<noteq> QUOTE \<and> c \<noteq> BACKSLASH)"

lemma json_members_more:
  assumes "plain_key k"
  shows "json_members (json_member k (json_escape_alloc v) @ CHR '','' # r) = map_option ((#) (k, v)) (json_members r)"
    and "json_members (json_member k (json_escape_alloc v) @ ''}'') = Some [(k, v)]"
  using json_pair_back [of k v "CHR '','' # r"] json_pair_back [of k v "''}''"] assms
  by (subst json_members.simps, simp add: plain_key_def)+

lemma xml_escape_clean: "c \<in> set (xml_escape_alloc s) \<Longrightarrow> c \<noteq> CHR ''<'' \<and> c \<noteq> CHR ''>'' \<and> c \<noteq> QUOTE \<and> c \<noteq> CHR 0x27"
  by (auto simp: xml_escape_alloc_def xml_escape_byte_def QUOTE_def split: if_splits)

text \<open>The answer of an error, in JSON: the client reads the five members back, whatever the texts hold.\<close>

lemma error_envelope_members:
  "json_object (the (rs_body (build_error_envelope audit op code txt True resp))) =
     Some [(''status'', ''ERROR''), (''audit_id'', c_strncpy 128 audit), (''operation'', c_strncpy 32 op),
           (''error_code'', c_strncpy 64 code), (''error_text'', c_strncpy 512 txt)]"
proof -
  have "plain_key ''status''" "plain_key ''audit_id''" "plain_key ''operation''" "plain_key ''error_code''" "plain_key ''error_text''"
    by (simp_all add: plain_key_def byte_def QUOTE_def BACKSLASH_def)
  note m = this [THEN json_members_more(1)] this(5) [THEN json_members_more(2)]
  have e: "json_member ''status'' ''ERROR'' = json_member ''status'' (json_escape_alloc ''ERROR'')"
    by (simp add: json_plain byte_def QUOTE_def BACKSLASH_def)
  show ?thesis
    by (simp add: build_error_envelope_def Let_def json_object_def e m)
qed

end
