(* ===== verification/Ddl_Execute.thy ===== *)
theory Ddl_Execute
  imports Ddl_Text Response_Object Transaction_Manager Xml_Helper
begin

text \<open>
  Running a statement that changes the schema (\<^verbatim>\<open>src/execute/DDL_Execute_Module.c\<close>) and the six handlers of
  \<^verbatim>\<open>core/dispatcher.c\<close> that build the statement, run it and answer. The driver is a parameter: its \<^verbatim>\<open>dml_execute\<close>
  takes the state of the database session and a statement, and gives success or the text of the error, and the new
  state. The handlers never pass a NULL argument, so \<^verbatim>\<open>execute_ddl_statement\<close> never returns \<open>-1\<close>. The elapsed
  time is the text that \<^verbatim>\<open>%.6f\<close> prints. A handler answers \<open>None\<close> where \<^verbatim>\<open>xml_append\<close> reads past its buffer.
\<close>

subsection \<open>Executing a statement\<close>

definition DDL_EXEC_ERROR_MSG_LEN :: nat where "DDL_EXEC_ERROR_MSG_LEN = 512"

record ddl_result =
  dx_success :: bool
  dx_error_message :: cstring

text \<open>
  What one call meets: whether \<^verbatim>\<open>strdup\<close> succeeds, the address and the random bytes of the local transaction handle,
  and the driver's hook (\<open>None\<close>: the driver is incomplete).
\<close>

record 'd ddl_env =
  de_strdup :: bool
  de_address :: nat
  de_random :: "8 word list"
  de_execute :: "('d \<Rightarrow> cstring \<Rightarrow> (bool \<times> cstring) \<times> 'd) option"

definition strip_spaces :: "cstring \<Rightarrow> cstring" where
  "strip_spaces s = rev (dropWhile c_isspace (rev s))"

definition drop_semicolon :: "cstring \<Rightarrow> cstring" where
  "drop_semicolon s = (if s \<noteq> [] \<and> last s = CHR '';'' then butlast s else s)"

definition exec_text :: "bool \<Rightarrow> cstring \<Rightarrow> cstring" where
  "exec_text is_plsql_block s = (if is_plsql_block then s else strip_spaces (drop_semicolon (strip_spaces s)))"

definition ddl_failure :: "cstring \<Rightarrow> ddl_result" where
  "ddl_failure msg = \<lparr>dx_success = False, dx_error_message = c_snprintf DDL_EXEC_ERROR_MSG_LEN msg\<rparr>"

definition active_tx_message :: "cstring \<Rightarrow> cstring \<Rightarrow> cstring" where
  "active_tx_message label tx_id = ''Refusing to execute '' @ label @ '': a managed transaction is active (tx_id='' @ quoted tx_id @
     ''). Oracle DDL implicitly commits, which would silently commit that transaction'' @ [CHR 0x27] @
     ''s pending work. Commit or roll back the active transaction first.''"

definition execute_ddl_statement ::
    "'d ddl_env \<Rightarrow> cstring \<Rightarrow> cstring \<Rightarrow> bool \<Rightarrow> 'd tx_world \<Rightarrow> ddl_result \<times> 'd tx_world" where
  "execute_ddl_statement e text label is_plsql_block w =
     (case active_tx w of
        Some a \<Rightarrow>
          (ddl_failure (active_tx_message label (tx_get_id (Some (handles w a)))), w)
      | None \<Rightarrow>
          if \<not> de_strdup e then (ddl_failure (''strdup failed while preparing '' @ label @ '' for execution''), w)
          else
            (case begin_standalone_tx_if_needed (de_address e) (de_random e) w of
               (owns, w1) \<Rightarrow>
                 (case de_execute e of
                    None \<Rightarrow> (ddl_failure ''db_driver_get() returned an incomplete driver'', end_standalone_tx_if_owned owns w1)
                  | Some dml \<Rightarrow>
                      (case dml (session w1) (exec_text is_plsql_block text) of
                         ((ok, msg), d) \<Rightarrow>
                           (if ok then \<lparr>dx_success = True, dx_error_message = []\<rparr> else ddl_failure msg,
                            end_standalone_tx_if_owned owns (w1\<lparr>session := d\<rparr>))))))"

subsection \<open>The bodies of the answers\<close>

definition json_escape_string_byte :: "char \<Rightarrow> cstring" where
  "json_escape_string_byte c =
     (if c = QUOTE then [BACKSLASH, QUOTE]
      else if c = BACKSLASH then [BACKSLASH, BACKSLASH]
      else if byte c = 10 then BACKSLASH # ''n''
      else if byte c = 13 then []
      else [c])"

definition json_escape_string :: "cstring \<Rightarrow> cstring" where
  "json_escape_string s = concat (map json_escape_string_byte s)"

fun xml_pieces :: "cstring list \<Rightarrow> xml_builder \<Rightarrow> xml_builder option" where
  "xml_pieces [] xml = Some xml"
| "xml_pieces (p # ps) xml = do { x \<leftarrow> xml_append p xml; xml_pieces ps x }"

definition xml_line :: "cstring \<Rightarrow> cstring \<Rightarrow> cstring" where
  "xml_line t v = ''  '' @ tagged t v"

definition get_ddl_execution_response_xml :: "cstring \<Rightarrow> cstring \<Rightarrow> ddl_result \<Rightarrow> cstring \<Rightarrow> cstring option" where
  "get_ddl_execution_response_xml label ddl r time = do {
     e_op \<leftarrow> xml_escape (Some label);
     e_ddl \<leftarrow> xml_escape (Some ddl);
     x \<leftarrow> xml_pieces [XML_HEADER, ''<DDL_Execution_Result>'' @ EOL, xml_line ''operation'' e_op,
            xml_line ''status'' (if dx_success r then ''SUCCESS'' else ''FAILED''), xml_line ''executed_ddl'' e_ddl,
            xml_line ''execution_time'' time] (xml_create 2048);
     y \<leftarrow> (if dx_success r then Some x
           else do { e_err \<leftarrow> xml_escape (Some (dx_error_message r)); xml_append (xml_line ''error_message'' e_err) x });
     z \<leftarrow> xml_append (''</DDL_Execution_Result>'' @ EOL) y;
     Some (xb_text z) }"

definition get_ddl_execution_response_json :: "cstring \<Rightarrow> cstring \<Rightarrow> ddl_result \<Rightarrow> cstring \<Rightarrow> cstring" where
  "get_ddl_execution_response_json label ddl r time =
     (let e_ddl = json_escape_string ddl;
          cap = length e_ddl + length label + DDL_EXEC_ERROR_MSG_LEN + 256;
          head = ''{'' @ json_member ''operation'' label @ '','';
          timed = [QUOTE] @ ''execution_time'' @ [QUOTE] @ '':'' @ time
      in c_snprintf cap
           (if dx_success r
            then head @ json_member ''status'' ''SUCCESS'' @ '','' @ json_member ''executed_ddl'' e_ddl @ '','' @ timed @ ''}''
            else head @ json_member ''status'' ''FAILED'' @ '','' @ json_member ''executed_ddl'' e_ddl @ '','' @ timed @ '','' @
              json_member ''error_message'' (json_escape_string (dx_error_message r)) @ ''}''))"

subsection \<open>The handlers\<close>

text \<open>Answer: the return code with the response, and the world.\<close>

type_synonym 'd handled = "((int \<times> response) \<times> 'd tx_world) option"

definition refuse_request :: "cstring \<Rightarrow> cstring \<Rightarrow> cstring \<Rightarrow> cstring \<Rightarrow> bool \<Rightarrow> response \<Rightarrow> 'd tx_world \<Rightarrow> 'd handled" where
  "refuse_request audit op code txt is_json resp w = Some ((-1, build_error_envelope audit op code txt is_json resp), w)"

definition no_payload :: "cstring \<Rightarrow> cstring \<Rightarrow> cstring \<Rightarrow> bool \<Rightarrow> response \<Rightarrow> 'd tx_world \<Rightarrow> 'd handled" where
  "no_payload audit op what = refuse_request audit op ''NO_PAYLOAD'' (''No '' @ what @ '' payload after Level 1/2'')"

definition pass_request :: "cstring \<Rightarrow> cstring \<Rightarrow> bool \<Rightarrow> cstring \<Rightarrow> response \<Rightarrow> response" where
  "pass_request audit op is_json body resp =
     resp\<lparr>rs_status := RESPONSE_STATUS_PASS, rs_is_json := is_json, rs_audit_id := c_strncpy 128 audit,
          rs_operation := c_strncpy 32 op, rs_body := Some body\<rparr>"

text \<open>After the statement: the envelope of a failure, or the body of a success.\<close>

definition answer_ddl ::
    "cstring \<Rightarrow> bool \<Rightarrow> cstring \<Rightarrow> cstring \<Rightarrow> cstring \<Rightarrow> response \<Rightarrow> ddl_result \<times> 'd tx_world \<Rightarrow> 'd handled" where
  "answer_ddl audit is_json op ddl time resp out =
     (case out of (r, w) \<Rightarrow>
        if \<not> dx_success r then refuse_request audit op ''DDL_EXECUTION_FAILED'' (dx_error_message r) is_json resp w
        else map_option (\<lambda>body. ((0, pass_request audit op is_json body resp), w))
               (if is_json then Some (get_ddl_execution_response_json op ddl r time)
                else get_ddl_execution_response_xml op ddl r time))"

definition dispatch_grant_new ::
    "'d ddl_env \<Rightarrow> cstring \<Rightarrow> cstring \<Rightarrow> bool \<Rightarrow> grant_request option \<Rightarrow> response \<Rightarrow> 'd tx_world \<Rightarrow> 'd handled" where
  "dispatch_grant_new e time audit is_json payload resp w =
     (case payload of
        None \<Rightarrow> no_payload audit ''GRANT'' ''grant_request_t'' is_json resp w
      | Some req \<Rightarrow>
          let ddl = build_grant_ddl_text req GRANT_TEXT in
          answer_ddl audit is_json ''GRANT'' ddl time resp (execute_ddl_statement e ddl ''GRANT'' False w))"

definition dispatch_create_table_new ::
    "'d ddl_env \<Rightarrow> cstring \<Rightarrow> cstring \<Rightarrow> bool \<Rightarrow> create_table_request option \<Rightarrow> response \<Rightarrow> 'd tx_world \<Rightarrow> 'd handled" where
  "dispatch_create_table_new e time audit is_json payload resp w =
     (case payload of
        None \<Rightarrow> no_payload audit ''CREATE_TABLE'' ''create_table_request_t'' is_json resp w
      | Some req \<Rightarrow>
          let ddl = build_create_table_ddl_text req TABLE_TEXT in
          answer_ddl audit is_json ''CREATE_TABLE'' ddl time resp (execute_ddl_statement e ddl ''CREATE_TABLE'' False w))"

definition dispatch_create_view_new ::
    "'d ddl_env \<Rightarrow> cstring \<Rightarrow> cstring \<Rightarrow> bool \<Rightarrow> create_view_request option \<Rightarrow> response \<Rightarrow> 'd tx_world \<Rightarrow> 'd handled" where
  "dispatch_create_view_new e time audit is_json payload resp w =
     (case payload of
        None \<Rightarrow> no_payload audit ''CREATE_VIEW'' ''create_view_request_t'' is_json resp w
      | Some req \<Rightarrow>
          let ddl = build_create_view_ddl_text req VIEW_TEXT in
          answer_ddl audit is_json ''CREATE_VIEW'' ddl time resp (execute_ddl_statement e ddl ''CREATE_VIEW'' False w))"

definition dispatch_create_procedure_new ::
    "'d ddl_env \<Rightarrow> cstring \<Rightarrow> cstring \<Rightarrow> bool \<Rightarrow> create_procedure_request option \<Rightarrow> response \<Rightarrow> 'd tx_world \<Rightarrow> 'd handled" where
  "dispatch_create_procedure_new e time audit is_json payload resp w =
     (case payload of
        None \<Rightarrow> no_payload audit ''CREATE_PROCEDURE'' ''create_procedure_request_t'' is_json resp w
      | Some req \<Rightarrow>
          let ddl = build_create_procedure_ddl_text req PROCEDURE_TEXT in
          answer_ddl audit is_json ''CREATE_PROCEDURE'' ddl time resp (execute_ddl_statement e ddl ''CREATE_PROCEDURE'' True w))"

definition confirm_message :: cstring where
  "confirm_message = ''DROP_TABLE is irreversible - the request must include <confirm>1</confirm> (or '' @ [QUOTE] @ ''confirm'' @
     [QUOTE] @ '': 1 in JSON) to actually execute it. No DDL was run.''"

definition dispatch_drop_table_new ::
    "'d ddl_env \<Rightarrow> cstring \<Rightarrow> cstring \<Rightarrow> bool \<Rightarrow> drop_table_request option \<Rightarrow> response \<Rightarrow> 'd tx_world \<Rightarrow> 'd handled" where
  "dispatch_drop_table_new e time audit is_json payload resp w =
     (case payload of
        None \<Rightarrow> no_payload audit ''DROP_TABLE'' ''drop_table_request_t'' is_json resp w
      | Some req \<Rightarrow>
          let ddl = build_drop_table_ddl_text req DROP_TEXT in
          if dt_confirm req = 0
          then refuse_request audit ''DROP_TABLE'' ''CONFIRM_REQUIRED''
                 confirm_message is_json resp w
          else answer_ddl audit is_json ''DROP_TABLE'' ddl time resp (execute_ddl_statement e ddl ''DROP_TABLE'' False w))"

text \<open>The grant of the roles of a new user, written into an array of its own.\<close>

definition ROLE_GRANT_TEXT :: nat where "ROLE_GRANT_TEXT = 512"

definition role_grant_pieces :: "create_user_request \<Rightarrow> cstring list" where
  "role_grant_pieces req = [''GRANT ''] @ comma_pieces (cu_roles req) @ ['' TO '' @ cu_username req]"

definition role_grant_text :: "create_user_request \<Rightarrow> cstring" where
  "role_grant_text req = ddl_text ROLE_GRANT_TEXT (role_grant_pieces req)"

definition role_failure_message :: "cstring \<Rightarrow> cstring \<Rightarrow> cstring" where
  "role_failure_message user why = c_snprintf DDL_EXEC_ERROR_MSG_LEN (''CREATE USER '' @ quoted user @
     '' succeeded (the user now exists and cannot be rolled back - Oracle DDL auto-commits), but granting initial roles failed: '' @ why)"

text \<open>CREATE USER is two statements: \<open>e1\<close> is what the first call meets, \<open>e2\<close> the second.\<close>

definition dispatch_create_user_new ::
    "'d ddl_env \<Rightarrow> 'd ddl_env \<Rightarrow> cstring \<Rightarrow> cstring \<Rightarrow> bool \<Rightarrow> create_user_request option \<Rightarrow> response \<Rightarrow> 'd tx_world \<Rightarrow> 'd handled" where
  "dispatch_create_user_new e1 e2 time audit is_json payload resp w =
     (case payload of
        None \<Rightarrow> no_payload audit ''CREATE_USER'' ''create_user_request_t'' is_json resp w
      | Some req \<Rightarrow>
          let ddl = build_create_user_ddl_text req USER_TEXT;
              create_stmt = build_create_user_ddl_text (req\<lparr>cu_roles := []\<rparr>) USER_TEXT
          in (case execute_ddl_statement e1 create_stmt ''CREATE_USER'' False w of
                (r, w1) \<Rightarrow>
                  if \<not> dx_success r \<or> cu_roles req = [] then answer_ddl audit is_json ''CREATE_USER'' ddl time resp (r, w1)
                  else
                    (case execute_ddl_statement e2 (role_grant_text req) ''CREATE_USER (role grant)'' False w1 of
                       (r2, w2) \<Rightarrow>
                         if \<not> dx_success r2
                         then refuse_request audit ''CREATE_USER'' ''DDL_EXECUTION_FAILED''
                                (role_failure_message (cu_username req) (dx_error_message r2)) is_json resp w2
                         else answer_ddl audit is_json ''CREATE_USER'' ddl time resp (r, w2))))"

end
