(* ===== verification/Requests.thy ===== *)
theory Requests
  imports Level2_Dml Ddl_Modules
begin

text \<open>
  A request as the parser of level 1 leaves it and the rest of the gateway works on it (\<^verbatim>\<open>Request_Response_Types.h\<close>,
  \<^verbatim>\<open>Execute_Procedure_Module.h\<close>, \<^verbatim>\<open>Auth_Manager.h\<close>, \<^verbatim>\<open>Authz_Manager.h\<close>). The \<^verbatim>\<open>void *payload\<close> of an operation,
  which is cast by its type, is the argument of a constructor; a payload that is NULL is \<open>None\<close>. The constants
  \<^verbatim>\<open>max_rows\<close>, \<^verbatim>\<open>fetch_batch_size\<close> and \<^verbatim>\<open>include_column_names\<close> that level 1 puts into every SELECT are left out.
\<close>

datatype input_format = INPUT_FORMAT_UNKNOWN | INPUT_FORMAT_XML | INPUT_FORMAT_JSON

record select_request =
  sr_sql :: cstring
  sr_execute_async :: int
  sr_async_call_back_url :: cstring

datatype param_direction = PARAM_DIR_IN | PARAM_DIR_OUT | PARAM_DIR_IN_OUT

record procedure_param =
  pp_name :: cstring
  pp_type :: cstring
  pp_direction :: param_direction
  pp_value :: cstring

record execute_procedure_request =
  xp_name :: cstring
  xp_owner :: cstring
  xp_params :: "procedure_param list"

record authenticate_request =
  aq_username :: cstring
  aq_credential :: cstring

record check_permission_request =
  cq_permission_code :: cstring

datatype ddl_request =
    Ddl_Create_User "create_user_request option"
  | Ddl_Grant "grant_request option"
  | Ddl_Create_Table "create_table_request option"
  | Ddl_Drop_Table "drop_table_request option"
  | Ddl_Create_View "create_view_request option"
  | Ddl_Create_Procedure "create_procedure_request option"

text \<open>The operation types for which there is no payload.\<close>

datatype other_type = OP_UNKNOWN | OP_GET_TEMPLATE | OP_CREATE_SESSION | OP_END_SESSION

datatype op_request =
    Op_Select "select_request option"
  | Op_Insert "insert_request option"
  | Op_Update "update_request option"
  | Op_Delete "delete_request option"
  | Op_Execute_Procedure "execute_procedure_request option"
  | Op_Authenticate "authenticate_request option"
  | Op_Check_Permission "check_permission_request option"
  | Op_Ddl ddl_request
  | Op_Other other_type

record input_c_operation =
  io_request :: op_request
  io_status :: operation_status

record input_c_request =
  ir_version :: cstring
  ir_external_audit_id :: cstring
  ir_session_id :: cstring
  ir_source_format :: input_format
  ir_transaction_required :: int
  ir_transaction_name :: cstring
  ir_operations :: "input_c_operation list"

definition no_status :: operation_status where
  "no_status = \<lparr>status_code = 0, error_code = [], error_text = []\<rparr>"

definition has_payload :: "ddl_request \<Rightarrow> bool" where
  "has_payload req \<longleftrightarrow>
     (case req of Ddl_Create_User p \<Rightarrow> p \<noteq> None | Ddl_Grant p \<Rightarrow> p \<noteq> None | Ddl_Create_Table p \<Rightarrow> p \<noteq> None
      | Ddl_Drop_Table p \<Rightarrow> p \<noteq> None | Ddl_Create_View p \<Rightarrow> p \<noteq> None | Ddl_Create_Procedure p \<Rightarrow> p \<noteq> None)"

end
