(* ===== verification/Ddl_Outcomes.thy ===== *)
theory Ddl_Outcomes
  imports Ddl_Execute Requests
begin

text \<open>
  What the handlers of \<open>Ddl_Execute\<close> do with an accepted request: which statement reaches the driver, when nothing
  does, what the client is told; and what the buffers cut or the checks let through.
\<close>

subsection \<open>One request\<close>

text \<open>The chain of \<^verbatim>\<open>process_xml_file\<close> over the operations that change the schema.\<close>

fun dispatch_ddl ::
    "'d ddl_env \<Rightarrow> 'd ddl_env \<Rightarrow> cstring \<Rightarrow> cstring \<Rightarrow> bool \<Rightarrow> ddl_request \<Rightarrow> response \<Rightarrow> 'd tx_world \<Rightarrow> 'd handled" where
  "dispatch_ddl e1 e2 time audit is_json (Ddl_Create_User p) resp w = dispatch_create_user_new e1 e2 time audit is_json p resp w"
| "dispatch_ddl e1 e2 time audit is_json (Ddl_Grant p) resp w = dispatch_grant_new e1 time audit is_json p resp w"
| "dispatch_ddl e1 e2 time audit is_json (Ddl_Create_Table p) resp w = dispatch_create_table_new e1 time audit is_json p resp w"
| "dispatch_ddl e1 e2 time audit is_json (Ddl_Drop_Table p) resp w = dispatch_drop_table_new e1 time audit is_json p resp w"
| "dispatch_ddl e1 e2 time audit is_json (Ddl_Create_View p) resp w = dispatch_create_view_new e1 time audit is_json p resp w"
| "dispatch_ddl e1 e2 time audit is_json (Ddl_Create_Procedure p) resp w =
     dispatch_create_procedure_new e1 time audit is_json p resp w"

lemmas ddl_handlers = dispatch_create_user_new_def dispatch_grant_new_def dispatch_create_table_new_def
  dispatch_drop_table_new_def dispatch_create_view_new_def dispatch_create_procedure_new_def

subsection \<open>Executing one statement\<close>

lemma execute_in_transaction:
  "active_tx w = Some a \<Longrightarrow> \<exists>msg. execute_ddl_statement e stmt label plsql w = (ddl_failure msg, w)"
  by (auto simp: execute_ddl_statement_def)

lemma execute_keeps_pointer:
  "execute_ddl_statement e stmt label plsql w = (r, w') \<Longrightarrow> active_tx w' = active_tx w"
  by (auto simp: execute_ddl_statement_def begin_standalone_tx_if_needed_def end_standalone_tx_if_owned_def set_handle_def
      split: option.splits if_splits prod.splits)

text \<open>The hook of the driver is called once, with the text as \<open>exec_text\<close> leaves it.\<close>

lemma execute_runs:
  assumes "active_tx w = None" "de_strdup e" "de_execute e = Some dml"
    and "execute_ddl_statement e stmt label plsql w = (r, w')"
  shows "session w' = snd (dml (session w) (exec_text plsql stmt))"
    and "dx_success r = fst (fst (dml (session w) (exec_text plsql stmt)))"
  using assms
  by (auto simp: execute_ddl_statement_def begin_standalone_tx_if_needed_def end_standalone_tx_if_owned_def set_handle_def
      ddl_failure_def split: prod.splits if_splits)

lemma execute_without_driver:
  assumes "active_tx w \<noteq> None \<or> \<not> de_strdup e \<or> de_execute e = None"
  shows "session (snd (execute_ddl_statement e stmt label plsql w)) = session w"
    and "\<not> dx_success (fst (execute_ddl_statement e stmt label plsql w))"
  using assms
  by (auto simp: execute_ddl_statement_def begin_standalone_tx_if_needed_def end_standalone_tx_if_owned_def set_handle_def
      ddl_failure_def split: option.splits)

lemma answer_ddl_cases:
  assumes "answer_ddl audit j op ddl time resp (r, w) = Some ((rc, resp'), w')"
  shows "w' = w \<and> (dx_success r \<longrightarrow> rc = 0 \<and> rs_status resp' = RESPONSE_STATUS_PASS) \<and>
     (\<not> dx_success r \<longrightarrow> rc = -1 \<and> rs_status resp' = RESPONSE_STATUS_ERROR)"
  using assms
  by (auto simp: answer_ddl_def refuse_request_def build_error_envelope_def Let_def pass_request_def split: if_splits)

lemma answer_refusal:
  "\<not> dx_success r \<Longrightarrow> \<exists>resp'. answer_ddl audit j op ddl time resp (r, w) = Some ((-1, resp'), w) \<and> rs_status resp' = RESPONSE_STATUS_ERROR"
  by (simp add: answer_ddl_def refuse_request_def build_error_envelope_def Let_def)

lemma ddl_failure_fails [simp]: "\<not> dx_success (ddl_failure msg)"
  by (simp add: ddl_failure_def)

lemma refuse_request_error:
  "\<exists>resp'. refuse_request audit op code txt j resp w = Some ((-1, resp'), w) \<and> rs_status resp' = RESPONSE_STATUS_ERROR"
  by (simp add: refuse_request_def build_error_envelope_def Let_def)

definition unconfirmed :: "ddl_request \<Rightarrow> bool" where
  "unconfirmed req \<longleftrightarrow> (case req of Ddl_Drop_Table (Some d) \<Rightarrow> dt_confirm d = 0 | _ \<Rightarrow> False)"

lemma answer_in_transaction:
  assumes "active_tx w = Some a"
  shows "\<exists>resp'. answer_ddl audit j op ddl time resp (execute_ddl_statement e stmt label plsql w) = Some ((-1, resp'), w) \<and>
     rs_status resp' = RESPONSE_STATUS_ERROR"
  using execute_in_transaction [OF assms, of e stmt label plsql] answer_refusal [OF ddl_failure_fails] by fastforce

lemma user_in_transaction:
  assumes "active_tx w = Some a"
  shows "\<exists>resp'. dispatch_create_user_new e1 e2 time audit j (Some req) resp w = Some ((-1, resp'), w) \<and>
     rs_status resp' = RESPONSE_STATUS_ERROR"
proof -
  obtain msg where "execute_ddl_statement e1 (build_create_user_ddl_text (req\<lparr>cu_roles := []\<rparr>) USER_TEXT) ''CREATE_USER'' False w =
      (ddl_failure msg, w)"
    using execute_in_transaction [OF assms] by blast
  then show ?thesis
    using answer_refusal [OF ddl_failure_fails [of msg]] by (simp add: dispatch_create_user_new_def Let_def)
qed

lemma ddl_in_transaction:
  assumes "active_tx w = Some a" "has_payload req" "\<not> unconfirmed req"
  shows "\<exists>resp'. dispatch_ddl e1 e2 time audit j req resp w = Some ((-1, resp'), w) \<and> rs_status resp' = RESPONSE_STATUS_ERROR"
proof (cases req)
  case (Ddl_Create_User p)
  with assms(2) obtain q where "p = Some q" by (auto simp: has_payload_def)
  with Ddl_Create_User show ?thesis by (simp add: user_in_transaction [OF assms(1)])
next
  case (Ddl_Grant p)
  with assms(2) obtain q where "p = Some q" by (auto simp: has_payload_def)
  with Ddl_Grant show ?thesis by (simp add: dispatch_grant_new_def Let_def answer_in_transaction [OF assms(1)])
next
  case (Ddl_Create_Table p)
  with assms(2) obtain q where "p = Some q" by (auto simp: has_payload_def)
  with Ddl_Create_Table show ?thesis by (simp add: dispatch_create_table_new_def Let_def answer_in_transaction [OF assms(1)])
next
  case (Ddl_Drop_Table p)
  with assms(2,3) obtain q where "p = Some q" "dt_confirm q \<noteq> 0" by (auto simp: has_payload_def unconfirmed_def)
  with Ddl_Drop_Table show ?thesis by (simp add: dispatch_drop_table_new_def Let_def answer_in_transaction [OF assms(1)])
next
  case (Ddl_Create_View p)
  with assms(2) obtain q where "p = Some q" by (auto simp: has_payload_def)
  with Ddl_Create_View show ?thesis by (simp add: dispatch_create_view_new_def Let_def answer_in_transaction [OF assms(1)])
next
  case (Ddl_Create_Procedure p)
  with assms(2) obtain q where "p = Some q" by (auto simp: has_payload_def)
  with Ddl_Create_Procedure show ?thesis
    by (simp add: dispatch_create_procedure_new_def Let_def answer_in_transaction [OF assms(1)])
qed

lemma ddl_without_payload:
  "\<not> has_payload req \<Longrightarrow>
     \<exists>resp'. dispatch_ddl e1 e2 time audit j req resp w = Some ((-1, resp'), w) \<and> rs_status resp' = RESPONSE_STATUS_ERROR"
  by (cases req) (simp_all add: has_payload_def ddl_handlers no_payload_def refuse_request_error)

lemma ddl_unconfirmed:
  assumes "unconfirmed req"
  shows "\<exists>resp'. dispatch_ddl e1 e2 time audit j req resp w = Some ((-1, resp'), w) \<and> rs_status resp' = RESPONSE_STATUS_ERROR"
proof -
  obtain q where "req = Ddl_Drop_Table (Some q)" "dt_confirm q = 0"
    using assms by (auto simp: unconfirmed_def split: ddl_request.splits option.splits)
  then show ?thesis by (simp add: dispatch_drop_table_new_def Let_def refuse_request_error)
qed

lemma ddl_refused:
  assumes "active_tx w \<noteq> None \<or> unconfirmed req \<or> \<not> has_payload req"
  shows "\<exists>resp'. dispatch_ddl e1 e2 time audit j req resp w = Some ((-1, resp'), w) \<and> rs_status resp' = RESPONSE_STATUS_ERROR"
  using assms ddl_in_transaction ddl_without_payload ddl_unconfirmed by (metis not_None_eq)

definition well_answered :: "'d tx_world \<Rightarrow> (int \<times> response) \<times> 'd tx_world \<Rightarrow> bool" where
  "well_answered w out \<longleftrightarrow>
     active_tx (snd out) = active_tx w \<and>
     (fst (fst out) = 0 \<and> rs_status (snd (fst out)) = RESPONSE_STATUS_PASS \<or>
      fst (fst out) = -1 \<and> rs_status (snd (fst out)) = RESPONSE_STATUS_ERROR)"

lemma refuse_well_answered: "refuse_request audit op code txt j resp w' = Some out \<Longrightarrow> active_tx w' = active_tx w \<Longrightarrow> well_answered w out"
  by (auto simp: refuse_request_def well_answered_def build_error_envelope_def Let_def)

lemma answer_well_answered:
  assumes "answer_ddl audit j op ddl time resp (r, w') = Some out" "active_tx w' = active_tx w"
  shows "well_answered w out"
proof (cases "dx_success r")
  case True
  then show ?thesis
    using assms answer_ddl_cases [of audit j op ddl time resp r w' "fst (fst out)" "snd (fst out)" "snd out"]
    by (simp add: well_answered_def)
next
  case False
  then show ?thesis
    using assms answer_ddl_cases [of audit j op ddl time resp r w' "fst (fst out)" "snd (fst out)" "snd out"]
    by (simp add: well_answered_def)
qed

lemma run_well_answered:
  "answer_ddl audit j op ddl time resp (execute_ddl_statement e stmt label plsql w) = Some out \<Longrightarrow> well_answered w out"
  using answer_well_answered [OF _ execute_keeps_pointer] by (metis surj_pair)

lemma user_well_answered:
  assumes "dispatch_create_user_new e1 e2 time audit j (Some req) resp w = Some out"
  shows "well_answered w out"
proof -
  obtain r w1 where 1: "execute_ddl_statement e1 (build_create_user_ddl_text (req\<lparr>cu_roles := []\<rparr>) USER_TEXT) ''CREATE_USER'' False w = (r, w1)"
    by fastforce
  obtain r2 w2 where 2: "execute_ddl_statement e2 (role_grant_text req) ''CREATE_USER (role grant)'' False w1 = (r2, w2)"
    by fastforce
  note p1 = execute_keeps_pointer [OF 1] and p2 = execute_keeps_pointer [OF 2]
  consider "answer_ddl audit j ''CREATE_USER'' (build_create_user_ddl_text req USER_TEXT) time resp (r, w1) = Some out"
    | "answer_ddl audit j ''CREATE_USER'' (build_create_user_ddl_text req USER_TEXT) time resp (r, w2) = Some out"
    | "refuse_request audit ''CREATE_USER'' ''DDL_EXECUTION_FAILED''
         (role_failure_message (cu_username req) (dx_error_message r2)) j resp w2 = Some out"
    using assms 1 2 unfolding dispatch_create_user_new_def option.case Let_def by (simp only: prod.case split: if_splits)
  then show ?thesis
    using answer_well_answered [OF _ p1] answer_well_answered [of _ _ _ _ _ _ _ w2 out w] refuse_well_answered [of _ _ _ _ _ _ w2 out w] p1 p2
    by cases auto
qed

lemma ddl_well_answered:
  assumes "dispatch_ddl e1 e2 time audit j req resp w = Some out"
  shows "well_answered w out"
proof (cases "has_payload req \<and> \<not> unconfirmed req")
  case True
  then show ?thesis
    using assms
    by (cases req)
       (auto simp: has_payload_def unconfirmed_def dispatch_grant_new_def dispatch_create_table_new_def dispatch_drop_table_new_def
         dispatch_create_view_new_def dispatch_create_procedure_new_def Let_def intro: run_well_answered user_well_answered)
next
  case False
  then obtain resp' where "out = ((-1, resp'), w)" "rs_status resp' = RESPONSE_STATUS_ERROR"
    using ddl_refused [of w req e1 e2 time audit j resp] assms by auto
  then show ?thesis by (simp add: well_answered_def)
qed

subsection \<open>The statement that is run\<close>

lemma strip_spaces_id: "s = [] \<or> \<not> c_isspace (last s) \<Longrightarrow> strip_spaces s = s"
  by (cases s rule: rev_cases) (simp_all add: strip_spaces_def)

lemma semicolon_not_space [simp]: "\<not> c_isspace (CHR '';'')"
  by (simp add: c_isspace_def byte_def)

lemma exec_text_semicolon: "s \<noteq> [] \<Longrightarrow> \<not> c_isspace (last s) \<Longrightarrow> exec_text False (s @ '';'') = s"
  by (simp add: exec_text_def strip_spaces_id drop_semicolon_def butlast_append)

lemma identifier_char_not_space: "identifier_char c \<Longrightarrow> \<not> c_isspace c"
  by (auto simp: identifier_char_def ctype_defs byte_def)

lemma identifier_last: "is_valid_identifier s \<Longrightarrow> s \<noteq> [] \<and> \<not> c_isspace (last s)"
  using identifier_plain [of s] identifier_char_not_space by (cases s rule: rev_cases) auto

lemma grant_body_last: "is_valid_identifier (gr_grantee req) \<Longrightarrow> grant_body req \<noteq> [] \<and> \<not> c_isspace (last (grant_body req))"
  using identifier_last [of "gr_grantee req"] by (simp add: grant_body_def c_isspace_def byte_def)

lemma grant_exec_text:
  assumes "validate_grant_request n req = None" "grant_fits req"
  shows "exec_text False (build_grant_ddl_text req GRANT_TEXT) = grant_body req"
proof -
  have "build_grant_ddl_text req GRANT_TEXT = grant_body req @ '';''"
    using ddl_text_whole [OF grant_length [OF assms]] by (simp add: build_grant_ddl_text_def grant_pieces_body)
  then show ?thesis using grant_body_last assms(1) exec_text_semicolon by (simp add: grant_accepted)
qed

lemma answer_session: "answer_ddl audit j op ddl time resp (r, w) = Some (out, w') \<Longrightarrow> w' = w"
  by (cases out) (auto dest: answer_ddl_cases)

subsection \<open>Sample requests\<close>

definition sample_grant :: grant_request where
  "sample_grant = \<lparr>gr_grantee = ''BOB'', gr_object_type = ''TABLE'', gr_object_name = ''EMP'', gr_owner = ''HR'',
     gr_privileges = [''SELECT'', ''ALL PRIVILEGES''], gr_with_grant_option = 1\<rparr>"

definition sample_drop :: drop_table_request where
  "sample_drop = \<lparr>dt_table = ''EMP'', dt_owner = [], dt_cascade_constraints = 1, dt_purge = 1, dt_confirm = 1\<rparr>"

definition sample_user :: create_user_request where
  "sample_user = \<lparr>cu_username = ''BOB'', cu_identified_by = ''pw_1'', cu_default_tablespace = ''USERS'', cu_temp_tablespace = [],
     cu_quota = ''10M'', cu_quota_tablespace = ''USERS'', cu_profile = [], cu_roles = [''CONNECT'', ''READER'']\<rparr>"

definition sample_view :: create_view_request where
  "sample_view = \<lparr>cv_name = ''V'', cv_owner = ''HR'', cv_replace = 1, cv_force = 0, cv_columns = [''A''], cv_query = ''select X from T''\<rparr>"

definition sample_create_table :: create_table_request where
  "sample_create_table = \<lparr>ct_table = ''T'', ct_owner = [],
     ct_columns = [\<lparr>cd_name = ''ID'', cd_type = ''NUMBER'', cd_length = 0, cd_precision = 10, cd_scale = 2, cd_nullable = 0, cd_default = []\<rparr>,
                   \<lparr>cd_name = ''NAME'', cd_type = ''VARCHAR2'', cd_length = 80, cd_precision = 0, cd_scale = 0, cd_nullable = 1, cd_default = []\<rparr>],
     ct_key = [''ID'']\<rparr>"

definition sample_procedure :: create_procedure_request where
  "sample_procedure = \<lparr>cp_name = ''P'', cp_owner = [], cp_replace = 1,
     cp_params = [\<lparr>dp_name = ''A'', dp_type = ''NUMBER'', dp_mode = ''IN'', dp_default = []\<rparr>], cp_body = ''NULL;''\<rparr>"

text \<open>A database session that records the statements it is given.\<close>

definition recording_env :: "cstring list ddl_env" where
  "recording_env = \<lparr>de_strdup = True, de_address = 0, de_random = replicate 16 0, de_execute = Some (\<lambda>d s. ((True, []), d @ [s]))\<rparr>"

definition idle_world :: "cstring list tx_world" where
  "idle_world = \<lparr>active_tx = None, log_txid = None, session = [], handles = (\<lambda>_. fresh_handle False)\<rparr>"

lemma json_always_answers: "answer_ddl audit True op ddl time resp out \<noteq> None"
  by (simp add: answer_ddl_def refuse_request_def split: prod.splits)

subsection \<open>Properties\<close>

text \<open>C15. The statement texts fit: for an accepted request whose fields fit their arrays, the buffer of the dispatcher
  holds the whole statement, for GRANT, DROP TABLE and the first statement of CREATE USER always, for CREATE VIEW with at most
  30 aliases, for CREATE TABLE with at most 19 columns, for CREATE PROCEDURE without default values.\<close>

theorem ddl_statements_whole:
  "(validate_grant_request n g = None \<and> grant_fits g \<longrightarrow> build_grant_ddl_text g GRANT_TEXT = concat (grant_pieces g)) \<and>
   (drop_fits d \<longrightarrow> build_drop_table_ddl_text d DROP_TEXT = concat (drop_table_pieces d)) \<and>
   (user_fits u \<longrightarrow>
      build_create_user_ddl_text (u\<lparr>cu_roles := []\<rparr>) USER_TEXT = concat (create_user_pieces (u\<lparr>cu_roles := []\<rparr>))) \<and>
   (view_fits v \<and> length (cv_columns v) \<le> 30 \<longrightarrow> build_create_view_ddl_text v VIEW_TEXT = concat (create_view_pieces v)) \<and>
   (validate_create_table_request n t = None \<and> table_fits t \<and> length (ct_columns t) \<le> 19 \<longrightarrow>
      build_create_table_ddl_text t TABLE_TEXT = concat (create_table_pieces t)) \<and>
   (validate_create_procedure_request n p = None \<and> procedure_fits p \<and> (\<forall>a \<in> set (cp_params p). dp_default a = []) \<longrightarrow>
      build_create_procedure_ddl_text p PROCEDURE_TEXT = concat (create_procedure_pieces p))"
  using ddl_text_whole [OF grant_length] ddl_text_whole [OF drop_table_length] ddl_text_whole [OF create_user_length]
    ddl_text_whole [OF create_view_length] ddl_text_whole [OF create_table_length] ddl_text_whole [OF create_procedure_length]
  unfolding ddl_builders by (intro conjI impI; (elim conjE)?) blast+

theorem ddl_statements_whole_witness:
  "build_grant_ddl_text sample_grant GRANT_TEXT = concat (grant_pieces sample_grant) \<and>
   build_drop_table_ddl_text sample_drop DROP_TEXT = concat (drop_table_pieces sample_drop) \<and>
   build_create_user_ddl_text (sample_user\<lparr>cu_roles := []\<rparr>) USER_TEXT = concat (create_user_pieces (sample_user\<lparr>cu_roles := []\<rparr>)) \<and>
   build_create_view_ddl_text sample_view VIEW_TEXT = concat (create_view_pieces sample_view) \<and>
   build_create_table_ddl_text sample_create_table TABLE_TEXT = concat (create_table_pieces sample_create_table) \<and>
   build_create_procedure_ddl_text sample_procedure PROCEDURE_TEXT = concat (create_procedure_pieces sample_procedure)"
proof -
  have v: "validate_grant_request 256 sample_grant = None" "validate_create_table_request 256 sample_create_table = None"
      "validate_create_procedure_request 256 sample_procedure = None"
    unfolding accepted by code_simp+
  have f: "grant_fits sample_grant" "drop_fits sample_drop" "user_fits sample_user" "view_fits sample_view"
      "length (cv_columns sample_view) \<le> 30" "table_fits sample_create_table" "length (ct_columns sample_create_table) \<le> 19"
      "procedure_fits sample_procedure" "\<forall>a \<in> set (cp_params sample_procedure). dp_default a = []"
    by code_simp+
  show ?thesis
    using ddl_statements_whole [of 256 sample_grant sample_drop sample_user sample_view sample_create_table sample_procedure] v f by blast
qed

text \<open>C13. A GRANT that was accepted reaches the driver as one statement of letters, digits, \<^verbatim>\<open>_ $ #\<close>, blanks, dots and
  commas, without its semicolon, and reading that statement gives back the privileges, the object, the grantee and the
  grant option of the request; the client gets success exactly when the driver reports it.\<close>

theorem grant_reads_back:
  assumes "validate_grant_request n req = None" "grant_fits req"
    and "active_tx w = None" "de_strdup e" "de_execute e = Some dml"
    and "dispatch_grant_new e time audit j (Some req) resp w = Some ((rc, resp'), w')"
  shows "session w' = snd (dml (session w) (grant_body req)) \<and>
     (rc = 0 \<longleftrightarrow> fst (fst (dml (session w) (grant_body req)))) \<and>
     (\<forall>c \<in> set (grant_body req). plain_char c) \<and>
     read_grant (grant_body req) =
       Some (gr_privileges req, (gr_owner req, gr_object_name req), gr_grantee req, gr_with_grant_option req \<noteq> 0)"
proof -
  let ?ddl = "build_grant_ddl_text req GRANT_TEXT"
  obtain r v where v: "execute_ddl_statement e ?ddl ''GRANT'' False w = (r, v)" by fastforce
  note run = execute_runs [OF assms(3-5) v, unfolded grant_exec_text [OF assms(1,2)]]
  have "answer_ddl audit j ''GRANT'' ?ddl time resp (r, v) = Some ((rc, resp'), w')"
    using assms(6) v by (simp add: dispatch_grant_new_def Let_def)
  from answer_ddl_cases [OF this] have "session w' = snd (dml (session w) (grant_body req))"
      "rc = 0 \<longleftrightarrow> fst (fst (dml (session w) (grant_body req)))"
    using run by (cases "dx_success r"; simp)+
  then show ?thesis using grant_body_plain [OF assms(1)] read_grant_back [OF assms(1)] by blast
qed

theorem grant_reads_back_witness:
  "\<exists>rc resp' w'. dispatch_grant_new recording_env ''0.01'' ''A1'' True (Some sample_grant) response_object_init idle_world =
       Some ((rc, resp'), w') \<and> rc = 0 \<and>
     session w' = [''GRANT SELECT, ALL PRIVILEGES ON HR.EMP TO BOB WITH GRANT OPTION''] \<and>
     read_grant ''GRANT SELECT, ALL PRIVILEGES ON HR.EMP TO BOB WITH GRANT OPTION'' =
       Some ([''SELECT'', ''ALL PRIVILEGES''], (''HR'', ''EMP''), ''BOB'', True)"
proof -
  let ?call = "dispatch_grant_new recording_env ''0.01'' ''A1'' True (Some sample_grant) response_object_init idle_world"
  have "?call \<noteq> None" by (simp add: dispatch_grant_new_def Let_def json_always_answers)
  then obtain rc resp' w' where c: "?call = Some ((rc, resp'), w')" by (metis option.exhaust surj_pair)
  have v: "validate_grant_request 256 sample_grant = None" unfolding grant_accepted by code_simp
  have f: "grant_fits sample_grant" by code_simp
  have h: "active_tx idle_world = None" "de_strdup recording_env" "session idle_world = []"
    "de_execute recording_env = Some (\<lambda>d s. ((True, []), d @ [s]))" by (simp_all add: idle_world_def recording_env_def)
  have b: "grant_body sample_grant = ''GRANT SELECT, ALL PRIVILEGES ON HR.EMP TO BOB WITH GRANT OPTION''" by code_simp
  have q: "gr_privileges sample_grant = [''SELECT'', ''ALL PRIVILEGES'']" "gr_owner sample_grant = ''HR''"
    "gr_object_name sample_grant = ''EMP''" "gr_grantee sample_grant = ''BOB''" "gr_with_grant_option sample_grant \<noteq> 0"
    by (simp_all add: sample_grant_def)
  show ?thesis
    using grant_reads_back [OF v f h(1,2,4) c] c q unfolding b h(3) by (intro exI [of _ rc] exI [of _ resp'] exI [of _ w']) simp
qed

text \<open>C12. The operations that change the schema run nothing, change nothing and answer an error while a managed transaction is
  active, without a payload, and for a DROP TABLE that is not confirmed. Each of them leaves the pointer to the active transaction
  as it was, and returns 0 exactly with a PASS response and \<open>-1\<close> exactly with an error.\<close>

theorem ddl_guarded:
  assumes "dispatch_ddl e1 e2 time audit j req resp w = Some ((rc, resp'), w')"
  shows "(active_tx w \<noteq> None \<or> unconfirmed req \<or> \<not> has_payload req \<longrightarrow> w' = w \<and> rc = -1) \<and>
     active_tx w' = active_tx w \<and>
     (rc = 0 \<and> rs_status resp' = RESPONSE_STATUS_PASS \<or> rc = -1 \<and> rs_status resp' = RESPONSE_STATUS_ERROR)"
  using ddl_well_answered [OF assms] ddl_refused [of w req e1 e2 time audit j resp] assms by (auto simp: well_answered_def)

theorem ddl_guarded_witness:
  "\<exists>resp'. dispatch_ddl recording_env recording_env ''0.01'' ''A1'' True (Ddl_Drop_Table (Some (sample_drop\<lparr>dt_confirm := 0\<rparr>)))
       response_object_init idle_world = Some ((-1, resp'), idle_world) \<and> rs_status resp' = RESPONSE_STATUS_ERROR"
proof -
  let ?req = "Ddl_Drop_Table (Some (sample_drop\<lparr>dt_confirm := 0\<rparr>))"
  have u: "unconfirmed ?req" by (simp add: unconfirmed_def)
  obtain resp' where c: "dispatch_ddl recording_env recording_env ''0.01'' ''A1'' True ?req response_object_init idle_world =
      Some ((-1, resp'), idle_world)"
    using ddl_unconfirmed [OF u] by blast
  then show ?thesis using ddl_guarded [OF c] by auto
qed

text \<open>C14. CREATE USER is two statements, in this order: the user, then - only when the first was done and roles are asked
  for - the grant of the roles. The client is told of success exactly when all of them were done; a failure of the second leaves
  the user in place.\<close>

theorem create_user_two_statements:
  assumes "user_fits req" "validate_create_user_request n req = None"
    and "active_tx w = None" "de_strdup e1" "de_execute e1 = Some dml1" "de_strdup e2" "de_execute e2 = Some dml2"
    and "dispatch_create_user_new e1 e2 time audit j (Some req) resp w = Some ((rc, resp'), w')"
  defines "s1 \<equiv> exec_text False (concat (create_user_pieces (req\<lparr>cu_roles := []\<rparr>)))"
    and "s2 \<equiv> exec_text False (c_snprintf ROLE_GRANT_TEXT (concat (role_grant_pieces req)))"
  shows "let ((ok1, _), d1) = dml1 (session w) s1; ((ok2, _), d2) = dml2 d1 s2; two = ok1 \<and> cu_roles req \<noteq> []
     in session w' = (if two then d2 else d1) \<and> (rc = 0 \<longleftrightarrow> ok1 \<and> (two \<longrightarrow> ok2))"
proof -
  let ?create = "build_create_user_ddl_text (req\<lparr>cu_roles := []\<rparr>) USER_TEXT"
  let ?answer = "answer_ddl audit j ''CREATE_USER'' (build_create_user_ddl_text req USER_TEXT) time resp"
  have create: "exec_text False ?create = s1"
    using ddl_text_whole [OF create_user_length [OF assms(1)]] by (simp add: build_create_user_ddl_text_def s1_def)
  have grant: "exec_text False (role_grant_text req) = s2"
    by (simp add: role_grant_text_def s2_def ddl_text_exact ROLE_GRANT_TEXT_def)
  obtain r w1 where 1: "execute_ddl_statement e1 ?create ''CREATE_USER'' False w = (r, w1)" by fastforce
  obtain r2 w2 where 2: "execute_ddl_statement e2 (role_grant_text req) ''CREATE_USER (role grant)'' False w1 = (r2, w2)" by fastforce
  note run1 = execute_runs [OF assms(3-5) 1, unfolded create]
  have "active_tx w1 = None" using execute_keeps_pointer [OF 1] assms(3) by simp
  note run2 = execute_runs [OF this assms(6,7) 2, unfolded grant]
  consider "\<not> dx_success r \<or> cu_roles req = []" "?answer (r, w1) = Some ((rc, resp'), w')"
    | "dx_success r" "cu_roles req \<noteq> []" "dx_success r2" "?answer (r, w2) = Some ((rc, resp'), w')"
    | "dx_success r" "cu_roles req \<noteq> []" "\<not> dx_success r2" "rc = -1" "w' = w2"
    using assms(8) 1 2 unfolding dispatch_create_user_new_def option.case Let_def refuse_request_def
    by (simp only: prod.case split: if_splits) auto
  then show ?thesis
  proof cases
    case 1
    then show ?thesis using answer_ddl_cases [OF 1(2)] run1 by (auto simp: Let_def split: prod.splits)
  next
    case 2
    then show ?thesis using answer_ddl_cases [OF 2(4)] run1 run2 by (auto simp: Let_def split: prod.splits)
  next
    case 3
    then show ?thesis using run1 run2 by (auto simp: Let_def split: prod.splits)
  qed
qed

theorem create_user_two_statements_witness:
  "\<exists>resp' w'. dispatch_create_user_new recording_env recording_env ''0.01'' ''A1'' True (Some sample_user) response_object_init idle_world =
       Some ((0, resp'), w') \<and>
     session w' = [''CREATE USER BOB IDENTIFIED BY pw_1'' @ EOL @ ''  DEFAULT TABLESPACE USERS'' @ EOL @ ''  QUOTA 10M ON USERS'',
                   ''GRANT CONNECT, READER TO BOB'']"
proof -
  let ?call = "dispatch_create_user_new recording_env recording_env ''0.01'' ''A1'' True (Some sample_user) response_object_init idle_world"
  have "?call \<noteq> None"
    by (simp add: dispatch_create_user_new_def Let_def json_always_answers refuse_request_def
        split: prod.splits del: not_None_eq)
  then obtain rc resp' w' where c: "?call = Some ((rc, resp'), w')" by (metis option.exhaust surj_pair)
  have v: "validate_create_user_request 256 sample_user = None" unfolding create_user_accepted by code_simp
  have f: "user_fits sample_user" by code_simp
  have h: "active_tx idle_world = None" "de_strdup recording_env" "session idle_world = []"
    "de_execute recording_env = Some (\<lambda>d s. ((True, []), d @ [s]))" by (simp_all add: idle_world_def recording_env_def)
  have s1: "exec_text False (concat (create_user_pieces (sample_user\<lparr>cu_roles := []\<rparr>))) =
      ''CREATE USER BOB IDENTIFIED BY pw_1'' @ EOL @ ''  DEFAULT TABLESPACE USERS'' @ EOL @ ''  QUOTA 10M ON USERS''" by code_simp
  have s2: "exec_text False (c_snprintf ROLE_GRANT_TEXT (concat (role_grant_pieces sample_user))) = ''GRANT CONNECT, READER TO BOB''"
    by code_simp
  have r: "cu_roles sample_user \<noteq> []" by (simp add: sample_user_def)
  have "session w' = [''CREATE USER BOB IDENTIFIED BY pw_1'' @ EOL @ ''  DEFAULT TABLESPACE USERS'' @ EOL @ ''  QUOTA 10M ON USERS'',
                   ''GRANT CONNECT, READER TO BOB''] \<and> rc = 0"
    using create_user_two_statements [OF f v h(1,2,4) h(2,4) c] r unfolding s1 s2 h(3) by simp
  with c show ?thesis by blast
qed

subsection \<open>What the buffers cut\<close>

lemma length_commas_replicate: "0 < n \<Longrightarrow> length (concat (comma_pieces (replicate n s))) = n * (length s + 2) - 2"
proof (induction n)
  case (Suc n)
  then show ?case by (cases n) (auto simp: algebra_simps)
qed simp

lemma snprintf_keeps: "length p + 1 = n \<Longrightarrow> c_snprintf n (p @ r) = p"
  by (auto simp: c_snprintf_def)

text \<open>The array of the role grant holds 511 bytes: for long role names it ends inside the user's name.\<close>

definition long_roles_user :: create_user_request where
  "long_roles_user = sample_user\<lparr>cu_username := ''ALICE'', cu_roles := replicate 4 (replicate 123 (CHR ''R''))\<rparr>"

lemma valid_replicate: "c_isalpha c \<Longrightarrow> identifier_char c \<Longrightarrow> 0 < n \<Longrightarrow> is_valid_identifier (replicate n c)"
  by (cases n) (auto simp: is_valid_identifier_def list_all_iff)

lemma letter_R [simp]: "c_isalpha (CHR ''R'')" "identifier_char (CHR ''R'')"
  by code_simp+

lemma long_roles_accepted: "validate_create_user_request n long_roles_user = None \<and> user_fits long_roles_user"
proof -
  have "is_valid_identifier ''ALICE''" "is_safe_password ''pw_1''" "is_valid_identifier ''USERS''" "is_valid_quota ''10M''" by code_simp+
  then show ?thesis
    using valid_replicate [of "CHR ''R''" 123]
    by (auto simp: create_user_accepted long_roles_user_def sample_user_def fits_defs MAX_CREATE_USER_ROLES_def)
qed

lemma role_grant_names_other_user:
  "role_grant_text long_roles_user =
     ''GRANT '' @ concat (comma_pieces (replicate 4 (replicate 123 (CHR ''R'')))) @ '' TO ALI''"
proof -
  have "concat (role_grant_pieces long_roles_user) =
      (''GRANT '' @ concat (comma_pieces (replicate 4 (replicate 123 (CHR ''R'')))) @ '' TO ALI'') @ ''CE''"
    by (simp add: role_grant_pieces_def long_roles_user_def)
  moreover have "length (''GRANT '' @ concat (comma_pieces (replicate 4 (replicate 123 (CHR ''R'')))) @ '' TO ALI'') = 511"
    by (simp only: length_append length_commas_replicate [of 4]) simp
  ultimately show ?thesis
    using snprintf_keeps [of _ 512] ddl_text_exact [of 512] by (simp only: role_grant_text_def ROLE_GRANT_TEXT_def)
qed

text \<open>A view with many aliases loses the end of its query, and what is left is still a query.\<close>

definition long_view :: create_view_request where
  "long_view = \<lparr>cv_name = ''V'', cv_owner = [], cv_replace = 0, cv_force = 0, cv_columns = replicate 64 (replicate 120 (CHR ''R'')),
     cv_query = ''SELECT '' @ replicate 351 (CHR ''R'') @ '' FROM T'' @ '' WHERE OWNER = USER''\<rparr>"

lemma long_view_accepted: "validate_create_view_request n long_view = None \<and> view_fits long_view"
proof -
  have "is_valid_identifier ''V''" by code_simp
  moreover have "ci_prefix ''SELECT'' (dropWhile c_isspace (''SELECT '' @ x))" for x
    by (simp add: ci_prefix_def c_isspace_def byte_def)
  ultimately show ?thesis
    using valid_replicate [of "CHR ''R''" 120]
    by (auto simp: create_view_accepted long_view_def fits_defs MAX_VIEW_COLUMNS_def)
qed

lemma view_loses_its_where:
  "build_create_view_ddl_text long_view VIEW_TEXT =
     ''CREATE VIEW V ('' @ concat (comma_pieces (replicate 64 (replicate 120 (CHR ''R'')))) @ '')'' @ EOL @ ''AS'' @ EOL @
     ''SELECT '' @ replicate 351 (CHR ''R'') @ '' FROM T''" (is "_ = ?kept")
proof -
  have "concat (create_view_pieces long_view) = ?kept @ '' WHERE OWNER = USER;''"
    by (simp add: create_view_pieces_def long_view_def dotted_def)
  moreover have "length ?kept = 8191"
    by (simp only: length_append length_commas_replicate [of 64] EOL_def) simp
  ultimately show ?thesis
    using snprintf_keeps [of ?kept 8192] ddl_text_exact [of 8192] by (simp only: build_create_view_ddl_text_def VIEW_TEXT_def)
qed

text \<open>The password is written outside quotes, and comments separate words.\<close>

lemma password_holds_clauses:
  "validate_create_user_request n (sample_user\<lparr>cu_identified_by := ''x/**/QUOTA/**/UNLIMITED/**/ON/**/SYSTEM''\<rparr>) = None"
  unfolding create_user_accepted by code_simp

lemma selectx_is_accepted: "validate_create_view_request n (sample_view\<lparr>cv_query := ''SELECTX''\<rparr>) = None"
  unfolding create_view_accepted by code_simp

lemma quota_in_lower_case: "\<not> is_valid_quota ''unlimited''" "\<not> is_recognised_data_type ''varchar2''" "\<not> is_recognised_privilege ''select''"
  by code_simp+

text \<open>The XML answer reads past the stack buffer of \<^verbatim>\<open>xml_append\<close> when the escaped statement is long.\<close>

lemma xml_pieces_None: "xml_pieces ps x = None \<Longrightarrow> xml_pieces (ps @ qs) x = None"
  by (induction ps arbitrary: x) (auto split: bind_splits)

lemma xml_pieces_long: "p \<in> set ps \<Longrightarrow> XML_TEMP \<le> length p \<Longrightarrow> xml_pieces ps x = None"
proof (induction ps arbitrary: x)
  case (Cons q ps)
  then show ?case by (cases "p = q") (auto simp: xml_append_over split: Option.bind_splits)
qed simp

lemma response_overreads:
  assumes "XML_TEMP \<le> length (esc ddl) + 31"
  shows "get_ddl_execution_response_xml label ddl r time = None"
proof -
  have "XML_TEMP \<le> length (xml_line ''executed_ddl'' (esc ddl))" using assms by (simp add: xml_line_def tagged_def)
  then show ?thesis
    by (simp add: get_ddl_execution_response_xml_def xml_escape_text xml_pieces_long [of "xml_line ''executed_ddl'' (esc ddl)"] del: xml_pieces.simps)
qed

lemma length_esc: "length s \<le> length (esc s)"
proof (induction s)
  case (Cons c s)
  then show ?case using length_escape_char [of c] by (simp add: esc_def)
qed simp

definition long_procedure :: create_procedure_request where
  "long_procedure = sample_procedure\<lparr>cp_name := replicate 120 (CHR ''R''), cp_body := replicate 7990 (CHR ''R'')\<rparr>"

lemma long_procedure_accepted: "validate_create_procedure_request n long_procedure = None \<and> procedure_fits long_procedure"
proof -
  have "param_ok \<lparr>dp_name = ''A'', dp_type = ''NUMBER'', dp_mode = ''IN'', dp_default = []\<rparr>" by code_simp
  then show ?thesis
    using valid_replicate [of "CHR ''R''" 120]
    by (auto simp: create_procedure_accepted long_procedure_def sample_procedure_def fits_defs MAX_PROCEDURE_PARAMETERS_def
        PROCEDURE_BODY_LEN_def)
qed

lemma procedure_answer_overreads:
  "dispatch_create_procedure_new recording_env time audit False (Some long_procedure) resp idle_world = None"
proof -
  let ?ddl = "build_create_procedure_ddl_text long_procedure PROCEDURE_TEXT"
  have "\<forall>a \<in> set (cp_params long_procedure). dp_default a = []" by (simp add: long_procedure_def sample_procedure_def)
  then have "?ddl = concat (create_procedure_pieces long_procedure)"
    using ddl_text_whole [OF create_procedure_length] long_procedure_accepted unfolding build_create_procedure_ddl_text_def by blast
  then have "8161 \<le> length ?ddl"
    by (simp add: create_procedure_pieces_def long_procedure_def sample_procedure_def dotted_def)
  then have over: "XML_TEMP \<le> length (esc ?ddl) + 31" using length_esc [of ?ddl] by (simp add: XML_TEMP_def)
  obtain r v where v: "execute_ddl_statement recording_env ?ddl ''CREATE_PROCEDURE'' True idle_world = (r, v)" by fastforce
  have "dx_success r"
    using execute_runs(2) [of idle_world recording_env "\<lambda>d s. ((True, []), d @ [s])", OF _ _ _ v]
    by (simp add: idle_world_def recording_env_def)
  with v response_overreads [OF over] show ?thesis
    by (simp add: dispatch_create_procedure_new_def Let_def answer_ddl_def)
qed

end
