(* ===== verification/Level2_Validate.thy ===== *)
theory Level2_Validate
  imports Requests Sql_Dependencies Level2_Twice
begin

text \<open>
  The rest of the second level of validation (\<^verbatim>\<open>src/core/level 2/Level2_Parser.c\<close>): SELECT, EXECUTE_PROCEDURE,
  AUTHENTICATE, CHECK_PERMISSION, the six operations that change the schema, and \<^verbatim>\<open>level2_validate\<close>, which goes over the
  operations of a request. Where \<^verbatim>\<open>extract_sql_dependencies\<close> fails, code and text of the status come from the logger's
  last error, which is an argument.
\<close>

definition LEVEL2_ERR_EMPTY_SQL :: int where "LEVEL2_ERR_EMPTY_SQL = -2"
definition LEVEL2_ERR_SQL_INVALID :: int where "LEVEL2_ERR_SQL_INVALID = -3"
definition LEVEL2_ERR_NOT_IMPLEMENTED :: int where "LEVEL2_ERR_NOT_IMPLEMENTED = -4"
definition LEVEL2_ERR_VALIDATION_FAILED :: int where "LEVEL2_ERR_VALIDATION_FAILED = -5"
definition LEVEL2_ERR_ASYNC_INVALID :: int where "LEVEL2_ERR_ASYNC_INVALID = -9"
definition MAX_PROC_PARAMS :: nat where "MAX_PROC_PARAMS = 64"

lemmas level2_more_codes = level2_codes LEVEL2_ERR_EMPTY_SQL_def LEVEL2_ERR_SQL_INVALID_def LEVEL2_ERR_NOT_IMPLEMENTED_def
  LEVEL2_ERR_VALIDATION_FAILED_def LEVEL2_ERR_ASYNC_INVALID_def

subsection \<open>The validators\<close>

definition accept :: "int \<times> operation_status" where
  "accept = (LEVEL2_OK, set_ok)"

definition missing :: "cstring \<Rightarrow> int \<times> operation_status" where
  "missing op = refuse LEVEL2_ERR_INVALID_ARG ''LEVEL2_INVALID_ARG'' (''missing '' @ op @ '' payload.'')"

definition copy_from_logger_last_error :: "cstring \<times> cstring \<Rightarrow> int \<Rightarrow> operation_status" where
  "copy_from_logger_last_error logged code =
     \<lparr>status_code = code, error_code = c_strncpy 64 (fst logged), error_text = c_strncpy 256 (snd logged)\<rparr>"

definition level2_validate_select :: "cstring \<times> cstring \<Rightarrow> select_request option \<Rightarrow> int \<times> operation_status" where
  "level2_validate_select logged payload =
     (case payload of
        None \<Rightarrow> missing ''SELECT''
      | Some req \<Rightarrow>
          if sr_sql req = [] then refuse LEVEL2_ERR_EMPTY_SQL ''LEVEL2_EMPTY_SQL'' ''sql is empty.''
          else if sr_execute_async req \<noteq> 0 \<and> sr_async_call_back_url req = []
          then refuse LEVEL2_ERR_ASYNC_INVALID ''LEVEL2_ASYNC_INVALID'' ''execute_async=1 requires a non-empty async_call_back_url.''
          else if sr_execute_async req \<noteq> 0 \<and> \<not> ci_prefix ''https://'' (sr_async_call_back_url req)
          then refuse LEVEL2_ERR_ASYNC_INVALID ''LEVEL2_ASYNC_INVALID''
                 ''async_call_back_url must be https:// - plaintext callback URLs are not permitted.''
          else (case extract_sql_dependencies (Some (sr_sql req)) of
                  None \<Rightarrow> (LEVEL2_ERR_SQL_INVALID, copy_from_logger_last_error logged LEVEL2_ERR_SQL_INVALID)
                | Some _ \<Rightarrow> accept))"

definition procedure_types :: "cstring list" where
  "procedure_types = [''NUMBER'', ''INTEGER'', ''VARCHAR2'', ''DATE'', ''TIMESTAMP'', ''CURSOR'']"

definition param_failure :: "nat \<Rightarrow> procedure_param \<Rightarrow> cstring option" where
  "param_failure i p =
     (if pp_name p = [] then Some (c_snprintf 512 (''Parameter '' @ dec (i + 1) @ '': param_name is empty''))
      else if \<not> (\<exists>t \<in> set procedure_types. ci_eq (pp_type p) t)
      then Some (c_snprintf 512 (''Parameter '' @ quoted (pp_name p) @ '': param_type '' @ quoted (pp_type p) @
             '' is not one of NUMBER/INTEGER/VARCHAR2/DATE/TIMESTAMP/CURSOR''))
      else if ci_eq (pp_type p) ''CURSOR'' \<and> pp_direction p \<noteq> PARAM_DIR_OUT
      then Some (c_snprintf 512 (''Parameter '' @ quoted (pp_name p) @ '': CURSOR parameters must be OUT (a cursor cannot be passed in)''))
      else None)"

definition level2_validate_procedure :: "execute_procedure_request option \<Rightarrow> int \<times> operation_status" where
  "level2_validate_procedure payload =
     (case payload of
        None \<Rightarrow> missing ''EXECUTE_PROCEDURE''
      | Some req \<Rightarrow>
          if xp_name req = [] then refuse LEVEL2_ERR_INVALID_ARG ''LEVEL2_INVALID_ARG'' ''procedure_name is empty.''
          else if length (xp_params req) > MAX_PROC_PARAMS
          then refuse LEVEL2_ERR_INVALID_ARG ''LEVEL2_INVALID_ARG'' ''param_count out of range.''
          else verdict_of (List.map_filter (\<lambda>(i, p). param_failure i p) (numbered (xp_params req))))"

definition level2_validate_authenticate :: "authenticate_request option \<Rightarrow> int \<times> operation_status" where
  "level2_validate_authenticate payload =
     (case payload of
        None \<Rightarrow> missing ''AUTHENTICATE''
      | Some req \<Rightarrow>
          if aq_username req = [] then refuse LEVEL2_ERR_FIELD_INVALID ''LEVEL2_FIELD_INVALID'' ''username is required.''
          else if aq_credential req = [] then refuse LEVEL2_ERR_FIELD_INVALID ''LEVEL2_FIELD_INVALID'' ''credential is required.''
          else accept)"

definition level2_validate_check_permission :: "check_permission_request option \<Rightarrow> int \<times> operation_status" where
  "level2_validate_check_permission payload =
     (case payload of
        None \<Rightarrow> missing ''CHECK_PERMISSION''
      | Some req \<Rightarrow>
          if cq_permission_code req = []
          then refuse LEVEL2_ERR_FIELD_INVALID ''LEVEL2_FIELD_INVALID'' ''permission_code is required.'' else accept)"

text \<open>The adapters of the schema operations: the message of the check, in a buffer of 256 bytes.\<close>

definition adapt :: "cstring \<Rightarrow> ('r \<Rightarrow> cstring option) \<Rightarrow> 'r option \<Rightarrow> int \<times> operation_status" where
  "adapt op check payload =
     (case payload of
        None \<Rightarrow> missing op
      | Some req \<Rightarrow>
          (case check req of
             None \<Rightarrow> accept
           | Some msg \<Rightarrow>
               if msg \<noteq> [] then (LEVEL2_ERR_FIELD_INVALID, set_error LEVEL2_ERR_FIELD_INVALID ''LEVEL2_FIELD_INVALID'' msg)
               else refuse LEVEL2_ERR_FIELD_INVALID ''LEVEL2_FIELD_INVALID'' (''invalid '' @ op @ '' fields.'')))"

definition level2_validate_create_user :: "create_user_request option \<Rightarrow> int \<times> operation_status" where
  "level2_validate_create_user = adapt ''CREATE_USER'' (validate_create_user_request 256)"

definition level2_validate_grant :: "grant_request option \<Rightarrow> int \<times> operation_status" where
  "level2_validate_grant = adapt ''GRANT'' (validate_grant_request 256)"

definition level2_validate_create_table :: "create_table_request option \<Rightarrow> int \<times> operation_status" where
  "level2_validate_create_table = adapt ''CREATE_TABLE'' (validate_create_table_request 256)"

definition level2_validate_drop_table :: "drop_table_request option \<Rightarrow> int \<times> operation_status" where
  "level2_validate_drop_table = adapt ''DROP_TABLE'' (validate_drop_table_request 256)"

definition level2_validate_create_view :: "create_view_request option \<Rightarrow> int \<times> operation_status" where
  "level2_validate_create_view = adapt ''CREATE_VIEW'' (validate_create_view_request 256)"

definition level2_validate_create_procedure :: "create_procedure_request option \<Rightarrow> int \<times> operation_status" where
  "level2_validate_create_procedure = adapt ''CREATE_PROCEDURE'' (validate_create_procedure_request 256)"

fun level2_validate_ddl :: "ddl_request \<Rightarrow> int \<times> operation_status" where
  "level2_validate_ddl (Ddl_Create_User p) = level2_validate_create_user p"
| "level2_validate_ddl (Ddl_Grant p) = level2_validate_grant p"
| "level2_validate_ddl (Ddl_Create_Table p) = level2_validate_create_table p"
| "level2_validate_ddl (Ddl_Drop_Table p) = level2_validate_drop_table p"
| "level2_validate_ddl (Ddl_Create_View p) = level2_validate_create_view p"
| "level2_validate_ddl (Ddl_Create_Procedure p) = level2_validate_create_procedure p"

subsection \<open>The operations of a request\<close>

text \<open>
  What the validation of one operation meets: the metadata cache's clock and memory, the dates, the logger's last error. The
  number of operations decides on asynchronous execution.
\<close>

record op_env =
  oe_lookup :: lookup_env
  oe_row_day :: "nat \<Rightarrow> nat \<Rightarrow> int \<times> nat"
  oe_key_day :: "nat \<Rightarrow> int \<times> nat"
  oe_field_day :: "nat \<Rightarrow> int \<times> nat"
  oe_logged :: "cstring \<times> cstring"

definition async_not_alone :: "nat \<Rightarrow> select_request option \<Rightarrow> bool" where
  "async_not_alone operation_count payload \<longleftrightarrow>
     (case payload of None \<Rightarrow> False | Some req \<Rightarrow> sr_execute_async req \<noteq> 0 \<and> operation_count > 1)"

definition not_implemented :: operation_status where
  "not_implemented = set_error LEVEL2_ERR_NOT_IMPLEMENTED ''LEVEL2_NOT_IMPLEMENTED''
     ''Request aborted. Level 2 validation not yet implemented for this operation type.''"

text \<open>An answer of the three DML validators, with the payload put back into the operation.\<close>

definition put_back ::
    "('r option \<Rightarrow> op_request) \<Rightarrow> ('r, 'd) level2_answer \<Rightarrow> (input_c_operation \<times> cache option \<times> 'd) option" where
  "put_back con answer =
     map_option (\<lambda>((_, st), payload, cache, db). (\<lparr>io_request = con payload, io_status = st\<rparr>, cache, db)) answer"

definition level2_operation ::
    "'d fetcher \<Rightarrow> int option \<Rightarrow> nat \<Rightarrow> op_env \<Rightarrow> cache option \<Rightarrow> 'd \<Rightarrow> input_c_operation \<Rightarrow>
     (input_c_operation \<times> cache option \<times> 'd) option" where
  "level2_operation fetch max_bulk_inserts operation_count e cache db op =
     (let status = (\<lambda>answer. Some (op\<lparr>io_status := snd answer\<rparr>, cache, db))
      in case io_request op of
           Op_Select p \<Rightarrow>
             if async_not_alone operation_count p
             then status (refuse LEVEL2_ERR_ASYNC_INVALID ''LEVEL2_ASYNC_INVALID''
                    ''execute_async=1 is only valid when the SELECT is the only operation in its transaction.'')
             else status (level2_validate_select (oe_logged e) p)
         | Op_Insert p \<Rightarrow> put_back Op_Insert (level2_validate_insert fetch max_bulk_inserts (oe_lookup e) (oe_row_day e) cache db p)
         | Op_Update p \<Rightarrow> put_back Op_Update (level2_validate_update fetch (oe_lookup e) (oe_key_day e) (oe_field_day e) cache db p)
         | Op_Delete p \<Rightarrow> put_back Op_Delete (level2_validate_delete fetch (oe_lookup e) (oe_key_day e) cache db p)
         | Op_Execute_Procedure p \<Rightarrow> status (level2_validate_procedure p)
         | Op_Authenticate p \<Rightarrow> status (level2_validate_authenticate p)
         | Op_Check_Permission p \<Rightarrow> status (level2_validate_check_permission p)
         | Op_Ddl d \<Rightarrow> status (level2_validate_ddl d)
         | Op_Other _ \<Rightarrow> Some (op\<lparr>io_status := not_implemented\<rparr>, cache, db))"

fun level2_loop ::
    "'d fetcher \<Rightarrow> int option \<Rightarrow> nat \<Rightarrow> (nat \<Rightarrow> op_env) \<Rightarrow> nat \<Rightarrow> cache option \<Rightarrow> 'd \<Rightarrow> input_c_operation list \<Rightarrow>
     (int \<times> input_c_operation list \<times> cache option \<times> 'd) option" where
  "level2_loop fetch m n e i cache db [] = Some (LEVEL2_OK, [], cache, db)"
| "level2_loop fetch m n e i cache db (op # ops) =
     (case level2_operation fetch m n (e i) cache db op of
        None \<Rightarrow> None
      | Some (op', cache', db') \<Rightarrow>
          if status_code (io_status op') \<noteq> 0 then Some (LEVEL2_ERR_VALIDATION_FAILED, op' # ops, cache', db')
          else map_option (\<lambda>(rc, ops', cache'', db''). (rc, op' # ops', cache'', db''))
                 (level2_loop fetch m n e (Suc i) cache' db' ops))"

definition level2_validate ::
    "'d fetcher \<Rightarrow> int option \<Rightarrow> (nat \<Rightarrow> op_env) \<Rightarrow> cache option \<Rightarrow> 'd \<Rightarrow> input_c_request \<Rightarrow>
     (int \<times> input_c_request \<times> cache option \<times> 'd) option" where
  "level2_validate fetch max_bulk_inserts e cache db req =
     map_option (\<lambda>(rc, ops, cache', db'). (rc, req\<lparr>ir_operations := ops\<rparr>, cache', db'))
       (level2_loop fetch max_bulk_inserts (length (ir_operations req)) e 0 cache db (ir_operations req))"

subsection \<open>What acceptance means\<close>

definition select_accepted :: "nat \<Rightarrow> select_request \<Rightarrow> bool" where
  "select_accepted n req \<longleftrightarrow>
     sr_sql req \<noteq> [] \<and> extract_sql_dependencies (Some (sr_sql req)) \<noteq> None \<and>
     (sr_execute_async req \<noteq> 0 \<longrightarrow> n \<le> 1 \<and> ci_prefix ''https://'' (sr_async_call_back_url req))"

definition param_accepted :: "procedure_param \<Rightarrow> bool" where
  "param_accepted p \<longleftrightarrow>
     pp_name p \<noteq> [] \<and> (\<exists>t \<in> set procedure_types. ci_eq (pp_type p) t) \<and>
     (ci_eq (pp_type p) ''CURSOR'' \<longrightarrow> pp_direction p = PARAM_DIR_OUT)"

definition procedure_accepted :: "execute_procedure_request \<Rightarrow> bool" where
  "procedure_accepted req \<longleftrightarrow>
     xp_name req \<noteq> [] \<and> length (xp_params req) \<le> MAX_PROC_PARAMS \<and> (\<forall>p \<in> set (xp_params req). param_accepted p)"

fun ddl_accepted :: "ddl_request \<Rightarrow> bool" where
  "ddl_accepted (Ddl_Create_User p) = (\<exists>r. p = Some r \<and> validate_create_user_request 256 r = None)"
| "ddl_accepted (Ddl_Grant p) = (\<exists>r. p = Some r \<and> validate_grant_request 256 r = None)"
| "ddl_accepted (Ddl_Create_Table p) = (\<exists>r. p = Some r \<and> validate_create_table_request 256 r = None)"
| "ddl_accepted (Ddl_Drop_Table p) = (\<exists>r. p = Some r \<and> validate_drop_table_request 256 r = None)"
| "ddl_accepted (Ddl_Create_View p) = (\<exists>r. p = Some r \<and> validate_create_view_request 256 r = None)"
| "ddl_accepted (Ddl_Create_Procedure p) = (\<exists>r. p = Some r \<and> validate_create_procedure_request 256 r = None)"

text \<open>For INSERT, UPDATE and DELETE the part that concerns the shape; the fields are the subject of \<open>Level2_Twice\<close>.\<close>

fun op_accepted :: "nat \<Rightarrow> op_request \<Rightarrow> bool" where
  "op_accepted n (Op_Select p) = (\<exists>r. p = Some r \<and> select_accepted n r)"
| "op_accepted n (Op_Insert p) = (\<exists>r. p = Some r \<and> ir_table r \<noteq> [] \<and> ir_rows r \<noteq> [])"
| "op_accepted n (Op_Update p) = (\<exists>r. p = Some r \<and> ur_table r \<noteq> [] \<and> ur_keys r \<noteq> [] \<and> ur_fields r \<noteq> [])"
| "op_accepted n (Op_Delete p) = (\<exists>r. p = Some r \<and> dr_table r \<noteq> [] \<and> dr_keys r \<noteq> [])"
| "op_accepted n (Op_Execute_Procedure p) = (\<exists>r. p = Some r \<and> procedure_accepted r)"
| "op_accepted n (Op_Authenticate p) = (\<exists>r. p = Some r \<and> aq_username r \<noteq> [] \<and> aq_credential r \<noteq> [])"
| "op_accepted n (Op_Check_Permission p) = (\<exists>r. p = Some r \<and> cq_permission_code r \<noteq> [])"
| "op_accepted n (Op_Ddl d) = ddl_accepted d"
| "op_accepted n (Op_Other t) = False"

lemma refuse_status [simp]: "status_code (snd (refuse c a b)) = c"
  by (simp add: refuse_def set_error_def)

lemma missing_status [simp]: "status_code (snd (missing op)) \<noteq> 0"
  by (simp add: missing_def level2_codes)

lemma accept_status [simp]: "status_code (snd accept) = 0"
  by (simp add: accept_def set_ok_def)

lemma verdict_of_status: "status_code (snd (verdict_of ms)) = 0 \<longleftrightarrow> ms = []"
  by (cases ms) (simp_all add: verdict_of_def set_ok_def set_error_def level2_codes)

lemma adapt_status: "status_code (snd (adapt op check p)) = 0 \<longleftrightarrow> (\<exists>r. p = Some r \<and> check r = None)"
  by (auto simp: adapt_def set_error_def level2_codes split: option.splits)

lemma ddl_status: "status_code (snd (level2_validate_ddl d)) = 0 \<longleftrightarrow> ddl_accepted d"
  by (cases d) (simp_all add: level2_validate_create_user_def level2_validate_grant_def level2_validate_create_table_def
    level2_validate_drop_table_def level2_validate_create_view_def level2_validate_create_procedure_def adapt_status)

lemma select_status:
  "\<not> async_not_alone n p \<Longrightarrow> status_code (snd (level2_validate_select logged p)) = 0 \<longleftrightarrow> (\<exists>r. p = Some r \<and> select_accepted n r)"
  by (auto simp: level2_validate_select_def select_accepted_def async_not_alone_def copy_from_logger_last_error_def
    level2_more_codes ci_prefix_def split: option.splits if_splits)

lemma param_failure_None: "param_failure i p = None \<longleftrightarrow> param_accepted p"
  by (simp add: param_failure_def param_accepted_def)

lemma no_param_failure:
  "List.map_filter (\<lambda>(i, p). param_failure i p) (enumerate n ps) = [] \<longleftrightarrow> (\<forall>p \<in> set ps. param_accepted p)"
  by (induction ps arbitrary: n) (simp_all add: map_filter_simps param_failure_None split: option.split, metis param_failure_None option.distinct(1))

lemma procedure_status:
  "status_code (snd (level2_validate_procedure p)) = 0 \<longleftrightarrow> (\<exists>r. p = Some r \<and> procedure_accepted r)"
  by (cases p) (auto simp: level2_validate_procedure_def procedure_accepted_def verdict_of_status level2_codes numbered_def no_param_failure)

subsection \<open>INSERT, UPDATE and DELETE\<close>

definition agrees :: "('r, 'd) level2_answer \<Rightarrow> bool" where
  "agrees answer \<longleftrightarrow> (case answer of None \<Rightarrow> True | Some ((rc, st), _) \<Rightarrow> rc = status_code st)"

lemma agrees_simps [simp]:
  "agrees None" "agrees (Some (refuse c a b, rest))" "agrees (Some (verdict_of ms, rest))" "agrees (Some (no_metadata, rest))"
  by (auto simp: agrees_def refuse_def set_error_def verdict_of_def set_ok_def no_metadata_def level2_codes split: list.splits)

lemma dml_agrees:
  "agrees (level2_validate_insert fetch mx en rd cache db p)"
  "agrees (level2_validate_update fetch en kd fd cache db q)"
  "agrees (level2_validate_delete fetch en kd cache db d)"
  unfolding level2_validate_insert_def level2_validate_update_def level2_validate_delete_def Let_def
  by (auto split: option.splits prod.splits)

lemma agreed:
  "agrees answer \<Longrightarrow> answer = Some ((rc, st), p', cache', db') \<Longrightarrow> status_code st = 0 \<Longrightarrow> rc = LEVEL2_OK"
  by (simp add: agrees_def LEVEL2_OK_def)

lemma insert_passed:
  assumes "level2_validate_insert fetch mx en rd cache db p = Some ((rc, st), p', cache', db')" "status_code st = 0"
  shows "op_accepted n (Op_Insert p')"
proof -
  have rc: "rc = LEVEL2_OK" by (rule agreed [OF dml_agrees(1) assms])
  show ?thesis
  proof (cases p)
    case None
    with assms show ?thesis by (auto simp: level2_validate_insert_def refuse_def set_error_def level2_codes)
  next
    case (Some r)
    moreover obtain r' where "p' = Some r'"
      using assms(1) Some unfolding level2_validate_insert_def Let_def by (auto split: if_splits option.splits prod.splits)
    ultimately have "level2_validate_insert fetch mx en rd cache db (Some r) = Some ((LEVEL2_OK, st), Some r', cache', db')"
      using assms(1) rc by simp
    then show ?thesis unfolding insert_ok using \<open>p' = Some r'\<close> by (auto dest!: check_all_msgs)
  qed
qed

lemma update_passed:
  assumes "level2_validate_update fetch en kd fd cache db p = Some ((rc, st), p', cache', db')" "status_code st = 0"
  shows "op_accepted n (Op_Update p')"
proof -
  have rc: "rc = LEVEL2_OK" by (rule agreed [OF dml_agrees(2) assms])
  show ?thesis
  proof (cases p)
    case None
    with assms show ?thesis by (auto simp: level2_validate_update_def refuse_def set_error_def level2_codes)
  next
    case (Some r)
    moreover obtain r' where "p' = Some r'"
      using assms(1) Some unfolding level2_validate_update_def Let_def by (auto split: if_splits option.splits prod.splits)
    ultimately have "level2_validate_update fetch en kd fd cache db (Some r) = Some ((LEVEL2_OK, st), Some r', cache', db')"
      using assms(1) rc by simp
    then show ?thesis unfolding update_ok using \<open>p' = Some r'\<close> by (auto dest!: check_all_msgs)
  qed
qed

lemma delete_passed:
  assumes "level2_validate_delete fetch en kd cache db p = Some ((rc, st), p', cache', db')" "status_code st = 0"
  shows "op_accepted n (Op_Delete p')"
proof -
  have rc: "rc = LEVEL2_OK" by (rule agreed [OF dml_agrees(3) assms])
  show ?thesis
  proof (cases p)
    case None
    with assms show ?thesis by (auto simp: level2_validate_delete_def refuse_def set_error_def level2_codes)
  next
    case (Some r)
    moreover obtain r' where "p' = Some r'"
      using assms(1) Some unfolding level2_validate_delete_def Let_def by (auto split: if_splits option.splits prod.splits)
    ultimately have "level2_validate_delete fetch en kd cache db (Some r) = Some ((LEVEL2_OK, st), Some r', cache', db')"
      using assms(1) rc by simp
    then show ?thesis unfolding delete_ok using \<open>p' = Some r'\<close> by (auto dest!: check_all_msgs)
  qed
qed

subsection \<open>The verdict\<close>

text \<open>One operation that ends with status 0: everything its validator asks for holds of what it has become.\<close>

lemma operation_passed:
  assumes "level2_operation fetch m n e cache db op = Some (op', cache', db')" "status_code (io_status op') = 0"
  shows "op_accepted n (io_request op')"
proof (cases "io_request op")
  case (Op_Insert p)
  with assms show ?thesis by (auto simp: level2_operation_def put_back_def simp del: op_accepted.simps intro: insert_passed)
next
  case (Op_Update p)
  with assms show ?thesis by (auto simp: level2_operation_def put_back_def simp del: op_accepted.simps intro: update_passed)
next
  case (Op_Delete p)
  with assms show ?thesis by (auto simp: level2_operation_def put_back_def simp del: op_accepted.simps intro: delete_passed)
next
  case (Op_Select p)
  then show ?thesis using assms
    by (cases "async_not_alone n p") (auto simp: level2_operation_def level2_more_codes select_status)
next
  case (Op_Authenticate p)
  then show ?thesis using assms
    by (auto simp: level2_operation_def level2_validate_authenticate_def level2_codes split: option.splits if_splits)
next
  case (Op_Check_Permission p)
  then show ?thesis using assms
    by (auto simp: level2_operation_def level2_validate_check_permission_def level2_codes split: option.splits if_splits)
qed (use assms in \<open>auto simp: level2_operation_def procedure_status ddl_status not_implemented_def set_error_def level2_more_codes\<close>)

definition all_accepted :: "nat \<Rightarrow> input_c_operation list \<Rightarrow> bool" where
  "all_accepted n ops \<longleftrightarrow> (\<forall>op \<in> set ops. status_code (io_status op) = 0 \<and> op_accepted n (io_request op))"

definition stopped_at :: "nat \<Rightarrow> nat \<Rightarrow> input_c_operation list \<Rightarrow> input_c_operation list \<Rightarrow> bool" where
  "stopped_at k n ops ops' \<longleftrightarrow>
     k < length ops \<and> all_accepted n (take k ops') \<and> status_code (io_status (ops' ! k)) \<noteq> 0 \<and> drop (Suc k) ops' = drop (Suc k) ops"

lemma stopped_Suc: "stopped_at (Suc k) n (op # ops) (op' # ops') \<longleftrightarrow>
    status_code (io_status op') = 0 \<and> op_accepted n (io_request op') \<and> stopped_at k n ops ops'"
  by (auto simp: stopped_at_def all_accepted_def)

lemma level2_loop_verdict:
  assumes "level2_loop fetch m n e i cache db ops = Some (rc, ops', cache', db')"
  shows "length ops' = length ops \<and>
    (rc = LEVEL2_OK \<and> all_accepted n ops' \<or> rc = LEVEL2_ERR_VALIDATION_FAILED \<and> (\<exists>k. stopped_at k n ops ops'))"
  using assms
proof (induction fetch m n e i cache db ops arbitrary: rc ops' cache' db' rule: level2_loop.induct)
  case (2 fetch m n e i cache db op ops)
  obtain op1 c1 d1 where s: "level2_operation fetch m n (e i) cache db op = Some (op1, c1, d1)"
    using "2.prems" by (auto split: option.splits)
  show ?case
  proof (cases "status_code (io_status op1) = 0")
    case False
    then have "rc = LEVEL2_ERR_VALIDATION_FAILED" "ops' = op1 # ops" using "2.prems" s by auto
    moreover have "stopped_at 0 n (op # ops) (op1 # ops)" using False by (simp add: stopped_at_def all_accepted_def)
    ultimately show ?thesis by auto
  next
    case True
    then obtain ops2 where r: "level2_loop fetch m n e (Suc i) c1 d1 ops = Some (rc, ops2, cache', db')" "ops' = op1 # ops2"
      using "2.prems" s by auto
    note ih = "2.IH" [OF s refl refl _ r(1)] and a = operation_passed [OF s True]
    show ?thesis using ih True a r(2) by (auto simp: all_accepted_def stopped_Suc intro: exI [of _ "Suc _"])
  qed
qed (simp add: all_accepted_def)

text \<open>C11. Level 2 lets a request through only when every operation has been checked and passed: its status is 0 and
  everything its validator asks for holds of the operation as it now is (among them: a SELECT with a text that the
  dependency extraction understands and, when asynchronous, alone and with an https callback; every parameter of a procedure
  of a known type; every name, type and privilege of a schema operation through its check). An operation type without a
  validator never passes. Otherwise the request fails at its first bad operation, whose status says why, and the operations
  after that one are left as they were. No operation is added or lost.\<close>

theorem level2_verdict:
  assumes "level2_validate fetch m e cache db req = Some (rc, req', cache', db')"
  shows "length (ir_operations req') = length (ir_operations req) \<and>
    (rc = LEVEL2_OK \<and> all_accepted (length (ir_operations req)) (ir_operations req') \<or>
     rc = LEVEL2_ERR_VALIDATION_FAILED \<and>
       (\<exists>k. stopped_at k (length (ir_operations req)) (ir_operations req) (ir_operations req')))"
  using assms level2_loop_verdict by (fastforce simp: level2_validate_def)


definition sample_operations :: "input_c_operation list" where
  "sample_operations = map (\<lambda>r. \<lparr>io_request = r, io_status = no_status\<rparr>)
     [Op_Select (Some \<lparr>sr_sql = ''select name from emp'', sr_execute_async = 0, sr_async_call_back_url = []\<rparr>),
      Op_Execute_Procedure (Some \<lparr>xp_name = ''pay'', xp_owner = [],
        xp_params = [\<lparr>pp_name = ''rows'', pp_type = ''cursor'', pp_direction = PARAM_DIR_IN, pp_value = []\<rparr>]\<rparr>),
      Op_Authenticate (Some \<lparr>aq_username = ''ann'', aq_credential = ''pw''\<rparr>)]"

definition sample_request :: input_c_request where
  "sample_request = \<lparr>ir_version = ''1.0'', ir_external_audit_id = [], ir_session_id = ''S1'', ir_source_format = INPUT_FORMAT_JSON,
     ir_transaction_required = 0, ir_transaction_name = [], ir_operations = sample_operations\<rparr>"

definition sample_op_env :: op_env where
  "sample_op_env = \<lparr>oe_lookup = sample_env, oe_row_day = (\<lambda>_ _. (2026, 11)), oe_key_day = (\<lambda>_. (2026, 11)),
     oe_field_day = (\<lambda>_. (2026, 11)), oe_logged = ([], [])\<rparr>"

definition sample_refused :: input_c_request where
  "sample_refused = sample_request\<lparr>ir_operations :=
     [(sample_operations ! 0)\<lparr>io_status := set_ok\<rparr>,
      (sample_operations ! 1)\<lparr>io_status := set_error LEVEL2_ERR_FIELD_INVALID ''LEVEL2_FIELD_INVALID''
         ''Parameter 'rows': CURSOR parameters must be OUT (a cursor cannot be passed in)''\<rparr>,
      sample_operations ! 2]\<rparr>"

lemma sample_level2:
  "level2_validate sample_fetch None (\<lambda>_. sample_op_env) None 0 sample_request =
     Some (LEVEL2_ERR_VALIDATION_FAILED, sample_refused, None, 0)"
  by code_simp

lemma sample_count: "ir_operations sample_request = sample_operations" "length sample_operations = 3"
  by (simp_all add: sample_request_def sample_operations_def)

lemma level2_verdict_witness:
  "length (ir_operations sample_refused) = 3 \<and> (\<exists>k. stopped_at k 3 sample_operations (ir_operations sample_refused))"
  using level2_verdict [OF sample_level2] by (simp add: sample_count level2_more_codes)

end
