(* ===== verification/Level1_Documents.thy ===== *)
theory Level1_Documents
  imports Requests
begin

text \<open>
  Documents as the first level of parsing (\<^verbatim>\<open>src/core/level 1/Level1_Parser.c\<close>) walks over them, and its small helpers.
  libxml2 and cJSON are not part of the repository; a document is what they hand out: an XML node with its type, name,
  attributes, content (\<^verbatim>\<open>xmlNodeGetContent\<close>) and children, a JSON value with the integer of a number
  (\<^verbatim>\<open>valueint\<close>). A member of a JSON object is found by its first occurrence. \<^verbatim>\<open>calloc\<close> is taken to succeed.
\<close>

subsection \<open>XML\<close>

datatype xml_node =
  Xml_Node (is_element: bool) (node_name: cstring) (node_attributes: "(cstring \<times> cstring) list")
    (node_content: "cstring option") (node_children: "xml_node list")

definition elements :: "xml_node \<Rightarrow> xml_node list" where
  "elements node = filter is_element (node_children node)"

definition xml_named :: "cstring \<Rightarrow> xml_node \<Rightarrow> xml_node list" where
  "xml_named name node = filter (\<lambda>c. node_name c = name) (elements node)"

text \<open>A variable that each element of the name overwrites.\<close>

definition last_named :: "cstring \<Rightarrow> xml_node \<Rightarrow> xml_node option" where
  "last_named name node = (case xml_named name node of [] \<Rightarrow> None | n # ns \<Rightarrow> Some (last (n # ns)))"

text \<open>The loop over the children with its chain of comparisons of the name.\<close>

type_synonym 'r xml_setter = "xml_node \<Rightarrow> 'r \<Rightarrow> 'r"

definition read_element :: "(cstring \<times> 'r xml_setter) list \<Rightarrow> xml_node \<Rightarrow> 'r \<Rightarrow> 'r" where
  "read_element table node init =
     foldl (\<lambda>r child. case map_of table (node_name child) of None \<Rightarrow> r | Some f \<Rightarrow> f child r) init (elements node)"

definition trim_inplace :: "cstring \<Rightarrow> cstring" where
  "trim_inplace s = rev (dropWhile c_isspace (rev (dropWhile c_isspace s)))"

text \<open>\<^verbatim>\<open>strncpy(field, content, n - 1); trim_inplace(field)\<close>; a flag; a number.\<close>

definition xml_text :: "nat \<Rightarrow> (cstring \<Rightarrow> 'r \<Rightarrow> 'r) \<Rightarrow> 'r xml_setter" where
  "xml_text n upd child r = (case node_content child of None \<Rightarrow> r | Some s \<Rightarrow> upd (trim_inplace (c_strncpy n s)) r)"

definition flag :: "bool \<Rightarrow> int" where
  "flag b = (if b then 1 else 0)"

definition xml_flag :: "(int \<Rightarrow> 'r \<Rightarrow> 'r) \<Rightarrow> 'r xml_setter" where
  "xml_flag upd child r = (case node_content child of None \<Rightarrow> r | Some s \<Rightarrow> upd (flag (c_atoi s \<noteq> 0)) r)"

definition xml_int :: "(int \<Rightarrow> 'r \<Rightarrow> 'r) \<Rightarrow> 'r xml_setter" where
  "xml_int upd child r = (case node_content child of None \<Rightarrow> r | Some s \<Rightarrow> upd (c_atoi s) r)"

text \<open>An item goes into the next free place of an array of \<open>limit\<close> entries, unless it is empty.\<close>

definition add_item :: "nat \<Rightarrow> ('a \<Rightarrow> bool) \<Rightarrow> 'a list \<Rightarrow> 'a \<Rightarrow> 'a list" where
  "add_item limit ok items x = (if length items < limit \<and> ok x then items @ [x] else items)"

definition xml_items :: "cstring \<Rightarrow> nat \<Rightarrow> nat \<Rightarrow> xml_node \<Rightarrow> cstring list \<Rightarrow> cstring list" where
  "xml_items name n limit node items =
     foldl (\<lambda>xs c. case node_content c of None \<Rightarrow> xs
                   | Some s \<Rightarrow> add_item limit (\<lambda>x. x \<noteq> []) xs (trim_inplace (c_strncpy n s))) items (xml_named name node)"

subsection \<open>JSON\<close>

datatype json =
    Json_Null
  | Json_Bool bool
  | Json_Number int
  | Json_String cstring
  | Json_Array "json list"
  | Json_Object "(cstring \<times> json) list"

fun json_get :: "json \<Rightarrow> cstring \<Rightarrow> json option" where
  "json_get (Json_Object members) key = map_of members key"
| "json_get _ key = None"

definition json_items :: "json \<Rightarrow> cstring \<Rightarrow> json list" where
  "json_items obj key = (case json_get obj key of Some (Json_Array xs) \<Rightarrow> xs | _ \<Rightarrow> [])"

text \<open>The members that are looked up one after the other.\<close>

type_synonym 'r json_setter = "json \<Rightarrow> 'r \<Rightarrow> 'r"

definition read_members :: "(cstring \<times> 'r json_setter) list \<Rightarrow> json \<Rightarrow> 'r \<Rightarrow> 'r" where
  "read_members table obj init =
     foldl (\<lambda>r (key, f). case json_get obj key of None \<Rightarrow> r | Some v \<Rightarrow> f v r) init table"

definition json_text :: "nat \<Rightarrow> (cstring \<Rightarrow> 'r \<Rightarrow> 'r) \<Rightarrow> 'r json_setter" where
  "json_text n upd v r = (case v of Json_String s \<Rightarrow> upd (c_strncpy n s) r | _ \<Rightarrow> r)"

definition json_trimmed :: "nat \<Rightarrow> (cstring \<Rightarrow> 'r \<Rightarrow> 'r) \<Rightarrow> 'r json_setter" where
  "json_trimmed n upd v r = (case v of Json_String s \<Rightarrow> upd (trim_inplace (c_strncpy n s)) r | _ \<Rightarrow> r)"

definition json_flag :: "(int \<Rightarrow> 'r \<Rightarrow> 'r) \<Rightarrow> 'r json_setter" where
  "json_flag upd v r = (case v of Json_Number i \<Rightarrow> upd (flag (i \<noteq> 0)) r | Json_Bool b \<Rightarrow> upd (flag b) r | _ \<Rightarrow> r)"

definition json_int :: "(int \<Rightarrow> 'r \<Rightarrow> 'r) \<Rightarrow> 'r json_setter" where
  "json_int upd v r = (case v of Json_Number i \<Rightarrow> upd i r | _ \<Rightarrow> r)"

definition json_strings :: "nat \<Rightarrow> nat \<Rightarrow> (cstring list \<Rightarrow> 'r \<Rightarrow> 'r) \<Rightarrow> 'r json_setter" where
  "json_strings n limit upd v r =
     upd (foldl (\<lambda>xs item. case item of Json_String s \<Rightarrow> (if s \<noteq> [] then add_item limit (\<lambda>_. True) xs (c_strncpy n s) else xs)
                            | _ \<Rightarrow> xs) [] (case v of Json_Array xs \<Rightarrow> xs | _ \<Rightarrow> [])) r"

subsection \<open>Shared by both\<close>

text \<open>The value of a field: a text of 4096 bytes or more is kept whole beside its first 4095 bytes.\<close>

definition FIELD_VALUE_SIZE :: nat where "FIELD_VALUE_SIZE = 4096"

definition set_field_value :: "cstring \<Rightarrow> field_value \<Rightarrow> field_value" where
  "set_field_value src fv =
     (if length src < FIELD_VALUE_SIZE then fv\<lparr>fv_value := c_strncpy FIELD_VALUE_SIZE src, fv_large := None\<rparr>
      else fv\<lparr>fv_value := c_strncpy FIELD_VALUE_SIZE src, fv_large := Some src\<rparr>)"

definition parse_direction_l1 :: "cstring \<Rightarrow> param_direction" where
  "parse_direction_l1 s =
     (if ci_eq s ''OUT'' then PARAM_DIR_OUT else if ci_eq s ''IN_OUT'' then PARAM_DIR_IN_OUT else PARAM_DIR_IN)"

datatype operation_type =
    OP_SELECT | OP_INSERT | OP_UPDATE | OP_DELETE | OP_EXECUTE_PROCEDURE | OP_AUTHENTICATE | OP_CHECK_PERMISSION
  | OP_CREATE_USER | OP_GRANT | OP_CREATE_TABLE | OP_DROP_TABLE | OP_CREATE_VIEW | OP_CREATE_PROCEDURE
  | Without_Payload other_type

definition operation_names :: "(cstring \<times> operation_type) list" where
  "operation_names =
     [(''GET_TEMPLATE'', Without_Payload OP_GET_TEMPLATE), (''SELECT'', OP_SELECT), (''INSERT'', OP_INSERT),
      (''UPDATE'', OP_UPDATE), (''DELETE'', OP_DELETE), (''EXECUTE_PROCEDURE'', OP_EXECUTE_PROCEDURE),
      (''CREATE_SESSION'', Without_Payload OP_CREATE_SESSION), (''END_SESSION'', Without_Payload OP_END_SESSION),
      (''AUTHENTICATE'', OP_AUTHENTICATE), (''CHECK_PERMISSION'', OP_CHECK_PERMISSION), (''CREATE_USER'', OP_CREATE_USER),
      (''GRANT'', OP_GRANT), (''CREATE_TABLE'', OP_CREATE_TABLE), (''DROP_TABLE'', OP_DROP_TABLE),
      (''CREATE_VIEW'', OP_CREATE_VIEW), (''CREATE_PROCEDURE'', OP_CREATE_PROCEDURE)]"

definition map_operation_type :: "cstring option \<Rightarrow> operation_type" where
  "map_operation_type name =
     (case name of None \<Rightarrow> Without_Payload OP_UNKNOWN
      | Some s \<Rightarrow> (case find (\<lambda>(n, _). ci_eq s n) operation_names of None \<Rightarrow> Without_Payload OP_UNKNOWN | Some (_, t) \<Rightarrow> t))"

subsection \<open>Lemmas on the loops\<close>

lemma foldl_invariant: "P a \<Longrightarrow> (\<And>r x. x \<in> set xs \<Longrightarrow> P r \<Longrightarrow> P (f r x)) \<Longrightarrow> P (foldl f a xs)"
  by (induction xs arbitrary: a) auto

lemma read_element_invariant:
  assumes "P init" "list_all (\<lambda>(_, f). \<forall>child r. P r \<longrightarrow> P (f child r)) table"
  shows "P (read_element table node init)"
  unfolding read_element_def
  by (rule foldl_invariant) (use assms in \<open>fastforce simp: list_all_iff dest: map_of_SomeD split: option.splits\<close>)+

lemma read_members_invariant:
  assumes "P init" "list_all (\<lambda>(_, f). \<forall>v r. P r \<longrightarrow> P (f v r)) table"
  shows "P (read_members table obj init)"
  unfolding read_members_def
  by (rule foldl_invariant) (use assms in \<open>fastforce simp: list_all_iff split: option.splits\<close>)+

lemma length_trim_inplace: "length (trim_inplace s) \<le> length s"
  unfolding trim_inplace_def using length_dropWhile_le [of c_isspace s] length_dropWhile_le [of c_isspace "rev (dropWhile c_isspace s)"]
  by simp

lemma trim_strncpy_fits: "0 < n \<Longrightarrow> length (trim_inplace (c_strncpy n s)) < n"
  using length_trim_inplace [of "c_strncpy n s"] unfolding length_c_strncpy by linarith

lemma strncpy_fits: "0 < n \<Longrightarrow> length (c_strncpy n s) < n"
  by simp

lemma add_item_bound: "length xs \<le> limit \<Longrightarrow> length (add_item limit ok xs x) \<le> limit"
  by (simp add: add_item_def)

lemma set_add_item: "set (add_item limit ok xs x) \<subseteq> insert x (set xs)"
  by (auto simp: add_item_def)

end
