(* ===== verification/Level1_Parser.thy ===== *)
theory Level1_Parser
  imports Level1_Documents
begin

text \<open>
  The first level of parsing (\<^verbatim>\<open>src/core/level 1/Level1_Parser.c\<close>): the format of a request, the payload of each
  operation from XML and from JSON, and the envelope. The readers of libxml2 and cJSON are parameters. A payload is built
  from a structure of zero bytes by a table of setters, one for each member that the code looks for.
\<close>

subsection \<open>The payloads from XML\<close>

definition no_select :: select_request where
  "no_select = \<lparr>sr_sql = [], sr_execute_async = 0, sr_async_call_back_url = []\<rparr>"

definition select_xml :: "xml_node \<Rightarrow> select_request" where
  "select_xml node = read_element
     [(''sql'', xml_text 4096 (\<lambda>s. sr_sql_update (\<lambda>_. s))),
      (''execute_async'', xml_flag (\<lambda>b. sr_execute_async_update (\<lambda>_. b))),
      (''async_call_back_url'', xml_text 512 (\<lambda>s. sr_async_call_back_url_update (\<lambda>_. s)))] node no_select"

definition no_field :: field_value where
  "no_field = \<lparr>fv_name = [], fv_value = [], fv_large = None, fv_format = []\<rparr>"

text \<open>The value of a field is trimmed before it is cut.\<close>

definition xml_value :: "field_value xml_setter" where
  "xml_value child fv = (case node_content child of None \<Rightarrow> fv | Some s \<Rightarrow> set_field_value (trim_inplace s) fv)"

definition field_xml :: "xml_node \<Rightarrow> field_value" where
  "field_xml node = read_element
     [(''field_name'', xml_text 128 (\<lambda>s. fv_name_update (\<lambda>_. s))), (''value'', xml_value),
      (''client_date_format'', xml_text 64 (\<lambda>s. fv_format_update (\<lambda>_. s)))] node no_field"

definition fields_xml :: "xml_node \<Rightarrow> field_value list" where
  "fields_xml node = map field_xml (xml_named ''field'' node)"

definition insert_xml :: "xml_node \<Rightarrow> insert_request" where
  "insert_xml node = (read_element
     [(''table_name'', xml_text 128 (\<lambda>s. ir_table_update (\<lambda>_. s))), (''owner'', xml_text 128 (\<lambda>s. ir_owner_update (\<lambda>_. s)))] node
     \<lparr>ir_table = [], ir_owner = [], ir_rows = []\<rparr>) \<lparr>ir_rows := map fields_xml (xml_named ''row'' node)\<rparr>"

definition no_key :: where_key where
  "no_key = \<lparr>wk_name = [], wk_value = [], wk_format = []\<rparr>"

definition key_xml :: "xml_node \<Rightarrow> where_key" where
  "key_xml node = read_element
     [(''field_name'', xml_text 128 (\<lambda>s. wk_name_update (\<lambda>_. s))), (''key_value'', xml_text 4096 (\<lambda>s. wk_value_update (\<lambda>_. s))),
      (''client_date_format'', xml_text 64 (\<lambda>s. wk_format_update (\<lambda>_. s)))] node no_key"

definition keys_xml :: "xml_node option \<Rightarrow> where_key list" where
  "keys_xml where_node = (case where_node of None \<Rightarrow> [] | Some w \<Rightarrow> map key_xml (xml_named ''key'' w))"

definition update_xml :: "xml_node \<Rightarrow> update_request" where
  "update_xml node = (read_element
     [(''table_name'', xml_text 128 (\<lambda>s. ur_table_update (\<lambda>_. s))), (''owner'', xml_text 128 (\<lambda>s. ur_owner_update (\<lambda>_. s)))] node
     \<lparr>ur_table = [], ur_owner = [], ur_keys = [], ur_fields = []\<rparr>)
     \<lparr>ur_keys := keys_xml (last_named ''where'' node),
      ur_fields := (case last_named ''set'' node of None \<Rightarrow> [] | Some n \<Rightarrow> fields_xml n)\<rparr>"

definition delete_xml :: "xml_node \<Rightarrow> delete_request" where
  "delete_xml node = (read_element
     [(''table_name'', xml_text 128 (\<lambda>s. dr_table_update (\<lambda>_. s))), (''owner'', xml_text 128 (\<lambda>s. dr_owner_update (\<lambda>_. s)))] node
     \<lparr>dr_table = [], dr_owner = [], dr_keys = []\<rparr>) \<lparr>dr_keys := keys_xml (last_named ''where'' node)\<rparr>"

definition no_procedure_param :: procedure_param where
  "no_procedure_param = \<lparr>pp_name = [], pp_type = [], pp_direction = PARAM_DIR_IN, pp_value = []\<rparr>"

definition procedure_param_xml :: "xml_node \<Rightarrow> procedure_param" where
  "procedure_param_xml node = read_element
     [(''param_name'', xml_text 128 (\<lambda>s. pp_name_update (\<lambda>_. s))), (''param_type'', xml_text 32 (\<lambda>s. pp_type_update (\<lambda>_. s))),
      (''param_direction'', xml_text 32 (\<lambda>s. pp_direction_update (\<lambda>_. parse_direction_l1 s))),
      (''param_value'', xml_text 4096 (\<lambda>s. pp_value_update (\<lambda>_. s)))] node no_procedure_param"

definition execute_procedure_xml :: "xml_node \<Rightarrow> execute_procedure_request" where
  "execute_procedure_xml node = (read_element
     [(''procedure_name'', xml_text 128 (\<lambda>s. xp_name_update (\<lambda>_. s))), (''owner'', xml_text 128 (\<lambda>s. xp_owner_update (\<lambda>_. s)))] node
     \<lparr>xp_name = [], xp_owner = [], xp_params = []\<rparr>)
     \<lparr>xp_params := (case last_named ''parameters'' node of None \<Rightarrow> [] | Some n \<Rightarrow> map procedure_param_xml (xml_named ''parameter'' n))\<rparr>"

definition authenticate_xml :: "xml_node \<Rightarrow> authenticate_request" where
  "authenticate_xml node = read_element
     [(''username'', xml_text 128 (\<lambda>s. aq_username_update (\<lambda>_. s))), (''credential'', xml_text 256 (\<lambda>s. aq_credential_update (\<lambda>_. s)))]
     node \<lparr>aq_username = [], aq_credential = []\<rparr>"

definition check_permission_xml :: "xml_node \<Rightarrow> check_permission_request" where
  "check_permission_xml node = read_element
     [(''permission_code'', xml_text 100 (\<lambda>s. cq_permission_code_update (\<lambda>_. s)))] node \<lparr>cq_permission_code = []\<rparr>"

definition no_user :: create_user_request where
  "no_user = \<lparr>cu_username = [], cu_identified_by = [], cu_default_tablespace = [], cu_temp_tablespace = [], cu_quota = [],
     cu_quota_tablespace = [], cu_profile = [], cu_roles = []\<rparr>"

text \<open>Without a tablespace of its own the quota is on the default tablespace.\<close>

definition quota_fallback :: "create_user_request \<Rightarrow> create_user_request" where
  "quota_fallback req =
     (if cu_quota req \<noteq> [] \<and> cu_quota_tablespace req = []
      then req\<lparr>cu_quota_tablespace := c_strncpy 128 (cu_default_tablespace req)\<rparr> else req)"

definition create_user_xml :: "xml_node \<Rightarrow> create_user_request" where
  "create_user_xml node = quota_fallback (read_element
     [(''username'', xml_text 128 (\<lambda>s. cu_username_update (\<lambda>_. s))),
      (''identified_by'', xml_text 128 (\<lambda>s. cu_identified_by_update (\<lambda>_. s))),
      (''default_tablespace'', xml_text 128 (\<lambda>s. cu_default_tablespace_update (\<lambda>_. s))),
      (''temp_tablespace'', xml_text 128 (\<lambda>s. cu_temp_tablespace_update (\<lambda>_. s))),
      (''quota'', xml_text 32 (\<lambda>s. cu_quota_update (\<lambda>_. s))),
      (''quota_tablespace'', xml_text 128 (\<lambda>s. cu_quota_tablespace_update (\<lambda>_. s))),
      (''profile'', xml_text 128 (\<lambda>s. cu_profile_update (\<lambda>_. s))),
      (''roles'', \<lambda>child. cu_roles_update (xml_items ''role'' 128 MAX_CREATE_USER_ROLES child))] node no_user)"

definition no_grant :: grant_request where
  "no_grant = \<lparr>gr_grantee = [], gr_object_type = [], gr_object_name = [], gr_owner = [], gr_privileges = [], gr_with_grant_option = 0\<rparr>"

definition grant_xml :: "xml_node \<Rightarrow> grant_request" where
  "grant_xml node = read_element
     [(''grantee'', xml_text 128 (\<lambda>s. gr_grantee_update (\<lambda>_. s))), (''object_type'', xml_text 16 (\<lambda>s. gr_object_type_update (\<lambda>_. s))),
      (''object_name'', xml_text 128 (\<lambda>s. gr_object_name_update (\<lambda>_. s))), (''owner'', xml_text 128 (\<lambda>s. gr_owner_update (\<lambda>_. s))),
      (''with_grant_option'', xml_flag (\<lambda>b. gr_with_grant_option_update (\<lambda>_. b))),
      (''privileges'', \<lambda>child. gr_privileges_update (xml_items ''privilege'' 32 MAX_GRANT_PRIVILEGES child))] node no_grant"

definition no_column :: column_def where
  "no_column = \<lparr>cd_name = [], cd_type = [], cd_length = 0, cd_precision = 0, cd_scale = 0, cd_nullable = 1, cd_default = []\<rparr>"

definition column_xml :: "xml_node \<Rightarrow> column_def" where
  "column_xml node = read_element
     [(''name'', xml_text 128 (\<lambda>s. cd_name_update (\<lambda>_. s))), (''data_type'', xml_text 16 (\<lambda>s. cd_type_update (\<lambda>_. s))),
      (''length'', xml_int (\<lambda>i. cd_length_update (\<lambda>_. i))), (''precision'', xml_int (\<lambda>i. cd_precision_update (\<lambda>_. i))),
      (''scale'', xml_int (\<lambda>i. cd_scale_update (\<lambda>_. i))), (''nullable'', xml_flag (\<lambda>b. cd_nullable_update (\<lambda>_. b))),
      (''default_value'', xml_text 128 (\<lambda>s. cd_default_update (\<lambda>_. s)))] node no_column"

definition named_column :: "column_def \<Rightarrow> bool" where
  "named_column col \<longleftrightarrow> cd_name col \<noteq> []"

definition columns_xml :: "xml_node \<Rightarrow> column_def list \<Rightarrow> column_def list" where
  "columns_xml node cols =
     foldl (\<lambda>xs c. add_item DDL_MAX_TABLE_COLUMNS named_column xs (column_xml c)) cols (xml_named ''column'' node)"

definition create_table_xml :: "xml_node \<Rightarrow> create_table_request" where
  "create_table_xml node = read_element
     [(''table_name'', xml_text 128 (\<lambda>s. ct_table_update (\<lambda>_. s))), (''owner'', xml_text 128 (\<lambda>s. ct_owner_update (\<lambda>_. s))),
      (''columns'', \<lambda>child. ct_columns_update (columns_xml child)),
      (''primary_key'', \<lambda>child. ct_key_update (xml_items ''column'' 128 MAX_PRIMARY_KEY_COLUMNS child))] node
     \<lparr>ct_table = [], ct_owner = [], ct_columns = [], ct_key = []\<rparr>"

definition drop_table_xml :: "xml_node \<Rightarrow> drop_table_request" where
  "drop_table_xml node = read_element
     [(''table_name'', xml_text 128 (\<lambda>s. dt_table_update (\<lambda>_. s))), (''owner'', xml_text 128 (\<lambda>s. dt_owner_update (\<lambda>_. s))),
      (''cascade_constraints'', xml_flag (\<lambda>b. dt_cascade_constraints_update (\<lambda>_. b))),
      (''purge'', xml_flag (\<lambda>b. dt_purge_update (\<lambda>_. b))), (''confirm'', xml_flag (\<lambda>b. dt_confirm_update (\<lambda>_. b)))] node
     \<lparr>dt_table = [], dt_owner = [], dt_cascade_constraints = 0, dt_purge = 0, dt_confirm = 0\<rparr>"

definition create_view_xml :: "xml_node \<Rightarrow> create_view_request" where
  "create_view_xml node = read_element
     [(''view_name'', xml_text 128 (\<lambda>s. cv_name_update (\<lambda>_. s))), (''owner'', xml_text 128 (\<lambda>s. cv_owner_update (\<lambda>_. s))),
      (''replace'', xml_flag (\<lambda>b. cv_replace_update (\<lambda>_. b))), (''force'', xml_flag (\<lambda>b. cv_force_update (\<lambda>_. b))),
      (''query'', xml_text 4000 (\<lambda>s. cv_query_update (\<lambda>_. s))),
      (''columns'', \<lambda>child. cv_columns_update (xml_items ''column'' 128 MAX_VIEW_COLUMNS child))] node
     \<lparr>cv_name = [], cv_owner = [], cv_replace = 0, cv_force = 0, cv_columns = [], cv_query = []\<rparr>"

definition no_ddl_param :: ddl_procedure_param where
  "no_ddl_param = \<lparr>dp_name = [], dp_type = [], dp_mode = ''IN'', dp_default = []\<rparr>"

definition ddl_param_xml :: "xml_node \<Rightarrow> ddl_procedure_param" where
  "ddl_param_xml node = read_element
     [(''name'', xml_text 128 (\<lambda>s. dp_name_update (\<lambda>_. s))), (''data_type'', xml_text 16 (\<lambda>s. dp_type_update (\<lambda>_. s))),
      (''mode'', xml_text 8 (\<lambda>s. dp_mode_update (\<lambda>_. s))), (''default_value'', xml_text 128 (\<lambda>s. dp_default_update (\<lambda>_. s)))]
     node no_ddl_param"

definition named_param :: "ddl_procedure_param \<Rightarrow> bool" where
  "named_param p \<longleftrightarrow> dp_name p \<noteq> []"

definition ddl_params_xml :: "xml_node \<Rightarrow> ddl_procedure_param list \<Rightarrow> ddl_procedure_param list" where
  "ddl_params_xml node params =
     foldl (\<lambda>xs c. add_item MAX_PROCEDURE_PARAMETERS named_param xs (ddl_param_xml c)) params (xml_named ''parameter'' node)"

definition create_procedure_xml :: "xml_node \<Rightarrow> create_procedure_request" where
  "create_procedure_xml node = read_element
     [(''procedure_name'', xml_text 128 (\<lambda>s. cp_name_update (\<lambda>_. s))), (''owner'', xml_text 128 (\<lambda>s. cp_owner_update (\<lambda>_. s))),
      (''replace'', xml_flag (\<lambda>b. cp_replace_update (\<lambda>_. b))),
      (''body'', xml_text PROCEDURE_BODY_LEN (\<lambda>s. cp_body_update (\<lambda>_. s))),
      (''parameters'', \<lambda>child. cp_params_update (ddl_params_xml child))] node
     \<lparr>cp_name = [], cp_owner = [], cp_replace = 0, cp_params = [], cp_body = []\<rparr>"

fun build_payload_xml :: "operation_type \<Rightarrow> xml_node \<Rightarrow> op_request" where
  "build_payload_xml OP_SELECT node = Op_Select (Some (select_xml node))"
| "build_payload_xml OP_INSERT node = Op_Insert (Some (insert_xml node))"
| "build_payload_xml OP_UPDATE node = Op_Update (Some (update_xml node))"
| "build_payload_xml OP_DELETE node = Op_Delete (Some (delete_xml node))"
| "build_payload_xml OP_EXECUTE_PROCEDURE node = Op_Execute_Procedure (Some (execute_procedure_xml node))"
| "build_payload_xml OP_AUTHENTICATE node = Op_Authenticate (Some (authenticate_xml node))"
| "build_payload_xml OP_CHECK_PERMISSION node = Op_Check_Permission (Some (check_permission_xml node))"
| "build_payload_xml OP_CREATE_USER node = Op_Ddl (Ddl_Create_User (Some (create_user_xml node)))"
| "build_payload_xml OP_GRANT node = Op_Ddl (Ddl_Grant (Some (grant_xml node)))"
| "build_payload_xml OP_CREATE_TABLE node = Op_Ddl (Ddl_Create_Table (Some (create_table_xml node)))"
| "build_payload_xml OP_DROP_TABLE node = Op_Ddl (Ddl_Drop_Table (Some (drop_table_xml node)))"
| "build_payload_xml OP_CREATE_VIEW node = Op_Ddl (Ddl_Create_View (Some (create_view_xml node)))"
| "build_payload_xml OP_CREATE_PROCEDURE node = Op_Ddl (Ddl_Create_Procedure (Some (create_procedure_xml node)))"
| "build_payload_xml (Without_Payload t) node = Op_Other t"

subsection \<open>The payloads from JSON\<close>

definition select_json :: "json \<Rightarrow> select_request" where
  "select_json obj = read_members
     [(''sql'', json_trimmed 4096 (\<lambda>s. sr_sql_update (\<lambda>_. s))),
      (''execute_async'', json_flag (\<lambda>b. sr_execute_async_update (\<lambda>_. b))),
      (''async_call_back_url'', json_trimmed 512 (\<lambda>s. sr_async_call_back_url_update (\<lambda>_. s)))] obj no_select"

definition json_value :: "field_value json_setter" where
  "json_value v fv = (case v of Json_String s \<Rightarrow> set_field_value s fv | _ \<Rightarrow> fv)"

definition field_json :: "json \<Rightarrow> field_value" where
  "field_json obj = read_members
     [(''field_name'', json_text 128 (\<lambda>s. fv_name_update (\<lambda>_. s))), (''value'', json_value),
      (''client_date_format'', json_text 64 (\<lambda>s. fv_format_update (\<lambda>_. s)))] obj no_field"

definition row_json :: "json \<Rightarrow> field_value list" where
  "row_json obj = map field_json (json_items obj ''fields'')"

definition insert_json :: "json \<Rightarrow> insert_request" where
  "insert_json obj = (read_members
     [(''table_name'', json_text 128 (\<lambda>s. ir_table_update (\<lambda>_. s))), (''owner'', json_text 128 (\<lambda>s. ir_owner_update (\<lambda>_. s)))] obj
     \<lparr>ir_table = [], ir_owner = [], ir_rows = []\<rparr>) \<lparr>ir_rows := map row_json (json_items obj ''rows'')\<rparr>"

definition key_json :: "json \<Rightarrow> where_key" where
  "key_json obj = read_members
     [(''field_name'', json_text 128 (\<lambda>s. wk_name_update (\<lambda>_. s))), (''key_value'', json_text 4096 (\<lambda>s. wk_value_update (\<lambda>_. s))),
      (''client_date_format'', json_text 64 (\<lambda>s. wk_format_update (\<lambda>_. s)))] obj no_key"

definition update_json :: "json \<Rightarrow> update_request" where
  "update_json obj = (read_members
     [(''table_name'', json_text 128 (\<lambda>s. ur_table_update (\<lambda>_. s))), (''owner'', json_text 128 (\<lambda>s. ur_owner_update (\<lambda>_. s)))] obj
     \<lparr>ur_table = [], ur_owner = [], ur_keys = [], ur_fields = []\<rparr>)
     \<lparr>ur_keys := map key_json (json_items obj ''where''), ur_fields := map field_json (json_items obj ''set'')\<rparr>"

definition delete_json :: "json \<Rightarrow> delete_request" where
  "delete_json obj = (read_members
     [(''table_name'', json_text 128 (\<lambda>s. dr_table_update (\<lambda>_. s))), (''owner'', json_text 128 (\<lambda>s. dr_owner_update (\<lambda>_. s)))] obj
     \<lparr>dr_table = [], dr_owner = [], dr_keys = []\<rparr>) \<lparr>dr_keys := map key_json (json_items obj ''where'')\<rparr>"

definition json_direction :: "procedure_param json_setter" where
  "json_direction v p = (case v of Json_String s \<Rightarrow> p\<lparr>pp_direction := parse_direction_l1 s\<rparr> | _ \<Rightarrow> p)"

definition procedure_param_json :: "json \<Rightarrow> procedure_param" where
  "procedure_param_json obj = read_members
     [(''param_name'', json_text 128 (\<lambda>s. pp_name_update (\<lambda>_. s))), (''param_type'', json_text 32 (\<lambda>s. pp_type_update (\<lambda>_. s))),
      (''param_direction'', json_direction), (''param_value'', json_text 4096 (\<lambda>s. pp_value_update (\<lambda>_. s)))] obj no_procedure_param"

definition execute_procedure_json :: "json \<Rightarrow> execute_procedure_request" where
  "execute_procedure_json obj = (read_members
     [(''procedure_name'', json_text 128 (\<lambda>s. xp_name_update (\<lambda>_. s))), (''owner'', json_text 128 (\<lambda>s. xp_owner_update (\<lambda>_. s)))] obj
     \<lparr>xp_name = [], xp_owner = [], xp_params = []\<rparr>) \<lparr>xp_params := map procedure_param_json (json_items obj ''parameters'')\<rparr>"

definition authenticate_json :: "json \<Rightarrow> authenticate_request" where
  "authenticate_json obj = read_members
     [(''username'', json_text 128 (\<lambda>s. aq_username_update (\<lambda>_. s))), (''credential'', json_text 256 (\<lambda>s. aq_credential_update (\<lambda>_. s)))]
     obj \<lparr>aq_username = [], aq_credential = []\<rparr>"

definition check_permission_json :: "json \<Rightarrow> check_permission_request" where
  "check_permission_json obj = read_members
     [(''permission_code'', json_text 100 (\<lambda>s. cq_permission_code_update (\<lambda>_. s)))] obj \<lparr>cq_permission_code = []\<rparr>"

definition create_user_json :: "json \<Rightarrow> create_user_request" where
  "create_user_json obj = quota_fallback (read_members
     [(''username'', json_text 128 (\<lambda>s. cu_username_update (\<lambda>_. s))),
      (''identified_by'', json_text 128 (\<lambda>s. cu_identified_by_update (\<lambda>_. s))),
      (''default_tablespace'', json_text 128 (\<lambda>s. cu_default_tablespace_update (\<lambda>_. s))),
      (''temp_tablespace'', json_text 128 (\<lambda>s. cu_temp_tablespace_update (\<lambda>_. s))),
      (''quota'', json_text 32 (\<lambda>s. cu_quota_update (\<lambda>_. s))),
      (''quota_tablespace'', json_text 128 (\<lambda>s. cu_quota_tablespace_update (\<lambda>_. s))),
      (''profile'', json_text 128 (\<lambda>s. cu_profile_update (\<lambda>_. s))),
      (''roles'', json_strings 128 MAX_CREATE_USER_ROLES (\<lambda>xs. cu_roles_update (\<lambda>_. xs)))] obj no_user)"

definition grant_json :: "json \<Rightarrow> grant_request" where
  "grant_json obj = read_members
     [(''grantee'', json_text 128 (\<lambda>s. gr_grantee_update (\<lambda>_. s))), (''object_type'', json_text 16 (\<lambda>s. gr_object_type_update (\<lambda>_. s))),
      (''object_name'', json_text 128 (\<lambda>s. gr_object_name_update (\<lambda>_. s))), (''owner'', json_text 128 (\<lambda>s. gr_owner_update (\<lambda>_. s))),
      (''with_grant_option'', json_flag (\<lambda>b. gr_with_grant_option_update (\<lambda>_. b))),
      (''privileges'', json_strings 32 MAX_GRANT_PRIVILEGES (\<lambda>xs. gr_privileges_update (\<lambda>_. xs)))] obj no_grant"

definition column_json :: "json \<Rightarrow> column_def" where
  "column_json obj = read_members
     [(''name'', json_text 128 (\<lambda>s. cd_name_update (\<lambda>_. s))), (''data_type'', json_text 16 (\<lambda>s. cd_type_update (\<lambda>_. s))),
      (''length'', json_int (\<lambda>i. cd_length_update (\<lambda>_. i))), (''precision'', json_int (\<lambda>i. cd_precision_update (\<lambda>_. i))),
      (''scale'', json_int (\<lambda>i. cd_scale_update (\<lambda>_. i))), (''nullable'', json_flag (\<lambda>b. cd_nullable_update (\<lambda>_. b))),
      (''default_value'', json_text 128 (\<lambda>s. cd_default_update (\<lambda>_. s)))] obj no_column"

definition is_object :: "json \<Rightarrow> bool" where
  "is_object v \<longleftrightarrow> (case v of Json_Object _ \<Rightarrow> True | _ \<Rightarrow> False)"

definition columns_json :: "json list \<Rightarrow> column_def list" where
  "columns_json items = foldl (\<lambda>xs c. add_item DDL_MAX_TABLE_COLUMNS named_column xs (column_json c)) [] (filter is_object items)"

definition create_table_json :: "json \<Rightarrow> create_table_request" where
  "create_table_json obj = (read_members
     [(''table_name'', json_text 128 (\<lambda>s. ct_table_update (\<lambda>_. s))), (''owner'', json_text 128 (\<lambda>s. ct_owner_update (\<lambda>_. s))),
      (''primary_key'', json_strings 128 MAX_PRIMARY_KEY_COLUMNS (\<lambda>xs. ct_key_update (\<lambda>_. xs)))] obj
     \<lparr>ct_table = [], ct_owner = [], ct_columns = [], ct_key = []\<rparr>) \<lparr>ct_columns := columns_json (json_items obj ''columns'')\<rparr>"

definition drop_table_json :: "json \<Rightarrow> drop_table_request" where
  "drop_table_json obj = read_members
     [(''table_name'', json_text 128 (\<lambda>s. dt_table_update (\<lambda>_. s))), (''owner'', json_text 128 (\<lambda>s. dt_owner_update (\<lambda>_. s))),
      (''cascade_constraints'', json_flag (\<lambda>b. dt_cascade_constraints_update (\<lambda>_. b))),
      (''purge'', json_flag (\<lambda>b. dt_purge_update (\<lambda>_. b))), (''confirm'', json_flag (\<lambda>b. dt_confirm_update (\<lambda>_. b)))] obj
     \<lparr>dt_table = [], dt_owner = [], dt_cascade_constraints = 0, dt_purge = 0, dt_confirm = 0\<rparr>"

definition create_view_json :: "json \<Rightarrow> create_view_request" where
  "create_view_json obj = read_members
     [(''view_name'', json_text 128 (\<lambda>s. cv_name_update (\<lambda>_. s))), (''owner'', json_text 128 (\<lambda>s. cv_owner_update (\<lambda>_. s))),
      (''replace'', json_flag (\<lambda>b. cv_replace_update (\<lambda>_. b))), (''force'', json_flag (\<lambda>b. cv_force_update (\<lambda>_. b))),
      (''query'', json_text 4000 (\<lambda>s. cv_query_update (\<lambda>_. s))),
      (''columns'', json_strings 128 MAX_VIEW_COLUMNS (\<lambda>xs. cv_columns_update (\<lambda>_. xs)))] obj
     \<lparr>cv_name = [], cv_owner = [], cv_replace = 0, cv_force = 0, cv_columns = [], cv_query = []\<rparr>"

definition ddl_param_json :: "json \<Rightarrow> ddl_procedure_param" where
  "ddl_param_json obj = read_members
     [(''name'', json_text 128 (\<lambda>s. dp_name_update (\<lambda>_. s))), (''data_type'', json_text 16 (\<lambda>s. dp_type_update (\<lambda>_. s))),
      (''mode'', json_text 8 (\<lambda>s. dp_mode_update (\<lambda>_. s))), (''default_value'', json_text 128 (\<lambda>s. dp_default_update (\<lambda>_. s)))]
     obj no_ddl_param"

definition ddl_params_json :: "json list \<Rightarrow> ddl_procedure_param list" where
  "ddl_params_json items = foldl (\<lambda>xs c. add_item MAX_PROCEDURE_PARAMETERS named_param xs (ddl_param_json c)) [] (filter is_object items)"

definition create_procedure_json :: "json \<Rightarrow> create_procedure_request" where
  "create_procedure_json obj = (read_members
     [(''procedure_name'', json_text 128 (\<lambda>s. cp_name_update (\<lambda>_. s))), (''owner'', json_text 128 (\<lambda>s. cp_owner_update (\<lambda>_. s))),
      (''replace'', json_flag (\<lambda>b. cp_replace_update (\<lambda>_. b))),
      (''body'', json_text PROCEDURE_BODY_LEN (\<lambda>s. cp_body_update (\<lambda>_. s)))] obj
     \<lparr>cp_name = [], cp_owner = [], cp_replace = 0, cp_params = [], cp_body = []\<rparr>)
     \<lparr>cp_params := ddl_params_json (json_items obj ''parameters'')\<rparr>"

fun build_payload_json :: "operation_type \<Rightarrow> json \<Rightarrow> op_request" where
  "build_payload_json OP_SELECT obj = Op_Select (Some (select_json obj))"
| "build_payload_json OP_INSERT obj = Op_Insert (Some (insert_json obj))"
| "build_payload_json OP_UPDATE obj = Op_Update (Some (update_json obj))"
| "build_payload_json OP_DELETE obj = Op_Delete (Some (delete_json obj))"
| "build_payload_json OP_EXECUTE_PROCEDURE obj = Op_Execute_Procedure (Some (execute_procedure_json obj))"
| "build_payload_json OP_AUTHENTICATE obj = Op_Authenticate (Some (authenticate_json obj))"
| "build_payload_json OP_CHECK_PERMISSION obj = Op_Check_Permission (Some (check_permission_json obj))"
| "build_payload_json OP_CREATE_USER obj = Op_Ddl (Ddl_Create_User (Some (create_user_json obj)))"
| "build_payload_json OP_GRANT obj = Op_Ddl (Ddl_Grant (Some (grant_json obj)))"
| "build_payload_json OP_CREATE_TABLE obj = Op_Ddl (Ddl_Create_Table (Some (create_table_json obj)))"
| "build_payload_json OP_DROP_TABLE obj = Op_Ddl (Ddl_Drop_Table (Some (drop_table_json obj)))"
| "build_payload_json OP_CREATE_VIEW obj = Op_Ddl (Ddl_Create_View (Some (create_view_json obj)))"
| "build_payload_json OP_CREATE_PROCEDURE obj = Op_Ddl (Ddl_Create_Procedure (Some (create_procedure_json obj)))"
| "build_payload_json (Without_Payload t) obj = Op_Other t"

subsection \<open>The envelope\<close>

definition LEVEL1_OK :: int where "LEVEL1_OK = 0"
definition LEVEL1_ERR_EMPTY_INPUT :: int where "LEVEL1_ERR_EMPTY_INPUT = -1"
definition LEVEL1_ERR_UNKNOWN_FORMAT :: int where "LEVEL1_ERR_UNKNOWN_FORMAT = -2"
definition LEVEL1_ERR_MALFORMED :: int where "LEVEL1_ERR_MALFORMED = -3"
definition LEVEL1_ERR_MISSING_FIELD :: int where "LEVEL1_ERR_MISSING_FIELD = -4"

text \<open>A failure is the code returned and the status; the request is filled in on success only.\<close>

type_synonym level1_answer = "(int \<times> operation_status) + input_c_request"

definition level1_error :: "int \<Rightarrow> cstring \<Rightarrow> cstring \<Rightarrow> level1_answer" where
  "level1_error code err_code why =
     Inl (code, set_error code err_code (''Request aborted. Level 1 parse failed - '' @ why))"

definition malformed :: "cstring \<Rightarrow> level1_answer" where
  "malformed = level1_error LEVEL1_ERR_MALFORMED ''LEVEL1_MALFORMED''"

definition missing_field :: "cstring \<Rightarrow> level1_answer" where
  "missing_field = level1_error LEVEL1_ERR_MISSING_FIELD ''LEVEL1_MISSING_FIELD''"

definition no_operation :: level1_answer where
  "no_operation = missing_field ''at least one operation is required.''"

definition NO_TX_NAME :: cstring where "NO_TX_NAME = ''No Name Specified''"

definition empty_request :: "input_format \<Rightarrow> input_c_request" where
  "empty_request fmt =
     \<lparr>ir_version = [], ir_external_audit_id = [], ir_session_id = [], ir_source_format = fmt, ir_transaction_required = 0,
      ir_transaction_name = NO_TX_NAME, ir_operations = []\<rparr>"

text \<open>The checks at the end of both parsers.\<close>

definition finish_level1 :: "input_c_request \<Rightarrow> bool \<Rightarrow> bool \<Rightarrow> level1_answer" where
  "finish_level1 out have_audit have_session =
     (if \<not> have_audit then missing_field ''external_audit_id is mandatory.''
      else if \<not> have_session
      then missing_field (''session_id is mandatory (use '' @ [CHR 0x22] @ ''-'' @ [CHR 0x22] @
             '' if none, e.g. for CREATE_SESSION).'')
      else Inr (out\<lparr>ir_version := ''1.0''\<rparr>))"

definition operation_xml :: "xml_node \<Rightarrow> input_c_operation" where
  "operation_xml node =
     \<lparr>io_request = build_payload_xml (map_operation_type (map_of (node_attributes node) ''type'')) node, io_status = no_status\<rparr>"

definition transaction_xml :: "xml_node \<Rightarrow> input_c_request \<Rightarrow> input_c_request option" where
  "transaction_xml node out =
     (let tx_name = (case map_of (node_attributes node) ''name'' of None \<Rightarrow> [] | Some s \<Rightarrow> s)
      in if xml_named ''operation'' node = [] then None
         else Some (out\<lparr>ir_transaction_required := flag (map_of (node_attributes node) ''required'' = Some ''1''),
           ir_transaction_name := (if tx_name \<noteq> [] then c_strncpy 128 tx_name else NO_TX_NAME),
           ir_operations := map operation_xml (xml_named ''operation'' node)\<rparr>))"

text \<open>The loop over the children of the root; \<open>None\<close>: a transaction without an operation.\<close>

fun envelope_xml :: "xml_node list \<Rightarrow> input_c_request \<times> bool \<times> bool \<Rightarrow> (input_c_request \<times> bool \<times> bool) option" where
  "envelope_xml [] st = Some st"
| "envelope_xml (node # nodes) (out, have_audit, have_session) =
     (if node_name node = ''external_audit_id''
      then envelope_xml nodes
             (case node_content node of None \<Rightarrow> (out, have_audit, have_session)
              | Some s \<Rightarrow> if s \<noteq> [] then (out\<lparr>ir_external_audit_id := c_strncpy 64 s\<rparr>, True, have_session)
                          else (out, have_audit, have_session))
      else if node_name node = ''session_id''
      then envelope_xml nodes
             (case node_content node of None \<Rightarrow> (out, have_audit, have_session)
              | Some s \<Rightarrow> (out\<lparr>ir_session_id := c_strncpy 64 s\<rparr>, have_audit, True))
      else if node_name node = ''transaction''
      then (case transaction_xml node out of None \<Rightarrow> None | Some out' \<Rightarrow> envelope_xml nodes (out', have_audit, have_session))
      else envelope_xml nodes (out, have_audit, have_session))"

text \<open>\<open>doc\<close>: \<open>None\<close> when the text is not well-formed, then the root element, if there is one.\<close>

definition parse_xml :: "xml_node option option \<Rightarrow> level1_answer" where
  "parse_xml doc =
     (case doc of
        None \<Rightarrow> malformed ''XML not well-formed.''
      | Some None \<Rightarrow> malformed ''missing <request> root.''
      | Some (Some root) \<Rightarrow>
          if node_name root \<noteq> ''request'' then malformed ''missing <request> root.''
          else (case envelope_xml (elements root) (empty_request INPUT_FORMAT_XML, False, False) of
                  None \<Rightarrow> no_operation
                | Some (out, have_audit, have_session) \<Rightarrow> finish_level1 out have_audit have_session))"

definition json_string_of :: "json option \<Rightarrow> cstring option" where
  "json_string_of v = (case v of Some (Json_String s) \<Rightarrow> Some s | _ \<Rightarrow> None)"

definition operation_json :: "json \<Rightarrow> input_c_operation" where
  "operation_json obj =
     \<lparr>io_request = build_payload_json (map_operation_type (json_string_of (json_get obj ''type''))) obj, io_status = no_status\<rparr>"

definition transaction_json :: "json \<Rightarrow> input_c_request \<Rightarrow> input_c_request option" where
  "transaction_json tx out =
     (let tx_name = (case json_string_of (json_get tx ''name'') of None \<Rightarrow> [] | Some s \<Rightarrow> s)
      in if json_items tx ''operations'' = [] then None
         else Some (out\<lparr>ir_transaction_required := flag (json_get tx ''required'' = Some (Json_Number 1)),
           ir_transaction_name := (if tx_name \<noteq> [] then c_strncpy 128 tx_name else ir_transaction_name out),
           ir_operations := map operation_json (json_items tx ''operations'')\<rparr>))"

definition start_json :: "json \<Rightarrow> input_c_request \<times> bool \<times> bool" where
  "start_json root =
     (let audit = json_string_of (json_get root ''external_audit_id'');
          session = json_string_of (json_get root ''session_id'');
          have_audit = audit \<noteq> None \<and> audit \<noteq> Some []
      in ((empty_request INPUT_FORMAT_JSON)
            \<lparr>ir_external_audit_id := (if have_audit then c_strncpy 64 (the audit) else []),
             ir_session_id := (case session of None \<Rightarrow> [] | Some s \<Rightarrow> c_strncpy 64 s)\<rparr>, have_audit, session \<noteq> None))"

definition parse_json :: "json option \<Rightarrow> level1_answer" where
  "parse_json doc =
     (case doc of
        None \<Rightarrow> malformed ''JSON not well-formed.''
      | Some root \<Rightarrow>
          (case start_json root of
             (out, have_audit, have_session) \<Rightarrow>
               (case (case json_get root ''transaction'' of
                        Some (Json_Object ms) \<Rightarrow> transaction_json (Json_Object ms) out
                      | _ \<Rightarrow> Some out) of
                  None \<Rightarrow> no_operation
                | Some out' \<Rightarrow> finish_level1 out' have_audit have_session)))"

subsection \<open>The format of a request\<close>

definition level1_detect_format :: "cstring \<Rightarrow> input_format" where
  "level1_detect_format buf =
     (case dropWhile c_isspace buf of
        [] \<Rightarrow> INPUT_FORMAT_UNKNOWN
      | c # _ \<Rightarrow> if c = CHR ''<'' then INPUT_FORMAT_XML
                 else if c = CHR ''{'' \<or> c = CHR ''['' then INPUT_FORMAT_JSON else INPUT_FORMAT_UNKNOWN)"

lemma prolog_shorter:
  "cs_prefix (c # w) (dropWhile c_isspace s) \<Longrightarrow> length (drop (Suc k) (dropWhile c_isspace s)) < length s"
  using length_dropWhile_le [of c_isspace s] by (cases "dropWhile c_isspace s") (auto simp: cs_prefix_def)

text \<open>Declarations and comments before the root are skipped; one that does not end ends the search.\<close>

function skip_prolog :: "cstring \<Rightarrow> cstring" where
  "skip_prolog s =
     (let p = dropWhile c_isspace s
      in if cs_prefix ''<?xml'' p
         then (case c_strstr p ''?>'' of None \<Rightarrow> p | Some i \<Rightarrow> skip_prolog (drop (i + 2) p))
         else if cs_prefix ''<!--'' p
         then (case c_strstr p ''-->'' of None \<Rightarrow> p | Some i \<Rightarrow> skip_prolog (drop (i + 3) p))
         else p)"
  by pat_completeness auto

termination by (relation "measure length") (auto simp: numeral_2_eq_2 numeral_3_eq_3 intro: prolog_shorter simp del: length_drop)

declare skip_prolog.simps [simp del]

definition level1_looks_like_new_format :: "cstring \<Rightarrow> bool" where
  "level1_looks_like_new_format buf =
     (case level1_detect_format buf of
        INPUT_FORMAT_JSON \<Rightarrow> True
      | INPUT_FORMAT_XML \<Rightarrow> cs_prefix ''<request'' (skip_prolog buf)
      | INPUT_FORMAT_UNKNOWN \<Rightarrow> False)"

text \<open>The readers of the libraries.\<close>

record readers =
  read_xml_memory :: "cstring \<Rightarrow> xml_node option option"
  parse_json_text :: "cstring \<Rightarrow> json option"

definition level1_parse :: "readers \<Rightarrow> cstring \<Rightarrow> level1_answer" where
  "level1_parse rd buf =
     (if buf = [] then level1_error LEVEL1_ERR_EMPTY_INPUT ''LEVEL1_EMPTY_INPUT'' ''empty request body.''
      else (case level1_detect_format buf of
              INPUT_FORMAT_XML \<Rightarrow> parse_xml (read_xml_memory rd buf)
            | INPUT_FORMAT_JSON \<Rightarrow> parse_json (parse_json_text rd buf)
            | INPUT_FORMAT_UNKNOWN \<Rightarrow>
                level1_error LEVEL1_ERR_UNKNOWN_FORMAT ''LEVEL1_UNKNOWN_FORMAT'' ''unrecognised document type.''))"

end
