(* ===== verification/Level1_Texts.thy ===== *)
theory Level1_Texts
  imports Level1_Parser Ddl_Text
begin

text \<open>
  Where the texts of a parsed request end up: \<open>op_texts P I\<close> says that every text of an operation satisfies \<open>P\<close> with
  the size of its array, that every number of a column satisfies \<open>I\<close>, that flags are 0 or 1, and that the lists of bounded
  length keep to it and hold no empty item. Whatever the document was, the result of level 1 fits its arrays.
\<close>

subsection \<open>The texts of an operation\<close>

type_synonym sized = "nat \<Rightarrow> cstring \<Rightarrow> bool"

definition is_flag :: "int \<Rightarrow> bool" where
  "is_flag i \<longleftrightarrow> i = 0 \<or> i = 1"

definition item_list :: "sized \<Rightarrow> nat \<Rightarrow> nat \<Rightarrow> cstring list \<Rightarrow> bool" where
  "item_list P n limit xs \<longleftrightarrow> length xs \<le> limit \<and> (\<forall>x \<in> set xs. x \<noteq> [] \<and> P n x)"

definition select_texts :: "sized \<Rightarrow> select_request \<Rightarrow> bool" where
  "select_texts P r \<longleftrightarrow> P 4096 (sr_sql r) \<and> P 512 (sr_async_call_back_url r) \<and> is_flag (sr_execute_async r)"

definition field_texts :: "sized \<Rightarrow> field_value \<Rightarrow> bool" where
  "field_texts P fv \<longleftrightarrow>
     P 128 (fv_name fv) \<and> P 64 (fv_format fv) \<and>
     (case fv_large fv of
        None \<Rightarrow> P FIELD_VALUE_SIZE (fv_value fv)
      | Some s \<Rightarrow> FIELD_VALUE_SIZE \<le> length s \<and> fv_value fv = c_strncpy FIELD_VALUE_SIZE s \<and> P (length s + 1) s)"

definition key_texts :: "sized \<Rightarrow> where_key \<Rightarrow> bool" where
  "key_texts P k \<longleftrightarrow> P 128 (wk_name k) \<and> P 4096 (wk_value k) \<and> P 64 (wk_format k)"

definition insert_texts :: "sized \<Rightarrow> insert_request \<Rightarrow> bool" where
  "insert_texts P r \<longleftrightarrow> P 128 (ir_table r) \<and> P 128 (ir_owner r) \<and> (\<forall>row \<in> set (ir_rows r). \<forall>fv \<in> set row. field_texts P fv)"

definition update_texts :: "sized \<Rightarrow> update_request \<Rightarrow> bool" where
  "update_texts P r \<longleftrightarrow> P 128 (ur_table r) \<and> P 128 (ur_owner r) \<and> (\<forall>k \<in> set (ur_keys r). key_texts P k) \<and>
     (\<forall>fv \<in> set (ur_fields r). field_texts P fv)"

definition delete_texts :: "sized \<Rightarrow> delete_request \<Rightarrow> bool" where
  "delete_texts P r \<longleftrightarrow> P 128 (dr_table r) \<and> P 128 (dr_owner r) \<and> (\<forall>k \<in> set (dr_keys r). key_texts P k)"

definition procedure_param_texts :: "sized \<Rightarrow> procedure_param \<Rightarrow> bool" where
  "procedure_param_texts P p \<longleftrightarrow> P 128 (pp_name p) \<and> P 32 (pp_type p) \<and> P 4096 (pp_value p)"

definition execute_procedure_texts :: "sized \<Rightarrow> execute_procedure_request \<Rightarrow> bool" where
  "execute_procedure_texts P r \<longleftrightarrow> P 128 (xp_name r) \<and> P 128 (xp_owner r) \<and> (\<forall>p \<in> set (xp_params r). procedure_param_texts P p)"

definition authenticate_texts :: "sized \<Rightarrow> authenticate_request \<Rightarrow> bool" where
  "authenticate_texts P r \<longleftrightarrow> P 128 (aq_username r) \<and> P 256 (aq_credential r)"

definition user_texts :: "sized \<Rightarrow> create_user_request \<Rightarrow> bool" where
  "user_texts P r \<longleftrightarrow>
     P 128 (cu_username r) \<and> P 128 (cu_identified_by r) \<and> P 128 (cu_default_tablespace r) \<and> P 128 (cu_temp_tablespace r) \<and>
     P 32 (cu_quota r) \<and> P 128 (cu_quota_tablespace r) \<and> P 128 (cu_profile r) \<and>
     item_list P 128 MAX_CREATE_USER_ROLES (cu_roles r) \<and>
     (cu_quota r \<noteq> [] \<and> cu_quota_tablespace r = [] \<longrightarrow> cu_default_tablespace r = [])"

definition grant_texts :: "sized \<Rightarrow> grant_request \<Rightarrow> bool" where
  "grant_texts P r \<longleftrightarrow>
     P 128 (gr_grantee r) \<and> P 16 (gr_object_type r) \<and> P 128 (gr_object_name r) \<and> P 128 (gr_owner r) \<and>
     item_list P 32 MAX_GRANT_PRIVILEGES (gr_privileges r) \<and> is_flag (gr_with_grant_option r)"

definition column_texts :: "sized \<Rightarrow> (int \<Rightarrow> bool) \<Rightarrow> column_def \<Rightarrow> bool" where
  "column_texts P I c \<longleftrightarrow> P 128 (cd_name c) \<and> P 16 (cd_type c) \<and> P 128 (cd_default c) \<and>
     I (cd_length c) \<and> I (cd_precision c) \<and> I (cd_scale c) \<and> is_flag (cd_nullable c)"

definition table_texts :: "sized \<Rightarrow> (int \<Rightarrow> bool) \<Rightarrow> create_table_request \<Rightarrow> bool" where
  "table_texts P I r \<longleftrightarrow> P 128 (ct_table r) \<and> P 128 (ct_owner r) \<and> item_list P 128 MAX_PRIMARY_KEY_COLUMNS (ct_key r) \<and>
     length (ct_columns r) \<le> DDL_MAX_TABLE_COLUMNS \<and> (\<forall>c \<in> set (ct_columns r). named_column c \<and> column_texts P I c)"

definition drop_texts :: "sized \<Rightarrow> drop_table_request \<Rightarrow> bool" where
  "drop_texts P r \<longleftrightarrow> P 128 (dt_table r) \<and> P 128 (dt_owner r) \<and> is_flag (dt_cascade_constraints r) \<and> is_flag (dt_purge r) \<and>
     is_flag (dt_confirm r)"

definition view_texts :: "sized \<Rightarrow> create_view_request \<Rightarrow> bool" where
  "view_texts P r \<longleftrightarrow> P 128 (cv_name r) \<and> P 128 (cv_owner r) \<and> P 4000 (cv_query r) \<and> is_flag (cv_replace r) \<and> is_flag (cv_force r) \<and>
     item_list P 128 MAX_VIEW_COLUMNS (cv_columns r)"

definition ddl_param_texts :: "sized \<Rightarrow> ddl_procedure_param \<Rightarrow> bool" where
  "ddl_param_texts P p \<longleftrightarrow> P 128 (dp_name p) \<and> P 16 (dp_type p) \<and> P 8 (dp_mode p) \<and> P 128 (dp_default p)"

definition procedure_texts :: "sized \<Rightarrow> create_procedure_request \<Rightarrow> bool" where
  "procedure_texts P r \<longleftrightarrow> P 128 (cp_name r) \<and> P 128 (cp_owner r) \<and> P PROCEDURE_BODY_LEN (cp_body r) \<and> is_flag (cp_replace r) \<and>
     length (cp_params r) \<le> MAX_PROCEDURE_PARAMETERS \<and> (\<forall>p \<in> set (cp_params r). named_param p \<and> ddl_param_texts P p)"

fun ddl_texts :: "sized \<Rightarrow> (int \<Rightarrow> bool) \<Rightarrow> ddl_request \<Rightarrow> bool" where
  "ddl_texts P I (Ddl_Create_User p) = (\<exists>r. p = Some r \<and> user_texts P r)"
| "ddl_texts P I (Ddl_Grant p) = (\<exists>r. p = Some r \<and> grant_texts P r)"
| "ddl_texts P I (Ddl_Create_Table p) = (\<exists>r. p = Some r \<and> table_texts P I r)"
| "ddl_texts P I (Ddl_Drop_Table p) = (\<exists>r. p = Some r \<and> drop_texts P r)"
| "ddl_texts P I (Ddl_Create_View p) = (\<exists>r. p = Some r \<and> view_texts P r)"
| "ddl_texts P I (Ddl_Create_Procedure p) = (\<exists>r. p = Some r \<and> procedure_texts P r)"

fun op_texts :: "sized \<Rightarrow> (int \<Rightarrow> bool) \<Rightarrow> op_request \<Rightarrow> bool" where
  "op_texts P I (Op_Select p) = (\<exists>r. p = Some r \<and> select_texts P r)"
| "op_texts P I (Op_Insert p) = (\<exists>r. p = Some r \<and> insert_texts P r)"
| "op_texts P I (Op_Update p) = (\<exists>r. p = Some r \<and> update_texts P r)"
| "op_texts P I (Op_Delete p) = (\<exists>r. p = Some r \<and> delete_texts P r)"
| "op_texts P I (Op_Execute_Procedure p) = (\<exists>r. p = Some r \<and> execute_procedure_texts P r)"
| "op_texts P I (Op_Authenticate p) = (\<exists>r. p = Some r \<and> authenticate_texts P r)"
| "op_texts P I (Op_Check_Permission p) = (\<exists>r. p = Some r \<and> P 100 (cq_permission_code r))"
| "op_texts P I (Op_Ddl d) = ddl_texts P I d"
| "op_texts P I (Op_Other t) = True"

definition request_texts :: "sized \<Rightarrow> (int \<Rightarrow> bool) \<Rightarrow> input_c_request \<Rightarrow> bool" where
  "request_texts P I r \<longleftrightarrow>
     ir_version r = ''1.0'' \<and> ir_external_audit_id r \<noteq> [] \<and> length (ir_external_audit_id r) < 64 \<and> length (ir_session_id r) < 64 \<and>
     is_flag (ir_transaction_required r) \<and> ir_transaction_name r \<noteq> [] \<and> length (ir_transaction_name r) < 128 \<and>
     (\<forall>op \<in> set (ir_operations r). io_status op = no_status \<and> op_texts P I (io_request op))"

text \<open>Every text fits its array.\<close>

definition fits :: sized where
  "fits n s \<longleftrightarrow> length s < n"

lemmas texts_defs = select_texts_def field_texts_def key_texts_def insert_texts_def update_texts_def delete_texts_def
  procedure_param_texts_def execute_procedure_texts_def authenticate_texts_def user_texts_def grant_texts_def column_texts_def
  table_texts_def drop_texts_def view_texts_def ddl_param_texts_def procedure_texts_def

subsection \<open>Setters keep what they do not set\<close>

lemma is_flag_flag [simp]: "is_flag (flag b)" "is_flag 0" "is_flag 1"
  by (simp_all add: is_flag_def flag_def)

lemma set_field_value_fits: "field_texts fits fv \<Longrightarrow> field_texts fits (set_field_value s fv)"
  by (simp add: set_field_value_def field_texts_def fits_def)

lemma add_item_list: "item_list P n limit xs \<Longrightarrow> (ok x \<Longrightarrow> x \<noteq> [] \<and> P n x) \<Longrightarrow> item_list P n limit (add_item limit ok xs x)"
  by (auto simp: item_list_def add_item_def)

lemma xml_items_keep: "0 < n \<Longrightarrow> item_list fits n limit xs \<Longrightarrow> item_list fits n limit (xml_items name n limit node xs)"
  unfolding xml_items_def
  by (rule foldl_invariant [where P = "item_list fits n limit"])
    (auto simp: fits_def trim_strncpy_fits intro!: add_item_list split: option.split)

definition string_items :: "nat \<Rightarrow> nat \<Rightarrow> json \<Rightarrow> cstring list" where
  "string_items n limit v =
     foldl (\<lambda>xs item. case item of Json_String s \<Rightarrow> (if s \<noteq> [] then add_item limit (\<lambda>_. True) xs (c_strncpy n s) else xs) | _ \<Rightarrow> xs) []
       (case v of Json_Array xs \<Rightarrow> xs | _ \<Rightarrow> [])"

lemma json_strings_items: "json_strings n limit upd v r = upd (string_items n limit v) r"
  by (simp add: json_strings_def string_items_def)

lemma string_items_list: "1 < n \<Longrightarrow> item_list fits n limit (string_items n limit v)"
  unfolding string_items_def
  by (rule foldl_invariant [where P = "item_list fits n limit"])
    (auto simp: fits_def c_strncpy_def item_list_def add_item_def split: json.split)

lemmas setters = xml_text_def xml_flag_def xml_int_def xml_value_def json_text_def json_trimmed_def json_flag_def json_int_def
  json_value_def json_direction_def json_strings_items

lemma small_sizes: "fits n (trim_inplace (c_strncpy n s))" "fits n (c_strncpy n s)" if "0 < n"
  using that by (simp_all add: fits_def trim_strncpy_fits)

lemma fits_Nil [simp]: "0 < n \<Longrightarrow> fits n []"
  by (simp add: fits_def)

lemma item_list_Nil [simp]: "item_list P n limit []"
  by (simp add: item_list_def)

subsection \<open>The payloads\<close>

lemma select_xml_fits: "select_texts fits (select_xml node)"
  unfolding select_xml_def
  by (rule read_element_invariant) (simp_all add: select_texts_def no_select_def setters small_sizes split: option.split)

lemma select_json_fits: "select_texts fits (select_json obj)"
  unfolding select_json_def
  by (rule read_members_invariant) (simp_all add: select_texts_def no_select_def setters small_sizes split: json.split)

lemma field_xml_fits: "field_texts fits (field_xml node)"
  unfolding field_xml_def
  by (rule read_element_invariant)
    (simp_all add: setters set_field_value_fits split: option.split, simp_all add: field_texts_def no_field_def small_sizes FIELD_VALUE_SIZE_def split: option.splits)

lemma field_json_fits: "field_texts fits (field_json obj)"
  unfolding field_json_def
  by (rule read_members_invariant)
    (simp_all add: setters set_field_value_fits split: json.split, simp_all add: field_texts_def no_field_def small_sizes FIELD_VALUE_SIZE_def split: option.splits)

lemma key_xml_fits: "key_texts fits (key_xml node)"
  unfolding key_xml_def
  by (rule read_element_invariant) (simp_all add: key_texts_def no_key_def setters small_sizes split: option.split)

lemma key_json_fits: "key_texts fits (key_json obj)"
  unfolding key_json_def
  by (rule read_members_invariant) (simp_all add: key_texts_def no_key_def setters small_sizes split: json.split)

lemma procedure_param_xml_fits: "procedure_param_texts fits (procedure_param_xml node)"
  unfolding procedure_param_xml_def
  by (rule read_element_invariant)
    (simp_all add: procedure_param_texts_def no_procedure_param_def setters small_sizes split: option.split)

lemma procedure_param_json_fits: "procedure_param_texts fits (procedure_param_json obj)"
  unfolding procedure_param_json_def
  by (rule read_members_invariant)
    (simp_all add: procedure_param_texts_def no_procedure_param_def setters small_sizes split: json.split)

lemmas parts_fit = field_xml_fits field_json_fits key_xml_fits key_json_fits procedure_param_xml_fits procedure_param_json_fits
  fields_xml_def row_json_def keys_xml_def

lemma insert_xml_fits: "insert_texts fits (insert_xml node)"
proof -
  have "(\<lambda>r. fits 128 (ir_table r) \<and> fits 128 (ir_owner r))
    (read_element
     [(''table_name'', xml_text 128 (\<lambda>s. ir_table_update (\<lambda>_. s))), (''owner'', xml_text 128 (\<lambda>s. ir_owner_update (\<lambda>_. s)))] node
     \<lparr>ir_table = [], ir_owner = [], ir_rows = []\<rparr>)"
    by (rule read_element_invariant) (simp_all add: setters small_sizes split: option.split)
  then show ?thesis
    by (auto simp: insert_xml_def insert_texts_def parts_fit split: option.split)
qed

lemma insert_json_fits: "insert_texts fits (insert_json obj)"
proof -
  have "(\<lambda>r. fits 128 (ir_table r) \<and> fits 128 (ir_owner r))
    (read_members
     [(''table_name'', json_text 128 (\<lambda>s. ir_table_update (\<lambda>_. s))), (''owner'', json_text 128 (\<lambda>s. ir_owner_update (\<lambda>_. s)))] obj
     \<lparr>ir_table = [], ir_owner = [], ir_rows = []\<rparr>)"
    by (rule read_members_invariant) (simp_all add: setters small_sizes split: json.split)
  then show ?thesis
    by (auto simp: insert_json_def insert_texts_def parts_fit split: option.split)
qed

lemma update_xml_fits: "update_texts fits (update_xml node)"
proof -
  have "(\<lambda>r. fits 128 (ur_table r) \<and> fits 128 (ur_owner r))
    (read_element
     [(''table_name'', xml_text 128 (\<lambda>s. ur_table_update (\<lambda>_. s))), (''owner'', xml_text 128 (\<lambda>s. ur_owner_update (\<lambda>_. s)))] node
     \<lparr>ur_table = [], ur_owner = [], ur_keys = [], ur_fields = []\<rparr>)"
    by (rule read_element_invariant) (simp_all add: setters small_sizes split: option.split)
  then show ?thesis
    by (auto simp: update_xml_def update_texts_def parts_fit split: option.split)
qed

lemma update_json_fits: "update_texts fits (update_json obj)"
proof -
  have "(\<lambda>r. fits 128 (ur_table r) \<and> fits 128 (ur_owner r))
    (read_members
     [(''table_name'', json_text 128 (\<lambda>s. ur_table_update (\<lambda>_. s))), (''owner'', json_text 128 (\<lambda>s. ur_owner_update (\<lambda>_. s)))] obj
     \<lparr>ur_table = [], ur_owner = [], ur_keys = [], ur_fields = []\<rparr>)"
    by (rule read_members_invariant) (simp_all add: setters small_sizes split: json.split)
  then show ?thesis
    by (auto simp: update_json_def update_texts_def parts_fit split: option.split)
qed

lemma delete_xml_fits: "delete_texts fits (delete_xml node)"
proof -
  have "(\<lambda>r. fits 128 (dr_table r) \<and> fits 128 (dr_owner r))
    (read_element
     [(''table_name'', xml_text 128 (\<lambda>s. dr_table_update (\<lambda>_. s))), (''owner'', xml_text 128 (\<lambda>s. dr_owner_update (\<lambda>_. s)))] node
     \<lparr>dr_table = [], dr_owner = [], dr_keys = []\<rparr>)"
    by (rule read_element_invariant) (simp_all add: setters small_sizes split: option.split)
  then show ?thesis
    by (auto simp: delete_xml_def delete_texts_def parts_fit split: option.split)
qed

lemma delete_json_fits: "delete_texts fits (delete_json obj)"
proof -
  have "(\<lambda>r. fits 128 (dr_table r) \<and> fits 128 (dr_owner r))
    (read_members
     [(''table_name'', json_text 128 (\<lambda>s. dr_table_update (\<lambda>_. s))), (''owner'', json_text 128 (\<lambda>s. dr_owner_update (\<lambda>_. s)))] obj
     \<lparr>dr_table = [], dr_owner = [], dr_keys = []\<rparr>)"
    by (rule read_members_invariant) (simp_all add: setters small_sizes split: json.split)
  then show ?thesis
    by (auto simp: delete_json_def delete_texts_def parts_fit split: option.split)
qed

lemma execute_procedure_xml_fits: "execute_procedure_texts fits (execute_procedure_xml node)"
proof -
  have "(\<lambda>r. fits 128 (xp_name r) \<and> fits 128 (xp_owner r))
    (read_element
     [(''procedure_name'', xml_text 128 (\<lambda>s. xp_name_update (\<lambda>_. s))), (''owner'', xml_text 128 (\<lambda>s. xp_owner_update (\<lambda>_. s)))] node
     \<lparr>xp_name = [], xp_owner = [], xp_params = []\<rparr>)"
    by (rule read_element_invariant) (simp_all add: setters small_sizes split: option.split)
  then show ?thesis
    by (auto simp: execute_procedure_xml_def execute_procedure_texts_def parts_fit split: option.split)
qed

lemma execute_procedure_json_fits: "execute_procedure_texts fits (execute_procedure_json obj)"
proof -
  have "(\<lambda>r. fits 128 (xp_name r) \<and> fits 128 (xp_owner r))
    (read_members
     [(''procedure_name'', json_text 128 (\<lambda>s. xp_name_update (\<lambda>_. s))), (''owner'', json_text 128 (\<lambda>s. xp_owner_update (\<lambda>_. s)))] obj
     \<lparr>xp_name = [], xp_owner = [], xp_params = []\<rparr>)"
    by (rule read_members_invariant) (simp_all add: setters small_sizes split: json.split)
  then show ?thesis
    by (auto simp: execute_procedure_json_def execute_procedure_texts_def parts_fit split: option.split)
qed

lemma authenticate_xml_fits: "authenticate_texts fits (authenticate_xml node)"
  unfolding authenticate_xml_def
  by (rule read_element_invariant) (simp_all add: authenticate_texts_def setters small_sizes split: option.split)

lemma check_permission_xml_fits: "fits 100 (cq_permission_code (check_permission_xml node))"
  unfolding check_permission_xml_def
  by (rule read_element_invariant [where P = "\<lambda>r. fits 100 (cq_permission_code r)"]) (simp_all add: setters small_sizes split: option.split)

lemma grant_xml_fits: "grant_texts fits (grant_xml node)"
  unfolding grant_xml_def
  by (rule read_element_invariant)
    (simp_all add: grant_texts_def no_grant_def setters small_sizes xml_items_keep string_items_list split: option.split)

lemma drop_table_xml_fits: "drop_texts fits (drop_table_xml node)"
  unfolding drop_table_xml_def
  by (rule read_element_invariant) (simp_all add: drop_texts_def setters small_sizes split: option.split)

lemma create_view_xml_fits: "view_texts fits (create_view_xml node)"
  unfolding create_view_xml_def
  by (rule read_element_invariant)
    (simp_all add: view_texts_def setters small_sizes xml_items_keep string_items_list split: option.split)

lemma authenticate_json_fits: "authenticate_texts fits (authenticate_json obj)"
  unfolding authenticate_json_def
  by (rule read_members_invariant) (simp_all add: authenticate_texts_def setters small_sizes split: json.split)

lemma check_permission_json_fits: "fits 100 (cq_permission_code (check_permission_json obj))"
  unfolding check_permission_json_def
  by (rule read_members_invariant [where P = "\<lambda>r. fits 100 (cq_permission_code r)"]) (simp_all add: setters small_sizes split: json.split)

lemma grant_json_fits: "grant_texts fits (grant_json obj)"
  unfolding grant_json_def
  by (rule read_members_invariant)
    (simp_all add: grant_texts_def no_grant_def setters small_sizes xml_items_keep string_items_list split: json.split)

lemma drop_table_json_fits: "drop_texts fits (drop_table_json obj)"
  unfolding drop_table_json_def
  by (rule read_members_invariant) (simp_all add: drop_texts_def setters small_sizes split: json.split)

lemma create_view_json_fits: "view_texts fits (create_view_json obj)"
  unfolding create_view_json_def
  by (rule read_members_invariant)
    (simp_all add: view_texts_def setters small_sizes xml_items_keep string_items_list split: json.split)

lemma quota_fallback_texts:
  assumes "user_texts fits (r\<lparr>cu_quota := []\<rparr>)" "fits 32 (cu_quota r)"
  shows "user_texts fits (quota_fallback r)"
  using assms by (auto simp: user_texts_def quota_fallback_def small_sizes c_strncpy_def fits_def)

lemma create_user_xml_fits: "user_texts fits (create_user_xml node)"
  unfolding create_user_xml_def
  by (rule quota_fallback_texts; rule read_element_invariant [where P = "\<lambda>r. user_texts fits (r\<lparr>cu_quota := []\<rparr>)"]
        read_element_invariant [where P = "\<lambda>r. fits 32 (cu_quota r)"])
    (simp_all add: user_texts_def no_user_def setters small_sizes xml_items_keep split: option.split)

lemma create_user_json_fits: "user_texts fits (create_user_json obj)"
  unfolding create_user_json_def
  by (rule quota_fallback_texts; rule read_members_invariant [where P = "\<lambda>r. user_texts fits (r\<lparr>cu_quota := []\<rparr>)"]
        read_members_invariant [where P = "\<lambda>r. fits 32 (cu_quota r)"])
    (simp_all add: user_texts_def no_user_def setters small_sizes string_items_list split: json.split)

abbreviation any_int :: "int \<Rightarrow> bool" where
  "any_int \<equiv> \<lambda>_. True"

lemma column_xml_fits: "column_texts fits any_int (column_xml node)"
  unfolding column_xml_def
  by (rule read_element_invariant) (simp_all add: column_texts_def no_column_def setters small_sizes split: option.split)

lemma column_json_fits: "column_texts fits any_int (column_json obj)"
  unfolding column_json_def
  by (rule read_members_invariant) (simp_all add: column_texts_def no_column_def setters small_sizes split: json.split)

definition column_list :: "column_def list \<Rightarrow> bool" where
  "column_list cols \<longleftrightarrow>
     length cols \<le> DDL_MAX_TABLE_COLUMNS \<and> (\<forall>c \<in> set cols. named_column c \<and> column_texts fits any_int c)"

lemma columns_xml_keep: "column_list cols \<Longrightarrow> column_list (columns_xml node cols)"
  unfolding columns_xml_def
  by (rule foldl_invariant [where P = column_list]) (auto simp: column_list_def add_item_def column_xml_fits)

lemma columns_json_list: "column_list (columns_json items)"
  unfolding columns_json_def
  by (rule foldl_invariant [where P = column_list]) (auto simp: column_list_def add_item_def column_json_fits)

lemma table_texts_columns: "table_texts fits any_int r \<longleftrightarrow>
    fits 128 (ct_table r) \<and> fits 128 (ct_owner r) \<and> item_list fits 128 MAX_PRIMARY_KEY_COLUMNS (ct_key r) \<and> column_list (ct_columns r)"
  by (auto simp: table_texts_def column_list_def)

lemma create_table_xml_fits: "table_texts fits any_int (create_table_xml node)"
  unfolding create_table_xml_def
  by (rule read_element_invariant)
    (simp_all add: table_texts_columns setters small_sizes xml_items_keep columns_xml_keep split: option.split, simp_all add: column_list_def)

lemma create_table_json_fits: "table_texts fits any_int (create_table_json obj)"
proof -
  have "(\<lambda>r. fits 128 (ct_table r) \<and> fits 128 (ct_owner r) \<and> item_list fits 128 MAX_PRIMARY_KEY_COLUMNS (ct_key r))
    (read_members
     [(''table_name'', json_text 128 (\<lambda>s. ct_table_update (\<lambda>_. s))), (''owner'', json_text 128 (\<lambda>s. ct_owner_update (\<lambda>_. s))),
      (''primary_key'', json_strings 128 MAX_PRIMARY_KEY_COLUMNS (\<lambda>xs. ct_key_update (\<lambda>_. xs)))] obj
     \<lparr>ct_table = [], ct_owner = [], ct_columns = [], ct_key = []\<rparr>)"
    by (rule read_members_invariant) (simp_all add: setters small_sizes string_items_list split: json.split)
  then show ?thesis by (simp add: create_table_json_def table_texts_columns columns_json_list)
qed

lemma fits_IN: "fits 8 ''IN''"
  by (simp add: fits_def)

lemma ddl_param_xml_fits: "ddl_param_texts fits (ddl_param_xml node)"
  unfolding ddl_param_xml_def
  by (rule read_element_invariant) (simp_all add: ddl_param_texts_def no_ddl_param_def setters small_sizes fits_IN split: option.split)

lemma ddl_param_json_fits: "ddl_param_texts fits (ddl_param_json obj)"
  unfolding ddl_param_json_def
  by (rule read_members_invariant) (simp_all add: ddl_param_texts_def no_ddl_param_def setters small_sizes fits_IN split: json.split)

definition param_list :: "ddl_procedure_param list \<Rightarrow> bool" where
  "param_list ps \<longleftrightarrow> length ps \<le> MAX_PROCEDURE_PARAMETERS \<and> (\<forall>p \<in> set ps. named_param p \<and> ddl_param_texts fits p)"

lemma ddl_params_xml_keep: "param_list ps \<Longrightarrow> param_list (ddl_params_xml node ps)"
  unfolding ddl_params_xml_def
  by (rule foldl_invariant [where P = param_list]) (auto simp: param_list_def add_item_def ddl_param_xml_fits)

lemma ddl_params_json_list: "param_list (ddl_params_json items)"
  unfolding ddl_params_json_def
  by (rule foldl_invariant [where P = param_list]) (auto simp: param_list_def add_item_def ddl_param_json_fits)

lemma procedure_texts_params: "procedure_texts fits r \<longleftrightarrow>
    fits 128 (cp_name r) \<and> fits 128 (cp_owner r) \<and> fits PROCEDURE_BODY_LEN (cp_body r) \<and> is_flag (cp_replace r) \<and> param_list (cp_params r)"
  by (auto simp: procedure_texts_def param_list_def)

lemma body_size: "0 < PROCEDURE_BODY_LEN"
  by (simp add: PROCEDURE_BODY_LEN_def)

lemma create_procedure_xml_fits: "procedure_texts fits (create_procedure_xml node)"
  unfolding create_procedure_xml_def
  by (rule read_element_invariant)
    (simp_all add: procedure_texts_params setters small_sizes body_size ddl_params_xml_keep split: option.split, simp_all add: param_list_def)

lemma create_procedure_json_fits: "procedure_texts fits (create_procedure_json obj)"
proof -
  have "(\<lambda>r. fits 128 (cp_name r) \<and> fits 128 (cp_owner r) \<and> fits PROCEDURE_BODY_LEN (cp_body r) \<and> is_flag (cp_replace r))
    (read_members
     [(''procedure_name'', json_text 128 (\<lambda>s. cp_name_update (\<lambda>_. s))), (''owner'', json_text 128 (\<lambda>s. cp_owner_update (\<lambda>_. s))),
      (''replace'', json_flag (\<lambda>b. cp_replace_update (\<lambda>_. b))),
      (''body'', json_text PROCEDURE_BODY_LEN (\<lambda>s. cp_body_update (\<lambda>_. s)))] obj
     \<lparr>cp_name = [], cp_owner = [], cp_replace = 0, cp_params = [], cp_body = []\<rparr>)"
    by (rule read_members_invariant) (simp_all add: setters small_sizes body_size split: json.split)
  then show ?thesis by (simp add: create_procedure_json_def procedure_texts_params ddl_params_json_list)
qed

lemma payload_xml_fits: "op_texts fits any_int (build_payload_xml t node)"
  by (cases t)
    (simp_all add: select_xml_fits insert_xml_fits update_xml_fits delete_xml_fits execute_procedure_xml_fits authenticate_xml_fits
      check_permission_xml_fits create_user_xml_fits grant_xml_fits create_table_xml_fits drop_table_xml_fits create_view_xml_fits
      create_procedure_xml_fits)

lemma payload_json_fits: "op_texts fits any_int (build_payload_json t obj)"
  by (cases t)
    (simp_all add: select_json_fits insert_json_fits update_json_fits delete_json_fits execute_procedure_json_fits authenticate_json_fits
      check_permission_json_fits create_user_json_fits grant_json_fits create_table_json_fits drop_table_json_fits
      create_view_json_fits create_procedure_json_fits)

subsection \<open>The request\<close>

text \<open>What the envelope leaves when it has been read, but for the version and the audit id.\<close>

definition envelope_fits :: "input_c_request \<Rightarrow> bool \<Rightarrow> bool" where
  "envelope_fits r have_audit \<longleftrightarrow>
     (have_audit \<longrightarrow> ir_external_audit_id r \<noteq> []) \<and> length (ir_external_audit_id r) < 64 \<and> length (ir_session_id r) < 64 \<and>
     is_flag (ir_transaction_required r) \<and> ir_transaction_name r \<noteq> [] \<and> length (ir_transaction_name r) < 128 \<and>
     (\<forall>op \<in> set (ir_operations r). io_status op = no_status \<and> op_texts fits any_int (io_request op))"

lemma no_tx_name: "NO_TX_NAME \<noteq> []" "length NO_TX_NAME < 128"
  by (simp_all add: NO_TX_NAME_def)

lemma empty_envelope: "envelope_fits (empty_request fmt) False"
  by (simp add: envelope_fits_def empty_request_def no_tx_name)

lemma c_strncpy_Nil: "1 < n \<Longrightarrow> c_strncpy n s = [] \<longleftrightarrow> s = []"
  by (auto simp: c_strncpy_def)

lemma transaction_xml_fits: "envelope_fits r h \<Longrightarrow> transaction_xml node r = Some r' \<Longrightarrow> envelope_fits r' h"
  by (auto simp: envelope_fits_def transaction_xml_def Let_def operation_xml_def payload_xml_fits no_tx_name c_strncpy_Nil split: if_splits)

lemma transaction_json_fits: "envelope_fits r h \<Longrightarrow> transaction_json node r = Some r' \<Longrightarrow> envelope_fits r' h"
  by (auto simp: envelope_fits_def transaction_json_def Let_def operation_json_def payload_json_fits c_strncpy_Nil split: if_splits)

lemma envelope_xml_fits:
  "envelope_xml nodes (r, ha, hs) = Some (r', ha', hs') \<Longrightarrow> envelope_fits r ha \<Longrightarrow> envelope_fits r' ha'"
proof (induction nodes "(r, ha, hs)" arbitrary: r ha hs rule: envelope_xml.induct)
  case (2 node nodes out have_audit have_session)
  show ?case
  proof (cases "node_name node = ''transaction''")
    case True
    with 2 show ?thesis using transaction_xml_fits by (fastforce split: option.splits)
  next
    case False
    with 2 show ?thesis
      by (auto simp: envelope_fits_def c_strncpy_Nil split: if_splits option.splits)
  qed
qed simp

lemma finish_level1_fits: "envelope_fits r ha \<Longrightarrow> finish_level1 r ha hs = Inr r' \<Longrightarrow> request_texts fits any_int r'"
  by (auto simp: envelope_fits_def finish_level1_def request_texts_def missing_field_def level1_error_def split: if_splits)

lemma parse_xml_fits: "parse_xml doc = Inr r \<Longrightarrow> request_texts fits any_int r"
  by (auto simp: parse_xml_def malformed_def no_operation_def missing_field_def level1_error_def
      intro: finish_level1_fits dest!: envelope_xml_fits [OF _ empty_envelope] split: option.splits if_splits prod.splits)

lemma start_json_fits: "start_json root = (out, ha, hs) \<Longrightarrow> envelope_fits out ha"
  by (auto simp: start_json_def Let_def envelope_fits_def empty_request_def no_tx_name c_strncpy_Nil split: option.splits)

lemma parse_json_fits: "parse_json doc = Inr r \<Longrightarrow> request_texts fits any_int r"
  by (auto simp: parse_json_def malformed_def no_operation_def missing_field_def level1_error_def
      intro: finish_level1_fits dest!: start_json_fits dest: transaction_json_fits split: option.splits json.splits prod.splits)

subsection \<open>What the later stages get\<close>

text \<open>The texts of the schema operations fit as \<open>Ddl_Text\<close> needs it.\<close>

lemma texts_fit_ddl:
  "grant_texts fits g \<Longrightarrow> grant_fits g" "drop_texts fits d \<Longrightarrow> drop_fits d" "user_texts fits u \<Longrightarrow> user_fits u"
  "view_texts fits v \<Longrightarrow> view_fits v" "table_texts fits any_int t \<Longrightarrow> table_fits t" "procedure_texts fits p \<Longrightarrow> procedure_fits p"
  by (auto simp: grant_texts_def grant_fits_def drop_texts_def drop_fits_def user_texts_def user_fits_def view_texts_def view_fits_def
      table_texts_def table_fits_def procedure_texts_def procedure_fits_def column_texts_def ddl_param_texts_def item_list_def fits_def
      identifier_fits_def)

text \<open>C10. Whatever the document is, in XML or in JSON: when level 1 accepts it, every text of the request fits the array it is
  stored in, the lists of bounded length keep their limits and hold no empty item, flags are 0 or 1, there is an audit id and a
  transaction name, and every operation has the payload of its type.\<close>

theorem level1_fits:
  assumes "level1_parse rd buf = Inr req"
  shows "request_texts fits any_int req"
  using assms parse_xml_fits parse_json_fits
  by (auto simp: level1_parse_def level1_error_def split: if_splits input_format.splits)

definition long_document :: json where
  "long_document = Json_Object
     [(''external_audit_id'', Json_String ''A1''), (''session_id'', Json_String ''-''),
      (''transaction'', Json_Object [(''operations'', Json_Array [Json_Object
         [(''type'', Json_String ''check_permission''), (''permission_code'', Json_String (replicate 120 (CHR ''x'')))]])])]"

definition one_document :: readers where
  "one_document = \<lparr>read_xml_memory = (\<lambda>_. None), parse_json_text = (\<lambda>_. Some long_document)\<rparr>"

definition long_request :: input_c_request where
  "long_request = (empty_request INPUT_FORMAT_JSON)
     \<lparr>ir_version := ''1.0'', ir_external_audit_id := ''A1'', ir_session_id := ''-'', ir_operations :=
       [\<lparr>io_request = Op_Check_Permission (Some \<lparr>cq_permission_code = replicate 99 (CHR ''x'')\<rparr>), io_status = no_status\<rparr>]\<rparr>"

lemma long_parsed: "level1_parse one_document ''{ }'' = Inr long_request"
  by code_simp

lemma level1_fits_witness: "request_texts fits any_int long_request"
  by (rule level1_fits [OF long_parsed])

end
