(* ===== verification/Level1_Roundtrip.thy ===== *)
theory Level1_Roundtrip
  imports Level1_Texts
begin

text \<open>
  A request written as an XML document and as a JSON document. Both parsers give the request back, so that the two formats
  of \<open>Level1_Parser\<close> mean the same; and where they differ when a document is not written in this way.
\<close>

subsection \<open>Writing a request as XML\<close>

definition leaf :: "cstring \<Rightarrow> cstring \<Rightarrow> xml_node" where
  "leaf name s = Xml_Node True name [] (Some s) []"

definition group :: "cstring \<Rightarrow> xml_node list \<Rightarrow> xml_node" where
  "group name nodes = Xml_Node True name [] None nodes"

definition leaf_int :: "cstring \<Rightarrow> int \<Rightarrow> xml_node" where
  "leaf_int name i = leaf name (dec_int i)"

definition field_nodes :: "field_value \<Rightarrow> xml_node" where
  "field_nodes fv = group ''field''
     [leaf ''field_name'' (fv_name fv), leaf ''value'' (field_value_get fv), leaf ''client_date_format'' (fv_format fv)]"

definition key_nodes :: "where_key \<Rightarrow> xml_node" where
  "key_nodes k = group ''key''
     [leaf ''field_name'' (wk_name k), leaf ''key_value'' (wk_value k), leaf ''client_date_format'' (wk_format k)]"

fun direction_name :: "param_direction \<Rightarrow> cstring" where
  "direction_name PARAM_DIR_IN = ''IN''"
| "direction_name PARAM_DIR_OUT = ''OUT''"
| "direction_name PARAM_DIR_IN_OUT = ''IN_OUT''"

definition param_nodes :: "procedure_param \<Rightarrow> xml_node" where
  "param_nodes p = group ''parameter''
     [leaf ''param_name'' (pp_name p), leaf ''param_type'' (pp_type p), leaf ''param_direction'' (direction_name (pp_direction p)),
      leaf ''param_value'' (pp_value p)]"

definition column_nodes :: "column_def \<Rightarrow> xml_node" where
  "column_nodes c = group ''column''
     [leaf ''name'' (cd_name c), leaf ''data_type'' (cd_type c), leaf_int ''length'' (cd_length c),
      leaf_int ''precision'' (cd_precision c), leaf_int ''scale'' (cd_scale c), leaf_int ''nullable'' (cd_nullable c),
      leaf ''default_value'' (cd_default c)]"

definition ddl_param_nodes :: "ddl_procedure_param \<Rightarrow> xml_node" where
  "ddl_param_nodes p = group ''parameter''
     [leaf ''name'' (dp_name p), leaf ''data_type'' (dp_type p), leaf ''mode'' (dp_mode p), leaf ''default_value'' (dp_default p)]"

fun ddl_nodes :: "ddl_request \<Rightarrow> cstring \<times> xml_node list" where
  "ddl_nodes (Ddl_Create_User (Some r)) = (''CREATE_USER'',
     [leaf ''username'' (cu_username r), leaf ''identified_by'' (cu_identified_by r),
      leaf ''default_tablespace'' (cu_default_tablespace r), leaf ''temp_tablespace'' (cu_temp_tablespace r),
      leaf ''quota'' (cu_quota r), leaf ''quota_tablespace'' (cu_quota_tablespace r), leaf ''profile'' (cu_profile r),
      group ''roles'' (map (leaf ''role'') (cu_roles r))])"
| "ddl_nodes (Ddl_Grant (Some r)) = (''GRANT'',
     [leaf ''grantee'' (gr_grantee r), leaf ''object_type'' (gr_object_type r), leaf ''object_name'' (gr_object_name r),
      leaf ''owner'' (gr_owner r), leaf_int ''with_grant_option'' (gr_with_grant_option r),
      group ''privileges'' (map (leaf ''privilege'') (gr_privileges r))])"
| "ddl_nodes (Ddl_Create_Table (Some r)) = (''CREATE_TABLE'',
     [leaf ''table_name'' (ct_table r), leaf ''owner'' (ct_owner r), group ''columns'' (map column_nodes (ct_columns r)),
      group ''primary_key'' (map (leaf ''column'') (ct_key r))])"
| "ddl_nodes (Ddl_Drop_Table (Some r)) = (''DROP_TABLE'',
     [leaf ''table_name'' (dt_table r), leaf ''owner'' (dt_owner r), leaf_int ''cascade_constraints'' (dt_cascade_constraints r),
      leaf_int ''purge'' (dt_purge r), leaf_int ''confirm'' (dt_confirm r)])"
| "ddl_nodes (Ddl_Create_View (Some r)) = (''CREATE_VIEW'',
     [leaf ''view_name'' (cv_name r), leaf ''owner'' (cv_owner r), leaf_int ''replace'' (cv_replace r), leaf_int ''force'' (cv_force r),
      leaf ''query'' (cv_query r), group ''columns'' (map (leaf ''column'') (cv_columns r))])"
| "ddl_nodes (Ddl_Create_Procedure (Some r)) = (''CREATE_PROCEDURE'',
     [leaf ''procedure_name'' (cp_name r), leaf ''owner'' (cp_owner r), leaf_int ''replace'' (cp_replace r), leaf ''body'' (cp_body r),
      group ''parameters'' (map ddl_param_nodes (cp_params r))])"
| "ddl_nodes _ = ([], [])"

fun other_name :: "other_type \<Rightarrow> cstring" where
  "other_name OP_UNKNOWN = ''?''"
| "other_name OP_GET_TEMPLATE = ''GET_TEMPLATE''"
| "other_name OP_CREATE_SESSION = ''CREATE_SESSION''"
| "other_name OP_END_SESSION = ''END_SESSION''"

fun op_nodes :: "op_request \<Rightarrow> cstring \<times> xml_node list" where
  "op_nodes (Op_Select (Some r)) = (''SELECT'',
     [leaf ''sql'' (sr_sql r), leaf_int ''execute_async'' (sr_execute_async r), leaf ''async_call_back_url'' (sr_async_call_back_url r)])"
| "op_nodes (Op_Insert (Some r)) = (''INSERT'',
     leaf ''table_name'' (ir_table r) # leaf ''owner'' (ir_owner r) # map (\<lambda>row. group ''row'' (map field_nodes row)) (ir_rows r))"
| "op_nodes (Op_Update (Some r)) = (''UPDATE'',
     [leaf ''table_name'' (ur_table r), leaf ''owner'' (ur_owner r), group ''where'' (map key_nodes (ur_keys r)),
      group ''set'' (map field_nodes (ur_fields r))])"
| "op_nodes (Op_Delete (Some r)) = (''DELETE'',
     [leaf ''table_name'' (dr_table r), leaf ''owner'' (dr_owner r), group ''where'' (map key_nodes (dr_keys r))])"
| "op_nodes (Op_Execute_Procedure (Some r)) = (''EXECUTE_PROCEDURE'',
     [leaf ''procedure_name'' (xp_name r), leaf ''owner'' (xp_owner r), group ''parameters'' (map param_nodes (xp_params r))])"
| "op_nodes (Op_Authenticate (Some r)) = (''AUTHENTICATE'', [leaf ''username'' (aq_username r), leaf ''credential'' (aq_credential r)])"
| "op_nodes (Op_Check_Permission (Some r)) = (''CHECK_PERMISSION'', [leaf ''permission_code'' (cq_permission_code r)])"
| "op_nodes (Op_Ddl d) = ddl_nodes d"
| "op_nodes (Op_Other t) = (other_name t, [])"
| "op_nodes _ = ([], [])"

definition op_element :: "op_request \<Rightarrow> xml_node" where
  "op_element op = Xml_Node True ''operation'' [(''type'', fst (op_nodes op))] None (snd (op_nodes op))"

definition request_xml :: "input_c_request \<Rightarrow> xml_node" where
  "request_xml r = group ''request''
     [leaf ''external_audit_id'' (ir_external_audit_id r), leaf ''session_id'' (ir_session_id r),
      Xml_Node True ''transaction''
        [(''required'', dec_int (ir_transaction_required r)), (''name'', ir_transaction_name r)] None
        (map (op_element \<circ> io_request) (ir_operations r))]"

subsection \<open>Reading it back\<close>

definition clean :: sized where
  "clean n s \<longleftrightarrow> length s < n \<and> trim_inplace s = s"

definition int32 :: "int \<Rightarrow> bool" where
  "int32 i \<longleftrightarrow> - (2 ^ 31) \<le> i \<and> i < 2 ^ 31"

lemma leaf_simps [simp]:
  "is_element (leaf n s)" "node_name (leaf n s) = n" "node_content (leaf n s) = Some s"
  "is_element (leaf_int n i)" "node_name (leaf_int n i) = n" "node_content (leaf_int n i) = Some (dec_int i)"
  "is_element (group n ns)" "node_name (group n ns) = n" "node_children (group n ns) = ns"
  by (simp_all add: leaf_def leaf_int_def group_def)

lemma atoi_flag: "is_flag i \<Longrightarrow> flag (c_atoi (dec_int i) \<noteq> 0) = i"
  by (auto simp: is_flag_def flag_def c_atoi_dec_int)

lemma atoi_int32: "int32 i \<Longrightarrow> c_atoi (dec_int i) = i"
  by (simp add: int32_def c_atoi_dec_int)

lemma flag_id: "is_flag i \<Longrightarrow> flag (i \<noteq> 0) = i"
  by (auto simp: is_flag_def flag_def)

lemma read_group: "read_element table (group n nodes) init =
   foldl (\<lambda>r child. case map_of table (node_name child) of None \<Rightarrow> r | Some f \<Rightarrow> f child r) init (filter is_element nodes)"
  by (simp add: read_element_def elements_def)

lemmas xml_read = read_element_def elements_def xml_text_def xml_flag_def xml_int_def clean_def atoi_flag atoi_int32

lemma key_back: "key_texts clean k \<Longrightarrow> key_xml (key_nodes k) = k"
  by (cases k) (simp add: key_xml_def key_nodes_def key_texts_def xml_read no_key_def)

lemma direction_back: "parse_direction_l1 (direction_name d) = d"
  by (induction d; code_simp)

lemma direction_clean: "length (direction_name d) < 32 \<and> trim_inplace (direction_name d) = direction_name d"
  by (induction d; code_simp)

lemma param_back: "procedure_param_texts clean p \<Longrightarrow> procedure_param_xml (param_nodes p) = p"
  by (cases p)
    (simp add: procedure_param_xml_def param_nodes_def procedure_param_texts_def xml_read no_procedure_param_def direction_back direction_clean)

lemma column_back: "column_texts clean int32 c \<Longrightarrow> column_xml (column_nodes c) = c"
  by (cases c) (simp add: column_xml_def column_nodes_def column_texts_def xml_read no_column_def)

lemma ddl_param_back: "ddl_param_texts clean p \<Longrightarrow> ddl_param_xml (ddl_param_nodes p) = p"
  by (cases p) (simp add: ddl_param_xml_def ddl_param_nodes_def ddl_param_texts_def xml_read no_ddl_param_def)

lemma value_trimmed: "field_texts clean fv \<Longrightarrow> trim_inplace (field_value_get fv) = field_value_get fv"
  by (auto simp: field_texts_def clean_def field_value_get_def split: option.splits)

lemma set_value_back:
  "field_texts clean fv \<Longrightarrow>
     set_field_value (field_value_get fv) r = r\<lparr>fv_value := fv_value fv, fv_large := fv_large fv\<rparr>"
  by (auto simp: field_texts_def set_field_value_def field_value_get_def clean_def split: option.splits)

lemma field_back: "field_texts clean fv \<Longrightarrow> field_xml (field_nodes fv) = fv"
  using value_trimmed [of fv] set_value_back [of fv]
  by (cases fv) (simp add: field_xml_def field_nodes_def xml_read no_field_def xml_value_def, simp add: field_texts_def clean_def)

lemma named_map: "(\<And>x. node_name (f x) = n \<and> is_element (f x)) \<Longrightarrow> xml_named n (group m (map f xs)) = map f xs"
  by (simp add: xml_named_def elements_def filter_id_conv)

lemma nodes_named [simp]:
  "node_name (field_nodes fv) = ''field'' \<and> is_element (field_nodes fv)"
  "node_name (key_nodes k) = ''key'' \<and> is_element (key_nodes k)"
  "node_name (param_nodes p) = ''parameter'' \<and> is_element (param_nodes p)"
  "node_name (column_nodes c) = ''column'' \<and> is_element (column_nodes c)"
  "node_name (ddl_param_nodes q) = ''parameter'' \<and> is_element (ddl_param_nodes q)"
  by (simp_all add: field_nodes_def key_nodes_def param_nodes_def column_nodes_def ddl_param_nodes_def)

text \<open>Items, columns and parameters of a list that keeps its limit.\<close>

lemma add_items:
  "length (xs @ ys) \<le> limit \<Longrightarrow> \<forall>y \<in> set ys. ok y \<Longrightarrow> foldl (add_item limit ok) xs ys = xs @ ys"
  by (induction ys arbitrary: xs) (auto simp: add_item_def)

lemma items_back: "item_list clean n limit xs \<Longrightarrow> xml_items name n limit (group m (map (leaf name) xs)) [] = xs"
proof -
  assume a: "item_list clean n limit xs"
  have "xml_items name n limit (group m (map (leaf name) xs)) [] = foldl (add_item limit (\<lambda>x. x \<noteq> [])) [] xs"
    unfolding xml_items_def named_map [of "leaf name" name m xs, simplified] foldl_map
    by (rule foldl_cong) (use a in \<open>auto simp: item_list_def clean_def\<close>)
  with a show ?thesis using add_items [of "[]" xs limit "\<lambda>x. x \<noteq> []"] by (simp add: item_list_def)
qed

lemma columns_back:
  assumes "length cs \<le> DDL_MAX_TABLE_COLUMNS" "\<forall>c \<in> set cs. named_column c \<and> column_texts clean int32 c"
  shows "columns_xml (group m (map column_nodes cs)) [] = cs"
proof -
  have "columns_xml (group m (map column_nodes cs)) [] = foldl (add_item DDL_MAX_TABLE_COLUMNS named_column) [] cs"
    unfolding columns_xml_def named_map [of column_nodes "''column''" m cs, simplified] foldl_map
    by (rule foldl_cong) (use assms in \<open>auto simp: column_back\<close>)
  with assms show ?thesis using add_items [of "[]" cs DDL_MAX_TABLE_COLUMNS named_column] by simp
qed

lemma ddl_params_back:
  assumes "length ps \<le> MAX_PROCEDURE_PARAMETERS" "\<forall>p \<in> set ps. named_param p \<and> ddl_param_texts clean p"
  shows "ddl_params_xml (group m (map ddl_param_nodes ps)) [] = ps"
proof -
  have "ddl_params_xml (group m (map ddl_param_nodes ps)) [] = foldl (add_item MAX_PROCEDURE_PARAMETERS named_param) [] ps"
    unfolding ddl_params_xml_def named_map [of ddl_param_nodes "''parameter''" m ps, simplified] foldl_map
    by (rule foldl_cong) (use assms in \<open>auto simp: ddl_param_back\<close>)
  with assms show ?thesis using add_items [of "[]" ps MAX_PROCEDURE_PARAMETERS named_param] by simp
qed

text \<open>The payloads. An operation element is a group but for its attribute.\<close>

definition op_group :: "cstring \<Rightarrow> xml_node list \<Rightarrow> xml_node" where
  "op_group type nodes = Xml_Node True ''operation'' [(''type'', type)] None nodes"

lemma op_group_elements: "elements (op_group ty ns) = filter is_element ns" "node_attributes (op_group ty ns) = [(''type'', ty)]"
    "node_name (op_group ty ns) = ''operation''" "is_element (op_group ty ns)"
  by (simp_all add: op_group_def elements_def)

lemmas reading_back = op_group_elements read_element_def xml_text_def xml_flag_def xml_int_def clean_def atoi_flag items_back columns_back
  ddl_params_back

lemma select_back: "select_texts clean r \<Longrightarrow> select_xml (op_group ty (snd (op_nodes (Op_Select (Some r))))) = r"
  by (cases r) (simp add: select_xml_def select_texts_def no_select_def reading_back)

lemma grant_back: "grant_texts clean r \<Longrightarrow> grant_xml (op_group ty (snd (ddl_nodes (Ddl_Grant (Some r))))) = r"
  by (cases r) (simp add: grant_xml_def grant_texts_def no_grant_def reading_back)

lemma user_back: "user_texts clean r \<Longrightarrow> create_user_xml (op_group ty (snd (ddl_nodes (Ddl_Create_User (Some r))))) = r"
  by (cases r) (auto simp: create_user_xml_def user_texts_def no_user_def quota_fallback_def reading_back)

lemma table_back: "table_texts clean int32 r \<Longrightarrow> create_table_xml (op_group ty (snd (ddl_nodes (Ddl_Create_Table (Some r))))) = r"
  by (cases r) (simp add: create_table_xml_def table_texts_def reading_back column_nodes_def)

lemma drop_back: "drop_texts clean r \<Longrightarrow> drop_table_xml (op_group ty (snd (ddl_nodes (Ddl_Drop_Table (Some r))))) = r"
  by (cases r) (simp add: drop_table_xml_def drop_texts_def reading_back)

lemma view_back: "view_texts clean r \<Longrightarrow> create_view_xml (op_group ty (snd (ddl_nodes (Ddl_Create_View (Some r))))) = r"
  by (cases r) (simp add: create_view_xml_def view_texts_def reading_back)

lemma procedure_back: "procedure_texts clean r \<Longrightarrow> create_procedure_xml (op_group ty (snd (ddl_nodes (Ddl_Create_Procedure (Some r))))) = r"
  by (cases r) (simp add: create_procedure_xml_def procedure_texts_def reading_back)

lemma authenticate_back: "authenticate_texts clean r \<Longrightarrow> authenticate_xml (op_group ty (snd (op_nodes (Op_Authenticate (Some r))))) = r"
  by (cases r) (simp add: authenticate_xml_def authenticate_texts_def reading_back)

lemma check_back: "clean 100 (cq_permission_code r) \<Longrightarrow>
    check_permission_xml (op_group ty (snd (op_nodes (Op_Check_Permission (Some r))))) = r"
  by (cases r) (simp add: check_permission_xml_def reading_back)

lemma keys_back: "\<forall>k \<in> set ks. key_texts clean k \<Longrightarrow> keys_xml (Some (group m (map key_nodes ks))) = ks"
  by (simp add: keys_xml_def named_map key_back map_idI)

lemma fields_back: "\<forall>fv \<in> set fs. field_texts clean fv \<Longrightarrow> fields_xml (group m (map field_nodes fs)) = fs"
  by (simp add: fields_xml_def named_map field_back map_idI)

lemma delete_back: "delete_texts clean r \<Longrightarrow> delete_xml (op_group ty (snd (op_nodes (Op_Delete (Some r))))) = r"
  by (cases r) (simp add: delete_xml_def delete_texts_def last_named_def xml_named_def reading_back keys_back)

lemma update_back: "update_texts clean r \<Longrightarrow> update_xml (op_group ty (snd (op_nodes (Op_Update (Some r))))) = r"
  by (cases r) (simp add: update_xml_def update_texts_def last_named_def xml_named_def reading_back keys_back fields_back)

lemma execute_back: "execute_procedure_texts clean r \<Longrightarrow>
    execute_procedure_xml (op_group ty (snd (op_nodes (Op_Execute_Procedure (Some r))))) = r"
  by (cases r) (simp add: execute_procedure_xml_def execute_procedure_texts_def last_named_def
    named_map [of param_nodes "''parameter''", simplified] xml_named_def [of "''parameters''"] reading_back param_back map_idI)

lemma foldl_ignored: "\<forall>x \<in> set xs. \<forall>r. f r x = r \<Longrightarrow> foldl f init xs = init"
  by (induction xs) auto

lemma insert_back: "insert_texts clean r \<Longrightarrow> insert_xml (op_group ty (snd (op_nodes (Op_Insert (Some r))))) = r"
  by (cases r)
    (simp add: insert_xml_def insert_texts_def xml_named_def [of "''row''"] reading_back filter_id_conv fields_back map_idI foldl_ignored)

definition kind_of :: "op_request \<Rightarrow> operation_type" where
  "kind_of op =
     (case op of Op_Select _ \<Rightarrow> OP_SELECT | Op_Insert _ \<Rightarrow> OP_INSERT | Op_Update _ \<Rightarrow> OP_UPDATE | Op_Delete _ \<Rightarrow> OP_DELETE
      | Op_Execute_Procedure _ \<Rightarrow> OP_EXECUTE_PROCEDURE | Op_Authenticate _ \<Rightarrow> OP_AUTHENTICATE
      | Op_Check_Permission _ \<Rightarrow> OP_CHECK_PERMISSION
      | Op_Ddl d \<Rightarrow> (case d of Ddl_Create_User _ \<Rightarrow> OP_CREATE_USER | Ddl_Grant _ \<Rightarrow> OP_GRANT | Ddl_Create_Table _ \<Rightarrow> OP_CREATE_TABLE
          | Ddl_Drop_Table _ \<Rightarrow> OP_DROP_TABLE | Ddl_Create_View _ \<Rightarrow> OP_CREATE_VIEW
          | Ddl_Create_Procedure _ \<Rightarrow> OP_CREATE_PROCEDURE)
      | Op_Other t \<Rightarrow> Without_Payload t)"

lemma type_names:
  "map_operation_type (Some ''SELECT'') = OP_SELECT" "map_operation_type (Some ''INSERT'') = OP_INSERT"
  "map_operation_type (Some ''UPDATE'') = OP_UPDATE" "map_operation_type (Some ''DELETE'') = OP_DELETE"
  "map_operation_type (Some ''EXECUTE_PROCEDURE'') = OP_EXECUTE_PROCEDURE" "map_operation_type (Some ''AUTHENTICATE'') = OP_AUTHENTICATE"
  "map_operation_type (Some ''CHECK_PERMISSION'') = OP_CHECK_PERMISSION" "map_operation_type (Some ''CREATE_USER'') = OP_CREATE_USER"
  "map_operation_type (Some ''GRANT'') = OP_GRANT" "map_operation_type (Some ''CREATE_TABLE'') = OP_CREATE_TABLE"
  "map_operation_type (Some ''DROP_TABLE'') = OP_DROP_TABLE" "map_operation_type (Some ''CREATE_VIEW'') = OP_CREATE_VIEW"
  "map_operation_type (Some ''CREATE_PROCEDURE'') = OP_CREATE_PROCEDURE"
  by (simp_all add: map_operation_type_def operation_names_def ci_eq_def)

lemma other_names: "map_operation_type (Some (other_name t)) = Without_Payload t"
  by (cases t) (simp_all add: map_operation_type_def operation_names_def ci_eq_def)

lemma type_back: "op_texts P I op \<Longrightarrow> map_operation_type (Some (fst (op_nodes op))) = kind_of op"
proof (cases op)
  case (Op_Ddl d)
  then show "op_texts P I op \<Longrightarrow> ?thesis" by (cases d) (auto simp: kind_of_def type_names)
qed (auto simp: kind_of_def type_names other_names)

lemma payload_back: "op_texts clean int32 op \<Longrightarrow> build_payload_xml (kind_of op) (op_element op) = op"
proof (cases op)
  case (Op_Ddl d)
  then show "op_texts clean int32 op \<Longrightarrow> ?thesis"
    unfolding op_element_def op_group_def [symmetric]
    by (cases d) (auto simp: kind_of_def user_back grant_back table_back drop_back view_back procedure_back simp del: ddl_nodes.simps)
qed (auto simp: op_element_def op_group_def [symmetric] kind_of_def select_back insert_back update_back delete_back execute_back
    authenticate_back check_back simp del: op_nodes.simps)

lemma operation_back:
  "op_texts clean int32 (io_request op) \<Longrightarrow> io_status op = no_status \<Longrightarrow> operation_xml (op_element (io_request op)) = op"
  using payload_back [of "io_request op"] type_back [of clean int32 "io_request op"]
  by (cases op) (simp add: operation_xml_def, simp add: op_element_def)

lemma dec_bit: "dec_int 0 = ''0''" "dec_int 1 = ''1''"
  by code_simp+

lemma dec_flag: "is_flag i \<Longrightarrow> flag (dec_int i = ''1'') = i"
  using dec_bit by (auto simp: is_flag_def flag_def)

lemma xml_back:
  assumes "request_texts clean int32 r" "ir_operations r \<noteq> []"
  shows "parse_xml (Some (Some (request_xml r))) = Inr (r\<lparr>ir_source_format := INPUT_FORMAT_XML\<rparr>)"
proof -
  have ops: "map (operation_xml \<circ> (op_element \<circ> io_request)) (ir_operations r) = ir_operations r"
    by (rule map_idI) (use assms(1) in \<open>auto simp: request_texts_def operation_back\<close>)
  have tx: "xml_named ''operation'' (Xml_Node True ''transaction'' as None (map (op_element \<circ> io_request) ns)) =
      map (op_element \<circ> io_request) ns" for as ns
    by (simp add: xml_named_def elements_def filter_id_conv op_element_def)
  show ?thesis
    using assms ops
    by (cases r) (simp add: parse_xml_def request_xml_def elements_def transaction_xml_def tx Let_def request_texts_def finish_level1_def
        empty_request_def dec_flag)
qed

subsection \<open>Writing a request as JSON\<close>

definition json_of_field :: "field_value \<Rightarrow> json" where
  "json_of_field fv = Json_Object [(''field_name'', Json_String (fv_name fv)),
      (''value'', Json_String (field_value_get fv)),
      (''client_date_format'', Json_String (fv_format fv))]"

definition json_of_row :: "insert_row \<Rightarrow> json" where
  "json_of_row row = Json_Object [(''fields'', Json_Array (map json_of_field row))]"

definition json_of_key :: "where_key \<Rightarrow> json" where
  "json_of_key k = Json_Object [(''field_name'', Json_String (wk_name k)),
      (''key_value'', Json_String (wk_value k)),
      (''client_date_format'', Json_String (wk_format k))]"

definition json_of_param :: "procedure_param \<Rightarrow> json" where
  "json_of_param p = Json_Object [(''param_name'', Json_String (pp_name p)),
      (''param_type'', Json_String (pp_type p)),
      (''param_direction'', Json_String (direction_name (pp_direction p))),
      (''param_value'', Json_String (pp_value p))]"

definition json_of_column :: "column_def \<Rightarrow> json" where
  "json_of_column c = Json_Object [(''name'', Json_String (cd_name c)),
      (''data_type'', Json_String (cd_type c)),
      (''length'', Json_Number (cd_length c)),
      (''precision'', Json_Number (cd_precision c)),
      (''scale'', Json_Number (cd_scale c)),
      (''nullable'', Json_Number (cd_nullable c)),
      (''default_value'', Json_String (cd_default c))]"

definition json_of_ddl_param :: "ddl_procedure_param \<Rightarrow> json" where
  "json_of_ddl_param p = Json_Object [(''name'', Json_String (dp_name p)),
      (''data_type'', Json_String (dp_type p)),
      (''mode'', Json_String (dp_mode p)),
      (''default_value'', Json_String (dp_default p))]"

text \<open>The members of an operation, but for its type.\<close>

fun ddl_members :: "ddl_request \<Rightarrow> (cstring \<times> json) list" where
  "ddl_members (Ddl_Create_User (Some r)) =
     [(''username'', Json_String (cu_username r)),
      (''identified_by'', Json_String (cu_identified_by r)),
      (''default_tablespace'', Json_String (cu_default_tablespace r)),
      (''temp_tablespace'', Json_String (cu_temp_tablespace r)),
      (''quota'', Json_String (cu_quota r)),
      (''quota_tablespace'', Json_String (cu_quota_tablespace r)),
      (''profile'', Json_String (cu_profile r)),
      (''roles'', Json_Array (map Json_String (cu_roles r)))]"
| "ddl_members (Ddl_Grant (Some r)) =
     [(''grantee'', Json_String (gr_grantee r)),
      (''object_type'', Json_String (gr_object_type r)),
      (''object_name'', Json_String (gr_object_name r)),
      (''owner'', Json_String (gr_owner r)),
      (''with_grant_option'', Json_Number (gr_with_grant_option r)),
      (''privileges'', Json_Array (map Json_String (gr_privileges r)))]"
| "ddl_members (Ddl_Create_Table (Some r)) =
     [(''table_name'', Json_String (ct_table r)),
      (''owner'', Json_String (ct_owner r)),
      (''columns'', Json_Array (map json_of_column (ct_columns r))),
      (''primary_key'', Json_Array (map Json_String (ct_key r)))]"
| "ddl_members (Ddl_Drop_Table (Some r)) =
     [(''table_name'', Json_String (dt_table r)),
      (''owner'', Json_String (dt_owner r)),
      (''cascade_constraints'', Json_Number (dt_cascade_constraints r)),
      (''purge'', Json_Number (dt_purge r)),
      (''confirm'', Json_Number (dt_confirm r))]"
| "ddl_members (Ddl_Create_View (Some r)) =
     [(''view_name'', Json_String (cv_name r)),
      (''owner'', Json_String (cv_owner r)),
      (''replace'', Json_Number (cv_replace r)),
      (''force'', Json_Number (cv_force r)),
      (''query'', Json_String (cv_query r)),
      (''columns'', Json_Array (map Json_String (cv_columns r)))]"
| "ddl_members (Ddl_Create_Procedure (Some r)) =
     [(''procedure_name'', Json_String (cp_name r)),
      (''owner'', Json_String (cp_owner r)),
      (''replace'', Json_Number (cp_replace r)),
      (''body'', Json_String (cp_body r)),
      (''parameters'', Json_Array (map json_of_ddl_param (cp_params r)))]"
| "ddl_members _ = []"

fun op_members :: "op_request \<Rightarrow> (cstring \<times> json) list" where
  "op_members (Op_Select (Some r)) =
     [(''sql'', Json_String (sr_sql r)),
      (''execute_async'', Json_Number (sr_execute_async r)),
      (''async_call_back_url'', Json_String (sr_async_call_back_url r))]"
| "op_members (Op_Insert (Some r)) =
     [(''table_name'', Json_String (ir_table r)),
      (''owner'', Json_String (ir_owner r)),
      (''rows'', Json_Array (map json_of_row (ir_rows r)))]"
| "op_members (Op_Update (Some r)) =
     [(''table_name'', Json_String (ur_table r)),
      (''owner'', Json_String (ur_owner r)),
      (''where'', Json_Array (map json_of_key (ur_keys r))),
      (''set'', Json_Array (map json_of_field (ur_fields r)))]"
| "op_members (Op_Delete (Some r)) =
     [(''table_name'', Json_String (dr_table r)),
      (''owner'', Json_String (dr_owner r)),
      (''where'', Json_Array (map json_of_key (dr_keys r)))]"
| "op_members (Op_Execute_Procedure (Some r)) =
     [(''procedure_name'', Json_String (xp_name r)),
      (''owner'', Json_String (xp_owner r)),
      (''parameters'', Json_Array (map json_of_param (xp_params r)))]"
| "op_members (Op_Authenticate (Some r)) =
     [(''username'', Json_String (aq_username r)),
      (''credential'', Json_String (aq_credential r))]"
| "op_members (Op_Check_Permission (Some r)) =
     [(''permission_code'', Json_String (cq_permission_code r))]"
| "op_members (Op_Ddl d) = ddl_members d"
| "op_members _ = []"

definition json_of_op :: "op_request \<Rightarrow> json" where
  "json_of_op op = Json_Object ((''type'', Json_String (fst (op_nodes op))) # op_members op)"

definition request_json :: "input_c_request \<Rightarrow> json" where
  "request_json r = Json_Object
     [(''external_audit_id'', Json_String (ir_external_audit_id r)), (''session_id'', Json_String (ir_session_id r)),
      (''transaction'', Json_Object
         [(''required'', Json_Number (ir_transaction_required r)), (''name'', Json_String (ir_transaction_name r)),
          (''operations'', Json_Array (map (json_of_op \<circ> io_request) (ir_operations r)))])]"

subsection \<open>Reading that back\<close>

lemmas json_read = read_members_def json_text_def json_trimmed_def json_flag_def json_int_def json_strings_items json_items_def clean_def
  flag_id

lemma json_field_back: "field_texts clean fv \<Longrightarrow> field_json (json_of_field fv) = fv"
  using set_value_back [of fv]
  by (cases fv) (simp add: field_json_def json_of_field_def json_read no_field_def json_value_def, simp add: field_texts_def clean_def)

lemma json_row_back: "\<forall>fv \<in> set row. field_texts clean fv \<Longrightarrow> row_json (json_of_row row) = row"
  by (simp add: row_json_def json_of_row_def json_items_def json_field_back map_idI)

lemma json_key_back: "key_texts clean k \<Longrightarrow> key_json (json_of_key k) = k"
  by (cases k) (simp add: key_json_def json_of_key_def key_texts_def json_read no_key_def)

lemma json_param_back: "procedure_param_texts clean p \<Longrightarrow> procedure_param_json (json_of_param p) = p"
  by (cases p)
    (simp add: procedure_param_json_def json_of_param_def procedure_param_texts_def json_read no_procedure_param_def json_direction_def direction_back)

lemma json_column_back: "column_texts clean int32 c \<Longrightarrow> column_json (json_of_column c) = c"
  by (cases c) (simp add: column_json_def json_of_column_def column_texts_def json_read no_column_def)

lemma json_ddl_param_back: "ddl_param_texts clean p \<Longrightarrow> ddl_param_json (json_of_ddl_param p) = p"
  by (cases p) (simp add: ddl_param_json_def json_of_ddl_param_def ddl_param_texts_def json_read no_ddl_param_def)

lemma strings_back: "item_list clean n limit xs \<Longrightarrow> string_items n limit (Json_Array (map Json_String xs)) = xs"
proof -
  assume a: "item_list clean n limit xs"
  have "string_items n limit (Json_Array (map Json_String xs)) = foldl (add_item limit (\<lambda>_. True)) [] xs"
    unfolding string_items_def json.case foldl_map
    by (rule foldl_cong) (use a in \<open>auto simp: item_list_def clean_def\<close>)
  with a show ?thesis using add_items [of "[]" xs limit "\<lambda>_. True"] by (simp add: item_list_def)
qed

lemma objects: "is_object (json_of_column c)" "is_object (json_of_ddl_param p)"
  by (simp_all add: is_object_def json_of_column_def json_of_ddl_param_def)

lemma json_columns_back:
  assumes "length cs \<le> DDL_MAX_TABLE_COLUMNS" "\<forall>c \<in> set cs. named_column c \<and> column_texts clean int32 c"
  shows "columns_json (map json_of_column cs) = cs"
proof -
  have "filter is_object (map json_of_column cs) = map json_of_column cs" by (simp add: filter_id_conv objects)
  then have "columns_json (map json_of_column cs) = foldl (add_item DDL_MAX_TABLE_COLUMNS named_column) [] cs"
    unfolding columns_json_def by (simp add: foldl_map) (rule foldl_cong, use assms in \<open>auto simp: json_column_back\<close>)
  with assms show ?thesis using add_items [of "[]" cs DDL_MAX_TABLE_COLUMNS named_column] by simp
qed

lemma json_params_back:
  assumes "length ps \<le> MAX_PROCEDURE_PARAMETERS" "\<forall>p \<in> set ps. named_param p \<and> ddl_param_texts clean p"
  shows "ddl_params_json (map json_of_ddl_param ps) = ps"
proof -
  have "filter is_object (map json_of_ddl_param ps) = map json_of_ddl_param ps" by (simp add: filter_id_conv objects)
  then have "ddl_params_json (map json_of_ddl_param ps) = foldl (add_item MAX_PROCEDURE_PARAMETERS named_param) [] ps"
    unfolding ddl_params_json_def by (simp add: foldl_map) (rule foldl_cong, use assms in \<open>auto simp: json_ddl_param_back\<close>)
  with assms show ?thesis using add_items [of "[]" ps MAX_PROCEDURE_PARAMETERS named_param] by simp
qed

lemmas json_payloads = select_json_def select_texts_def no_select_def insert_json_def insert_texts_def update_json_def update_texts_def
  delete_json_def delete_texts_def execute_procedure_json_def execute_procedure_texts_def authenticate_json_def authenticate_texts_def
  check_permission_json_def

lemmas json_ddl_payloads = create_user_json_def user_texts_def no_user_def quota_fallback_def grant_json_def grant_texts_def no_grant_def
  create_table_json_def table_texts_def drop_table_json_def drop_texts_def create_view_json_def view_texts_def
  create_procedure_json_def procedure_texts_def

lemmas json_lists = strings_back json_columns_back json_params_back json_field_back json_row_back json_key_back json_param_back

lemma json_user_back: "user_texts clean r \<Longrightarrow> create_user_json (json_of_op (Op_Ddl (Ddl_Create_User (Some r)))) = r"
  by (cases r) (auto simp: json_of_op_def json_ddl_payloads json_read json_lists map_idI)

lemma json_grant_back: "grant_texts clean r \<Longrightarrow> grant_json (json_of_op (Op_Ddl (Ddl_Grant (Some r)))) = r"
  by (cases r) (auto simp: json_of_op_def json_ddl_payloads json_read json_lists map_idI)

lemma json_table_back: "table_texts clean int32 r \<Longrightarrow> create_table_json (json_of_op (Op_Ddl (Ddl_Create_Table (Some r)))) = r"
  by (cases r) (auto simp: json_of_op_def json_ddl_payloads json_read json_lists map_idI)

lemma json_drop_back: "drop_texts clean r \<Longrightarrow> drop_table_json (json_of_op (Op_Ddl (Ddl_Drop_Table (Some r)))) = r"
  by (cases r) (auto simp: json_of_op_def json_ddl_payloads json_read json_lists map_idI)

lemma json_view_back: "view_texts clean r \<Longrightarrow> create_view_json (json_of_op (Op_Ddl (Ddl_Create_View (Some r)))) = r"
  by (cases r) (auto simp: json_of_op_def json_ddl_payloads json_read json_lists map_idI)

lemma json_procedure_back: "procedure_texts clean r \<Longrightarrow> create_procedure_json (json_of_op (Op_Ddl (Ddl_Create_Procedure (Some r)))) = r"
  by (cases r) (auto simp: json_of_op_def json_ddl_payloads json_read json_lists map_idI)

lemma json_select_back: "select_texts clean r \<Longrightarrow> select_json (json_of_op (Op_Select (Some r))) = r"
  by (cases r) (auto simp: json_of_op_def json_payloads json_read json_lists map_idI)

lemma json_insert_back: "insert_texts clean r \<Longrightarrow> insert_json (json_of_op (Op_Insert (Some r))) = r"
  by (cases r) (auto simp: json_of_op_def json_payloads json_read json_lists map_idI)

lemma json_update_back: "update_texts clean r \<Longrightarrow> update_json (json_of_op (Op_Update (Some r))) = r"
  by (cases r) (auto simp: json_of_op_def json_payloads json_read json_lists map_idI)

lemma json_delete_back: "delete_texts clean r \<Longrightarrow> delete_json (json_of_op (Op_Delete (Some r))) = r"
  by (cases r) (auto simp: json_of_op_def json_payloads json_read json_lists map_idI)

lemma json_execute_back: "execute_procedure_texts clean r \<Longrightarrow> execute_procedure_json (json_of_op (Op_Execute_Procedure (Some r))) = r"
  by (cases r) (auto simp: json_of_op_def json_payloads json_read json_lists map_idI)

lemma json_authenticate_back: "authenticate_texts clean r \<Longrightarrow> authenticate_json (json_of_op (Op_Authenticate (Some r))) = r"
  by (cases r) (auto simp: json_of_op_def json_payloads json_read json_lists map_idI)

lemma json_check_back: "clean 100 (cq_permission_code r) \<Longrightarrow> check_permission_json (json_of_op (Op_Check_Permission (Some r))) = r"
  by (cases r) (auto simp: json_of_op_def json_payloads json_read json_lists map_idI)

lemma json_payload_back: "op_texts clean int32 op \<Longrightarrow> build_payload_json (kind_of op) (json_of_op op) = op"
proof (cases op)
  case (Op_Ddl d)
  then show "op_texts clean int32 op \<Longrightarrow> ?thesis"
    by (cases d) (auto simp: kind_of_def json_user_back json_grant_back json_table_back json_drop_back json_view_back json_procedure_back)
qed (auto simp: kind_of_def json_select_back json_insert_back json_update_back json_delete_back json_execute_back
    json_authenticate_back json_check_back)

lemma json_operation_back:
  "op_texts clean int32 (io_request op) \<Longrightarrow> io_status op = no_status \<Longrightarrow> operation_json (json_of_op (io_request op)) = op"
  using json_payload_back [of "io_request op"] type_back [of clean int32 "io_request op"]
  by (cases op) (simp add: operation_json_def json_string_of_def, simp add: json_of_op_def)

lemma json_back:
  assumes "request_texts clean int32 r" "ir_operations r \<noteq> []"
  shows "parse_json (Some (request_json r)) = Inr (r\<lparr>ir_source_format := INPUT_FORMAT_JSON\<rparr>)"
proof -
  have ops: "map (operation_json \<circ> (json_of_op \<circ> io_request)) (ir_operations r) = ir_operations r"
    by (rule map_idI) (use assms(1) in \<open>auto simp: request_texts_def json_operation_back\<close>)
  have f: "flag (i = 1) = i" if "is_flag i" for i using that by (auto simp: is_flag_def flag_def)
  show ?thesis
    using assms ops
    by (cases r) (simp add: parse_json_def start_json_def request_json_def transaction_json_def json_string_of_def json_items_def Let_def
        request_texts_def finish_level1_def empty_request_def f)
qed

subsection \<open>The two formats agree\<close>

text \<open>C9. XML and JSON mean the same: for every request whose texts fit their arrays, do not begin or end with white space and
  whose lists keep their limits, the XML document and the JSON document that say it are both parsed to exactly this request, in
  every operation type, and differ only in the format the answer will have.\<close>

theorem formats_agree:
  assumes "request_texts clean int32 r" "ir_operations r \<noteq> []"
  shows "parse_xml (Some (Some (request_xml r))) = Inr (r\<lparr>ir_source_format := INPUT_FORMAT_XML\<rparr>) \<and>
    parse_json (Some (request_json r)) = Inr (r\<lparr>ir_source_format := INPUT_FORMAT_JSON\<rparr>)"
  using xml_back [OF assms] json_back [OF assms] by simp

definition sample_transfer :: input_c_request where
  "sample_transfer = (empty_request INPUT_FORMAT_JSON)
     \<lparr>ir_version := ''1.0'', ir_external_audit_id := ''A7'', ir_session_id := ''S1'', ir_transaction_required := 1, ir_operations :=
       map (\<lambda>op. \<lparr>io_request = op, io_status = no_status\<rparr>)
        [Op_Insert (Some \<lparr>ir_table = ''EMP'', ir_owner = [], ir_rows =
           [[\<lparr>fv_name = ''ID'', fv_value = ''7'', fv_large = None, fv_format = []\<rparr>]]\<rparr>),
         Op_Ddl (Ddl_Create_Table (Some \<lparr>ct_table = ''T'', ct_owner = ''HR'', ct_columns =
           [\<lparr>cd_name = ''ID'', cd_type = ''NUMBER'', cd_length = 0, cd_precision = 10, cd_scale = 2, cd_nullable = 0, cd_default = []\<rparr>],
           ct_key = [''ID'']\<rparr>))]\<rparr>"

lemma clean_samples:
  "clean 128 ''EMP''" "clean 128 []" "clean 128 ''ID''" "clean 4096 ''7''" "clean 64 []" "clean 128 ''T''" "clean 128 ''HR''"
  "clean 16 ''NUMBER''"
  by code_simp+

lemma sample_transfer_clean: "request_texts clean int32 sample_transfer \<and> ir_operations sample_transfer \<noteq> []"
  by (simp add: sample_transfer_def empty_request_def request_texts_def texts_defs clean_samples item_list_def is_flag_def int32_def
      named_column_def no_tx_name FIELD_VALUE_SIZE_def MAX_PRIMARY_KEY_COLUMNS_def DDL_MAX_TABLE_COLUMNS_def)

lemma formats_agree_witness:
  "parse_xml (Some (Some (request_xml sample_transfer))) = Inr (sample_transfer\<lparr>ir_source_format := INPUT_FORMAT_XML\<rparr>) \<and>
    parse_json (Some (request_json sample_transfer)) = Inr (sample_transfer\<lparr>ir_source_format := INPUT_FORMAT_JSON\<rparr>)"
  using sample_transfer_clean by (intro formats_agree) auto

subsection \<open>Where other documents differ\<close>

text \<open>A value that JSON gives as a number or as true is not read: the field is sent empty, without an error.\<close>

lemma json_number_dropped:
  "field_json (Json_Object [(''field_name'', Json_String ''AGE''), (''value'', Json_Number 5)]) = no_field\<lparr>fv_name := ''AGE''\<rparr>"
  by code_simp

text \<open>\<^verbatim>\<open>"required": true\<close> does not ask for a transaction.\<close>

lemma json_true_is_no_transaction:
  "map_option ir_transaction_required
     (transaction_json (Json_Object [(''required'', Json_Bool True), (''operations'', Json_Array [Json_Null])])
       (empty_request INPUT_FORMAT_JSON)) = Some 0"
  by code_simp

text \<open>XML values are trimmed, JSON values are not.\<close>

lemma only_xml_is_trimmed:
  "wk_value (key_xml (group ''key'' [leaf ''key_value'' '' 7 ''])) = ''7''"
  "wk_value (key_json (Json_Object [(''key_value'', Json_String '' 7 '')])) = '' 7 ''"
  by code_simp+

text \<open>Of two transactions in one XML document only the second is left.\<close>

lemma second_transaction_replaces:
  "parse_xml (Some (Some (group ''request'' [leaf ''external_audit_id'' ''A'', leaf ''session_id'' ''S'',
      group ''transaction'' [op_element (Op_Delete (Some \<lparr>dr_table = ''EMP'', dr_owner = [], dr_keys = []\<rparr>))],
      group ''transaction'' [op_element (Op_Check_Permission (Some \<lparr>cq_permission_code = ''P''\<rparr>))]]))) =
   Inr ((empty_request INPUT_FORMAT_XML)\<lparr>ir_version := ''1.0'', ir_external_audit_id := ''A'', ir_session_id := ''S'',
     ir_operations := [\<lparr>io_request = Op_Check_Permission (Some \<lparr>cq_permission_code = ''P''\<rparr>), io_status = no_status\<rparr>]\<rparr>)"
  by code_simp

text \<open>A document without a transaction is accepted, with no operation at all.\<close>

lemma no_transaction_accepted:
  "parse_xml (Some (Some (group ''request'' [leaf ''external_audit_id'' ''A'', leaf ''session_id'' ''-'']))) =
   Inr ((empty_request INPUT_FORMAT_XML)\<lparr>ir_version := ''1.0'', ir_external_audit_id := ''A'', ir_session_id := ''-''\<rparr>)"
  by code_simp

text \<open>Roles after the sixteenth are dropped, so the check of level 2 that counts them never fails.\<close>

lemma roles_dropped:
  "length (cu_roles (create_user_json (Json_Object [(''roles'', Json_Array (replicate 17 (Json_String ''DBA'')))]))) = 16"
  by code_simp

end
