(* ===== verification/Spec2Isabelle.thy ===== *)
theory Spec2Isabelle
  imports Generic_Queue Touch_Queue Queue_Manager Date_Normalize Query_Wrapping Dml_Builder
    Mssql_Text Cache_Runs Transaction_Runs Connection_Pool_Sessions Mssql_Sessions
    Mssql_Diag Auth_Life Resultset_Runs Dml_Requests Ddl_Outcomes Level2_Validate Level1_Roundtrip
begin

text \<open>
  A verification development for the data gateway of this repository (C, \<^verbatim>\<open>src/src\<close> and
  \<^verbatim>\<open>src/include\<close>).

  The program. Consumers (\<^verbatim>\<open>consumers/http\<close>, \<^verbatim>\<open>consumers/file\<close>) take requests in, queue them and
  hand them to worker threads; a worker authenticates the request (\<^verbatim>\<open>infra/Auth_Manager.c\<close>,
  \<^verbatim>\<open>session/\<close>), parses it (\<^verbatim>\<open>core/\<close>), checks it against cached metadata, builds the SQL text in
  the vendor-neutral core (\<^verbatim>\<open>execute/*_Execute_Module.c\<close>) with fragments that the driver's dialect
  supplies (\<^verbatim>\<open>driver_oracle.c\<close>, \<^verbatim>\<open>mssql_dialect.c\<close>), runs it through the driver, audits and answers
  it. Result sets, metadata and sessions are kept in instances of one cache (\<^verbatim>\<open>infra/cache.c\<close>).

  What is modelled, by theory.

  \<^item> \<open>C_Prelude\<close>: bytes, C strings (lists of characters without NUL), the C library's character and
    string functions that the sources call, \<^verbatim>\<open>snprintf\<close>/\<^verbatim>\<open>strncpy\<close> truncation, decimal printing.
  \<^item> \<open>Ring_Buffer\<close>: circular arrays, and the locale \<open>bounded_fifo\<close>, the contract of the queues; its
    lemmas (order, ownership, bound, for any interleaving) are proved once.
  \<^item> \<open>Generic_Queue\<close> (\<^verbatim>\<open>generic_queue.c\<close>), \<open>Touch_Queue\<close> (\<^verbatim>\<open>session_touch_queue.c\<close>),
    \<open>Queue_Manager\<close> (\<^verbatim>\<open>queue_manager.c\<close>): each operation under its mutex is one function on a record of
    the struct's fields; the waits on condition variables take the list of the states in which the
    thread is woken. Each interprets \<open>bounded_fifo\<close> on its own operations.
  \<^item> \<open>Date_Normalize\<close> (\<^verbatim>\<open>date_normalize.c\<close>): the mask tokenizer, the value parser, the completion and
    checking of the parts, the canonical text. A function per phase, errors as a sum.
  \<^item> \<open>Db_Type_Class\<close> (\<^verbatim>\<open>db_type_class.c\<close>): the classification of type names.
  \<^item> \<open>Sql_Dialect\<close>: the struct of dialect hooks (\<^verbatim>\<open>db_driver.h\<close>) and the locale \<open>dialect\<close>, what the
    core relies on. \<open>Oracle_Dialect\<close> and \<open>Mssql_Dialect\<close> model the hooks of the two drivers and interpret
    the locale; \<open>Mssql_Dialect\<close> also holds the T-SQL scanner \<^verbatim>\<open>mssql_sql_shape\<close>.
  \<^item> \<open>Query_Wrapping\<close>: what the wrapped queries of the SQL Server dialect look like to its own scanner.
  \<^item> \<open>Dml_Builder\<close>: the builders of INSERT, UPDATE and DELETE. Their lemmas are proved in the context of
    \<open>dialect\<close>, and hold for both drivers through the interpretations.
  \<^item> \<open>Mssql_Text\<close> (\<^verbatim>\<open>mssql_text.c\<close>): UTF-8 to UTF-16. \<open>Mssql_Diag\<close> (\<^verbatim>\<open>MSSQL_Pool.c\<close>): the way
    back for server diagnostics, the text of their records, and the connection string.
  \<^item> \<open>Cache_Hash\<close>, \<open>Cache\<close>, \<open>Cache_Runs\<close> (\<^verbatim>\<open>cache.c\<close>): hash functions on 64-bit words, key
    normalisation, the table with its borrowing protocol, and its runs: \<open>cache_step\<close> is the step relation
    of the operations, \<open>cache_reachable\<close> its reachable states.
  \<^item> \<open>Transaction_Manager\<close>, \<open>Transaction_Runs\<close> (\<^verbatim>\<open>Transaction_Manager.c\<close>): the life cycle of
    transaction handles on a context, the retry loop, identifiers and answers; \<open>tx_step\<close> is the step
    relation of a context, \<open>driver_contract\<close> what \<^verbatim>\<open>db_driver.h\<close> promises of commit and rollback.
  \<^item> \<open>Session_Pool\<close>: slot arrays and their accounts, and the locale \<open>session_pool\<close>, the contract of both
    pools of database sessions: borrowing, returning and maintenance, and the runs of the workers over it.
  \<^item> \<open>Connection_Pool\<close>, \<open>Connection_Pool_Runs\<close>, \<open>Connection_Pool_Sessions\<close> (\<^verbatim>\<open>Connection_Pool.c\<close>):
    the Oracle pool over an OCI library that counts its handles. \<open>Mssql_Pool\<close>, \<open>Mssql_Sessions\<close>
    (\<^verbatim>\<open>MSSQL_Pool.c\<close>): connections, commit mode, the shared environment and the pool over ODBC. Both
    interpret \<open>session_pool\<close>; their invariants say that every handle allocated is in exactly one slot.

  \<^item> \<open>C_Parsing\<close>: \<^verbatim>\<open>strtol\<close>, \<^verbatim>\<open>atoi\<close> and \<^verbatim>\<open>strtok\<close>, with the lemmas that they read back what is printed and joined.
  \<^item> \<open>Cache_Store\<close>: the locale \<open>expiring_store\<close>, what the clients of the cache rely on (a key holds a
    document until it lapses; a lent one is not replaced), interpreted on the operations of \<open>Cache\<close>.
  \<^item> \<open>Session_Cache\<close> (\<^verbatim>\<open>session_cache.c\<close>): the encoding of session records and the operations on the cache.
    \<open>Authz\<close> (\<^verbatim>\<open>authz_cache.c\<close>, \<^verbatim>\<open>Authz_Manager.c\<close>): the permission lists and the check.
  \<^item> \<open>Xml_Helper\<close> (\<^verbatim>\<open>XML_Helper.c\<close>, \<^verbatim>\<open>Response_Writer.c\<close>): the XML builder over its growing buffer, the document
    of a result set, and the scanner of \<^verbatim>\<open>Session_Manager.c\<close> that reads it.
  \<^item> \<open>Session_Manager\<close>, \<open>Session_Life\<close> (\<^verbatim>\<open>Session_Manager.c\<close>): creation, validation, touch in its two critical
    sections, end and reconciliation; \<open>session_step\<close> is the step relation of the workers on the session cache.
  \<^item> \<open>Auth_Manager\<close>, \<open>Auth_Life\<close> (\<^verbatim>\<open>Auth_Manager.c\<close>, \<^verbatim>\<open>ldap_auth_helper.c\<close>, \<^verbatim>\<open>ldap_bind_helper.c\<close>,
    \<^verbatim>\<open>crypt_helper.c\<close>): the decision who gets a session, over an environment of the libraries and the driver;
    who is admitted, the session that results, and the lockout of local accounts.

  \<^item> \<open>Sql_Dependencies\<close> (\<^verbatim>\<open>core/level 2/sql_dependency_extractor.c\<close>): the stages of the extraction of tables and
    columns from a SELECT, each a function on the text. \<open>Sql_Words\<close>: how its keyword search works on the words of
    a text. \<open>Sql_Deps_Exact\<close>, \<open>Sql_Deps_Query\<close>: the queries it supports as abstract syntax, that their text gives
    back exactly their tables and columns, and what happens to other texts.
  \<^item> \<open>Resultset_Cache\<close>, \<open>Resultset_Runs\<close> (\<^verbatim>\<open>resultset_cache.c\<close>, \<^verbatim>\<open>Execute_Query_Batch_Module.c\<close>,
    \<^verbatim>\<open>Response_Writer.c\<close>): the cache of query results and the SELECT path around it, which composes the extraction
    with the cache; \<open>query_cache_run\<close> are the states the workers reach, with the history of what was stored.

  \<^item> \<open>Metadata_Cache\<close> (\<^verbatim>\<open>metadata_cache.c\<close>, \<^verbatim>\<open>db_metadata.h\<close>): column metadata as the bytes of its structs in a
    client of the cache; the question to the driver is an argument.
  \<^item> \<open>Field_Validate\<close> (\<^verbatim>\<open>Insert_Validate_Module.c\<close>): one value against its column, a function per type family.
    \<open>Level2_Dml\<close> (\<^verbatim>\<open>core/level 2/Level2_Parser.c\<close>): the validators of INSERT, UPDATE and DELETE, which rewrite
    the request; they compose \<open>Metadata_Cache\<close>, \<open>Date_Normalize\<close> and \<open>Field_Validate\<close>. \<open>Level2_Twice\<close>: a request
    that was accepted is accepted again unchanged, and what acceptance guarantees.
  \<^item> \<open>Dml_Requests\<close> (\<open>build_*_ctx_from_request\<close> of the three execute modules): from a validated request to the
    statement of \<open>Dml_Builder\<close> and the values bound to it.

  \<^item> \<open>Requests\<close> (\<^verbatim>\<open>Request_Response_Types.h\<close>): the request that level 1 hands on, a constructor per operation type.
    \<open>Response_Object\<close> (\<^verbatim>\<open>response_object.c\<close>, \<^verbatim>\<open>dispatcher.c\<close>): the response and the error envelope, with a reader of
    JSON objects that gives the members of the envelope back.
  \<^item> \<open>Ddl_Modules\<close>, \<open>Ddl_Text\<close> (\<^verbatim>\<open>DDL_Modules.c\<close>): the six operations that change the schema. A check is a list of rules,
    a statement a list of pieces written into a buffer; what the checks accept, and when the buffers hold the statement.
    \<open>Ddl_Execute\<close> (\<^verbatim>\<open>DDL_Execute_Module.c\<close>, handlers of \<^verbatim>\<open>dispatcher.c\<close>) runs the statements on the state of
    \<open>Transaction_Manager\<close>; \<open>Ddl_Outcomes\<close>: what reaches the driver, what the client is told, and what the buffers cut.
  \<^item> \<open>Level2_Validate\<close> (\<^verbatim>\<open>core/level 2/Level2_Parser.c\<close>): the other validators and the loop over a request.

  \<^item> \<open>Level1_Documents\<close>, \<open>Level1_Parser\<close> (\<^verbatim>\<open>core/level 1/Level1_Parser.c\<close>): the first level of parsing over documents as
    libxml2 and cJSON hand them out; a payload is read by a table with one setter for each name the code compares with.
    \<open>Level1_Texts\<close>: what it accepts fits its arrays, as \<open>Ddl_Text\<close> needs it. \<open>Level1_Roundtrip\<close>: both formats say the same.

  Conventions. The C code runs each operation under one mutex or rwlock, so an operation is one function
  from state to state; what the environment decides (clock, allocator, wake-ups, the answer of a driver
  hook) is an argument. Pointers handed to callers appear as addresses where aliasing matters (the cache)
  and as values elsewhere. Failure codes are kept where the callers distinguish them and are \<open>None\<close>
  otherwise. Widths are kept where wrap-around can happen (hashes, bucket counts, the
  \<^verbatim>\<open>time_t\<close> sentinel); elsewhere counters are \<open>nat\<close> or \<open>int\<close> and an invariant shows that they
  stay in range. No definition needs fuel: loops are structural or carry a measure, and the only loop that
  may not end, the rounding of the bucket count, is a \<open>partial_function\<close> whose divergence is characterised.

  What is not modelled: sockets, HTTP and file input, LDAP and the cryptographic helper, the OCI and ODBC
  client libraries and the code whose only content is calls to them, logging, the XML and JSON libraries (what they read is a parameter).
\<close>

end
